(* ===== verification/Prelude.thy ===== *)
theory Prelude
  imports Main "HOL-Library.Multiset"
begin

text \<open>
  Shared vocabulary of the development: instants and durations as the Go package \<open>time\<close>
  uses them, the due-time combinators the packages repeat (\<open>earlier\<close>, \<open>earlierTime\<close>),
  the collections of proof hints, and the generic lemmas on lists and on the in-place update
  of one cell that the components share.
\<close>

section \<open>Hint collections\<close>

text \<open>
  \<open>due_simps\<close> holds the facts about due times, \<open>count_simps\<close> the facts about the number
  of cells that satisfy a test, \<open>wf_intros\<close> the preservation lemmas of the components.
\<close>

named_theorems due_simps
named_theorems count_simps
named_theorems wf_intros

section \<open>Instants and durations\<close>

text \<open>
  A Go \<open>time.Time\<close> is an instant: the number of nanoseconds since the zero time. The zero
  value is the instant \<open>0\<close>, which \<open>IsZero\<close> tests for. A \<open>time.Duration\<close> is a number of
  nanoseconds. The range of \<open>int64\<close> durations (292 years) is not modelled.
\<close>

type_synonym time = int
type_synonym duration = int

definition zero_time :: time where
  "zero_time = 0"

definition is_zero :: "time \<Rightarrow> bool" where
  "is_zero t \<longleftrightarrow> t = zero_time"

definition time_after :: "time \<Rightarrow> time \<Rightarrow> bool" where
  "time_after a b \<longleftrightarrow> b < a"

definition time_before :: "time \<Rightarrow> time \<Rightarrow> bool" where
  "time_before a b \<longleftrightarrow> a < b"

definition time_add :: "time \<Rightarrow> duration \<Rightarrow> time" where
  "time_add t d = t + d"

definition second :: duration where
  "second = 1000000000"

definition minute :: duration where
  "minute = 60 * second"

definition hour :: duration where
  "hour = 60 * minute"

lemmas time_defs = zero_time_def is_zero_def time_after_def time_before_def time_add_def

lemmas duration_defs = second_def minute_def hour_def

section \<open>Due times\<close>

text \<open>
  \<open>earlier\<close> (the same code in \<open>routing/duetime.go\<close>, \<open>publish/duetime.go\<close> and
  \<open>behaviour.go\<close>): the zero time means that nothing is scheduled.
\<close>

definition earlier :: "time \<Rightarrow> time \<Rightarrow> time" where
  "earlier a b =
     (if is_zero a then b
      else if is_zero b then a
      else if time_before b a then b
      else a)"

text \<open>\<open>earlierTime\<close> of \<open>prefix/table.go\<close>, which compares the plain instants.\<close>

definition earlier_time :: "time \<Rightarrow> time \<Rightarrow> time" where
  "earlier_time a b = (if time_before a b then a else b)"

lemma earlier_zero_iff [due_simps]: "earlier a b = 0 \<longleftrightarrow> a = 0 \<and> b = 0"
  by (simp add: earlier_def time_defs)

lemma earlier_zero_left [simp]: "earlier 0 b = b"
  by (simp add: earlier_def time_defs)

lemma earlier_zero_right [simp]: "earlier a 0 = a"
  by (simp add: earlier_def time_defs)

lemma earlier_nonzero [due_simps]:
  "a \<noteq> 0 \<Longrightarrow> b \<noteq> 0 \<Longrightarrow> earlier a b = min a b"
  by (simp add: earlier_def time_defs)

lemma earlier_commute: "earlier a b = earlier b a"
  by (simp add: earlier_def time_defs)

lemma earlier_assoc: "earlier (earlier a b) c = earlier a (earlier b c)"
  by (simp add: earlier_def time_defs)

text \<open>
  The loops that scan for a deadline keep the earliest seen so far, starting from the zero
  time. \<open>earliest_from\<close> is that loop over the instants it considers.
\<close>

fun earliest_from :: "time \<Rightarrow> time list \<Rightarrow> time" where
  "earliest_from e [] = e"
| "earliest_from e (d # ds) =
     earliest_from (if is_zero e \<or> time_before d e then d else e) ds"

lemma earliest_from_nonzero:
  assumes "e \<noteq> 0" "\<forall>d \<in> set ds. d \<noteq> 0"
  shows "earliest_from e ds = Min (insert e (set ds))"
  using assms
proof (induction ds arbitrary: e)
  case Nil
  then show ?case by simp
next
  case (Cons d ds)
  have "earliest_from e (d # ds) = earliest_from (min d e) ds"
    using Cons.prems by (simp add: time_defs min_def)
  also have "\<dots> = Min (insert (min d e) (set ds))"
    using Cons.prems by (intro Cons.IH) (auto simp: min_def)
  also have "\<dots> = Min (insert e (set (d # ds)))"
    by (cases "set ds = {}") (simp_all add: ac_simps)
  finally show ?case .
qed

lemma earliest_from_zero [due_simps]:
  assumes "\<forall>d \<in> set ds. d \<noteq> 0"
  shows "earliest_from 0 ds = (if ds = [] then 0 else Min (set ds))"
proof (cases ds)
  case Nil
  then show ?thesis by simp
next
  case (Cons d ds')
  with assms show ?thesis by (simp add: time_defs earliest_from_nonzero)
qed

lemma earliest_from_member: "earliest_from e ds \<in> insert e (set ds)"
proof (induction ds arbitrary: e)
  case Nil
  then show ?case by simp
next
  case (Cons d ds)
  from Cons.IH [of "if is_zero e \<or> time_before d e then d else e"] show ?case
    by (auto split: if_splits)
qed

text \<open>The loops that call \<open>earlier\<close> itself, over instants none of which is zero.\<close>

lemma foldl_earlier_nonzero:
  assumes "e \<noteq> 0" "\<forall>d \<in> set ds. d \<noteq> 0"
  shows "foldl earlier e ds = Min (insert e (set ds))"
  using assms
proof (induction ds arbitrary: e)
  case (Cons d ds)
  have "foldl earlier e (d # ds) = foldl earlier (min e d) ds"
    using Cons.prems by (simp add: due_simps)
  also have "\<dots> = Min (insert (min e d) (set ds))"
    using Cons.prems by (intro Cons.IH) (auto simp: min_def)
  also have "\<dots> = Min (insert e (set (d # ds)))"
    by (cases "set ds = {}") (simp_all add: ac_simps)
  finally show ?case .
qed simp

lemma foldl_earlier [due_simps]:
  "\<forall>d \<in> set ds. d \<noteq> 0 \<Longrightarrow> foldl earlier 0 ds = (if ds = [] then 0 else Min (set ds))"
  by (cases ds) (simp_all add: foldl_earlier_nonzero)

section \<open>Counting the cells that satisfy a test\<close>

text \<open>
  Several machines keep a counter next to a collection of cells and must keep the two in
  step. \<open>count_of P xs\<close> is the number the counter stands for.
\<close>

definition count_of :: "('a \<Rightarrow> bool) \<Rightarrow> 'a list \<Rightarrow> int" where
  "count_of P xs = int (length (filter P xs))"

lemma count_of_Nil [simp]: "count_of P [] = 0"
  by (simp add: count_of_def)

lemma count_of_Cons [simp]:
  "count_of P (x # xs) = (if P x then 1 else 0) + count_of P xs"
  by (simp add: count_of_def)

lemma count_of_append [simp]: "count_of P (xs @ ys) = count_of P xs + count_of P ys"
  by (simp add: count_of_def)

lemma count_of_nonneg [simp]: "0 \<le> count_of P xs"
  by (simp add: count_of_def)

lemma count_of_cong: "(\<And>x. x \<in> set xs \<Longrightarrow> P x = Q x) \<Longrightarrow> count_of P xs = count_of Q xs"
  unfolding count_of_def by (metis filter_cong)

lemma count_of_mset: "mset xs = mset ys \<Longrightarrow> count_of P xs = count_of P ys"
  unfolding count_of_def by (metis mset_filter size_mset)

lemma count_of_pos_iff: "0 < count_of P xs \<longleftrightarrow> (\<exists>x \<in> set xs. P x)"
  unfolding count_of_def by (auto simp: filter_empty_conv)

lemma count_of_zero_iff: "count_of P xs = 0 \<longleftrightarrow> (\<forall>x \<in> set xs. \<not> P x)"
  unfolding count_of_def by (auto simp: filter_empty_conv)

lemma count_of_le_length: "count_of P xs \<le> int (length xs)"
  by (simp add: count_of_def)

text \<open>
  The store-passing form: a cell of the store \<open>s\<close> is read through an injective address
  \<open>f\<close>. Writing one cell changes the count by what the cell was and what it becomes.
\<close>

lemma count_of_update [count_simps]:
  assumes "distinct (map f xs)" "x \<in> set xs" "f x < length s"
  shows "count_of (\<lambda>y. P (s[f x := v] ! f y)) xs =
         count_of (\<lambda>y. P (s ! f y)) xs - (if P (s ! f x) then 1 else 0) + (if P v then 1 else 0)"
proof -
  from \<open>x \<in> set xs\<close> obtain as bs where xs: "xs = as @ x # bs"
    by (meson split_list)
  with assms(1) have "f x \<notin> f ` set as" "f x \<notin> f ` set bs"
    by auto
  then have "count_of (\<lambda>y. P (s[f x := v] ! f y)) as = count_of (\<lambda>y. P (s ! f y)) as"
    and "count_of (\<lambda>y. P (s[f x := v] ! f y)) bs = count_of (\<lambda>y. P (s ! f y)) bs"
    by (intro count_of_cong; metis imageI nth_list_update_neq)+
  with xs assms(3) show ?thesis by simp
qed

lemma count_of_store_append:
  assumes "\<forall>x \<in> set xs. f x < length s"
  shows "count_of (\<lambda>y. P ((s @ t) ! f y)) xs = count_of (\<lambda>y. P (s ! f y)) xs"
  using assms by (intro count_of_cong) (simp add: nth_append)

section \<open>Decimal numerals\<close>

text \<open>The \<open>%d\<close> verb of package \<open>fmt\<close> on a natural number.\<close>

definition digit_char :: "nat \<Rightarrow> char" where
  "digit_char d = char_of (48 + d)"

fun decimal :: "nat \<Rightarrow> string" where
  "decimal n = (if n < 10 then [digit_char n] else decimal (n div 10) @ [digit_char (n mod 10)])"

declare decimal.simps [simp del]

lemma of_digit_char: "d < 10 \<Longrightarrow> of_char (digit_char d) = 48 + d"
  by (simp add: digit_char_def)

lemma digit_char_eq_iff: "d < 10 \<Longrightarrow> e < 10 \<Longrightarrow> digit_char d = digit_char e \<longleftrightarrow> d = e"
  by (metis of_digit_char add_left_imp_eq)

lemma decimal_nonempty [simp]: "decimal n \<noteq> []"
  by (subst decimal.simps) simp

lemma Nil_neq_decimal [simp]: "[] \<noteq> decimal n"
  by (subst decimal.simps) simp

lemma decimal_inject: "decimal m = decimal n \<longleftrightarrow> m = n"
proof
  show "decimal m = decimal n \<Longrightarrow> m = n"
  proof (induction m arbitrary: n rule: less_induct)
    case (less m)
    have last: "last (decimal k) = digit_char (k mod 10)" for k
      by (subst decimal.simps) simp
    have butlast: "butlast (decimal k) = (if k < 10 then [] else decimal (k div 10))" for k
      by (subst decimal.simps) simp
    from less.prems last have mods: "m mod 10 = n mod 10"
      by (metis digit_char_eq_iff mod_less_divisor zero_less_numeral)
    from less.prems butlast have tails:
      "(if m < 10 then [] else decimal (m div 10)) = (if n < 10 then [] else decimal (n div 10))"
      by metis
    show ?case
    proof (cases "m < 10")
      case True
      with tails have "n < 10" by (auto split: if_splits)
      with True mods show ?thesis by simp
    next
      case False
      with tails have "decimal (m div 10) = decimal (n div 10)" by (auto split: if_splits)
      with False less.IH [of "m div 10"] have "m div 10 = n div 10" by simp
      with mods show ?thesis by (metis div_mult_mod_eq)
    qed
  qed
qed simp

end
