(* ===== verification/Coordt.thy ===== *)
theory Coordt
  imports Prelude
begin

text \<open>
  The core types of \<open>coordt\<close>: activity ids, the sentinel errors, the configuration error and
  the statistics records; and the interface of the external package \<open>go-libdht/kad\<close> the whole
  library is generic over. A Kademlia key type \<open>K\<close> and a node id type \<open>N\<close> are type parameters
  of the Go code; here they are type variables, and the methods of the two interfaces are the
  fields of a record \<open>kad_ops\<close> that the definitions take as an argument. Two keys of one key
  type are equal in the sense of \<open>key.Equal\<close> when they are the same bit string, which is
  equality on the type variable.
\<close>

section \<open>Activities and errors\<close>

type_synonym activity_id = string

definition InvalidActivityID :: activity_id where
  "InvalidActivityID = ''''"

datatype go_error =
    ErrNodeNotFound
  | ErrValueNotFound
  | ErrValueNotAccepted
  | ErrQueryTimeout
  | ErrSkipNode
  | ErrSkipRemaining
  | ErrEventDropped
  | ErrRequestDropped
  | ConfigurationError string "go_error option"
  | ErrorText string
  | WrappedError string go_error

type_synonym 'a go_result = "go_error + 'a"

text \<open>
  The sentinel errors of the behaviours, \<open>ErrEventDropped\<close> (\<open>behaviour.go\<close>) and \<open>ErrRequestDropped\<close>
  (\<open>network.go\<close>), are values of the same type; \<open>WrappedError\<close> is \<open>fmt.Errorf(prefix + "%w", err)\<close>.
  The \<open>Error\<close> method of each error and the \<open>Unwrap\<close> method of a configuration error.
\<close>

fun error_string :: "go_error \<Rightarrow> string" where
  "error_string ErrNodeNotFound = ''node not found''"
| "error_string ErrValueNotFound = ''value not found''"
| "error_string ErrValueNotAccepted = ''value not accepted''"
| "error_string ErrQueryTimeout = ''query timed out''"
| "error_string ErrSkipNode = ''skip node''"
| "error_string ErrSkipRemaining = ''skip remaining nodes''"
| "error_string (ConfigurationError component None) = ''configuration error: '' @ component"
| "error_string (ConfigurationError component (Some e)) =
     ''configuration error: '' @ component @ '': '' @ error_string e"
| "error_string ErrEventDropped = ''event dropped''"
| "error_string ErrRequestDropped = ''request dropped''"
| "error_string (ErrorText s) = s"
| "error_string (WrappedError s e) = s @ error_string e"

fun unwrap_error :: "go_error \<Rightarrow> go_error option" where
  "unwrap_error (ConfigurationError component e) = e"
| "unwrap_error (WrappedError s e) = Some e"
| "unwrap_error _ = None"

text \<open>\<open>errors.Is\<close> of the standard library: the error itself or one it wraps.\<close>

fun errors_is :: "go_error \<Rightarrow> go_error \<Rightarrow> bool" where
  "errors_is (WrappedError s e) target = (WrappedError s e = target \<or> errors_is e target)"
| "errors_is (ConfigurationError c (Some e)) target =
     (ConfigurationError c (Some e) = target \<or> errors_is e target)"
| "errors_is e target = (e = target)"

text \<open>A validation error: \<open>&coordt.ConfigurationError{Component: c, Err: fmt.Errorf(msg)}\<close>.\<close>

definition config_error :: "string \<Rightarrow> string \<Rightarrow> go_error" where
  "config_error component msg = ConfigurationError component (Some (ErrorText msg))"

text \<open>
  A \<open>Validate\<close> method is a sequence of guards, each returning its own configuration error.
  \<open>first_error c gs\<close> is that sequence: the message of the first guard that fires.
\<close>

fun first_error :: "string \<Rightarrow> (bool \<times> string) list \<Rightarrow> go_error option" where
  "first_error component [] = None"
| "first_error component ((bad, msg) # gs) =
     (if bad then Some (config_error component msg) else first_error component gs)"

lemma first_error_None_iff: "first_error c gs = None \<longleftrightarrow> (\<forall>g \<in> set gs. \<not> fst g)"
  by (induction c gs rule: first_error.induct) auto

lemma first_error_Some_component:
  "first_error c gs = Some e \<Longrightarrow> \<exists>msg. e = config_error c msg \<and> (True, msg) \<in> set gs"
  by (induction c gs rule: first_error.induct) (auto split: if_splits)

section \<open>Statistics\<close>

text \<open>\<open>coordt.QueryStats\<close>, the statistics a query reports to the caller of the coordinator.\<close>

record coordt_query_stats =
  cqs_start :: time
  cqs_end :: time
  cqs_requests :: int
  cqs_success :: int
  cqs_failure :: int
  cqs_exhausted :: bool

section \<open>The interface of the Kademlia package\<close>

text \<open>
  \<open>node_key\<close> is \<open>NodeID.Key\<close>, \<open>node_str\<close> is \<open>NodeID.String\<close>, \<open>key_bit_len\<close> is \<open>Key.BitLen\<close>
  (a property of the key type), \<open>key_bit\<close> is \<open>Key.Bit\<close>, \<open>key_cpl\<close> is
  \<open>Key.CommonPrefixLength\<close>, \<open>key_xor\<close> is \<open>Key.Xor\<close>, \<open>key_compare\<close> is \<open>Key.Compare\<close> and
  \<open>key_hex\<close> is \<open>key.HexString\<close>.
\<close>

record ('k, 'n) kad_ops =
  node_key :: "'n \<Rightarrow> 'k"
  node_str :: "'n \<Rightarrow> string"
  key_bit_len :: nat
  key_bit :: "'k \<Rightarrow> nat \<Rightarrow> bool"
  key_cpl :: "'k \<Rightarrow> 'k \<Rightarrow> int"
  key_xor :: "'k \<Rightarrow> 'k \<Rightarrow> 'k"
  key_compare :: "'k \<Rightarrow> 'k \<Rightarrow> int"
  key_hex :: "'k \<Rightarrow> string"

text \<open>\<open>a\<close> is at least as near to \<open>target\<close> as \<open>b\<close> in the XOR metric.\<close>

definition nearer_eq :: "('k, 'n) kad_ops \<Rightarrow> 'k \<Rightarrow> 'k \<Rightarrow> 'k \<Rightarrow> bool" where
  "nearer_eq kd target a b \<longleftrightarrow> key_compare kd (key_xor kd target a) (key_xor kd target b) \<le> 0"

end
