(* ===== verification/NodeIter.thy ===== *)
theory NodeIter
  imports Coordt
begin

text \<open>
  \<open>query/node.go\<close> and \<open>query/iter.go\<close>: the state a query keeps for a node, the iterator
  interface a query walks its nodes with, and the two iterators of the package. The sequential
  iterator is self-contained; the closest-nodes iterator wraps the trie of \<open>go-libdht\<close>, which
  is a parameter.

  A \<open>*NodeStatus\<close> is shared between the iterator and the query, and only its \<open>State\<close> field is
  ever assigned. The pointer is modelled by the \<open>NodeID\<close> it was created with and the address
  of its \<open>State\<close> cell; the cells live in the store of the query (\<open>q_states\<close> in theory
  \<open>Query\<close>).
\<close>

section \<open>Node states\<close>

datatype node_state =
    StateNodeNotContacted
  | StateNodeWaiting time
  | StateNodeUnresponsive
  | StateNodeFailed
  | StateNodeSucceeded

fun is_waiting :: "node_state \<Rightarrow> bool" where
  "is_waiting (StateNodeWaiting d) = True"
| "is_waiting _ = False"

lemma is_waiting_iff: "is_waiting s \<longleftrightarrow> (\<exists>d. s = StateNodeWaiting d)"
  by (cases s) auto

record 'n node_status =
  ns_node :: 'n
  ns_addr :: nat

section \<open>The iterator interface\<close>

text \<open>
  \<open>it_list\<close> is the sequence of entries that \<open>Each\<close> visits; \<open>each_entries\<close> is its loop, which
  stops at the first entry for which the callback returns true. The callback threads the state
  it captures.
\<close>

record ('k, 'n, 'it) iter_ops =
  it_add :: "'n node_status \<Rightarrow> 'it \<Rightarrow> 'it"
  it_find :: "'k \<Rightarrow> 'it \<Rightarrow> 'n node_status option"
  it_list :: "'it \<Rightarrow> 'n node_status list"

fun each_entries :: "('e \<Rightarrow> 's \<Rightarrow> 's \<times> bool) \<Rightarrow> 'e list \<Rightarrow> 's \<Rightarrow> 's \<times> bool" where
  "each_entries fn [] s = (s, False)"
| "each_entries fn (e # es) s =
     (case fn e s of (s', stop) \<Rightarrow> if stop then (s', True) else each_entries fn es s')"

lemma each_entries_append:
  "each_entries fn (xs @ ys) s =
     (case each_entries fn xs s of (s', stop) \<Rightarrow> if stop then (s', True) else each_entries fn ys s')"
  by (induction xs arbitrary: s) (auto split: prod.splits)

text \<open>An invariant of the callback is an invariant of the loop.\<close>

lemma each_entries_invariant:
  assumes "\<And>e s. e \<in> set es \<Longrightarrow> I s \<Longrightarrow> I (fst (fn e s))" and "I s"
  shows "I (fst (each_entries fn es s))"
  using assms
proof (induction es arbitrary: s)
  case Nil
  then show ?case by simp
next
  case (Cons e es)
  obtain s' stop where e: "fn e s = (s', stop)" by fastforce
  from Cons.prems(1) [of e s] Cons.prems(2) e have "I s'" by simp
  with Cons e show ?case by auto
qed

text \<open>
  A loop either runs to the end, keeping an invariant of the entries passed so far, or stops at
  one entry with the invariant holding for the entries before it.
\<close>

lemma each_entries_cases:
  assumes base: "I [] s"
    and step: "\<And>xs e ys s s'. es = xs @ e # ys \<Longrightarrow> I xs s \<Longrightarrow> fn e s = (s', False) \<Longrightarrow> I (xs @ [e]) s'"
  obtains (ended) s' where "each_entries fn es s = (s', False)" "I es s'"
    | (stopped) xs e ys s0 s' where "es = xs @ e # ys" "I xs s0" "fn e s0 = (s', True)"
        "each_entries fn es s = (s', True)"
proof -
  have "(\<exists>s'. each_entries fn ys s = (s', False) \<and> I es s') \<or>
        (\<exists>xs e zs s0 s'. es = xs @ e # zs \<and> I xs s0 \<and> fn e s0 = (s', True) \<and>
           each_entries fn ys s = (s', True))"
    if "es = done @ ys" "I done s" for "done" ys s
    using that
  proof (induction ys arbitrary: "done" s)
    case Nil
    then show ?case by simp
  next
    case (Cons e ys)
    obtain s1 stop where e: "fn e s = (s1, stop)" by fastforce
    show ?case
    proof (cases stop)
      case True
      with e Cons.prems show ?thesis by auto
    next
      case False
      with e step [OF Cons.prems] have "I (done @ [e]) s1" by simp
      with Cons.IH [of "done @ [e]" s1] Cons.prems(1) e False show ?thesis by simp
    qed
  qed
  from this [of "[]" es s] base ended stopped show ?thesis by auto
qed

text \<open>
  What the query relies on: every entry has its own cell, a fresh entry is either added to the
  sequence or ignored because its key is present, and \<open>Find\<close> returns an entry of the sequence
  with the key asked for, whenever there is one.
\<close>

locale node_iter_spec =
  fixes kd :: "('k, 'n) kad_ops"
    and io :: "('k, 'n, 'it) iter_ops"
    and valid :: "'it \<Rightarrow> bool"
  assumes iter_distinct: "valid it \<Longrightarrow> distinct (map ns_addr (it_list io it))"
    and iter_add_valid:
      "valid it \<Longrightarrow> ns_addr r \<notin> ns_addr ` set (it_list io it) \<Longrightarrow> valid (it_add io r it)"
    and iter_add_list:
      "valid it \<Longrightarrow> ns_addr r \<notin> ns_addr ` set (it_list io it) \<Longrightarrow>
         mset (it_list io (it_add io r it)) = add_mset r (mset (it_list io it)) \<or>
         (it_add io r it = it \<and>
          (\<exists>s \<in> set (it_list io it). node_key kd (ns_node s) = node_key kd (ns_node r)))"
    and iter_find_Some:
      "valid it \<Longrightarrow> it_find io k it = Some r \<Longrightarrow>
         r \<in> set (it_list io it) \<and> node_key kd (ns_node r) = k"
    and iter_find_None:
      "valid it \<Longrightarrow> it_find io k it = None \<Longrightarrow> r \<in> set (it_list io it) \<Longrightarrow>
         node_key kd (ns_node r) \<noteq> k"
begin

lemma iter_add_set:
  assumes "valid it" "ns_addr r \<notin> ns_addr ` set (it_list io it)"
  shows "set (it_list io it) \<subseteq> set (it_list io (it_add io r it)) \<and>
         set (it_list io (it_add io r it)) \<subseteq> insert r (set (it_list io it))"
  using iter_add_list [OF assms]
proof (elim disjE conjE)
  assume "mset (it_list io (it_add io r it)) = add_mset r (mset (it_list io it))"
  then have "set_mset (mset (it_list io (it_add io r it))) = insert r (set (it_list io it))"
    by simp
  then show ?thesis by auto
qed auto

end

section \<open>The sequential iterator\<close>

text \<open>\<open>SequentialIter\<close>: \<open>Add\<close> appends, \<open>Find\<close> searches from the front by key.\<close>

type_synonym 'n sequential_iter = "'n node_status list"

definition new_sequential_iter :: "'n sequential_iter" where
  "new_sequential_iter = []"

definition sequential_add :: "'n node_status \<Rightarrow> 'n sequential_iter \<Rightarrow> 'n sequential_iter" where
  "sequential_add ni nodes = nodes @ [ni]"

fun sequential_find ::
  "('k, 'n) kad_ops \<Rightarrow> 'k \<Rightarrow> 'n sequential_iter \<Rightarrow> 'n node_status option" where
  "sequential_find kd k [] = None"
| "sequential_find kd k (ni # nodes) =
     (if k = node_key kd (ns_node ni) then Some ni else sequential_find kd k nodes)"

definition sequential_iter :: "('k, 'n) kad_ops \<Rightarrow> ('k, 'n, 'n sequential_iter) iter_ops" where
  "sequential_iter kd =
     \<lparr>it_add = sequential_add, it_find = sequential_find kd, it_list = (\<lambda>nodes. nodes)\<rparr>"

definition sequential_valid :: "'n sequential_iter \<Rightarrow> bool" where
  "sequential_valid nodes \<longleftrightarrow> distinct (map ns_addr nodes)"

lemma sequential_find_Some:
  "sequential_find kd k nodes = Some r \<Longrightarrow> r \<in> set nodes \<and> node_key kd (ns_node r) = k"
  by (induction kd k nodes rule: sequential_find.induct) (auto split: if_splits)

lemma sequential_find_None:
  "sequential_find kd k nodes = None \<Longrightarrow> r \<in> set nodes \<Longrightarrow> node_key kd (ns_node r) \<noteq> k"
  by (induction kd k nodes rule: sequential_find.induct) (auto split: if_splits)

text \<open>\<open>Find\<close> returns the entry that was added first among those with the key.\<close>

lemma sequential_find_first:
  "sequential_find kd k nodes = List.find (\<lambda>ni. k = node_key kd (ns_node ni)) nodes"
  by (induction kd k nodes rule: sequential_find.induct) auto

interpretation seq: node_iter_spec kd "sequential_iter kd" sequential_valid for kd
  by unfold_locales
    (auto simp: sequential_iter_def sequential_valid_def sequential_add_def
      dest: sequential_find_Some sequential_find_None)

section \<open>The closest-nodes iterator\<close>

text \<open>
  The trie of \<open>go-libdht/kad/trie\<close> as the iterator uses it: a finite map from keys to values
  with an enumeration in order of distance.
\<close>

record ('k, 'v, 'tr) trie_ops =
  trie_new :: 'tr
  trie_add :: "'k \<Rightarrow> 'v \<Rightarrow> 'tr \<Rightarrow> 'tr"
  trie_find :: "'tr \<Rightarrow> 'k \<Rightarrow> 'v option"
  trie_size :: "'tr \<Rightarrow> nat"
  trie_closest :: "'tr \<Rightarrow> 'k \<Rightarrow> nat \<Rightarrow> ('k \<times> 'v) list"

text \<open>
  The documented behaviour: \<open>Add\<close> stores a value under a key that is not present and leaves
  the trie as it is otherwise, \<open>Closest\<close> asked for as many entries as the trie holds returns
  every entry once, nearest first.
\<close>

locale kad_trie =
  fixes kd :: "('k, 'n) kad_ops"
    and T :: "('k, 'v, 'tr) trie_ops"
    and ok :: "'tr \<Rightarrow> bool"
  assumes trie_new_ok: "ok (trie_new T)"
    and trie_new_find: "trie_find T (trie_new T) k = None"
    and trie_add_ok: "ok t \<Longrightarrow> ok (trie_add T k v t)"
    and trie_add_present: "ok t \<Longrightarrow> trie_find T t k = Some u \<Longrightarrow> trie_add T k v t = t"
    and trie_add_find:
      "ok t \<Longrightarrow> trie_find T t k = None \<Longrightarrow>
         trie_find T (trie_add T k v t) = (trie_find T t)(k \<mapsto> v)"
    and trie_closest_set:
      "ok t \<Longrightarrow> (k', v) \<in> set (trie_closest T t k (trie_size T t)) \<longleftrightarrow> trie_find T t k' = Some v"
    and trie_closest_distinct:
      "ok t \<Longrightarrow> distinct (map fst (trie_closest T t k (trie_size T t)))"
    and trie_closest_sorted:
      "ok t \<Longrightarrow> sorted_wrt (\<lambda>a b. nearer_eq kd k (fst a) (fst b)) (trie_closest T t k (trie_size T t))"

record ('k, 'tr) closest_nodes_iter =
  ci_target :: 'k
  ci_nodes :: 'tr

definition new_closest_nodes_iter ::
  "('k, 'n node_status, 'tr) trie_ops \<Rightarrow> 'k \<Rightarrow> ('k, 'tr) closest_nodes_iter" where
  "new_closest_nodes_iter T target = \<lparr>ci_target = target, ci_nodes = trie_new T\<rparr>"

definition closest_add ::
  "('k, 'n) kad_ops \<Rightarrow> ('k, 'n node_status, 'tr) trie_ops \<Rightarrow> 'n node_status \<Rightarrow>
     ('k, 'tr) closest_nodes_iter \<Rightarrow> ('k, 'tr) closest_nodes_iter" where
  "closest_add kd T ni it =
     it\<lparr>ci_nodes := trie_add T (node_key kd (ns_node ni)) ni (ci_nodes it)\<rparr>"

definition closest_find ::
  "('k, 'n node_status, 'tr) trie_ops \<Rightarrow> 'k \<Rightarrow> ('k, 'tr) closest_nodes_iter \<Rightarrow>
     'n node_status option" where
  "closest_find T k it = trie_find T (ci_nodes it) k"

definition closest_entries ::
  "('k, 'n node_status, 'tr) trie_ops \<Rightarrow> ('k, 'tr) closest_nodes_iter \<Rightarrow> 'n node_status list" where
  "closest_entries T it =
     map snd (trie_closest T (ci_nodes it) (ci_target it) (trie_size T (ci_nodes it)))"

definition closest_iter ::
  "('k, 'n) kad_ops \<Rightarrow> ('k, 'n node_status, 'tr) trie_ops \<Rightarrow>
     ('k, 'n, ('k, 'tr) closest_nodes_iter) iter_ops" where
  "closest_iter kd T =
     \<lparr>it_add = closest_add kd T, it_find = closest_find T, it_list = closest_entries T\<rparr>"

definition closest_valid ::
  "('k, 'n) kad_ops \<Rightarrow> ('k, 'n node_status, 'tr) trie_ops \<Rightarrow> ('tr \<Rightarrow> bool) \<Rightarrow>
     ('k, 'tr) closest_nodes_iter \<Rightarrow> bool" where
  "closest_valid kd T ok it \<longleftrightarrow>
     ok (ci_nodes it) \<and>
     (\<forall>k r. trie_find T (ci_nodes it) k = Some r \<longrightarrow> node_key kd (ns_node r) = k) \<and>
     distinct (map ns_addr (closest_entries T it))"


text \<open>The trie of a closest-nodes iterator stores the entries themselves.\<close>

locale kad_node_trie = kad_trie kd T ok
  for kd :: "('k, 'n) kad_ops"
    and T :: "('k, 'n node_status, 'tr) trie_ops"
    and ok :: "'tr \<Rightarrow> bool"
begin

lemma closest_mset:
  assumes "ok t"
  shows "mset (trie_closest T t k (trie_size T t)) =
         mset_set {(k', v). trie_find T t k' = Some v}"
proof -
  have "distinct (trie_closest T t k (trie_size T t))"
    using trie_closest_distinct [OF assms, of k] by (simp add: distinct_map)
  moreover have "set (trie_closest T t k (trie_size T t)) = {(k', v). trie_find T t k' = Some v}"
    using trie_closest_set [OF assms] by auto
  ultimately show ?thesis by (metis mset_set_set)
qed

lemma entries_finite: "ok t \<Longrightarrow> finite {(k', v). trie_find T t k' = Some v}"
  using trie_closest_set [of t _ _ undefined]
  by (rule_tac finite_subset [where B = "set (trie_closest T t undefined (trie_size T t))"]) auto

lemma closest_entries_set:
  assumes "ok (ci_nodes it)"
  shows "r \<in> set (closest_entries T it) \<longleftrightarrow> (\<exists>k. trie_find T (ci_nodes it) k = Some r)"
proof -
  have "r \<in> snd ` A \<longleftrightarrow> (\<exists>k. (k, r) \<in> A)" for A :: "('k \<times> 'n node_status) set"
    by force
  then show ?thesis by (simp add: closest_entries_def trie_closest_set [OF assms])
qed

lemma closest_add_absent:
  assumes "ok (ci_nodes it)" "trie_find T (ci_nodes it) (node_key kd (ns_node r)) = None"
  shows "mset (closest_entries T (closest_add kd T r it)) = add_mset r (mset (closest_entries T it))"
proof -
  let ?t = "ci_nodes it" and ?k = "node_key kd (ns_node r)"
  let ?E = "{(k', v). trie_find T ?t k' = Some v}"
  have "{(k', v). trie_find T (trie_add T ?k r ?t) k' = Some v} = insert (?k, r) ?E"
    using assms by (auto simp: trie_add_find split: if_splits)
  moreover have "(?k, r) \<notin> ?E" using assms by simp
  ultimately show ?thesis
    using assms trie_add_ok [OF assms(1)] entries_finite [OF assms(1)]
    by (simp add: closest_entries_def closest_add_def closest_mset flip: mset_map)
      (simp add: closest_mset)
qed

lemma closest_add_present:
  assumes "ok (ci_nodes it)" "trie_find T (ci_nodes it) (node_key kd (ns_node r)) = Some s"
  shows "closest_add kd T r it = it"
  using assms by (simp add: closest_add_def trie_add_present)

lemma closest_valid_add:
  assumes valid: "closest_valid kd T ok it"
    and fresh: "ns_addr r \<notin> ns_addr ` set (closest_entries T it)"
  shows "closest_valid kd T ok (closest_add kd T r it)"
proof (cases "trie_find T (ci_nodes it) (node_key kd (ns_node r))")
  case (Some s)
  with valid closest_add_present show ?thesis by (simp add: closest_valid_def)
next
  case None
  from valid have ok: "ok (ci_nodes it)" by (simp add: closest_valid_def)
  have "mset (map ns_addr (closest_entries T (closest_add kd T r it))) =
        add_mset (ns_addr r) (mset (map ns_addr (closest_entries T it)))"
    using closest_add_absent [OF ok None] by simp
  then have "distinct (map ns_addr (closest_entries T (closest_add kd T r it)))"
    using valid fresh
    by (metis closest_valid_def distinct.simps(2) list.set_map mset.simps(2) mset_eq_imp_distinct_iff)
  with valid None ok show ?thesis
    by (auto simp: closest_valid_def closest_add_def trie_add_ok trie_add_find split: if_splits)
qed

lemma new_closest_entries: "closest_entries T (new_closest_nodes_iter T target) = []"
proof -
  have "r \<notin> set (closest_entries T (new_closest_nodes_iter T target))" for r
    using trie_new_ok trie_new_find
    by (simp add: closest_entries_set new_closest_nodes_iter_def)
  then show ?thesis
    by (cases "closest_entries T (new_closest_nodes_iter T target)") auto
qed

lemma new_closest_valid: "closest_valid kd T ok (new_closest_nodes_iter T target)"
  using trie_new_ok trie_new_find new_closest_entries [of target]
  by (simp add: closest_valid_def new_closest_nodes_iter_def)

text \<open>The entries come nearest first.\<close>

lemma closest_entries_sorted:
  assumes "closest_valid kd T ok it"
  shows "sorted_wrt (\<lambda>r s. nearer_eq kd (ci_target it) (node_key kd (ns_node r))
           (node_key kd (ns_node s))) (closest_entries T it)"
proof -
  let ?es = "trie_closest T (ci_nodes it) (ci_target it) (trie_size T (ci_nodes it))"
  from assms have ok: "ok (ci_nodes it)" by (simp add: closest_valid_def)
  have "fst e = node_key kd (ns_node (snd e))" if "e \<in> set ?es" for e
    using that assms trie_closest_set [OF ok, of "fst e" "snd e" "ci_target it"]
    by (simp add: closest_valid_def)
  then show ?thesis
    unfolding closest_entries_def sorted_wrt_map
    by (intro sorted_wrt_mono_rel [OF _ trie_closest_sorted [OF ok]]) simp
qed

end

sublocale kad_node_trie \<subseteq> closest: node_iter_spec kd "closest_iter kd T" "closest_valid kd T ok"
proof unfold_locales
  fix it :: "('k, 'tr) closest_nodes_iter" and r :: "'n node_status" and k
  assume valid: "closest_valid kd T ok it"
  then have ok: "ok (ci_nodes it)" by (simp add: closest_valid_def)
  show "distinct (map ns_addr (it_list (closest_iter kd T) it))"
    using valid by (simp add: closest_iter_def closest_valid_def)
  show "it_find (closest_iter kd T) k it = Some r \<Longrightarrow>
      r \<in> set (it_list (closest_iter kd T) it) \<and> node_key kd (ns_node r) = k"
    using valid ok by (auto simp: closest_iter_def closest_find_def closest_entries_set closest_valid_def)
  show "it_find (closest_iter kd T) k it = None \<Longrightarrow> r \<in> set (it_list (closest_iter kd T) it) \<Longrightarrow>
      node_key kd (ns_node r) \<noteq> k"
    using valid ok by (auto simp: closest_iter_def closest_find_def closest_entries_set closest_valid_def)
  assume fresh: "ns_addr r \<notin> ns_addr ` set (it_list (closest_iter kd T) it)"
  show "closest_valid kd T ok (it_add (closest_iter kd T) r it)"
    using closest_valid_add [OF valid] fresh by (simp add: closest_iter_def)
  show "mset (it_list (closest_iter kd T) (it_add (closest_iter kd T) r it)) =
        add_mset r (mset (it_list (closest_iter kd T) it)) \<or>
      (it_add (closest_iter kd T) r it = it \<and>
       (\<exists>s \<in> set (it_list (closest_iter kd T) it).
          node_key kd (ns_node s) = node_key kd (ns_node r)))"
  proof (cases "trie_find T (ci_nodes it) (node_key kd (ns_node r))")
    case None
    with closest_add_absent [OF ok] show ?thesis by (simp add: closest_iter_def)
  next
    case (Some s)
    moreover have "s \<in> set (closest_entries T it)"
      using Some ok closest_entries_set by blast
    moreover have "node_key kd (ns_node s) = node_key kd (ns_node r)"
      using Some valid by (simp add: closest_valid_def)
    ultimately show ?thesis
      using closest_add_present [OF ok Some] by (auto simp: closest_iter_def)
  qed
qed

end
