(* ===== verification/Query.thy ===== *)
theory Query
  imports NodeIter
begin

text \<open>
  \<open>query/query.go\<close>: one iterative Kademlia lookup. The record \<open>query\<close> is the struct \<open>Query\<close>;
  its extra field \<open>q_states\<close> is the store of the \<open>State\<close> cells of the \<open>NodeStatus\<close> values the
  query allocates. \<open>query_advance\<close> is \<open>Query.Advance\<close>: it takes the current time and an event
  and returns the state reported and the query after the call. The loop over the iterator is
  \<open>each_entries\<close> over the callback \<open>query_visit\<close>, which threads the locals the Go closure
  captures (the record \<open>walk\<close>).
\<close>

section \<open>Configuration, statistics, states and events\<close>

record query_stats =
  qs_start :: time
  qs_end :: time
  qs_requests :: int
  qs_success :: int
  qs_failure :: int

definition zero_query_stats :: query_stats where
  "zero_query_stats =
     \<lparr>qs_start = zero_time, qs_end = zero_time, qs_requests = 0, qs_success = 0, qs_failure = 0\<rparr>"

text \<open>\<open>qc_tracer\<close> records whether the \<open>Tracer\<close> field is set.\<close>

record query_config =
  qc_concurrency :: int
  qc_num_results :: int
  qc_request_timeout :: duration
  qc_timeout :: duration
  qc_tracer :: bool

definition query_config_validate :: "query_config \<Rightarrow> go_error option" where
  "query_config_validate cfg = first_error ''QueryConfig''
     [(qc_concurrency cfg < 1, ''concurrency must be greater than zero''),
      (qc_num_results cfg < 1, ''num results must be greater than zero''),
      (qc_request_timeout cfg < 1, ''request timeout must be greater than zero''),
      (qc_timeout cfg < 1, ''timeout must be greater than zero''),
      (\<not> qc_tracer cfg, ''tracer must not be nil'')]"

definition default_query_config :: query_config where
  "default_query_config =
     \<lparr>qc_concurrency = 3, qc_num_results = 20, qc_request_timeout = minute,
      qc_timeout = 5 * minute, qc_tracer = True\<rparr>"

datatype ('k, 'n, 'm) query_state =
    StateQueryFinished activity_id query_stats 'k "'n list"
  | StateQueryFindCloser activity_id 'k 'n query_stats
  | StateQuerySendMessage activity_id 'n "'m option" query_stats
  | StateQueryWaitingAtCapacity activity_id query_stats time time
  | StateQueryWaitingWithCapacity activity_id query_stats time time

datatype 'n query_event =
    EventQueryCancel
  | EventQueryNodeResponse 'n "'n list"
  | EventQueryNodeFailure 'n go_error
  | EventQueryPoll

section \<open>The query\<close>

text \<open>
  The message a find-closer query carries is the zero value of the message type, here \<open>None\<close>.
\<close>

record ('k, 'n, 'm, 'it) query =
  q_self :: 'n
  q_id :: activity_id
  q_cfg :: query_config
  q_iter :: 'it
  q_target :: 'k
  q_msg :: "'m option"
  q_find_closer :: bool
  q_coverage :: bool
  q_prefix_len :: int
  q_stats :: query_stats
  q_finished :: bool
  q_deadline :: time
  q_next_due :: time
  q_target_nodes :: "'n list"
  q_in_flight :: int
  q_states :: "node_state list"

text \<open>
  The loop that adds nodes to the iterator, the same in \<open>NewQuery\<close> (the seeds) and in
  \<open>onNodeResponse\<close> (the closer nodes): every node but the local one gets a new status that is
  not contacted. A new status takes the next free cell of the store.
\<close>

fun add_nodes ::
  "('k, 'n) kad_ops \<Rightarrow> ('k, 'n, 'it) iter_ops \<Rightarrow> 'n \<Rightarrow> 'n list \<Rightarrow>
     'it \<times> node_state list \<Rightarrow> 'it \<times> node_state list" where
  "add_nodes kd io self [] (it, st) = (it, st)"
| "add_nodes kd io self (n # ns) (it, st) =
     (if node_key kd n = node_key kd self then add_nodes kd io self ns (it, st)
      else add_nodes kd io self ns
             (it_add io \<lparr>ns_node = n, ns_addr = length st\<rparr> it, st @ [StateNodeNotContacted]))"

text \<open>\<open>NewQuery\<close>: the iterator it is given is empty, so the store starts empty.\<close>

definition new_query ::
  "('k, 'n) kad_ops \<Rightarrow> ('k, 'n, 'it) iter_ops \<Rightarrow> 'n \<Rightarrow> activity_id \<Rightarrow> 'k \<Rightarrow> 'm option \<Rightarrow> 'it \<Rightarrow>
     'n list \<Rightarrow> query_config option \<Rightarrow> ('k, 'n, 'm, 'it) query go_result" where
  "new_query kd io self qid target msg iter known cfg_opt =
     (case (case cfg_opt of None \<Rightarrow> None | Some cfg \<Rightarrow> query_config_validate cfg) of
        Some e \<Rightarrow> Inl e
      | None \<Rightarrow>
          (case add_nodes kd io self known (iter, []) of
             (iter', states) \<Rightarrow>
               Inr \<lparr>q_self = self, q_id = qid,
                    q_cfg = (case cfg_opt of None \<Rightarrow> default_query_config | Some cfg \<Rightarrow> cfg),
                    q_iter = iter', q_target = target, q_msg = msg,
                    q_find_closer = False, q_coverage = False, q_prefix_len = 0,
                    q_stats = zero_query_stats, q_finished = False,
                    q_deadline = zero_time, q_next_due = zero_time,
                    q_target_nodes = [], q_in_flight = 0, q_states = states\<rparr>))"

definition new_find_closer_query ::
  "('k, 'n) kad_ops \<Rightarrow> ('k, 'n, 'it) iter_ops \<Rightarrow> 'n \<Rightarrow> activity_id \<Rightarrow> 'k \<Rightarrow> 'it \<Rightarrow>
     'n list \<Rightarrow> query_config option \<Rightarrow> ('k, 'n, 'm, 'it) query go_result" where
  "new_find_closer_query kd io self qid target iter known cfg_opt =
     (case new_query kd io self qid target None iter known cfg_opt of
        Inl e \<Rightarrow> Inl e
      | Inr q \<Rightarrow> Inr (q\<lparr>q_find_closer := True\<rparr>))"

text \<open>\<open>NewCoverageQuery\<close>.\<close>

definition new_coverage_query ::
  "('k, 'n) kad_ops \<Rightarrow> ('k, 'n, 'it) iter_ops \<Rightarrow> 'n \<Rightarrow> activity_id \<Rightarrow> 'k \<Rightarrow> int \<Rightarrow> 'it \<Rightarrow>
     'n list \<Rightarrow> query_config option \<Rightarrow> ('k, 'n, 'm, 'it) query go_result" where
  "new_coverage_query kd io self qid target prefix_len iter known cfg_opt =
     (if prefix_len < 0 \<or> int (key_bit_len kd) < prefix_len
      then Inl (config_error ''Query'' (''prefix length must be between 0 and '' @ decimal (key_bit_len kd)))
      else case new_find_closer_query kd io self qid target iter known cfg_opt of
        Inl e \<Rightarrow> Inl e
      | Inr q \<Rightarrow> Inr (q\<lparr>q_coverage := True, q_prefix_len := prefix_len\<rparr>))"

definition in_prefix :: "('k, 'n) kad_ops \<Rightarrow> ('k, 'n, 'm, 'it) query \<Rightarrow> 'k \<Rightarrow> bool" where
  "in_prefix kd q k \<longleftrightarrow> q_prefix_len q \<le> key_cpl kd k (q_target q)"

section \<open>Advancing a query\<close>

definition at_capacity :: "('k, 'n, 'm, 'it) query \<Rightarrow> bool" where
  "at_capacity q \<longleftrightarrow> qc_concurrency (q_cfg q) \<le> q_in_flight q"

definition finished_state :: "('k, 'n, 'm, 'it) query \<Rightarrow> ('k, 'n, 'm) query_state" where
  "finished_state q = StateQueryFinished (q_id q) (q_stats q) (q_target q) (q_target_nodes q)"

abbreviation state_of :: "('k, 'n, 'm, 'it) query \<Rightarrow> 'n node_status \<Rightarrow> node_state" where
  "state_of q ni \<equiv> q_states q ! ns_addr ni"

abbreviation set_state ::
  "'n node_status \<Rightarrow> node_state \<Rightarrow> ('k, 'n, 'm, 'it) query \<Rightarrow> ('k, 'n, 'm, 'it) query" where
  "set_state ni s q \<equiv> q\<lparr>q_states := (q_states q)[ns_addr ni := s]\<rparr>"

abbreviation entries_of ::
  "('k, 'n, 'it) iter_ops \<Rightarrow> ('k, 'n, 'm, 'it) query \<Rightarrow> 'n node_status list" where
  "entries_of io q \<equiv> it_list io (q_iter q)"

text \<open>\<open>earliestNodeDeadline\<close>: the callback keeps the earliest deadline of a waiting node.\<close>

definition earliest_visit ::
  "('k, 'n, 'm, 'it) query \<Rightarrow> 'n node_status \<Rightarrow> time \<Rightarrow> time \<times> bool" where
  "earliest_visit q ni earliest =
     (case state_of q ni of
        StateNodeWaiting d \<Rightarrow>
          (if is_zero earliest \<or> time_before d earliest then d else earliest, False)
      | _ \<Rightarrow> (earliest, False))"

definition earliest_node_deadline ::
  "('k, 'n, 'it) iter_ops \<Rightarrow> ('k, 'n, 'm, 'it) query \<Rightarrow> time" where
  "earliest_node_deadline io q = fst (each_entries (earliest_visit q) (entries_of io q) zero_time)"

text \<open>\<open>markFinished\<close>: the callback collects the nodes of the result.\<close>

definition collect_visit ::
  "('k, 'n) kad_ops \<Rightarrow> ('k, 'n, 'm, 'it) query \<Rightarrow> 'n node_status \<Rightarrow> 'n list \<Rightarrow> 'n list \<times> bool" where
  "collect_visit kd q ni acc =
     (case state_of q ni of
        StateNodeSucceeded \<Rightarrow>
          (if q_coverage q then
             ((if in_prefix kd q (node_key kd (ns_node ni)) then acc @ [ns_node ni] else acc), False)
           else
             (let acc' = acc @ [ns_node ni]
              in (acc', qc_num_results (q_cfg q) \<le> int (length acc'))))
      | _ \<Rightarrow> (acc, False))"

definition mark_finished ::
  "('k, 'n) kad_ops \<Rightarrow> ('k, 'n, 'it) iter_ops \<Rightarrow> time \<Rightarrow> ('k, 'n, 'm, 'it) query \<Rightarrow>
     ('k, 'n, 'm, 'it) query" where
  "mark_finished kd io now q =
     q\<lparr>q_finished := True,
       q_next_due := zero_time,
       q_stats := (if is_zero (qs_end (q_stats q)) then (q_stats q)\<lparr>qs_end := now\<rparr> else q_stats q),
       q_target_nodes := fst (each_entries (collect_visit kd q) (entries_of io q) [])\<rparr>"

text \<open>\<open>onNodeResponse\<close> and \<open>onNodeFailure\<close>.\<close>

definition accept_closer ::
  "('k, 'n) kad_ops \<Rightarrow> ('k, 'n, 'it) iter_ops \<Rightarrow> 'n node_status \<Rightarrow> 'n list \<Rightarrow>
     ('k, 'n, 'm, 'it) query \<Rightarrow> ('k, 'n, 'm, 'it) query" where
  "accept_closer kd io ni closer q =
     (case add_nodes kd io (q_self q) closer (q_iter q, q_states q) of
        (it, st) \<Rightarrow> set_state ni StateNodeSucceeded (q\<lparr>q_iter := it, q_states := st\<rparr>))"

definition on_node_response ::
  "('k, 'n) kad_ops \<Rightarrow> ('k, 'n, 'it) iter_ops \<Rightarrow> 'n \<Rightarrow> 'n list \<Rightarrow>
     ('k, 'n, 'm, 'it) query \<Rightarrow> ('k, 'n, 'm, 'it) query" where
  "on_node_response kd io node closer q =
     (case it_find io (node_key kd node) (q_iter q) of
        None \<Rightarrow> q
      | Some ni \<Rightarrow>
          (case state_of q ni of
             StateNodeWaiting d \<Rightarrow>
               accept_closer kd io ni closer
                 (q\<lparr>q_in_flight := q_in_flight q - 1,
                    q_stats := (q_stats q)\<lparr>qs_success := qs_success (q_stats q) + 1\<rparr>\<rparr>)
           | StateNodeUnresponsive \<Rightarrow> accept_closer kd io ni closer q
           | StateNodeNotContacted \<Rightarrow> q
           | StateNodeFailed \<Rightarrow> q
           | StateNodeSucceeded \<Rightarrow> q))"

definition on_node_failure ::
  "('k, 'n) kad_ops \<Rightarrow> ('k, 'n, 'it) iter_ops \<Rightarrow> 'n \<Rightarrow>
     ('k, 'n, 'm, 'it) query \<Rightarrow> ('k, 'n, 'm, 'it) query" where
  "on_node_failure kd io node q =
     (case it_find io (node_key kd node) (q_iter q) of
        None \<Rightarrow> q
      | Some ni \<Rightarrow>
          (case state_of q ni of
             StateNodeWaiting d \<Rightarrow>
               set_state ni StateNodeFailed
                 (q\<lparr>q_in_flight := q_in_flight q - 1,
                    q_stats := (q_stats q)\<lparr>qs_failure := qs_failure (q_stats q) + 1\<rparr>\<rparr>)
           | StateNodeUnresponsive \<Rightarrow> set_state ni StateNodeFailed q
           | StateNodeNotContacted \<Rightarrow> set_state ni StateNodeFailed q
           | StateNodeFailed \<Rightarrow> q
           | StateNodeSucceeded \<Rightarrow> q))"

text \<open>The locals of \<open>Advance\<close> that its loop reads and writes, with the query itself.\<close>

record ('k, 'n, 'm, 'it) walk =
  w_query :: "('k, 'n, 'm, 'it) query"
  w_successes :: int
  w_in_prefix_successes :: int
  w_progressing :: bool
  w_return :: "('k, 'n, 'm) query_state option"
  w_at_capacity_waiting :: bool

definition start_walk :: "('k, 'n, 'm, 'it) query \<Rightarrow> ('k, 'n, 'm, 'it) walk" where
  "start_walk q =
     \<lparr>w_query = q, w_successes = 0, w_in_prefix_successes = 0, w_progressing = False,
      w_return = None, w_at_capacity_waiting = False\<rparr>"

text \<open>Finishing inside the loop, and sending a request to a node that was not contacted.\<close>

definition visit_finish ::
  "('k, 'n) kad_ops \<Rightarrow> ('k, 'n, 'it) iter_ops \<Rightarrow> time \<Rightarrow> ('k, 'n, 'm, 'it) walk \<Rightarrow>
     ('k, 'n, 'm, 'it) walk \<times> bool" where
  "visit_finish kd io now w =
     (let q = mark_finished kd io now (w_query w)
      in (w\<lparr>w_query := q, w_return := Some (finished_state q)\<rparr>, True))"

definition send_request ::
  "time \<Rightarrow> 'n node_status \<Rightarrow> ('k, 'n, 'm, 'it) query \<Rightarrow> ('k, 'n, 'm, 'it) query" where
  "send_request now ni q =
     (let q1 = set_state ni (StateNodeWaiting (time_add now (qc_request_timeout (q_cfg q)))) q;
          q2 = q1\<lparr>q_in_flight := q_in_flight q1 + 1,
                  q_stats := (q_stats q1)\<lparr>qs_requests := qs_requests (q_stats q1) + 1\<rparr>\<rparr>
      in if is_zero (qs_start (q_stats q2))
         then q2\<lparr>q_stats := (q_stats q2)\<lparr>qs_start := now\<rparr>,
                 q_deadline := time_add now (qc_timeout (q_cfg q2))\<rparr>
         else q2)"

definition request_state ::
  "'n node_status \<Rightarrow> ('k, 'n, 'm, 'it) query \<Rightarrow> ('k, 'n, 'm) query_state" where
  "request_state ni q =
     (if q_find_closer q
      then StateQueryFindCloser (q_id q) (q_target q) (ns_node ni) (q_stats q)
      else StateQuerySendMessage (q_id q) (ns_node ni) (q_msg q) (q_stats q))"

definition query_visit ::
  "('k, 'n) kad_ops \<Rightarrow> ('k, 'n, 'it) iter_ops \<Rightarrow> time \<Rightarrow> 'n node_status \<Rightarrow>
     ('k, 'n, 'm, 'it) walk \<Rightarrow> ('k, 'n, 'm, 'it) walk \<times> bool" where
  "query_visit kd io now ni w =
     (let q = w_query w in
      case state_of q ni of
        StateNodeWaiting d \<Rightarrow>
          (if time_after now d then
             (w\<lparr>w_query := (set_state ni StateNodeUnresponsive q)
                  \<lparr>q_in_flight := q_in_flight q - 1,
                   q_stats := (q_stats q)\<lparr>qs_failure := qs_failure (q_stats q) + 1\<rparr>\<rparr>\<rparr>, False)
           else if at_capacity q then (w\<lparr>w_at_capacity_waiting := True\<rparr>, True)
           else (w\<lparr>w_progressing := True\<rparr>, False))
      | StateNodeSucceeded \<Rightarrow>
          (let w' = w\<lparr>w_successes := w_successes w + 1\<rparr> in
           if q_coverage q then
             (if in_prefix kd q (node_key kd (ns_node ni))
              then (w'\<lparr>w_in_prefix_successes := w_in_prefix_successes w' + 1\<rparr>, False)
              else (w', False))
           else if \<not> w_progressing w' \<and> qc_num_results (q_cfg q) \<le> w_successes w'
           then visit_finish kd io now w'
           else (w', False))
      | StateNodeNotContacted \<Rightarrow>
          (if q_coverage q \<and> \<not> in_prefix kd q (node_key kd (ns_node ni)) \<and> \<not> w_progressing w \<and>
              (0 < w_in_prefix_successes w \<or> qc_num_results (q_cfg q) \<le> w_successes w)
           then visit_finish kd io now w
           else if \<not> at_capacity q then
             (let q' = send_request now ni q
              in (w\<lparr>w_query := q', w_return := Some (request_state ni q')\<rparr>, True))
           else (w\<lparr>w_at_capacity_waiting := True\<rparr>, True))
      | StateNodeUnresponsive \<Rightarrow> (w, False)
      | StateNodeFailed \<Rightarrow> (w, False))"

text \<open>What \<open>Advance\<close> does after the loop.\<close>

definition walk_result ::
  "('k, 'n) kad_ops \<Rightarrow> ('k, 'n, 'it) iter_ops \<Rightarrow> time \<Rightarrow> ('k, 'n, 'm, 'it) walk \<Rightarrow>
     ('k, 'n, 'm) query_state \<times> ('k, 'n, 'm, 'it) query" where
  "walk_result kd io now w =
     (let q = w_query w in
      case w_return w of
        Some st \<Rightarrow> (st, q)
      | None \<Rightarrow>
          (if w_at_capacity_waiting w then
             (let q' = q\<lparr>q_next_due := earliest_node_deadline io q\<rparr>
              in (StateQueryWaitingAtCapacity (q_id q') (q_stats q') (q_deadline q') (q_next_due q'), q'))
           else if 0 < q_in_flight q then
             (let q' = q\<lparr>q_next_due := earliest_node_deadline io q\<rparr>
              in (StateQueryWaitingWithCapacity (q_id q') (q_stats q') (q_deadline q') (q_next_due q'), q'))
           else
             (let q' = mark_finished kd io now q in (finished_state q', q'))))"

definition run_walk ::
  "('k, 'n) kad_ops \<Rightarrow> ('k, 'n, 'it) iter_ops \<Rightarrow> time \<Rightarrow> ('k, 'n, 'm, 'it) query \<Rightarrow>
     ('k, 'n, 'm) query_state \<times> ('k, 'n, 'm, 'it) query" where
  "run_walk kd io now q =
     walk_result kd io now (fst (each_entries (query_visit kd io now) (entries_of io q) (start_walk q)))"

definition query_advance ::
  "('k, 'n) kad_ops \<Rightarrow> ('k, 'n, 'it) iter_ops \<Rightarrow> time \<Rightarrow> 'n query_event \<Rightarrow>
     ('k, 'n, 'm, 'it) query \<Rightarrow> ('k, 'n, 'm) query_state \<times> ('k, 'n, 'm, 'it) query" where
  "query_advance kd io now ev q =
     (if q_finished q then (finished_state q, q)
      else case ev of
        EventQueryCancel \<Rightarrow> (let q' = mark_finished kd io now q in (finished_state q', q'))
      | EventQueryNodeResponse n closer \<Rightarrow> run_walk kd io now (on_node_response kd io n closer q)
      | EventQueryNodeFailure n err \<Rightarrow> run_walk kd io now (on_node_failure kd io n q)
      | EventQueryPoll \<Rightarrow> run_walk kd io now q)"

end
