(* ===== verification/QueryFacts.thy ===== *)
theory QueryFacts
  imports Query
begin

text \<open>
  Facts about one query: the well-formedness invariant that \<open>Advance\<close> keeps, and the
  characterisation of its loop. They are proved once for every iterator that meets the contract
  \<open>node_iter_spec\<close>.
\<close>

section \<open>Well-formed queries\<close>

definition waiting_count ::
  "('k, 'n, 'it) iter_ops \<Rightarrow> ('k, 'n, 'm, 'it) query \<Rightarrow> int" where
  "waiting_count io q = count_of (\<lambda>r. is_waiting (state_of q r)) (entries_of io q)"

text \<open>
  The iterator is valid and its entries own cells of the store, the local node is not among
  them, the in-flight counter is the number of waiting nodes and is within the concurrency
  limit, and every request made is a success, a failure or in flight.
\<close>

definition query_cells ::
  "('k, 'n) kad_ops \<Rightarrow> ('k, 'n, 'it) iter_ops \<Rightarrow> ('it \<Rightarrow> bool) \<Rightarrow> 'n \<Rightarrow> 'it \<Rightarrow> node_state list \<Rightarrow> bool" where
  "query_cells kd io valid self it st \<longleftrightarrow>
     valid it \<and>
     (\<forall>r \<in> set (it_list io it).
        ns_addr r < length st \<and> node_key kd (ns_node r) \<noteq> node_key kd self)"

definition query_wf ::
  "('k, 'n) kad_ops \<Rightarrow> ('k, 'n, 'it) iter_ops \<Rightarrow> ('it \<Rightarrow> bool) \<Rightarrow> ('k, 'n, 'm, 'it) query \<Rightarrow> bool" where
  "query_wf kd io valid q \<longleftrightarrow>
     query_cells kd io valid (q_self q) (q_iter q) (q_states q) \<and>
     q_in_flight q = waiting_count io q \<and>
     q_in_flight q \<le> qc_concurrency (q_cfg q) \<and>
     qs_requests (q_stats q) =
       qs_success (q_stats q) + qs_failure (q_stats q) + q_in_flight q \<and>
     0 \<le> qs_success (q_stats q) \<and> 0 \<le> qs_failure (q_stats q)"

lemma waiting_count_nonneg [simp]: "0 \<le> waiting_count io q"
  by (simp add: waiting_count_def)

context node_iter_spec
begin

text \<open>Adding nodes keeps the cells of the query and the states already there.\<close>

lemma add_nodes_cells:
  assumes "query_cells kd io valid self it st" "add_nodes kd io self ns (it, st) = (it', st')"
  shows "query_cells kd io valid self it' st' \<and>
         set (it_list io it) \<subseteq> set (it_list io it') \<and>
         (\<exists>n. st' = st @ replicate n StateNodeNotContacted)"
  using assms
proof (induction ns arbitrary: it st)
  case Nil
  then show ?case by (auto intro: exI [of _ 0])
next
  case (Cons n ns)
  show ?case
  proof (cases "node_key kd n = node_key kd self")
    case True
    with Cons show ?thesis by simp
  next
    case False
    let ?r = "\<lparr>ns_node = n, ns_addr = length st\<rparr>"
    let ?it = "it_add io ?r it" and ?st = "st @ [StateNodeNotContacted]"
    from Cons.prems(1) have valid: "valid it" and fresh: "ns_addr ?r \<notin> ns_addr ` set (it_list io it)"
      by (auto simp: query_cells_def)
    note sub = iter_add_set [OF valid fresh]
    have cells: "query_cells kd io valid self ?it ?st"
      unfolding query_cells_def
    proof (intro conjI ballI)
      show "valid ?it" using iter_add_valid [OF valid fresh] .
    next
      fix r assume "r \<in> set (it_list io ?it)"
      with sub have "r = ?r \<or> r \<in> set (it_list io it)" by auto
      with Cons.prems(1) False show "ns_addr r < length ?st" "node_key kd (ns_node r) \<noteq> node_key kd self"
        by (auto simp: query_cells_def)
    qed
    from Cons.prems(2) False have "add_nodes kd io self ns (?it, ?st) = (it', st')" by simp
    from Cons.IH [OF cells this] sub obtain m where
      "query_cells kd io valid self it' st'" "set (it_list io it) \<subseteq> set (it_list io it')"
      "st' = ?st @ replicate m StateNodeNotContacted" by blast
    then show ?thesis by (auto intro!: exI [of _ "Suc m"])
  qed
qed

text \<open>The nodes added are not contacted, so no count of waiting nodes changes.\<close>

lemma add_nodes_waiting:
  assumes "query_cells kd io valid self it st" "add_nodes kd io self ns (it, st) = (it', st')"
  shows "count_of (\<lambda>r. is_waiting (st' ! ns_addr r)) (it_list io it') =
         count_of (\<lambda>r. is_waiting (st ! ns_addr r)) (it_list io it)"
  using assms
proof (induction ns arbitrary: it st)
  case Nil
  then show ?case by simp
next
  case (Cons n ns)
  show ?case
  proof (cases "node_key kd n = node_key kd self")
    case True
    with Cons show ?thesis by simp
  next
    case False
    let ?r = "\<lparr>ns_node = n, ns_addr = length st\<rparr>"
    let ?it = "it_add io ?r it" and ?st = "st @ [StateNodeNotContacted]"
    from Cons.prems(1) have valid: "valid it" and fresh: "ns_addr ?r \<notin> ns_addr ` set (it_list io it)"
      by (auto simp: query_cells_def)
    have one: "add_nodes kd io self [n] (it, st) = (?it, ?st)" using False by simp
    from add_nodes_cells [OF Cons.prems(1) one] have cells: "query_cells kd io valid self ?it ?st" by simp
    have old: "count_of (\<lambda>r. is_waiting (?st ! ns_addr r)) (it_list io it) =
               count_of (\<lambda>r. is_waiting (st ! ns_addr r)) (it_list io it)"
      using Cons.prems(1) by (intro count_of_store_append) (auto simp: query_cells_def)
    have "count_of (\<lambda>r. is_waiting (?st ! ns_addr r)) (it_list io ?it) =
          count_of (\<lambda>r. is_waiting (?st ! ns_addr r)) (it_list io it)"
      using iter_add_list [OF valid fresh] 
    proof (elim disjE conjE)
      assume "mset (it_list io ?it) = add_mset ?r (mset (it_list io it))"
      then have "mset (it_list io ?it) = mset (?r # it_list io it)" by simp
      from count_of_mset [OF this] show ?thesis by simp
    qed simp
    moreover from Cons.prems(2) False have "add_nodes kd io self ns (?it, ?st) = (it', st')" by simp
    ultimately show ?thesis using Cons.IH [OF cells] old by simp
  qed
qed

text \<open>Writing one state changes the count by what it was and what it becomes.\<close>

lemma cells_set_state:
  "query_cells kd io valid self it (st[a := s]) \<longleftrightarrow> query_cells kd io valid self it st"
  by (simp add: query_cells_def)

lemma waiting_count_set_state:
  assumes "query_cells kd io valid self (q_iter q) (q_states q)" "r \<in> set (entries_of io q)"
  shows "waiting_count io (set_state r s q) =
         waiting_count io q - (if is_waiting (state_of q r) then 1 else 0) + (if is_waiting s then 1 else 0)"
proof -
  from assms have "distinct (map ns_addr (entries_of io q))" "ns_addr r < length (q_states q)"
    using iter_distinct by (auto simp: query_cells_def)
  with assms(2) show ?thesis
    by (simp add: waiting_count_def count_of_update [where P = is_waiting])
qed

lemma accept_closer_facts:
  fixes closer :: "'n list"
  assumes cells: "query_cells kd io valid (q_self q) (q_iter q) (q_states q)"
    and r: "r \<in> set (entries_of io q)"
  defines "q' \<equiv> accept_closer kd io r closer q"
  shows "query_cells kd io valid (q_self q') (q_iter q') (q_states q')"
    and "waiting_count io q' = waiting_count io q - (if is_waiting (state_of q r) then 1 else 0)"
    and "q_self q' = q_self q" "q_cfg q' = q_cfg q" "q_in_flight q' = q_in_flight q" "q_stats q' = q_stats q"
proof -
  obtain it st where add: "add_nodes kd io (q_self q) closer (q_iter q, q_states q) = (it, st)"
    by fastforce
  let ?q = "q\<lparr>q_iter := it, q_states := st\<rparr>"
  from add_nodes_cells [OF cells add] r obtain n where
    cells': "query_cells kd io valid (q_self q) it st" and r': "r \<in> set (it_list io it)" and
    st: "st = q_states q @ replicate n StateNodeNotContacted" by blast
  from cells r have "ns_addr r < length (q_states q)" by (simp add: query_cells_def)
  with st have same: "state_of ?q r = state_of q r" by (simp add: nth_append)
  have "waiting_count io ?q = waiting_count io q"
    using add_nodes_waiting [OF cells add] by (simp add: waiting_count_def)
  with waiting_count_set_state [of "q_self q" ?q r StateNodeSucceeded] cells' r' same
  show "waiting_count io q' = waiting_count io q - (if is_waiting (state_of q r) then 1 else 0)"
    by (simp add: q'_def accept_closer_def add)
  show "query_cells kd io valid (q_self q') (q_iter q') (q_states q')"
    using cells' by (simp add: q'_def accept_closer_def add cells_set_state)
  show "q_self q' = q_self q" "q_cfg q' = q_cfg q" "q_in_flight q' = q_in_flight q" "q_stats q' = q_stats q"
    by (simp_all add: q'_def accept_closer_def add)
qed

lemma accept_closer_waiting_count:
  "waiting_count io (accept_closer kd io r closer (q\<lparr>q_in_flight := f, q_stats := s\<rparr>)) =
   waiting_count io (accept_closer kd io r closer q)"
  by (simp add: accept_closer_def waiting_count_def split: prod.splits)

lemma on_node_response_wf [wf_intros]:
  assumes wf: "query_wf kd io valid q"
  shows "query_wf kd io valid (on_node_response kd io node closer q)"
proof (cases "it_find io (node_key kd node) (q_iter q)")
  case None
  with wf show ?thesis by (simp add: on_node_response_def)
next
  case (Some r)
  from wf have cells: "query_cells kd io valid (q_self q) (q_iter q) (q_states q)" and "valid (q_iter q)"
    by (simp_all add: query_wf_def query_cells_def)
  with iter_find_Some Some have r: "r \<in> set (entries_of io q)" by blast
  let ?q = "q\<lparr>q_in_flight := q_in_flight q - 1,
              q_stats := (q_stats q)\<lparr>qs_success := qs_success (q_stats q) + 1\<rparr>\<rparr>"
  note facts = accept_closer_facts [OF cells r, of closer]
  from cells r have cells': "query_cells kd io valid (q_self ?q) (q_iter ?q) (q_states ?q)"
    and r': "r \<in> set (entries_of io ?q)" by simp_all
  note facts' = accept_closer_facts [OF cells' r', of closer]
  show ?thesis
  proof (cases "state_of q r")
    case (StateNodeWaiting d)
    with Some wf facts facts' show ?thesis
      by (simp add: on_node_response_def query_wf_def accept_closer_waiting_count)
  next
    case StateNodeUnresponsive
    with Some wf facts show ?thesis
      by (simp add: on_node_response_def query_wf_def)
  qed (use Some wf in \<open>simp_all add: on_node_response_def\<close>)
qed

lemma on_node_failure_wf [wf_intros]:
  assumes wf: "query_wf kd io valid q"
  shows "query_wf kd io valid (on_node_failure kd io node q)"
proof (cases "it_find io (node_key kd node) (q_iter q)")
  case None
  with wf show ?thesis by (simp add: on_node_failure_def)
next
  case (Some r)
  from wf have cells: "query_cells kd io valid (q_self q) (q_iter q) (q_states q)" and "valid (q_iter q)"
    by (simp_all add: query_wf_def query_cells_def)
  with iter_find_Some Some have r: "r \<in> set (entries_of io q)" by blast
  note count = waiting_count_set_state [OF cells r, of StateNodeFailed]
  show ?thesis
  proof (cases "state_of q r")
    case (StateNodeWaiting d)
    with Some wf count show ?thesis
      by (simp add: on_node_failure_def query_wf_def cells_set_state) (simp add: waiting_count_def)
  qed (use Some wf count in
      \<open>simp_all add: on_node_failure_def query_wf_def cells_set_state\<close>)
qed

lemma mark_finished_wf [wf_intros]:
  "query_wf kd io valid q \<Longrightarrow> query_wf kd io valid (mark_finished kd io now q)"
  by (simp add: mark_finished_def query_wf_def waiting_count_def)

end

section \<open>The loop of Advance\<close>

text \<open>
  What the passage of time does to a node the loop passes: a request past its deadline makes the
  node unresponsive.
\<close>

fun expire :: "time \<Rightarrow> node_state \<Rightarrow> node_state" where
  "expire now (StateNodeWaiting d) =
     (if time_after now d then StateNodeUnresponsive else StateNodeWaiting d)"
| "expire now s = s"

lemma expire_simps [simp]:
  "expire now s = StateNodeSucceeded \<longleftrightarrow> s = StateNodeSucceeded"
  "expire now s = StateNodeNotContacted \<longleftrightarrow> s = StateNodeNotContacted"
  "expire now s = StateNodeFailed \<longleftrightarrow> s = StateNodeFailed"
  "expire now (expire now s) = expire now s"
  by (cases s; simp)+

definition expired :: "time \<Rightarrow> ('k, 'n, 'm, 'it) query \<Rightarrow> 'n node_status \<Rightarrow> bool" where
  "expired now q r \<longleftrightarrow> is_waiting (state_of q r) \<and> \<not> is_waiting (expire now (state_of q r))"

text \<open>
  The query once the loop has passed the entries \<open>xs\<close>: the store is \<open>st\<close>, and each expired
  request has left the in-flight count and joined the failures.
\<close>

definition passed_query ::
  "time \<Rightarrow> 'n node_status list \<Rightarrow> node_state list \<Rightarrow> ('k, 'n, 'm, 'it) query \<Rightarrow> ('k, 'n, 'm, 'it) query" where
  "passed_query now xs st q =
     q\<lparr>q_states := st,
       q_in_flight := q_in_flight q - count_of (expired now q) xs,
       q_stats := (q_stats q)\<lparr>qs_failure := qs_failure (q_stats q) + count_of (expired now q) xs\<rparr>\<rparr>"

definition passed_states ::
  "('k, 'n, 'it) iter_ops \<Rightarrow> time \<Rightarrow> ('k, 'n, 'm, 'it) query \<Rightarrow> 'n node_status list \<Rightarrow> node_state list \<Rightarrow> bool" where
  "passed_states io now q xs st \<longleftrightarrow>
     length st = length (q_states q) \<and>
     (\<forall>r \<in> set (entries_of io q).
        st ! ns_addr r = (if r \<in> set xs then expire now (state_of q r) else state_of q r))"

definition walk_inv ::
  "('k, 'n) kad_ops \<Rightarrow> ('k, 'n, 'it) iter_ops \<Rightarrow> time \<Rightarrow> ('k, 'n, 'm, 'it) query \<Rightarrow>
     'n node_status list \<Rightarrow> ('k, 'n, 'm, 'it) walk \<Rightarrow> bool" where
  "walk_inv kd io now q xs w \<longleftrightarrow>
     (\<exists>st. passed_states io now q xs st \<and> w_query w = passed_query now xs st q) \<and>
     (\<forall>r \<in> set xs. state_of q r \<noteq> StateNodeNotContacted) \<and>
     w_successes w = count_of (\<lambda>r. state_of q r = StateNodeSucceeded) xs \<and>
     (q_coverage q \<longrightarrow> w_in_prefix_successes w =
        count_of (\<lambda>r. state_of q r = StateNodeSucceeded \<and> in_prefix kd q (node_key kd (ns_node r))) xs) \<and>
     (w_progressing w \<longleftrightarrow> (\<exists>r \<in> set xs. is_waiting (expire now (state_of q r)))) \<and>
     (w_progressing w \<longrightarrow> \<not> at_capacity (w_query w)) \<and>
     w_return w = None \<and> \<not> w_at_capacity_waiting w \<and>
     (q_coverage q \<or> (\<exists>r \<in> set xs. is_waiting (expire now (state_of q r))) \<or>
        count_of (\<lambda>r. state_of q r = StateNodeSucceeded) xs < qc_num_results (q_cfg q))"

lemma in_prefix_cong:
  "q_prefix_len q' = q_prefix_len q \<Longrightarrow> q_target q' = q_target q \<Longrightarrow> in_prefix kd q' = in_prefix kd q"
  by (simp add: in_prefix_def fun_eq_iff)

lemma passed_query_simps [simp]:
  "q_states (passed_query now xs st q) = st"
  "q_iter (passed_query now xs st q) = q_iter q"
  "q_cfg (passed_query now xs st q) = q_cfg q"
  "q_self (passed_query now xs st q) = q_self q"
  "q_id (passed_query now xs st q) = q_id q"
  "q_target (passed_query now xs st q) = q_target q"
  "q_msg (passed_query now xs st q) = q_msg q"
  "q_find_closer (passed_query now xs st q) = q_find_closer q"
  "q_coverage (passed_query now xs st q) = q_coverage q"
  "q_prefix_len (passed_query now xs st q) = q_prefix_len q"
  "q_finished (passed_query now xs st q) = q_finished q"
  "q_deadline (passed_query now xs st q) = q_deadline q"
  "q_next_due (passed_query now xs st q) = q_next_due q"
  "q_target_nodes (passed_query now xs st q) = q_target_nodes q"
  "q_in_flight (passed_query now xs st q) = q_in_flight q - count_of (expired now q) xs"
  "qs_start (q_stats (passed_query now xs st q)) = qs_start (q_stats q)"
  "qs_end (q_stats (passed_query now xs st q)) = qs_end (q_stats q)"
  "qs_requests (q_stats (passed_query now xs st q)) = qs_requests (q_stats q)"
  "qs_success (q_stats (passed_query now xs st q)) = qs_success (q_stats q)"
  "qs_failure (q_stats (passed_query now xs st q)) =
     qs_failure (q_stats q) + count_of (expired now q) xs"
  "in_prefix kd (passed_query now xs st q) = in_prefix kd q"
  by (simp_all add: passed_query_def in_prefix_def fun_eq_iff)

lemma passed_query_nil [simp]: "passed_query now [] (q_states q) q = q"
  by (simp add: passed_query_def)

text \<open>The loop body, by the state of the node it visits.\<close>

lemma visit_waiting:
  assumes "state_of (w_query w) e = StateNodeWaiting d"
  shows "query_visit kd io now e w =
     (if time_after now d then
        (w\<lparr>w_query := (set_state e StateNodeUnresponsive (w_query w))
             \<lparr>q_in_flight := q_in_flight (w_query w) - 1,
              q_stats := (q_stats (w_query w))\<lparr>qs_failure := qs_failure (q_stats (w_query w)) + 1\<rparr>\<rparr>\<rparr>, False)
      else if at_capacity (w_query w) then (w\<lparr>w_at_capacity_waiting := True\<rparr>, True)
      else (w\<lparr>w_progressing := True\<rparr>, False))"
  using assms by (simp add: query_visit_def Let_def)

lemma visit_succeeded:
  assumes "state_of (w_query w) e = StateNodeSucceeded"
  shows "query_visit kd io now e w =
     (let w' = w\<lparr>w_successes := w_successes w + 1\<rparr> in
      if q_coverage (w_query w) then
        (if in_prefix kd (w_query w) (node_key kd (ns_node e))
         then (w'\<lparr>w_in_prefix_successes := w_in_prefix_successes w + 1\<rparr>, False)
         else (w', False))
      else if \<not> w_progressing w \<and> qc_num_results (q_cfg (w_query w)) \<le> w_successes w + 1
      then visit_finish kd io now w'
      else (w', False))"
  using assms by (simp add: query_visit_def Let_def)

lemma visit_not_contacted:
  assumes "state_of (w_query w) e = StateNodeNotContacted"
  shows "query_visit kd io now e w =
     (if q_coverage (w_query w) \<and> \<not> in_prefix kd (w_query w) (node_key kd (ns_node e)) \<and>
         \<not> w_progressing w \<and>
         (0 < w_in_prefix_successes w \<or> qc_num_results (q_cfg (w_query w)) \<le> w_successes w)
      then visit_finish kd io now w
      else if \<not> at_capacity (w_query w) then
        (w\<lparr>w_query := send_request now e (w_query w),
           w_return := Some (request_state e (send_request now e (w_query w)))\<rparr>, True)
      else (w\<lparr>w_at_capacity_waiting := True\<rparr>, True))"
  by (simp only: query_visit_def Let_def assms node_state.case)

lemma visit_other:
  assumes "state_of (w_query w) e = StateNodeUnresponsive \<or> state_of (w_query w) e = StateNodeFailed"
  shows "query_visit kd io now e w = (w, False)"
  using assms by (auto simp: query_visit_def Let_def)

lemma visit_finish_stops [simp]: "visit_finish kd io now w \<noteq> (w', False)"
  by (simp add: visit_finish_def Let_def)

context node_iter_spec
begin

lemma walk_inv_start: "walk_inv kd io now q [] (start_walk q)" if "1 \<le> qc_num_results (q_cfg q)"
  using that by (auto simp: walk_inv_def start_walk_def passed_states_def intro!: exI [of _ "q_states q"])

text \<open>One pass of the loop body that does not stop keeps the invariant.\<close>

lemma passed_states_snoc:
  assumes cells: "query_cells kd io valid (q_self q) (q_iter q) (q_states q)"
    and es: "entries_of io q = xs @ e # ys" and st: "passed_states io now q xs st"
  shows "passed_states io now q (xs @ [e]) (st[ns_addr e := expire now (state_of q e)])"
    and "st ! ns_addr e = state_of q e"
proof -
  from cells have d: "distinct (map ns_addr (entries_of io q))" using iter_distinct by (simp add: query_cells_def)
  with es have "e \<notin> set xs" and other: "r \<in> set (entries_of io q) \<Longrightarrow> r \<noteq> e \<Longrightarrow> ns_addr r \<noteq> ns_addr e" for r
    by (auto simp: image_iff)
  with es st show "st ! ns_addr e = state_of q e" by (simp add: passed_states_def)
  from cells es have "ns_addr e < length (q_states q)" by (simp add: query_cells_def)
  with st other show "passed_states io now q (xs @ [e]) (st[ns_addr e := expire now (state_of q e)])"
    by (auto simp: passed_states_def nth_list_update dest: other)
qed

lemma passed_quiet:
  assumes cells: "query_cells kd io valid (q_self q) (q_iter q) (q_states q)"
    and es: "entries_of io q = xs @ e # ys" and st: "passed_states io now q xs st"
    and quiet: "expire now (state_of q e) = state_of q e"
  shows "passed_states io now q (xs @ [e]) st"
    and "passed_query now (xs @ [e]) st q = passed_query now xs st q"
  using passed_states_snoc [OF cells es st] quiet
  by (auto simp: passed_query_def expired_def) (metis list_update_id)

lemma walk_inv_snoc:
  assumes "walk_inv kd io now q xs w"
    and "passed_states io now q (xs @ [e]) st" "w_query w' = passed_query now (xs @ [e]) st q"
    and "state_of q e \<noteq> StateNodeNotContacted"
    and "w_successes w' = w_successes w + (if state_of q e = StateNodeSucceeded then 1 else 0)"
    and "q_coverage q \<Longrightarrow> w_in_prefix_successes w' = w_in_prefix_successes w +
      (if state_of q e = StateNodeSucceeded \<and> in_prefix kd q (node_key kd (ns_node e)) then 1 else 0)"
    and "w_progressing w' \<longleftrightarrow> w_progressing w \<or> is_waiting (expire now (state_of q e))"
    and "w_return w' = None" "\<not> w_at_capacity_waiting w'"
    and "state_of q e = StateNodeSucceeded \<Longrightarrow>
      q_coverage q \<or> w_progressing w \<or> w_successes w + 1 < qc_num_results (q_cfg q)"
    and "is_waiting (expire now (state_of q e)) \<Longrightarrow> \<not> at_capacity (w_query w)"
  shows "walk_inv kd io now q (xs @ [e]) w'"
  unfolding walk_inv_def
proof (intro conjI)
  have "at_capacity (w_query w') \<Longrightarrow> at_capacity (w_query w)"
    using assms(1,3) by (auto simp: walk_inv_def at_capacity_def split: if_splits)
  with assms(1,7,11) show "w_progressing w' \<longrightarrow> \<not> at_capacity (w_query w')"
    by (auto simp: walk_inv_def)
next
  show "\<exists>st. passed_states io now q (xs @ [e]) st \<and> w_query w' = passed_query now (xs @ [e]) st q"
    using assms(2,3) by blast
qed (use assms in \<open>auto simp: walk_inv_def\<close>)

lemma walk_inv_step:
  assumes cells: "query_cells kd io valid (q_self q) (q_iter q) (q_states q)"
    and es: "entries_of io q = xs @ e # ys" and inv: "walk_inv kd io now q xs w"
    and visit: "query_visit kd io now e w = (w', False)"
  shows "walk_inv kd io now q (xs @ [e]) w'"
proof -
  from inv obtain st where st: "passed_states io now q xs st" and wq: "w_query w = passed_query now xs st q"
    and w: "w_return w = None" "\<not> w_at_capacity_waiting w"
    by (auto simp: walk_inv_def)
  note snoc = passed_states_snoc [OF cells es st]
  have same: "state_of (w_query w) e = state_of q e" using wq snoc(2) by simp
  have quiet: "passed_states io now q (xs @ [e]) st" "w_query w = passed_query now (xs @ [e]) st q"
    if "expire now (state_of q e) = state_of q e"
    using passed_quiet [OF cells es st that] wq by simp_all
  show ?thesis
  proof (cases "state_of q e")
    case StateNodeNotContacted
    with visit same show ?thesis by (simp add: visit_not_contacted split: if_splits)
  next
    case (StateNodeWaiting d)
    show ?thesis
    proof (cases "time_after now d")
      case True
      let ?st = "st[ns_addr e := StateNodeUnresponsive]"
      have "passed_query now (xs @ [e]) ?st q =
          (set_state e StateNodeUnresponsive (w_query w))
             \<lparr>q_in_flight := q_in_flight (w_query w) - 1,
              q_stats := (q_stats (w_query w))\<lparr>qs_failure := qs_failure (q_stats (w_query w)) + 1\<rparr>\<rparr>"
        using StateNodeWaiting True wq by (simp add: passed_query_def expired_def)
      then have "w' = w\<lparr>w_query := passed_query now (xs @ [e]) ?st q\<rparr>"
        using visit StateNodeWaiting True by (simp only: visit_waiting [OF same [unfolded StateNodeWaiting]]) simp
      moreover have "passed_states io now q (xs @ [e]) ?st"
        using snoc(1) StateNodeWaiting True by simp
      ultimately show ?thesis
        by (intro walk_inv_snoc [OF inv]) (use StateNodeWaiting True w in simp_all)
    next
      case False
      with visit same StateNodeWaiting
      have w': "w' = w\<lparr>w_progressing := True\<rparr>" and cap: "\<not> at_capacity (w_query w)"
        by (simp_all add: visit_waiting split: if_splits)
      show ?thesis
        by (rule walk_inv_snoc [OF inv quiet(1)])
          (use StateNodeWaiting False w w' cap in \<open>simp_all add: quiet(2) [symmetric]\<close>)
    qed
  next
    case StateNodeUnresponsive
    with visit same have "w' = w" by (simp add: visit_other)
    then show ?thesis
      by (intro walk_inv_snoc [OF inv quiet(1)]) (use StateNodeUnresponsive w quiet(2) in simp_all)
  next
    case StateNodeFailed
    with visit same have "w' = w" by (simp add: visit_other)
    then show ?thesis
      by (intro walk_inv_snoc [OF inv quiet(1)]) (use StateNodeFailed w quiet(2) in simp_all)
  next
    case StateNodeSucceeded
    let ?w = "w\<lparr>w_successes := w_successes w + 1\<rparr>"
    have cov: "q_coverage (w_query w) = q_coverage q" "q_cfg (w_query w) = q_cfg q"
      "in_prefix kd (w_query w) = in_prefix kd q" using wq by simp_all
    show ?thesis
    proof (cases "q_coverage q")
      case True
      with visit same cov StateNodeSucceeded
      have "w' = (if in_prefix kd q (node_key kd (ns_node e))
          then ?w\<lparr>w_in_prefix_successes := w_in_prefix_successes w + 1\<rparr> else ?w)"
        by (simp add: visit_succeeded Let_def split: if_splits)
      then show ?thesis
        by (intro walk_inv_snoc [OF inv quiet(1)])
          (use StateNodeSucceeded w quiet(2) True in simp_all)
    next
      case False
      with visit same cov StateNodeSucceeded
      have "w' = ?w" "w_progressing w \<or> w_successes w + 1 < qc_num_results (q_cfg q)"
        by (auto simp: visit_succeeded Let_def split: if_splits)
      then show ?thesis
        by (intro walk_inv_snoc [OF inv quiet(1)])
          (use StateNodeSucceeded w quiet(2) False in simp_all)
    qed
  qed
qed

text \<open>
  The ways the loop and what follows it end, each with the query they return. \<open>p\<close> is the query
  once the entries before the one the loop stops at, or all entries, have been passed.
\<close>

lemma run_walk_cases [consumes 2]:
  assumes cells: "query_cells kd io valid (q_self q) (q_iter q) (q_states q)"
    and limit: "1 \<le> qc_num_results (q_cfg q)"
  obtains
    (exhausted) st p where "passed_states io now q (entries_of io q) st"
      "p = passed_query now (entries_of io q) st q"
      "\<forall>r \<in> set (entries_of io q). state_of q r \<noteq> StateNodeNotContacted"
      "q_in_flight p \<le> 0"
      "run_walk kd io now q = (finished_state (mark_finished kd io now p), mark_finished kd io now p)"
  | (waiting) st p where "passed_states io now q (entries_of io q) st"
      "p = passed_query now (entries_of io q) st q"
      "\<forall>r \<in> set (entries_of io q). state_of q r \<noteq> StateNodeNotContacted"
      "0 < q_in_flight p"
      "(\<exists>r \<in> set (entries_of io q). is_waiting (expire now (state_of q r))) \<Longrightarrow> \<not> at_capacity p"
      "run_walk kd io now q =
         (StateQueryWaitingWithCapacity (q_id p) (q_stats p) (q_deadline p) (earliest_node_deadline io p),
          p\<lparr>q_next_due := earliest_node_deadline io p\<rparr>)"
  | (capacity) xs e ys st p where "entries_of io q = xs @ e # ys" "passed_states io now q xs st"
      "p = passed_query now xs st q"
      "\<forall>r \<in> set xs. state_of q r \<noteq> StateNodeNotContacted"
      "at_capacity p" "state_of q e = StateNodeNotContacted \<or> is_waiting (expire now (state_of q e))"
      "run_walk kd io now q =
         (StateQueryWaitingAtCapacity (q_id p) (q_stats p) (q_deadline p) (earliest_node_deadline io p),
          p\<lparr>q_next_due := earliest_node_deadline io p\<rparr>)"
  | (settled) xs e ys st p where "entries_of io q = xs @ e # ys" "passed_states io now q xs st"
      "p = passed_query now xs st q"
      "\<forall>r \<in> set xs. state_of q r \<noteq> StateNodeNotContacted"
      "\<forall>r \<in> set xs. \<not> is_waiting (expire now (state_of q r))"
      "\<not> q_coverage q" "state_of q e = StateNodeSucceeded"
      "qc_num_results (q_cfg q) \<le> count_of (\<lambda>r. state_of q r = StateNodeSucceeded) (xs @ [e])"
      "run_walk kd io now q = (finished_state (mark_finished kd io now p), mark_finished kd io now p)"
  | (boundary) xs e ys st p where "entries_of io q = xs @ e # ys" "passed_states io now q xs st"
      "p = passed_query now xs st q"
      "\<forall>r \<in> set xs. state_of q r \<noteq> StateNodeNotContacted"
      "\<forall>r \<in> set xs. \<not> is_waiting (expire now (state_of q r))"
      "q_coverage q" "state_of q e = StateNodeNotContacted"
      "\<not> in_prefix kd q (node_key kd (ns_node e))"
      "(\<exists>r \<in> set xs. state_of q r = StateNodeSucceeded \<and> in_prefix kd q (node_key kd (ns_node r))) \<or>
         qc_num_results (q_cfg q) \<le> count_of (\<lambda>r. state_of q r = StateNodeSucceeded) xs"
      "run_walk kd io now q = (finished_state (mark_finished kd io now p), mark_finished kd io now p)"
  | (request) xs e ys st p where "entries_of io q = xs @ e # ys" "passed_states io now q xs st"
      "p = passed_query now xs st q"
      "\<forall>r \<in> set xs. state_of q r \<noteq> StateNodeNotContacted"
      "state_of q e = StateNodeNotContacted" "\<not> at_capacity p"
      "run_walk kd io now q = (request_state e (send_request now e p), send_request now e p)"
proof -
  let ?fn = "query_visit kd io now" and ?E = "entries_of io q"
  have result: "run_walk kd io now q = walk_result kd io now w"
    if "each_entries ?fn ?E (start_walk q) = (w, b)" for w b
    using that by (simp add: run_walk_def)
  consider (ended) w where "each_entries ?fn ?E (start_walk q) = (w, False)" "walk_inv kd io now q ?E w"
    | (stopped) xs e ys w0 w where "?E = xs @ e # ys" "walk_inv kd io now q xs w0"
        "?fn e w0 = (w, True)" "each_entries ?fn ?E (start_walk q) = (w, True)"
    by (rule each_entries_cases [where I = "walk_inv kd io now q" and es = ?E and fn = ?fn
          and s = "start_walk q"]) (auto intro: walk_inv_start [OF limit] walk_inv_step [OF cells])
  then show thesis
  proof cases
    case ended
    from ended(2) obtain st where st: "passed_states io now q ?E st" and wq: "w_query w = passed_query now ?E st q"
      and w: "w_return w = None" "\<not> w_at_capacity_waiting w"
        "\<forall>r \<in> set ?E. state_of q r \<noteq> StateNodeNotContacted"
        "(\<exists>r \<in> set ?E. is_waiting (expire now (state_of q r))) \<longrightarrow> \<not> at_capacity (w_query w)"
      by (auto simp: walk_inv_def)
    show thesis
    proof (cases "0 < q_in_flight (w_query w)")
      case True
      with w have "walk_result kd io now w =
         (StateQueryWaitingWithCapacity (q_id (w_query w)) (q_stats (w_query w)) (q_deadline (w_query w))
            (earliest_node_deadline io (w_query w)),
          (w_query w)\<lparr>q_next_due := earliest_node_deadline io (w_query w)\<rparr>)"
        by (simp add: walk_result_def Let_def)
      with waiting [OF st wq w(3) True] w(4) result [OF ended(1)] show thesis by simp
    next
      case False
      with w have "walk_result kd io now w =
         (finished_state (mark_finished kd io now (w_query w)), mark_finished kd io now (w_query w))"
        by (simp add: walk_result_def Let_def)
      with exhausted [OF st wq w(3)] False result [OF ended(1)] show thesis by simp
    qed
  next
    case stopped
    from stopped(2) obtain st where st: "passed_states io now q xs st" and wq: "w_query w0 = passed_query now xs st q"
      and w0: "w_return w0 = None" "\<not> w_at_capacity_waiting w0"
        "\<forall>r \<in> set xs. state_of q r \<noteq> StateNodeNotContacted"
        "w_successes w0 = count_of (\<lambda>r. state_of q r = StateNodeSucceeded) xs"
        "q_coverage q \<Longrightarrow> w_in_prefix_successes w0 =
          count_of (\<lambda>r. state_of q r = StateNodeSucceeded \<and> in_prefix kd q (node_key kd (ns_node r))) xs"
        "w_progressing w0 \<longleftrightarrow> (\<exists>r \<in> set xs. is_waiting (expire now (state_of q r)))"
      by (auto simp: walk_inv_def)
    have same: "state_of (w_query w0) e = state_of q e"
      using passed_states_snoc(2) [OF cells stopped(1) st] wq by simp
    have fields: "q_coverage (w_query w0) = q_coverage q" "q_cfg (w_query w0) = q_cfg q"
      "in_prefix kd (w_query w0) = in_prefix kd q" using wq by simp_all
    have cap: thesis if "w = w0\<lparr>w_at_capacity_waiting := True\<rparr>" "at_capacity (w_query w0)"
      "state_of q e = StateNodeNotContacted \<or> is_waiting (expire now (state_of q e))"
    proof -
      from that(1) w0(1) have "walk_result kd io now w =
         (StateQueryWaitingAtCapacity (q_id (w_query w0)) (q_stats (w_query w0)) (q_deadline (w_query w0))
            (earliest_node_deadline io (w_query w0)),
          (w_query w0)\<lparr>q_next_due := earliest_node_deadline io (w_query w0)\<rparr>)"
        by (simp add: walk_result_def Let_def)
      with capacity [OF stopped(1) st wq w0(3) that(2,3)] result [OF stopped(4)] show thesis by simp
    qed
    have fin: "walk_result kd io now w =
         (finished_state (mark_finished kd io now (w_query w0)), mark_finished kd io now (w_query w0))"
      if "(w, True) = visit_finish kd io now w1" "w_query w1 = w_query w0" for w1
      using that by (simp add: visit_finish_def walk_result_def Let_def)
    show thesis
    proof (cases "state_of q e")
      case StateNodeNotContacted
      note visit = stopped(3) [unfolded visit_not_contacted [OF same [unfolded StateNodeNotContacted]] fields]
      show thesis
      proof (cases "q_coverage q \<and> \<not> in_prefix kd q (node_key kd (ns_node e)) \<and> \<not> w_progressing w0 \<and>
          (0 < w_in_prefix_successes w0 \<or> qc_num_results (q_cfg q) \<le> w_successes w0)")
        case True
        with visit have "visit_finish kd io now w0 = (w, True)" by simp
        from fin [OF this [symmetric] refl] result [OF stopped(4)] True w0
        show thesis
          by (intro boundary [OF stopped(1) st wq w0(3)]) (auto simp: StateNodeNotContacted count_of_pos_iff)
      next
        case False
        show thesis
        proof (cases "at_capacity (w_query w0)")
          case True
          with False visit have "w = w0\<lparr>w_at_capacity_waiting := True\<rparr>" by (simp split: if_splits)
          with True cap StateNodeNotContacted show thesis by blast
        next
          case nc: False
          with False visit have "w_return w = Some (request_state e (send_request now e (w_query w0)))"
            "w_query w = send_request now e (w_query w0)" by (auto split: if_splits)
          then have "walk_result kd io now w =
              (request_state e (send_request now e (w_query w0)), send_request now e (w_query w0))"
            by (simp add: walk_result_def Let_def)
          with request [OF stopped(1) st wq w0(3) StateNodeNotContacted nc] result [OF stopped(4)]
          show thesis by simp
        qed
      qed
    next
      case (StateNodeWaiting d)
      with stopped(3) same have "w = w0\<lparr>w_at_capacity_waiting := True\<rparr>" "at_capacity (w_query w0)"
        "is_waiting (expire now (state_of q e))"
        by (auto simp: visit_waiting split: if_splits)
      with cap show thesis by blast
    next
      case StateNodeSucceeded
      let ?w1 = "w0\<lparr>w_successes := w_successes w0 + 1\<rparr>"
      have v: "\<not> q_coverage q" "\<not> w_progressing w0" "qc_num_results (q_cfg q) \<le> w_successes w0 + 1"
        "visit_finish kd io now ?w1 = (w, True)"
        using stopped(3) [unfolded visit_succeeded [OF same [unfolded StateNodeSucceeded]] fields]
        by (auto simp: Let_def split: if_splits)
      from fin [OF v(4) [symmetric]] result [OF stopped(4)] v w0
      show thesis
        by (intro settled [OF stopped(1) st wq w0(3)]) (auto simp: StateNodeSucceeded)
    qed (use stopped(3) same in \<open>simp_all add: visit_other\<close>)
  qed
qed

section \<open>Advance keeps the query well formed\<close>

lemma waiting_expire: "is_waiting (expire now s) \<Longrightarrow> is_waiting s"
  by (cases s) auto

lemma passed_query_wf [wf_intros]:
  assumes wf: "query_wf kd io valid q" and es: "entries_of io q = xs @ ys"
    and st: "passed_states io now q xs st"
  shows "query_wf kd io valid (passed_query now xs st q)"
proof -
  from wf have cells: "query_cells kd io valid (q_self q) (q_iter q) (q_states q)"
    by (simp add: query_wf_def)
  then have "distinct (entries_of io q)" using iter_distinct by (simp add: query_cells_def distinct_map)
  with es have disj: "r \<in> set ys \<Longrightarrow> r \<notin> set xs" for r by auto
  have "count_of (\<lambda>r. is_waiting (st ! ns_addr r)) xs = count_of (\<lambda>r. is_waiting (expire now (state_of q r))) xs"
    using st es by (intro count_of_cong) (simp add: passed_states_def)
  moreover have "count_of (\<lambda>r. is_waiting (st ! ns_addr r)) ys = count_of (\<lambda>r. is_waiting (state_of q r)) ys"
    using st es disj by (intro count_of_cong) (simp add: passed_states_def)
  moreover have "count_of (\<lambda>r. is_waiting (state_of q r)) zs =
      count_of (expired now q) zs + count_of (\<lambda>r. is_waiting (expire now (state_of q r))) zs" for zs
    by (induction zs) (auto simp: expired_def dest: waiting_expire)
  ultimately have "waiting_count io (passed_query now xs st q) =
      waiting_count io q - count_of (expired now q) xs"
    using es by (simp add: waiting_count_def)
  moreover have "query_cells kd io valid (q_self q) (q_iter q) st"
    using cells st by (simp add: query_cells_def passed_states_def)
  moreover have "q_in_flight q - count_of (expired now q) xs \<le> qc_concurrency (q_cfg q)"
    using wf count_of_nonneg [of "expired now q" xs] unfolding query_wf_def by linarith
  ultimately show ?thesis using wf by (simp add: query_wf_def)
qed

lemma send_request_wf [wf_intros]:
  assumes wf: "query_wf kd io valid q" and e: "e \<in> set (entries_of io q)"
    and s: "state_of q e = StateNodeNotContacted" and cap: "\<not> at_capacity q"
  shows "query_wf kd io valid (send_request now e q)"
proof -
  from wf have cells: "query_cells kd io valid (q_self q) (q_iter q) (q_states q)"
    by (simp add: query_wf_def)
  let ?d = "StateNodeWaiting (time_add now (qc_request_timeout (q_cfg q)))"
  have "waiting_count io (set_state e ?d q) = waiting_count io q + 1"
    using waiting_count_set_state [OF cells e, of ?d] s by simp
  then have "waiting_count io (send_request now e q) = waiting_count io q + 1"
    by (simp add: send_request_def waiting_count_def Let_def)
  with wf cap cells show ?thesis
    by (simp add: query_wf_def send_request_def cells_set_state at_capacity_def Let_def)
qed

lemma next_due_wf [simp]:
  "query_wf kd io valid (q\<lparr>q_next_due := d\<rparr>) = query_wf kd io valid q"
  by (simp add: query_wf_def waiting_count_def)

lemma run_walk_wf:
  assumes wf: "query_wf kd io valid q" and limit: "1 \<le> qc_num_results (q_cfg q)"
  shows "query_wf kd io valid (snd (run_walk kd io now q))"
proof -
  from wf have cells: "query_cells kd io valid (q_self q) (q_iter q) (q_states q)"
    by (simp add: query_wf_def)
  from cells limit show ?thesis
  proof (cases rule: run_walk_cases [where now = now])
    case (request xs e ys st p)
    with passed_query_wf [OF wf request(1,2)] passed_states_snoc(2) [OF cells request(1,2)]
    show ?thesis by (auto intro: send_request_wf)
  qed (use passed_query_wf [OF wf] in \<open>auto intro!: mark_finished_wf\<close>)
qed

end

text \<open>The configuration, and what names the query, never change.\<close>

definition same_identity :: "('k, 'n, 'm, 'it) query \<Rightarrow> ('k, 'n, 'm, 'it) query \<Rightarrow> bool" where
  "same_identity q q' \<longleftrightarrow>
     q_self q' = q_self q \<and> q_id q' = q_id q \<and> q_cfg q' = q_cfg q \<and> q_target q' = q_target q \<and>
     q_msg q' = q_msg q \<and> q_find_closer q' = q_find_closer q \<and> q_coverage q' = q_coverage q \<and>
     q_prefix_len q' = q_prefix_len q"

lemma same_identity_refl [simp]: "same_identity q q"
  by (simp add: same_identity_def)

lemma same_identity_steps [simp]:
  "same_identity q (mark_finished kd io now p) = same_identity q p"
  "same_identity q (passed_query now xs st p) = same_identity q p"
  "same_identity q (send_request now e p) = same_identity q p"
  "same_identity q (p\<lparr>q_next_due := d\<rparr>) = same_identity q p"
  by (simp_all add: same_identity_def mark_finished_def send_request_def Let_def)

lemma same_identity_handlers [simp]:
  "same_identity q (on_node_response kd io n closer p) = same_identity q p"
  "same_identity q (on_node_failure kd io n p) = same_identity q p"
  by (auto simp: same_identity_def on_node_response_def on_node_failure_def accept_closer_def
      split: option.splits node_state.splits prod.splits)

lemma same_identity_cfg: "same_identity q p \<Longrightarrow> q_cfg p = q_cfg q"
  by (simp add: same_identity_def)

context node_iter_spec
begin

lemma run_walk_identity:
  assumes cells: "query_cells kd io valid (q_self p) (q_iter p) (q_states p)"
    and limit: "1 \<le> qc_num_results (q_cfg p)"
  shows "same_identity q (snd (run_walk kd io now p)) = same_identity q p"
  using cells limit by (cases rule: run_walk_cases [where now = now]) auto

lemma handlers_cfg [simp]:
  "q_cfg (on_node_response kd io n closer q) = q_cfg q"
  "q_cfg (on_node_failure kd io n q) = q_cfg q"
  by (auto intro!: same_identity_cfg)

theorem advance_wf:
  assumes wf: "query_wf kd io valid q" and limit: "1 \<le> qc_num_results (q_cfg q)"
  shows "query_wf kd io valid (snd (query_advance kd io now ev q))"
    and "same_identity q (snd (query_advance kd io now ev q))"
proof -
  have cells: "query_cells kd io valid (q_self q') (q_iter q') (q_states q')" if "query_wf kd io valid q'"
    for q' :: "('k, 'n, 'm, 'it) query" using that by (simp add: query_wf_def)
  note handlers = on_node_response_wf [OF wf] on_node_failure_wf [OF wf]
  show "query_wf kd io valid (snd (query_advance kd io now ev q))"
    using wf limit handlers
    by (auto simp: query_advance_def Let_def split: query_event.split intro: mark_finished_wf run_walk_wf)
  show "same_identity q (snd (query_advance kd io now ev q))"
    using wf limit handlers [THEN cells]
    by (auto simp: query_advance_def Let_def run_walk_identity cells split: query_event.split)
qed

text \<open>A new query is well formed when the iterator it is given is valid and empty.\<close>

lemma new_query_wf:
  assumes "valid it" "it_list io it = []" "new_query kd io self qid target msg it known cfg = Inr q"
  shows "query_wf kd io valid q" "1 \<le> qc_num_results (q_cfg q)" "1 \<le> qc_concurrency (q_cfg q)"
proof -
  obtain it' st where add: "add_nodes kd io self known (it, []) = (it', st)" by fastforce
  have cells: "query_cells kd io valid self it []" using assms(1,2) by (simp add: query_cells_def)
  from add_nodes_cells [OF cells add] add_nodes_waiting [OF cells add] assms
  have "query_cells kd io valid self it' st"
    "count_of (\<lambda>r. is_waiting (st ! ns_addr r)) (it_list io it') = 0" by simp_all
  moreover have cfg: "1 \<le> qc_num_results (q_cfg q)" "1 \<le> qc_concurrency (q_cfg q)"
    using assms(3) add
    by (auto simp: new_query_def default_query_config_def query_config_validate_def
        split: option.splits if_splits)
  ultimately show "query_wf kd io valid q"
    using assms(3) add
    by (auto simp: new_query_def query_wf_def waiting_count_def zero_query_stats_def split: option.splits)
  from cfg show "1 \<le> qc_num_results (q_cfg q)" "1 \<le> qc_concurrency (q_cfg q)" .
qed

end

end
