(* ===== verification/QueryOutcome.thy ===== *)
theory QueryOutcome
  imports QueryFacts
begin

text \<open>
  What a query achieves: the nodes it reports, that finishing is final, which nodes it asks, the
  due time it reports, and when polling makes progress.
\<close>

section \<open>The result\<close>

definition succeeded_nodes ::
  "('k, 'n, 'it) iter_ops \<Rightarrow> ('k, 'n, 'm, 'it) query \<Rightarrow> 'n list" where
  "succeeded_nodes io q =
     map ns_node (filter (\<lambda>r. state_of q r = StateNodeSucceeded) (entries_of io q))"

definition query_result ::
  "('k, 'n) kad_ops \<Rightarrow> ('k, 'n, 'it) iter_ops \<Rightarrow> ('k, 'n, 'm, 'it) query \<Rightarrow> 'n list" where
  "query_result kd io q =
     (if q_coverage q then filter (\<lambda>n. in_prefix kd q (node_key kd n)) (succeeded_nodes io q)
      else take (nat (qc_num_results (q_cfg q))) (succeeded_nodes io q))"

lemma collect_coverage:
  assumes "q_coverage q"
  shows "each_entries (collect_visit kd q) es acc =
     (acc @ filter (\<lambda>n. in_prefix kd q (node_key kd n))
        (map ns_node (filter (\<lambda>r. state_of q r = StateNodeSucceeded) es)), False)"
  using assms
  by (induction es arbitrary: acc) (auto simp: collect_visit_def split: node_state.splits)

lemma collect_closest:
  assumes "\<not> q_coverage q" "int (length acc) < qc_num_results (q_cfg q)"
  shows "fst (each_entries (collect_visit kd q) es acc) =
     take (nat (qc_num_results (q_cfg q)))
       (acc @ map ns_node (filter (\<lambda>r. state_of q r = StateNodeSucceeded) es))"
  using assms
proof (induction es arbitrary: acc)
  case Nil
  then show ?case by simp
next
  case (Cons e es)
  show ?case
  proof (cases "state_of q e = StateNodeSucceeded")
    case True
    show ?thesis
    proof (cases "qc_num_results (q_cfg q) \<le> int (length acc) + 1")
      case full: True
      with Cons.prems have "nat (qc_num_results (q_cfg q)) = Suc (length acc)" by linarith
      with True full Cons.prems show ?thesis by (simp add: collect_visit_def)
    next
      case False
      with True Cons.prems Cons.IH [of "acc @ [ns_node e]"] show ?thesis
        by (simp add: collect_visit_def)
    qed
  next
    case False
    with Cons show ?thesis by (auto simp: collect_visit_def split: node_state.splits)
  qed
qed

lemma mark_finished_result:
  assumes "1 \<le> qc_num_results (q_cfg q)"
  shows "q_target_nodes (mark_finished kd io now q) = query_result kd io q"
  using assms
  by (cases "q_coverage q")
    (simp_all add: mark_finished_def query_result_def succeeded_nodes_def collect_coverage collect_closest)

lemma mark_finished_keeps [simp]:
  "query_result kd io (mark_finished kd io now q) = query_result kd io q"
  "succeeded_nodes io (mark_finished kd io now q) = succeeded_nodes io q"
  "q_states (mark_finished kd io now q) = q_states q"
  "q_iter (mark_finished kd io now q) = q_iter q"
  "q_cfg (mark_finished kd io now q) = q_cfg q"
  "q_in_flight (mark_finished kd io now q) = q_in_flight q"
  "q_coverage (mark_finished kd io now q) = q_coverage q"
  "q_finished (mark_finished kd io now q)"
  by (simp_all add: mark_finished_def query_result_def succeeded_nodes_def in_prefix_def)

section \<open>The earliest deadline\<close>

text \<open>The deadlines of the requests in flight, in iteration order.\<close>

definition waiting_deadlines ::
  "('k, 'n, 'it) iter_ops \<Rightarrow> ('k, 'n, 'm, 'it) query \<Rightarrow> time list" where
  "waiting_deadlines io q =
     concat (map (\<lambda>r. case state_of q r of StateNodeWaiting d \<Rightarrow> [d] | _ \<Rightarrow> []) (entries_of io q))"

lemma waiting_deadlines_set:
  "d \<in> set (waiting_deadlines io q) \<longleftrightarrow> (\<exists>r \<in> set (entries_of io q). state_of q r = StateNodeWaiting d)"
  by (auto simp: waiting_deadlines_def split: node_state.splits) (metis node_state.distinct node_state.inject)+

lemma earliest_each:
  "each_entries (earliest_visit q) es t =
     (earliest_from t (concat (map (\<lambda>r. case state_of q r of StateNodeWaiting d \<Rightarrow> [d] | _ \<Rightarrow> []) es)), False)"
  by (induction es arbitrary: t) (auto simp: earliest_visit_def split: node_state.splits)

lemma earliest_node_deadline_eq:
  assumes "\<forall>d \<in> set (waiting_deadlines io q). d \<noteq> 0"
  shows "earliest_node_deadline io q =
     (if waiting_deadlines io q = [] then 0 else Min (set (waiting_deadlines io q)))"
  using assms
  by (simp add: earliest_node_deadline_def earliest_each zero_time_def earliest_from_zero
      flip: waiting_deadlines_def)

section \<open>Finishing is final\<close>

lemma advance_finished:
  "q_finished q \<Longrightarrow> query_advance kd io now ev q = (finished_state q, q)"
  by (simp add: query_advance_def)

section \<open>When a query has settled\<close>

text \<open>
  A node is resolved when it has answered, failed or run out of time. A settled query has
  resolved every node of a front part of the iteration order, and that front part is everything,
  or holds \<open>NumResults\<close> successes, or ends at the boundary of the region with a member found or
  the walk-in bound reached.
\<close>

fun resolved :: "node_state \<Rightarrow> bool" where
  "resolved StateNodeNotContacted = False"
| "resolved (StateNodeWaiting d) = False"
| "resolved StateNodeUnresponsive = True"
| "resolved StateNodeFailed = True"
| "resolved StateNodeSucceeded = True"

lemma resolved_iff: "resolved s \<longleftrightarrow> s \<noteq> StateNodeNotContacted \<and> \<not> is_waiting s"
  by (cases s) auto

definition settled_front ::
  "('k, 'n) kad_ops \<Rightarrow> ('k, 'n, 'm, 'it) query \<Rightarrow> 'n node_status list \<Rightarrow> 'n node_status list \<Rightarrow> bool" where
  "settled_front kd q xs ys \<longleftrightarrow>
     (\<forall>r \<in> set xs. resolved (state_of q r)) \<and>
     (ys = [] \<or>
      (\<not> q_coverage q \<and> qc_num_results (q_cfg q) \<le> count_of (\<lambda>r. state_of q r = StateNodeSucceeded) xs) \<or>
      (q_coverage q \<and> \<not> in_prefix kd q (node_key kd (ns_node (hd ys))) \<and>
        ((\<exists>r \<in> set xs. state_of q r = StateNodeSucceeded \<and> in_prefix kd q (node_key kd (ns_node r))) \<or>
         qc_num_results (q_cfg q) \<le> count_of (\<lambda>r. state_of q r = StateNodeSucceeded) xs)))"

definition query_settled ::
  "('k, 'n) kad_ops \<Rightarrow> ('k, 'n, 'it) iter_ops \<Rightarrow> ('k, 'n, 'm, 'it) query \<Rightarrow> bool" where
  "query_settled kd io q \<longleftrightarrow> (\<exists>xs ys. entries_of io q = xs @ ys \<and> settled_front kd q xs ys)"

lemma query_settledI:
  "settled_front kd q xs ys \<Longrightarrow> entries_of io q = xs @ ys \<Longrightarrow> query_settled kd io q"
  by (auto simp: query_settled_def)

lemma query_settled_mark [simp]:
  "query_settled kd io (mark_finished kd io now q) = query_settled kd io q"
  by (simp add: query_settled_def settled_front_def in_prefix_def mark_finished_def)

lemma finished_state_mark:
  "1 \<le> qc_num_results (q_cfg q) \<Longrightarrow>
     finished_state (mark_finished kd io now q) =
       StateQueryFinished (q_id q) (q_stats (mark_finished kd io now q)) (q_target q) (query_result kd io q)"
  by (simp add: finished_state_def mark_finished_result) (simp add: mark_finished_def)

lemma finished_state_neq [simp]:
  "finished_state q \<noteq> StateQueryWaitingAtCapacity a b c d"
  "finished_state q \<noteq> StateQueryWaitingWithCapacity a b c d"
  "finished_state q \<noteq> request_state r q'"
  "request_state r q' \<noteq> finished_state q"
  by (simp_all add: finished_state_def request_state_def)

lemma request_state_neq [simp]:
  "request_state r q \<noteq> StateQueryFinished a b t ns"
  "request_state r q \<noteq> StateQueryWaitingAtCapacity a b c d"
  "request_state r q \<noteq> StateQueryWaitingWithCapacity a b c d"
  by (simp_all add: request_state_def)

fun is_finished_state :: "('k, 'n, 'm) query_state \<Rightarrow> bool" where
  "is_finished_state (StateQueryFinished a b c d) = True"
| "is_finished_state _ = False"

fun requested_node :: "('k, 'n, 'm) query_state \<Rightarrow> 'n option" where
  "requested_node (StateQueryFindCloser a t n s) = Some n"
| "requested_node (StateQuerySendMessage a n m s) = Some n"
| "requested_node _ = None"

lemma output_kinds [simp]:
  "is_finished_state (finished_state q)" "requested_node (finished_state q) = None"
  "\<not> is_finished_state (request_state r q)" "requested_node (request_state r q) = Some (ns_node r)"
  by (simp_all add: finished_state_def request_state_def)

context node_iter_spec
begin

lemma passed_front_resolved:
  assumes wf: "query_wf kd io valid q" and es: "entries_of io q = xs @ ys"
    and st: "passed_states io now q xs st"
    and nc: "\<forall>r \<in> set xs. state_of q r \<noteq> StateNodeNotContacted"
    and nw: "\<forall>r \<in> set xs. \<not> is_waiting (expire now (state_of q r))"
  shows "\<forall>r \<in> set xs. resolved (state_of (passed_query now xs st q) r)"
  using st nc nw es by (simp add: passed_states_def resolved_iff)

lemma passed_succeeded:
  assumes "entries_of io q = xs @ ys" "passed_states io now q xs st" "r \<in> set (entries_of io q)"
  shows "st ! ns_addr r = StateNodeSucceeded \<longleftrightarrow> state_of q r = StateNodeSucceeded"
  using assms by (simp add: passed_states_def)

lemma run_walk_finished:
  assumes wf: "query_wf kd io valid q" and limit: "1 \<le> qc_num_results (q_cfg q)"
    and run: "run_walk kd io now q = (st, q')" and fin: "is_finished_state st"
  shows "query_settled kd io q' \<and> q_finished q' \<and> st = finished_state q' \<and>
         q_target_nodes q' = query_result kd io q'"
proof -
  from wf have cells: "query_cells kd io valid (q_self q) (q_iter q) (q_states q)"
    by (simp add: query_wf_def)
  from cells limit show ?thesis
  proof (cases rule: run_walk_cases [where now = now])
    case (exhausted st0 p)
    have "query_wf kd io valid p" using passed_query_wf [OF wf _ exhausted(1), of "[]"] exhausted(2) by simp
    with exhausted(2,4) have "waiting_count io p = 0"
      by (metis query_wf_def waiting_count_nonneg order_antisym)
    with exhausted(2) have nw: "\<forall>r \<in> set (entries_of io q). \<not> is_waiting (state_of p r)"
      by (simp add: waiting_count_def count_of_zero_iff)
    moreover have "\<forall>r \<in> set (entries_of io q). state_of p r \<noteq> StateNodeNotContacted"
      using exhausted(1-3) by (simp add: passed_states_def)
    ultimately have "settled_front kd p (entries_of io q) []"
      by (simp add: settled_front_def resolved_iff)
    from query_settledI [OF this] exhausted(2) have "query_settled kd io p" by simp
    with exhausted run limit show ?thesis by (auto simp: mark_finished_result)
  next
    case (settled xs e ys st0 p)
    from settled(1) have es: "entries_of io q = (xs @ [e]) @ ys" by simp
    have "st0 ! ns_addr e = state_of q e" using passed_states_snoc(2) [OF cells settled(1,2)] .
    with passed_front_resolved [OF wf settled(1,2,4,5)] settled(3,7)
    have "\<forall>r \<in> set (xs @ [e]). resolved (state_of p r)" by auto
    moreover have "count_of (\<lambda>r. state_of p r = StateNodeSucceeded) (xs @ [e]) =
        count_of (\<lambda>r. state_of q r = StateNodeSucceeded) (xs @ [e])"
      using passed_succeeded [OF settled(1,2)] settled(1,3) by (intro count_of_cong) auto
    ultimately have "settled_front kd p (xs @ [e]) ys"
      using settled by (simp add: settled_front_def)
    from query_settledI [OF this] es settled(3) have "query_settled kd io p" by simp
    with settled run limit show ?thesis by (auto simp: mark_finished_result)
  next
    case (boundary xs e ys st0 p)
    have "count_of (\<lambda>r. state_of p r = StateNodeSucceeded) xs =
        count_of (\<lambda>r. state_of q r = StateNodeSucceeded) xs"
      using passed_succeeded [OF boundary(1,2)] boundary(1,3) by (intro count_of_cong) auto
    moreover have "state_of p r = StateNodeSucceeded \<longleftrightarrow> state_of q r = StateNodeSucceeded" if "r \<in> set xs" for r
      using passed_succeeded [OF boundary(1,2)] boundary(1,3) that by auto
    ultimately have "settled_front kd p xs (e # ys)"
      using boundary passed_front_resolved [OF wf boundary(1,2,4,5)] by (auto simp: settled_front_def)
    from query_settledI [OF this] boundary(1,3) have "query_settled kd io p" by simp
    with boundary run limit show ?thesis by (auto simp: mark_finished_result)
  qed (use run fin in auto)
qed

text \<open>A request goes to a node that was not contacted and puts it in flight.\<close>

lemma run_walk_request:
  assumes wf: "query_wf kd io valid q" and limit: "1 \<le> qc_num_results (q_cfg q)"
    and run: "run_walk kd io now q = (st, q')" and req: "requested_node st = Some n"
  obtains e where "e \<in> set (entries_of io q)" "ns_node e = n" "state_of q e = StateNodeNotContacted"
    "state_of q' e = StateNodeWaiting (time_add now (qc_request_timeout (q_cfg q)))"
    "qs_requests (q_stats q') = qs_requests (q_stats q) + 1" "q_iter q' = q_iter q"
proof -
  from wf have cells: "query_cells kd io valid (q_self q) (q_iter q) (q_states q)"
    by (simp add: query_wf_def)
  from cells limit show thesis
  proof (cases rule: run_walk_cases [where now = now])
    case (request xs e ys st0 p)
    from request(1) cells have e: "e \<in> set (entries_of io q)" "ns_addr e < length (q_states q)"
      by (auto simp: query_cells_def)
    with request(2) have "ns_addr e < length st0" by (simp add: passed_states_def)
    with request run req e show thesis
      by (intro that [of e]) (auto simp: send_request_def Let_def)
  qed (use run req in \<open>auto\<close>)
qed

text \<open>How the state of one entry can change in the loop.\<close>

lemma run_walk_state:
  fixes q :: "('k, 'n, 'm, 'it) query"
  assumes cells: "query_cells kd io valid (q_self q) (q_iter q) (q_states q)"
    and limit: "1 \<le> qc_num_results (q_cfg q)" and r: "r \<in> set (entries_of io q)"
    and run: "run_walk kd io now q = (st, q')"
  shows "state_of q' r = state_of q r \<or> state_of q' r = expire now (state_of q r) \<or>
      (state_of q r = StateNodeNotContacted \<and>
       state_of q' r = StateNodeWaiting (time_add now (qc_request_timeout (q_cfg q))) \<and>
       requested_node st = Some (ns_node r))"
proof -
  have passed: "state_of p r = state_of q r \<or> state_of p r = expire now (state_of q r)"
    if "passed_states io now q xs st0" "p = passed_query now xs st0 q"
    for xs st0 and p :: "('k, 'n, 'm, 'it) query"
    using that r by (simp add: passed_states_def)
  from cells limit show ?thesis
  proof (cases rule: run_walk_cases [where now = now])
    case (request xs e ys st0 p)
    have len: "length st0 = length (q_states q)" using request(2) by (simp add: passed_states_def)
    have "ns_addr e < length (q_states q)" using cells request(1) by (simp add: query_cells_def)
    moreover have "ns_addr r = ns_addr e \<longleftrightarrow> r = e"
      using cells iter_distinct r request(1) by (auto simp: query_cells_def distinct_map inj_on_def)
    ultimately have "state_of (send_request now e p) r =
        (if r = e then StateNodeWaiting (time_add now (qc_request_timeout (q_cfg q))) else state_of p r)"
      using request(3) len by (auto simp: send_request_def Let_def nth_list_update)
    with passed [OF request(2,3)] request(1,5,7) run show ?thesis
      by (cases "r = e") auto
  next
    case (exhausted st0 p)
    with passed [of "entries_of io q" st0 p] run show ?thesis by auto
  next
    case (waiting st0 p)
    with passed [of "entries_of io q" st0 p] run show ?thesis by auto
  next
    case (capacity xs e ys st0 p)
    with passed [of xs st0 p] run show ?thesis by auto
  next
    case (settled xs e ys st0 p)
    with passed [of xs st0 p] run show ?thesis by auto
  next
    case (boundary xs e ys st0 p)
    with passed [of xs st0 p] run show ?thesis by auto
  qed
qed

lemma run_walk_iter:
  assumes cells: "query_cells kd io valid (q_self q) (q_iter q) (q_states q)"
    and limit: "1 \<le> qc_num_results (q_cfg q)"
  shows "q_iter (snd (run_walk kd io now q)) = q_iter q"
  using assms by (cases rule: run_walk_cases [where now = now]) (auto simp: send_request_def Let_def)

text \<open>A node added by a response has a cell beyond those of the store before it.\<close>

lemma add_nodes_entries:
  assumes "query_cells kd io valid self it st" "add_nodes kd io self ns (it, st) = (it', st')"
    and "r \<in> set (it_list io it')"
  shows "r \<in> set (it_list io it) \<or> length st \<le> ns_addr r"
  using assms
proof (induction ns arbitrary: it st)
  case Nil
  then show ?case by simp
next
  case (Cons n ns)
  show ?case
  proof (cases "node_key kd n = node_key kd self")
    case True
    with Cons show ?thesis by simp
  next
    case False
    let ?r = "\<lparr>ns_node = n, ns_addr = length st\<rparr>"
    let ?it = "it_add io ?r it" and ?st = "st @ [StateNodeNotContacted]"
    from Cons.prems(1) have valid: "valid it" and fresh: "ns_addr ?r \<notin> ns_addr ` set (it_list io it)"
      by (auto simp: query_cells_def)
    have one: "add_nodes kd io self [n] (it, st) = (?it, ?st)" using False by simp
    from add_nodes_cells [OF Cons.prems(1) one] have "query_cells kd io valid self ?it ?st" by simp
    moreover from Cons.prems(2) False have "add_nodes kd io self ns (?it, ?st) = (it', st')" by simp
    ultimately have "r \<in> set (it_list io ?it) \<or> length ?st \<le> ns_addr r"
      using Cons.IH Cons.prems(3) by blast
    with iter_add_set [OF valid fresh] show ?thesis by auto
  qed
qed

end

text \<open>
  What an event can do to the entries: none is taken away, none becomes not contacted again,
  and a new one is not contacted.
\<close>

definition entries_stay ::
  "('k, 'n, 'it) iter_ops \<Rightarrow> ('k, 'n, 'm, 'it) query \<Rightarrow> ('k, 'n, 'm, 'it) query \<Rightarrow> bool" where
  "entries_stay io q q' \<longleftrightarrow>
     set (entries_of io q) \<subseteq> set (entries_of io q') \<and>
     (\<forall>r \<in> set (entries_of io q).
        state_of q r \<noteq> StateNodeNotContacted \<longrightarrow> state_of q' r \<noteq> StateNodeNotContacted)"

lemma entries_stay_refl [simp]: "entries_stay io q q"
  by (simp add: entries_stay_def)

lemma entries_stay_trans: "entries_stay io p q \<Longrightarrow> entries_stay io q r \<Longrightarrow> entries_stay io p r"
  by (auto simp: entries_stay_def)

lemma mark_finished_stays [simp]: "entries_stay io q (mark_finished kd io now q)"
  by (simp add: entries_stay_def)

lemma expire_not_contacted [simp]: "expire now s = StateNodeNotContacted \<longleftrightarrow> s = StateNodeNotContacted"
  by (cases s) auto

context node_iter_spec
begin

lemma run_walk_stays:
  assumes cells: "query_cells kd io valid (q_self q) (q_iter q) (q_states q)"
    and limit: "1 \<le> qc_num_results (q_cfg q)"
  shows "entries_stay io q (snd (run_walk kd io now q))"
proof -
  obtain st q' where run: "run_walk kd io now q = (st, q')" by fastforce
  have "state_of q' r \<noteq> StateNodeNotContacted"
    if "r \<in> set (entries_of io q)" "state_of q r \<noteq> StateNodeNotContacted" for r
    using run_walk_state [OF cells limit that(1) run] that(2) by auto
  with run_walk_iter [OF cells limit, of now] run show ?thesis by (simp add: entries_stay_def)
qed

text \<open>A handler that changes the entries adds the closer nodes and settles the one that answered.\<close>

lemma accept_closer_states:
  assumes cells: "query_cells kd io valid (q_self q) (q_iter q) (q_states q)"
    and r: "r \<in> set (entries_of io q)"
  shows "r \<in> set (entries_of io (accept_closer kd io ni closer q)) \<and>
      (state_of (accept_closer kd io ni closer q) r = state_of q r \<or>
       state_of (accept_closer kd io ni closer q) r = StateNodeSucceeded)"
proof -
  obtain it st where add: "add_nodes kd io (q_self q) closer (q_iter q, q_states q) = (it, st)"
    by fastforce
  from add_nodes_cells [OF cells add] obtain n where
    sub: "set (entries_of io q) \<subseteq> set (it_list io it)"
    and st: "st = q_states q @ replicate n StateNodeNotContacted" by blast
  have "st ! ns_addr r = state_of q r" "ns_addr r < length st"
    using st cells r by (auto simp: query_cells_def nth_append)
  with sub r add show ?thesis
    by (cases "ns_addr ni = ns_addr r") (auto simp: accept_closer_def)
qed

lemma query_cells_in_flight [simp]:
  "accept_closer kd io ni closer (q\<lparr>q_in_flight := i, q_stats := s\<rparr>) =
     (accept_closer kd io ni closer q)\<lparr>q_in_flight := i, q_stats := s\<rparr>"
  by (simp add: accept_closer_def split: prod.splits)

lemma on_node_response_stays:
  assumes cells: "query_cells kd io valid (q_self q) (q_iter q) (q_states q)"
  shows "entries_stay io q (on_node_response kd io node closer q)"
proof -
  have "entries_stay io q (accept_closer kd io ni closer q)" for ni
    unfolding entries_stay_def using accept_closer_states [OF cells, of _ ni closer] by fastforce
  then show ?thesis
    by (auto simp: on_node_response_def entries_stay_def split: option.splits node_state.splits)
qed

lemma on_node_failure_stays:
  assumes cells: "query_cells kd io valid (q_self q) (q_iter q) (q_states q)"
  shows "entries_stay io q (on_node_failure kd io node q)"
proof -
  have "entries_stay io q (set_state ni StateNodeFailed q)" for ni
    using cells unfolding entries_stay_def query_cells_def
    by (auto simp: nth_list_update split: if_splits) (metis nth_list_update_neq nth_list_update_eq node_state.distinct(5))
  then show ?thesis
    by (auto simp: on_node_failure_def entries_stay_def split: option.splits node_state.splits)
qed

lemma advance_stays:
  assumes wf: "query_wf kd io valid q" and limit: "1 \<le> qc_num_results (q_cfg q)"
  shows "entries_stay io q (snd (query_advance kd io now ev q))"
proof -
  have cells: "query_cells kd io valid (q_self q') (q_iter q') (q_states q')" if "query_wf kd io valid q'"
    for q' :: "('k, 'n, 'm, 'it) query" using that by (simp add: query_wf_def)
  note wfs = wf on_node_response_wf [OF wf] on_node_failure_wf [OF wf]
  note walk = run_walk_stays [OF wfs(1) [THEN cells]] run_walk_stays [OF wfs(2) [THEN cells]]
    run_walk_stays [OF wfs(3) [THEN cells]]
  have limits: "1 \<le> qc_num_results (q_cfg (on_node_response kd io n ns q))"
    "1 \<le> qc_num_results (q_cfg (on_node_failure kd io n q))" for n ns using limit by simp_all
  have response: "entries_stay io q (snd (run_walk kd io now (on_node_response kd io n ns q)))" for n ns
    by (rule entries_stay_trans [OF on_node_response_stays [OF cells [OF wf]] walk(2) [OF limits(1)]])
  have failure: "entries_stay io q (snd (run_walk kd io now (on_node_failure kd io n q)))" for n
    by (rule entries_stay_trans [OF on_node_failure_stays [OF cells [OF wf]] walk(3) [OF limits(2)]])
  show ?thesis
    using walk(1) [OF limit] response failure
    by (cases ev) (simp_all add: query_advance_def Let_def)
qed

end

section \<open>No node is asked twice\<close>

text \<open>\<open>query_run\<close> feeds a query a sequence of events, each with the time of the call, and
  collects the states reported.\<close>

fun query_run ::
  "('k, 'n) kad_ops \<Rightarrow> ('k, 'n, 'it) iter_ops \<Rightarrow> (time \<times> 'n query_event) list \<Rightarrow>
     ('k, 'n, 'm, 'it) query \<Rightarrow> ('k, 'n, 'm) query_state list \<times> ('k, 'n, 'm, 'it) query" where
  "query_run kd io [] q = ([], q)"
| "query_run kd io ((now, ev) # evs) q =
     (let (st, q1) = query_advance kd io now ev q; (sts, q2) = query_run kd io evs q1
      in (st # sts, q2))"

definition requests_of :: "('k, 'n, 'm) query_state list \<Rightarrow> 'n list" where
  "requests_of sts = List.map_filter requested_node sts"

lemma requests_of_simps [simp]:
  "requests_of [] = []"
  "requests_of (st # sts) =
     (case requested_node st of None \<Rightarrow> requests_of sts | Some n \<Rightarrow> n # requests_of sts)"
  by (simp_all add: requests_of_def List.map_filter_simps split: option.split)

text \<open>A key is spent when its entry is no longer waiting to be asked.\<close>

definition spent ::
  "('k, 'n) kad_ops \<Rightarrow> ('k, 'n, 'it) iter_ops \<Rightarrow> 'k \<Rightarrow> ('k, 'n, 'm, 'it) query \<Rightarrow> bool" where
  "spent kd io k q \<longleftrightarrow> (\<exists>r \<in> set (entries_of io q).
     node_key kd (ns_node r) = k \<and> state_of q r \<noteq> StateNodeNotContacted)"

lemma spent_stays: "entries_stay io q q' \<Longrightarrow> spent kd io k q \<Longrightarrow> spent kd io k q'"
  by (auto simp: spent_def entries_stay_def)

text \<open>An iterator that holds at most one entry for a key.\<close>

locale keyed_iter_spec = node_iter_spec kd io valid
  for kd :: "('k, 'n) kad_ops" and io :: "('k, 'n, 'it) iter_ops" and valid :: "'it \<Rightarrow> bool" +
  assumes iter_keys: "valid it \<Longrightarrow> distinct (map (\<lambda>r. node_key kd (ns_node r)) (it_list io it))"
begin

lemma run_walk_fresh:
  assumes wf: "query_wf kd io valid q" and limit: "1 \<le> qc_num_results (q_cfg q)"
    and run: "run_walk kd io now q = (st, q')" and req: "requested_node st = Some n"
  shows "\<not> spent kd io (node_key kd n) q" "spent kd io (node_key kd n) q'"
proof -
  from run_walk_request [OF wf limit run req] obtain e where e: "e \<in> set (entries_of io q)"
    "ns_node e = n" "state_of q e = StateNodeNotContacted"
    "state_of q' e = StateNodeWaiting (time_add now (qc_request_timeout (q_cfg q)))"
    "q_iter q' = q_iter q" by metis
  then show "spent kd io (node_key kd n) q'" by (auto simp: spent_def)
  have "inj_on (\<lambda>r. node_key kd (ns_node r)) (set (entries_of io q))"
    using wf iter_keys by (simp add: query_wf_def query_cells_def distinct_map)
  with e show "\<not> spent kd io (node_key kd n) q" by (auto simp: spent_def dest: inj_onD)
qed

lemma advance_fresh:
  assumes wf: "query_wf kd io valid q" and limit: "1 \<le> qc_num_results (q_cfg q)"
    and run: "query_advance kd io now ev q = (st, q')" and req: "requested_node st = Some n"
  shows "\<not> spent kd io (node_key kd n) q \<and> spent kd io (node_key kd n) q'"
proof -
  from wf have cells: "query_cells kd io valid (q_self q) (q_iter q) (q_states q)"
    by (simp add: query_wf_def)
  from run req obtain q1 where q1: "run_walk kd io now q1 = (st, q')" "entries_stay io q q1"
    "query_wf kd io valid q1" "1 \<le> qc_num_results (q_cfg q1)"
    using wf limit on_node_response_wf [OF wf] on_node_failure_wf [OF wf]
      on_node_response_stays [OF cells] on_node_failure_stays [OF cells]
    by (cases ev) (auto simp: query_advance_def Let_def split: if_splits)
  from run_walk_fresh [OF q1(3,4,1) req] spent_stays [OF q1(2)] show ?thesis by blast
qed

lemma run_fresh:
  assumes "query_wf kd io valid q" "1 \<le> qc_num_results (q_cfg q)" "query_run kd io evs q = (sts, q')"
  shows "distinct (map (node_key kd) (requests_of sts)) \<and>
    (\<forall>n \<in> set (requests_of sts). \<not> spent kd io (node_key kd n) q) \<and> query_wf kd io valid q'"
  using assms
proof (induction evs arbitrary: q sts)
  case Nil
  then show ?case by simp
next
  case (Cons e evs)
  obtain now ev where e: "e = (now, ev)" by fastforce
  obtain st q1 where adv: "query_advance kd io now ev q = (st, q1)" by fastforce
  obtain sts1 where run: "query_run kd io evs q1 = (sts1, q')" "sts = st # sts1"
    using Cons.prems(3) e adv by (auto split: prod.splits)
  from advance_wf [OF Cons.prems(1,2), of now ev] adv Cons.prems(2)
  have wf1: "query_wf kd io valid q1" "1 \<le> qc_num_results (q_cfg q1)"
    by (auto simp: same_identity_def)
  note IH = Cons.IH [OF wf1 run(1)]
  have stay: "spent kd io k q \<Longrightarrow> spent kd io k q1" for k
    using spent_stays advance_stays [OF Cons.prems(1,2), of now ev] adv by fastforce
  show ?case
  proof (cases "requested_node st")
    case None
    with IH run stay show ?thesis by auto
  next
    case (Some n)
    with advance_fresh [OF Cons.prems(1,2) adv Some] IH run stay show ?thesis by auto
  qed
qed

end

sublocale kad_node_trie \<subseteq> closest: keyed_iter_spec kd "closest_iter kd T" "closest_valid kd T ok"
proof unfold_locales
  fix it :: "('k, 'tr) closest_nodes_iter"
  assume valid: "closest_valid kd T ok it"
  let ?es = "trie_closest T (ci_nodes it) (ci_target it) (trie_size T (ci_nodes it))"
  from valid have ok: "ok (ci_nodes it)" by (simp add: closest_valid_def)
  have "fst e = node_key kd (ns_node (snd e))" if "e \<in> set ?es" for e
    using that valid trie_closest_set [OF ok, of "fst e" "snd e" "ci_target it"]
    by (simp add: closest_valid_def)
  then have "map fst ?es = map (\<lambda>e. node_key kd (ns_node (snd e))) ?es" by simp
  with trie_closest_distinct [OF ok, of "ci_target it"]
  show "distinct (map (\<lambda>r. node_key kd (ns_node r)) (it_list (closest_iter kd T) it))"
    by (simp add: closest_iter_def closest_entries_def comp_def)
qed

end
