(* ===== verification/QueryProgress.thy ===== *)
theory QueryProgress
  imports QueryOutcome
begin

text \<open>
  When a query makes progress. Polling a query whose outstanding requests have all timed out
  either finishes it or sends the next request, as long as no node that still has to be asked is
  followed by as many waiting nodes as the concurrency allows (\<open>unblocked\<close>); so a query whose
  nodes never answer finishes after as many polls as it knows nodes.
\<close>

lemma split_after:
  "as @ f # bs = xs @ ys \<Longrightarrow> f \<notin> set xs \<Longrightarrow> \<exists>cs. as = xs @ cs \<and> ys = cs @ f # bs"
  by (auto simp: append_eq_append_conv2 Cons_eq_append_conv)

definition unasked_count ::
  "('k, 'n, 'it) iter_ops \<Rightarrow> ('k, 'n, 'm, 'it) query \<Rightarrow> nat" where
  "unasked_count io q = length (filter (\<lambda>r. state_of q r = StateNodeNotContacted) (entries_of io q))"

definition unblocked ::
  "('k, 'n, 'it) iter_ops \<Rightarrow> ('k, 'n, 'm, 'it) query \<Rightarrow> bool" where
  "unblocked io q \<longleftrightarrow>
     (\<forall>xs e ys. entries_of io q = xs @ e # ys \<longrightarrow> state_of q e = StateNodeNotContacted \<longrightarrow>
        count_of (\<lambda>r. is_waiting (state_of q r)) ys < qc_concurrency (q_cfg q))"

definition overdue :: "('k, 'n, 'it) iter_ops \<Rightarrow> time \<Rightarrow> ('k, 'n, 'm, 'it) query \<Rightarrow> bool" where
  "overdue io now q \<longleftrightarrow> (\<forall>d \<in> set (waiting_deadlines io q). time_after now d)"

lemma overdueD:
  "overdue io now q \<Longrightarrow> r \<in> set (entries_of io q) \<Longrightarrow> \<not> is_waiting (expire now (state_of q r))"
  unfolding overdue_def by (cases "state_of q r") (auto simp: waiting_deadlines_set)

text \<open>Polls at \<open>now\<close>, \<open>now + d\<close>, \<open>now + 2 * d\<close> and so on.\<close>

fun poll_times :: "nat \<Rightarrow> duration \<Rightarrow> time \<Rightarrow> (time \<times> 'n query_event) list" where
  "poll_times 0 d now = []"
| "poll_times (Suc n) d now = (now, EventQueryPoll) # poll_times n d (time_add now d)"

context node_iter_spec
begin

lemma passed_in_flight:
  assumes wf: "query_wf kd io valid q" and es: "entries_of io q = xs @ ys"
    and st: "passed_states io now q xs st" and due: "overdue io now q"
  shows "q_in_flight (passed_query now xs st q) = count_of (\<lambda>r. is_waiting (state_of q r)) ys"
proof -
  have "count_of (expired now q) xs = count_of (\<lambda>r. is_waiting (state_of q r)) xs"
    using overdueD [OF due] es
    by (intro count_of_cong) (auto simp: expired_def)
  with wf es show ?thesis by (simp add: query_wf_def waiting_count_def)
qed

text \<open>Sending a request changes one entry, from not contacted to waiting.\<close>

lemma send_request_states:
  assumes cells: "query_cells kd io valid (q_self q) (q_iter q) (q_states q)"
    and e: "e \<in> set (entries_of io q)" and r: "r \<in> set (entries_of io q)"
    and len: "length (q_states p) = length (q_states q)"
  shows "state_of (send_request now e p) r =
    (if r = e then StateNodeWaiting (time_add now (qc_request_timeout (q_cfg p))) else state_of p r)"
proof -
  have "ns_addr e < length (q_states p)" using cells e len by (simp add: query_cells_def)
  moreover have "ns_addr r = ns_addr e \<longleftrightarrow> r = e"
    using cells iter_distinct e r by (auto simp: query_cells_def distinct_map inj_on_def)
  ultimately show ?thesis by (auto simp: send_request_def Let_def nth_list_update)
qed

lemma request_progress:
  assumes wf: "query_wf kd io valid q" and free: "unblocked io q" and due: "overdue io now q"
    and es: "entries_of io q = xs @ e # ys" and st: "passed_states io now q xs st"
    and p: "p = passed_query now xs st q" and nc: "\<forall>r \<in> set xs. state_of q r \<noteq> StateNodeNotContacted"
    and e: "state_of q e = StateNodeNotContacted" and q': "q' = send_request now e p"
  shows "unasked_count io q' < unasked_count io q \<and> unblocked io q' \<and>
      (\<forall>d \<in> set (waiting_deadlines io q'). time_after now d \<or>
         d = time_add now (qc_request_timeout (q_cfg q)))"
proof -
  let ?w = "StateNodeWaiting (time_add now (qc_request_timeout (q_cfg q)))"
  from wf have cells: "query_cells kd io valid (q_self q) (q_iter q) (q_states q)"
    by (simp add: query_wf_def)
  then have "distinct (entries_of io q)" using iter_distinct by (simp add: query_cells_def distinct_map)
  with es have disj: "e \<notin> set xs" "e \<notin> set ys" "set xs \<inter> set ys = {}" by auto
  have it: "entries_of io q' = xs @ e # ys" using q' p es by (simp add: send_request_def Let_def)
  have cfg: "q_cfg q' = q_cfg q" using q' p by (simp add: send_request_def Let_def)
  have states: "state_of q' r = (if r = e then ?w else if r \<in> set xs then expire now (state_of q r) else state_of q r)"
    if "r \<in> set (entries_of io q)" for r
    using send_request_states [OF cells _ that, of e p now] st p q' es that
    by (auto simp: passed_states_def)
  have xs: "\<not> is_waiting (state_of q' r)" "state_of q' r \<noteq> StateNodeNotContacted" if "r \<in> set xs" for r
    using states [of r] overdueD [OF due, of r] nc that es disj by auto
  have ys: "state_of q' r = state_of q r" if "r \<in> set ys" for r
    using states [of r] that es disj by auto
  have e': "state_of q' e = ?w" using states [of e] es by simp
  have "filter (\<lambda>r. state_of q' r = StateNodeNotContacted) ys = filter (\<lambda>r. state_of q r = StateNodeNotContacted) ys"
    using ys by (intro filter_cong) auto
  moreover have "filter (\<lambda>r. state_of q' r = StateNodeNotContacted) xs = []"
    "filter (\<lambda>r. state_of q r = StateNodeNotContacted) xs = []"
    using xs nc by (auto simp: filter_empty_conv)
  ultimately have "unasked_count io q' < unasked_count io q"
    by (simp add: unasked_count_def it es e e')
  moreover have "unblocked io q'"
    unfolding unblocked_def
  proof (intro allI impI)
    fix as f bs assume split: "entries_of io q' = as @ f # bs" and f: "state_of q' f = StateNodeNotContacted"
    have "f \<noteq> e" using f e' by auto
    moreover have "f \<notin> set xs" using f xs by auto
    ultimately obtain cs where cs: "as = (xs @ [e]) @ cs" "ys = cs @ f # bs"
      using split_after [of as f bs "xs @ [e]" ys] split it by auto
    have "count_of (\<lambda>r. is_waiting (state_of q' r)) bs = count_of (\<lambda>r. is_waiting (state_of q r)) bs"
      using ys cs by (intro count_of_cong) simp
    moreover have "state_of q f = StateNodeNotContacted" using ys f cs by simp
    ultimately show "count_of (\<lambda>r. is_waiting (state_of q' r)) bs < qc_concurrency (q_cfg q')"
      using free [unfolded unblocked_def, rule_format, of as f bs] es cs cfg by simp
  qed
  moreover have "time_after now d \<or> d = time_add now (qc_request_timeout (q_cfg q))"
    if d: "d \<in> set (waiting_deadlines io q')" for d
  proof -
    from d it obtain r where r: "r \<in> set xs \<or> r = e \<or> r \<in> set ys" "state_of q' r = StateNodeWaiting d"
      by (auto simp: waiting_deadlines_set)
    from r xs have "r = e \<or> r \<in> set ys" by (metis is_waiting.simps(1))
    then show ?thesis
    proof
      assume "r = e"
      with r e' show ?thesis by simp
    next
      assume "r \<in> set ys"
      with r ys es have "d \<in> set (waiting_deadlines io q)" by (auto simp: waiting_deadlines_set)
      with due show ?thesis by (simp add: overdue_def)
    qed
  qed
  ultimately show ?thesis by blast
qed

lemma run_walk_overdue:
  assumes wf: "query_wf kd io valid q" and limit: "1 \<le> qc_num_results (q_cfg q)"
    and conc: "1 \<le> qc_concurrency (q_cfg q)"
    and due: "overdue io now q" and free: "unblocked io q"
    and run: "run_walk kd io now q = (st, q')"
  shows "q_finished q' \<or>
     (unasked_count io q' < unasked_count io q \<and> unblocked io q' \<and>
      (\<forall>d \<in> set (waiting_deadlines io q'). time_after now d \<or>
         d = time_add now (qc_request_timeout (q_cfg q))))"
proof -
  from wf have cells: "query_cells kd io valid (q_self q) (q_iter q) (q_states q)"
    by (simp add: query_wf_def)
  from cells limit show ?thesis
  proof (cases rule: run_walk_cases [where now = now])
    case (waiting st0 p)
    with passed_in_flight [OF wf _ waiting(1) due, of "[]"] show ?thesis by simp
  next
    case (capacity xs e ys st0 p)
    have "state_of q e = StateNodeNotContacted"
      using capacity(6) overdueD [OF due, of e] capacity(1) by auto
    moreover have "q_in_flight p = count_of (\<lambda>r. is_waiting (state_of q r)) (e # ys)"
      using passed_in_flight [OF wf capacity(1,2) due] capacity(3) by simp
    ultimately show ?thesis
      using free [unfolded unblocked_def, rule_format, OF capacity(1)] capacity(3,5)
      by (simp add: at_capacity_def)
  next
    case (request xs e ys st0 p)
    with run request_progress [OF wf free due request(1-5), of q'] show ?thesis by simp
  qed (use run in auto)
qed

lemma poll_run_finishes:
  assumes "query_wf kd io valid q" "1 \<le> qc_num_results (q_cfg q)" "1 \<le> qc_concurrency (q_cfg q)"
    "overdue io now q" "unblocked io q" "qc_request_timeout (q_cfg q) < d" "0 < d"
    "unasked_count io q < n"
  shows "q_finished (snd (query_run kd io (poll_times n d now) q))"
  using assms
proof (induction n arbitrary: q now)
  case 0
  then show ?case by simp
next
  case (Suc n)
  have fin: "q_finished (snd (query_run kd io (poll_times n d t) p))" if "q_finished p"
    for t and p :: "('k, 'n, 'm, 'it) query"
    using that
  proof (induction n arbitrary: t p)
    case (Suc n)
    from Suc.IH [OF Suc.prems, of "time_add t d"] Suc.prems show ?case
      by (auto simp: advance_finished split: prod.splits)
  qed simp
  obtain st q1 where adv: "query_advance kd io now EventQueryPoll q = (st, q1)" by fastforce
  have step: "query_run kd io (poll_times (Suc n) d now) q =
      (st # fst (query_run kd io (poll_times n d (time_add now d)) q1),
       snd (query_run kd io (poll_times n d (time_add now d)) q1))"
    using adv by (simp add: split: prod.split)
  show ?case
  proof (cases "q_finished q1")
    case True
    with fin step show ?thesis by simp
  next
    case False
    then have "\<not> q_finished q" using adv by (auto simp: advance_finished)
    with adv have run: "run_walk kd io now q = (st, q1)" by (simp add: query_advance_def)
    from run_walk_overdue [OF Suc.prems(1-5) run] False have
      less: "unasked_count io q1 < unasked_count io q" and free: "unblocked io q1" and
      dl: "\<forall>t \<in> set (waiting_deadlines io q1). time_after now t \<or> t = time_add now (qc_request_timeout (q_cfg q))"
      by auto
    from dl Suc.prems(6,7) have "overdue io (time_add now d) q1"
      by (auto simp: overdue_def time_defs)
    moreover have "query_wf kd io valid q1" "q_cfg q1 = q_cfg q"
      using advance_wf [OF Suc.prems(1,2), of now EventQueryPoll] adv by (auto simp: same_identity_def)
    ultimately show ?thesis
      using Suc.IH [of q1 "time_add now d"] step less free Suc.prems by simp
  qed
qed

end

end
