(* ===== verification/Tiny.thy ===== *)
theory Tiny
  imports NodeIter "HOL-Library.Word"
begin

text \<open>
  \<open>internal/tiny\<close>: the 8-bit key type of the package's test networks, its node, its message and
  the protocol that mints node ids. The key type is \<open>Key8\<close> of \<open>go-libdht\<close>; \<open>tiny_kad\<close> is its
  documented behaviour, and it is the concrete instance on which the development's witnesses
  run. A trie kept as an association list instantiates the contract of the external trie.
\<close>

unbundle bit_operations_syntax

section \<open>Laws of the metric\<close>

text \<open>
  What the library relies on beyond the signatures of \<open>kad.Key\<close>: distance to a target orders
  keys totally, and a nearer key shares at least as long a prefix with the target.
\<close>

locale kad_metric =
  fixes kd :: "('k, 'n) kad_ops"
  assumes nearer_total: "nearer_eq kd t a b \<or> nearer_eq kd t b a"
    and nearer_trans: "nearer_eq kd t a b \<Longrightarrow> nearer_eq kd t b c \<Longrightarrow> nearer_eq kd t a c"
    and nearer_cpl: "nearer_eq kd t a b \<Longrightarrow> key_cpl kd b t \<le> key_cpl kd a t"

text \<open>The string form of a key, which the machines index their maps with, tells keys apart.\<close>

locale kad_hex =
  fixes kd :: "('k, 'n) kad_ops"
  assumes hex_inject: "key_hex kd a = key_hex kd b \<Longrightarrow> a = b"
begin

lemma hex_eq_iff [simp]: "key_hex kd a = key_hex kd b \<longleftrightarrow> a = b"
  using hex_inject by blast

end

section \<open>The tiny key and node\<close>

type_synonym tiny_key = "8 word"

record tiny_node =
  tn_key :: tiny_key

record tiny_message =
  tm_content :: string
  tm_target :: tiny_key
  tm_closer :: "tiny_node list"

definition new_node :: "tiny_key \<Rightarrow> tiny_node" where
  "new_node k = \<lparr>tn_key = k\<rparr>"

text \<open>The number of binary digits of a number, and the hexadecimal form of a byte.\<close>

fun bit_digits :: "nat \<Rightarrow> nat" where
  "bit_digits n = (if n = 0 then 0 else Suc (bit_digits (n div 2)))"

declare bit_digits.simps [simp del]

definition hex_digit :: "nat \<Rightarrow> char" where
  "hex_digit d = char_of (if d < 10 then 48 + d else 87 + d)"

definition tiny_hex :: "tiny_key \<Rightarrow> string" where
  "tiny_hex k = [hex_digit (unat k div 16), hex_digit (unat k mod 16)]"

definition tiny_cpl :: "tiny_key \<Rightarrow> tiny_key \<Rightarrow> int" where
  "tiny_cpl a b = 8 - int (bit_digits (unat (a XOR b)))"

definition tiny_compare :: "tiny_key \<Rightarrow> tiny_key \<Rightarrow> int" where
  "tiny_compare a b = (if a < b then -1 else if a = b then 0 else 1)"

definition tiny_kad :: "(tiny_key, tiny_node) kad_ops" where
  "tiny_kad =
     \<lparr>node_key = tn_key, node_str = (\<lambda>n. tiny_hex (tn_key n)), key_bit_len = 8,
      key_bit = (\<lambda>k i. bit k (7 - i)), key_cpl = tiny_cpl, key_xor = (\<lambda>a b. a XOR b),
      key_compare = tiny_compare, key_hex = tiny_hex\<rparr>"

text \<open>\<open>Node.Equal\<close> and \<open>Node.String\<close>.\<close>

definition tiny_node_equal :: "tiny_node \<Rightarrow> tiny_node \<Rightarrow> bool" where
  "tiny_node_equal n other \<longleftrightarrow> key_compare tiny_kad (tn_key n) (tn_key other) = 0"

definition tiny_node_string :: "tiny_node \<Rightarrow> string" where
  "tiny_node_string n = key_hex tiny_kad (tn_key n)"

text \<open>
  \<open>NodeWithCpl\<close>: the mask is the constant 1 shifted as an \<open>int\<close> and converted to a byte, so a
  shift of eight or more (a negative \<open>cpl\<close>) leaves no bit.
\<close>

definition node_with_cpl :: "tiny_key \<Rightarrow> int \<Rightarrow> tiny_node go_result" where
  "node_with_cpl k cpl =
     (if int (key_bit_len tiny_kad) - 1 < cpl then Inl (ErrorText ''cpl too large'')
      else (let mask = push_bit (nat (int (key_bit_len tiny_kad) - cpl - 1)) 1
            in Inr \<lparr>tn_key = key_xor tiny_kad k mask\<rparr>))"

section \<open>The protocol\<close>

record protocol =
  pr_minted :: nat

definition new_protocol :: protocol where
  "new_protocol = \<lparr>pr_minted = 0\<rparr>"

text \<open>\<open>bits.Reverse8\<close>: bit \<open>i\<close> of the result is bit \<open>7 - i\<close> of the argument.\<close>

definition reverse8 :: "8 word \<Rightarrow> 8 word" where
  "reverse8 w = (\<Sum>i \<leftarrow> [0..<8]. if bit w (7 - i) then push_bit i 1 else 0)"

definition new_node_id :: "protocol \<Rightarrow> tiny_node go_result \<times> protocol" where
  "new_node_id p =
     (if 255 < pr_minted p
      then (Inl (ErrorText (''no key left for a '' @ decimal (pr_minted p + 1) @ ''th node'')), p)
      else (Inr (new_node (reverse8 (word_of_nat (pr_minted p)))), p\<lparr>pr_minted := pr_minted p + 1\<rparr>))"

definition find_request :: "protocol \<Rightarrow> tiny_key \<Rightarrow> tiny_message" where
  "find_request p target = \<lparr>tm_content = ''find'', tm_target = target, tm_closer = []\<rparr>"

definition reply :: "protocol \<Rightarrow> tiny_message \<Rightarrow> tiny_node list \<Rightarrow> tiny_message" where
  "reply p req nodes =
     \<lparr>tm_content = tm_content req, tm_target = tm_target req, tm_closer = nodes\<rparr>"

section \<open>Facts about the keys\<close>

lemma bit_digits_mono: "m \<le> n \<Longrightarrow> bit_digits m \<le> bit_digits n"
proof (induction n arbitrary: m rule: bit_digits.induct)
  case (1 n)
  show ?case
  proof (cases "m = 0 \<or> n = 0")
    case True
    with 1 show ?thesis by (subst bit_digits.simps) auto
  next
    case False
    with 1 have "bit_digits (m div 2) \<le> bit_digits (n div 2)" by (simp add: div_le_mono)
    with False show ?thesis by (subst (1 2) bit_digits.simps) simp
  qed
qed

lemma tiny_nearer: "nearer_eq tiny_kad t a b \<longleftrightarrow> t XOR a \<le> t XOR b"
  by (auto simp: nearer_eq_def tiny_kad_def tiny_compare_def)

interpretation tiny: kad_metric tiny_kad
proof
  show "nearer_eq tiny_kad t a b \<or> nearer_eq tiny_kad t b a" for t a b
    by (auto simp: tiny_nearer)
  show "nearer_eq tiny_kad t a b \<Longrightarrow> nearer_eq tiny_kad t b c \<Longrightarrow> nearer_eq tiny_kad t a c" for t a b c
    by (auto simp: tiny_nearer)
  show "key_cpl tiny_kad b t \<le> key_cpl tiny_kad a t" if "nearer_eq tiny_kad t a b" for t a b
    using that [unfolded tiny_nearer word_le_nat_alt, THEN bit_digits_mono]
    by (simp add: tiny_kad_def tiny_cpl_def xor.commute)
qed

lemma of_hex_digit: "d < 16 \<Longrightarrow> (of_char (hex_digit d) :: nat) = (if d < 10 then 48 + d else 87 + d)"
  by (simp only: hex_digit_def of_char_of) (simp split: if_splits)

lemma hex_digit_inject: "d < 16 \<Longrightarrow> e < 16 \<Longrightarrow> hex_digit d = hex_digit e \<Longrightarrow> d = e"
  by (drule arg_cong [of _ _ "of_char :: char \<Rightarrow> nat"]) (simp add: of_hex_digit split: if_splits)

interpretation tiny_hex: kad_hex tiny_kad
proof
  fix a b assume "key_hex tiny_kad a = key_hex tiny_kad b"
  then have eq: "hex_digit (unat a div 16) = hex_digit (unat b div 16)"
    "hex_digit (unat a mod 16) = hex_digit (unat b mod 16)"
    by (simp_all add: tiny_kad_def tiny_hex_def)
  have lt: "unat k div 16 < 16" for k :: tiny_key
    using unsigned_less [of k, where 'a = nat] by simp
  from hex_digit_inject [OF lt lt eq(1)] hex_digit_inject [OF _ _ eq(2)]
  have "unat a = unat b" by (metis div_mult_mod_eq mod_less_divisor zero_less_numeral)
  then show "a = b" by (simp add: word_unat_eq_iff)
qed

lemma bit_digits_power: "bit_digits (2 ^ n) = Suc n"
  by (induction n) (subst bit_digits.simps; simp add: bit_digits.simps [of 1] bit_digits.simps [of 0])+

section \<open>A trie kept as an association list\<close>

fun insert_near :: "('k, 'n) kad_ops \<Rightarrow> 'k \<Rightarrow> 'k \<times> 'v \<Rightarrow> ('k \<times> 'v) list \<Rightarrow> ('k \<times> 'v) list" where
  "insert_near kd t e [] = [e]"
| "insert_near kd t e (f # fs) =
     (if nearer_eq kd t (fst e) (fst f) then e # f # fs else f # insert_near kd t e fs)"

definition sort_near :: "('k, 'n) kad_ops \<Rightarrow> 'k \<Rightarrow> ('k \<times> 'v) list \<Rightarrow> ('k \<times> 'v) list" where
  "sort_near kd t es = foldr (insert_near kd t) es []"

definition list_trie :: "('k, 'n) kad_ops \<Rightarrow> ('k, 'v, ('k \<times> 'v) list) trie_ops" where
  "list_trie kd =
     \<lparr>trie_new = [],
      trie_add = (\<lambda>k v t. if map_of t k = None then t @ [(k, v)] else t),
      trie_find = map_of, trie_size = length,
      trie_closest = (\<lambda>t k n. take n (sort_near kd k t))\<rparr>"

definition list_trie_ok :: "('k \<times> 'v) list \<Rightarrow> bool" where
  "list_trie_ok t \<longleftrightarrow> distinct (map fst t)"

lemma mset_insert_near [simp]: "mset (insert_near kd t e fs) = add_mset e (mset fs)"
  by (induction kd t e fs rule: insert_near.induct) auto

lemma mset_sort_near [simp]: "mset (sort_near kd t es) = mset es"
  unfolding sort_near_def by (induction es) auto

lemma sort_near_perm [simp]:
  "set (sort_near kd t es) = set es" "length (sort_near kd t es) = length es"
  using mset_sort_near [of kd t es] by (metis set_mset_mset) (metis mset_sort_near size_mset)

context kad_metric
begin

lemma sorted_insert_near:
  "sorted_wrt (\<lambda>a b. nearer_eq kd t (fst a) (fst b)) fs \<Longrightarrow>
     sorted_wrt (\<lambda>a b. nearer_eq kd t (fst a) (fst b)) (insert_near kd t e fs)"
proof (induction fs)
  case (Cons f fs)
  have "set (insert_near kd t e fs) = insert e (set fs)"
    by (metis mset_insert_near set_mset_add_mset_insert set_mset_mset)
  with Cons nearer_total [of t "fst e" "fst f"] show ?case by (auto intro: nearer_trans)
qed simp

lemma sorted_sort_near: "sorted_wrt (\<lambda>a b. nearer_eq kd t (fst a) (fst b)) (sort_near kd t es)"
  unfolding sort_near_def by (induction es) (auto intro: sorted_insert_near)


lemma list_trie_spec: "kad_trie kd (list_trie kd) (list_trie_ok :: ('k \<times> 'v) list \<Rightarrow> bool)"
proof
  fix t :: "('k \<times> 'v) list" and k k' v u
  show "list_trie_ok (trie_new (list_trie kd) :: ('k \<times> 'v) list)"
    by (simp add: list_trie_ok_def list_trie_def)
  show "trie_find (list_trie kd) (trie_new (list_trie kd) :: ('k \<times> 'v) list) k = None"
    by (simp add: list_trie_def)
  show "trie_find (list_trie kd) t k = Some u \<Longrightarrow> trie_add (list_trie kd) k v t = t"
    by (simp add: list_trie_def)
  show "trie_find (list_trie kd) t k = None \<Longrightarrow>
      trie_find (list_trie kd) (trie_add (list_trie kd) k v t) = (trie_find (list_trie kd) t)(k \<mapsto> v)"
    by (auto simp: list_trie_def map_add_def fun_eq_iff split: option.splits)
  show "sorted_wrt (\<lambda>a b. nearer_eq kd k (fst a) (fst b))
      (trie_closest (list_trie kd) t k (trie_size (list_trie kd) t))"
    using sorted_sort_near by (simp add: list_trie_def)
  assume ok: "list_trie_ok t"
  show "list_trie_ok (trie_add (list_trie kd) k v t)"
    using ok by (auto simp: list_trie_ok_def list_trie_def map_of_eq_None_iff)
  show "(k', v) \<in> set (trie_closest (list_trie kd) t k (trie_size (list_trie kd) t)) \<longleftrightarrow>
      trie_find (list_trie kd) t k' = Some v"
    using ok by (simp add: list_trie_def list_trie_ok_def)
  show "distinct (map fst (trie_closest (list_trie kd) t k (trie_size (list_trie kd) t)))"
    using ok by (simp add: list_trie_def list_trie_ok_def)
      (metis mset_eq_imp_distinct_iff mset_map mset_sort_near)
qed

end

sublocale kad_metric \<subseteq> list_trie: kad_node_trie kd "list_trie kd" list_trie_ok
  unfolding kad_node_trie_def by (rule list_trie_spec)

end
