(* ===== verification/QueryTheorems.thy ===== *)
theory QueryTheorems
  imports QueryProgress Tiny
begin

text \<open>
  The properties of one query over the closest-nodes iterator, for every network whose trie
  meets the contract \<open>kad_node_trie\<close>, and their instances on a tiny network.
\<close>

section \<open>Queries as the library starts them\<close>

text \<open>A query over a fresh closest-nodes iterator, from any of the three constructors.\<close>

inductive started_query ::
  "('k, 'n) kad_ops \<Rightarrow> ('k, 'n node_status, 'tr) trie_ops \<Rightarrow>
     ('k, 'n, 'm, ('k, 'tr) closest_nodes_iter) query \<Rightarrow> bool"
  for kd T where
  plain: "new_query kd (closest_iter kd T) self qid target msg (new_closest_nodes_iter T target) known cfg
            = Inr q \<Longrightarrow> started_query kd T q"
| find_closer: "new_find_closer_query kd (closest_iter kd T) self qid target
            (new_closest_nodes_iter T target) known cfg = Inr q \<Longrightarrow> started_query kd T q"
| coverage: "new_coverage_query kd (closest_iter kd T) self qid target prefix_len
            (new_closest_nodes_iter T target) known cfg = Inr q \<Longrightarrow> started_query kd T q"

text \<open>What a started query has whatever its constructor.\<close>

definition valid_limits :: "query_config \<Rightarrow> bool" where
  "valid_limits cfg \<longleftrightarrow> 1 \<le> qc_concurrency cfg \<and> 1 \<le> qc_num_results cfg \<and>
     1 \<le> qc_request_timeout cfg \<and> 1 \<le> qc_timeout cfg"

lemma validate_limits: "query_config_validate cfg = None \<Longrightarrow> valid_limits cfg"
  by (simp add: query_config_validate_def valid_limits_def split: if_splits)

lemma default_limits: "valid_limits default_query_config"
  by (simp add: default_query_config_def valid_limits_def duration_defs)

lemma new_query_limits:
  "new_query kd io self qid target msg it known cfg = Inr q \<Longrightarrow> valid_limits (q_cfg q)"
  by (auto simp: new_query_def default_limits validate_limits split: option.splits prod.splits)

lemma waiting_count_flags [simp]:
  "waiting_count io (q\<lparr>q_find_closer := b\<rparr>) = waiting_count io q"
  "waiting_count io (q\<lparr>q_coverage := c, q_prefix_len := n\<rparr>) = waiting_count io q"
  by (simp_all add: waiting_count_def)

definition fresh_query :: "('k, 'n) kad_ops \<Rightarrow> ('k, 'n, 'it) iter_ops \<Rightarrow> ('it \<Rightarrow> bool) \<Rightarrow>
    ('k, 'n, 'm, 'it) query \<Rightarrow> bool" where
  "fresh_query kd io valid q \<longleftrightarrow>
     query_wf kd io valid q \<and> valid_limits (q_cfg q) \<and> waiting_count io q = 0 \<and> \<not> q_finished q"

lemma fresh_query_flags [simp]:
  "fresh_query kd io valid (q\<lparr>q_find_closer := b\<rparr>) = fresh_query kd io valid q"
  "fresh_query kd io valid (q\<lparr>q_coverage := c, q_prefix_len := n\<rparr>) = fresh_query kd io valid q"
  by (simp_all add: fresh_query_def query_wf_def)

context kad_node_trie
begin

lemma new_query_fresh:
  assumes "new_query kd (closest_iter kd T) self qid target msg (new_closest_nodes_iter T target) known cfg = Inr q"
  shows "fresh_query kd (closest_iter kd T) (closest_valid kd T ok) q"
proof -
  have it: "it_list (closest_iter kd T) (new_closest_nodes_iter T target) = []"
    using new_closest_entries by (simp add: closest_iter_def)
  have wf: "query_wf kd (closest_iter kd T) (closest_valid kd T ok) q"
    using closest.new_query_wf [OF new_closest_valid it assms] by blast
  moreover have "q_in_flight q = 0" "\<not> q_finished q"
    using assms by (auto simp: new_query_def split: option.splits prod.splits)
  ultimately show ?thesis
    using new_query_limits [OF assms] by (simp add: fresh_query_def query_wf_def)
qed

lemma started_fresh:
  assumes "started_query kd T q"
  shows "fresh_query kd (closest_iter kd T) (closest_valid kd T ok) q"
  using assms
proof cases
  case plain
  then show ?thesis by (rule new_query_fresh)
next
  case find_closer
  then show ?thesis
    using new_query_fresh by (auto simp: new_find_closer_query_def split: sum.splits)
next
  case coverage
  then show ?thesis
    using new_query_fresh
    by (auto simp: new_coverage_query_def new_find_closer_query_def split: sum.splits if_splits)
qed

end

context node_iter_spec
begin

lemma run_wf:
  assumes "query_wf kd io valid q" "1 \<le> qc_num_results (q_cfg q)" "query_run kd io evs q = (sts, q')"
  shows "query_wf kd io valid q' \<and> same_identity q q'"
  using assms
proof (induction evs arbitrary: q sts)
  case (Cons e evs)
  obtain now ev st q1 where e: "e = (now, ev)" "query_advance kd io now ev q = (st, q1)"
    by (metis surj_pair)
  with advance_wf [OF Cons.prems(1,2), of now ev]
  have q1: "query_wf kd io valid q1" "same_identity q q1" by simp_all
  with Cons.prems(2) have "1 \<le> qc_num_results (q_cfg q1)" by (simp add: same_identity_def)
  from Cons.IH [OF q1(1) this] Cons.prems(3) e q1(2) show ?case
    by (auto simp: same_identity_def split: prod.splits)
qed simp

lemma waiting_deadlines_stats [simp]:
  "waiting_deadlines io (q\<lparr>q_in_flight := i, q_stats := s\<rparr>) = waiting_deadlines io q"
  by (simp add: waiting_deadlines_def)

text \<open>Deadlines are set to a time after the one they are set at.\<close>

lemma run_walk_deadlines:
  assumes cells: "query_cells kd io valid (q_self q) (q_iter q) (q_states q)"
    and limit: "1 \<le> qc_num_results (q_cfg q)" and rt: "1 \<le> qc_request_timeout (q_cfg q)"
    and now: "0 < now" and dl: "\<forall>d \<in> set (waiting_deadlines io q). 0 < d"
  shows "\<forall>d \<in> set (waiting_deadlines io (snd (run_walk kd io now q))). 0 < d"
proof
  fix d assume d: "d \<in> set (waiting_deadlines io (snd (run_walk kd io now q)))"
  obtain st q' where run: "run_walk kd io now q = (st, q')" by fastforce
  from d run run_walk_iter [OF cells limit, of now] obtain r where
    r: "r \<in> set (entries_of io q)" "state_of q' r = StateNodeWaiting d"
    by (auto simp: waiting_deadlines_set)
  have "expire now s = StateNodeWaiting d \<Longrightarrow> s = StateNodeWaiting d" for s
    by (cases s) (auto split: if_splits)
  with run_walk_state [OF cells limit r(1) run] r(2) have
    "state_of q r = StateNodeWaiting d \<or> d = time_add now (qc_request_timeout (q_cfg q))" by auto
  with dl r(1) rt now show "0 < d" by (auto simp: waiting_deadlines_set time_defs)
qed

lemma accept_closer_deadlines:
  assumes cells: "query_cells kd io valid (q_self q) (q_iter q) (q_states q)"
    and d: "d \<in> set (waiting_deadlines io (accept_closer kd io ni closer q))"
  shows "d \<in> set (waiting_deadlines io q)"
proof -
  let ?q = "accept_closer kd io ni closer q"
  obtain it st where add: "add_nodes kd io (q_self q) closer (q_iter q, q_states q) = (it, st)"
    by fastforce
  from d obtain r where r: "r \<in> set (entries_of io ?q)" "state_of ?q r = StateNodeWaiting d"
    by (auto simp: waiting_deadlines_set)
  from add_nodes_cells [OF cells add] obtain n where
    cells': "query_cells kd io valid (q_self q) it st"
    and st: "st = q_states q @ replicate n StateNodeNotContacted" by blast
  from r(1) add have it: "r \<in> set (it_list io it)" by (simp add: accept_closer_def)
  with cells' have len: "ns_addr r < length st" by (simp add: query_cells_def)
  have "\<not> length (q_states q) \<le> ns_addr r"
  proof
    assume "length (q_states q) \<le> ns_addr r"
    with st len have "st ! ns_addr r = StateNodeNotContacted" by (simp add: nth_append)
    with r(2) add len show False
      by (cases "ns_addr ni = ns_addr r") (auto simp: accept_closer_def)
  qed
  with add_nodes_entries [OF cells add it] have "r \<in> set (entries_of io q)" by blast
  with accept_closer_states [OF cells this, of ni closer] r(2) show ?thesis
    by (auto simp: waiting_deadlines_set)
qed

lemma on_node_failure_deadlines:
  assumes cells: "query_cells kd io valid (q_self q) (q_iter q) (q_states q)"
    and d: "d \<in> set (waiting_deadlines io (on_node_failure kd io node q))"
  shows "d \<in> set (waiting_deadlines io q)"
proof -
  have "d \<in> set (waiting_deadlines io q)"
    if "d \<in> set (waiting_deadlines io (set_state ni StateNodeFailed q))" for ni
  proof -
    from that obtain r where "r \<in> set (entries_of io q)"
      "(q_states q)[ns_addr ni := StateNodeFailed] ! ns_addr r = StateNodeWaiting d"
      by (auto simp: waiting_deadlines_set)
    moreover have "ns_addr r < length (q_states q)" using calculation(1) cells by (simp add: query_cells_def)
    ultimately show ?thesis
      by (cases "ns_addr ni = ns_addr r") (auto simp: waiting_deadlines_set)
  qed
  with d show ?thesis
    by (auto simp: on_node_failure_def waiting_deadlines_def split: option.splits node_state.splits)
qed

lemma on_node_response_deadlines:
  assumes cells: "query_cells kd io valid (q_self q) (q_iter q) (q_states q)"
    and d: "d \<in> set (waiting_deadlines io (on_node_response kd io node closer q))"
  shows "d \<in> set (waiting_deadlines io q)"
proof -
  from d show ?thesis
    using accept_closer_deadlines [OF cells]
    by (auto simp: on_node_response_def split: option.splits node_state.splits)
qed

lemma advance_deadlines:
  assumes wf: "query_wf kd io valid q" and limits: "valid_limits (q_cfg q)"
    and now: "0 < now" and dl: "\<forall>d \<in> set (waiting_deadlines io q). 0 < d"
  shows "\<forall>d \<in> set (waiting_deadlines io (snd (query_advance kd io now ev q))). 0 < d"
proof -
  have cells: "query_cells kd io valid (q_self p) (q_iter p) (q_states p)" if "query_wf kd io valid p"
    for p :: "('k, 'n, 'm, 'it) query" using that by (simp add: query_wf_def)
  have mark: "waiting_deadlines io (mark_finished kd io now q) = waiting_deadlines io q"
    by (simp add: waiting_deadlines_def)
  have walk: "\<forall>d \<in> set (waiting_deadlines io (snd (run_walk kd io now p))). 0 < d"
    if "query_wf kd io valid p" "q_cfg p = q_cfg q"
      "\<forall>d \<in> set (waiting_deadlines io p). d \<in> set (waiting_deadlines io q)" for p
    using run_walk_deadlines [OF cells [OF that(1)] _ _ now] that limits dl
    by (simp add: valid_limits_def)
  have response: "\<forall>d \<in> set (waiting_deadlines io (snd (run_walk kd io now (on_node_response kd io n ns q)))). 0 < d"
    for n ns
    using walk [OF on_node_response_wf [OF wf]] on_node_response_deadlines [OF cells [OF wf]] by simp
  have failure: "\<forall>d \<in> set (waiting_deadlines io (snd (run_walk kd io now (on_node_failure kd io n q)))). 0 < d"
    for n
    using walk [OF on_node_failure_wf [OF wf]] on_node_failure_deadlines [OF cells [OF wf]] by simp
  show ?thesis
    using walk [OF wf] response failure mark dl
    by (cases ev) (simp_all add: query_advance_def Let_def)
qed

lemma run_deadlines:
  assumes "query_wf kd io valid q" "valid_limits (q_cfg q)" "\<forall>d \<in> set (waiting_deadlines io q). 0 < d"
    "\<forall>e \<in> set evs. 0 < fst e" "query_run kd io evs q = (sts, q')"
  shows "\<forall>d \<in> set (waiting_deadlines io q'). 0 < d"
  using assms
proof (induction evs arbitrary: q sts)
  case (Cons e evs)
  obtain now ev st q1 where e: "e = (now, ev)" "query_advance kd io now ev q = (st, q1)"
    by (metis surj_pair)
  have "1 \<le> qc_num_results (q_cfg q)" using Cons.prems(2) by (simp add: valid_limits_def)
  with advance_wf [OF Cons.prems(1), of now ev] e
  have q1: "query_wf kd io valid q1" "same_identity q q1" by simp_all
  with Cons.prems(2) have "valid_limits (q_cfg q1)" by (simp add: same_identity_def)
  moreover have "\<forall>d \<in> set (waiting_deadlines io q1). 0 < d"
    using advance_deadlines [OF Cons.prems(1-2) _ Cons.prems(3), of now ev] Cons.prems(4) e by simp
  ultimately show ?case
    using Cons.IH [OF q1(1)] Cons.prems(4,5) e by (auto split: prod.splits)
qed simp

lemma run_walk_due:
  fixes q :: "('k, 'n, 'm, 'it) query"
  assumes wf: "query_wf kd io valid q" and limits: "valid_limits (q_cfg q)"
    and run: "run_walk kd io now q = (st, q')"
    and st: "st = StateQueryWaitingAtCapacity i s dl due \<or> st = StateQueryWaitingWithCapacity i s dl due"
  shows "0 < q_in_flight q' \<and> due = earliest_node_deadline io q' \<and> q_next_due q' = due \<and> dl = q_deadline q' \<and>
     (st = StateQueryWaitingAtCapacity i s dl due \<longleftrightarrow> at_capacity q')"
proof -
  have same: "earliest_node_deadline io (p\<lparr>q_next_due := t\<rparr>) = earliest_node_deadline io p"
    "at_capacity (p\<lparr>q_next_due := t\<rparr>) = at_capacity p"
    for p :: "('k, 'n, 'm, 'it) query" and t
    by (simp_all add: earliest_node_deadline_def earliest_each at_capacity_def)
  have limit: "1 \<le> qc_num_results (q_cfg q)" using limits by (simp add: valid_limits_def)
  from wf have cells: "query_cells kd io valid (q_self q) (q_iter q) (q_states q)"
    by (simp add: query_wf_def)
  from cells limit show ?thesis
  proof (cases rule: run_walk_cases [where now = now])
    case (capacity xs e ys st0 p)
    have "0 < q_in_flight p"
      using capacity(3,5) limits by (simp add: at_capacity_def valid_limits_def)
    with capacity run st same show ?thesis by auto
  next
    case (waiting st0 p)
    from passed_query_wf [OF wf _ waiting(1), of "[]"] waiting(2)
    have "query_wf kd io valid p" by simp
    with waiting(2,4) have "0 < count_of (\<lambda>r. is_waiting (state_of p r)) (entries_of io q)"
      by (simp add: query_wf_def waiting_count_def)
    then have "\<exists>r \<in> set (entries_of io q). is_waiting (expire now (state_of q r))"
      using waiting(1,2) by (auto simp: count_of_pos_iff passed_states_def)
    with waiting run st same show ?thesis by auto
  qed (use run st in \<open>auto simp: finished_state_def request_state_def split: if_splits\<close>)
qed

lemma reaches_walk:
  assumes wf: "query_wf kd io valid q" and limit: "1 \<le> qc_num_results (q_cfg q)"
    and adv: "query_advance kd io now ev q = (st, q')"
    and nf: "\<not> q_finished q" and nc: "ev \<noteq> EventQueryCancel"
  obtains q1 where "run_walk kd io now q1 = (st, q')" "query_wf kd io valid q1" "q_cfg q1 = q_cfg q"
  using adv nf nc wf on_node_response_wf [OF wf] on_node_failure_wf [OF wf]
  by (cases ev) (auto simp: query_advance_def)

lemma not_finished_output: "\<not> is_finished_state st \<Longrightarrow> query_advance kd io now ev q = (st, q') \<Longrightarrow>
    \<not> q_finished q \<and> ev \<noteq> EventQueryCancel"
  by (auto simp: query_advance_def Let_def split: if_splits)

end

text \<open>What holds of an iterator and is kept by \<open>Add\<close> holds of a query's iterator for ever.\<close>

lemma add_nodes_iter:
  assumes "\<And>r it. P it \<Longrightarrow> P (it_add io r it)" "P it"
  shows "P (fst (add_nodes kd io self ns (it, st)))"
  using assms(2) by (induction ns arbitrary: it st) (auto intro: assms(1))

lemma handlers_iter:
  assumes "\<And>r it. P it \<Longrightarrow> P (it_add io r it)" "P (q_iter q)"
  shows "P (q_iter (on_node_response kd io n ns q))" "P (q_iter (on_node_failure kd io n q))"
proof -
  have "P (q_iter (accept_closer kd io ni ns q))" for ni
    using add_nodes_iter [of P io "q_iter q" kd "q_self q" ns "q_states q"] assms
    by (simp add: accept_closer_def case_prod_beta)
  then show "P (q_iter (on_node_response kd io n ns q))"
    using assms(2)
    by (auto simp: on_node_response_def accept_closer_def case_prod_beta split: option.split node_state.split)
  show "P (q_iter (on_node_failure kd io n q))"
    using assms(2) by (auto simp: on_node_failure_def split: option.split node_state.split)
qed

section \<open>The properties\<close>

text \<open>A started query after a run of events.\<close>

definition query_reached ::
  "('k, 'n) kad_ops \<Rightarrow> ('k, 'n node_status, 'tr) trie_ops \<Rightarrow> (time \<times> 'n query_event) list \<Rightarrow>
     ('k, 'n, 'm) query_state list \<Rightarrow> ('k, 'n, 'm, ('k, 'tr) closest_nodes_iter) query \<Rightarrow> bool" where
  "query_reached kd T evs sts q \<longleftrightarrow>
     (\<exists>q0. started_query kd T q0 \<and> query_run kd (closest_iter kd T) evs q0 = (sts, q))"

context kad_node_trie
begin

lemma reached_wf:
  assumes "query_reached kd T evs sts q"
  shows "query_wf kd (closest_iter kd T) (closest_valid kd T ok) q" "valid_limits (q_cfg q)"
proof -
  from assms obtain q0 where q0: "fresh_query kd (closest_iter kd T) (closest_valid kd T ok) q0"
    "query_run kd (closest_iter kd T) evs q0 = (sts, q)"
    using started_fresh by (auto simp: query_reached_def)
  then have "query_wf kd (closest_iter kd T) (closest_valid kd T ok) q0" "1 \<le> qc_num_results (q_cfg q0)"
    "valid_limits (q_cfg q0)"
    by (simp_all add: fresh_query_def valid_limits_def)
  with closest.run_wf [OF this(1,2) q0(2)]
  show "query_wf kd (closest_iter kd T) (closest_valid kd T ok) q" "valid_limits (q_cfg q)"
    by (simp_all add: same_identity_def)
qed

lemma reached_limit: "query_reached kd T evs sts q \<Longrightarrow> 1 \<le> qc_num_results (q_cfg q)"
  by (auto simp: valid_limits_def dest: reached_wf(2))

lemma advance_target:
  assumes wf: "query_wf kd (closest_iter kd T) (closest_valid kd T ok) q"
    and limit: "1 \<le> qc_num_results (q_cfg q)" and t: "ci_target (q_iter q) = q_target q"
  shows "ci_target (q_iter (snd (query_advance kd (closest_iter kd T) now ev q))) =
    q_target (snd (query_advance kd (closest_iter kd T) now ev q))"
proof -
  let ?io = "closest_iter kd T"
  have add: "ci_target it = q_target q \<Longrightarrow> ci_target (it_add ?io r it) = q_target q" for r it
    by (simp add: closest_iter_def closest_add_def)
  note iters = handlers_iter [where P = "\<lambda>it. ci_target it = q_target q", OF add t]
  have walk: "q_iter (snd (run_walk kd ?io now p)) = q_iter p"
    if "query_wf kd ?io (closest_valid kd T ok) p" "q_cfg p = q_cfg q" for p
    using closest.run_walk_iter [of p now] that limit by (simp add: query_wf_def)
  have "ci_target (q_iter (snd (query_advance kd ?io now ev q))) = q_target q"
    using walk [OF wf] walk [OF closest.on_node_response_wf [OF wf]]
      walk [OF closest.on_node_failure_wf [OF wf]] iters t
    by (cases ev) (simp_all add: query_advance_def Let_def)
  moreover have "q_target (snd (query_advance kd ?io now ev q)) = q_target q"
    using closest.advance_wf(2) [OF wf limit, of now ev] by (simp add: same_identity_def)
  ultimately show ?thesis by simp
qed

lemma run_target:
  assumes "query_wf kd (closest_iter kd T) (closest_valid kd T ok) q" "1 \<le> qc_num_results (q_cfg q)"
    "ci_target (q_iter q) = q_target q" "query_run kd (closest_iter kd T) evs q = (sts, q')"
  shows "ci_target (q_iter q') = q_target q'"
  using assms
proof (induction evs arbitrary: q sts)
  case (Cons e evs)
  obtain now ev st q1 where e: "e = (now, ev)" "query_advance kd (closest_iter kd T) now ev q = (st, q1)"
    by (metis surj_pair)
  with closest.advance_wf [OF Cons.prems(1,2), of now ev] advance_target [OF Cons.prems(1-3), of now ev]
  have q1: "query_wf kd (closest_iter kd T) (closest_valid kd T ok) q1" "q_cfg q1 = q_cfg q"
    "ci_target (q_iter q1) = q_target q1" by (simp_all add: same_identity_def)
  then show ?case using Cons.IH [OF q1(1) _ q1(3)] Cons.prems(2,4) e by (auto split: prod.splits)
qed simp

lemma started_target:
  assumes "started_query kd T q"
  shows "ci_target (q_iter q) = q_target q"
proof -
  have new: "ci_target (q_iter p) = q_target p"
    if "new_query kd (closest_iter kd T) self qid target msg (new_closest_nodes_iter T target) known cfg = Inr p"
    for p :: "('k, 'n, 'm, ('k, 'tr) closest_nodes_iter) query" and self qid target msg known cfg
  proof -
    have "ci_target it = target \<Longrightarrow> ci_target (it_add (closest_iter kd T) r it) = target" for r it
      by (simp add: closest_iter_def closest_add_def)
    from add_nodes_iter [where P = "\<lambda>it. ci_target it = target", OF this, of "new_closest_nodes_iter T target" kd self known "[]"]
    show ?thesis
      using that by (auto simp: new_query_def new_closest_nodes_iter_def split: option.splits prod.splits)
  qed
  from assms show ?thesis
    by cases (auto simp: new_coverage_query_def new_find_closer_query_def split: sum.splits if_splits
        dest: new)
qed

lemma reached_entries:
  assumes "query_reached kd T evs sts q"
  shows "sorted_wrt (\<lambda>r s. nearer_eq kd (q_target q) (node_key kd (ns_node r))
           (node_key kd (ns_node s))) (entries_of (closest_iter kd T) q)"
proof -
  from assms obtain q0 where "fresh_query kd (closest_iter kd T) (closest_valid kd T ok) q0"
    "ci_target (q_iter q0) = q_target q0" "query_run kd (closest_iter kd T) evs q0 = (sts, q)"
    using started_fresh started_target by (auto simp: query_reached_def)
  then have "ci_target (q_iter q) = q_target q"
    using run_target by (auto simp: fresh_query_def valid_limits_def)
  moreover from reached_wf(1) [OF assms] have "closest_valid kd T ok (q_iter q)"
    by (simp add: query_wf_def query_cells_def)
  ultimately show ?thesis using closest_entries_sorted [of "q_iter q"] by (simp add: closest_iter_def)
qed

lemma reached_step:
  assumes "query_reached kd T evs sts q" "query_advance kd (closest_iter kd T) now ev q = (st, q')"
  shows "query_reached kd T (evs @ [(now, ev)]) (sts @ [st]) q'"
proof -
  have "query_run kd (closest_iter kd T) (evs @ [(now, ev)]) p = (sts @ [st], q')"
    if "query_run kd (closest_iter kd T) evs p = (sts, q)" for p
    using that assms(2) by (induction evs arbitrary: p sts) (auto simp: Let_def split: prod.splits)
  with assms show ?thesis by (auto simp: query_reached_def)
qed

text \<open>An advance that reports the end of the query, for another reason than being stopped.\<close>

lemma reached_finishes:
  assumes reached: "query_reached kd T evs sts q" and nf: "\<not> q_finished q" and nc: "ev \<noteq> EventQueryCancel"
    and adv: "query_advance kd (closest_iter kd T) now ev q = (StateQueryFinished i s t ns, q')"
  shows "query_settled kd (closest_iter kd T) q' \<and> q_finished q' \<and>
    StateQueryFinished i s t ns = finished_state q' \<and> ns = query_result kd (closest_iter kd T) q'"
proof -
  note wf = reached_wf(1) [OF reached] and limit = reached_limit [OF reached]
  obtain q1 where "run_walk kd (closest_iter kd T) now q1 = (StateQueryFinished i s t ns, q')"
    "query_wf kd (closest_iter kd T) (closest_valid kd T ok) q1" "q_cfg q1 = q_cfg q"
    by (rule closest.reaches_walk [OF wf limit adv nf nc])
  with closest.run_walk_finished [OF this(2) _ this(1)] limit show ?thesis
    by (simp add: finished_state_def)
qed

lemma closest_result:
  assumes reached: "query_reached kd T evs sts q" and nf: "\<not> q_finished q" and nc: "ev \<noteq> EventQueryCancel"
    and adv: "query_advance kd (closest_iter kd T) now ev q = (StateQueryFinished i s t ns, q')"
    and kind: "\<not> q_coverage q'"
  shows "ns = take (nat (qc_num_results (q_cfg q'))) (succeeded_nodes (closest_iter kd T) q') \<and>
    (\<forall>n \<in> set ns. \<forall>r \<in> set (entries_of (closest_iter kd T) q').
       \<not> resolved (state_of q' r) \<longrightarrow> nearer_eq kd t (node_key kd n) (node_key kd (ns_node r)))"
proof -
  let ?S = "\<lambda>r. state_of q' r = StateNodeSucceeded"
  note fin = reached_finishes [OF reached nf nc adv]
  note sorted = reached_entries [OF reached_step [OF reached adv]]
  from fin kind have ns: "ns = take (nat (qc_num_results (q_cfg q'))) (succeeded_nodes (closest_iter kd T) q')"
    and t: "t = q_target q'"
    by (auto simp: query_result_def finished_state_def)
  from fin obtain xs ys where es: "entries_of (closest_iter kd T) q' = xs @ ys"
    and front: "settled_front kd q' xs ys" by (auto simp: query_settled_def)
  have "nearer_eq kd t (node_key kd n) (node_key kd (ns_node r))"
    if n: "n \<in> set ns" and r: "r \<in> set (xs @ ys)" "\<not> resolved (state_of q' r)" for n r
  proof -
    from front r have "r \<in> set ys" by (auto simp: settled_front_def)
    with front kind have "qc_num_results (q_cfg q') \<le> count_of ?S xs" by (auto simp: settled_front_def)
    with ns es have "ns = take (nat (qc_num_results (q_cfg q'))) (map ns_node (filter ?S xs))"
      by (simp add: succeeded_nodes_def count_of_def)
    with n have "n \<in> ns_node ` set xs" by (auto dest!: in_set_takeD)
    with \<open>r \<in> set ys\<close> sorted es t show ?thesis by (auto simp: sorted_wrt_append)
  qed
  with ns es show ?thesis by simp
qed

lemma coverage_result:
  assumes metric: "\<And>t a b. nearer_eq kd t a b \<Longrightarrow> key_cpl kd b t \<le> key_cpl kd a t"
    and reached: "query_reached kd T evs sts q" and nf: "\<not> q_finished q" and nc: "ev \<noteq> EventQueryCancel"
    and adv: "query_advance kd (closest_iter kd T) now ev q = (StateQueryFinished i s t ns, q')"
    and kind: "q_coverage q'"
  shows "ns = filter (\<lambda>n. in_prefix kd q' (node_key kd n)) (succeeded_nodes (closest_iter kd T) q') \<and>
    (\<forall>r \<in> set (entries_of (closest_iter kd T) q').
       in_prefix kd q' (node_key kd (ns_node r)) \<longrightarrow> resolved (state_of q' r))"
proof -
  note fin = reached_finishes [OF reached nf nc adv]
  note sorted = reached_entries [OF reached_step [OF reached adv]]
  from fin kind have ns: "ns = filter (\<lambda>n. in_prefix kd q' (node_key kd n)) (succeeded_nodes (closest_iter kd T) q')"
    by (simp add: query_result_def)
  from fin obtain xs ys where es: "entries_of (closest_iter kd T) q' = xs @ ys"
    and front: "settled_front kd q' xs ys" by (auto simp: query_settled_def)
  have "resolved (state_of q' r)"
    if r: "r \<in> set (xs @ ys)" "in_prefix kd q' (node_key kd (ns_node r))" for r
  proof (rule ccontr)
    assume "\<not> resolved (state_of q' r)"
    with front r have "r \<in> set ys" by (auto simp: settled_front_def)
    then obtain e zs where ys: "ys = e # zs" by (cases ys) auto
    with front kind have "\<not> in_prefix kd q' (node_key kd (ns_node e))" by (auto simp: settled_front_def)
    moreover have "nearer_eq kd (q_target q') (node_key kd (ns_node e)) (node_key kd (ns_node r)) \<or> r = e"
      using \<open>r \<in> set ys\<close> sorted es ys by (auto simp: sorted_wrt_append)
    ultimately show False using metric r(2) by (force simp: in_prefix_def)
  qed
  with ns es show ?thesis by simp
qed

lemma finished_output:
  assumes reached: "query_reached kd T evs sts q"
    and adv: "query_advance kd (closest_iter kd T) now ev q = (StateQueryFinished i s t ns, q')"
  shows "q_finished q' \<and> StateQueryFinished i s t ns = finished_state q'"
proof (cases "q_finished q \<or> ev = EventQueryCancel")
  case True
  with adv show ?thesis by (auto simp: query_advance_def Let_def finished_state_def split: if_splits)
next
  case False
  with reached_finishes [OF reached _ _ adv] show ?thesis by blast
qed

lemma requests_fresh:
  assumes "query_reached kd T evs sts q"
  shows "distinct (map (node_key kd) (requests_of sts))"
proof -
  from assms obtain q0 where q0: "fresh_query kd (closest_iter kd T) (closest_valid kd T ok) q0"
    "query_run kd (closest_iter kd T) evs q0 = (sts, q)"
    using started_fresh by (auto simp: query_reached_def)
  then show ?thesis
    using closest.run_fresh [OF _ _ q0(2)] by (simp add: fresh_query_def valid_limits_def)
qed

lemma reached_due:
  assumes reached: "query_reached kd T evs sts q" and times: "0 < now" "\<forall>e \<in> set evs. 0 < fst e"
    and adv: "query_advance kd (closest_iter kd T) now ev q = (st, q')"
    and st: "st = StateQueryWaitingAtCapacity i s dl due \<or> st = StateQueryWaitingWithCapacity i s dl due"
  shows "due = Min (set (waiting_deadlines (closest_iter kd T) q')) \<and> 0 < due \<and> q_next_due q' = due \<and>
    (st = StateQueryWaitingAtCapacity i s dl due \<longleftrightarrow> q_in_flight q' = qc_concurrency (q_cfg q'))"
proof -
  let ?io = "closest_iter kd T" and ?valid = "closest_valid kd T ok"
  note wf = reached_wf [OF reached] and limit = reached_limit [OF reached]
  note wf' = reached_wf(1) [OF reached_step [OF reached adv]]
  from st have "\<not> is_finished_state st" by auto
  with closest.not_finished_output [OF this adv] obtain q1 where q1:
    "run_walk kd ?io now q1 = (st, q')" "query_wf kd ?io ?valid q1" "q_cfg q1 = q_cfg q"
    using closest.reaches_walk [OF wf(1) limit adv] by blast
  from wf(2) q1(3) have "valid_limits (q_cfg q1)" by simp
  from closest.run_walk_due [OF q1(2) this q1(1) st]
  have due: "0 < q_in_flight q'" "due = earliest_node_deadline ?io q'" "q_next_due q' = due"
    "st = StateQueryWaitingAtCapacity i s dl due \<longleftrightarrow> at_capacity q'" by blast+
  from reached obtain q0 where q0: "fresh_query kd ?io ?valid q0" "query_run kd ?io evs q0 = (sts, q)"
    using started_fresh by (auto simp: query_reached_def)
  have "waiting_deadlines ?io q0 = []"
    using q0(1) by (fastforce simp: fresh_query_def waiting_count_def count_of_zero_iff
        waiting_deadlines_def is_waiting_iff split: node_state.splits)
  with closest.run_deadlines [OF _ _ _ times(2) q0(2)] q0(1)
  have "\<forall>d \<in> set (waiting_deadlines ?io q). 0 < d" by (simp add: fresh_query_def)
  with closest.advance_deadlines [OF wf times(1), of ev] adv
  have pos: "\<forall>d \<in> set (waiting_deadlines ?io q'). 0 < d" by simp
  from due(1) wf' have "\<exists>r \<in> set (entries_of ?io q'). is_waiting (state_of q' r)"
    by (simp add: query_wf_def waiting_count_def flip: count_of_pos_iff)
  then have ne: "waiting_deadlines ?io q' \<noteq> []"
    using waiting_deadlines_set [of _ ?io q'] by (force simp: is_waiting_iff)
  with pos earliest_node_deadline_eq [of ?io q'] due(2)
  have min: "due = Min (set (waiting_deadlines ?io q'))" by force
  then have "due \<in> set (waiting_deadlines ?io q')" using ne Min_in by simp
  with pos min due wf' show ?thesis
    by (auto simp: at_capacity_def query_wf_def)
qed

lemma silent_finishes:
  assumes q: "started_query kd T q" and d: "qc_request_timeout (q_cfg q) < d"
    and n: "length (entries_of (closest_iter kd T) q) < n"
  shows "q_finished (snd (query_run kd (closest_iter kd T) (poll_times n d now) q))"
proof -
  from started_fresh [OF q] have fresh: "query_wf kd (closest_iter kd T) (closest_valid kd T ok) q"
    "valid_limits (q_cfg q)" "waiting_count (closest_iter kd T) q = 0"
    by (simp_all add: fresh_query_def)
  then have quiet: "\<forall>r \<in> set (entries_of (closest_iter kd T) q). \<not> is_waiting (state_of q r)"
    by (simp add: waiting_count_def count_of_zero_iff)
  then have "overdue (closest_iter kd T) now q"
    by (fastforce simp: overdue_def waiting_deadlines_set is_waiting_iff)
  moreover have "unblocked (closest_iter kd T) q"
    unfolding unblocked_def
  proof (intro allI impI)
    fix xs e ys assume "entries_of (closest_iter kd T) q = xs @ e # ys"
    with quiet have "count_of (\<lambda>r. is_waiting (state_of q r)) ys = 0" by (simp add: count_of_zero_iff)
    with fresh(2) show "count_of (\<lambda>r. is_waiting (state_of q r)) ys < qc_concurrency (q_cfg q)"
      by (simp add: valid_limits_def)
  qed
  moreover have "unasked_count (closest_iter kd T) q < n"
    using n unfolding unasked_count_def by (rule le_less_trans [OF length_filter_le])
  ultimately show ?thesis
    using closest.poll_run_finishes [OF fresh(1)] fresh(2) d by (simp add: valid_limits_def)
qed

end

text \<open>
  C1: whatever events a query is given, its in-flight counter is the number of nodes waiting to
  answer and never exceeds the concurrency limit, every request is accounted for as a success, a
  failure or in flight, and the local node is never among the nodes of the query.
\<close>

theorem query_accounts:
  assumes "kad_node_trie kd T ok" "query_reached kd T evs sts q"
  shows "q_in_flight q = waiting_count (closest_iter kd T) q \<and>
    0 \<le> q_in_flight q \<and> q_in_flight q \<le> qc_concurrency (q_cfg q) \<and>
    qs_requests (q_stats q) = qs_success (q_stats q) + qs_failure (q_stats q) + q_in_flight q \<and>
    (\<forall>r \<in> set (entries_of (closest_iter kd T) q). node_key kd (ns_node r) \<noteq> node_key kd (q_self q))"
  using kad_node_trie.reached_wf(1) [OF assms] by (simp add: query_wf_def query_cells_def)

text \<open>
  C2: a closest-nodes query that ends by itself reports the first \<open>NumResults\<close> nodes that
  answered, nearest first, and every node it reports is at least as near to the target as every
  known node that has not been resolved.
\<close>

theorem query_reports_closest:
  assumes "kad_node_trie kd T ok" "query_reached kd T evs sts q" "\<not> q_finished q" "ev \<noteq> EventQueryCancel"
    "query_advance kd (closest_iter kd T) now ev q = (StateQueryFinished i s t ns, q')" "\<not> q_coverage q'"
  shows "ns = take (nat (qc_num_results (q_cfg q'))) (succeeded_nodes (closest_iter kd T) q') \<and>
    (\<forall>n \<in> set ns. \<forall>r \<in> set (entries_of (closest_iter kd T) q').
       \<not> resolved (state_of q' r) \<longrightarrow> nearer_eq kd t (node_key kd n) (node_key kd (ns_node r)))"
  by (rule kad_node_trie.closest_result [OF assms])

text \<open>
  C3: a coverage query that ends by itself has resolved every known member of the region and
  reports exactly the members that answered.
\<close>

theorem query_covers_region:
  assumes "kad_metric kd" "kad_node_trie kd T ok" "query_reached kd T evs sts q" "\<not> q_finished q"
    "ev \<noteq> EventQueryCancel"
    "query_advance kd (closest_iter kd T) now ev q = (StateQueryFinished i s t ns, q')" "q_coverage q'"
  shows "ns = filter (\<lambda>n. in_prefix kd q' (node_key kd n)) (succeeded_nodes (closest_iter kd T) q') \<and>
    (\<forall>r \<in> set (entries_of (closest_iter kd T) q').
       in_prefix kd q' (node_key kd (ns_node r)) \<longrightarrow> resolved (state_of q' r))"
  by (rule kad_node_trie.coverage_result [OF assms(2) kad_metric.nearer_cpl [OF assms(1)] assms(3-7)])

text \<open>C4: over its whole life a query sends at most one request to a node.\<close>

theorem query_asks_once:
  assumes "kad_node_trie kd T ok" "query_reached kd T evs sts q"
  shows "distinct (map (node_key kd) (requests_of sts))"
  by (rule kad_node_trie.requests_fresh [OF assms])

text \<open>
  Once a query has reported its end, every later event gets the same report and changes
  nothing.
\<close>

theorem query_end_is_final:
  assumes "kad_node_trie kd T ok" "query_reached kd T evs sts q"
    "query_advance kd (closest_iter kd T) now ev q = (StateQueryFinished i s t ns, q')"
  shows "query_run kd (closest_iter kd T) evs' q' = (replicate (length evs') (StateQueryFinished i s t ns), q')"
proof -
  from kad_node_trie.finished_output [OF assms] have "q_finished q'" "StateQueryFinished i s t ns = finished_state q'"
    by blast+
  then show ?thesis by (induction evs') (auto simp: advance_finished)
qed

text \<open>
  The due time a waiting query reports, and remembers, is the earliest deadline of the
  requests in flight; it reports being at capacity exactly when no further request may be sent.
\<close>

theorem query_next_due:
  assumes "kad_node_trie kd T ok" "query_reached kd T evs sts q" "0 < now" "\<forall>e \<in> set evs. 0 < fst e"
    "query_advance kd (closest_iter kd T) now ev q = (st, q')"
    "st = StateQueryWaitingAtCapacity i s dl due \<or> st = StateQueryWaitingWithCapacity i s dl due"
  shows "due = Min (set (waiting_deadlines (closest_iter kd T) q')) \<and> 0 < due \<and> q_next_due q' = due \<and>
    (st = StateQueryWaitingAtCapacity i s dl due \<longleftrightarrow> q_in_flight q' = qc_concurrency (q_cfg q'))"
  by (rule kad_node_trie.reached_due [OF assms])

text \<open>
  C5: a query no node of which ever answers ends: polled at intervals longer than the request
  timeout, it has finished after one poll more than it knows nodes.
\<close>

theorem query_silent_network_ends:
  assumes "kad_node_trie kd T ok" "started_query kd T q" "qc_request_timeout (q_cfg q) < d"
    "length (entries_of (closest_iter kd T) q) < n"
  shows "q_finished (snd (query_run kd (closest_iter kd T) (poll_times n d now) q))"
  by (rule kad_node_trie.silent_finishes [OF assms])

end
