(* ===== verification/TinyNetwork.thy ===== *)
theory TinyNetwork
  imports QueryTheorems
begin

text \<open>
  A network of 8-bit keys with an association-list trie, on which the properties that take the
  external trie as a parameter are shown to hold of something.
\<close>

section \<open>Tiny queries\<close>

type_synonym tiny_iter = "(tiny_key, (tiny_key \<times> tiny_node node_status) list) closest_nodes_iter"

abbreviation tiny_trie :: "(tiny_key, 'v, (tiny_key \<times> 'v) list) trie_ops" where
  "tiny_trie \<equiv> list_trie tiny_kad"

abbreviation tiny_io :: "(tiny_key, tiny_node, tiny_iter) iter_ops" where
  "tiny_io \<equiv> closest_iter tiny_kad tiny_trie"

definition tiny_config :: query_config where
  "tiny_config = \<lparr>qc_concurrency = 2, qc_num_results = 1, qc_request_timeout = 10,
     qc_timeout = 100, qc_tracer = True\<rparr>"

text \<open>
  A query of the tiny network in a given state: the concurrency, the length of the region's prefix
  (none for a closest-nodes query), the keys known in the order they were added, the states of
  their nodes, the requests answered and the deadline.
\<close>

type_synonym tiny_query = "(tiny_key, tiny_node, tiny_message, tiny_iter) query"

definition tiny_query :: "int \<Rightarrow> int option \<Rightarrow> tiny_key list \<Rightarrow> node_state list \<Rightarrow> tiny_query" where
  "tiny_query conc region keys states =
     \<lparr>q_self = new_node 0, q_id = ''q'', q_cfg = tiny_config\<lparr>qc_concurrency := conc\<rparr>,
      q_iter = \<lparr>ci_target = 1,
        ci_nodes = map (\<lambda>i. (keys ! i, \<lparr>ns_node = new_node (keys ! i), ns_addr = i\<rparr>)) [0..<length keys]\<rparr>,
      q_target = 1, q_msg = None, q_find_closer = True, q_coverage = (region \<noteq> None),
      q_prefix_len = (case region of None \<Rightarrow> 0 | Some n \<Rightarrow> n), q_stats = zero_query_stats,
      q_finished = False, q_deadline = 0, q_next_due = 0, q_target_nodes = [], q_in_flight = 0,
      q_states = states\<rparr>"

abbreviation nc :: node_state where "nc \<equiv> StateNodeNotContacted"

lemma tiny_trie_spec: "kad_node_trie tiny_kad tiny_trie list_trie_ok"
  by (rule tiny.list_trie.kad_node_trie_axioms)

end
