(* ===== verification/QueryWitnesses.thy ===== *)
theory QueryWitnesses
  imports TinyNetwork
begin

text \<open>
  The properties of a query on concrete queries of the tiny network, and a query that stalls.
\<close>

section \<open>Queries of the tiny network\<close>

definition tiny_closest :: tiny_query where
  "tiny_closest = tiny_query 2 None [8, 4, 2] [nc, nc, nc]"

definition tiny_coverage :: tiny_query where
  "tiny_coverage = tiny_query 2 (Some 7) [8, 1] [nc, nc]"

lemma tiny_started: "started_query tiny_kad tiny_trie tiny_closest" "started_query tiny_kad tiny_trie tiny_coverage"
proof -
  have "new_find_closer_query tiny_kad tiny_io (new_node 0) ''q'' 1 (new_closest_nodes_iter tiny_trie 1)
     (map new_node [8, 4, 2]) (Some (tiny_config\<lparr>qc_concurrency := 2\<rparr>)) = Inr tiny_closest" by code_simp
  then show "started_query tiny_kad tiny_trie tiny_closest" by (rule started_query.find_closer)
  have "new_coverage_query tiny_kad tiny_io (new_node 0) ''q'' 1 7 (new_closest_nodes_iter tiny_trie 1)
     (map new_node [8, 1]) (Some (tiny_config\<lparr>qc_concurrency := 2\<rparr>)) = Inr tiny_coverage" by code_simp
  then show "started_query tiny_kad tiny_trie tiny_coverage" by (rule started_query.coverage)
qed

text \<open>After a first poll one request is in flight.\<close>

definition tiny_polls :: "(time \<times> tiny_node query_event) list" where
  "tiny_polls = [(1, EventQueryPoll)]"

definition tiny_stats :: "int \<Rightarrow> time \<Rightarrow> int \<Rightarrow> query_stats" where
  "tiny_stats requests done successes = \<lparr>qs_start = 1, qs_end = done, qs_requests = requests,
     qs_success = successes, qs_failure = 0\<rparr>"

definition tiny_asked :: "tiny_query \<Rightarrow> node_state list \<Rightarrow> tiny_query" where
  "tiny_asked q states = q\<lparr>q_stats := tiny_stats 1 0 0, q_deadline := 101, q_in_flight := 1, q_states := states\<rparr>"

definition tiny_after :: "bool \<Rightarrow> tiny_query" where
  "tiny_after region =
     (if region then tiny_asked tiny_coverage [nc, StateNodeWaiting 11]
      else tiny_asked tiny_closest [nc, nc, StateNodeWaiting 11])"

lemma tiny_closest_reached:
  "query_reached tiny_kad tiny_trie tiny_polls [StateQueryFindCloser ''q'' 1 (new_node 2) (tiny_stats 1 0 0)]
     (tiny_after False)"
proof -
  have "query_run tiny_kad tiny_io tiny_polls tiny_closest =
      ([StateQueryFindCloser ''q'' 1 (new_node 2) (tiny_stats 1 0 0)], tiny_after False)" by code_simp
  with tiny_started(1) show ?thesis by (auto simp: query_reached_def)
qed

lemma tiny_coverage_reached:
  "query_reached tiny_kad tiny_trie tiny_polls [StateQueryFindCloser ''q'' 1 (new_node 1) (tiny_stats 1 0 0)]
     (tiny_after True)"
proof -
  have "query_run tiny_kad tiny_io tiny_polls tiny_coverage =
      ([StateQueryFindCloser ''q'' 1 (new_node 1) (tiny_stats 1 0 0)], tiny_after True)" by code_simp
  with tiny_started(2) show ?thesis by (auto simp: query_reached_def)
qed

text \<open>An answer ends the query.\<close>

definition tiny_end :: "tiny_key \<Rightarrow> (tiny_key, tiny_node, tiny_message) query_state" where
  "tiny_end k = StateQueryFinished ''q'' (tiny_stats 1 2 1) 1 [new_node k]"

definition tiny_done :: "bool \<Rightarrow> tiny_query" where
  "tiny_done region = (tiny_after region)
     \<lparr>q_stats := tiny_stats 1 2 1, q_in_flight := 0, q_finished := True,
      q_target_nodes := [new_node (if region then 1 else 2)],
      q_states := (if region then [nc, StateNodeSucceeded] else [nc, nc, StateNodeSucceeded])\<rparr>"

lemma tiny_ends:
  "query_advance tiny_kad tiny_io 2 (EventQueryNodeResponse (new_node 2) []) (tiny_after False) =
     (tiny_end 2, tiny_done False)"
  "query_advance tiny_kad tiny_io 2 (EventQueryNodeResponse (new_node 1) []) (tiny_after True) =
     (tiny_end 1, tiny_done True)"
  by code_simp+

lemma tiny_running: "\<not> q_finished (tiny_after False)" "\<not> q_finished (tiny_after True)"
  by code_simp+

lemma tiny_kinds: "\<not> q_coverage (tiny_done False)" "q_coverage (tiny_done True)"
  by code_simp+

theorem query_accounts_witness:
  "q_in_flight (tiny_after False) = waiting_count tiny_io (tiny_after False)"
  using query_accounts [OF tiny_trie_spec tiny_closest_reached] by simp

lemma tiny_unresolved:
  "\<lparr>ns_node = new_node 4, ns_addr = 1\<rparr> \<in> set (entries_of tiny_io (tiny_done False)) \<and>
   \<not> resolved (state_of (tiny_done False) \<lparr>ns_node = new_node 4, ns_addr = 1\<rparr>)"
  by code_simp

theorem query_reports_closest_witness:
  "nearer_eq tiny_kad 1 (node_key tiny_kad (new_node 2)) (node_key tiny_kad (new_node 4))"
  using query_reports_closest [OF tiny_trie_spec tiny_closest_reached tiny_running(1)
      query_event.distinct(1) [symmetric] tiny_ends(1) [unfolded tiny_end_def] tiny_kinds(1),
      THEN conjunct2, rule_format, OF _ conjunct1 [OF tiny_unresolved] conjunct2 [OF tiny_unresolved],
      of "new_node 2"]
  by simp

theorem query_covers_region_witness:
  "filter (\<lambda>n. in_prefix tiny_kad (tiny_done True) (node_key tiny_kad n))
     (succeeded_nodes tiny_io (tiny_done True)) = [new_node 1]"
  using query_covers_region [OF tiny.kad_metric_axioms tiny_trie_spec tiny_coverage_reached tiny_running(2)
      query_event.distinct(1) [symmetric] tiny_ends(2) [unfolded tiny_end_def] tiny_kinds(2)]
  by simp

theorem query_asks_once_witness:
  "distinct (map (node_key tiny_kad) (requests_of
     [StateQueryFindCloser ''q'' (1 :: tiny_key) (new_node 2) (tiny_stats 1 0 0) :: (tiny_key, tiny_node, tiny_message) query_state]))"
  by (rule query_asks_once [OF tiny_trie_spec tiny_closest_reached])

theorem query_end_is_final_witness:
  "query_run tiny_kad tiny_io tiny_polls (tiny_done False) = ([tiny_end 2], tiny_done False)"
  using query_end_is_final [OF tiny_trie_spec tiny_closest_reached tiny_ends(1) [unfolded tiny_end_def],
      of tiny_polls]
  by (simp add: tiny_polls_def tiny_end_def)

text \<open>A second request brings the query to its limit.\<close>

definition tiny_two_polls :: "(time \<times> tiny_node query_event) list" where
  "tiny_two_polls = [(1, EventQueryPoll), (2, EventQueryPoll)]"

definition tiny_busy :: tiny_query where
  "tiny_busy = tiny_closest\<lparr>q_stats := tiny_stats 2 0 0, q_deadline := 101, q_in_flight := 2,
     q_states := [nc, StateNodeWaiting 12, StateNodeWaiting 11]\<rparr>"

lemma tiny_busy_reached:
  "query_reached tiny_kad tiny_trie tiny_two_polls
     [StateQueryFindCloser ''q'' 1 (new_node 2) (tiny_stats 1 0 0),
      StateQueryFindCloser ''q'' 1 (new_node 4) (tiny_stats 2 0 0)] tiny_busy"
proof -
  have "query_run tiny_kad tiny_io tiny_two_polls tiny_closest =
     ([StateQueryFindCloser ''q'' 1 (new_node 2) (tiny_stats 1 0 0),
      StateQueryFindCloser ''q'' 1 (new_node 4) (tiny_stats 2 0 0)], tiny_busy)" by code_simp
  with tiny_started(1) show ?thesis by (auto simp: query_reached_def)
qed

lemma tiny_waits:
  "query_advance tiny_kad tiny_io 3 EventQueryPoll tiny_busy =
     (StateQueryWaitingAtCapacity ''q'' (tiny_stats 2 0 0) 101 11, tiny_busy\<lparr>q_next_due := 11\<rparr>)"
  by code_simp

theorem query_next_due_witness:
  "11 = Min (set (waiting_deadlines tiny_io (tiny_busy\<lparr>q_next_due := 11\<rparr>)))"
  using query_next_due [OF tiny_trie_spec tiny_busy_reached _ _ tiny_waits disjI1 [OF refl]]
  by (simp add: tiny_two_polls_def)

theorem query_silent_network_ends_witness:
  "q_finished (snd (query_run tiny_kad tiny_io (poll_times 4 11 1) tiny_closest))"
proof -
  have "qc_request_timeout (q_cfg tiny_closest) < 11 \<and> length (entries_of tiny_io tiny_closest) < 4"
    by code_simp
  then show ?thesis using query_silent_network_ends [OF tiny_trie_spec tiny_started(1)] by blast
qed

section \<open>A query that stalls\<close>

text \<open>
  The walk stops at a node that was not contacted when no further request may be sent. When the
  request in flight is to a node farther away, a query that learns of a nearer node from a late
  answer stops before it reaches the request in flight, whatever the time: the request is never
  found to have timed out, and the query reports a due time in the past at every poll.
\<close>

definition tiny_single :: tiny_query where
  "tiny_single = tiny_query 1 None [4, 2] [nc, nc]"

definition tiny_late :: "(time \<times> tiny_node query_event) list" where
  "tiny_late = [(1, EventQueryPoll), (12, EventQueryPoll),
     (13, EventQueryNodeResponse (new_node 2) [new_node 3])]"

text \<open>The state the run leads to.\<close>

definition tiny_stalled :: tiny_query where
  "tiny_stalled = (tiny_query 1 None [4, 2, 3] [StateNodeWaiting 22, StateNodeSucceeded, nc])
     \<lparr>q_stats := \<lparr>qs_start = 1, qs_end = 0, qs_requests = 2, qs_success = 0, qs_failure = 1\<rparr>,
      q_deadline := 101, q_next_due := 22, q_in_flight := 1\<rparr>"

lemma tiny_stalled_run: "snd (query_run tiny_kad tiny_io tiny_late tiny_single) = tiny_stalled"
  by code_simp

lemma tiny_single_started: "started_query tiny_kad tiny_trie tiny_single"
proof -
  have "new_find_closer_query tiny_kad tiny_io (new_node 0) ''q'' 1 (new_closest_nodes_iter tiny_trie 1)
     (map new_node [4, 2]) (Some (tiny_config\<lparr>qc_concurrency := 1\<rparr>)) = Inr tiny_single" by code_simp
  then show ?thesis by (rule started_query.find_closer)
qed

text \<open>What the walk finds first in the stalled query.\<close>

lemma tiny_stalled_facts:
  "\<not> q_finished tiny_stalled" "\<not> q_coverage tiny_stalled" "at_capacity tiny_stalled"
  "q_next_due tiny_stalled = 22" "q_id tiny_stalled = ''q''" "q_deadline tiny_stalled = 101"
  "earliest_node_deadline tiny_io tiny_stalled = 22"
  "map (\<lambda>r. (ns_node r, state_of tiny_stalled r)) (entries_of tiny_io tiny_stalled) =
     [(new_node 3, StateNodeNotContacted), (new_node 2, StateNodeSucceeded), (new_node 4, StateNodeWaiting 22)]"
  by code_simp+

text \<open>
  C8: a query can stall: there is a reachable query that still has a request in flight whose
  deadline is 22 and that, polled at any time whatever, reports that it is waiting at capacity
  and due at 22, and does not change.
\<close>

theorem query_can_stall:
  "(\<exists>evs sts. query_reached tiny_kad tiny_trie evs sts tiny_stalled) \<and>
   query_advance tiny_kad tiny_io now EventQueryPoll tiny_stalled =
     (StateQueryWaitingAtCapacity ''q'' (q_stats tiny_stalled) 101 22, tiny_stalled)"
proof
  show "\<exists>evs sts. query_reached tiny_kad tiny_trie evs sts tiny_stalled"
    unfolding query_reached_def using tiny_single_started tiny_stalled_run by (metis prod.collapse)
  obtain e es where es: "entries_of tiny_io tiny_stalled = e # es" "state_of tiny_stalled e = StateNodeNotContacted"
    using tiny_stalled_facts(8) by (cases "entries_of tiny_io tiny_stalled") auto
  have "query_visit tiny_kad tiny_io now e (start_walk tiny_stalled) =
      ((start_walk tiny_stalled)\<lparr>w_at_capacity_waiting := True\<rparr>, True)"
    using es tiny_stalled_facts by (simp add: query_visit_def start_walk_def)
  with es tiny_stalled_facts show "query_advance tiny_kad tiny_io now EventQueryPoll tiny_stalled =
     (StateQueryWaitingAtCapacity ''q'' (q_stats tiny_stalled) 101 22, tiny_stalled)"
    by (simp add: query_advance_def run_walk_def walk_result_def Let_def start_walk_def)
qed

end
