(* ===== verification/QueryPool.thy ===== *)
theory QueryPool
  imports QueryTheorems
begin

text \<open>
  \<open>query/pool.go\<close>: the pool that runs several queries. Its slice of queries and its index hold
  pointers to the same \<open>Query\<close> values; a pointer is an address into \<open>po_heap\<close>, the queries
  the pool has allocated. \<open>pool_advance\<close> is \<open>Pool.Advance\<close>: the event first, then the loop
  over the queries (\<open>poll_queries\<close>), which stops at the first terminal state.
\<close>

section \<open>Configuration, states and events\<close>

record pool_config =
  pc_concurrency :: int
  pc_timeout :: duration
  pc_replication :: int
  pc_query_concurrency :: int
  pc_request_timeout :: duration
  pc_tracer :: bool

definition pool_config_validate :: "pool_config \<Rightarrow> go_error option" where
  "pool_config_validate cfg = first_error ''PoolConfig''
     [(pc_concurrency cfg < 1, ''concurrency must be greater than zero''),
      (pc_timeout cfg < 1, ''timeout must be greater than zero''),
      (pc_replication cfg < 1, ''replication must be greater than zero''),
      (pc_query_concurrency cfg < 1, ''query concurrency must be greater than zero''),
      (pc_request_timeout cfg < 1, ''request timeout must be greater than zero''),
      (\<not> pc_tracer cfg, ''tracer must not be nil'')]"

definition default_pool_config :: pool_config where
  "default_pool_config =
     \<lparr>pc_concurrency = 3, pc_timeout = 5 * minute, pc_replication = 20,
      pc_query_concurrency = 3, pc_request_timeout = minute, pc_tracer = True\<rparr>"

datatype ('k, 'n, 'm) pool_state =
    StatePoolIdle time
  | StatePoolFindCloser activity_id 'k 'n query_stats
  | StatePoolSendMessage activity_id 'n "'m option" query_stats
  | StatePoolWaitingAtCapacity time
  | StatePoolWaitingWithCapacity time
  | StatePoolQueryFinished activity_id query_stats 'k "'n list"
  | StatePoolQueryTimeout activity_id query_stats

datatype ('k, 'n, 'm) pool_event =
    EventPoolAddFindCloserQuery activity_id 'k "'n list" int
  | EventPoolAddQuery activity_id 'k 'm "'n list" int
  | EventPoolStopQuery activity_id
  | EventPoolNodeResponse activity_id 'n "'n list"
  | EventPoolNodeFailure activity_id 'n go_error
  | EventPoolPoll

section \<open>The pool\<close>

type_synonym ('k, 'n, 'm, 'tr) pool_query = "('k, 'n, 'm, ('k, 'tr) closest_nodes_iter) query"

record ('k, 'n, 'm, 'tr) query_pool =
  po_self :: 'n
  po_queries :: "nat list"
  po_index :: "activity_id \<rightharpoonup> nat"
  po_cfg :: pool_config
  po_in_flight :: int
  po_heap :: "('k, 'n, 'm, 'tr) pool_query list"

definition new_pool :: "'n \<Rightarrow> pool_config option \<Rightarrow> ('k, 'n, 'm, 'tr) query_pool go_result" where
  "new_pool self cfg_opt =
     (case (case cfg_opt of None \<Rightarrow> None | Some cfg \<Rightarrow> pool_config_validate cfg) of
        Some e \<Rightarrow> Inl e
      | None \<Rightarrow> Inr \<lparr>po_self = self, po_queries = [], po_index = (\<lambda>_. None),
          po_cfg = (case cfg_opt of None \<Rightarrow> default_pool_config | Some cfg \<Rightarrow> cfg),
          po_in_flight = 0, po_heap = []\<rparr>)"

abbreviation query_at :: "('k, 'n, 'm, 'tr) query_pool \<Rightarrow> nat \<Rightarrow> ('k, 'n, 'm, 'tr) pool_query" where
  "query_at p a \<equiv> po_heap p ! a"

text \<open>\<open>nextDue\<close>: the inner loop runs over the two due times of a query.\<close>

definition pool_due_step :: "time \<Rightarrow> time \<Rightarrow> time" where
  "pool_due_step earliest t =
     (if is_zero t then earliest
      else if is_zero earliest \<or> time_before t earliest then t else earliest)"

definition pool_next_due :: "('k, 'n, 'm, 'tr) query_pool \<Rightarrow> time" where
  "pool_next_due p = foldl (\<lambda>earliest a. foldl pool_due_step earliest
     [q_next_due (query_at p a), q_deadline (query_at p a)]) zero_time (po_queries p)"

text \<open>\<open>removeQuery\<close>: the first query with the id leaves the slice, the id leaves the index.\<close>

fun remove_first_query ::
  "('k, 'n, 'm, 'tr) pool_query list \<Rightarrow> activity_id \<Rightarrow> nat list \<Rightarrow> nat list" where
  "remove_first_query hp i [] = []"
| "remove_first_query hp i (a # as) =
     (if q_id (hp ! a) \<noteq> i then a # remove_first_query hp i as else as)"

definition remove_query :: "activity_id \<Rightarrow> ('k, 'n, 'm, 'tr) query_pool \<Rightarrow> ('k, 'n, 'm, 'tr) query_pool" where
  "remove_query i p =
     p\<lparr>po_queries := remove_first_query (po_heap p) i (po_queries p),
       po_index := (po_index p)(i := None)\<rparr>"

text \<open>\<open>Stats\<close>.\<close>

definition pool_stats :: "('k, 'n, 'm, 'tr) query_pool \<Rightarrow> activity_id \<Rightarrow> query_stats \<times> bool" where
  "pool_stats p i =
     (case po_index p i of None \<Rightarrow> (zero_query_stats, False) | Some a \<Rightarrow> (q_stats (query_at p a), True))"

text \<open>\<open>advanceQuery\<close>: the result is \<open>None\<close> where the code returns \<open>nil, false\<close>.\<close>

definition timed_out ::
  "time \<Rightarrow> activity_id \<Rightarrow> activity_id \<Rightarrow> query_stats \<Rightarrow> time \<Rightarrow> ('k, 'n, 'm, 'tr) query_pool \<Rightarrow>
     ('k, 'n, 'm) pool_state option \<times> ('k, 'n, 'm, 'tr) query_pool" where
  "timed_out now qid i stats deadline p =
     (if time_after now deadline then (Some (StatePoolQueryTimeout i stats), remove_query qid p)
      else (None, p\<lparr>po_in_flight := po_in_flight p + 1\<rparr>))"

definition advance_query ::
  "('k, 'n) kad_ops \<Rightarrow> ('k, 'n node_status, 'tr) trie_ops \<Rightarrow> time \<Rightarrow> nat \<Rightarrow> 'n query_event \<Rightarrow>
     ('k, 'n, 'm, 'tr) query_pool \<Rightarrow> ('k, 'n, 'm) pool_state option \<times> ('k, 'n, 'm, 'tr) query_pool" where
  "advance_query kd T now a qev p =
     (let (state, q) = query_advance kd (closest_iter kd T) now qev (query_at p a);
          p' = p\<lparr>po_heap := (po_heap p)[a := q]\<rparr>
      in case state of
           StateQueryFindCloser i target n stats \<Rightarrow>
             (Some (StatePoolFindCloser i target n stats), p'\<lparr>po_in_flight := po_in_flight p' + 1\<rparr>)
         | StateQuerySendMessage i n msg stats \<Rightarrow>
             (Some (StatePoolSendMessage i n msg stats), p'\<lparr>po_in_flight := po_in_flight p' + 1\<rparr>)
         | StateQueryFinished i stats target closest \<Rightarrow>
             (Some (StatePoolQueryFinished i stats target closest), remove_query (q_id q) p')
         | StateQueryWaitingAtCapacity i stats deadline due \<Rightarrow> timed_out now (q_id q) i stats deadline p'
         | StateQueryWaitingWithCapacity i stats deadline due \<Rightarrow> timed_out now (q_id q) i stats deadline p')"

text \<open>\<open>addQuery\<close> and \<open>addFindCloserQuery\<close>; \<open>Advance\<close> drops the error they return.\<close>

definition pool_query_config :: "pool_config \<Rightarrow> int \<Rightarrow> query_config" where
  "pool_query_config cfg num_results =
     (let qc = default_query_config\<lparr>qc_concurrency := pc_query_concurrency cfg,
          qc_request_timeout := pc_request_timeout cfg, qc_timeout := pc_timeout cfg,
          qc_tracer := pc_tracer cfg\<rparr>
      in if 0 < num_results then qc\<lparr>qc_num_results := num_results\<rparr> else qc)"

definition insert_query ::
  "activity_id \<Rightarrow> ('k, 'n, 'm, 'tr) pool_query go_result \<Rightarrow> ('k, 'n, 'm, 'tr) query_pool \<Rightarrow>
     go_error option \<times> ('k, 'n, 'm, 'tr) query_pool" where
  "insert_query i r p =
     (case r of
        Inl e \<Rightarrow> (Some (ErrorText (''new query: '' @ error_string e)), p)
      | Inr q \<Rightarrow> (None, p\<lparr>po_heap := po_heap p @ [q], po_queries := po_queries p @ [length (po_heap p)],
           po_index := (po_index p)(i \<mapsto> length (po_heap p))\<rparr>))"

definition pool_add_query ::
  "('k, 'n) kad_ops \<Rightarrow> ('k, 'n node_status, 'tr) trie_ops \<Rightarrow> activity_id \<Rightarrow> 'k \<Rightarrow> 'm \<Rightarrow> 'n list \<Rightarrow> int \<Rightarrow>
     ('k, 'n, 'm, 'tr) query_pool \<Rightarrow> go_error option \<times> ('k, 'n, 'm, 'tr) query_pool" where
  "pool_add_query kd T i target msg known num_results p =
     (if po_index p i \<noteq> None then (Some (ErrorText ''query id already in use''), p)
      else insert_query i
        (new_query kd (closest_iter kd T) (po_self p) i target (Some msg) (new_closest_nodes_iter T target)
           known (Some (pool_query_config (po_cfg p) num_results))) p)"

definition pool_add_find_closer ::
  "('k, 'n) kad_ops \<Rightarrow> ('k, 'n node_status, 'tr) trie_ops \<Rightarrow> activity_id \<Rightarrow> 'k \<Rightarrow> 'n list \<Rightarrow> int \<Rightarrow>
     ('k, 'n, 'm, 'tr) query_pool \<Rightarrow> go_error option \<times> ('k, 'n, 'm, 'tr) query_pool" where
  "pool_add_find_closer kd T i target known num_results p =
     (if po_index p i \<noteq> None then (Some (ErrorText ''query id already in use''), p)
      else insert_query i
        (new_find_closer_query kd (closest_iter kd T) (po_self p) i target (new_closest_nodes_iter T target)
           known (Some (pool_query_config (po_cfg p) num_results))) p)"

section \<open>Advancing the pool\<close>

text \<open>
  The event: the state to return at once, if any, the id of the query it advanced and the pool.
\<close>

definition event_query ::
  "('k, 'n) kad_ops \<Rightarrow> ('k, 'n node_status, 'tr) trie_ops \<Rightarrow> time \<Rightarrow> activity_id \<Rightarrow> 'n query_event \<Rightarrow>
     ('k, 'n, 'm, 'tr) query_pool \<Rightarrow>
     ('k, 'n, 'm) pool_state option \<times> activity_id \<times> ('k, 'n, 'm, 'tr) query_pool" where
  "event_query kd T now i qev p =
     (case po_index p i of
        None \<Rightarrow> (None, InvalidActivityID, p)
      | Some a \<Rightarrow> (case advance_query kd T now a qev p of (st, p') \<Rightarrow> (st, q_id (query_at p' a), p')))"

fun handle_pool_event ::
  "('k, 'n) kad_ops \<Rightarrow> ('k, 'n node_status, 'tr) trie_ops \<Rightarrow> time \<Rightarrow> ('k, 'n, 'm) pool_event \<Rightarrow>
     ('k, 'n, 'm, 'tr) query_pool \<Rightarrow>
     ('k, 'n, 'm) pool_state option \<times> activity_id \<times> ('k, 'n, 'm, 'tr) query_pool" where
  "handle_pool_event kd T now (EventPoolAddFindCloserQuery i target seed num) p =
     (None, InvalidActivityID, snd (pool_add_find_closer kd T i target seed num p))"
| "handle_pool_event kd T now (EventPoolAddQuery i target msg seed num) p =
     (None, InvalidActivityID, snd (pool_add_query kd T i target msg seed num p))"
| "handle_pool_event kd T now (EventPoolStopQuery i) p = event_query kd T now i EventQueryCancel p"
| "handle_pool_event kd T now (EventPoolNodeResponse i n closer) p =
     event_query kd T now i (EventQueryNodeResponse n closer) p"
| "handle_pool_event kd T now (EventPoolNodeFailure i n err) p =
     event_query kd T now i (EventQueryNodeFailure n err) p"
| "handle_pool_event kd T now EventPoolPoll p = (None, InvalidActivityID, p)"

text \<open>
  The loop. A pass that does not return removes no query, so the slice it ranges over is the one
  the loop started with.
\<close>

fun poll_queries ::
  "('k, 'n) kad_ops \<Rightarrow> ('k, 'n node_status, 'tr) trie_ops \<Rightarrow> time \<Rightarrow> activity_id \<Rightarrow> nat list \<Rightarrow>
     ('k, 'n, 'm, 'tr) query_pool \<Rightarrow> ('k, 'n, 'm) pool_state option \<times> ('k, 'n, 'm, 'tr) query_pool" where
  "poll_queries kd T now skip [] p = (None, p)"
| "poll_queries kd T now skip (a # as) p =
     (if skip = q_id (query_at p a) then poll_queries kd T now skip as p
      else case advance_query kd T now a EventQueryPoll p of
        (Some st, p') \<Rightarrow> (Some st, p')
      | (None, p') \<Rightarrow>
          (if pc_concurrency (po_cfg p') \<le> po_in_flight p'
           then (Some (StatePoolWaitingAtCapacity (pool_next_due p')), p')
           else poll_queries kd T now skip as p'))"

definition pool_advance ::
  "('k, 'n) kad_ops \<Rightarrow> ('k, 'n node_status, 'tr) trie_ops \<Rightarrow> time \<Rightarrow> ('k, 'n, 'm) pool_event \<Rightarrow>
     ('k, 'n, 'm, 'tr) query_pool \<Rightarrow> ('k, 'n, 'm) pool_state \<times> ('k, 'n, 'm, 'tr) query_pool" where
  "pool_advance kd T now ev p0 =
     (case handle_pool_event kd T now ev (p0\<lparr>po_in_flight := 0\<rparr>) of
        (Some st, _, p) \<Rightarrow> (st, p)
      | (None, skip, p) \<Rightarrow>
          (if po_queries p = [] then (StatePoolIdle zero_time, p)
           else case poll_queries kd T now skip (po_queries p) p of
             (Some st, p') \<Rightarrow> (st, p')
           | (None, p') \<Rightarrow>
               (if 0 < po_in_flight p' then (StatePoolWaitingWithCapacity (pool_next_due p'), p')
                else (StatePoolIdle (pool_next_due p'), p'))))"

end
