(* ===== verification/QueryPoolFacts.thy ===== *)
theory QueryPoolFacts
  imports QueryPool
begin

text \<open>
  Facts about the query pool: its slice and its index describe the same running queries, each
  advance keeps that, and what the states it reports say about the queries.
\<close>

section \<open>Running queries\<close>

definition running ::
  "('k, 'n) kad_ops \<Rightarrow> ('k, 'n node_status, 'tr) trie_ops \<Rightarrow> ('tr \<Rightarrow> bool) \<Rightarrow>
     ('k, 'n, 'm, 'tr) pool_query \<Rightarrow> bool" where
  "running kd T ok q \<longleftrightarrow>
     query_wf kd (closest_iter kd T) (closest_valid kd T ok) q \<and> valid_limits (q_cfg q) \<and>
     \<not> q_finished q"

lemma handlers_finished [simp]:
  "q_finished (on_node_response kd io n closer q) = q_finished q"
  "q_finished (on_node_failure kd io n q) = q_finished q"
  by (auto simp: on_node_response_def on_node_failure_def accept_closer_def
      split: option.splits node_state.splits prod.splits)

context node_iter_spec
begin

lemma run_walk_running:
  assumes cells: "query_cells kd io valid (q_self q) (q_iter q) (q_states q)"
    and limit: "1 \<le> qc_num_results (q_cfg q)"
    and run: "run_walk kd io now q = (st, q')" and st: "\<not> is_finished_state st"
  shows "q_finished q' = q_finished q"
  using cells limit
proof (cases rule: run_walk_cases [where now = now])
  case (request xs e ys st0 p)
  have "q_finished (send_request now e p) = q_finished p" by (simp add: send_request_def Let_def)
  with request(3,7) run show ?thesis by simp
qed (use run st in auto)

lemma advance_running:
  assumes wf: "query_wf kd io valid q" and limit: "1 \<le> qc_num_results (q_cfg q)"
    and adv: "query_advance kd io now ev q = (st, q')" and st: "\<not> is_finished_state st"
  shows "\<not> q_finished q'"
proof -
  from not_finished_output [OF st adv] have nf: "\<not> q_finished q" "ev \<noteq> EventQueryCancel" by simp_all
  have cells: "query_cells kd io valid (q_self p) (q_iter p) (q_states p)" if "query_wf kd io valid p"
    for p :: "('k, 'n, 'm, 'it) query" using that by (simp add: query_wf_def)
  show ?thesis
    using adv nf limit run_walk_running [OF cells [OF wf] limit _ st]
      run_walk_running [OF cells [OF on_node_response_wf [OF wf]] _ _ st]
      run_walk_running [OF cells [OF on_node_failure_wf [OF wf]] _ _ st]
    by (cases ev) (auto simp: query_advance_def)
qed

end

text \<open>Every state a query reports carries the query's id.\<close>

fun query_state_id :: "('k, 'n, 'm) query_state \<Rightarrow> activity_id" where
  "query_state_id (StateQueryFinished i s t ns) = i"
| "query_state_id (StateQueryFindCloser i t n s) = i"
| "query_state_id (StateQuerySendMessage i n m s) = i"
| "query_state_id (StateQueryWaitingAtCapacity i s d e) = i"
| "query_state_id (StateQueryWaitingWithCapacity i s d e) = i"

lemma query_state_id_simps [simp]:
  "query_state_id (finished_state q) = q_id q" "query_state_id (request_state r q) = q_id q"
  by (simp_all add: finished_state_def request_state_def)

lemma q_id_simps [simp]:
  "q_id (mark_finished kd io now q) = q_id q" "q_id (send_request now e q) = q_id q"
  "q_id (on_node_response kd io n closer q) = q_id q" "q_id (on_node_failure kd io n q) = q_id q"
  by (auto simp: mark_finished_def send_request_def Let_def on_node_response_def on_node_failure_def
      accept_closer_def split: option.splits node_state.splits prod.splits)

context node_iter_spec
begin

lemma run_walk_id:
  assumes cells: "query_cells kd io valid (q_self q) (q_iter q) (q_states q)"
    and limit: "1 \<le> qc_num_results (q_cfg q)"
  shows "query_state_id (fst (run_walk kd io now q)) = q_id q"
  using cells limit by (cases rule: run_walk_cases [where now = now]) auto

lemma advance_id:
  assumes wf: "query_wf kd io valid q" and limit: "1 \<le> qc_num_results (q_cfg q)"
  shows "query_state_id (fst (query_advance kd io now ev q)) = q_id q"
proof -
  have cells: "query_cells kd io valid (q_self p) (q_iter p) (q_states p)" if "query_wf kd io valid p"
    for p :: "('k, 'n, 'm, 'it) query" using that by (simp add: query_wf_def)
  show ?thesis
    using limit run_walk_id [OF cells [OF wf] limit] run_walk_id [OF cells [OF on_node_response_wf [OF wf]]]
      run_walk_id [OF cells [OF on_node_failure_wf [OF wf]]]
    by (cases ev) (auto simp: query_advance_def Let_def)
qed

end

context kad_node_trie
begin

lemma running_advance:
  assumes q: "running kd T ok q" and adv: "query_advance kd (closest_iter kd T) now ev q = (st, q')"
  shows "q_id q' = q_id q" "\<not> is_finished_state st \<Longrightarrow> running kd T ok q'"
proof -
  from q have wf: "query_wf kd (closest_iter kd T) (closest_valid kd T ok) q"
    and limit: "1 \<le> qc_num_results (q_cfg q)" by (simp_all add: running_def valid_limits_def)
  from closest.advance_wf [OF wf limit, of now ev] adv
  have wf': "query_wf kd (closest_iter kd T) (closest_valid kd T ok) q'" "same_identity q q'" by simp_all
  then show "q_id q' = q_id q" by (simp add: same_identity_def)
  assume "\<not> is_finished_state st"
  with closest.advance_running [OF wf limit adv] wf' q show "running kd T ok q'"
    by (simp add: running_def same_identity_def)
qed

lemma running_waits:
  assumes q: "running kd T ok q" and adv: "query_advance kd (closest_iter kd T) now ev q = (st, q')"
    and st: "st = StateQueryWaitingAtCapacity i s dl due \<or> st = StateQueryWaitingWithCapacity i s dl due"
  shows "0 < q_in_flight q' \<and> due = q_next_due q' \<and> dl = q_deadline q'"
proof -
  from q have wf: "query_wf kd (closest_iter kd T) (closest_valid kd T ok) q" and limits: "valid_limits (q_cfg q)"
    and limit: "1 \<le> qc_num_results (q_cfg q)" by (simp_all add: running_def valid_limits_def)
  from st have "\<not> is_finished_state st" by auto
  with closest.not_finished_output [OF this adv] obtain q1 where q1:
    "run_walk kd (closest_iter kd T) now q1 = (st, q')"
    "query_wf kd (closest_iter kd T) (closest_valid kd T ok) q1" "q_cfg q1 = q_cfg q"
    using closest.reaches_walk [OF wf limit adv] by blast
  from limits q1(3) have "valid_limits (q_cfg q1)" by simp
  from closest.run_walk_due [OF q1(2) this q1(1) st] show ?thesis by auto
qed

end

section \<open>Well-formed pools\<close>

text \<open>
  The slice lists the addresses of the running queries once each, and the index finds a query
  exactly by its id.
\<close>

definition pool_wf ::
  "('k, 'n) kad_ops \<Rightarrow> ('k, 'n node_status, 'tr) trie_ops \<Rightarrow> ('tr \<Rightarrow> bool) \<Rightarrow>
     ('k, 'n, 'm, 'tr) query_pool \<Rightarrow> bool" where
  "pool_wf kd T ok p \<longleftrightarrow>
     distinct (po_queries p) \<and>
     (\<forall>a \<in> set (po_queries p). a < length (po_heap p) \<and> running kd T ok (query_at p a)) \<and>
     (\<forall>i a. po_index p i = Some a \<longleftrightarrow> a \<in> set (po_queries p) \<and> q_id (query_at p a) = i)"

lemma pool_wf_in_flight [simp]: "pool_wf kd T ok (p\<lparr>po_in_flight := n\<rparr>) = pool_wf kd T ok p"
  by (simp add: pool_wf_def)

lemma pool_wf_ids:
  "pool_wf kd T ok p \<Longrightarrow> a \<in> set (po_queries p) \<Longrightarrow> b \<in> set (po_queries p) \<Longrightarrow>
     q_id (query_at p a) = q_id (query_at p b) \<Longrightarrow> a = b"
  unfolding pool_wf_def by (metis option.inject)

lemma remove_first_query_filter:
  assumes "distinct as" "\<forall>b \<in> set as. q_id (hp ! b) = i \<longleftrightarrow> b = a"
  shows "remove_first_query hp i as = filter (\<lambda>b. b \<noteq> a) as"
  using assms
proof (induction hp i as rule: remove_first_query.induct)
  case (2 hp i b bs)
  then show ?case by (auto intro!: filter_True [symmetric])
qed simp

lemma remove_query_wf:
  assumes wf: "pool_wf kd T ok p" and a: "a \<in> set (po_queries p)" and i: "q_id q = q_id (query_at p a)"
    and p': "p' = remove_query (q_id q) (p\<lparr>po_heap := (po_heap p)[a := q]\<rparr>)"
  shows "pool_wf kd T ok p'" "po_queries p' = filter (\<lambda>b. b \<noteq> a) (po_queries p)"
    "\<And>b. b \<noteq> a \<Longrightarrow> query_at p' b = query_at p b"
proof -
  from wf a have len: "a < length (po_heap p)" by (simp add: pool_wf_def)
  have ids: "q_id ((po_heap p)[a := q] ! b) = q_id (query_at p b)" for b
    using i len by (cases "b = a") auto
  have "\<forall>b \<in> set (po_queries p). q_id ((po_heap p)[a := q] ! b) = q_id q \<longleftrightarrow> b = a"
    using ids i pool_wf_ids [OF wf _ a] by auto
  then show queries: "po_queries p' = filter (\<lambda>b. b \<noteq> a) (po_queries p)"
    using wf p' by (simp add: remove_query_def pool_wf_def remove_first_query_filter)
  show other: "query_at p' b = query_at p b" if "b \<noteq> a" for b
    using p' that by (simp add: remove_query_def)
  have "po_index p' = (po_index p)(q_id q := None)" "length (po_heap p') = length (po_heap p)"
    using p' by (simp_all add: remove_query_def)
  moreover have "q_id (query_at p b) = q_id q \<longleftrightarrow> b = a" if "b \<in> set (po_queries p)" for b
    using i pool_wf_ids [OF wf that a] by auto
  ultimately show "pool_wf kd T ok p'"
    using wf queries other unfolding pool_wf_def by (auto split: if_splits)
qed

lemma update_query_wf:
  assumes wf: "pool_wf kd T ok p" and a: "a \<in> set (po_queries p)" and i: "q_id q = q_id (query_at p a)"
    and q: "running kd T ok q"
  shows "pool_wf kd T ok (p\<lparr>po_heap := (po_heap p)[a := q], po_in_flight := n\<rparr>)"
proof -
  have "q_id ((po_heap p)[a := q] ! b) = q_id (query_at p b)" for b
    using i a wf by (cases "b = a") (auto simp: pool_wf_def)
  with wf a q show ?thesis by (auto simp: pool_wf_def nth_list_update)
qed

lemma insert_query_wf:
  assumes wf: "pool_wf kd T ok p" and q: "running kd T ok q" "q_id q = i" and i: "po_index p i = None"
  shows "pool_wf kd T ok (snd (insert_query i (Inr q) p))"
proof -
  from wf have lt: "a \<in> set (po_queries p) \<Longrightarrow> a < length (po_heap p)" for a by (simp add: pool_wf_def)
  have no: "a \<in> set (po_queries p) \<Longrightarrow> q_id (query_at p a) \<noteq> i" for a
    using wf i unfolding pool_wf_def by (metis option.distinct(1))
  from wf q no lt show ?thesis
    unfolding pool_wf_def insert_query_def by (auto simp: nth_append dest: lt)
qed

section \<open>Advancing one query of a pool\<close>

context kad_node_trie
begin

text \<open>The query waits, asks a node, or leaves the pool.\<close>

lemma advance_query_cases [consumes 3]:
  fixes p :: "('k, 'n, 'm, 'tr) query_pool"
  assumes wf: "pool_wf kd T ok p" and a: "a \<in> set (po_queries p)"
    and adv: "advance_query kd T now a qev p = (r, p')"
  obtains
    (waits) q where "r = None" "p' = p\<lparr>po_heap := (po_heap p)[a := q], po_in_flight := po_in_flight p + 1\<rparr>"
      "running kd T ok q" "q_id q = q_id (query_at p a)" "0 < q_in_flight q" "\<not> time_after now (q_deadline q)"
  | (asks) q i target n stats msg where
      "r = Some (StatePoolFindCloser i target n stats) \<or> r = Some (StatePoolSendMessage i n msg stats)"
      "i = q_id q" "p' = p\<lparr>po_heap := (po_heap p)[a := q], po_in_flight := po_in_flight p + 1\<rparr>"
      "running kd T ok q" "q_id q = q_id (query_at p a)"
  | (leaves) q i stats target closest where
      "r = Some (StatePoolQueryFinished i stats target closest) \<or> r = Some (StatePoolQueryTimeout i stats)"
      "i = q_id q" "q_id q = q_id (query_at p a)"
      "p' = remove_query (q_id q) (p\<lparr>po_heap := (po_heap p)[a := q]\<rparr>)"
proof -
  from wf a have q: "running kd T ok (query_at p a)" by (simp add: pool_wf_def)
  then have qwf: "query_wf kd (closest_iter kd T) (closest_valid kd T ok) (query_at p a)"
    "1 \<le> qc_num_results (q_cfg (query_at p a))" by (simp_all add: running_def valid_limits_def)
  obtain st q' where qadv: "query_advance kd (closest_iter kd T) now qev (query_at p a) = (st, q')"
    by fastforce
  note id = running_advance(1) [OF q qadv] and run = running_advance(2) [OF q qadv]
  from closest.advance_id [OF qwf, of now qev] qadv id have sid: "query_state_id st = q_id q'" by simp
  have wait: thesis
    if st: "st = StateQueryWaitingAtCapacity i s dl due \<or> st = StateQueryWaitingWithCapacity i s dl due"
    for i s dl due
  proof -
    from running_waits [OF q qadv st] have w: "0 < q_in_flight q'" "dl = q_deadline q'" by simp_all
    show thesis
    proof (cases "time_after now dl")
      case True
      with adv qadv st sid id show thesis
        by (intro leaves [of i s _ _ q']) (auto simp: advance_query_def timed_out_def)
    next
      case False
      with adv qadv st w run id show thesis
        by (intro waits [of q']) (auto simp: advance_query_def timed_out_def)
    qed
  qed
  show thesis
  proof (cases st)
    case (StateQueryFinished i s t ns)
    with adv qadv sid id show thesis
      by (intro leaves [of i s t ns q']) (auto simp: advance_query_def)
  next
    case (StateQueryFindCloser i t n s)
    with adv qadv sid id run show thesis
      by (intro asks [of i t n s _ q']) (auto simp: advance_query_def)
  next
    case (StateQuerySendMessage i n m s)
    with adv qadv sid id run show thesis
      by (intro asks [of i _ n s m q']) (auto simp: advance_query_def)
  qed (use wait in auto)
qed

lemma advance_query_wf:
  assumes wf: "pool_wf kd T ok p" and a: "a \<in> set (po_queries p)"
    and adv: "advance_query kd T now a qev p = (r, p')"
  shows "pool_wf kd T ok p'"
  using wf a adv
proof (cases rule: advance_query_cases)
  case (waits q)
  then show ?thesis using update_query_wf [OF wf a] by simp
next
  case (asks q i target n stats msg)
  then show ?thesis using update_query_wf [OF wf a] by simp
next
  case (leaves q i stats target closest)
  then show ?thesis using remove_query_wf(1) [OF wf a leaves(3)] by simp
qed

end

section \<open>Advancing the pool\<close>

text \<open>The queries with a request in flight.\<close>

definition active_queries :: "('k, 'n, 'm, 'tr) query_pool \<Rightarrow> nat set" where
  "active_queries p = {a \<in> set (po_queries p). 0 < q_in_flight (query_at p a)}"

text \<open>The active queries that the loop has still to visit, or skips, do not count yet.\<close>

definition counted :: "activity_id \<Rightarrow> nat list \<Rightarrow> ('k, 'n, 'm, 'tr) query_pool \<Rightarrow> nat set" where
  "counted skip as p = {a \<in> active_queries p. a \<in> set as \<longrightarrow> q_id (query_at p a) = skip}"

text \<open>A pool state that names a query that leaves.\<close>

fun leaving :: "('k, 'n, 'm) pool_state \<Rightarrow> activity_id option" where
  "leaving (StatePoolQueryFinished i s t ns) = Some i"
| "leaving (StatePoolQueryTimeout i s) = Some i"
| "leaving _ = None"

fun asking :: "('k, 'n, 'm) pool_state \<Rightarrow> activity_id option" where
  "asking (StatePoolFindCloser i t n s) = Some i"
| "asking (StatePoolSendMessage i n m s) = Some i"
| "asking _ = None"

text \<open>
  What holds after a state \<open>r\<close> was reached from the pool \<open>p\<close>: the pool is well formed, and its
  index is that of \<open>p\<close> but for the query that leaves, if one does.
\<close>

definition pool_step_ok ::
  "('k, 'n) kad_ops \<Rightarrow> ('k, 'n node_status, 'tr) trie_ops \<Rightarrow> ('tr \<Rightarrow> bool) \<Rightarrow>
     ('k, 'n, 'm, 'tr) query_pool \<Rightarrow> ('k, 'n, 'm) pool_state option \<Rightarrow> ('k, 'n, 'm, 'tr) query_pool \<Rightarrow> bool" where
  "pool_step_ok kd T ok p r p' \<longleftrightarrow>
     pool_wf kd T ok p' \<and> po_cfg p' = po_cfg p \<and>
     (case Option.bind r leaving of
        None \<Rightarrow> po_index p' = po_index p \<and> po_queries p' = po_queries p
      | Some i \<Rightarrow> po_index p i \<noteq> None \<and> po_index p' = (po_index p)(i := None)) \<and>
     (\<forall>i. Option.bind r asking = Some i \<longrightarrow> po_index p' i \<noteq> None)"

text \<open>What the loop establishes, as one predicate of where it starts and what it returns.\<close>

definition polled_ok :: "activity_id \<Rightarrow> nat list \<Rightarrow> ('k, 'n, 'm, 'tr) query_pool \<Rightarrow>
    ('k, 'n, 'm) pool_state option \<Rightarrow> ('k, 'n, 'm, 'tr) query_pool \<Rightarrow> bool" where
  "polled_ok skip as p r p' \<longleftrightarrow>
    (\<forall>d. r = Some (StatePoolWaitingAtCapacity d) \<longrightarrow>
       pc_concurrency (po_cfg p') \<le> int (card (active_queries p')) \<and> d = pool_next_due p') \<and>
    (\<forall>d. r \<noteq> Some (StatePoolIdle d) \<and> r \<noteq> Some (StatePoolWaitingWithCapacity d)) \<and>
    (r = None \<longrightarrow>
       po_in_flight p \<le> po_in_flight p' \<and> active_queries p \<subseteq> active_queries p' \<and>
       (\<forall>b. q_id (query_at p' b) = q_id (query_at p b)) \<and>
       (\<forall>a \<in> set as. q_id (query_at p a) \<noteq> skip \<longrightarrow>
          a \<in> active_queries p' \<and> po_in_flight p < po_in_flight p'))"

text \<open>The id an event would add a query under.\<close>

definition adds_query :: "('k, 'n, 'm) pool_event \<Rightarrow> activity_id option" where
  "adds_query ev = (case ev of EventPoolAddFindCloserQuery i t s n \<Rightarrow> Some i
     | EventPoolAddQuery i t m s n \<Rightarrow> Some i | _ \<Rightarrow> None)"

text \<open>
  What the states that report waiting say: a pool at capacity has as many
  active queries as it may, and otherwise every query is active.
\<close>

definition waiting_ok :: "('k, 'n, 'm) pool_state \<Rightarrow> ('k, 'n, 'm, 'tr) query_pool \<Rightarrow> bool" where
  "waiting_ok st p \<longleftrightarrow>
    (\<forall>d. st = StatePoolWaitingAtCapacity d \<longrightarrow>
       pc_concurrency (po_cfg p) \<le> int (card (active_queries p)) \<and> d = pool_next_due p) \<and>
    (\<forall>d. st = StatePoolWaitingWithCapacity d \<or> st = StatePoolIdle d \<longrightarrow>
       (\<forall>a \<in> set (po_queries p). q_id (query_at p a) \<noteq> InvalidActivityID \<longrightarrow> a \<in> active_queries p) \<and>
       d = pool_next_due p) \<and>
    (\<forall>d. st = StatePoolIdle d \<longrightarrow>
       (\<forall>a \<in> set (po_queries p). q_id (query_at p a) = InvalidActivityID))"

text \<open>What an advance changes in the index.\<close>

definition pool_changed ::
  "('k, 'n, 'm) pool_event \<Rightarrow> ('k, 'n, 'm, 'tr) query_pool \<Rightarrow> ('k, 'n, 'm) pool_state \<Rightarrow>
     ('k, 'n, 'm, 'tr) query_pool \<Rightarrow> bool" where
  "pool_changed ev p st p' \<longleftrightarrow>
    (\<forall>j. adds_query ev \<noteq> Some j \<longrightarrow> po_index p' j = (if leaving st = Some j then None else po_index p j)) \<and>
    (\<forall>i. leaving st = Some i \<longrightarrow> (po_index p i \<noteq> None \<or> adds_query ev = Some i) \<and> po_index p' i = None) \<and>
    (\<forall>i. asking st = Some i \<longrightarrow> po_index p' i \<noteq> None)"

context kad_node_trie
begin

lemma advance_query_step:
  assumes wf: "pool_wf kd T ok p" and a: "a \<in> set (po_queries p)"
    and adv: "advance_query kd T now a qev p = (r, p')"
  shows "pool_step_ok kd T ok p r p'"
proof -
  note wf' = advance_query_wf [OF wf a adv]
  have index: "po_index p (q_id (query_at p a)) = Some a" using wf a by (simp add: pool_wf_def)
  from wf a adv show ?thesis
  proof (cases rule: advance_query_cases)
    case (asks q i target n stats msg)
    with wf' index show ?thesis by (auto simp: pool_step_ok_def)
  next
    case (leaves q i stats target closest)
    with wf' index show ?thesis by (auto simp: pool_step_ok_def remove_query_def)
  qed (use wf' in \<open>auto simp: pool_step_ok_def\<close>)
qed

lemma pool_step_ok_trans:
  "pool_step_ok kd T ok p None p1 \<Longrightarrow> pool_step_ok kd T ok p1 r p' \<Longrightarrow> pool_step_ok kd T ok p r p'"
  by (simp add: pool_step_ok_def split: option.splits)

text \<open>A query that waits is counted.\<close>

lemma waits_counted:
  assumes wf: "pool_wf kd T ok p" and a: "a \<in> set (po_queries p)"
    and adv: "advance_query kd T now a qev p = (None, p')"
  shows "po_in_flight p' = po_in_flight p + 1" "active_queries p' = insert a (active_queries p)"
    "q_id (query_at p' b) = q_id (query_at p b)" "0 < q_in_flight (query_at p' a)"
    "b \<noteq> a \<Longrightarrow> query_at p' b = query_at p b"
proof -
  from wf a have len: "a < length (po_heap p)" by (simp add: pool_wf_def)
  have "\<exists>q. p' = p\<lparr>po_heap := (po_heap p)[a := q], po_in_flight := po_in_flight p + 1\<rparr> \<and>
      q_id q = q_id (query_at p a) \<and> 0 < q_in_flight q"
    using wf a adv by (cases rule: advance_query_cases) auto
  then obtain q where p': "p' = p\<lparr>po_heap := (po_heap p)[a := q], po_in_flight := po_in_flight p + 1\<rparr>"
    and q: "q_id q = q_id (query_at p a)" "0 < q_in_flight q" by blast
  show "po_in_flight p' = po_in_flight p + 1" "0 < q_in_flight (query_at p' a)"
    using p' q len by simp_all
  show "q_id (query_at p' b) = q_id (query_at p b)" using p' q len by (cases "b = a") auto
  show "b \<noteq> a \<Longrightarrow> query_at p' b = query_at p b" using p' by simp
  show "active_queries p' = insert a (active_queries p)"
    using p' q len a by (auto simp: active_queries_def nth_list_update split: if_splits)
qed

lemma polled_ok_skip: "q_id (query_at p a) = skip \<Longrightarrow> polled_ok skip as p r p' \<Longrightarrow> polled_ok skip (a # as) p r p'"
  by (auto simp: polled_ok_def)

lemma polled_ok_stop:
  assumes "pool_wf kd T ok p" "a \<in> set (po_queries p)"
    "advance_query kd T now a EventQueryPoll p = (Some st, p')"
  shows "polled_ok skip as p (Some st) p'"
  using assms by (cases rule: advance_query_cases) (auto simp: polled_ok_def)

lemma polled_ok_next:
  assumes wf: "pool_wf kd T ok p" and a: "a \<in> set (po_queries p)"
    and adv: "advance_query kd T now a EventQueryPoll p = (None, p1)"
    and rest: "polled_ok skip as p1 r p'"
  shows "polled_ok skip (a # as) p r p'"
  using rest waits_counted [OF wf a adv] unfolding polled_ok_def by auto

lemma counted_next:
  fixes p :: "('k, 'n, 'm, 'tr) query_pool"
  assumes wf: "pool_wf kd T ok p" and a: "a \<in> set (po_queries p)" "a \<notin> set as"
    and adv: "advance_query kd T now a EventQueryPoll p = (None, p1)"
    and skip: "skip \<noteq> q_id (query_at p a)"
    and bound: "po_in_flight p \<le> int (card (counted skip (a # as) p))"
  shows "po_in_flight p1 \<le> int (card (counted skip as p1))"
proof -
  note w = waits_counted [OF wf a(1) adv]
  have sub: "insert a (counted skip (a # as) p) \<subseteq> counted skip as p1" and new: "a \<notin> counted skip (a # as) p"
    using skip a(2) w(2,3) by (auto simp: counted_def)
  have fin: "finite (counted s bs q)" for s bs and q :: "('k, 'n, 'm, 'tr) query_pool"
    by (simp add: counted_def active_queries_def)
  from card_mono [OF fin sub] new fin have "card (counted skip (a # as) p) + 1 \<le> card (counted skip as p1)"
    by simp
  with bound w(1) show ?thesis by linarith
qed

lemma poll_queries_ok:
  assumes "pool_wf kd T ok p" "set as \<subseteq> set (po_queries p)" "distinct as"
    "po_in_flight p \<le> int (card (counted skip as p))"
    "poll_queries kd T now skip as p = (r, p')"
  shows "pool_step_ok kd T ok p r p' \<and> polled_ok skip as p r p'"
  using assms
proof (induction as arbitrary: p)
  case Nil
  then show ?case by (simp add: pool_step_ok_def polled_ok_def)
next
  case (Cons a as)
  note wf = Cons.prems(1)
  from Cons.prems have a: "a \<in> set (po_queries p)" "a \<notin> set as" by auto
  show ?case
  proof (cases "skip = q_id (query_at p a)")
    case True
    then have "counted skip (a # as) p = counted skip as p" by (auto simp: counted_def)
    with True Cons.IH [OF wf] Cons.prems show ?thesis by (auto intro: polled_ok_skip)
  next
    case False
    obtain r1 p1 where adv: "advance_query kd T now a EventQueryPoll p = (r1, p1)" by fastforce
    note step = advance_query_step [OF wf a(1) adv]
    show ?thesis
    proof (cases r1)
      case (Some st)
      with False adv Cons.prems(5) have "r = Some st" "p' = p1" by simp_all
      with step Some polled_ok_stop [OF wf a(1)] adv show ?thesis by simp
    next
      case None
      note bound = counted_next [OF wf a adv [unfolded None] False Cons.prems(4)]
      show ?thesis
      proof (cases "pc_concurrency (po_cfg p1) \<le> po_in_flight p1")
        case True
        with False adv None Cons.prems(5) have r: "r = Some (StatePoolWaitingAtCapacity (pool_next_due p1))" "p' = p1"
          by auto
        have "card (counted skip as p1) \<le> card (active_queries p1)"
          by (intro card_mono) (auto simp: counted_def active_queries_def)
        with True bound r have "polled_ok skip (a # as) p r p'" by (simp add: polled_ok_def)
        moreover have "pool_step_ok kd T ok p r p'" using step None r by (simp add: pool_step_ok_def)
        ultimately show ?thesis by blast
      next
        case nocap: False
        with False adv None Cons.prems(5) have poll: "poll_queries kd T now skip as p1 = (r, p')" by simp
        from step None have wf1: "pool_wf kd T ok p1" "po_queries p1 = po_queries p"
          by (simp_all add: pool_step_ok_def)
        have "pool_step_ok kd T ok p1 r p' \<and> polled_ok skip as p1 r p'"
          using Cons.prems(2,3) wf1(2) by (intro Cons.IH [OF wf1(1) _ _ bound poll]) simp_all
        then show ?thesis
          using pool_step_ok_trans step None polled_ok_next [OF wf a(1) adv [unfolded None]] by blast
      qed
    qed
  qed
qed

text \<open>An event that adds a query.\<close>

lemma new_query_id: "new_query kd io self i target msg it known cfg = Inr q \<Longrightarrow> q_id q = i"
  by (auto simp: new_query_def split: option.splits prod.splits)

lemma new_find_closer_query_id:
  "new_find_closer_query kd io self i target it known cfg = Inr q \<Longrightarrow> q_id q = i"
  by (auto simp: new_find_closer_query_def split: sum.splits dest: new_query_id)

lemma fresh_running: "fresh_query kd (closest_iter kd T) (closest_valid kd T ok) q \<Longrightarrow> running kd T ok q"
  by (simp add: fresh_query_def running_def)

lemma insert_started:
  assumes wf: "pool_wf kd T ok p" and i: "po_index p i = None"
    and r: "\<And>q. r = Inr q \<Longrightarrow> started_query kd T q \<and> q_id q = i"
  shows "pool_wf kd T ok (snd (insert_query i r p))"
proof (cases r)
  case (Inl e)
  with wf show ?thesis by (simp add: insert_query_def)
next
  case (Inr q)
  with insert_query_wf [OF wf fresh_running [OF started_fresh]] r i show ?thesis by blast
qed

lemma pool_add_wf:
  assumes wf: "pool_wf kd T ok p"
  shows "pool_wf kd T ok (snd (pool_add_query kd T i target msg known num p))"
    and "pool_wf kd T ok (snd (pool_add_find_closer kd T i target known num p))"
  unfolding pool_add_query_def pool_add_find_closer_def
  using wf
  by (auto intro!: insert_started [OF wf] dest: started_query.plain started_query.find_closer
      new_query_id new_find_closer_query_id)

lemma insert_query_keeps:
  "j \<noteq> i \<Longrightarrow> po_index (snd (insert_query i r p)) j = po_index p j"
  "po_cfg (snd (insert_query i r p)) = po_cfg p"
  "po_in_flight (snd (insert_query i r p)) = po_in_flight p"
  by (auto simp: insert_query_def split: sum.splits)

text \<open>An event handled by a query of the pool.\<close>

lemma event_query_ok:
  assumes wf: "pool_wf kd T ok p" and zero: "po_in_flight p = 0"
    and ev: "event_query kd T now i qev p = (r, skip, p')"
  shows "pool_step_ok kd T ok p r p' \<and> (\<forall>d. r \<noteq> Some (StatePoolIdle d) \<and>
      r \<noteq> Some (StatePoolWaitingWithCapacity d) \<and> r \<noteq> Some (StatePoolWaitingAtCapacity d)) \<and>
    (r = None \<longrightarrow>
      (skip = InvalidActivityID \<and> po_in_flight p' = 0) \<or>
      (po_in_flight p' = 1 \<and> (\<exists>a \<in> active_queries p'. q_id (query_at p' a) = skip)))"
proof (cases "po_index p i")
  case None
  with ev wf zero show ?thesis by (simp add: event_query_def pool_step_ok_def)
next
  case (Some a)
  with wf have a: "a \<in> set (po_queries p)" by (auto simp: pool_wf_def)
  from Some ev have adv: "advance_query kd T now a qev p = (r, p')" and skip: "skip = q_id (query_at p' a)"
    by (auto simp: event_query_def split: prod.splits)
  note step = advance_query_step [OF wf a adv]
  show ?thesis
  proof (cases r)
    case None
    note w = waits_counted [OF wf a adv [unfolded None]]
    with step skip zero None show ?thesis by auto
  next
    case (Some st)
    from wf a adv have "r \<noteq> Some (StatePoolIdle d) \<and> r \<noteq> Some (StatePoolWaitingWithCapacity d) \<and>
        r \<noteq> Some (StatePoolWaitingAtCapacity d)" for d
      by (cases rule: advance_query_cases) auto
    with step Some show ?thesis by simp
  qed
qed

lemma handle_event_ok:
  assumes wf: "pool_wf kd T ok p" and zero: "po_in_flight p = 0"
    and ev: "handle_pool_event kd T now ev p = (r, skip, p')"
  obtains p1 where "pool_step_ok kd T ok p1 r p'" "po_in_flight p1 = 0" "po_cfg p1 = po_cfg p"
    "\<forall>j. adds_query ev \<noteq> Some j \<longrightarrow> po_index p1 j = po_index p j"
    "\<forall>d. r \<noteq> Some (StatePoolIdle d) \<and> r \<noteq> Some (StatePoolWaitingWithCapacity d) \<and>
       r \<noteq> Some (StatePoolWaitingAtCapacity d)"
    "r = None \<Longrightarrow> (skip = InvalidActivityID \<and> po_in_flight p' = 0) \<or>
      (po_in_flight p' = 1 \<and> (\<exists>a \<in> active_queries p'. q_id (query_at p' a) = skip))"
proof (cases "adds_query ev = None")
  case True
  then obtain i qev where "event_query kd T now i qev p = (r, skip, p') \<or>
      (r = None \<and> skip = InvalidActivityID \<and> p' = p)"
    using ev by (cases ev) (auto simp: adds_query_def)
  then show thesis
  proof
    assume "event_query kd T now i qev p = (r, skip, p')"
    from event_query_ok [OF wf zero this] zero show thesis by (intro that [of p]) auto
  next
    assume "r = None \<and> skip = InvalidActivityID \<and> p' = p"
    with wf zero show thesis by (intro that [of p]) (auto simp: pool_step_ok_def)
  qed
next
  case False
  with ev have r: "r = None" "skip = InvalidActivityID"
    by (cases ev; auto simp: adds_query_def)+
  from False ev pool_add_wf [OF wf] have wf': "pool_wf kd T ok p'"
    by (cases ev) (auto simp: adds_query_def)
  from False ev zero have "po_in_flight p' = 0" "po_cfg p' = po_cfg p"
    "\<forall>j. adds_query ev \<noteq> Some j \<longrightarrow> po_index p' j = po_index p j"
    by (cases ev; auto simp: adds_query_def pool_add_query_def pool_add_find_closer_def insert_query_keeps)+
  with r wf' show thesis by (intro that [of p']) (auto simp: pool_step_ok_def)
qed

lemma poll_all_ok:
  assumes wf: "pool_wf kd T ok p" and poll: "poll_queries kd T now skip (po_queries p) p = (r, p')"
    and skip: "(skip = InvalidActivityID \<and> po_in_flight p = 0) \<or>
      (po_in_flight p = 1 \<and> (\<exists>a \<in> active_queries p. q_id (query_at p a) = skip))"
  shows "pool_step_ok kd T ok p r p'" "r = Some st \<Longrightarrow> waiting_ok st p'"
    "r = None \<Longrightarrow> waiting_ok (if 0 < po_in_flight p' then StatePoolWaitingWithCapacity (pool_next_due p')
       else StatePoolIdle (pool_next_due p')) p'"
proof -
  have fin: "finite (counted skip (po_queries p) p)" by (simp add: counted_def active_queries_def)
  have "po_in_flight p \<le> int (card (counted skip (po_queries p) p))"
  proof (cases "po_in_flight p = 0")
    case False
    with skip obtain a where "a \<in> counted skip (po_queries p) p" "po_in_flight p = 1"
      by (auto simp: counted_def)
    then show ?thesis using fin card_gt_0_iff [of "counted skip (po_queries p) p"] by fastforce
  qed simp
  with poll_queries_ok [OF wf subset_refl _ _ poll] wf
  show step: "pool_step_ok kd T ok p r p'" and st: "r = Some st \<Longrightarrow> waiting_ok st p'"
    by (auto simp: pool_wf_def polled_ok_def waiting_ok_def)
  have polled: "polled_ok skip (po_queries p) p r p'"
    using poll_queries_ok [OF wf subset_refl _ \<open>po_in_flight p \<le> _\<close> poll] wf by (simp add: pool_wf_def)
  assume r: "r = None"
  from step r have queries: "po_queries p' = po_queries p" by (simp add: pool_step_ok_def)
  have active: "a \<in> active_queries p' \<and> 0 < po_in_flight p'"
    if a: "a \<in> set (po_queries p)" "q_id (query_at p a) \<noteq> InvalidActivityID" for a
  proof (cases "q_id (query_at p a) = skip")
    case True
    with skip a obtain b where "b \<in> active_queries p" "q_id (query_at p b) = skip" "po_in_flight p = 1" by auto
    with True pool_wf_ids [OF wf a(1), of b] polled r show ?thesis
      by (auto simp: active_queries_def polled_ok_def)
  next
    case False
    with polled r a skip show ?thesis by (auto simp: polled_ok_def)
  qed
  with polled r queries show "waiting_ok (if 0 < po_in_flight p'
      then StatePoolWaitingWithCapacity (pool_next_due p') else StatePoolIdle (pool_next_due p')) p'"
    by (auto simp: waiting_ok_def polled_ok_def)
qed

lemma pool_step_changed:
  assumes "pool_step_ok kd T ok p1 (Some st) p'"
    "\<forall>j. adds_query ev \<noteq> Some j \<longrightarrow> po_index p1 j = po_index p j"
  shows "pool_changed ev p st p'"
  using assms by (cases "leaving st") (auto simp: pool_step_ok_def pool_changed_def)

lemma pool_advance_ok:
  assumes wf: "pool_wf kd T ok p" and adv: "pool_advance kd T now ev p = (st, p')"
  shows "pool_wf kd T ok p' \<and> po_cfg p' = po_cfg p \<and> pool_changed ev p st p' \<and> waiting_ok st p'"
proof -
  from wf have wf0: "pool_wf kd T ok (p\<lparr>po_in_flight := 0\<rparr>)" "po_in_flight (p\<lparr>po_in_flight := 0\<rparr>) = 0" by simp_all
  obtain r skip p2 where ev: "handle_pool_event kd T now ev (p\<lparr>po_in_flight := 0\<rparr>) = (r, skip, p2)"
    by (metis surj_pair)
  from handle_event_ok [OF wf0 ev] obtain p1 where p1: "pool_step_ok kd T ok p1 r p2" "po_cfg p1 = po_cfg p"
    "\<forall>j. adds_query ev \<noteq> Some j \<longrightarrow> po_index p1 j = po_index p j"
    and r: "\<forall>d. r \<noteq> Some (StatePoolIdle d) \<and> r \<noteq> Some (StatePoolWaitingWithCapacity d) \<and>
       r \<noteq> Some (StatePoolWaitingAtCapacity d)"
    and skip: "r = None \<Longrightarrow> (skip = InvalidActivityID \<and> po_in_flight p2 = 0) \<or>
      (po_in_flight p2 = 1 \<and> (\<exists>a \<in> active_queries p2. q_id (query_at p2 a) = skip))"
    by auto
  show ?thesis
  proof (cases r)
    case (Some st0)
    with adv ev have st: "st = st0" "p' = p2" by (simp_all add: pool_advance_def)
    with p1 Some r pool_step_changed [of p1 st p'] show ?thesis
      by (auto simp: pool_step_ok_def waiting_ok_def)
  next
    case None
    show ?thesis
    proof (cases "po_queries p2 = []")
      case True
      with adv ev None have "st = StatePoolIdle zero_time" "p' = p2" by (simp_all add: pool_advance_def)
      with p1 None True show ?thesis
        by (auto simp: pool_step_ok_def waiting_ok_def pool_changed_def pool_next_due_def)
    next
      case False
      obtain r1 p3 where poll: "poll_queries kd T now skip (po_queries p2) p2 = (r1, p3)" by fastforce
      from p1 None have wf2: "pool_wf kd T ok p2" by (simp add: pool_step_ok_def)
      from poll_all_ok [OF wf2 poll skip [OF None]]
      have ok: "pool_step_ok kd T ok p2 r1 p3" "\<And>st. r1 = Some st \<Longrightarrow> waiting_ok st p3"
        "r1 = None \<Longrightarrow> waiting_ok (if 0 < po_in_flight p3 then StatePoolWaitingWithCapacity (pool_next_due p3)
           else StatePoolIdle (pool_next_due p3)) p3" by blast+
      from adv ev None False poll have st: "p' = p3"
        "st = (case r1 of Some s \<Rightarrow> s | None \<Rightarrow> if 0 < po_in_flight p3
           then StatePoolWaitingWithCapacity (pool_next_due p3) else StatePoolIdle (pool_next_due p3))"
        by (auto simp: pool_advance_def split: option.splits if_splits)
      from p1 None have index: "\<forall>j. adds_query ev \<noteq> Some j \<longrightarrow> po_index p2 j = po_index p j" "po_cfg p2 = po_cfg p"
        by (simp_all add: pool_step_ok_def)
      have "pool_step_ok kd T ok p2 (Some st) p3"
        using ok(1) st(2) by (cases r1) (auto simp: pool_step_ok_def)
      then show ?thesis
        using pool_step_changed [OF _ index(1)] ok(2,3) st index(2)
        by (cases r1) (auto simp: pool_step_ok_def)
    qed
  qed
qed

end

end
