(* ===== verification/QueryPoolTheorems.thy ===== *)
theory QueryPoolTheorems
  imports QueryPoolFacts TinyNetwork
begin

text \<open>The properties of the query pool, with their instances on the tiny network.\<close>

section \<open>Runs of a pool\<close>

fun pool_run ::
  "('k, 'n) kad_ops \<Rightarrow> ('k, 'n node_status, 'tr) trie_ops \<Rightarrow> (time \<times> ('k, 'n, 'm) pool_event) list \<Rightarrow>
     ('k, 'n, 'm, 'tr) query_pool \<Rightarrow> ('k, 'n, 'm) pool_state list \<times> ('k, 'n, 'm, 'tr) query_pool" where
  "pool_run kd T [] p = ([], p)"
| "pool_run kd T ((now, ev) # evs) p =
     (let (st, p1) = pool_advance kd T now ev p; (sts, p2) = pool_run kd T evs p1 in (st # sts, p2))"

definition pool_reached ::
  "('k, 'n) kad_ops \<Rightarrow> ('k, 'n node_status, 'tr) trie_ops \<Rightarrow> (time \<times> ('k, 'n, 'm) pool_event) list \<Rightarrow>
     ('k, 'n, 'm, 'tr) query_pool \<Rightarrow> bool" where
  "pool_reached kd T evs p \<longleftrightarrow>
     (\<exists>self cfg p0. new_pool self cfg = Inr p0 \<and> p = snd (pool_run kd T evs p0))"

text \<open>The due times the pool looks at.\<close>

definition pool_due_times :: "('k, 'n, 'm, 'tr) query_pool \<Rightarrow> time list" where
  "pool_due_times p = filter (\<lambda>t. t \<noteq> 0)
     (concat (map (\<lambda>a. [q_next_due (query_at p a), q_deadline (query_at p a)]) (po_queries p)))"

lemma foldl_pool_due: "foldl pool_due_step e ts = earliest_from e (filter (\<lambda>t. t \<noteq> 0) ts)"
  by (induction ts arbitrary: e) (auto simp: pool_due_step_def time_defs)

lemma pool_next_due_eq:
  "pool_next_due p = (if pool_due_times p = [] then 0 else Min (set (pool_due_times p)))"
proof -
  have "foldl (\<lambda>e a. foldl pool_due_step e [q_next_due (query_at p a), q_deadline (query_at p a)]) e as =
     foldl pool_due_step e (concat (map (\<lambda>a. [q_next_due (query_at p a), q_deadline (query_at p a)]) as))" for e as
    by (induction as arbitrary: e) simp_all
  then have "pool_next_due p = earliest_from 0 (pool_due_times p)"
    unfolding pool_next_due_def pool_due_times_def by (simp add: foldl_pool_due zero_time_def del: foldl.simps)
  then show ?thesis by (subst (asm) earliest_from_zero) (simp_all add: pool_due_times_def)
qed

context kad_node_trie
begin

lemma pool_run_wf: "pool_wf kd T ok p \<Longrightarrow> pool_wf kd T ok (snd (pool_run kd T evs p))"
proof (induction evs arbitrary: p)
  case (Cons e evs)
  obtain now ev st p1 where e: "e = (now, ev)" "pool_advance kd T now ev p = (st, p1)" by (metis surj_pair)
  with pool_advance_ok [OF Cons.prems e(2)] Cons.IH [of p1] show ?case by (simp add: case_prod_beta)
qed simp

lemma pool_reached_wf: "pool_reached kd T evs p \<Longrightarrow> pool_wf kd T ok p"
proof -
  have "pool_wf kd T ok p0" if "new_pool self cfg = Inr p0" for self cfg and p0 :: "('k, 'n, 'm, 'tr) query_pool"
    using that by (auto simp: new_pool_def pool_wf_def split: option.splits)
  then show "pool_reached kd T evs p \<Longrightarrow> pool_wf kd T ok p"
    by (auto simp: pool_reached_def intro: pool_run_wf)
qed

end

section \<open>The properties\<close>

text \<open>
  C6: whatever events a pool is given, its slice lists each running query once, its index finds
  a query exactly under its activity id, and every query in it is unfinished with its requests
  in flight accounted for and within the concurrency of a query.
\<close>

theorem pool_index_agrees:
  assumes "kad_node_trie kd T ok" "pool_reached kd T evs p"
  shows "distinct (po_queries p) \<and>
    (\<forall>i a. po_index p i = Some a \<longleftrightarrow> a \<in> set (po_queries p) \<and> q_id (query_at p a) = i) \<and>
    (\<forall>a \<in> set (po_queries p). \<not> q_finished (query_at p a) \<and>
       q_in_flight (query_at p a) = waiting_count (closest_iter kd T) (query_at p a) \<and>
       q_in_flight (query_at p a) \<le> qc_concurrency (q_cfg (query_at p a)))"
  using kad_node_trie.pool_reached_wf [OF assms] by (auto simp: pool_wf_def running_def query_wf_def)

text \<open>
  C7: an advance of the pool that reports that a query finished or timed out has removed exactly
  that query, which was in the pool or has just been added; one that reports anything else removes none, and the query a request is reported
  for is in the pool.
\<close>

theorem pool_removes_finished:
  assumes "kad_node_trie kd T ok" "pool_reached kd T evs p" "pool_advance kd T now ev p = (st, p')"
  shows "(\<forall>j. adds_query ev \<noteq> Some j \<longrightarrow> po_index p' j = (if leaving st = Some j then None else po_index p j)) \<and>
    (\<forall>i. leaving st = Some i \<longrightarrow> (po_index p i \<noteq> None \<or> adds_query ev = Some i) \<and> po_index p' i = None) \<and>
    (\<forall>i. asking st = Some i \<longrightarrow> po_index p' i \<noteq> None)"
  using kad_node_trie.pool_advance_ok [OF assms(1) kad_node_trie.pool_reached_wf [OF assms(1,2)] assms(3)]
  by (simp add: pool_changed_def)

text \<open>
  A pool reports that it waits only when it can do nothing else: at capacity it has at least
  \<open>Concurrency\<close> queries with requests in flight, otherwise every query (but one with the invalid
  id) has a request in flight, and it is idle only when no such query is left. The due time it
  reports is the earliest of the due times and deadlines of its queries.
\<close>

theorem pool_waits_when_busy:
  assumes "kad_node_trie kd T ok" "pool_reached kd T evs p" "pool_advance kd T now ev p = (st, p')"
    "st = StatePoolWaitingAtCapacity d \<or> st = StatePoolWaitingWithCapacity d \<or> st = StatePoolIdle d"
  shows "d = (if pool_due_times p' = [] then 0 else Min (set (pool_due_times p'))) \<and>
    (if st = StatePoolWaitingAtCapacity d then pc_concurrency (po_cfg p') \<le> int (card (active_queries p'))
     else (\<forall>a \<in> set (po_queries p'). q_id (query_at p' a) \<noteq> InvalidActivityID \<longrightarrow> a \<in> active_queries p')) \<and>
    (st = StatePoolIdle d \<longrightarrow> (\<forall>a \<in> set (po_queries p'). q_id (query_at p' a) = InvalidActivityID))"
  using kad_node_trie.pool_advance_ok [OF assms(1) kad_node_trie.pool_reached_wf [OF assms(1,2)] assms(3)]
    assms(4)
  by (auto simp: waiting_ok_def pool_next_due_eq)

section \<open>On the tiny network\<close>

type_synonym tiny_pool = "(tiny_key, tiny_node, tiny_message, (tiny_key \<times> tiny_node node_status) list) query_pool"

type_synonym tiny_pool_event = "(tiny_key, tiny_node, tiny_message) pool_event"

definition tiny_pool_config :: pool_config where
  "tiny_pool_config = \<lparr>pc_concurrency = 1, pc_timeout = 100, pc_replication = 20,
     pc_query_concurrency = 1, pc_request_timeout = 10, pc_tracer = True\<rparr>"

definition tiny_new_pool :: tiny_pool where
  "tiny_new_pool = \<lparr>po_self = new_node 0, po_queries = [], po_index = (\<lambda>_. None),
     po_cfg = tiny_pool_config, po_in_flight = 0, po_heap = []\<rparr>"

abbreviation tiny_pool_after :: "(time \<times> tiny_pool_event) list \<Rightarrow> tiny_pool" where
  "tiny_pool_after evs \<equiv> snd (pool_run tiny_kad tiny_trie evs tiny_new_pool)"

lemma tiny_pool_reached: "pool_reached tiny_kad tiny_trie evs (tiny_pool_after evs)"
proof -
  have "new_pool (new_node 0) (Some tiny_pool_config) = Inr tiny_new_pool"
    by (simp add: tiny_new_pool_def new_pool_def pool_config_validate_def tiny_pool_config_def)
  then show ?thesis unfolding pool_reached_def by blast
qed

text \<open>One query is added, and its request is sent.\<close>

definition tiny_pool_one :: "(time \<times> tiny_pool_event) list" where
  "tiny_pool_one = [(1, EventPoolAddFindCloserQuery ''a'' 1 [new_node 2] 1)]"

definition tiny_pool_poll :: "(tiny_key, tiny_node, tiny_message) pool_state \<times> tiny_pool" where
  "tiny_pool_poll = pool_advance tiny_kad tiny_trie 2 EventPoolPoll (tiny_pool_after tiny_pool_one)"

lemma tiny_pool_poll_eq:
  "pool_advance tiny_kad tiny_trie 2 EventPoolPoll (tiny_pool_after tiny_pool_one) =
     (StatePoolWaitingAtCapacity 11, snd tiny_pool_poll)"
proof -
  have "fst tiny_pool_poll = StatePoolWaitingAtCapacity 11" by code_simp
  then show ?thesis by (simp add: tiny_pool_poll_def prod_eq_iff)
qed

theorem pool_index_agrees_witness:
  "distinct (po_queries (tiny_pool_after tiny_pool_one))"
  using pool_index_agrees [OF tiny_trie_spec tiny_pool_reached] by simp

theorem pool_removes_finished_witness:
  "po_index (snd tiny_pool_poll) ''a'' = po_index (tiny_pool_after tiny_pool_one) ''a''"
  using pool_removes_finished [OF tiny_trie_spec tiny_pool_reached tiny_pool_poll_eq]
  by (simp add: adds_query_def)

theorem pool_waits_when_busy_witness:
  "pc_concurrency (po_cfg (snd tiny_pool_poll)) \<le> int (card (active_queries (snd tiny_pool_poll)))"
  using pool_waits_when_busy [OF tiny_trie_spec tiny_pool_reached tiny_pool_poll_eq disjI1 [OF refl]]
  by simp

section \<open>One query too many\<close>

text \<open>
  The check against the concurrency limit follows the poll of a query; the query that handled
  the event of this advance is skipped together with the check. With a limit of one, an event
  for a query that goes on waiting lets the next query start.
\<close>

definition tiny_pool_two :: "(time \<times> tiny_pool_event) list" where
  "tiny_pool_two = tiny_pool_one @
     [(2, EventPoolAddFindCloserQuery ''b'' 1 [new_node 8] 1),
      (3, EventPoolNodeFailure ''a'' (new_node 9) ErrNodeNotFound)]"

lemma tiny_pool_two_active:
  "map (\<lambda>a. q_in_flight (query_at (tiny_pool_after tiny_pool_two) a)) [0, 1] = [1, 1] \<and>
   po_queries (tiny_pool_after tiny_pool_two) = [0, 1] \<and>
   pc_concurrency (po_cfg (tiny_pool_after tiny_pool_two)) = 1"
  by code_simp

text \<open>
  A pool can have more queries in flight than its concurrency allows: a run of a pool with a
  concurrency of one leaves two queries waiting for answers.
\<close>

theorem pool_exceeds_concurrency:
  "\<exists>evs. pool_reached tiny_kad tiny_trie evs (tiny_pool_after tiny_pool_two) \<and>
     pc_concurrency (po_cfg (tiny_pool_after tiny_pool_two)) <
       int (card (active_queries (tiny_pool_after tiny_pool_two)))"
proof -
  have "active_queries (tiny_pool_after tiny_pool_two) = {0, 1}"
    using tiny_pool_two_active by (auto simp: active_queries_def)
  with tiny_pool_two_active tiny_pool_reached show ?thesis by auto
qed

end
