(* ===== verification/RoutingTable.thy ===== *)
theory RoutingTable
  imports Tiny
begin

text \<open>
  The interface of the routing table, which is a type of \<open>go-libdht\<close>: \<open>kad.RoutingTable\<close> and the
  two methods \<open>RoutingTableCpl\<close> of \<open>routing/probe.go\<close> adds to it. The machines take the table as a
  value they hold and the operations as a parameter.
\<close>

section \<open>The interface\<close>

text \<open>
  \<open>rt_add_node\<close> is \<open>AddNode\<close>, \<open>rt_remove_key\<close> is \<open>RemoveKey\<close> (its result is never used),
  \<open>rt_nearest_nodes\<close> is \<open>NearestNodes\<close>, \<open>rt_get_node\<close> is \<open>GetNode\<close>, \<open>rt_cpl\<close> and \<open>rt_cpl_size\<close>
  are \<open>Cpl\<close> and \<open>CplSize\<close>.
\<close>

record ('k, 'n, 'rt) rt_ops =
  rt_add_node :: "'n \<Rightarrow> 'rt \<Rightarrow> bool \<times> 'rt"
  rt_remove_key :: "'k \<Rightarrow> 'rt \<Rightarrow> 'rt"
  rt_nearest_nodes :: "'rt \<Rightarrow> 'k \<Rightarrow> int \<Rightarrow> 'n list"
  rt_get_node :: "'rt \<Rightarrow> 'k \<Rightarrow> 'n option"
  rt_cpl :: "'rt \<Rightarrow> 'k \<Rightarrow> int"
  rt_cpl_size :: "'rt \<Rightarrow> int \<Rightarrow> int"

text \<open>
  The documented behaviour: a node that is added is found under its key, a removed key is not
  found, other keys are as they were, and a table finds a node only under the node's key.
\<close>

locale routing_table =
  fixes kd :: "('k, 'n) kad_ops"
    and rt :: "('k, 'n, 'rt) rt_ops"
    and table_ok :: "'rt \<Rightarrow> bool"
  assumes add_ok: "table_ok t \<Longrightarrow> table_ok (snd (rt_add_node rt n t))"
    and remove_ok: "table_ok t \<Longrightarrow> table_ok (rt_remove_key rt k t)"
    and add_get: "table_ok t \<Longrightarrow> fst (rt_add_node rt n t) \<Longrightarrow>
      rt_get_node rt (snd (rt_add_node rt n t)) (node_key kd n) = Some n"
    and add_get_other: "table_ok t \<Longrightarrow> k \<noteq> node_key kd n \<Longrightarrow>
      rt_get_node rt (snd (rt_add_node rt n t)) k = rt_get_node rt t k"
    and remove_get: "table_ok t \<Longrightarrow> rt_get_node rt (rt_remove_key rt k t) k' =
      (if k' = k then None else rt_get_node rt t k')"
    and get_key: "table_ok t \<Longrightarrow> rt_get_node rt t k = Some n \<Longrightarrow> node_key kd n = k"
begin

lemma remove_absent: "table_ok t \<Longrightarrow> rt_get_node rt (rt_remove_key rt k t) k = None"
  by (simp add: remove_get)

lemma get_after_add:
  "table_ok t \<Longrightarrow> fst (rt_add_node rt n t) \<Longrightarrow> rt_get_node rt (snd (rt_add_node rt n t)) k =
     (if k = node_key kd n then Some n else rt_get_node rt t k)"
  by (simp add: add_get add_get_other)

end

section \<open>A table kept as a list\<close>

text \<open>
  A table of unbounded size around a local key, as a list of nodes with distinct keys: the
  instance the witnesses run on.
\<close>

record ('k, 'n) list_table =
  lt_self :: 'k
  lt_nodes :: "'n list"

definition list_table_ops :: "('k, 'n) kad_ops \<Rightarrow> ('k, 'n, ('k, 'n) list_table) rt_ops" where
  "list_table_ops kd =
     \<lparr>rt_add_node = (\<lambda>n t. if node_key kd n \<in> node_key kd ` set (lt_nodes t) then (False, t)
                            else (True, t\<lparr>lt_nodes := lt_nodes t @ [n]\<rparr>)),
      rt_remove_key = (\<lambda>k t. t\<lparr>lt_nodes := filter (\<lambda>n. node_key kd n \<noteq> k) (lt_nodes t)\<rparr>),
      rt_nearest_nodes = (\<lambda>t k num. take (nat num) (map snd (sort_near kd k (map (\<lambda>n. (node_key kd n, n)) (lt_nodes t))))),
      rt_get_node = (\<lambda>t k. List.find (\<lambda>n. node_key kd n = k) (lt_nodes t)),
      rt_cpl = (\<lambda>t k. key_cpl kd k (lt_self t)),
      rt_cpl_size = (\<lambda>t c. count_of (\<lambda>n. key_cpl kd (node_key kd n) (lt_self t) = c) (lt_nodes t))\<rparr>"

definition list_table_ok :: "('k, 'n) kad_ops \<Rightarrow> ('k, 'n) list_table \<Rightarrow> bool" where
  "list_table_ok kd t \<longleftrightarrow> distinct (map (node_key kd) (lt_nodes t))"

lemma find_append: "List.find P (xs @ ys) = (case List.find P xs of None \<Rightarrow> List.find P ys | Some x \<Rightarrow> Some x)"
  by (induction xs) auto

lemma find_filter_key:
  "List.find (\<lambda>n. f n = k') (filter (\<lambda>n. f n \<noteq> k) xs) = (if k' = k then None else List.find (\<lambda>n. f n = k') xs)"
  by (induction xs) auto

lemma find_None_key: "k \<notin> f ` set xs \<Longrightarrow> List.find (\<lambda>n. f n = k) xs = None"
  by (auto simp: find_None_iff)

lemma find_Some_key: "List.find (\<lambda>n. f n = k) xs = Some x \<Longrightarrow> f x = k"
  by (induction xs) (auto split: if_splits)

interpretation list_table: routing_table kd "list_table_ops kd" "list_table_ok kd" for kd
  by unfold_locales
    (auto simp: list_table_ops_def list_table_ok_def find_append find_filter_key find_None_key
      distinct_map_filter split: option.splits dest: find_Some_key)

end
