(* ===== verification/Include.thy ===== *)
theory Include
  imports RoutingTable "HOL-Library.AList"
begin

text \<open>
  \<open>routing/include.go\<close>: the state machine that checks candidates before they enter the routing
  table. The queue of candidates is bounded and holds a node once; the checks in progress are a
  map from the hexadecimal key to the check, kept as an association list (\<open>len\<close> and \<open>range\<close> of
  the map do not depend on its order). The metric instruments are not modelled.
\<close>

section \<open>The candidate queue\<close>

text \<open>\<open>nodeQueue\<close>: a bounded queue of unique nodes.\<close>

record 'n node_queue =
  nq_capacity :: int
  nq_nodes :: "'n list"
  nq_keys :: "string set"

definition new_node_queue :: "int \<Rightarrow> 'n node_queue" where
  "new_node_queue capacity = \<lparr>nq_capacity = capacity, nq_nodes = [], nq_keys = {}\<rparr>"

definition enqueue :: "('k, 'n) kad_ops \<Rightarrow> 'n \<Rightarrow> 'n node_queue \<Rightarrow> bool \<times> 'n node_queue" where
  "enqueue kd n q =
     (if int (length (nq_nodes q)) = nq_capacity q then (False, q)
      else if key_hex kd (node_key kd n) \<in> nq_keys q then (False, q)
      else (True, q\<lparr>nq_nodes := nq_nodes q @ [n],
                    nq_keys := insert (key_hex kd (node_key kd n)) (nq_keys q)\<rparr>))"

definition dequeue :: "('k, 'n) kad_ops \<Rightarrow> 'n node_queue \<Rightarrow> 'n option \<times> 'n node_queue" where
  "dequeue kd q =
     (case nq_nodes q of
        [] \<Rightarrow> (None, q)
      | n # ns \<Rightarrow> (Some n, q\<lparr>nq_nodes := ns, nq_keys := nq_keys q - {key_hex kd (node_key kd n)}\<rparr>))"

definition has_capacity :: "'n node_queue \<Rightarrow> bool" where
  "has_capacity q \<longleftrightarrow> int (length (nq_nodes q)) < nq_capacity q"

definition queue_len :: "'n node_queue \<Rightarrow> nat" where
  "queue_len q = length (nq_nodes q)"

section \<open>The machine\<close>

record include_config =
  inc_queue_capacity :: int
  inc_concurrency :: int
  inc_timeout :: duration
  inc_tracer :: bool
  inc_meter :: bool

definition include_config_validate :: "include_config \<Rightarrow> go_error option" where
  "include_config_validate cfg = first_error ''IncludeConfig''
     [(inc_concurrency cfg < 1, ''concurrency must be greater than zero''),
      (inc_timeout cfg < 1, ''timeout must be greater than zero''),
      (inc_queue_capacity cfg < 1, ''queue size must be greater than zero''),
      (\<not> inc_tracer cfg, ''tracer must not be nil''),
      (\<not> inc_meter cfg, ''meter must not be nil'')]"

definition default_include_config :: include_config where
  "default_include_config =
     \<lparr>inc_queue_capacity = 128, inc_concurrency = 3, inc_timeout = minute,
      inc_tracer = True, inc_meter = True\<rparr>"

record 'n check =
  ck_node :: 'n
  ck_deadline :: time

datatype 'n include_state =
    StateIncludeConnectivityCheck 'n
  | StateIncludeIdle
  | StateIncludeWaitingAtCapacity time
  | StateIncludeWaitingWithCapacity time
  | StateIncludeWaitingFull time
  | StateIncludeRoutingUpdated 'n

datatype 'n include_event =
    EventIncludePoll
  | EventIncludeAddCandidate 'n
  | EventIncludeConnectivityCheckSuccess 'n
  | EventIncludeConnectivityCheckFailure 'n go_error
  | EventIncludeConnectivityCheckDropped 'n

record ('n, 'rt) include_machine =
  in_rt :: 'rt
  in_checks :: "(string \<times> 'n check) list"
  in_candidates :: "'n node_queue"
  in_cfg :: include_config
  in_candidate_count :: nat

definition new_include :: "'rt \<Rightarrow> include_config option \<Rightarrow> ('n, 'rt) include_machine go_result" where
  "new_include rt cfg_opt =
     (case (case cfg_opt of None \<Rightarrow> None | Some cfg \<Rightarrow> include_config_validate cfg) of
        Some e \<Rightarrow> Inl e
      | None \<Rightarrow>
          (let cfg = (case cfg_opt of None \<Rightarrow> default_include_config | Some cfg \<Rightarrow> cfg)
           in Inr \<lparr>in_rt = rt, in_checks = [], in_candidates = new_node_queue (inc_queue_capacity cfg),
                   in_cfg = cfg, in_candidate_count = 0\<rparr>))"

text \<open>\<open>nextDue\<close>: the earliest deadline of the checks in progress.\<close>

definition include_next_due :: "('n, 'rt) include_machine \<Rightarrow> time" where
  "include_next_due inc = earliest_from zero_time (map (ck_deadline \<circ> snd) (in_checks inc))"

text \<open>The event; \<open>Some\<close> state where the code returns from within the switch.\<close>

fun handle_include_event ::
  "('k, 'n) kad_ops \<Rightarrow> ('k, 'n, 'rt) rt_ops \<Rightarrow> 'n include_event \<Rightarrow> ('n, 'rt) include_machine \<Rightarrow>
     'n include_state option \<times> ('n, 'rt) include_machine" where
  "handle_include_event kd rt (EventIncludeAddCandidate n) inc =
     (if map_of (in_checks inc) (key_hex kd (node_key kd n)) \<noteq> None then (None, inc)
      else if rt_get_node rt (in_rt inc) (node_key kd n) \<noteq> None then (None, inc)
      else if \<not> has_capacity (in_candidates inc) then (Some (StateIncludeWaitingFull zero_time), inc)
      else (None, inc\<lparr>in_candidates := snd (enqueue kd n (in_candidates inc))\<rparr>))"
| "handle_include_event kd rt (EventIncludeConnectivityCheckSuccess n) inc =
     (case map_of (in_checks inc) (key_hex kd (node_key kd n)) of
        None \<Rightarrow> (None, inc)
      | Some ch \<Rightarrow>
          (let (added, table) = rt_add_node rt n (in_rt inc);
               inc' = inc\<lparr>in_checks := AList.delete (key_hex kd (node_key kd n)) (in_checks inc),
                          in_rt := table\<rparr>
           in if added then (Some (StateIncludeRoutingUpdated (ck_node ch)), inc') else (None, inc')))"
| "handle_include_event kd rt (EventIncludeConnectivityCheckFailure n err) inc =
     (None, inc\<lparr>in_checks := AList.delete (key_hex kd (node_key kd n)) (in_checks inc)\<rparr>)"
| "handle_include_event kd rt (EventIncludeConnectivityCheckDropped n) inc =
     (None, inc\<lparr>in_checks := AList.delete (key_hex kd (node_key kd n)) (in_checks inc)\<rparr>)"
| "handle_include_event kd rt EventIncludePoll inc = (None, inc)"

text \<open>Abandoning the checks that have run out of time.\<close>

definition expire_checks :: "time \<Rightarrow> ('n, 'rt) include_machine \<Rightarrow> ('n, 'rt) include_machine" where
  "expire_checks now inc =
     inc\<lparr>in_checks := filter (\<lambda>(k, ch). \<not> time_after now (ck_deadline ch)) (in_checks inc)\<rparr>"

text \<open>What follows the expiry: wait, or start the check of the next candidate.\<close>

definition include_next ::
  "('k, 'n) kad_ops \<Rightarrow> time \<Rightarrow> ('n, 'rt) include_machine \<Rightarrow> 'n include_state \<times> ('n, 'rt) include_machine" where
  "include_next kd now inc =
     (if int (length (in_checks inc)) = inc_concurrency (in_cfg inc) then
        (if \<not> has_capacity (in_candidates inc)
         then (StateIncludeWaitingFull (include_next_due inc), inc)
         else (StateIncludeWaitingAtCapacity (include_next_due inc), inc))
      else case dequeue kd (in_candidates inc) of
          (None, q) \<Rightarrow>
            (if 0 < length (in_checks inc)
             then (StateIncludeWaitingWithCapacity (include_next_due inc), inc\<lparr>in_candidates := q\<rparr>)
             else (StateIncludeIdle, inc\<lparr>in_candidates := q\<rparr>))
        | (Some n, q) \<Rightarrow>
            (StateIncludeConnectivityCheck n,
             inc\<lparr>in_candidates := q,
                 in_checks := AList.update (key_hex kd (node_key kd n))
                   \<lparr>ck_node = n, ck_deadline = time_add now (inc_timeout (in_cfg inc))\<rparr>
                   (in_checks inc)\<rparr>))"

text \<open>\<open>Advance\<close>; the deferred function records the length of the queue.\<close>

definition include_advance ::
  "('k, 'n) kad_ops \<Rightarrow> ('k, 'n, 'rt) rt_ops \<Rightarrow> time \<Rightarrow> 'n include_event \<Rightarrow> ('n, 'rt) include_machine \<Rightarrow>
     'n include_state \<times> ('n, 'rt) include_machine" where
  "include_advance kd rt now ev inc =
     (let (out, inc') =
        (case handle_include_event kd rt ev inc of
           (Some st, inc1) \<Rightarrow> (st, inc1)
         | (None, inc1) \<Rightarrow> include_next kd now (expire_checks now inc1))
      in (out, inc'\<lparr>in_candidate_count := queue_len (in_candidates inc')\<rparr>))"

section \<open>The queue as a bounded list of distinct nodes\<close>

text \<open>
  What the machine relies on: the queue is a list of nodes with distinct keys, no longer than its
  capacity; a node goes in at the back if there is room and its key is new, and nodes come out at
  the front.
\<close>

locale unique_queue =
  fixes key_of :: "'n \<Rightarrow> 'key"
    and enq :: "'n \<Rightarrow> 'q \<Rightarrow> bool \<times> 'q"
    and deq :: "'q \<Rightarrow> 'n option \<times> 'q"
    and room :: "'q \<Rightarrow> bool"
    and wf :: "'q \<Rightarrow> bool"
    and content :: "'q \<Rightarrow> 'n list"
    and bound :: "'q \<Rightarrow> int"
  assumes queue_bound: "wf q \<Longrightarrow> int (length (content q)) \<le> bound q"
    and queue_distinct: "wf q \<Longrightarrow> distinct (map key_of (content q))"
    and queue_room: "wf q \<Longrightarrow> room q \<longleftrightarrow> int (length (content q)) < bound q"
    and enq_wf: "wf q \<Longrightarrow> wf (snd (enq n q)) \<and> bound (snd (enq n q)) = bound q"
    and enq_content: "wf q \<Longrightarrow> content (snd (enq n q)) =
      (if room q \<and> key_of n \<notin> key_of ` set (content q) then content q @ [n] else content q)"
    and enq_result: "wf q \<Longrightarrow> fst (enq n q) \<longleftrightarrow> room q \<and> key_of n \<notin> key_of ` set (content q)"
    and deq_wf: "wf q \<Longrightarrow> wf (snd (deq q)) \<and> bound (snd (deq q)) = bound q"
    and deq_content: "wf q \<Longrightarrow> content (snd (deq q)) = tl (content q)"
    and deq_result: "wf q \<Longrightarrow> fst (deq q) = (if content q = [] then None else Some (hd (content q)))"
begin

lemma enq_grows: "wf q \<Longrightarrow> set (content (snd (enq n q))) \<subseteq> insert n (set (content q))"
  by (auto simp: enq_content)

lemma deq_front: "wf q \<Longrightarrow> fst (deq q) = Some n \<Longrightarrow> content q = n # content (snd (deq q))"
  by (auto simp: deq_result deq_content split: if_splits)

lemma deq_fresh: "wf q \<Longrightarrow> fst (deq q) = Some n \<Longrightarrow> key_of n \<notin> key_of ` set (content (snd (deq q)))"
  using queue_distinct [of q] deq_front [of q n] by simp

text \<open>A node that went into a queue comes out after those that were there before it.\<close>

lemma enq_deq_order:
  assumes "wf q" "fst (enq n q)"
  shows "content (snd (deq (snd (enq n q)))) = tl (content q @ [n])"
  using assms enq_wf [of q n] by (simp add: deq_content enq_content enq_result)

end

definition node_queue_wf :: "('k, 'n) kad_ops \<Rightarrow> 'n node_queue \<Rightarrow> bool" where
  "node_queue_wf kd q \<longleftrightarrow>
     int (length (nq_nodes q)) \<le> nq_capacity q \<and>
     distinct (map (\<lambda>n. key_hex kd (node_key kd n)) (nq_nodes q)) \<and>
     nq_keys q = (\<lambda>n. key_hex kd (node_key kd n)) ` set (nq_nodes q)"

lemma dequeue_wf:
  "node_queue_wf kd q \<Longrightarrow> node_queue_wf kd (snd (dequeue kd q)) \<and>
     nq_capacity (snd (dequeue kd q)) = nq_capacity q"
  by (auto simp: dequeue_def node_queue_wf_def split: list.splits) (metis image_eqI)

lemma enqueue_wf:
  "node_queue_wf kd q \<Longrightarrow> node_queue_wf kd (snd (enqueue kd n q)) \<and>
     nq_capacity (snd (enqueue kd n q)) = nq_capacity q"
  by (auto simp: enqueue_def node_queue_wf_def)

interpretation nq: unique_queue "\<lambda>n. key_hex kd (node_key kd n)" "enqueue kd" "dequeue kd"
    has_capacity "node_queue_wf kd" nq_nodes nq_capacity for kd
proof (unfold_locales, goal_cases)
  case (4 q n)
  then show ?case by (rule enqueue_wf)
next
  case (7 q)
  then show ?case by (rule dequeue_wf)
qed (auto simp: enqueue_def dequeue_def has_capacity_def node_queue_wf_def split: list.splits)

section \<open>Well-formed machines\<close>

lemma update_new: "k \<notin> fst ` set xs \<Longrightarrow> AList.update k v xs = xs @ [(k, v)]"
  by (induction xs) auto


text \<open>
  The checks are filed under their nodes' keys, there are at most as many as the concurrency
  allows, the queue is well formed, and no node is both queued and being checked.
\<close>

definition include_wf :: "('k, 'n) kad_ops \<Rightarrow> ('n, 'rt) include_machine \<Rightarrow> bool" where
  "include_wf kd inc \<longleftrightarrow>
     distinct (map fst (in_checks inc)) \<and>
     (\<forall>(k, ch) \<in> set (in_checks inc). k = key_hex kd (node_key kd (ck_node ch))) \<and>
     int (length (in_checks inc)) \<le> inc_concurrency (in_cfg inc) \<and>
     node_queue_wf kd (in_candidates inc) \<and>
     nq_capacity (in_candidates inc) = inc_queue_capacity (in_cfg inc) \<and>
     nq_keys (in_candidates inc) \<inter> fst ` set (in_checks inc) = {}"

lemma include_wf_fields [simp]:
  "include_wf kd (inc\<lparr>in_candidate_count := n\<rparr>) = include_wf kd inc"
  "include_wf kd (inc\<lparr>in_rt := t\<rparr>) = include_wf kd inc"
  by (simp_all add: include_wf_def)

text \<open>Dropping checks keeps a machine well formed.\<close>

lemma include_wf_fewer:
  assumes wf: "include_wf kd inc" and sub: "set cs \<subseteq> set (in_checks inc)"
    and d: "distinct (map fst cs)" and len: "length cs \<le> length (in_checks inc)"
  shows "include_wf kd (inc\<lparr>in_checks := cs\<rparr>)"
proof -
  from wf len have "int (length cs) \<le> inc_concurrency (in_cfg inc)" by (simp add: include_wf_def)
  with wf sub d show ?thesis unfolding include_wf_def by auto
qed

lemma include_wf_delete [wf_intros]:
  assumes wf: "include_wf kd inc"
  shows "include_wf kd (inc\<lparr>in_checks := AList.delete k (in_checks inc)\<rparr>)"
proof -
  have len: "length (AList.delete k cs) \<le> length cs" for cs :: "(string \<times> 'b check) list"
    by (simp add: AList.delete_eq)
  have "set (AList.delete k (in_checks inc)) \<subseteq> set (in_checks inc)"
    by (auto simp: AList.delete_eq)
  moreover have "distinct (map fst (AList.delete k (in_checks inc)))"
    using wf by (intro distinct_delete) (simp add: include_wf_def)
  ultimately show ?thesis using include_wf_fewer [OF wf] by (simp add: AList.delete_eq)
qed

lemma expire_checks_wf [wf_intros]:
  assumes wf: "include_wf kd inc"
  shows "include_wf kd (expire_checks now inc)"
  unfolding expire_checks_def
  using wf by (intro include_wf_fewer [OF wf]) (auto simp: include_wf_def distinct_map_filter)

lemma enqueue_keys:
  "nq_keys (snd (enqueue kd n q)) \<subseteq> insert (key_hex kd (node_key kd n)) (nq_keys q)"
  by (auto simp: enqueue_def)

lemma disjoint_grow: "A \<subseteq> insert x B \<Longrightarrow> x \<notin> C \<Longrightarrow> B \<inter> C = {} \<Longrightarrow> A \<inter> C = {}"
  by auto

lemma include_wf_candidates:
  "include_wf kd inc \<Longrightarrow> node_queue_wf kd q \<Longrightarrow> nq_capacity q = nq_capacity (in_candidates inc) \<Longrightarrow>
     nq_keys q \<inter> fst ` set (in_checks inc) = {} \<Longrightarrow> include_wf kd (inc\<lparr>in_candidates := q\<rparr>)"
  by (simp add: include_wf_def)

lemma include_wf_start:
  assumes "include_wf kd inc" "key_hex kd (node_key kd n) \<notin> fst ` set (in_checks inc)"
    "key_hex kd (node_key kd n) \<notin> nq_keys (in_candidates inc)"
    "int (length (in_checks inc)) < inc_concurrency (in_cfg inc)"
  shows "include_wf kd (inc\<lparr>in_checks := AList.update (key_hex kd (node_key kd n))
           \<lparr>ck_node = n, ck_deadline = d\<rparr> (in_checks inc)\<rparr>)"
  using assms by (simp add: include_wf_def update_new)

lemma include_event_wf:
  assumes wf: "include_wf kd inc"
  shows "include_wf kd (snd (handle_include_event kd rt ev inc))"
proof (cases ev)
  case (EventIncludeAddCandidate n)
  let ?q = "in_candidates inc" and ?k = "key_hex kd (node_key kd n)"
  have "nq_keys (snd (enqueue kd n ?q)) \<inter> fst ` set (in_checks inc) = {}"
    if "map_of (in_checks inc) ?k = None"
  proof -
    from that have "?k \<notin> fst ` set (in_checks inc)" by (simp add: map_of_eq_None_iff)
    moreover have "nq_keys ?q \<inter> fst ` set (in_checks inc) = {}" using wf by (simp add: include_wf_def)
    ultimately show ?thesis using disjoint_grow [OF enqueue_keys [of kd n ?q]] by simp
  qed
  moreover have "node_queue_wf kd ?q" using wf by (simp add: include_wf_def)
  ultimately have "include_wf kd (inc\<lparr>in_candidates := snd (enqueue kd n ?q)\<rparr>)"
    if "map_of (in_checks inc) ?k = None"
    using that enqueue_wf [of kd ?q n] by (intro include_wf_candidates [OF wf]) simp_all
  with wf show ?thesis unfolding EventIncludeAddCandidate handle_include_event.simps by simp
next
  case (EventIncludeConnectivityCheckSuccess n)
  with include_wf_delete [OF wf, of "key_hex kd (node_key kd n)"] wf show ?thesis
    by (auto simp: Let_def include_wf_def split: option.splits prod.splits)
qed (use wf include_wf_delete [OF wf] in auto)

lemma include_next_wf:
  assumes wf: "include_wf kd inc"
  shows "include_wf kd (snd (include_next kd now inc))"
proof -
  let ?q = "in_candidates inc"
  from wf have q: "node_queue_wf kd ?q" by (simp add: include_wf_def)
  note deq = dequeue_wf [OF q]
  show ?thesis
  proof (cases "fst (dequeue kd ?q)")
    case None
    then have "snd (dequeue kd ?q) = ?q" by (auto simp: dequeue_def split: list.splits)
    with None wf show ?thesis by (simp add: include_next_def case_prod_beta)
  next
    case (Some n)
    let ?k = "key_hex kd (node_key kd n)"
    from nq.deq_front [OF q Some] have front: "nq_nodes ?q = n # nq_nodes (snd (dequeue kd ?q))" .
    with q have k: "?k \<in> nq_keys ?q" by (simp add: node_queue_wf_def)
    with wf have new: "?k \<notin> fst ` set (in_checks inc)" by (auto simp: include_wf_def)
    have keys: "nq_keys (snd (dequeue kd ?q)) = nq_keys ?q - {?k}"
      using front by (cases "nq_nodes ?q") (auto simp: dequeue_def)
    with wf deq have wf1: "include_wf kd (inc\<lparr>in_candidates := snd (dequeue kd ?q)\<rparr>)"
      by (intro include_wf_candidates [OF wf]) (auto simp: include_wf_def)
    show ?thesis
    proof (cases "int (length (in_checks inc)) = inc_concurrency (in_cfg inc)")
      case True
      with wf show ?thesis by (simp add: include_next_def)
    next
      case False
      with wf have "int (length (in_checks inc)) < inc_concurrency (in_cfg inc)"
        by (simp add: include_wf_def)
      with include_wf_start [OF wf1, of n "time_add now (inc_timeout (in_cfg inc))"] new keys False Some
      show ?thesis by (simp add: include_next_def case_prod_beta)
    qed
  qed
qed

end
