(* ===== verification/IncludeTheorems.thy ===== *)
theory IncludeTheorems
  imports Include TinyNetwork
begin

text \<open>
  The properties of the include machine. A run gives each advance the routing table as other
  machines have left it, so nothing is assumed about the table between two advances.
\<close>

fun include_run ::
  "('k, 'n) kad_ops \<Rightarrow> ('k, 'n, 'rt) rt_ops \<Rightarrow> (time \<times> 'rt \<times> 'n include_event) list \<Rightarrow>
     ('n, 'rt) include_machine \<Rightarrow> ('n, 'rt) include_machine" where
  "include_run kd rt [] inc = inc"
| "include_run kd rt ((now, table, ev) # evs) inc =
     include_run kd rt evs (snd (include_advance kd rt now ev (inc\<lparr>in_rt := table\<rparr>)))"

definition include_reached ::
  "('k, 'n) kad_ops \<Rightarrow> ('k, 'n, 'rt) rt_ops \<Rightarrow> ('n, 'rt) include_machine \<Rightarrow> bool" where
  "include_reached kd rt inc \<longleftrightarrow>
     (\<exists>table cfg evs inc0 t. new_include table cfg = Inr inc0 \<and>
        inc = (include_run kd rt evs inc0)\<lparr>in_rt := t\<rparr>)"

lemma include_advance_eq:
  "include_advance kd rt now ev inc =
     (case handle_include_event kd rt ev inc of
        (Some st, inc1) \<Rightarrow> (st, inc1\<lparr>in_candidate_count := queue_len (in_candidates inc1)\<rparr>)
      | (None, inc1) \<Rightarrow>
          (let (st, inc2) = include_next kd now (expire_checks now inc1)
           in (st, inc2\<lparr>in_candidate_count := queue_len (in_candidates inc2)\<rparr>)))"
  by (simp add: include_advance_def split: prod.split option.split)

lemma include_advance_wf:
  assumes wf: "include_wf kd inc"
  shows "include_wf kd (snd (include_advance kd rt now ev inc))"
  using include_event_wf [OF wf, of rt ev]
  by (simp add: include_advance_eq case_prod_beta include_next_wf expire_checks_wf split: option.split)

lemma include_reached_wf: "include_reached kd rt inc \<Longrightarrow> include_wf kd inc"
proof -
  have "include_wf kd (include_run kd rt evs inc0)" if "include_wf kd inc0" for evs inc0
    using that by (induction evs arbitrary: inc0) (auto simp: include_advance_wf)
  moreover have "include_wf kd inc0" if "new_include table cfg = Inr inc0"
    for table cfg and inc0 :: "('b, 'c) include_machine"
    using that by (auto simp: new_include_def include_wf_def node_queue_wf_def new_node_queue_def Let_def
        default_include_config_def include_config_validate_def split: option.splits if_splits)
  ultimately show "include_reached kd rt inc \<Longrightarrow> include_wf kd inc"
    by (auto simp: include_reached_def)
qed

lemma event_keeps_cfg: "in_cfg (snd (handle_include_event kd rt ev inc)) = in_cfg inc"
  by (cases ev) (auto simp: Let_def split: option.splits prod.splits)

lemma include_advance_cfg: "in_cfg (snd (include_advance kd rt now ev inc)) = in_cfg inc"
  using event_keeps_cfg [of kd rt ev inc]
  by (auto simp: include_advance_eq case_prod_beta include_next_def expire_checks_def split: option.splits)

lemma include_reached_limit: "include_reached kd rt inc \<Longrightarrow> 1 \<le> inc_concurrency (in_cfg inc)"
proof -
  have "in_cfg (include_run kd rt evs inc0) = in_cfg inc0" for evs inc0
    by (induction evs arbitrary: inc0) (auto simp: include_advance_cfg)
  moreover have "1 \<le> inc_concurrency (in_cfg inc0)" if "new_include table cfg = Inr inc0"
    for table cfg and inc0 :: "('b, 'c) include_machine"
    using that by (auto simp: new_include_def Let_def default_include_config_def
        include_config_validate_def split: option.splits if_splits)
  ultimately show "include_reached kd rt inc \<Longrightarrow> 1 \<le> inc_concurrency (in_cfg inc)"
    by (auto simp: include_reached_def)
qed

text \<open>The states that report waiting for checks, with the due time they give.\<close>

fun include_waits :: "'n include_state \<Rightarrow> time option" where
  "include_waits (StateIncludeWaitingAtCapacity d) = Some d"
| "include_waits (StateIncludeWaitingWithCapacity d) = Some d"
| "include_waits _ = None"

lemma include_next_due_eq:
  assumes "\<forall>c \<in> set (in_checks inc). 0 < ck_deadline (snd c)"
  shows "include_next_due inc =
    (if in_checks inc = [] then 0 else Min ((\<lambda>c. ck_deadline (snd c)) ` set (in_checks inc)))"
  using assms unfolding include_next_due_def zero_time_def
  by (subst earliest_from_zero) auto

lemma expire_checks_deadlines:
  "c \<in> set (in_checks (expire_checks now inc)) \<Longrightarrow> now \<le> ck_deadline (snd c)"
  by (auto simp: expire_checks_def time_defs)

lemma include_next_rt [simp]: "in_rt (snd (include_next kd now (expire_checks t inc))) = in_rt inc"
  by (auto simp: include_next_def expire_checks_def case_prod_beta split: option.split)

lemma include_next_not_updated [simp]: "fst (include_next kd now inc) \<noteq> StateIncludeRoutingUpdated m"
  by (auto simp: include_next_def case_prod_beta split: option.split)

text \<open>What waiting for checks says of the checks.\<close>

lemma include_next_waits:
  assumes "include_waits (fst (include_next kd now inc)) = Some d" "1 \<le> inc_concurrency (in_cfg inc)"
  shows "in_checks (snd (include_next kd now inc)) = in_checks inc \<and> d = include_next_due inc \<and>
    in_checks inc \<noteq> []"
  using assms by (auto simp: include_next_def case_prod_beta split: if_splits option.splits)

text \<open>What starting a check does.\<close>

lemma include_next_check:
  assumes wf: "include_wf kd inc" and st: "fst (include_next kd now inc) = StateIncludeConnectivityCheck n"
  shows "nq_nodes (in_candidates inc) = n # nq_nodes (in_candidates (snd (include_next kd now inc))) \<and>
    map_of (in_checks inc) (key_hex kd (node_key kd n)) = None \<and>
    map_of (in_checks (snd (include_next kd now inc))) (key_hex kd (node_key kd n)) =
      Some \<lparr>ck_node = n, ck_deadline = time_add now (inc_timeout (in_cfg inc))\<rparr>"
proof -
  let ?q = "in_candidates inc"
  from wf have q: "node_queue_wf kd ?q" by (simp add: include_wf_def)
  from st have deq: "fst (dequeue kd ?q) = Some n"
    and after: "snd (include_next kd now inc) = inc\<lparr>in_candidates := snd (dequeue kd ?q),
      in_checks := AList.update (key_hex kd (node_key kd n))
        \<lparr>ck_node = n, ck_deadline = time_add now (inc_timeout (in_cfg inc))\<rparr> (in_checks inc)\<rparr>"
    by (auto simp: include_next_def case_prod_beta split: if_splits option.splits)
  note front = nq.deq_front [OF q deq]
  from front wf have "key_hex kd (node_key kd n) \<notin> fst ` set (in_checks inc)"
    by (auto simp: include_wf_def node_queue_wf_def)
  with front after show ?thesis by (simp add: map_of_eq_None_iff AList.update_conv')
qed

section \<open>The properties\<close>

text \<open>
  The include machine never runs more checks than its concurrency nor queues more candidates
  than its capacity, and a node is at most once among the candidates and the nodes being checked.
\<close>

theorem include_bounded:
  assumes "include_reached kd rt inc"
  shows "int (length (in_checks inc)) \<le> inc_concurrency (in_cfg inc) \<and>
    int (length (nq_nodes (in_candidates inc))) \<le> inc_queue_capacity (in_cfg inc) \<and>
    distinct (map (\<lambda>n. key_hex kd (node_key kd n))
      (nq_nodes (in_candidates inc) @ map (ck_node \<circ> snd) (in_checks inc)))"
proof -
  from include_reached_wf [OF assms] have wf: "include_wf kd inc" .
  have keys: "map (\<lambda>n. key_hex kd (node_key kd n)) (map (ck_node \<circ> snd) (in_checks inc)) = map fst (in_checks inc)"
    using wf by (auto simp: include_wf_def)
  from wf have nodes: "distinct (map (\<lambda>n. key_hex kd (node_key kd n)) (nq_nodes (in_candidates inc)))"
    "nq_keys (in_candidates inc) \<inter> fst ` set (in_checks inc) = {}"
    "nq_keys (in_candidates inc) = (\<lambda>n. key_hex kd (node_key kd n)) ` set (nq_nodes (in_candidates inc))"
    "distinct (map fst (in_checks inc))"
    unfolding include_wf_def node_queue_wf_def by blast+
  have "distinct (map (\<lambda>n. key_hex kd (node_key kd n)) (nq_nodes (in_candidates inc)) @ map fst (in_checks inc))"
    using nodes(1,2,4) wf unfolding distinct_append set_map nodes(3) [symmetric]
    by (simp add: include_wf_def)
  with wf keys show ?thesis
    unfolding map_append by (simp add: include_wf_def node_queue_wf_def del: map_map)
qed

text \<open>
  C9: only a node that has passed a check enters the routing table: an advance changes the table
  only for a success of a node with a check in progress, and it reports the table updated
  exactly when the table took the node.
\<close>

theorem include_admits_checked:
  assumes "include_reached kd rt inc" "include_advance kd rt now ev inc = (st, inc')"
  shows "(in_rt inc' \<noteq> in_rt inc \<or> (\<exists>m. st = StateIncludeRoutingUpdated m) \<longrightarrow>
      (\<exists>n ch. ev = EventIncludeConnectivityCheckSuccess n \<and>
         map_of (in_checks inc) (key_hex kd (node_key kd n)) = Some ch \<and>
         in_rt inc' = snd (rt_add_node rt n (in_rt inc)) \<and>
         (fst (rt_add_node rt n (in_rt inc)) \<longleftrightarrow> st = StateIncludeRoutingUpdated (ck_node ch))))"
proof -
  note next_rt = include_next_rt and next_st = include_next_not_updated
  show ?thesis
  proof (cases "\<exists>n. ev = EventIncludeConnectivityCheckSuccess n")
    case True
    then obtain n where n: "ev = EventIncludeConnectivityCheckSuccess n" by blast
    with assms(2) next_rt next_st show ?thesis
      by (cases "map_of (in_checks inc) (key_hex kd (node_key kd n))")
        (auto simp: include_advance_eq case_prod_beta Let_def prod_eq_iff split: if_splits)
  next
    case False
    then have "in_rt (snd (handle_include_event kd rt ev inc)) = in_rt inc"
      "fst (handle_include_event kd rt ev inc) \<noteq> Some (StateIncludeRoutingUpdated m)" for m
      by (cases ev; auto)+
    with assms(2) next_rt next_st have "in_rt inc' = in_rt inc" "\<forall>m. st \<noteq> StateIncludeRoutingUpdated m"
      by (auto simp: include_advance_eq case_prod_beta prod_eq_iff split: option.splits)
    then show ?thesis by blast
  qed
qed

text \<open>
  A check is started for the candidate that has waited longest, which was not being checked,
  and its deadline is the timeout from now.
\<close>

theorem include_checks_in_order:
  assumes "include_reached kd rt inc"
    "include_advance kd rt now ev inc = (StateIncludeConnectivityCheck n, inc')"
  shows "nq_nodes (in_candidates (snd (handle_include_event kd rt ev inc))) = n # nq_nodes (in_candidates inc') \<and>
    map_of (in_checks inc') (key_hex kd (node_key kd n)) =
      Some \<lparr>ck_node = n, ck_deadline = time_add now (inc_timeout (in_cfg inc))\<rparr>"
proof -
  let ?inc = "expire_checks now (snd (handle_include_event kd rt ev inc))"
  from include_reached_wf [OF assms(1)] have wf: "include_wf kd ?inc"
    by (intro expire_checks_wf include_event_wf)
  have "fst (handle_include_event kd rt ev inc) \<noteq> Some (StateIncludeConnectivityCheck n)"
    by (cases ev) (auto simp: Let_def split: option.split prod.split)
  with assms(2) have "fst (include_next kd now ?inc) = StateIncludeConnectivityCheck n"
    and "nq_nodes (in_candidates inc') = nq_nodes (in_candidates (snd (include_next kd now ?inc)))"
    and "in_checks inc' = in_checks (snd (include_next kd now ?inc))"
    by (auto simp: include_advance_eq case_prod_beta prod_eq_iff split: option.splits)
  with include_next_check [OF wf] show ?thesis
    by (simp add: event_keeps_cfg) (simp add: expire_checks_def event_keeps_cfg)
qed

text \<open>
  The due time the include machine reports while it waits for checks is the earliest of their
  deadlines, and no check it waits for is overdue.
\<close>

theorem include_due_time:
  assumes "include_reached kd rt inc" "0 < now" "include_advance kd rt now ev inc = (st, inc')"
    "include_waits st = Some d"
  shows "d = Min ((\<lambda>c. ck_deadline (snd c)) ` set (in_checks inc')) \<and> now \<le> d \<and> in_checks inc' \<noteq> []"
proof -
  let ?inc = "expire_checks now (snd (handle_include_event kd rt ev inc))"
  from include_reached_wf [OF assms(1)] have wf: "include_wf kd ?inc"
    by (intro expire_checks_wf include_event_wf)
  have "fst (handle_include_event kd rt ev inc) = Some st1 \<Longrightarrow> include_waits st1 = None" for st1
    by (cases ev) (auto simp: Let_def split: option.splits prod.splits if_splits)
  with assms(3,4) have after: "fst (include_next kd now ?inc) = st"
    "in_checks inc' = in_checks (snd (include_next kd now ?inc))"
    by (auto simp: include_advance_eq case_prod_beta prod_eq_iff split: option.splits)
  have limit: "1 \<le> inc_concurrency (in_cfg ?inc)"
    using include_reached_limit [OF assms(1)] by (simp add: expire_checks_def event_keeps_cfg)
  have same: "in_checks inc' = in_checks ?inc" "d = include_next_due ?inc" "in_checks ?inc \<noteq> []"
    using include_next_waits [of kd now ?inc d] after assms(4) limit by simp_all
  have "\<forall>c \<in> set (in_checks ?inc). now \<le> ck_deadline (snd c)"
    using expire_checks_deadlines by blast
  with same assms(2) include_next_due_eq [of ?inc] show ?thesis by fastforce
qed

section \<open>On the tiny network\<close>

abbreviation tiny_rt :: "(tiny_key, tiny_node, (tiny_key, tiny_node) list_table) rt_ops" where
  "tiny_rt \<equiv> list_table_ops tiny_kad"

definition tiny_table :: "(tiny_key, tiny_node) list_table" where
  "tiny_table = \<lparr>lt_self = 0, lt_nodes = []\<rparr>"

type_synonym tiny_include = "(tiny_node, (tiny_key, tiny_node) list_table) include_machine"

text \<open>A machine that may run one check, given the queue and the checks in progress.\<close>

definition tiny_include_with :: "tiny_node list \<Rightarrow> (string \<times> tiny_node check) list \<Rightarrow> tiny_include" where
  "tiny_include_with queue checks =
     \<lparr>in_rt = tiny_table, in_checks = checks,
      in_candidates = \<lparr>nq_capacity = 5, nq_nodes = queue,
        nq_keys = set (map (\<lambda>n. tiny_hex (tn_key n)) queue)\<rparr>,
      in_cfg = \<lparr>inc_queue_capacity = 5, inc_concurrency = 1, inc_timeout = 10, inc_tracer = True, inc_meter = True\<rparr>,
      in_candidate_count = length queue\<rparr>"

definition tiny_check :: "tiny_key \<Rightarrow> (string \<times> tiny_node check) list" where
  "tiny_check k = [(tiny_hex k, \<lparr>ck_node = new_node k, ck_deadline = 11\<rparr>)]"

lemmas tiny_include_defs = tiny_include_with_def tiny_check_def tiny_table_def tiny_kad_def new_node_def
  list_table_ops_def include_advance_def include_next_def expire_checks_def dequeue_def enqueue_def
  has_capacity_def time_defs include_next_due_def queue_len_def

lemma tiny_include_start: "include_reached tiny_kad tiny_rt (tiny_include_with [] [])"
proof -
  have "new_include tiny_table (Some \<lparr>inc_queue_capacity = 5, inc_concurrency = 1, inc_timeout = 10,
      inc_tracer = True, inc_meter = True\<rparr>) = Inr (tiny_include_with [] [])"
    by (simp add: new_include_def include_config_validate_def tiny_include_with_def new_node_queue_def)
  moreover have "tiny_include_with [] [] = (include_run tiny_kad tiny_rt [] (tiny_include_with [] []))
      \<lparr>in_rt := tiny_table\<rparr>"
    by (simp add: tiny_include_with_def)
  ultimately show ?thesis unfolding include_reached_def by blast
qed

lemma include_reached_step:
  assumes "include_reached kd rt inc" "include_advance kd rt now ev inc = (st, inc')"
  shows "include_reached kd rt inc'"
proof -
  from assms(1) obtain table cfg evs inc0 t where new: "new_include table cfg = Inr inc0"
    and inc: "inc = (include_run kd rt evs inc0)\<lparr>in_rt := t\<rparr>"
    by (auto simp: include_reached_def)
  have "include_run kd rt (evs @ [(now, t, ev)]) inc0 = snd (include_advance kd rt now ev ((include_run kd rt evs inc0)\<lparr>in_rt := t\<rparr>))"
    by (induction evs arbitrary: inc0) auto
  then have "inc' = (include_run kd rt (evs @ [(now, t, ev)]) inc0)\<lparr>in_rt := in_rt inc'\<rparr>"
    using assms(2) inc by simp
  with new show ?thesis unfolding include_reached_def by blast
qed

lemma tiny_include_checks:
  "include_advance tiny_kad tiny_rt 1 (EventIncludeAddCandidate (new_node 4)) (tiny_include_with [] []) =
     (StateIncludeConnectivityCheck (new_node 4), tiny_include_with [] (tiny_check 4))"
  by (simp add: tiny_include_defs)

lemmas tiny_include_checking = include_reached_step [OF tiny_include_start tiny_include_checks]

theorem include_bounded_witness: "int (length (tiny_check 4)) \<le> 1"
  using include_bounded [OF tiny_include_checking] by (simp add: tiny_include_with_def)

lemma tiny_include_admits:
  "include_advance tiny_kad tiny_rt 2 (EventIncludeConnectivityCheckSuccess (new_node 4))
     (tiny_include_with [] (tiny_check 4)) =
   (StateIncludeRoutingUpdated (new_node 4),
    (tiny_include_with [] [])\<lparr>in_rt := \<lparr>lt_self = 0, lt_nodes = [new_node 4]\<rparr>\<rparr>)"
  by (simp add: tiny_include_defs)

theorem include_admits_checked_witness:
  "\<exists>ch. map_of (tiny_check 4) (tiny_hex 4) = Some ch \<and> ck_node ch = new_node 4"
  using include_admits_checked [OF tiny_include_checking tiny_include_admits]
  by (auto simp: tiny_include_with_def tiny_kad_def new_node_def list_table_ops_def tiny_table_def)

theorem include_checks_in_order_witness:
  "map_of (in_checks (tiny_include_with [] (tiny_check 4))) (key_hex tiny_kad (node_key tiny_kad (new_node 4))) =
     Some \<lparr>ck_node = new_node 4, ck_deadline = time_add 1 (inc_timeout (in_cfg (tiny_include_with [] [])))\<rparr>"
  using include_checks_in_order [OF tiny_include_start tiny_include_checks] by blast

lemma tiny_include_waits:
  "include_advance tiny_kad tiny_rt 2 EventIncludePoll (tiny_include_with [] (tiny_check 4)) =
     (StateIncludeWaitingAtCapacity 11, tiny_include_with [] (tiny_check 4))"
  by (simp add: tiny_include_defs)

theorem include_due_time_witness:
  "(11 :: time) = Min ((\<lambda>c. ck_deadline (snd c)) ` set (in_checks (tiny_include_with [] (tiny_check 4))))"
  using include_due_time [OF tiny_include_checking _ tiny_include_waits] by simp

end
