(* ===== verification/GoHeap.thy ===== *)
theory GoHeap
  imports Prelude
begin

text \<open>
  Package \<open>container/heap\<close> of the standard library, which the probe list, the explore schedule
  and the survey schedule use. The algorithms are written over the operations of
  \<open>heap.Interface\<close>, so that each client supplies its own \<open>Swap\<close> and \<open>Push\<close> with the side
  effects they have; the facts are proved once for plain lists and carried over to every client
  whose operations act on the list of its elements as the interface asks.
\<close>

section \<open>The interface and the algorithms\<close>

record ('x, 's) heap_interface =
  h_len :: "'s \<Rightarrow> nat"
  h_less :: "'s \<Rightarrow> nat \<Rightarrow> nat \<Rightarrow> bool"
  h_swap :: "nat \<Rightarrow> nat \<Rightarrow> 's \<Rightarrow> 's"
  h_push :: "'x \<Rightarrow> 's \<Rightarrow> 's"
  h_pop :: "'s \<Rightarrow> 'x \<times> 's"

function heap_up :: "('x, 's) heap_interface \<Rightarrow> nat \<Rightarrow> 's \<Rightarrow> 's" where
  "heap_up h j s =
     (let i = (j - 1) div 2
      in if i = j \<or> \<not> h_less h s j i then s else heap_up h i (h_swap h i j s))"
  by pat_completeness auto
termination by (relation "measure (\<lambda>(h, j, s). j)") auto

function heap_down :: "('x, 's) heap_interface \<Rightarrow> nat \<Rightarrow> nat \<Rightarrow> 's \<Rightarrow> nat \<times> 's" where
  "heap_down h i n s =
     (let j1 = 2 * i + 1
      in if n \<le> j1 then (i, s)
         else let j = (if j1 + 1 < n \<and> h_less h s (j1 + 1) j1 then j1 + 1 else j1)
              in if \<not> h_less h s j i then (i, s) else heap_down h j n (h_swap h i j s))"
  by pat_completeness auto
termination by (relation "measure (\<lambda>(h, i, n, s). n - i)") (auto split: if_splits)

declare heap_up.simps [simp del] heap_down.simps [simp del]

text \<open>What every swap keeps, the algorithms keep.\<close>

lemma heap_up_invariant:
  assumes swap: "\<And>i j s. P s \<Longrightarrow> P (h_swap h i j s)" and "P s"
  shows "P (heap_up h j s)"
  using assms(2)
proof (induction j arbitrary: s rule: less_induct)
  case (less j)
  show ?case
  proof (cases "(j - 1) div 2 = j \<or> \<not> h_less h s j ((j - 1) div 2)")
    case True
    with less.prems show ?thesis by (subst heap_up.simps) (simp add: Let_def)
  next
    case False
    then have "(j - 1) div 2 < j" by linarith
    from less.IH [OF this swap [OF less.prems]] False show ?thesis
      by (subst heap_up.simps) (simp add: Let_def)
  qed
qed

lemma heap_down_invariant:
  assumes swap: "\<And>i j s. P s \<Longrightarrow> P (h_swap h i j s)" and "P s"
  shows "P (snd (heap_down h i n s))"
  using assms(2)
proof (induction "n - i" arbitrary: i s rule: less_induct)
  case less
  let ?j = "if 2 * i + 1 + 1 < n \<and> h_less h s (2 * i + 1 + 1) (2 * i + 1) then 2 * i + 1 + 1 else 2 * i + 1"
  show ?case
  proof (cases "n \<le> 2 * i + 1 \<or> \<not> h_less h s ?j i")
    case True
    with less.prems show ?thesis by (subst heap_down.simps) (auto simp: Let_def)
  next
    case False
    then have "n - ?j < n - i" by (auto split: if_splits)
    note IH = less.hyps [OF this swap [OF less.prems]]
    have "heap_down h i n s = heap_down h ?j n (h_swap h i ?j s)"
      using False by (subst heap_down.simps) (simp only: Let_def de_Morgan_disj not_not if_False simp_thms)
    with IH show ?thesis by simp
  qed
qed

definition heap_init :: "('x, 's) heap_interface \<Rightarrow> 's \<Rightarrow> 's" where
  "heap_init h s = (let n = h_len h s in foldl (\<lambda>s i. snd (heap_down h i n s)) s (rev [0..<n div 2]))"

definition heap_push :: "('x, 's) heap_interface \<Rightarrow> 'x \<Rightarrow> 's \<Rightarrow> 's" where
  "heap_push h x s = (let s' = h_push h x s in heap_up h (h_len h s' - 1) s')"

definition heap_pop :: "('x, 's) heap_interface \<Rightarrow> 's \<Rightarrow> 'x \<times> 's" where
  "heap_pop h s = (let n = h_len h s - 1 in h_pop h (snd (heap_down h 0 n (h_swap h 0 n s))))"

definition heap_fix :: "('x, 's) heap_interface \<Rightarrow> nat \<Rightarrow> 's \<Rightarrow> 's" where
  "heap_fix h i s =
     (let (k, s') = heap_down h i (h_len h s) s in if i < k then s' else heap_up h i s')"

definition heap_remove :: "('x, 's) heap_interface \<Rightarrow> nat \<Rightarrow> 's \<Rightarrow> 'x \<times> 's" where
  "heap_remove h i s =
     (let n = h_len h s - 1
      in if n \<noteq> i
         then (let (k, s') = heap_down h i n (h_swap h i n s)
               in h_pop h (if i < k then s' else heap_up h i s'))
         else h_pop h s)"

section \<open>Heaps in a list\<close>

definition swap_list :: "nat \<Rightarrow> nat \<Rightarrow> 'a list \<Rightarrow> 'a list" where
  "swap_list i j xs = xs[i := xs ! j, j := xs ! i]"

definition list_heap :: "('a \<Rightarrow> 'a \<Rightarrow> bool) \<Rightarrow> ('a, 'a list) heap_interface" where
  "list_heap lt = \<lparr>h_len = length, h_less = (\<lambda>xs i j. lt (xs ! i) (xs ! j)), h_swap = swap_list,
     h_push = (\<lambda>x xs. xs @ [x]), h_pop = (\<lambda>xs. (last xs, butlast xs))\<rparr>"

lemma list_heap_simps [simp]:
  "h_len (list_heap lt) = length"
  "h_less (list_heap lt) xs i j = lt (xs ! i) (xs ! j)"
  "h_swap (list_heap lt) = swap_list"
  "h_push (list_heap lt) x xs = xs @ [x]"
  "h_pop (list_heap lt) xs = (last xs, butlast xs)"
  by (simp_all add: list_heap_def)

lemma length_swap_list [simp]: "length (swap_list i j xs) = length xs"
  by (simp add: swap_list_def)

lemma swap_list_mset: "i < length xs \<Longrightarrow> j < length xs \<Longrightarrow> mset (swap_list i j xs) = mset xs"
  unfolding swap_list_def by (rule mset_swap)

lemma nth_swap_list:
  "i < length xs \<Longrightarrow> j < length xs \<Longrightarrow>
     swap_list i j xs ! k = (if k = j then xs ! i else if k = i then xs ! j else xs ! k)"
  by (simp add: swap_list_def nth_list_update)

text \<open>Every node of the first \<open>n\<close> is no less than its parent.\<close>

definition parent :: "nat \<Rightarrow> nat" where
  "parent j = (j - 1) div 2"

lemma parent_less [simp]: "0 < j \<Longrightarrow> parent j < j"
  by (simp add: parent_def)

lemma parent_le [simp]: "parent j \<le> j"
  by (simp add: parent_def)

lemma parent_neq [simp]: "0 < j \<Longrightarrow> parent j \<noteq> j" "0 < j \<Longrightarrow> parent (parent j) \<noteq> j"
  using parent_less [of j] parent_le [of "parent j"] by linarith+

lemma parent_Suc [simp]: "parent (Suc (2 * i)) = i" "parent (Suc (Suc (2 * i))) = i"
  by (simp_all add: parent_def)

lemma parent_zero [simp]: "parent 0 = 0"
  by (simp add: parent_def)

lemma parent_child [simp]: "parent (2 * i + 1) = i" "parent (2 * i + 2) = i"
  by (simp_all add: parent_def)

lemma child_cases: "0 < j \<Longrightarrow> parent j = i \<Longrightarrow> j = 2 * i + 1 \<or> j = 2 * i + 2"
  unfolding parent_def by presburger

text \<open>
  \<open>heap_from lt k n xs\<close>: among the first \<open>n\<close>, no node whose parent is at \<open>k\<close> or later is less than
  its parent. From the root on, that is a heap.
\<close>

definition heap_from :: "('a \<Rightarrow> 'a \<Rightarrow> bool) \<Rightarrow> nat \<Rightarrow> nat \<Rightarrow> 'a list \<Rightarrow> bool" where
  "heap_from lt k n xs \<longleftrightarrow> (\<forall>j. 0 < j \<and> j < n \<and> k \<le> parent j \<longrightarrow> \<not> lt (xs ! j) (xs ! parent j))"

abbreviation heap_upto :: "('a \<Rightarrow> 'a \<Rightarrow> bool) \<Rightarrow> nat \<Rightarrow> 'a list \<Rightarrow> bool" where
  "heap_upto lt n xs \<equiv> heap_from lt 0 n xs"

lemma heap_upto_def: "heap_upto lt n xs \<longleftrightarrow> (\<forall>j. 0 < j \<and> j < n \<longrightarrow> \<not> lt (xs ! j) (xs ! parent j))"
  by (simp add: heap_from_def)

abbreviation is_heap :: "('a \<Rightarrow> 'a \<Rightarrow> bool) \<Rightarrow> 'a list \<Rightarrow> bool" where
  "is_heap lt xs \<equiv> heap_upto lt (length xs) xs"

text \<open>A heap but for the place of the element at \<open>i\<close>: its children are no less than its parent.\<close>

definition heap_from_but :: "('a \<Rightarrow> 'a \<Rightarrow> bool) \<Rightarrow> nat \<Rightarrow> nat \<Rightarrow> nat \<Rightarrow> 'a list \<Rightarrow> bool" where
  "heap_from_but lt k i n xs \<longleftrightarrow>
     (\<forall>j. 0 < j \<and> j < n \<and> j \<noteq> i \<and> parent j \<noteq> i \<and> k \<le> parent j \<longrightarrow> \<not> lt (xs ! j) (xs ! parent j)) \<and>
     (\<forall>j. 0 < j \<and> j < n \<and> parent j = i \<and> 0 < i \<and> k \<le> parent i \<longrightarrow> \<not> lt (xs ! j) (xs ! parent i))"

abbreviation heap_but :: "('a \<Rightarrow> 'a \<Rightarrow> bool) \<Rightarrow> nat \<Rightarrow> nat \<Rightarrow> 'a list \<Rightarrow> bool" where
  "heap_but lt i n xs \<equiv> heap_from_but lt 0 i n xs"

lemma heap_but_def:
  "heap_but lt i n xs \<longleftrightarrow>
     (\<forall>j. 0 < j \<and> j < n \<and> j \<noteq> i \<and> parent j \<noteq> i \<longrightarrow> \<not> lt (xs ! j) (xs ! parent j)) \<and>
     (\<forall>j. 0 < j \<and> j < n \<and> parent j = i \<and> 0 < i \<longrightarrow> \<not> lt (xs ! j) (xs ! parent i))"
  by (simp add: heap_from_but_def)

definition children_ok :: "('a \<Rightarrow> 'a \<Rightarrow> bool) \<Rightarrow> nat \<Rightarrow> nat \<Rightarrow> 'a list \<Rightarrow> bool" where
  "children_ok lt i n xs \<longleftrightarrow> (\<forall>j. 0 < j \<and> j < n \<and> parent j = i \<longrightarrow> \<not> lt (xs ! j) (xs ! i))"

definition parent_from_ok :: "('a \<Rightarrow> 'a \<Rightarrow> bool) \<Rightarrow> nat \<Rightarrow> nat \<Rightarrow> 'a list \<Rightarrow> bool" where
  "parent_from_ok lt k i xs \<longleftrightarrow> (0 < i \<and> k \<le> parent i \<longrightarrow> \<not> lt (xs ! i) (xs ! parent i))"

abbreviation parent_ok :: "('a \<Rightarrow> 'a \<Rightarrow> bool) \<Rightarrow> nat \<Rightarrow> 'a list \<Rightarrow> bool" where
  "parent_ok lt i xs \<equiv> parent_from_ok lt 0 i xs"

lemma parent_ok_def: "parent_ok lt i xs \<longleftrightarrow> (0 < i \<longrightarrow> \<not> lt (xs ! i) (xs ! parent i))"
  by (simp add: parent_from_ok_def)

lemma heap_from_iff:
  assumes "i < n" "k \<le> i" "heap_from_but lt k i n xs"
  shows "heap_from lt k n xs \<longleftrightarrow> children_ok lt i n xs \<and> parent_from_ok lt k i xs"
proof
  assume "heap_from lt k n xs"
  with assms(1,2) show "children_ok lt i n xs \<and> parent_from_ok lt k i xs"
    by (auto simp: heap_from_def children_ok_def parent_from_ok_def)
next
  assume ok: "children_ok lt i n xs \<and> parent_from_ok lt k i xs"
  have "\<not> lt (xs ! j) (xs ! parent j)" if "0 < j" "j < n" "k \<le> parent j" for j
    using ok assms that by (cases "j = i \<or> parent j = i")
      (auto simp: heap_from_but_def children_ok_def parent_from_ok_def)
  then show "heap_from lt k n xs" by (simp add: heap_from_def)
qed

lemma heap_upto_iff:
  "i < n \<Longrightarrow> heap_but lt i n xs \<Longrightarrow> heap_upto lt n xs \<longleftrightarrow> children_ok lt i n xs \<and> parent_ok lt i xs"
  by (rule heap_from_iff) simp_all

locale strict_weak_order =
  fixes lt :: "'a \<Rightarrow> 'a \<Rightarrow> bool"
  assumes lt_asym: "lt a b \<Longrightarrow> \<not> lt b a"
    and not_lt_trans: "\<not> lt a b \<Longrightarrow> \<not> lt b c \<Longrightarrow> \<not> lt a c"
begin

lemma lt_not_lt: "lt b c \<Longrightarrow> \<not> lt a c \<Longrightarrow> \<not> lt a b"
  using lt_asym not_lt_trans by blast

lemma lt_irrefl [simp]: "\<not> lt a a"
  using lt_asym by blast

text \<open>The root of a heap is a least element.\<close>

lemma heap_root_least:
  assumes "heap_upto lt n xs" "j < n"
  shows "\<not> lt (xs ! j) (xs ! 0)"
  using assms(2)
proof (induction j rule: less_induct)
  case (less j)
  show ?case
  proof (cases "j = 0")
    case True
    then show ?thesis using lt_asym by blast
  next
    case False
    then have "parent j < j" by simp
    with less have "\<not> lt (xs ! parent j) (xs ! 0)" by simp
    moreover have "\<not> lt (xs ! j) (xs ! parent j)"
      using assms(1) False less.prems by (simp add: heap_upto_def)
    ultimately show ?thesis using not_lt_trans by blast
  qed
qed

lemma heap_least: "is_heap lt xs \<Longrightarrow> x \<in> set xs \<Longrightarrow> \<not> lt x (xs ! 0)"
  by (metis heap_root_least in_set_conv_nth)

lemma heap_upto_but:
  assumes heap: "heap_upto lt n xs" and i: "i < n"
  shows "heap_but lt i n xs"
  unfolding heap_but_def
proof (intro conjI allI impI)
  fix j assume "0 < j \<and> j < n \<and> j \<noteq> i \<and> parent j \<noteq> i"
  with heap show "\<not> lt (xs ! j) (xs ! parent j)" by (simp add: heap_upto_def)
next
  fix j assume "0 < j \<and> j < n \<and> parent j = i \<and> 0 < i"
  with heap i have "\<not> lt (xs ! j) (xs ! i)" "\<not> lt (xs ! i) (xs ! parent i)"
    by (auto simp: heap_upto_def)
  then show "\<not> lt (xs ! j) (xs ! parent i)" by (rule not_lt_trans)
qed

text \<open>A heap whose element at \<open>i\<close> is replaced is a heap but for that place.\<close>

lemma heap_update_but:
  assumes heap: "heap_upto lt n xs" and i: "i < n"
  shows "heap_but lt i n (xs[i := v])"
  unfolding heap_but_def
proof (intro conjI allI impI)
  fix j assume "0 < j \<and> j < n \<and> j \<noteq> i \<and> parent j \<noteq> i"
  with heap show "\<not> lt (xs[i := v] ! j) (xs[i := v] ! parent j)" by (simp add: heap_upto_def)
next
  fix j assume j: "0 < j \<and> j < n \<and> parent j = i \<and> 0 < i"
  then have "i \<noteq> j" "i \<noteq> parent i" using parent_less [of j] parent_less [of i] by linarith+
  with j heap_upto_but [OF heap i] show "\<not> lt (xs[i := v] ! j) (xs[i := v] ! parent i)"
    by (simp add: heap_but_def)
qed

text \<open>Moving an element towards the root.\<close>

lemma up_swap:
  assumes n: "n \<le> length xs" "j < n" "0 < j" and but: "heap_but lt j n xs"
    and ch: "children_ok lt j n xs" and lt: "lt (xs ! j) (xs ! parent j)"
  shows "heap_but lt (parent j) n (swap_list (parent j) j xs)"
    and "children_ok lt (parent j) n (swap_list (parent j) j xs)"
proof -
  let ?p = "parent j" and ?ys = "swap_list (parent j) j xs"
  have p: "?p < j" "?p < length xs" "j < length xs" using n parent_less [of j] by linarith+
  have ys: "?ys ! k = (if k = j then xs ! ?p else if k = ?p then xs ! j else xs ! k)" for k
    using nth_swap_list [OF p(2,3)] .
  have ok: "\<not> lt (xs ! k) (xs ! parent k)" if "0 < k" "k < n" "k \<noteq> j" "parent k \<noteq> j" for k
    using but that by (simp add: heap_but_def)
  have sib: "\<not> lt (xs ! k) (xs ! ?p)" if "0 < k" "k < n" "parent k = ?p" "k \<noteq> j" for k
    using ok [of k] that p by simp
  have sub: "\<not> lt (xs ! k) (xs ! ?p)" if "0 < k" "k < n" "parent k = j" for k
    using but that n(3) by (simp add: heap_but_def)
  show "children_ok lt ?p n ?ys"
    unfolding children_ok_def
  proof (intro allI impI)
    fix k assume k: "0 < k \<and> k < n \<and> parent k = ?p"
    then have "k \<noteq> ?p" using parent_less [of k] by auto
    show "\<not> lt (?ys ! k) (?ys ! ?p)"
    proof (cases "k = j")
      case True
      with p lt lt_asym show ?thesis by (simp add: ys)
    next
      case False
      with k sib [of k] lt_not_lt [OF lt] \<open>k \<noteq> ?p\<close> p show ?thesis by (simp add: ys)
    qed
  qed
  show "heap_but lt ?p n ?ys"
    unfolding heap_but_def
  proof (intro conjI allI impI)
    fix k assume k: "0 < k \<and> k < n \<and> k \<noteq> ?p \<and> parent k \<noteq> ?p"
    then have "k \<noteq> j" by auto
    with k show "\<not> lt (?ys ! k) (?ys ! parent k)"
      using sub [of k] ok [of k] by (cases "parent k = j") (auto simp: ys)
  next
    fix k assume k: "0 < k \<and> k < n \<and> parent k = ?p \<and> 0 < ?p"
    then have kp: "k \<noteq> ?p" "parent ?p \<noteq> j" "parent ?p \<noteq> ?p"
      using parent_less [of k] parent_less [of ?p] p by linarith+
    have "\<not> lt (xs ! ?p) (xs ! parent ?p)" using ok [of ?p] k p n by auto
    with k kp sib [of k] not_lt_trans show "\<not> lt (?ys ! k) (?ys ! parent ?p)"
      by (cases "k = j") (auto simp: ys)
  qed
qed

lemma heap_up_list:
  assumes "n \<le> length xs" "j < n" "heap_but lt j n xs" "children_ok lt j n xs"
  shows "heap_upto lt n (heap_up (list_heap lt) j xs) \<and> mset (heap_up (list_heap lt) j xs) = mset xs \<and>
    (\<forall>k \<ge> n. k < length xs \<longrightarrow> heap_up (list_heap lt) j xs ! k = xs ! k)"
  using assms
proof (induction j arbitrary: xs rule: less_induct)
  case (less j)
  show ?case
  proof (cases "j = 0 \<or> \<not> lt (xs ! j) (xs ! parent j)")
    case True
    then have "parent_ok lt j xs" by (auto simp: parent_ok_def)
    with less.prems have "heap_upto lt n xs" by (simp add: heap_upto_iff)
    moreover have "heap_up (list_heap lt) j xs = xs"
      using True by (subst heap_up.simps) (auto simp: Let_def parent_def lt_irrefl)
    ultimately show ?thesis by simp
  next
    case False
    let ?ys = "swap_list (parent j) j xs"
    have p: "parent j < j" "parent j \<noteq> j" using False parent_less [of j] by auto
    have step: "heap_up (list_heap lt) j xs = heap_up (list_heap lt) (parent j) ?ys"
      using False p by (subst heap_up.simps) (simp add: Let_def parent_def)
    note swap = up_swap [OF less.prems(1,2) _ less.prems(3,4)]
    have "mset ?ys = mset xs" using less.prems p by (intro swap_list_mset) auto
    moreover have "?ys ! k = xs ! k" if "n \<le> k" for k
      using less.prems p that by (subst nth_swap_list) auto
    ultimately show ?thesis
      using less.IH [OF p(1), of ?ys] less.prems swap False p step by auto
  qed
qed

text \<open>Moving an element away from the root: \<open>j\<close> is its least child.\<close>

definition least_child :: "nat \<Rightarrow> nat \<Rightarrow> 'a list \<Rightarrow> nat \<Rightarrow> bool" where
  "least_child i n xs j \<longleftrightarrow> 0 < j \<and> j < n \<and> parent j = i \<and>
     (\<forall>k. 0 < k \<and> k < n \<and> parent k = i \<longrightarrow> \<not> lt (xs ! k) (xs ! j))"

lemma least_child:
  assumes n: "2 * i + 1 < n"
    and j: "j = (if 2 * i + 2 < n \<and> lt (xs ! (2 * i + 2)) (xs ! (2 * i + 1)) then 2 * i + 2 else 2 * i + 1)"
  shows "least_child i n xs j"
  unfolding least_child_def
proof (intro conjI allI impI)
  show "0 < j" "parent j = i" using j by auto
  show "j < n" using n j by (auto split: if_splits)
  fix k assume k: "0 < k \<and> k < n \<and> parent k = i"
  then consider "k = 2 * i + 1" | "k = 2 * i + 2" using child_cases by blast
  then show "\<not> lt (xs ! k) (xs ! j)"
    using j k lt_asym by cases auto
qed

lemma down_swap:
  assumes n: "n \<le> length xs" and but: "heap_from_but lt b i n xs" and j: "least_child i n xs j"
    and lt: "lt (xs ! j) (xs ! i)"
  shows "heap_from_but lt b j n (swap_list i j xs)" and "parent_from_ok lt b j (swap_list i j xs)"
proof -
  let ?ys = "swap_list i j xs"
  from j have j': "0 < j" "j < n" "parent j = i" by (simp_all add: least_child_def)
  then have ij: "i < j" "i < length xs" "j < length xs" using parent_less [of j] n by linarith+
  have ys: "?ys ! k = (if k = j then xs ! i else if k = i then xs ! j else xs ! k)" for k
    using nth_swap_list [OF ij(2,3)] .
  have ok: "\<not> lt (xs ! k) (xs ! parent k)" if "0 < k" "k < n" "k \<noteq> i" "parent k \<noteq> i" "b \<le> parent k" for k
    using but that by (simp add: heap_from_but_def)
  have sib: "\<not> lt (xs ! k) (xs ! j)" if "0 < k" "k < n" "parent k = i" for k
    using j that by (simp add: least_child_def)
  show "parent_from_ok lt b j ?ys" using j' ij lt lt_asym by (simp add: parent_from_ok_def ys)
  show "heap_from_but lt b j n ?ys"
    unfolding heap_from_but_def
  proof (intro conjI allI impI)
    fix k assume k: "0 < k \<and> k < n \<and> k \<noteq> j \<and> parent k \<noteq> j \<and> b \<le> parent k"
    show "\<not> lt (?ys ! k) (?ys ! parent k)"
    proof (cases "k = i")
      case True
      then have "parent i \<noteq> i" "0 < i" using k parent_less [of i] by auto
      moreover have "\<not> lt (xs ! j) (xs ! parent i)"
        using but j' k True \<open>0 < i\<close> by (simp add: heap_from_but_def)
      ultimately show ?thesis using True k ij by (simp add: ys)
    next
      case False
      with k ok [of k] sib [of k] show ?thesis by (cases "parent k = i") (simp_all add: ys)
    qed
  next
    fix k assume k: "0 < k \<and> k < n \<and> parent k = j \<and> 0 < j \<and> b \<le> parent j"
    then have "k \<noteq> i" "k \<noteq> j" using parent_less [of k] ij by linarith+
    moreover have "\<not> lt (xs ! k) (xs ! parent k)" using ok [of k] k ij \<open>k \<noteq> i\<close> order_trans [OF _ parent_le, of b "parent k"] by auto
    ultimately show "\<not> lt (?ys ! k) (?ys ! parent j)" using k j' by (simp add: ys)
  qed
qed

lemma heap_down_from:
  assumes "n \<le> length xs" "i < n" "heap_from_but lt b i n xs" "b \<le> i" "heap_down (list_heap lt) i n xs = (k, ys)"
  shows "i \<le> k \<and> mset ys = mset xs \<and> (\<forall>m \<ge> n. m < length xs \<longrightarrow> ys ! m = xs ! m) \<and>
    (parent_from_ok lt b i xs \<or> i < k \<longrightarrow> heap_from lt b n ys) \<and>
    (k = i \<longrightarrow> ys = xs \<and> children_ok lt i n xs)"
  using assms
proof (induction "n - i" arbitrary: i xs rule: less_induct)
  case less
  define j where "j = (if 2 * i + 2 < n \<and> lt (xs ! (2 * i + 2)) (xs ! (2 * i + 1)) then 2 * i + 2 else 2 * i + 1)"
  have simps: "heap_down (list_heap lt) i n xs =
      (if n \<le> 2 * i + 1 \<or> \<not> lt (xs ! j) (xs ! i) then (i, xs)
       else heap_down (list_heap lt) j n (swap_list i j xs))"
    by (subst heap_down.simps) (simp add: Let_def j_def)
  show ?case
  proof (cases "n \<le> 2 * i + 1 \<or> \<not> lt (xs ! j) (xs ! i)")
    case True
    with simps less.prems(5) have r: "k = i" "ys = xs" by simp_all
    have "children_ok lt i n xs"
    proof (cases "n \<le> 2 * i + 1")
      case True
      have "\<not> (0 < m \<and> m < n \<and> parent m = i)" for m
        using True child_cases [of m i] by linarith
      then show ?thesis by (auto simp: children_ok_def)
    next
      case False
      then have "least_child i n xs j" by (intro least_child) (auto simp: j_def)
      moreover have "\<not> lt (xs ! j) (xs ! i)" using True False by blast
      ultimately show ?thesis
        unfolding children_ok_def least_child_def by (meson not_lt_trans)
    qed
    with r less.prems heap_from_iff [OF less.prems(2,4,3)] show ?thesis by simp
  next
    case False
    then have j: "least_child i n xs j" by (intro least_child) (auto simp: j_def)
    then have jn: "i < j" "j < n" by (auto simp: least_child_def)
    note swap = down_swap [OF less.prems(1,3) j]
    from False simps less.prems(5) have rec: "heap_down (list_heap lt) j n (swap_list i j xs) = (k, ys)"
      by simp
    have "n - j < n - i" using jn by linarith
    from less.hyps [OF this _ jn(2) _ _ rec] swap False less.prems(1,4) jn
    have "j \<le> k \<and> mset ys = mset (swap_list i j xs) \<and>
        (\<forall>m \<ge> n. m < length xs \<longrightarrow> ys ! m = swap_list i j xs ! m) \<and> heap_from lt b n ys" by auto
    moreover have "mset (swap_list i j xs) = mset xs"
      using jn less.prems(1) by (intro swap_list_mset) linarith+
    moreover have "swap_list i j xs ! m = xs ! m" if "n \<le> m" for m
      using jn less.prems(1) that by (subst nth_swap_list) (linarith, linarith, auto)
    ultimately show ?thesis using jn by auto
  qed
qed

lemma heap_down_list:
  assumes "n \<le> length xs" "i < n" "heap_but lt i n xs" "heap_down (list_heap lt) i n xs = (k, ys)"
  shows "i \<le> k \<and> mset ys = mset xs \<and> (\<forall>m \<ge> n. m < length xs \<longrightarrow> ys ! m = xs ! m) \<and>
    (parent_ok lt i xs \<or> i < k \<longrightarrow> heap_upto lt n ys) \<and>
    (k = i \<longrightarrow> ys = xs \<and> children_ok lt i n xs)"
  by (rule heap_down_from [OF assms(1-3) _ assms(4)]) simp

text \<open>
  \<open>Init\<close> sifts down the inner nodes from the last to the root: after node \<open>k\<close>, everything from
  \<open>k\<close> on is in order.
\<close>

lemma init_step:
  assumes "heap_from lt (Suc k) (length xs) xs" "k < length xs" "heap_down (list_heap lt) k (length xs) xs = (m, ys)"
  shows "heap_from lt k (length ys) ys \<and> mset ys = mset xs"
proof -
  have "heap_from_but lt k k (length xs) xs"
    unfolding heap_from_but_def
  proof (intro conjI allI impI)
    fix j assume "0 < j \<and> j < length xs \<and> j \<noteq> k \<and> parent j \<noteq> k \<and> k \<le> parent j"
    with assms(1) show "\<not> lt (xs ! j) (xs ! parent j)" by (simp add: heap_from_def)
  next
    fix j assume "0 < j \<and> j < length xs \<and> parent j = k \<and> 0 < k \<and> k \<le> parent k"
    with parent_less [of k] show "\<not> lt (xs ! j) (xs ! parent k)" by linarith
  qed
  moreover have "parent_from_ok lt k k xs"
    unfolding parent_from_ok_def using parent_less [of k] by linarith
  ultimately have "heap_from lt k (length xs) ys" "mset ys = mset xs"
    using heap_down_from [OF order_refl assms(2) _ order_refl assms(3)] by blast+
  then show ?thesis by (metis mset_eq_length)
qed

lemma heap_init_list: "is_heap lt (heap_init (list_heap lt) xs) \<and> mset (heap_init (list_heap lt) xs) = mset xs"
proof -
  define step where "step = (\<lambda>ys i. snd (heap_down (list_heap lt) i (length xs) ys))"
  have "heap_from lt 0 (length zs) zs \<and> mset zs = mset ys"
    if "zs = foldl step ys (rev [0..<k])" "heap_from lt k (length ys) ys" "length ys = length xs" "k \<le> length xs" for k ys zs
    using that
  proof (induction k arbitrary: ys)
    case (Suc k)
    obtain m us where us: "heap_down (list_heap lt) k (length ys) ys = (m, us)" by fastforce
    from init_step [OF Suc.prems(2) _ us] Suc.prems(3,4) have step_ok: "heap_from lt k (length us) us" "mset us = mset ys"
      by simp_all
    have "zs = foldl step us (rev [0..<k])" using Suc.prems(1,3) us by (simp add: step_def)
    from Suc.IH [OF this step_ok(1)] Suc.prems(3,4) mset_eq_length [OF step_ok(2)] step_ok(2) show ?case by simp
  qed simp
  moreover have "heap_from lt (length xs div 2) (length xs) xs"
    unfolding heap_from_def
  proof (intro allI impI)
    fix j assume "0 < j \<and> j < length xs \<and> length xs div 2 \<le> parent j"
    then show "\<not> lt (xs ! j) (xs ! parent j)" unfolding parent_def by linarith
  qed
  moreover have "heap_init (list_heap lt) xs = foldl step xs (rev [0..<length xs div 2])"
    by (simp add: heap_init_def step_def Let_def)
  ultimately show ?thesis by simp
qed

text \<open>The operations of the package on lists.\<close>

lemma heap_fix_list:
  assumes "i < length xs" "heap_but lt i (length xs) xs"
  shows "is_heap lt (heap_fix (list_heap lt) i xs) \<and> mset (heap_fix (list_heap lt) i xs) = mset xs"
proof -
  obtain k ys where down: "heap_down (list_heap lt) i (length xs) xs = (k, ys)" by fastforce
  note d = heap_down_list [OF order_refl assms down]
  then have len: "length ys = length xs" by (metis size_mset)
  show ?thesis
  proof (cases "i < k")
    case True
    with d down len show ?thesis by (simp add: heap_fix_def)
  next
    case False
    with d have "ys = xs" "children_ok lt i (length xs) xs" by auto
    with heap_up_list [OF order_refl assms this(2)] False down show ?thesis
      by (auto simp: heap_fix_def dest: mset_eq_length)
  qed
qed

lemma heap_push_list:
  assumes "is_heap lt xs"
  shows "is_heap lt (heap_push (list_heap lt) x xs) \<and>
    mset (heap_push (list_heap lt) x xs) = add_mset x (mset xs)"
proof -
  let ?ys = "xs @ [x]" and ?n = "length xs"
  have "heap_but lt ?n (length ?ys) ?ys"
    unfolding heap_but_def
  proof (intro conjI allI impI)
    fix j assume j: "0 < j \<and> j < length ?ys \<and> j \<noteq> ?n \<and> parent j \<noteq> ?n"
    then have "j < ?n" by auto
    with parent_le [of j] have "parent j < ?n" by linarith
    note \<open>j < ?n\<close> this
    with j assms show "\<not> lt (?ys ! j) (?ys ! parent j)" by (simp add: heap_upto_def nth_append)
  next
    fix j assume "0 < j \<and> j < length ?ys \<and> parent j = ?n \<and> 0 < ?n"
    with parent_less [of j] show "\<not> lt (?ys ! j) (?ys ! parent ?n)" by auto
  qed
  moreover have "\<not> (0 < j \<and> j < length ?ys \<and> parent j = ?n)" for j
    by (metis leD length_append_singleton less_Suc_eq_le parent_less)
  then have "children_ok lt ?n (length ?ys) ?ys" unfolding children_ok_def by blast
  ultimately show ?thesis
    using heap_up_list [of "length ?ys" ?ys ?n] by (simp add: heap_push_def) (metis size_add_mset size_mset)
qed

text \<open>What \<open>Remove\<close> and \<open>Pop\<close> do once the element to go has been swapped with the last.\<close>

lemma swap_last_but:
  assumes heap: "is_heap lt xs" and n: "length xs = Suc n" and i: "i < n"
  shows "heap_but lt i n (swap_list i n xs)"
proof -
  have ys: "swap_list i n xs ! k = (if k = n then xs ! i else if k = i then xs ! n else xs ! k)" for k
    using i n by (intro nth_swap_list) auto
  have ok: "\<not> lt (xs ! j) (xs ! parent j)" if "0 < j" "j < n" for j
    using heap n that by (simp add: heap_upto_def)
  show ?thesis
    unfolding heap_but_def
  proof (intro conjI allI impI)
    fix j assume j: "0 < j \<and> j < n \<and> j \<noteq> i \<and> parent j \<noteq> i"
    then have "parent j < n" using parent_le [of j] by linarith
    with j ok [of j] show "\<not> lt (swap_list i n xs ! j) (swap_list i n xs ! parent j)"
      by (simp add: ys)
  next
    fix j assume j: "0 < j \<and> j < n \<and> parent j = i \<and> 0 < i"
    then have ne: "j \<noteq> i" "parent i < n" "parent i \<noteq> i"
      using i parent_less [of i] parent_less [of j] by linarith+
    have "\<not> lt (xs ! j) (xs ! parent i)"
      using not_lt_trans [of "xs ! j" "xs ! i"] ok [of j] ok [of i] j i by simp
    with j ne i show "\<not> lt (swap_list i n xs ! j) (swap_list i n xs ! parent i)" by (simp add: ys)
  qed
qed

lemma drop_last:
  assumes "heap_upto lt n zs" "length zs = Suc n"
  shows "is_heap lt (butlast zs)"
  unfolding heap_upto_def
proof (intro allI impI)
  fix j assume "0 < j \<and> j < length (butlast zs)"
  with assms(2) have j: "0 < j" "j < n" by simp_all
  with parent_less [of j] have "parent j < n" by linarith
  with j show "\<not> lt (butlast zs ! j) (butlast zs ! parent j)"
    using assms by (simp add: nth_butlast heap_upto_def)
qed

lemma take_last:
  assumes "mset zs = mset xs" "zs \<noteq> []"
  shows "mset xs = add_mset (last zs) (mset (butlast zs))"
  using assms by (metis append_butlast_last_id mset.simps(1,2) mset_append union_mset_add_mset_right add.right_neutral)

lemma heap_remove_list:
  assumes heap: "is_heap lt xs" and i: "i < length xs" and r: "heap_remove (list_heap lt) i xs = (x, ys)"
  shows "x = xs ! i \<and> is_heap lt ys \<and> mset xs = add_mset x (mset ys)"
proof -
  from i obtain n where n: "length xs = Suc n" by (cases xs) auto
  show ?thesis
  proof (cases "i = n")
    case True
    with r n have xy: "x = last xs" "ys = butlast xs" "xs \<noteq> []" by (auto simp: heap_remove_def)
    have "heap_upto lt n xs" using heap n by (simp add: heap_upto_def)
    from drop_last [OF this n] take_last [OF refl xy(3)] xy True n show ?thesis
      by (simp add: last_conv_nth)
  next
    case False
    with i n have "i < n" by simp
    obtain k us where down: "heap_down (list_heap lt) i n (swap_list i n xs) = (k, us)" by fastforce
    have le: "n \<le> length (swap_list i n xs)" using n by simp
    note but = swap_last_but [OF heap n \<open>i < n\<close>]
    note d = heap_down_list [OF le \<open>i < n\<close> but down]
    have zs: "mset (swap_list i n xs) = mset xs" "swap_list i n xs ! n = xs ! i"
      using n \<open>i < n\<close> by (simp_all add: swap_list_mset nth_swap_list)
    define vs where "vs = (if i < k then us else heap_up (list_heap lt) i us)"
    have vs: "heap_upto lt n vs \<and> mset vs = mset xs \<and> vs ! n = xs ! i"
    proof (cases "i < k")
      case True
      with d zs n show ?thesis by (simp add: vs_def)
    next
      case False
      with d have "us = swap_list i n xs" "children_ok lt i n (swap_list i n xs)" by auto
      with heap_up_list [OF le \<open>i < n\<close> but this(2)] zs n False show ?thesis by (simp add: vs_def)
    qed
    then have len: "length vs = Suc n" using n by (metis mset_eq_length)
    then have ne: "vs \<noteq> []" by auto
    from r False n down have xy: "x = last vs" "ys = butlast vs"
      by (simp_all add: heap_remove_def vs_def Let_def)
    with vs len ne have "x = xs ! i" by (simp add: last_conv_nth)
    with xy drop_last [OF _ len] take_last [OF _ ne] vs show ?thesis by simp
  qed
qed

lemma heap_pop_remove:
  assumes "xs \<noteq> []"
  shows "heap_pop (list_heap lt) xs = heap_remove (list_heap lt) 0 xs"
proof -
  have up: "heap_up (list_heap lt) 0 ys = ys" for ys :: "'a list"
    by (subst heap_up.simps) simp
  show ?thesis
  proof (cases "length xs = 1")
    case True
    have "heap_down (list_heap lt) 0 0 xs = (0, xs)" by (subst heap_down.simps) simp
    moreover have "swap_list 0 0 xs = xs" by (simp add: swap_list_def)
    ultimately show ?thesis using True by (simp add: heap_pop_def heap_remove_def)
  next
    case False
    with assms have "length xs - 1 \<noteq> 0" by (cases xs) auto
    then show ?thesis by (simp add: heap_pop_def heap_remove_def up case_prod_beta Let_def)
  qed
qed

lemma heap_pop_list:
  assumes "is_heap lt xs" "xs \<noteq> []" "heap_pop (list_heap lt) xs = (x, ys)"
  shows "x = xs ! 0 \<and> is_heap lt ys \<and> mset xs = add_mset x (mset ys)"
  using assms heap_pop_remove [OF assms(2)] heap_remove_list [OF assms(1), of 0 x ys] by simp

end

section \<open>Clients of the package\<close>

text \<open>
  A client keeps its elements in a state, of which \<open>elems\<close> is the list. Its operations act on
  that list as the interface asks, on the states its own invariant \<open>ok\<close> describes; \<open>elem\<close> is
  the element a pushed value becomes.
\<close>

locale heap_client = strict_weak_order lt
  for lt :: "'a \<Rightarrow> 'a \<Rightarrow> bool" +
  fixes h :: "('x, 's) heap_interface"
    and elems :: "'s \<Rightarrow> 'a list"
    and elem :: "'x \<Rightarrow> 's \<Rightarrow> 'a"
    and fresh :: "'x \<Rightarrow> 's \<Rightarrow> bool"
    and ok :: "'s \<Rightarrow> bool"
  assumes client_len: "ok s \<Longrightarrow> h_len h s = length (elems s)"
    and client_less: "ok s \<Longrightarrow> i < length (elems s) \<Longrightarrow> j < length (elems s) \<Longrightarrow>
      h_less h s i j = lt (elems s ! i) (elems s ! j)"
    and client_swap: "ok s \<Longrightarrow> i < length (elems s) \<Longrightarrow> j < length (elems s) \<Longrightarrow>
      ok (h_swap h i j s) \<and> elems (h_swap h i j s) = swap_list i j (elems s)"
    and client_push: "ok s \<Longrightarrow> fresh x s \<Longrightarrow> ok (h_push h x s) \<and> elems (h_push h x s) = elems s @ [elem x s]"
    and client_pop: "ok s \<Longrightarrow> elems s \<noteq> [] \<Longrightarrow>
      ok (snd (h_pop h s)) \<and> elems (snd (h_pop h s)) = butlast (elems s) \<and>
      elem (fst (h_pop h s)) s = last (elems s)"
begin

lemma client_up:
  assumes "ok s" "j < length (elems s)"
  shows "ok (heap_up h j s) \<and> elems (heap_up h j s) = heap_up (list_heap lt) j (elems s)"
  using assms
proof (induction j arbitrary: s rule: less_induct)
  case (less j)
  let ?i = "(j - 1) div 2"
  have i: "?i \<le> j" "?i < length (elems s)" using less.prems(2) by linarith+
  show ?case
  proof (cases "?i = j \<or> \<not> lt (elems s ! j) (elems s ! ?i)")
    case True
    then have "heap_up h j s = s" "heap_up (list_heap lt) j (elems s) = elems s"
      using client_less [OF less.prems i(2)] by (subst heap_up.simps; auto simp: Let_def)+
    with less.prems show ?thesis by simp
  next
    case False
    with i have "?i < j" by linarith
    have "heap_up h j s = heap_up h ?i (h_swap h ?i j s)"
      "heap_up (list_heap lt) j (elems s) = heap_up (list_heap lt) ?i (swap_list ?i j (elems s))"
      using False client_less [OF less.prems i(2)] by (subst heap_up.simps; auto simp: Let_def)+
    with less.IH [OF \<open>?i < j\<close>, of "h_swap h ?i j s"] client_swap [OF less.prems(1) i(2) less.prems(2)] i
    show ?thesis by simp
  qed
qed

lemma client_down:
  assumes "ok s" "i < n" "n \<le> length (elems s)" "heap_down h i n s = (k, s')"
  shows "ok s' \<and> heap_down (list_heap lt) i n (elems s) = (k, elems s')"
  using assms
proof (induction "n - i" arbitrary: i s rule: less_induct)
  case less
  define j where "j = (if 2 * i + 2 < n \<and> lt (elems s ! (2 * i + 2)) (elems s ! (2 * i + 1)) then 2 * i + 2 else 2 * i + 1)"
  have j1: "(if 2 * i + 1 + 1 < n \<and> h_less h s (2 * i + 1 + 1) (2 * i + 1) then 2 * i + 1 + 1 else 2 * i + 1) = j"
    if "2 * i + 1 < n"
    using client_less [OF less.prems(1), of "2 * i + 2" "2 * i + 1"] less.prems(3) that by (auto simp: j_def)
  show ?case
  proof (cases "n \<le> 2 * i + 1")
    case True
    then have "heap_down h i n s = (i, s)" by (subst heap_down.simps) simp
    moreover have "heap_down (list_heap lt) i n (elems s) = (i, elems s)"
      using True by (subst heap_down.simps) simp
    ultimately show ?thesis using less.prems by auto
  next
    case False
    then have jn: "i < j" "j < n" by (auto simp: j_def)
    with less.prems(3) have len: "i < length (elems s)" "j < length (elems s)" by linarith+
    have step: "heap_down h i n s = (if \<not> lt (elems s ! j) (elems s ! i) then (i, s)
        else heap_down h j n (h_swap h i j s))"
      using False client_less [OF less.prems(1) len(2,1)]
      by (subst heap_down.simps) (simp only: Let_def if_not_P [OF False] j1 not_le if_False)
    have list_step: "heap_down (list_heap lt) i n (elems s) = (if \<not> lt (elems s ! j) (elems s ! i) then (i, elems s)
        else heap_down (list_heap lt) j n (swap_list i j (elems s)))"
      using False by (subst heap_down.simps) (simp add: Let_def j_def)
    show ?thesis
    proof (cases "lt (elems s ! j) (elems s ! i)")
      case True
      have "n - j < n - i" using jn by linarith
      with less.hyps [OF this, of "h_swap h i j s"] client_swap [OF less.prems(1) len] True step list_step jn less.prems
      show ?thesis by simp
    next
      case False
      with step list_step less.prems show ?thesis by simp
    qed
  qed
qed

lemma client_fix:
  assumes ok: "ok s" and i: "i < length (elems s)" and but: "heap_but lt i (length (elems s)) (elems s)"
  shows "ok (heap_fix h i s) \<and> is_heap lt (elems (heap_fix h i s)) \<and>
    mset (elems (heap_fix h i s)) = mset (elems s)"
proof -
  obtain k s' where down: "heap_down h i (length (elems s)) s = (k, s')" by fastforce
  note d = client_down [OF ok i order_refl down]
  have "length (elems s') = length (elems s)"
    using heap_down_list [OF order_refl i but] d by (metis mset_eq_length)
  with client_up [of s' i] d i
  have "ok (heap_fix h i s) \<and> elems (heap_fix h i s) = heap_fix (list_heap lt) i (elems s)"
    using down client_len [OF ok] by (simp add: heap_fix_def)
  with heap_fix_list [OF i but] show ?thesis by simp
qed

lemma client_heap_push:
  assumes ok: "ok s" and x: "fresh x s" and heap: "is_heap lt (elems s)"
  shows "ok (heap_push h x s) \<and> is_heap lt (elems (heap_push h x s)) \<and>
    mset (elems (heap_push h x s)) = add_mset (elem x s) (mset (elems s))"
proof -
  note push = client_push [OF ok x]
  then have "elems (heap_push h x s) = heap_push (list_heap lt) (elem x s) (elems s)" "ok (heap_push h x s)"
    using client_up [of "h_push h x s" "length (elems s)"] client_len [of "h_push h x s"]
    by (simp_all add: heap_push_def Let_def)
  with heap_push_list [OF heap] show ?thesis by simp
qed

lemma client_remove:
  assumes ok: "ok s" and i: "i < length (elems s)" and heap: "is_heap lt (elems s)"
    and r: "heap_remove h i s = (x, s')"
  shows "ok s' \<and> is_heap lt (elems s') \<and> mset (elems s) = add_mset (elems s ! i) (mset (elems s'))"
proof -
  from i obtain n where n: "length (elems s) = Suc n" by (cases "elems s") auto
  show ?thesis
  proof (cases "i = n")
    case True
    with r client_len [OF ok] n have "s' = snd (h_pop h s)" by (simp add: heap_remove_def split: prod.splits)
    moreover have "elems s \<noteq> []" using i by auto
    moreover have "heap_remove (list_heap lt) i (elems s) = (last (elems s), butlast (elems s))"
      using True n by (simp add: heap_remove_def)
    ultimately show ?thesis using client_pop [OF ok] heap_remove_list [OF heap i] by auto
  next
    case False
    with i n have "i < n" by simp
    note swap = client_swap [OF ok i, of n]
    obtain k s1 where down: "heap_down h i n (h_swap h i n s) = (k, s1)" by fastforce
    have "n \<le> length (elems (h_swap h i n s))" using swap n by simp
    with client_down [OF _ \<open>i < n\<close> this down] swap n
    have d: "ok s1" "heap_down (list_heap lt) i n (swap_list i n (elems s)) = (k, elems s1)" by simp_all
    have "mset (elems s1) = mset (swap_list i n (elems s))"
      using heap_down_list [OF _ \<open>i < n\<close> swap_last_but [OF heap n \<open>i < n\<close>] d(2)] n by simp
    then have len: "length (elems s1) = Suc n" using n by (metis mset_eq_length length_swap_list)
    define s2 where "s2 = (if i < k then s1 else heap_up h i s1)"
    have s2: "ok s2" "elems s2 = (if i < k then elems s1 else heap_up (list_heap lt) i (elems s1))"
      using client_up [OF d(1), of i] d len i n by (simp_all add: s2_def)
    have r2: "heap_remove (list_heap lt) i (elems s) = (last (elems s2), butlast (elems s2))"
      using False n d(2) s2(2) by (simp add: heap_remove_def Let_def)
    have "heap_remove h i s = h_pop h s2"
      using False client_len [OF ok] n down by (simp add: heap_remove_def Let_def s2_def)
    with r have s': "s' = snd (h_pop h s2)" by simp
    note list = heap_remove_list [OF heap i r2]
    then have "Suc n = Suc (length (butlast (elems s2)))" using n by (metis size_add_mset size_mset)
    then have "elems s2 \<noteq> []" using \<open>i < n\<close> by auto
    with s' client_pop [OF s2(1)] list show ?thesis by auto
  qed
qed

text \<open>The element at the front is a least one.\<close>

lemma client_least:
  "is_heap lt (elems s) \<Longrightarrow> e \<in> set (elems s) \<Longrightarrow> \<not> lt e (elems s ! 0)"
  by (rule heap_least)

end

text \<open>A plain list is a client.\<close>

sublocale strict_weak_order \<subseteq> plain: heap_client lt "list_heap lt" "\<lambda>xs. xs" "\<lambda>x xs. x" "\<lambda>x xs. True" "\<lambda>xs. True"
  by unfold_locales auto

end
