(* ===== verification/Probe.thy ===== *)
theory Probe
  imports RoutingTable GoHeap
begin

text \<open>
  \<open>routing/probe.go\<close>: the machine that checks the nodes of the routing table in turn. The list of
  node values keeps pointers to its entries in a map and in a heap; an address into
  \<open>nvl_entries\<close> is such a pointer. Each entry knows its place in the heap, which the heap's
  \<open>Swap\<close>, \<open>Push\<close> and \<open>Pop\<close> maintain.
\<close>

section \<open>The list of node values\<close>

record 'n node_value =
  nv_node :: 'n
  nv_cpl :: int
  nv_next_check_due :: time
  nv_check_deadline :: time

record 'n node_value_entry =
  ne_value :: "'n node_value"
  ne_index :: int

record 'n node_value_list =
  nvl_nodes :: "string \<rightharpoonup> nat"
  nvl_entries :: "'n node_value_entry list"
  nvl_pending :: "nat list"
  nvl_ongoing :: "'n list"

definition new_node_value_list :: "'n node_value_list" where
  "new_node_value_list = \<lparr>nvl_nodes = (\<lambda>_. None), nvl_entries = [], nvl_pending = [], nvl_ongoing = []\<rparr>"

abbreviation value_at :: "'n node_value_list \<Rightarrow> nat \<Rightarrow> 'n node_value" where
  "value_at l a \<equiv> ne_value (nvl_entries l ! a)"

abbreviation index_at :: "'n node_value_list \<Rightarrow> nat \<Rightarrow> int" where
  "index_at l a \<equiv> ne_index (nvl_entries l ! a)"

text \<open>The heap of pending checks: its \<open>Less\<close>, \<open>Swap\<close>, \<open>Push\<close> and \<open>Pop\<close>.\<close>

definition check_before :: "'n node_value \<Rightarrow> 'n node_value \<Rightarrow> bool" where
  "check_before u v \<longleftrightarrow>
     (if nv_next_check_due u = nv_next_check_due v then nv_cpl v < nv_cpl u
      else time_before (nv_next_check_due u) (nv_next_check_due v))"

definition set_index :: "nat \<Rightarrow> int \<Rightarrow> 'n node_value_list \<Rightarrow> 'n node_value_list" where
  "set_index a i l = l\<lparr>nvl_entries := (nvl_entries l)[a := (nvl_entries l ! a)\<lparr>ne_index := i\<rparr>]\<rparr>"

definition pending_less :: "'n node_value_list \<Rightarrow> nat \<Rightarrow> nat \<Rightarrow> bool" where
  "pending_less l i j \<longleftrightarrow>
     check_before (value_at l (nvl_pending l ! i)) (value_at l (nvl_pending l ! j))"

definition pending_swap :: "nat \<Rightarrow> nat \<Rightarrow> 'n node_value_list \<Rightarrow> 'n node_value_list" where
  "pending_swap i j l =
     (let l1 = l\<lparr>nvl_pending := swap_list i j (nvl_pending l)\<rparr>;
          l2 = set_index (nvl_pending l1 ! i) (int i) l1
      in set_index (nvl_pending l2 ! j) (int j) l2)"

definition pending_push :: "nat \<Rightarrow> 'n node_value_list \<Rightarrow> 'n node_value_list" where
  "pending_push a l =
     (let n = length (nvl_pending l); l1 = set_index a (int n) l
      in l1\<lparr>nvl_pending := nvl_pending l1 @ [a]\<rparr>)"

definition pending_pop :: "'n node_value_list \<Rightarrow> nat \<times> 'n node_value_list" where
  "pending_pop l =
     (let a = last (nvl_pending l); l1 = set_index a (-1) l
      in (a, l1\<lparr>nvl_pending := butlast (nvl_pending l1)\<rparr>))"

definition pending_heap :: "(nat, 'n node_value_list) heap_interface" where
  "pending_heap = \<lparr>h_len = (\<lambda>l. length (nvl_pending l)), h_less = pending_less, h_swap = pending_swap,
     h_push = pending_push, h_pop = pending_pop\<rparr>"

text \<open>\<open>removeFromOngoing\<close>: the first entry with the key is swapped with the last and dropped.\<close>

fun ongoing_position :: "('k, 'n) kad_ops \<Rightarrow> 'n \<Rightarrow> 'n list \<Rightarrow> nat \<Rightarrow> nat option" where
  "ongoing_position kd n [] i = None"
| "ongoing_position kd n (m # ms) i =
     (if node_key kd n = node_key kd m then Some i else ongoing_position kd n ms (i + 1))"

definition remove_from_ongoing ::
  "('k, 'n) kad_ops \<Rightarrow> 'n \<Rightarrow> 'n node_value_list \<Rightarrow> 'n node_value_list" where
  "remove_from_ongoing kd n l =
     (case ongoing_position kd n (nvl_ongoing l) 0 of
        None \<Rightarrow> l
      | Some i \<Rightarrow>
          (let last_i = length (nvl_ongoing l) - 1;
               os = (if 1 < length (nvl_ongoing l) then swap_list i last_i (nvl_ongoing l) else nvl_ongoing l)
           in l\<lparr>nvl_ongoing := take last_i os\<rparr>))"

text \<open>\<open>Put\<close>.\<close>

definition put_entry ::
  "('k, 'n) kad_ops \<Rightarrow> 'n node_value \<Rightarrow> 'n node_value_list \<Rightarrow> nat \<times> 'n node_value_list" where
  "put_entry kd nv l =
     (case nvl_nodes l (key_hex kd (node_key kd (nv_node nv))) of
        None \<Rightarrow>
          (length (nvl_entries l),
           l\<lparr>nvl_entries := nvl_entries l @ [\<lparr>ne_value = nv, ne_index = -1\<rparr>],
             nvl_nodes := (nvl_nodes l)(key_hex kd (node_key kd (nv_node nv)) \<mapsto> length (nvl_entries l))\<rparr>)
      | Some a \<Rightarrow>
          (a, l\<lparr>nvl_entries := (nvl_entries l)[a := (nvl_entries l ! a)\<lparr>ne_value := nv\<rparr>]\<rparr>))"

definition nvl_put :: "('k, 'n) kad_ops \<Rightarrow> 'n node_value \<Rightarrow> 'n node_value_list \<Rightarrow> 'n node_value_list" where
  "nvl_put kd nv l =
     (let (a, l1) = put_entry kd nv l;
          l2 = (if index_at l1 a = -1 then heap_push pending_heap a l1 else l1);
          l3 = heap_fix pending_heap (nat (index_at l2 a)) l2
      in remove_from_ongoing kd (nv_node nv) l3)"

definition nvl_get :: "('k, 'n) kad_ops \<Rightarrow> 'n \<Rightarrow> 'n node_value_list \<Rightarrow> 'n node_value option" where
  "nvl_get kd n l = map_option (value_at l) (nvl_nodes l (key_hex kd (node_key kd n)))"

definition pending_count :: "'n node_value_list \<Rightarrow> nat" where
  "pending_count l = length (nvl_pending l)"

definition ongoing_count :: "'n node_value_list \<Rightarrow> nat" where
  "ongoing_count l = length (nvl_ongoing l)"

text \<open>\<open>Remove\<close>.\<close>

definition nvl_remove :: "('k, 'n) kad_ops \<Rightarrow> 'n \<Rightarrow> 'n node_value_list \<Rightarrow> 'n node_value_list" where
  "nvl_remove kd n l =
     (case nvl_nodes l (key_hex kd (node_key kd n)) of
        None \<Rightarrow> l
      | Some a \<Rightarrow>
          (let l1 = l\<lparr>nvl_nodes := (nvl_nodes l)(key_hex kd (node_key kd n) := None)\<rparr>;
               l2 = (if 0 \<le> index_at l1 a then snd (heap_remove pending_heap (nat (index_at l1 a)) l1) else l1)
           in remove_from_ongoing kd n l2))"

text \<open>\<open>FindCheckPastDeadline\<close>, over the list of ongoing checks.\<close>

fun past_deadline ::
  "('k, 'n) kad_ops \<Rightarrow> time \<Rightarrow> 'n node_value_list \<Rightarrow> 'n list \<Rightarrow> 'n option" where
  "past_deadline kd ts l [] = None"
| "past_deadline kd ts l (n # ns) =
     (case nvl_nodes l (key_hex kd (node_key kd n)) of
        None \<Rightarrow> Some n
      | Some a \<Rightarrow>
          (if \<not> time_after (nv_check_deadline (value_at l a)) ts then Some n
           else past_deadline kd ts l ns))"

definition find_check_past_deadline ::
  "('k, 'n) kad_ops \<Rightarrow> time \<Rightarrow> 'n node_value_list \<Rightarrow> 'n option" where
  "find_check_past_deadline kd ts l = past_deadline kd ts l (nvl_ongoing l)"

text \<open>\<open>nextDeadline\<close> and \<open>nextDue\<close>.\<close>

definition nvl_next_deadline :: "('k, 'n) kad_ops \<Rightarrow> 'n node_value_list \<Rightarrow> time" where
  "nvl_next_deadline kd l =
     foldl (\<lambda>earliest n.
        case nvl_nodes l (key_hex kd (node_key kd n)) of
          None \<Rightarrow> earliest
        | Some a \<Rightarrow> earlier earliest (nv_check_deadline (value_at l a))) zero_time (nvl_ongoing l)"

definition nvl_next_due :: "('k, 'n) kad_ops \<Rightarrow> 'n node_value_list \<Rightarrow> time" where
  "nvl_next_due kd l =
     earlier (if nvl_pending l \<noteq> [] then nv_next_check_due (value_at l (nvl_pending l ! 0)) else zero_time)
       (nvl_next_deadline kd l)"

definition peek_next :: "time \<Rightarrow> 'n node_value_list \<Rightarrow> 'n node_value option" where
  "peek_next ts l =
     (if nvl_pending l = [] then None
      else if time_after (nv_next_check_due (value_at l (nvl_pending l ! 0))) ts then None
      else Some (value_at l (nvl_pending l ! 0)))"

text \<open>\<open>MarkOngoing\<close>.\<close>

definition mark_ongoing ::
  "('k, 'n) kad_ops \<Rightarrow> 'n \<Rightarrow> time \<Rightarrow> 'n node_value_list \<Rightarrow> 'n node_value_list" where
  "mark_ongoing kd n deadline l =
     (case nvl_nodes l (key_hex kd (node_key kd n)) of
        None \<Rightarrow> l
      | Some a \<Rightarrow>
          (let e = nvl_entries l ! a;
               l1 = l\<lparr>nvl_entries := (nvl_entries l)
                        [a := e\<lparr>ne_value := (ne_value e)\<lparr>nv_check_deadline := deadline\<rparr>\<rparr>]\<rparr>;
               l2 = snd (heap_remove pending_heap (nat (index_at l1 a)) l1)
           in l2\<lparr>nvl_ongoing := nvl_ongoing l2 @ [nv_node (value_at l2 a)]\<rparr>))"

section \<open>The machine\<close>

definition ProbeActivityID :: activity_id where
  "ProbeActivityID = ''probe''"

record probe_config =
  pb_check_interval :: duration
  pb_concurrency :: int
  pb_timeout :: duration
  pb_tracer :: bool
  pb_meter :: bool

definition probe_config_validate :: "probe_config \<Rightarrow> go_error option" where
  "probe_config_validate cfg = first_error ''ProbeConfig''
     [(\<not> pb_tracer cfg, ''tracer must not be nil''),
      (\<not> pb_meter cfg, ''meter must not be nil''),
      (pb_concurrency cfg < 1, ''concurrency must be greater than zero''),
      (pb_timeout cfg < 1, ''timeout must be greater than zero''),
      (pb_check_interval cfg < 1, ''revisit interval must be greater than zero'')]"

definition default_probe_config :: probe_config where
  "default_probe_config = \<lparr>pb_check_interval = 6 * hour, pb_concurrency = 3, pb_timeout = minute,
     pb_tracer = True, pb_meter = True\<rparr>"

datatype 'n probe_state =
    StateProbeConnectivityCheck 'n
  | StateProbeIdle time
  | StateProbeWaitingAtCapacity time
  | StateProbeWaitingWithCapacity time
  | StateProbeNodeFailure 'n

datatype 'n probe_event =
    EventProbePoll
  | EventProbeAdd 'n
  | EventProbeRemove 'n
  | EventProbeConnectivityCheckSuccess 'n
  | EventProbeConnectivityCheckFailure 'n go_error
  | EventProbeConnectivityCheckDropped 'n
  | EventProbeNotifyConnectivity 'n

record ('n, 'rt) probe_machine =
  pb_rt :: 'rt
  pb_nvl :: "'n node_value_list"
  pb_cfg :: probe_config
  pb_pending_count :: nat

definition new_probe :: "'rt \<Rightarrow> probe_config option \<Rightarrow> ('n, 'rt) probe_machine go_result" where
  "new_probe rt cfg_opt =
     (case (case cfg_opt of None \<Rightarrow> None | Some cfg \<Rightarrow> probe_config_validate cfg) of
        Some e \<Rightarrow> Inl e
      | None \<Rightarrow> Inr \<lparr>pb_rt = rt, pb_nvl = new_node_value_list,
          pb_cfg = (case cfg_opt of None \<Rightarrow> default_probe_config | Some cfg \<Rightarrow> cfg), pb_pending_count = 0\<rparr>)"

text \<open>The successful check, the dropped one and the notification all put the next check off.\<close>

definition reschedule ::
  "('k, 'n) kad_ops \<Rightarrow> time \<Rightarrow> 'n \<Rightarrow> ('n, 'rt) probe_machine \<Rightarrow> ('n, 'rt) probe_machine" where
  "reschedule kd now n p =
     (case nvl_get kd n (pb_nvl p) of
        None \<Rightarrow> p
      | Some nv \<Rightarrow>
          p\<lparr>pb_nvl := nvl_put kd (nv\<lparr>nv_next_check_due := time_add now (pb_check_interval (pb_cfg p))\<rparr>)
              (pb_nvl p)\<rparr>)"

text \<open>A node that failed leaves the routing table and the list.\<close>

definition drop_node ::
  "('k, 'n) kad_ops \<Rightarrow> ('k, 'n, 'rt) rt_ops \<Rightarrow> 'n \<Rightarrow> ('n, 'rt) probe_machine \<Rightarrow> ('n, 'rt) probe_machine" where
  "drop_node kd rt n p =
     p\<lparr>pb_rt := rt_remove_key rt (node_key kd n) (pb_rt p), pb_nvl := nvl_remove kd n (pb_nvl p)\<rparr>"

fun handle_probe_event ::
  "('k, 'n) kad_ops \<Rightarrow> ('k, 'n, 'rt) rt_ops \<Rightarrow> time \<Rightarrow> 'n probe_event \<Rightarrow> ('n, 'rt) probe_machine \<Rightarrow>
     'n probe_state option \<times> ('n, 'rt) probe_machine" where
  "handle_probe_event kd rt now EventProbePoll p = (None, p)"
| "handle_probe_event kd rt now (EventProbeAdd n) p =
     (case rt_get_node rt (pb_rt p) (node_key kd n) of
        None \<Rightarrow> (None, p)
      | Some m \<Rightarrow>
          (None, p\<lparr>pb_nvl := nvl_put kd
             \<lparr>nv_node = n, nv_cpl = rt_cpl rt (pb_rt p) (node_key kd n),
              nv_next_check_due = time_add now (pb_check_interval (pb_cfg p)),
              nv_check_deadline = zero_time\<rparr> (pb_nvl p)\<rparr>))"
| "handle_probe_event kd rt now (EventProbeRemove n) p =
     (Some (StateProbeNodeFailure n), drop_node kd rt n p)"
| "handle_probe_event kd rt now (EventProbeConnectivityCheckSuccess n) p = (None, reschedule kd now n p)"
| "handle_probe_event kd rt now (EventProbeConnectivityCheckFailure n err) p =
     (Some (StateProbeNodeFailure n), drop_node kd rt n p)"
| "handle_probe_event kd rt now (EventProbeConnectivityCheckDropped n) p = (None, reschedule kd now n p)"
| "handle_probe_event kd rt now (EventProbeNotifyConnectivity n) p = (None, reschedule kd now n p)"

definition probe_at_capacity :: "('n, 'rt) probe_machine \<Rightarrow> bool" where
  "probe_at_capacity p \<longleftrightarrow> pb_concurrency (pb_cfg p) \<le> int (ongoing_count (pb_nvl p))"

definition probe_next ::
  "('k, 'n) kad_ops \<Rightarrow> ('k, 'n, 'rt) rt_ops \<Rightarrow> time \<Rightarrow> ('n, 'rt) probe_machine \<Rightarrow>
     'n probe_state \<times> ('n, 'rt) probe_machine" where
  "probe_next kd rt now p =
     (case find_check_past_deadline kd now (pb_nvl p) of
        Some n \<Rightarrow> (StateProbeNodeFailure n, drop_node kd rt n p)
      | None \<Rightarrow>
          (if probe_at_capacity p then (StateProbeWaitingAtCapacity (nvl_next_deadline kd (pb_nvl p)), p)
           else case peek_next now (pb_nvl p) of
               None \<Rightarrow>
                 (if 0 < ongoing_count (pb_nvl p)
                  then (StateProbeWaitingWithCapacity (nvl_next_due kd (pb_nvl p)), p)
                  else (StateProbeIdle (nvl_next_due kd (pb_nvl p)), p))
             | Some nv \<Rightarrow>
                 (StateProbeConnectivityCheck (nv_node nv),
                  p\<lparr>pb_nvl := mark_ongoing kd (nv_node nv) (time_add now (pb_timeout (pb_cfg p))) (pb_nvl p)\<rparr>)))"

definition probe_advance ::
  "('k, 'n) kad_ops \<Rightarrow> ('k, 'n, 'rt) rt_ops \<Rightarrow> time \<Rightarrow> 'n probe_event \<Rightarrow> ('n, 'rt) probe_machine \<Rightarrow>
     'n probe_state \<times> ('n, 'rt) probe_machine" where
  "probe_advance kd rt now ev p =
     (let (out, p') =
        (case handle_probe_event kd rt now ev p of
           (Some st, p1) \<Rightarrow> (st, p1)
         | (None, p1) \<Rightarrow> probe_next kd rt now p1)
      in (out, p'\<lparr>pb_pending_count := pending_count (pb_nvl p')\<rparr>))"

end
