(* ===== verification/HeapPlaces.thy ===== *)
theory HeapPlaces
  imports GoHeap
begin

text \<open>
  A heap whose elements know their place in it, as the clients of \<open>container/heap\<close> in this program
  keep them: what one swap does to the places, and the invariants that the operations of the heap
  package inherit from the methods of the client.
\<close>

lemma swap_list_set: "i < length xs \<Longrightarrow> j < length xs \<Longrightarrow> set (swap_list i j xs) = set xs"
  by (metis swap_list_mset set_mset_mset)

lemma swap_list_map: "i < length xs \<Longrightarrow> j < length xs \<Longrightarrow> swap_list i j (map f xs) = map f (swap_list i j xs)"
  by (simp add: swap_list_def map_update)

lemma swap_list_distinct: "i < length xs \<Longrightarrow> j < length xs \<Longrightarrow> distinct (swap_list i j xs) = distinct xs"
  by (metis swap_list_mset mset_eq_imp_distinct_iff)

text \<open>
  The places \<open>idx'\<close> that \<open>Swap\<close> leaves, writing that of the element now at \<open>i\<close> and then that of the
  element now at \<open>j\<close>, are right when those before it were.
\<close>

lemma swap_places:
  assumes "distinct p" and ij: "i < length p" "j < length p"
    and idx: "\<And>k. k < length p \<Longrightarrow> idx (p ! k) = f k"
    and idx': "\<And>b. b \<in> set p \<Longrightarrow> idx' b = (if b = swap_list i j p ! j then f j
        else if b = swap_list i j p ! i then f i else idx b)"
    and k: "k < length p"
  shows "idx' (swap_list i j p ! k) = f k"
proof -
  let ?q = "swap_list i j p"
  have same: "?q ! k = ?q ! m \<longleftrightarrow> k = m" if "m < length p" for m
    using swap_list_distinct [OF ij] assms(1) k that by (simp add: nth_eq_iff_index_eq)
  have "?q ! k \<in> set p" using swap_list_set [OF ij] k by (metis length_swap_list nth_mem)
  then have "idx' (?q ! k) = (if k = j then f j else if k = i then f i else idx (?q ! k))"
    unfolding idx' [OF \<open>?q ! k \<in> set p\<close>] by (simp only: same [OF ij(1)] same [OF ij(2)] simp_thms)
  also have "\<dots> = f k" using nth_swap_list [OF ij, of k] idx [OF k] by auto
  finally show ?thesis .
qed

text \<open>What the methods of the client keep, the operations of the package keep.\<close>

lemma heap_push_invariant:
  assumes "\<And>i j s. P s \<Longrightarrow> P (h_swap h i j s)" "P (h_push h x s)"
  shows "P (heap_push h x s)"
  unfolding heap_push_def Let_def by (rule heap_up_invariant [where P = P]) (use assms in auto)

lemma heap_fix_invariant:
  assumes swap: "\<And>i j s. P s \<Longrightarrow> P (h_swap h i j s)" and "P s"
  shows "P (heap_fix h i s)"
  using heap_down_invariant [where P = P, OF swap \<open>P s\<close>]
  by (auto simp: heap_fix_def case_prod_beta intro: heap_up_invariant [where P = P] swap)

lemma heap_remove_invariant:
  assumes swap: "\<And>i j s. P s \<Longrightarrow> P (h_swap h i j s)" and pop: "\<And>s. P s \<Longrightarrow> P (snd (h_pop h s))" and "P s"
  shows "P (snd (heap_remove h i s))"
  using heap_down_invariant [where P = P, OF swap swap [OF \<open>P s\<close>]] \<open>P s\<close>
  by (auto simp: heap_remove_def case_prod_beta Let_def
      intro!: pop intro: heap_up_invariant [where P = P] swap)

end
