(* ===== verification/ProbeFacts.thy ===== *)
theory ProbeFacts
  imports Probe HeapPlaces
begin

text \<open>
  The list of node values keeps its heap in order and its entries' places right, and every node
  it tracks is either scheduled for a check or being checked.
\<close>

section \<open>The pending heap is a client of the heap package\<close>

definition pending_ok :: "'n node_value_list \<Rightarrow> bool" where
  "pending_ok l \<longleftrightarrow>
     distinct (nvl_pending l) \<and>
     (\<forall>a \<in> set (nvl_pending l). a < length (nvl_entries l)) \<and>
     (\<forall>i < length (nvl_pending l). index_at l (nvl_pending l ! i) = int i) \<and>
     (\<forall>a < length (nvl_entries l). a \<notin> set (nvl_pending l) \<longrightarrow> index_at l a = -1)"

definition pending_elems :: "'n node_value_list \<Rightarrow> (nat \<times> 'n node_value) list" where
  "pending_elems l = map (\<lambda>a. (a, value_at l a)) (nvl_pending l)"

definition elem_before :: "nat \<times> 'n node_value \<Rightarrow> nat \<times> 'n node_value \<Rightarrow> bool" where
  "elem_before e f \<longleftrightarrow> check_before (snd e) (snd f)"

definition pending_fresh :: "nat \<Rightarrow> 'n node_value_list \<Rightarrow> bool" where
  "pending_fresh a l \<longleftrightarrow> a < length (nvl_entries l) \<and> a \<notin> set (nvl_pending l)"

lemma set_index_simps [simp]:
  "nvl_nodes (set_index a i l) = nvl_nodes l" "nvl_pending (set_index a i l) = nvl_pending l"
  "nvl_ongoing (set_index a i l) = nvl_ongoing l" "length (nvl_entries (set_index a i l)) = length (nvl_entries l)"
  by (simp_all add: set_index_def)

lemma value_at_set_index [simp]: "value_at (set_index a i l) b = value_at l b"
  by (cases "b = a"; cases "a < length (nvl_entries l)") (simp_all add: set_index_def list_update_beyond)

lemma index_at_set_index [simp]:
  "index_at (set_index a i l) b = (if b = a \<and> a < length (nvl_entries l) then i else index_at l b)"
  by (cases "b = a"; cases "a < length (nvl_entries l)") (simp_all add: set_index_def list_update_beyond)

lemma set_index_pending [simp]:
  "set_index a i (l\<lparr>nvl_pending := p\<rparr>) = (set_index a i l)\<lparr>nvl_pending := p\<rparr>"
  by (simp add: set_index_def)

lemma pending_push_simps [simp]:
  "nvl_pending (pending_push a l) = nvl_pending l @ [a]"
  "nvl_nodes (pending_push a l) = nvl_nodes l" "nvl_ongoing (pending_push a l) = nvl_ongoing l"
  "length (nvl_entries (pending_push a l)) = length (nvl_entries l)"
  "value_at (pending_push a l) b = value_at l b"
  "index_at (pending_push a l) b =
     (if b = a \<and> a < length (nvl_entries l) then int (length (nvl_pending l)) else index_at l b)"
  by (simp_all add: pending_push_def Let_def)

lemma pending_pop_simps [simp]:
  "nvl_pending (snd (pending_pop l)) = butlast (nvl_pending l)"
  "nvl_nodes (snd (pending_pop l)) = nvl_nodes l" "nvl_ongoing (snd (pending_pop l)) = nvl_ongoing l"
  "length (nvl_entries (snd (pending_pop l))) = length (nvl_entries l)"
  "value_at (snd (pending_pop l)) b = value_at l b"
  "index_at (snd (pending_pop l)) b =
     (if b = last (nvl_pending l) \<and> b < length (nvl_entries l) then -1 else index_at l b)"
  "fst (pending_pop l) = last (nvl_pending l)"
  by (auto simp: pending_pop_def Let_def)

lemma pending_swap_simps [simp]:
  "nvl_pending (pending_swap i j l) = swap_list i j (nvl_pending l)"
  "nvl_nodes (pending_swap i j l) = nvl_nodes l" "nvl_ongoing (pending_swap i j l) = nvl_ongoing l"
  "length (nvl_entries (pending_swap i j l)) = length (nvl_entries l)"
  "value_at (pending_swap i j l) b = value_at l b"
  by (simp_all add: pending_swap_def Let_def)

lemma pending_swap_ok:
  assumes ok: "pending_ok l" and ij: "i < length (nvl_pending l)" "j < length (nvl_pending l)"
  shows "pending_ok (pending_swap i j l)"
proof -
  let ?p = "nvl_pending l" and ?q = "swap_list i j (nvl_pending l)"
  from ok have d: "distinct ?p" and lt: "\<And>a. a \<in> set ?p \<Longrightarrow> a < length (nvl_entries l)"
    and idx: "\<And>k. k < length ?p \<Longrightarrow> index_at l (?p ! k) = int k"
    and out: "\<And>a. a < length (nvl_entries l) \<Longrightarrow> a \<notin> set ?p \<Longrightarrow> index_at l a = -1"
    by (auto simp: pending_ok_def)
  have index: "index_at (pending_swap i j l) b = (if b = ?q ! j \<and> b < length (nvl_entries l) then int j
      else if b = ?q ! i \<and> b < length (nvl_entries l) then int i else index_at l b)" for b
    by (auto simp: pending_swap_def Let_def)
  have inside: "index_at (pending_swap i j l) b = (if b = ?q ! j then int j else if b = ?q ! i then int i else index_at l b)"
    if "b \<in> set ?p" for b using lt [OF that] by (simp add: index)
  have "index_at (pending_swap i j l) (?q ! k) = int k" if "k < length ?p" for k
    by (rule swap_places [OF d ij, of "\<lambda>a. index_at l a" int, OF idx inside that])
  moreover have "index_at (pending_swap i j l) a = -1" if "a < length (nvl_entries l)" "a \<notin> set ?p" for a
  proof -
    have "a \<noteq> ?q ! i" "a \<noteq> ?q ! j" using that ij nth_swap_list [OF ij] by auto
    with index out that show ?thesis by simp
  qed
  ultimately show ?thesis
    using d lt swap_list_set [OF ij] swap_list_distinct [OF ij]
    by (auto simp: pending_ok_def in_set_conv_nth)
qed

interpretation pending: heap_client elem_before pending_heap pending_elems "\<lambda>a l. (a, value_at l a)"
    pending_fresh pending_ok
proof
  fix e f g :: "nat \<times> 'n node_value"
  show "elem_before e f \<Longrightarrow> \<not> elem_before f e"
    by (auto simp: elem_before_def check_before_def time_defs split: if_splits)
  show "\<not> elem_before e f \<Longrightarrow> \<not> elem_before f g \<Longrightarrow> \<not> elem_before e g"
    by (auto simp: elem_before_def check_before_def time_defs split: if_splits)
next
  fix l :: "'n node_value_list"
  assume ok: "pending_ok l"
  show "h_len pending_heap l = length (pending_elems l)"
    by (simp add: pending_heap_def pending_elems_def)
  fix i j
  show "h_less pending_heap l i j = elem_before (pending_elems l ! i) (pending_elems l ! j)"
    if "i < length (pending_elems l)" "j < length (pending_elems l)"
    using that by (simp add: pending_heap_def pending_elems_def pending_less_def elem_before_def)
  show "pending_ok (h_swap pending_heap i j l) \<and>
      pending_elems (h_swap pending_heap i j l) = swap_list i j (pending_elems l)"
    if "i < length (pending_elems l)" "j < length (pending_elems l)"
    using that pending_swap_ok [OF ok, of i j]
    by (simp add: pending_heap_def pending_elems_def swap_list_map)
next
  fix l :: "'n node_value_list" and a
  assume ok: "pending_ok l" and fresh: "pending_fresh a l"
  then show "pending_ok (h_push pending_heap a l) \<and>
      pending_elems (h_push pending_heap a l) = pending_elems l @ [(a, value_at l a)]"
    by (auto simp: pending_heap_def pending_ok_def pending_elems_def pending_fresh_def nth_append)
next
  fix l :: "'n node_value_list"
  assume ok: "pending_ok l" and ne: "pending_elems l \<noteq> []"
  then have p: "nvl_pending l \<noteq> []" by (simp add: pending_elems_def)
  then obtain as a where as: "nvl_pending l = as @ [a]" by (cases "nvl_pending l" rule: rev_cases) auto
  with ok show "pending_ok (snd (h_pop pending_heap l)) \<and>
      pending_elems (snd (h_pop pending_heap l)) = butlast (pending_elems l) \<and>
      (fst (h_pop pending_heap l), value_at l (fst (h_pop pending_heap l))) = last (pending_elems l)"
    by (auto simp: pending_heap_def pending_ok_def pending_elems_def nth_append split: if_splits)
qed


section \<open>What the heap operations leave alone\<close>

definition same_values :: "'n node_value_list \<Rightarrow> 'n node_value_list \<Rightarrow> bool" where
  "same_values l l' \<longleftrightarrow> nvl_nodes l' = nvl_nodes l \<and> nvl_ongoing l' = nvl_ongoing l \<and>
     length (nvl_entries l') = length (nvl_entries l) \<and> (\<forall>b. value_at l' b = value_at l b)"

lemma same_values_refl [simp]: "same_values l l"
  by (simp add: same_values_def)

lemma same_values_swap: "same_values l s \<Longrightarrow> same_values l (h_swap pending_heap i j s)"
  by (simp add: same_values_def pending_heap_def)

lemma same_values_push: "same_values l (heap_push pending_heap a l)"
  by (rule heap_push_invariant, erule same_values_swap) (simp add: same_values_def pending_heap_def)

lemma same_values_fix: "same_values l (heap_fix pending_heap i l)"
  by (rule heap_fix_invariant, erule same_values_swap) simp

lemma same_values_remove: "same_values l (snd (heap_remove pending_heap i l))"
  by (rule heap_remove_invariant, erule same_values_swap) (simp_all add: same_values_def pending_heap_def)

lemma same_valuesD:
  assumes "same_values l l'"
  shows "nvl_nodes l' = nvl_nodes l" "nvl_ongoing l' = nvl_ongoing l"
    "length (nvl_entries l') = length (nvl_entries l)" "value_at l' b = value_at l b"
  using assms by (simp_all add: same_values_def)

section \<open>The pending heap under the operations of the list\<close>

definition pending_wf :: "'n node_value_list \<Rightarrow> bool" where
  "pending_wf l \<longleftrightarrow> pending_ok l \<and> is_heap elem_before (pending_elems l)"

lemma fst_pending_elems [simp]: "map fst (pending_elems l) = nvl_pending l" "length (pending_elems l) = length (nvl_pending l)"
  by (simp_all add: pending_elems_def comp_def)

lemma nth_pending_elems: "i < length (nvl_pending l) \<Longrightarrow> pending_elems l ! i = (nvl_pending l ! i, value_at l (nvl_pending l ! i))"
  by (simp add: pending_elems_def)

lemma mset_pending: "mset (nvl_pending l) = image_mset fst (mset (pending_elems l))"
  by (metis fst_pending_elems(1) mset_map)

text \<open>An address in the heap, and its place there.\<close>

lemma pending_place:
  assumes "pending_ok l" "a \<in> set (nvl_pending l)"
  shows "0 \<le> index_at l a" "nat (index_at l a) < length (nvl_pending l)" "nvl_pending l ! nat (index_at l a) = a"
proof -
  from assms(2) obtain i where "i < length (nvl_pending l)" "nvl_pending l ! i = a"
    by (auto simp: in_set_conv_nth)
  with assms(1) show "0 \<le> index_at l a" "nat (index_at l a) < length (nvl_pending l)"
    "nvl_pending l ! nat (index_at l a) = a"
    by (auto simp: pending_ok_def)
qed

lemma pending_iff_index:
  assumes "pending_ok l" "a < length (nvl_entries l)"
  shows "a \<in> set (nvl_pending l) \<longleftrightarrow> index_at l a \<noteq> -1" "a \<in> set (nvl_pending l) \<longleftrightarrow> 0 \<le> index_at l a"
  using assms pending_place [OF assms(1)] by (force simp: pending_ok_def)+

lemma pending_push_wf:
  assumes "pending_wf l" "a < length (nvl_entries l)" "a \<notin> set (nvl_pending l)"
  shows "pending_wf (heap_push pending_heap a l)"
    and "set (nvl_pending (heap_push pending_heap a l)) = insert a (set (nvl_pending l))"
proof -
  from assms have "pending_ok l" "pending_fresh a l" "is_heap elem_before (pending_elems l)"
    by (simp_all add: pending_wf_def pending_fresh_def)
  note push = pending.client_heap_push [OF this]
  then show "pending_wf (heap_push pending_heap a l)" by (simp add: pending_wf_def)
  from push have "mset (nvl_pending (heap_push pending_heap a l)) = add_mset a (mset (nvl_pending l))"
    by (simp add: mset_pending)
  then show "set (nvl_pending (heap_push pending_heap a l)) = insert a (set (nvl_pending l))"
    by (metis set_mset_add_mset_insert set_mset_mset)
qed

lemma pending_fix_wf:
  assumes "pending_ok l" "i < length (nvl_pending l)" "heap_but elem_before i (length (pending_elems l)) (pending_elems l)"
  shows "pending_wf (heap_fix pending_heap i l)"
    and "set (nvl_pending (heap_fix pending_heap i l)) = set (nvl_pending l)"
proof -
  have restored: "pending_ok (heap_fix pending_heap i l)"
    "is_heap elem_before (pending_elems (heap_fix pending_heap i l))"
    "mset (pending_elems (heap_fix pending_heap i l)) = mset (pending_elems l)"
    using pending.client_fix [of l i] assms by simp_all
  then show "pending_wf (heap_fix pending_heap i l)" by (simp add: pending_wf_def)
  from restored(3) have "mset (nvl_pending (heap_fix pending_heap i l)) = mset (nvl_pending l)"
    by (simp add: mset_pending)
  then show "set (nvl_pending (heap_fix pending_heap i l)) = set (nvl_pending l)"
    by (metis set_mset_mset)
qed

lemma pending_remove_wf:
  assumes wf: "pending_wf l" and a: "a \<in> set (nvl_pending l)"
  shows "pending_wf (snd (heap_remove pending_heap (nat (index_at l a)) l))"
    and "set (nvl_pending (snd (heap_remove pending_heap (nat (index_at l a)) l))) = set (nvl_pending l) - {a}"
proof -
  let ?i = "nat (index_at l a)" and ?l = "snd (heap_remove pending_heap (nat (index_at l a)) l)"
  have ok: "pending_ok l" "is_heap elem_before (pending_elems l)" using wf by (simp_all add: pending_wf_def)
  note place = pending_place [OF ok(1) a]
  have rem: "pending_ok ?l" "is_heap elem_before (pending_elems ?l)"
    "mset (pending_elems l) = add_mset (pending_elems l ! ?i) (mset (pending_elems ?l))"
    using pending.client_remove [OF ok(1) _ ok(2), of ?i _ ?l] place by (simp_all add: prod_eq_iff)
  then show "pending_wf ?l" by (simp add: pending_wf_def)
  have "mset (nvl_pending l) = add_mset a (mset (nvl_pending ?l))"
    using rem(3) place by (simp add: mset_pending nth_pending_elems)
  then have m: "mset (nvl_pending l) = mset (a # nvl_pending ?l)" by simp
  have "distinct (a # nvl_pending ?l)"
    using mset_eq_imp_distinct_iff [OF m] ok(1) by (simp add: pending_ok_def)
  moreover have "set (nvl_pending l) = insert a (set (nvl_pending ?l))"
    using mset_eq_setD [OF m] by simp
  ultimately show "set (nvl_pending ?l) = set (nvl_pending l) - {a}" by auto
qed

text \<open>Writing the value of an entry.\<close>

definition set_value :: "nat \<Rightarrow> 'n node_value \<Rightarrow> 'n node_value_list \<Rightarrow> 'n node_value_list" where
  "set_value a v l = l\<lparr>nvl_entries := (nvl_entries l)[a := (nvl_entries l ! a)\<lparr>ne_value := v\<rparr>]\<rparr>"

lemma set_value_simps [simp]:
  "nvl_nodes (set_value a v l) = nvl_nodes l" "nvl_pending (set_value a v l) = nvl_pending l"
  "nvl_ongoing (set_value a v l) = nvl_ongoing l" "length (nvl_entries (set_value a v l)) = length (nvl_entries l)"
  by (simp_all add: set_value_def)

lemma value_at_set_value [simp]:
  "value_at (set_value a v l) b = (if b = a \<and> a < length (nvl_entries l) then v else value_at l b)"
  by (cases "b = a"; cases "a < length (nvl_entries l)") (simp_all add: set_value_def list_update_beyond)

lemma index_at_set_value [simp]: "index_at (set_value a v l) b = index_at l b"
  by (cases "b = a"; cases "a < length (nvl_entries l)") (simp_all add: set_value_def list_update_beyond)

lemma set_value_ok [simp]: "pending_ok (set_value a v l) \<longleftrightarrow> pending_ok l"
  by (simp add: pending_ok_def)

lemma set_value_elems_other:
  "a \<notin> set (nvl_pending l) \<Longrightarrow> pending_elems (set_value a v l) = pending_elems l"
  by (auto simp: pending_elems_def)

lemma set_value_elems:
  assumes ok: "pending_ok l" and a: "a \<in> set (nvl_pending l)"
  shows "pending_elems (set_value a v l) = (pending_elems l)[nat (index_at l a) := (a, v)]"
proof (rule nth_equalityI)
  fix i assume i: "i < length (pending_elems (set_value a v l))"
  note place = pending_place [OF ok a]
  from ok a have lt: "a < length (nvl_entries l)" and d: "distinct (nvl_pending l)"
    by (auto simp: pending_ok_def)
  have "nvl_pending l ! i = a \<longleftrightarrow> i = nat (index_at l a)"
    using place i d by (metis fst_pending_elems(2) nth_eq_iff_index_eq set_value_simps(2))
  with i lt show "pending_elems (set_value a v l) ! i = (pending_elems l)[nat (index_at l a) := (a, v)] ! i"
    by (cases "i = nat (index_at l a)") (simp_all add: nth_pending_elems)
qed simp

text \<open>A write that the order of checks does not see.\<close>

lemma set_value_same_order:
  assumes wf: "pending_wf l" and same: "nv_next_check_due v = nv_next_check_due (value_at l a)"
    "nv_cpl v = nv_cpl (value_at l a)"
  shows "pending_wf (set_value a v l)"
proof -
  have val: "check_before (value_at (set_value a v l) b) (value_at (set_value a v l) c) =
      check_before (value_at l b) (value_at l c)" for b c
    using same by (auto simp: check_before_def)
  have "is_heap elem_before (pending_elems (set_value a v l))"
    unfolding heap_upto_def
  proof (intro allI impI)
    fix j assume j: "0 < j \<and> j < length (pending_elems (set_value a v l))"
    then have p: "parent j < length (nvl_pending l)" using le_less_trans [OF parent_le] by simp
    from j wf have "\<not> elem_before (pending_elems l ! j) (pending_elems l ! parent j)"
      by (simp add: pending_wf_def heap_upto_def)
    with j p val show "\<not> elem_before (pending_elems (set_value a v l) ! j) (pending_elems (set_value a v l) ! parent j)"
      by (simp add: nth_pending_elems elem_before_def)
  qed
  with wf show ?thesis by (simp add: pending_wf_def)
qed

text \<open>Writing an entry of the heap and restoring the heap at its place.\<close>

lemma set_value_fix:
  assumes wf: "pending_wf l" and a: "a \<in> set (nvl_pending l)"
    and l'_def: "l' = heap_fix pending_heap (nat (index_at l a)) (set_value a v l)"
  shows "pending_wf l'" "set (nvl_pending l') = set (nvl_pending l)"
proof -
  from wf have ok: "pending_ok l" "is_heap elem_before (pending_elems l)" by (simp_all add: pending_wf_def)
  note place = pending_place [OF ok(1) a]
  have "heap_but elem_before (nat (index_at l a)) (length (pending_elems l)) (pending_elems (set_value a v l))"
    using pending.heap_update_but [OF ok(2), of "nat (index_at l a)" "(a, v)"] place
    by (simp add: set_value_elems [OF ok(1) a])
  with place ok have "pending_wf l' \<and> set (nvl_pending l') = set (nvl_pending l)"
    unfolding l'_def by (auto intro!: pending_fix_wf simp: pending_fix_wf(2))
  then show "pending_wf l'" "set (nvl_pending l') = set (nvl_pending l)" by simp_all
qed

lemma fix_in_order:
  assumes wf: "pending_wf l" and a: "a \<in> set (nvl_pending l)"
  shows "pending_wf (heap_fix pending_heap (nat (index_at l a)) l)"
    and "set (nvl_pending (heap_fix pending_heap (nat (index_at l a)) l)) = set (nvl_pending l)"
proof -
  from wf have ok: "pending_ok l" "is_heap elem_before (pending_elems l)" by (simp_all add: pending_wf_def)
  have "set_value a (value_at l a) l = l" by (simp add: set_value_def)
  with set_value_fix [OF wf a refl, of "value_at l a"]
  show "pending_wf (heap_fix pending_heap (nat (index_at l a)) l)"
    "set (nvl_pending (heap_fix pending_heap (nat (index_at l a)) l)) = set (nvl_pending l)" by simp_all
qed

end
