(* ===== verification/ProbeInvariant.thy ===== *)
theory ProbeInvariant
  imports ProbeFacts
begin

text \<open>
  The invariant of the list of node values: every node it tracks is scheduled for a check or being
  checked, never both, and each operation of the list keeps that so. The facts about keys hold for
  every key type whose string form tells keys apart.
\<close>

section \<open>The list of ongoing checks\<close>

lemma ongoing_position_None: "ongoing_position kd n ms i = None \<longleftrightarrow> node_key kd n \<notin> node_key kd ` set ms"
  by (induction ms arbitrary: i) auto

lemma ongoing_position_Some:
  "ongoing_position kd n ms i = Some p \<Longrightarrow> i \<le> p \<and> p - i < length ms \<and> node_key kd (ms ! (p - i)) = node_key kd n"
proof (induction ms arbitrary: i)
  case (Cons m ms)
  show ?case
  proof (cases "node_key kd n = node_key kd m")
    case False
    with Cons.prems Cons.IH [of "i + 1"] have "i + 1 \<le> p \<and> p - (i + 1) < length ms \<and>
        node_key kd (ms ! (p - (i + 1))) = node_key kd n" by simp
    then show ?thesis by (auto simp: nth_Cons' Suc_diff_Suc)
  qed (use Cons.prems in auto)
qed simp

lemma swap_last_drop:
  assumes "i < length xs"
  shows "mset (take (length xs - 1) (if 1 < length xs then swap_list i (length xs - 1) xs else xs)) =
    mset xs - {#xs ! i#}"
proof -
  from assms obtain n where n: "length xs = Suc n" by (cases xs) auto
  let ?ys = "swap_list i n xs"
  have ys: "mset ?ys = mset xs" "?ys ! n = xs ! i"
    using assms n by (simp_all add: swap_list_mset nth_swap_list)
  have "?ys = take n ?ys @ [?ys ! n]" using n by (simp add: take_Suc_conv_app_nth flip: take_Suc_conv_app_nth)
  then have "mset ?ys = add_mset (?ys ! n) (mset (take n ?ys))"
    by (metis mset_append mset.simps(1,2) union_mset_add_mset_right add.right_neutral)
  with ys have "mset (take n ?ys) = mset xs - {#xs ! i#}" by (metis add_mset_remove_trivial)
  then show ?thesis
    using n assms by (cases "n = 0") (auto simp: length_Suc_conv)
qed

lemma remove_from_ongoing_frame [simp]:
  "nvl_nodes (remove_from_ongoing kd n l) = nvl_nodes l"
  "nvl_entries (remove_from_ongoing kd n l) = nvl_entries l"
  "nvl_pending (remove_from_ongoing kd n l) = nvl_pending l"
  by (auto simp: remove_from_ongoing_def Let_def split: option.splits)

lemma remove_from_ongoing_mset:
  assumes d: "distinct (map (node_key kd) (nvl_ongoing l))"
  shows "mset (nvl_ongoing (remove_from_ongoing kd n l)) =
    filter_mset (\<lambda>m. node_key kd m \<noteq> node_key kd n) (mset (nvl_ongoing l))"
proof (cases "ongoing_position kd n (nvl_ongoing l) 0")
  case None
  then have "\<forall>m \<in> set (nvl_ongoing l). node_key kd m \<noteq> node_key kd n"
    unfolding ongoing_position_None by (metis imageI)
  with None show ?thesis by (simp add: remove_from_ongoing_def filter_mset_eq_conv flip: mset_filter)
next
  case (Some p)
  let ?os = "nvl_ongoing l"
  from ongoing_position_Some [OF Some] have p: "p < length ?os" "node_key kd (?os ! p) = node_key kd n"
    by simp_all
  have "nvl_ongoing (remove_from_ongoing kd n l) =
      take (length ?os - 1) (if 1 < length ?os then swap_list p (length ?os - 1) ?os else ?os)"
    using Some by (simp add: remove_from_ongoing_def Let_def)
  then have "mset (nvl_ongoing (remove_from_ongoing kd n l)) = mset ?os - {#?os ! p#}"
    by (simp only: swap_last_drop [OF p(1)])
  moreover have "filter (\<lambda>m. node_key kd m \<noteq> node_key kd n) ?os = remove1 (?os ! p) ?os"
  proof -
    have "filter (\<lambda>m. node_key kd m \<noteq> k) xs = remove1 x xs"
      if "distinct (map (node_key kd) xs)" "x \<in> set xs" "node_key kd x = k" for x xs k
      using that by (induction xs) (auto simp: filter_id_conv image_iff)
    with d p show ?thesis by simp
  qed
  ultimately show ?thesis by (simp flip: mset_filter)
qed

lemma remove_from_ongoing_ongoing:
  assumes d: "distinct (map (node_key kd) (nvl_ongoing l))"
  shows "set (nvl_ongoing (remove_from_ongoing kd n l)) =
      {m \<in> set (nvl_ongoing l). node_key kd m \<noteq> node_key kd n}"
    and "distinct (map (node_key kd) (nvl_ongoing (remove_from_ongoing kd n l)))"
    and "length (nvl_ongoing (remove_from_ongoing kd n l)) \<le> length (nvl_ongoing l)"
proof -
  let ?f = "filter (\<lambda>m. node_key kd m \<noteq> node_key kd n) (nvl_ongoing l)"
  have m: "mset (nvl_ongoing (remove_from_ongoing kd n l)) = mset ?f"
    using remove_from_ongoing_mset [OF d] by simp
  from mset_eq_setD [OF m] show "set (nvl_ongoing (remove_from_ongoing kd n l)) =
      {m \<in> set (nvl_ongoing l). node_key kd m \<noteq> node_key kd n}" by simp
  have "distinct (map (node_key kd) ?f)" using d by (rule distinct_map_filter)
  with m show "distinct (map (node_key kd) (nvl_ongoing (remove_from_ongoing kd n l)))"
    by (metis mset_eq_imp_distinct_iff mset_map)
  show "length (nvl_ongoing (remove_from_ongoing kd n l)) \<le> length (nvl_ongoing l)"
    using mset_eq_length [OF m] by simp
qed

section \<open>The invariant\<close>

abbreviation node_hex :: "('k, 'n) kad_ops \<Rightarrow> 'n \<Rightarrow> string" where
  "node_hex kd n \<equiv> key_hex kd (node_key kd n)"

definition scheduled_check :: "('k, 'n) kad_ops \<Rightarrow> 'n \<Rightarrow> 'n node_value_list \<Rightarrow> bool" where
  "scheduled_check kd n l \<longleftrightarrow> (\<exists>a \<in> set (nvl_pending l). nvl_nodes l (node_hex kd n) = Some a)"

definition being_checked :: "('k, 'n) kad_ops \<Rightarrow> 'n \<Rightarrow> 'n node_value_list \<Rightarrow> bool" where
  "being_checked kd n l \<longleftrightarrow> node_key kd n \<in> node_key kd ` set (nvl_ongoing l)"

definition nvl_wf :: "('k, 'n) kad_ops \<Rightarrow> 'n node_value_list \<Rightarrow> bool" where
  "nvl_wf kd l \<longleftrightarrow>
     pending_wf l \<and>
     (\<forall>h a. nvl_nodes l h = Some a \<longrightarrow> a < length (nvl_entries l) \<and> h = node_hex kd (nv_node (value_at l a))) \<and>
     (\<forall>a \<in> set (nvl_pending l). nvl_nodes l (node_hex kd (nv_node (value_at l a))) = Some a) \<and>
     distinct (map (node_key kd) (nvl_ongoing l)) \<and>
     (\<forall>n \<in> set (nvl_ongoing l). \<exists>a. nvl_nodes l (node_hex kd n) = Some a \<and> a \<notin> set (nvl_pending l)) \<and>
     (\<forall>h a. nvl_nodes l h = Some a \<and> a \<notin> set (nvl_pending l) \<longrightarrow> (\<exists>n \<in> set (nvl_ongoing l). node_hex kd n = h))"

lemma nvl_wfD:
  assumes "nvl_wf kd l"
  shows "pending_wf l" "pending_ok l"
    "nvl_nodes l h = Some a \<Longrightarrow> a < length (nvl_entries l) \<and> h = node_hex kd (nv_node (value_at l a))"
    "a \<in> set (nvl_pending l) \<Longrightarrow> nvl_nodes l (node_hex kd (nv_node (value_at l a))) = Some a"
    "distinct (map (node_key kd) (nvl_ongoing l))"
    "n \<in> set (nvl_ongoing l) \<Longrightarrow> \<exists>a. nvl_nodes l (node_hex kd n) = Some a \<and> a \<notin> set (nvl_pending l)"
    "nvl_nodes l h = Some a \<Longrightarrow> a \<notin> set (nvl_pending l) \<Longrightarrow> \<exists>n \<in> set (nvl_ongoing l). node_hex kd n = h"
  using assms by (auto simp: nvl_wf_def pending_wf_def)

lemma nvl_wf_same:
  assumes wf: "nvl_wf kd l" and same: "same_values l l'" and p: "pending_wf l'" "set (nvl_pending l') = set (nvl_pending l)"
  shows "nvl_wf kd l'"
  using wf p unfolding nvl_wf_def same_valuesD [OF same] by blast


section \<open>The operations keep it\<close>

text \<open>An address that is not in the heap is pushed and the heap restored at its place.\<close>

lemma push_then_fix:
  assumes wf: "pending_wf l" and a: "a < length (nvl_entries l)" "a \<notin> set (nvl_pending l)"
    and l2: "l2 = heap_push pending_heap a l" and l3: "l3 = heap_fix pending_heap (nat (index_at l2 a)) l2"
  shows "pending_wf l3" "set (nvl_pending l3) = insert a (set (nvl_pending l))" "same_values l l3"
proof -
  have l2_wf: "pending_wf l2" "set (nvl_pending l2) = insert a (set (nvl_pending l))"
    using pending_push_wf [OF wf a] l2 by simp_all
  with fix_in_order [OF l2_wf(1), of a] l3
  show "pending_wf l3" "set (nvl_pending l3) = insert a (set (nvl_pending l))" by simp_all
  show "same_values l l3"
    using same_values_push [of l a] same_values_fix [of l2] l2 l3 by (simp add: same_values_def)
qed

lemma append_entry_wf:
  assumes wf: "pending_wf l" and l1: "nvl_entries l1 = nvl_entries l @ [\<lparr>ne_value = nv, ne_index = -1\<rparr>]"
    "nvl_pending l1 = nvl_pending l"
  shows "pending_wf l1"
proof -
  have lt: "\<forall>a \<in> set (nvl_pending l). a < length (nvl_entries l)" and ok: "pending_ok l"
    using wf by (simp_all add: pending_wf_def pending_ok_def)
  then have elems: "pending_elems l1 = pending_elems l"
    using l1 by (auto simp: pending_elems_def nth_append)
  have "pending_ok l1"
    using ok lt l1 by (auto simp: pending_ok_def nth_append less_Suc_eq)
  with wf elems show ?thesis by (simp add: pending_wf_def)
qed

text \<open>\<open>Put\<close> before it clears the ongoing check.\<close>

definition put_scheduled :: "('k, 'n) kad_ops \<Rightarrow> 'n node_value \<Rightarrow> 'n node_value_list \<Rightarrow> nat \<Rightarrow> 'n node_value_list \<Rightarrow> bool" where
  "put_scheduled kd nv l a l3 \<longleftrightarrow>
     pending_wf l3 \<and> set (nvl_pending l3) = insert a (set (nvl_pending l)) \<and>
     nvl_nodes l3 = (nvl_nodes l)(node_hex kd (nv_node nv) \<mapsto> a) \<and> nvl_ongoing l3 = nvl_ongoing l \<and>
     value_at l3 a = nv \<and> (\<forall>b < length (nvl_entries l). b \<noteq> a \<longrightarrow> value_at l3 b = value_at l b) \<and>
     a < length (nvl_entries l3) \<and> length (nvl_entries l) \<le> length (nvl_entries l3) \<and>
     (\<forall>h. nvl_nodes l h = Some a \<longrightarrow> h = node_hex kd (nv_node nv)) \<and>
     (\<forall>c. nvl_nodes l (node_hex kd (nv_node nv)) = Some c \<longrightarrow> c = a)"

lemma put_core:
  assumes wf: "nvl_wf kd l" and pe: "put_entry kd nv l = (a, l1)"
    and l2: "l2 = (if index_at l1 a = -1 then heap_push pending_heap a l1 else l1)"
    and l3: "l3 = heap_fix pending_heap (nat (index_at l2 a)) l2"
  shows "put_scheduled kd nv l a l3"
proof (cases "nvl_nodes l (node_hex kd (nv_node nv))")
  case None
  with pe have a: "a = length (nvl_entries l)"
    and l1: "l1 = l\<lparr>nvl_entries := nvl_entries l @ [\<lparr>ne_value = nv, ne_index = -1\<rparr>],
      nvl_nodes := (nvl_nodes l)(node_hex kd (nv_node nv) \<mapsto> a)\<rparr>"
    by (auto simp: put_entry_def)
  have wf1: "pending_wf l1" using append_entry_wf [OF nvl_wfD(1) [OF wf]] l1 by simp
  have "a \<notin> set (nvl_pending l)" using nvl_wfD(2) [OF wf] a by (auto simp: pending_ok_def)
  moreover have "l2 = heap_push pending_heap a l1" using l2 l1 a by simp
  ultimately have l3_wf: "pending_wf l3" "set (nvl_pending l3) = insert a (set (nvl_pending l))" and same: "same_values l1 l3"
    using push_then_fix [OF wf1 _ _ _ l3] l1 a by simp_all
  have "nvl_nodes l h \<noteq> Some a" for h using nvl_wfD(3) [OF wf, of h a] a by auto
  with None l3_wf show ?thesis
    using l1 a by (simp add: put_scheduled_def same_valuesD [OF same] nth_append)
next
  case (Some c)
  with pe have a: "a = c" and l1: "l1 = set_value a nv l" by (auto simp: put_entry_def set_value_def)
  from nvl_wfD(3) [OF wf Some] a
  have lt: "a < length (nvl_entries l)" and h: "node_hex kd (nv_node nv) = node_hex kd (nv_node (value_at l a))" by auto
  have key: "nvl_nodes l h' = Some a \<Longrightarrow> h' = node_hex kd (nv_node nv)" for h'
    using nvl_wfD(3) [OF wf, of h' a] h by simp
  have "pending_wf l3 \<and> set (nvl_pending l3) = insert a (set (nvl_pending l)) \<and> same_values l1 l3"
  proof (cases "a \<in> set (nvl_pending l)")
    case True
    then have "index_at l a \<noteq> -1" using pending_iff_index [OF nvl_wfD(2) [OF wf] lt] by simp
    with l2 l1 have "l2 = l1" by simp
    with set_value_fix [OF nvl_wfD(1) [OF wf] True, of l3 nv] l1 l3 True same_values_fix [of l1] show ?thesis
      by (simp add: insert_absorb)
  next
    case False
    then have "index_at l a = -1" using pending_iff_index [OF nvl_wfD(2) [OF wf] lt] by simp
    with l2 l1 have l2': "l2 = heap_push pending_heap a l1" by simp
    have "pending_wf l1"
      using nvl_wfD(1) [OF wf] False l1 by (simp add: pending_wf_def set_value_elems_other)
    from push_then_fix [OF this _ _ l2' l3] False lt l1 show ?thesis by simp
  qed
  then have l3_wf: "pending_wf l3" "set (nvl_pending l3) = insert a (set (nvl_pending l))" and same: "same_values l1 l3"
    by blast+
  have nodes: "nvl_nodes l3 = (nvl_nodes l)(node_hex kd (nv_node nv) \<mapsto> a)"
    using Some a l1 by (simp add: same_valuesD [OF same] fun_upd_idem)
  have frame: "nvl_ongoing l3 = nvl_ongoing l" "value_at l3 a = nv"
    "\<forall>b < length (nvl_entries l). b \<noteq> a \<longrightarrow> value_at l3 b = value_at l b"
    "a < length (nvl_entries l3)" "length (nvl_entries l) \<le> length (nvl_entries l3)"
    using l1 lt by (simp_all add: same_valuesD [OF same])
  have uniq: "\<forall>h. nvl_nodes l h = Some a \<longrightarrow> h = node_hex kd (nv_node nv)"
    "\<forall>c. nvl_nodes l (node_hex kd (nv_node nv)) = Some c \<longrightarrow> c = a"
    by (intro allI impI, erule key) (simp add: Some a)
  show ?thesis
    unfolding put_scheduled_def by (intro conjI; fact l3_wf nodes frame uniq)
qed

context kad_hex
begin

lemma put_wf:
  assumes wf: "nvl_wf kd l"
  shows "nvl_wf kd (nvl_put kd nv l)"
    and "\<exists>a. nvl_nodes (nvl_put kd nv l) = (nvl_nodes l)(node_hex kd (nv_node nv) \<mapsto> a)"
    and "set (nvl_ongoing (nvl_put kd nv l)) = {m \<in> set (nvl_ongoing l). node_key kd m \<noteq> node_key kd (nv_node nv)}"
    and "length (nvl_ongoing (nvl_put kd nv l)) \<le> length (nvl_ongoing l)"
    and "nvl_get kd m (nvl_put kd nv l) = (if node_key kd m = node_key kd (nv_node nv) then Some nv else nvl_get kd m l)"
proof -
  let ?h = "node_hex kd (nv_node nv)"
  obtain a l1 where pe: "put_entry kd nv l = (a, l1)" by fastforce
  define l2 where "l2 = (if index_at l1 a = -1 then heap_push pending_heap a l1 else l1)"
  define l3 where "l3 = heap_fix pending_heap (nat (index_at l2 a)) l2"
  have put: "nvl_put kd nv l = remove_from_ongoing kd (nv_node nv) l3"
    by (simp add: nvl_put_def pe l2_def l3_def Let_def)
  have core: "put_scheduled kd nv l a l3" by (rule put_core [OF wf pe l2_def l3_def])
  then have d: "distinct (map (node_key kd) (nvl_ongoing l3))" and os: "nvl_ongoing l3 = nvl_ongoing l"
    using nvl_wfD(5) [OF wf] by (simp_all add: put_scheduled_def)
  note rem = remove_from_ongoing_ongoing [OF d, of "nv_node nv"]
  from core put show "\<exists>a. nvl_nodes (nvl_put kd nv l) = (nvl_nodes l)(node_hex kd (nv_node nv) \<mapsto> a)"
    by (auto simp: put_scheduled_def)
  from rem os put show "set (nvl_ongoing (nvl_put kd nv l)) = {m \<in> set (nvl_ongoing l). node_key kd m \<noteq> node_key kd (nv_node nv)}"
    "length (nvl_ongoing (nvl_put kd nv l)) \<le> length (nvl_ongoing l)" by simp_all
  have "pending_wf (remove_from_ongoing kd (nv_node nv) l3)"
    using core by (simp add: put_scheduled_def pending_wf_def pending_ok_def pending_elems_def)
  moreover from core have nodes: "nvl_nodes l3 = (nvl_nodes l)(?h \<mapsto> a)" and pend: "set (nvl_pending l3) = insert a (set (nvl_pending l))"
    and a: "value_at l3 a = nv" "a < length (nvl_entries l3)" "length (nvl_entries l) \<le> length (nvl_entries l3)"
    and vals: "\<And>b. b < length (nvl_entries l) \<Longrightarrow> b \<noteq> a \<Longrightarrow> value_at l3 b = value_at l b"
    and new: "\<And>h b. nvl_nodes l h = Some b \<Longrightarrow> h \<noteq> ?h \<Longrightarrow> b \<noteq> a"
    and old: "\<And>b. nvl_nodes l ?h = Some b \<Longrightarrow> b = a"
    by (auto simp: put_scheduled_def)
  have other: "b < length (nvl_entries l3) \<and> h = node_hex kd (nv_node (value_at l3 b)) \<and> b \<noteq> a"
    if "nvl_nodes l h = Some b" "h \<noteq> ?h" for h b
    using nvl_wfD(3) [OF wf that(1)] new [OF that] vals [of b] a(3) by auto
  show "nvl_get kd m (nvl_put kd nv l) = (if node_key kd m = node_key kd (nv_node nv) then Some nv else nvl_get kd m l)"
  proof (cases "nvl_nodes l (node_hex kd m)")
    case (Some b)
    with other [OF Some] nvl_wfD(3) [OF wf Some] vals [of b] show ?thesis
      by (simp add: nvl_get_def put nodes a)
  qed (simp add: nvl_get_def put nodes a)
  have "\<forall>h b. nvl_nodes l3 h = Some b \<longrightarrow> b < length (nvl_entries l3) \<and> h = node_hex kd (nv_node (value_at l3 b))"
    using other a nodes by (auto split: if_splits)
  moreover have "\<forall>b \<in> set (nvl_pending l3). nvl_nodes l3 (node_hex kd (nv_node (value_at l3 b))) = Some b"
  proof
    fix b assume "b \<in> set (nvl_pending l3)"
    with pend consider "b = a" | "b \<noteq> a" "b \<in> set (nvl_pending l)" by auto
    then show "nvl_nodes l3 (node_hex kd (nv_node (value_at l3 b))) = Some b"
    proof cases
      case 2
      then have "nvl_nodes l (node_hex kd (nv_node (value_at l b))) = Some b" using nvl_wfD(4) [OF wf] by simp
      with 2 old nvl_wfD(3) [OF wf this] vals [of b] nodes show ?thesis by auto
    qed (simp add: a nodes)
  qed
  moreover have "\<exists>b. nvl_nodes l3 (node_hex kd n) = Some b \<and> b \<notin> set (nvl_pending l3)"
    if n: "n \<in> set (nvl_ongoing l)" "node_key kd n \<noteq> node_key kd (nv_node nv)" for n
  proof -
    obtain b where b: "nvl_nodes l (node_hex kd n) = Some b" "b \<notin> set (nvl_pending l)"
      using nvl_wfD(6) [OF wf n(1)] by blast
    with n(2) other [OF b(1)] show ?thesis by (simp add: nodes pend)
  qed
  moreover have "\<exists>n \<in> set (nvl_ongoing l). node_key kd n \<noteq> node_key kd (nv_node nv) \<and> node_hex kd n = h"
    if "nvl_nodes l3 h = Some b" "b \<notin> set (nvl_pending l3)" for h b
  proof -
    from that nodes pend have "nvl_nodes l h = Some b" "b \<notin> set (nvl_pending l)" "h \<noteq> ?h"
      by (auto split: if_splits)
    with nvl_wfD(7) [OF wf this(1,2)] show ?thesis by auto
  qed
  ultimately show "nvl_wf kd (nvl_put kd nv l)"
    unfolding put nvl_wf_def remove_from_ongoing_frame rem(1) os using rem(2) by simp blast
qed

text \<open>\<open>Remove\<close>.\<close>

lemma remove_wf:
  assumes wf: "nvl_wf kd l"
  shows "nvl_wf kd (nvl_remove kd n l)"
    and "nvl_nodes (nvl_remove kd n l) = (nvl_nodes l)(node_hex kd n := None)"
    and "set (nvl_ongoing (nvl_remove kd n l)) = {m \<in> set (nvl_ongoing l). node_key kd m \<noteq> node_key kd n}"
    and "length (nvl_ongoing (nvl_remove kd n l)) \<le> length (nvl_ongoing l)"
    and "nvl_get kd m (nvl_remove kd n l) = (if node_key kd m = node_key kd n then None else nvl_get kd m l)"
proof -
  let ?l' = "nvl_remove kd n l" and ?nodes = "(nvl_nodes l)(node_hex kd n := None)"
  have main: "nvl_wf kd ?l' \<and> nvl_nodes ?l' = ?nodes \<and>
    set (nvl_ongoing ?l') = {m \<in> set (nvl_ongoing l). node_key kd m \<noteq> node_key kd n} \<and>
    length (nvl_ongoing ?l') \<le> length (nvl_ongoing l) \<and> (\<forall>b. value_at ?l' b = value_at l b)"
  proof (cases "nvl_nodes l (node_hex kd n)")
    case None
    then have "?nodes = nvl_nodes l" by auto
    moreover have "node_key kd m \<noteq> node_key kd n" if "m \<in> set (nvl_ongoing l)" for m
      using nvl_wfD(6) [OF wf that] None by auto
    ultimately show ?thesis using None wf by (auto simp: nvl_remove_def)
  next
    case (Some a)
    define l1 where "l1 = l\<lparr>nvl_nodes := ?nodes\<rparr>"
    define l2 where "l2 = (if 0 \<le> index_at l1 a then snd (heap_remove pending_heap (nat (index_at l1 a)) l1) else l1)"
    have l': "?l' = remove_from_ongoing kd n l2" using Some by (simp add: nvl_remove_def l1_def l2_def Let_def)
    have lt: "a < length (nvl_entries l)" using nvl_wfD(3) [OF wf Some] by simp
    have wf1: "pending_wf l1" using nvl_wfD(1) [OF wf] by (simp add: l1_def pending_wf_def pending_ok_def pending_elems_def)
    have at: "a \<in> set (nvl_pending l1) \<longleftrightarrow> 0 \<le> index_at l1 a"
      using pending_iff_index(2) [OF nvl_wfD(2) [OF wf] lt] by (simp add: l1_def)
    have "pending_wf l2 \<and> set (nvl_pending l2) = set (nvl_pending l1) - {a} \<and> same_values l1 l2"
      using pending_remove_wf [OF wf1, of a] same_values_remove [of l1] wf1 at by (auto simp: l2_def)
    then have wf2: "pending_wf l2" "set (nvl_pending l2) = set (nvl_pending l) - {a}" and same: "same_values l1 l2"
      by (auto simp: l1_def)
    have nodes: "nvl_nodes l2 = ?nodes" and os: "nvl_ongoing l2 = nvl_ongoing l" and vals: "\<And>b. value_at l2 b = value_at l b"
      and len: "length (nvl_entries l2) = length (nvl_entries l)"
      by (simp_all add: same_valuesD [OF same] l1_def)
    have d: "distinct (map (node_key kd) (nvl_ongoing l2))" using nvl_wfD(5) [OF wf] os by simp
    note rem = remove_from_ongoing_ongoing [OF d, of n]
    have "pending_wf (remove_from_ongoing kd n l2)"
      using wf2(1) by (simp add: pending_wf_def pending_ok_def pending_elems_def)
    moreover have "\<forall>h b. nvl_nodes l2 h = Some b \<longrightarrow> b < length (nvl_entries l2) \<and> h = node_hex kd (nv_node (value_at l2 b))"
      using nvl_wfD(3) [OF wf] by (simp add: nodes vals len)
    moreover have key: "b = a \<longleftrightarrow> h = node_hex kd n" if "nvl_nodes l h = Some b" for h b
    proof
      assume "b = a"
      with nvl_wfD(3) [OF wf that] nvl_wfD(3) [OF wf Some] show "h = node_hex kd n" by simp
    qed (use that Some in simp)
    have "\<forall>b \<in> set (nvl_pending l2). nvl_nodes l2 (node_hex kd (nv_node (value_at l2 b))) = Some b"
    proof
      fix b assume "b \<in> set (nvl_pending l2)"
      then have b: "b \<in> set (nvl_pending l)" "b \<noteq> a" by (auto simp: wf2(2))
      note at_b = nvl_wfD(4) [OF wf b(1)]
      from at_b key [OF at_b] b(2) show "nvl_nodes l2 (node_hex kd (nv_node (value_at l2 b))) = Some b" by (simp add: nodes vals)
    qed
    moreover have "\<exists>b. nvl_nodes l2 (node_hex kd m) = Some b \<and> b \<notin> set (nvl_pending l2)"
      if "m \<in> set (nvl_ongoing l)" "node_key kd m \<noteq> node_key kd n" for m
      using nvl_wfD(6) [OF wf that(1)] that(2) by (auto simp: nodes wf2(2))
    moreover have "\<exists>m. m \<in> set (nvl_ongoing l) \<and> node_key kd m \<noteq> node_key kd n \<and> node_hex kd m = h"
      if "nvl_nodes l2 h = Some b" "b \<notin> set (nvl_pending l2)" for h b
    proof -
      from that(1) have h: "nvl_nodes l h = Some b" "h \<noteq> node_hex kd n" by (auto simp: nodes split: if_splits)
      with key [OF h(1)] that(2) have "nvl_nodes l h = Some b" "b \<notin> set (nvl_pending l)" "h \<noteq> node_hex kd n"
        by (auto simp: wf2(2))
      with nvl_wfD(7) [OF wf this(1,2)] show ?thesis by auto
    qed
    ultimately have "nvl_wf kd ?l'"
      unfolding l' nvl_wf_def remove_from_ongoing_frame rem(1) os using rem(2) by simp
    then show ?thesis using rem l' nodes os vals by simp
  qed
  then show "nvl_wf kd ?l'" "nvl_nodes ?l' = ?nodes"
    "set (nvl_ongoing ?l') = {m \<in> set (nvl_ongoing l). node_key kd m \<noteq> node_key kd n}"
    "length (nvl_ongoing ?l') \<le> length (nvl_ongoing l)" by blast+
  show "nvl_get kd m ?l' = (if node_key kd m = node_key kd n then None else nvl_get kd m l)"
    using main by (simp add: nvl_get_def)
qed

text \<open>\<open>MarkOngoing\<close> of a node that is scheduled.\<close>

lemma mark_wf:
  assumes wf: "nvl_wf kd l" and a: "nvl_nodes l (node_hex kd n) = Some a" "a \<in> set (nvl_pending l)"
    and l'_def: "l' = mark_ongoing kd n d l"
  shows "nvl_wf kd l'" "nvl_nodes l' = nvl_nodes l"
    "nvl_ongoing l' = nvl_ongoing l @ [nv_node (value_at l a)]"
    "set (nvl_pending l') = set (nvl_pending l) - {a}"
    "value_at l' b = (if b = a then (value_at l a)\<lparr>nv_check_deadline := d\<rparr> else value_at l b)"
proof -
  define l1 where "l1 = set_value a ((value_at l a)\<lparr>nv_check_deadline := d\<rparr>) l"
  define l2 where "l2 = snd (heap_remove pending_heap (nat (index_at l1 a)) l1)"
  have lt: "a < length (nvl_entries l)" and h: "node_hex kd n = node_hex kd (nv_node (value_at l a))"
    using nvl_wfD(3) [OF wf a(1)] by simp_all
  have l': "l' = l2\<lparr>nvl_ongoing := nvl_ongoing l2 @ [nv_node (value_at l2 a)]\<rparr>"
    using a(1) by (simp add: l'_def mark_ongoing_def l1_def l2_def set_value_def Let_def)
  have wf1: "pending_wf l1"
    unfolding l1_def by (rule set_value_same_order [OF nvl_wfD(1) [OF wf]]) simp_all
  have a1: "a \<in> set (nvl_pending l1)" using a(2) by (simp add: l1_def)
  note rem = pending_remove_wf [OF wf1 a1, folded l2_def]
  have same: "same_values l1 l2" unfolding l2_def by (rule same_values_remove)
  note l2 = same_valuesD [OF same]
  show nodes: "nvl_nodes l' = nvl_nodes l" using l' l2 by (simp add: l1_def)
  show vals: "value_at l' b = (if b = a then (value_at l a)\<lparr>nv_check_deadline := d\<rparr> else value_at l b)" for b
    using l' l2 lt by (simp add: l1_def)
  show os: "nvl_ongoing l' = nvl_ongoing l @ [nv_node (value_at l a)]"
    using l' l2 lt by (simp add: l1_def)
  show pend: "set (nvl_pending l') = set (nvl_pending l) - {a}" using l' rem(2) by (simp add: l1_def)
  have node: "nv_node (value_at l' b) = nv_node (value_at l b)" for b by (simp add: vals)
  have "pending_wf l'" using rem(1) l' by (simp add: pending_wf_def pending_ok_def pending_elems_def)
  moreover have "length (nvl_entries l') = length (nvl_entries l)" using l' l2 by (simp add: l1_def)
  moreover have "node_key kd (nv_node (value_at l a)) \<notin> node_key kd ` set (nvl_ongoing l)"
    using nvl_wfD(6) [OF wf] a h by fastforce
  moreover have "\<exists>m \<in> set (nvl_ongoing l'). node_hex kd m = h'"
    if "nvl_nodes l h' = Some b" "b \<notin> set (nvl_pending l')" for h' b
    using that nvl_wfD(3) [OF wf that(1)] nvl_wfD(7) [OF wf that(1)]
    by (cases "b = a") (auto simp: os pend)
  moreover have "\<exists>b. nvl_nodes l (node_hex kd m) = Some b \<and> b \<notin> set (nvl_pending l')"
    if "m \<in> set (nvl_ongoing l')" for m
    using that nvl_wfD(6) [OF wf, of m] a h by (auto simp: os pend)
  moreover have "distinct (map (node_key kd) (nvl_ongoing l'))"
    using nvl_wfD(5) [OF wf] \<open>node_key kd (nv_node (value_at l a)) \<notin> _\<close> by (simp add: os)
  ultimately show "nvl_wf kd l'"
    using nvl_wfD(3,4) [OF wf] unfolding nvl_wf_def nodes node by (simp add: pend)
qed

section \<open>The list as a map from nodes to checks\<close>

lemma tracked_split:
  assumes wf: "nvl_wf kd l"
  shows "nvl_get kd n l \<noteq> None \<longleftrightarrow> scheduled_check kd n l \<or> being_checked kd n l"
    and "\<not> (scheduled_check kd n l \<and> being_checked kd n l)"
proof -
  show "\<not> (scheduled_check kd n l \<and> being_checked kd n l)"
    using nvl_wfD(6) [OF wf] by (fastforce simp: scheduled_check_def being_checked_def)
  show "nvl_get kd n l \<noteq> None \<longleftrightarrow> scheduled_check kd n l \<or> being_checked kd n l"
  proof
    assume "nvl_get kd n l \<noteq> None"
    then obtain a where a: "nvl_nodes l (node_hex kd n) = Some a" by (auto simp: nvl_get_def)
    show "scheduled_check kd n l \<or> being_checked kd n l"
      using a nvl_wfD(7) [OF wf a]
      by (cases "a \<in> set (nvl_pending l)") (auto simp: scheduled_check_def being_checked_def intro: rev_image_eqI)
  next
    assume "scheduled_check kd n l \<or> being_checked kd n l"
    then show "nvl_get kd n l \<noteq> None"
      using nvl_wfD(6) [OF wf] by (fastforce simp: scheduled_check_def being_checked_def nvl_get_def)
  qed
qed

lemma being_checked_put:
  "nvl_wf kd l \<Longrightarrow> being_checked kd m (nvl_put kd nv l) \<longleftrightarrow>
     node_key kd m \<noteq> node_key kd (nv_node nv) \<and> being_checked kd m l"
  by (auto simp: being_checked_def put_wf(3))

lemma being_checked_remove:
  "nvl_wf kd l \<Longrightarrow> being_checked kd m (nvl_remove kd n l) \<longleftrightarrow> node_key kd m \<noteq> node_key kd n \<and> being_checked kd m l"
  by (auto simp: being_checked_def remove_wf(3))

lemma scheduled_place:
  assumes "nvl_wf kd l" "scheduled_check kd n l"
  obtains a where "nvl_nodes l (node_hex kd n) = Some a" "a \<in> set (nvl_pending l)"
    "node_key kd (nv_node (value_at l a)) = node_key kd n" "nvl_get kd n l = Some (value_at l a)"
  using assms nvl_wfD(3) [OF assms(1)] by (fastforce simp: scheduled_check_def nvl_get_def)

lemma mark_view:
  assumes wf: "nvl_wf kd l" and n: "scheduled_check kd n l"
  shows "nvl_wf kd (mark_ongoing kd n d l)"
    and "nvl_get kd m (mark_ongoing kd n d l) =
      (if node_key kd m = node_key kd n then map_option (nv_check_deadline_update (\<lambda>_. d)) (nvl_get kd n l) else nvl_get kd m l)"
    and "being_checked kd m (mark_ongoing kd n d l) \<longleftrightarrow> node_key kd m = node_key kd n \<or> being_checked kd m l"
    and "length (nvl_ongoing (mark_ongoing kd n d l)) = Suc (length (nvl_ongoing l))"
proof -
  from scheduled_place [OF wf n] obtain a where a: "nvl_nodes l (node_hex kd n) = Some a" "a \<in> set (nvl_pending l)"
    and k: "node_key kd (nv_node (value_at l a)) = node_key kd n" .
  note mark = mark_wf [OF wf a refl, of d]
  show "nvl_wf kd (mark_ongoing kd n d l)" by (rule mark)
  show "being_checked kd m (mark_ongoing kd n d l) \<longleftrightarrow> node_key kd m = node_key kd n \<or> being_checked kd m l"
    "length (nvl_ongoing (mark_ongoing kd n d l)) = Suc (length (nvl_ongoing l))"
    using k by (auto simp: being_checked_def mark(3))
  show "nvl_get kd m (mark_ongoing kd n d l) =
      (if node_key kd m = node_key kd n then map_option (nv_check_deadline_update (\<lambda>_. d)) (nvl_get kd n l) else nvl_get kd m l)"
  proof (cases "nvl_nodes l (node_hex kd m)")
    case (Some b)
    have "b = a \<longleftrightarrow> node_key kd m = node_key kd n"
      using nvl_wfD(3) [OF wf Some] k Some a(1) by auto
    with Some a show ?thesis by (auto simp: nvl_get_def mark(2,5))
  qed (use a in \<open>auto simp: nvl_get_def mark(2,5)\<close>)
qed

text \<open>The head of the heap is a check no other scheduled check comes before.\<close>

lemma peek_head:
  assumes wf: "nvl_wf kd l" and p: "nvl_pending l \<noteq> []"
  defines "v \<equiv> value_at l (nvl_pending l ! 0)"
  shows "scheduled_check kd (nv_node v) l" "nvl_get kd (nv_node v) l = Some v"
    "scheduled_check kd m l \<Longrightarrow> nvl_get kd m l = Some u \<Longrightarrow> \<not> check_before u v"
proof -
  have a: "nvl_pending l ! 0 \<in> set (nvl_pending l)" using p by simp
  from nvl_wfD(4) [OF wf a] a show "scheduled_check kd (nv_node v) l" "nvl_get kd (nv_node v) l = Some v"
    by (auto simp: scheduled_check_def nvl_get_def v_def)
  assume m: "scheduled_check kd m l" and u: "nvl_get kd m l = Some u"
  from scheduled_place [OF wf m] obtain b where b: "b \<in> set (nvl_pending l)" "nvl_get kd m l = Some (value_at l b)" .
  then have "(b, value_at l b) \<in> set (pending_elems l)" by (auto simp: pending_elems_def)
  then have "\<not> elem_before (b, value_at l b) (pending_elems l ! 0)"
    using nvl_wfD(1) [OF wf] pending.client_least [of l] by (simp add: pending_wf_def)
  with b u p show "\<not> check_before u v" by (simp add: elem_before_def nth_pending_elems v_def)
qed

lemma peek_next_cases:
  assumes wf: "nvl_wf kd l"
  shows "peek_next ts l = None \<Longrightarrow> scheduled_check kd m l \<Longrightarrow> nvl_get kd m l = Some u \<Longrightarrow> ts < nv_next_check_due u"
    and "peek_next ts l = Some v \<Longrightarrow> scheduled_check kd (nv_node v) l \<and> nvl_get kd (nv_node v) l = Some v \<and>
      nv_next_check_due v \<le> ts \<and>
      (\<forall>m u. scheduled_check kd m l \<and> nvl_get kd m l = Some u \<longrightarrow> \<not> check_before u v)"
proof -
  show "peek_next ts l = Some v \<Longrightarrow> scheduled_check kd (nv_node v) l \<and> nvl_get kd (nv_node v) l = Some v \<and>
      nv_next_check_due v \<le> ts \<and> (\<forall>m u. scheduled_check kd m l \<and> nvl_get kd m l = Some u \<longrightarrow> \<not> check_before u v)"
    using peek_head [OF wf] by (auto simp: peek_next_def time_defs split: if_splits)
  assume none: "peek_next ts l = None" and m: "scheduled_check kd m l" "nvl_get kd m l = Some u"
  have p: "nvl_pending l \<noteq> []" using m(1) by (auto simp: scheduled_check_def)
  from peek_head(3) [OF wf p m] none p show "ts < nv_next_check_due u"
    by (auto simp: peek_next_def check_before_def time_defs split: if_splits)
qed

lemma past_deadline_cases:
  assumes "\<forall>n \<in> set ns. nvl_get kd n l \<noteq> None"
  shows "past_deadline kd ts l ns = Some n \<Longrightarrow> n \<in> set ns \<and> (\<exists>v. nvl_get kd n l = Some v \<and> nv_check_deadline v \<le> ts)"
    and "past_deadline kd ts l ns = None \<Longrightarrow> m \<in> set ns \<Longrightarrow> nvl_get kd m l = Some v \<Longrightarrow> ts < nv_check_deadline v"
  using assms by (induction ns) (auto simp: nvl_get_def time_defs split: option.splits if_splits)

end

end
