(* ===== verification/ProbeTheorems.thy ===== *)
theory ProbeTheorems
  imports ProbeInvariant IncludeTheorems
begin

text \<open>
  The properties of the probe machine. Other machines share the routing table, so between two
  advances the table may have become any well-formed one.
\<close>

section \<open>Reachable machines\<close>

inductive probe_reached ::
  "('k, 'n) kad_ops \<Rightarrow> ('k, 'n, 'rt) rt_ops \<Rightarrow> ('rt \<Rightarrow> bool) \<Rightarrow> ('n, 'rt) probe_machine \<Rightarrow> bool"
  for kd rt table_ok where
  created: "new_probe table cfg = Inr p \<Longrightarrow> table_ok table \<Longrightarrow> probe_reached kd rt table_ok p"
| advanced: "probe_reached kd rt table_ok p \<Longrightarrow> 0 < now \<Longrightarrow>
    probe_reached kd rt table_ok (snd (probe_advance kd rt now ev p))"
| shared: "probe_reached kd rt table_ok p \<Longrightarrow> table_ok table \<Longrightarrow>
    probe_reached kd rt table_ok (p\<lparr>pb_rt := table\<rparr>)"

text \<open>When the list next has something to do for a node: its deadline or its next check.\<close>

definition probe_instant :: "('k, 'n) kad_ops \<Rightarrow> 'n node_value_list \<Rightarrow> 'n \<Rightarrow> 'n node_value \<Rightarrow> time" where
  "probe_instant kd l n v = (if being_checked kd n l then nv_check_deadline v else nv_next_check_due v)"

definition probe_wf :: "('k, 'n) kad_ops \<Rightarrow> ('n, 'rt) probe_machine \<Rightarrow> bool" where
  "probe_wf kd p \<longleftrightarrow>
     nvl_wf kd (pb_nvl p) \<and> 1 \<le> pb_concurrency (pb_cfg p) \<and> 1 \<le> pb_timeout (pb_cfg p) \<and>
     1 \<le> pb_check_interval (pb_cfg p) \<and>
     int (length (nvl_ongoing (pb_nvl p))) \<le> pb_concurrency (pb_cfg p) \<and>
     (\<forall>n v. nvl_get kd n (pb_nvl p) = Some v \<longrightarrow> 0 < probe_instant kd (pb_nvl p) n v)"

lemma probe_wf_nvl: "probe_wf kd p \<Longrightarrow> nvl_wf kd (pb_nvl p)"
  by (simp add: probe_wf_def)

lemma probe_wf_table [simp]: "probe_wf kd (p\<lparr>pb_rt := t\<rparr>) = probe_wf kd p" "probe_wf kd (p\<lparr>pb_pending_count := c\<rparr>) = probe_wf kd p"
  by (simp_all add: probe_wf_def)

lemma new_probe_wf: "new_probe table cfg = Inr p \<Longrightarrow> probe_wf kd p"
  by (auto simp: new_probe_def probe_wf_def nvl_wf_def new_node_value_list_def pending_wf_def pending_ok_def
      pending_elems_def heap_upto_def nvl_get_def default_probe_config_def duration_defs
      probe_config_validate_def split: option.splits if_splits)

context kad_hex
begin

lemma probe_put_wf:
  assumes wf: "probe_wf kd p" and due: "0 < nv_next_check_due nv"
  shows "probe_wf kd (p\<lparr>pb_nvl := nvl_put kd nv (pb_nvl p)\<rparr>)"
proof -
  note l = probe_wf_nvl [OF wf]
  have "0 < probe_instant kd (nvl_put kd nv (pb_nvl p)) n v"
    if "nvl_get kd n (nvl_put kd nv (pb_nvl p)) = Some v" for n v
    using that wf due
    by (auto simp: put_wf(5) [OF l] being_checked_put [OF l] probe_instant_def probe_wf_def split: if_splits)
  with wf put_wf(1,4) [OF l, of nv] show ?thesis by (auto simp: probe_wf_def)
qed

lemma probe_drop_wf:
  assumes wf: "probe_wf kd p"
  shows "probe_wf kd (drop_node kd rt n p)"
proof -
  note l = probe_wf_nvl [OF wf]
  have "0 < probe_instant kd (nvl_remove kd n (pb_nvl p)) m v"
    if "nvl_get kd m (nvl_remove kd n (pb_nvl p)) = Some v" for m v
    using that wf
    by (auto simp: remove_wf(5) [OF l] being_checked_remove [OF l] probe_instant_def probe_wf_def split: if_splits)
  with wf remove_wf(1,4) [OF l, of n] show ?thesis by (auto simp: probe_wf_def drop_node_def)
qed

lemma probe_reschedule_wf:
  assumes "probe_wf kd p" "0 < now"
  shows "probe_wf kd (reschedule kd now n p)"
  using assms probe_put_wf [OF assms(1)]
  by (auto simp: reschedule_def probe_wf_def time_defs split: option.split)

lemma probe_event_wf:
  assumes wf: "probe_wf kd p" and now: "0 < now"
  shows "probe_wf kd (snd (handle_probe_event kd rt now ev p))"
proof (cases ev)
  case (EventProbeAdd n)
  with wf now probe_put_wf [OF wf] show ?thesis
    by (auto simp: probe_wf_def time_defs split: option.split)
qed (use wf probe_drop_wf [OF wf] probe_reschedule_wf [OF wf now] in auto)

lemma probe_mark_wf:
  assumes wf: "probe_wf kd p" and now: "0 < now" and cap: "\<not> probe_at_capacity p"
    and n: "scheduled_check kd n (pb_nvl p)"
  shows "probe_wf kd (p\<lparr>pb_nvl := mark_ongoing kd n (time_add now (pb_timeout (pb_cfg p))) (pb_nvl p)\<rparr>)"
proof -
  let ?d = "time_add now (pb_timeout (pb_cfg p))"
  note mark = mark_view [OF probe_wf_nvl [OF wf] n, where d = ?d]
  have pos: "0 < ?d" using wf now by (simp add: probe_wf_def time_defs)
  have "0 < probe_instant kd (mark_ongoing kd n ?d (pb_nvl p)) m v"
    if "nvl_get kd m (mark_ongoing kd n ?d (pb_nvl p)) = Some v" for m v
    using that wf pos by (auto simp: mark probe_instant_def probe_wf_def split: if_splits)
  with wf mark(1,4) cap show ?thesis
    by (auto simp: probe_wf_def probe_at_capacity_def ongoing_count_def)
qed

text \<open>The cases of an advance once the event is handled.\<close>

lemma probe_next_cases:
  assumes wf: "probe_wf kd p" and nxt: "probe_next kd rt now p = (st, p')"
  obtains (failure) n v where "st = StateProbeNodeFailure n" "p' = drop_node kd rt n p" "being_checked kd n (pb_nvl p)"
      "nvl_get kd n (pb_nvl p) = Some v" "nv_check_deadline v \<le> now"
  | (capacity) "st = StateProbeWaitingAtCapacity (nvl_next_deadline kd (pb_nvl p))" "p' = p" "probe_at_capacity p"
      "\<And>n v. being_checked kd n (pb_nvl p) \<Longrightarrow> nvl_get kd n (pb_nvl p) = Some v \<Longrightarrow> now < nv_check_deadline v"
  | (waiting) "st = StateProbeWaitingWithCapacity (nvl_next_due kd (pb_nvl p)) \<or> st = StateProbeIdle (nvl_next_due kd (pb_nvl p))"
      "p' = p" "\<And>n v. nvl_get kd n (pb_nvl p) = Some v \<Longrightarrow> now < probe_instant kd (pb_nvl p) n v"
  | (check) v where "st = StateProbeConnectivityCheck (nv_node v)" "\<not> probe_at_capacity p"
      "p' = p\<lparr>pb_nvl := mark_ongoing kd (nv_node v) (time_add now (pb_timeout (pb_cfg p))) (pb_nvl p)\<rparr>"
      "peek_next now (pb_nvl p) = Some v"
proof -
  let ?l = "pb_nvl p"
  note l = probe_wf_nvl [OF wf]
  have "\<forall>n \<in> set (nvl_ongoing ?l). nvl_get kd n ?l \<noteq> None"
    using tracked_split(1) [OF l] by (simp add: being_checked_def)
  note past = past_deadline_cases [OF this, of now]
  have key: "nvl_get kd n ?l = nvl_get kd m ?l" if "node_key kd n = node_key kd m" for n m
    using that by (simp add: nvl_get_def)
  show ?thesis
  proof (cases "find_check_past_deadline kd now ?l")
    case (Some n)
    then obtain v where v: "n \<in> set (nvl_ongoing ?l)" "nvl_get kd n ?l = Some v" "nv_check_deadline v \<le> now"
      using past(1) [of n] by (auto simp: find_check_past_deadline_def)
    have "st = StateProbeNodeFailure n" "p' = drop_node kd rt n p"
      using Some nxt by (simp_all add: probe_next_def)
    with v show ?thesis by (intro failure) (simp_all add: being_checked_def)
  next
    case None
    then have live: "now < nv_check_deadline v" if "being_checked kd n ?l" "nvl_get kd n ?l = Some v" for n v
    proof -
      from that(1) obtain m where "m \<in> set (nvl_ongoing ?l)" "node_key kd n = node_key kd m"
        by (auto simp: being_checked_def)
      with past(2) [of m v] None that(2) key [of n m] show ?thesis by (simp add: find_check_past_deadline_def)
    qed
    show ?thesis
    proof (cases "probe_at_capacity p")
      case True
      then have "st = StateProbeWaitingAtCapacity (nvl_next_deadline kd ?l)" "p' = p"
        using None nxt by (auto simp: probe_next_def)
      then show ?thesis using True live by (rule capacity)
    next
      case False
      show ?thesis
      proof (cases "peek_next now ?l")
        case peek: None
        have "now < probe_instant kd ?l n v" if v: "nvl_get kd n ?l = Some v" for n v
          using v live peek_next_cases(1) [OF l peek, of n v] tracked_split(1) [OF l, of n]
          by (auto simp: probe_instant_def)
        moreover have "st = StateProbeWaitingWithCapacity (nvl_next_due kd ?l) \<or> st = StateProbeIdle (nvl_next_due kd ?l)"
          "p' = p"
          using None False nxt peek by (auto simp: probe_next_def split: if_splits)
        ultimately show ?thesis by (intro waiting)
      next
        case (Some v)
        with None False nxt have "st = StateProbeConnectivityCheck (nv_node v)"
          "p' = p\<lparr>pb_nvl := mark_ongoing kd (nv_node v) (time_add now (pb_timeout (pb_cfg p))) ?l\<rparr>"
          by (simp_all add: probe_next_def)
        with False Some show ?thesis by (intro check)
      qed
    qed
  qed
qed

lemma probe_next_wf:
  assumes wf: "probe_wf kd p" and now: "0 < now"
  shows "probe_wf kd (snd (probe_next kd rt now p))"
proof -
  obtain st p' where nxt: "probe_next kd rt now p = (st, p')" by fastforce
  from wf nxt show ?thesis
  proof (cases rule: probe_next_cases)
    case (failure n v)
    with nxt probe_drop_wf [OF wf] show ?thesis by simp
  next
    case (check v)
    with nxt probe_mark_wf [OF wf now] peek_next_cases(2) [OF probe_wf_nvl [OF wf]] show ?thesis by simp
  qed (use nxt wf in simp_all)
qed

end

lemma probe_advance_eq:
  "probe_advance kd rt now ev p =
     (case handle_probe_event kd rt now ev p of
        (Some st, p1) \<Rightarrow> (st, p1\<lparr>pb_pending_count := pending_count (pb_nvl p1)\<rparr>)
      | (None, p1) \<Rightarrow>
          (let (st, p2) = probe_next kd rt now p1 in (st, p2\<lparr>pb_pending_count := pending_count (pb_nvl p2)\<rparr>)))"
  by (simp add: probe_advance_def split: prod.split option.split)

lemma probe_reached_wf:
  assumes "kad_hex kd" "probe_reached kd rt table_ok p"
  shows "probe_wf kd p"
  using assms(2)
proof induction
  case (created table cfg p)
  then show ?case by (simp add: new_probe_wf)
next
  case (advanced p now ev)
  have "probe_wf kd (snd (handle_probe_event kd rt now ev p))"
    by (rule kad_hex.probe_event_wf [OF assms(1) advanced.IH advanced.hyps(2)])
  with kad_hex.probe_next_wf [OF assms(1) this advanced.hyps(2)] show ?case
    by (simp add: probe_advance_eq case_prod_beta split: option.split)
qed simp

section \<open>The due times\<close>

lemma nvl_next_deadline_eq:
  assumes wf: "nvl_wf kd l"
  shows "nvl_next_deadline kd l =
    foldl earlier 0 (map (\<lambda>n. nv_check_deadline (the (nvl_get kd n l))) (nvl_ongoing l))"
proof -
  have "foldl (\<lambda>e n. case nvl_nodes l (node_hex kd n) of None \<Rightarrow> e
        | Some a \<Rightarrow> earlier e (nv_check_deadline (value_at l a))) e ns =
      foldl earlier e (map (\<lambda>n. nv_check_deadline (the (nvl_get kd n l))) ns)"
    if "\<forall>n \<in> set ns. \<exists>a. nvl_nodes l (node_hex kd n) = Some a" for e ns
    using that by (induction ns arbitrary: e) (auto simp: nvl_get_def)
  moreover have "\<forall>n \<in> set (nvl_ongoing l). \<exists>a. nvl_nodes l (node_hex kd n) = Some a"
    using nvl_wfD(6) [OF wf] by blast
  ultimately show ?thesis by (simp add: nvl_next_deadline_def zero_time_def)
qed

text \<open>\<open>least_instant D d\<close>: \<open>d\<close> is the least of the instants, or zero when there is none.\<close>

definition least_instant :: "time set \<Rightarrow> time \<Rightarrow> bool" where
  "least_instant D d \<longleftrightarrow> (if D = {} then d = 0 else d \<in> D \<and> (\<forall>x \<in> D. d \<le> x))"

lemma least_instantD:
  assumes "least_instant D d"
  shows "D \<noteq> {} \<Longrightarrow> d \<in> D" "d = 0 \<or> d \<in> D"
  using assms by (auto simp: least_instant_def split: if_splits)

lemma least_instant_Min: "finite D \<Longrightarrow> D \<noteq> {} \<Longrightarrow> least_instant D (Min D)"
  by (simp add: least_instant_def)

lemma least_instant_earlier:
  assumes "least_instant D d" "least_instant E e" "\<forall>x \<in> D \<union> E. 0 < x"
  shows "least_instant (D \<union> E) (earlier d e)"
proof (cases "D = {} \<or> E = {}")
  case True
  with assms show ?thesis by (auto simp: least_instant_def split: if_splits)
next
  case False
  with assms have de: "d \<in> D" "e \<in> E" "\<forall>x \<in> D. d \<le> x" "\<forall>x \<in> E. e \<le> x" by (simp_all add: least_instant_def)
  with assms(3) have "d \<noteq> 0" "e \<noteq> 0" by auto
  with de False show ?thesis by (auto simp: least_instant_def earlier_nonzero min_def)
qed

context kad_hex
begin

lemma next_deadline_least:
  assumes wf: "probe_wf kd p"
  shows "least_instant {nv_check_deadline v | n v. being_checked kd n (pb_nvl p) \<and> nvl_get kd n (pb_nvl p) = Some v}
    (nvl_next_deadline kd (pb_nvl p))"
proof -
  let ?l = "pb_nvl p" and ?ds = "map (\<lambda>n. nv_check_deadline (the (nvl_get kd n (pb_nvl p)))) (nvl_ongoing (pb_nvl p))"
  note l = probe_wf_nvl [OF wf]
  have got: "\<exists>v. nvl_get kd n ?l = Some v" if "n \<in> set (nvl_ongoing ?l)" for n
    using that tracked_split(1) [OF l, of n] by (auto simp: being_checked_def)
  have same: "nvl_get kd n ?l = nvl_get kd m ?l" if "node_key kd n = node_key kd m" for n m
    using that by (simp add: nvl_get_def)
  have "{nv_check_deadline v | n v. being_checked kd n ?l \<and> nvl_get kd n ?l = Some v} = set ?ds"
  proof (intro equalityI subsetI)
    fix d assume "d \<in> {nv_check_deadline v | n v. being_checked kd n ?l \<and> nvl_get kd n ?l = Some v}"
    then obtain n v m where "d = nv_check_deadline v" "nvl_get kd n ?l = Some v" "m \<in> set (nvl_ongoing ?l)"
      "node_key kd n = node_key kd m" by (auto simp: being_checked_def)
    with same [of n m] have "m \<in> set (nvl_ongoing ?l)" "d = nv_check_deadline (the (nvl_get kd m ?l))"
      by (metis, metis option.sel)
    then show "d \<in> set ?ds" by simp
  next
    fix d assume "d \<in> set ?ds"
    then obtain n where "n \<in> set (nvl_ongoing ?l)" "d = nv_check_deadline (the (nvl_get kd n ?l))" by auto
    moreover from this got obtain v where "nvl_get kd n ?l = Some v" by blast
    ultimately show "d \<in> {nv_check_deadline v | n v. being_checked kd n ?l \<and> nvl_get kd n ?l = Some v}"
      unfolding being_checked_def by fastforce
  qed
  moreover have "\<forall>d \<in> set ?ds. d \<noteq> 0"
    using wf got by (fastforce simp: probe_wf_def probe_instant_def being_checked_def)
  ultimately show ?thesis
    using least_instant_Min [of "set ?ds"] by (auto simp: nvl_next_deadline_eq [OF l] foldl_earlier least_instant_def)
qed

lemma next_due_least:
  assumes wf: "probe_wf kd p"
  shows "least_instant {probe_instant kd (pb_nvl p) n v | n v. nvl_get kd n (pb_nvl p) = Some v}
    (nvl_next_due kd (pb_nvl p))"
proof -
  let ?l = "pb_nvl p"
  let ?S = "{nv_next_check_due v | n v. scheduled_check kd n ?l \<and> nvl_get kd n ?l = Some v}"
  let ?C = "{nv_check_deadline v | n v. being_checked kd n ?l \<and> nvl_get kd n ?l = Some v}"
  note l = probe_wf_nvl [OF wf]
  have S: "least_instant ?S (if nvl_pending ?l \<noteq> [] then nv_next_check_due (value_at ?l (nvl_pending ?l ! 0)) else zero_time)"
  proof (cases "nvl_pending ?l = []")
    case True
    then show ?thesis by (simp add: least_instant_def scheduled_check_def zero_time_def)
  next
    case False
    note head = peek_head [OF l False]
    have "nv_next_check_due (value_at ?l (nvl_pending ?l ! 0)) \<le> nv_next_check_due u"
      if "scheduled_check kd m ?l" "nvl_get kd m ?l = Some u" for m u
      using head(3) [OF that] by (auto simp: check_before_def time_defs split: if_splits)
    with head(1,2) False show ?thesis unfolding least_instant_def by fastforce
  qed
  have split: "scheduled_check kd n ?l \<longleftrightarrow> \<not> being_checked kd n ?l" if "nvl_get kd n ?l = Some v" for n v
    using tracked_split [OF l, of n] that by auto
  have "?S \<union> ?C = {probe_instant kd ?l n v | n v. nvl_get kd n ?l = Some v}"
  proof (intro equalityI subsetI)
    fix x assume "x \<in> ?S \<union> ?C"
    with split show "x \<in> {probe_instant kd ?l n v | n v. nvl_get kd n ?l = Some v}"
      by (fastforce simp: probe_instant_def)
  next
    fix x assume "x \<in> {probe_instant kd ?l n v | n v. nvl_get kd n ?l = Some v}"
    then obtain n v where v: "nvl_get kd n ?l = Some v" "x = probe_instant kd ?l n v" by blast
    show "x \<in> ?S \<union> ?C"
    proof (cases "being_checked kd n ?l")
      case True
      with v have "x \<in> ?C" unfolding probe_instant_def by auto
      then show ?thesis by simp
    next
      case False
      with v split [OF v(1)] have "x \<in> ?S" unfolding probe_instant_def by auto
      then show ?thesis by simp
    qed
  qed
  moreover have "\<forall>x \<in> ?S \<union> ?C. 0 < x"
    using wf split by (fastforce simp: probe_wf_def probe_instant_def)
  ultimately show ?thesis
    using least_instant_earlier [OF S next_deadline_least [OF wf]] by (simp add: nvl_next_due_def)
qed

end

text \<open>An advance is a failure, which drops the node, or the handled event and then a poll.\<close>

lemma handle_probe_event_cases:
  assumes "handle_probe_event kd rt now ev p = (out, p1)"
  shows "(\<exists>n. out = Some (StateProbeNodeFailure n) \<and> p1 = drop_node kd rt n p) \<or>
    out = None \<and> pb_rt p1 = pb_rt p \<and> pb_cfg p1 = pb_cfg p"
  using assms by (cases ev) (auto simp: reschedule_def split: option.splits)

lemma probe_advance_cases:
  fixes p :: "('n, 'rt) probe_machine"
  assumes hex: "kad_hex kd" and p: "probe_reached kd rt table_ok p" and now: "0 < now"
    and adv: "probe_advance kd rt now ev p = (st, p')"
  obtains (failure) n and p1 :: "('n, 'rt) probe_machine"
    where "st = StateProbeNodeFailure n" "pb_nvl p' = nvl_remove kd n (pb_nvl p1)"
      "pb_rt p' = rt_remove_key rt (node_key kd n) (pb_rt p)" "probe_wf kd p1"
  | (polled) p1 p2 where "probe_next kd rt now p1 = (st, p2)" "pb_nvl p' = pb_nvl p2" "pb_rt p' = pb_rt p2"
      "probe_wf kd p1" "pb_rt p1 = pb_rt p" "pb_cfg p1 = pb_cfg p" "\<And>n. st \<noteq> StateProbeNodeFailure n"
proof -
  note wf = probe_reached_wf [OF hex p]
  obtain out p1 where ev: "handle_probe_event kd rt now ev p = (out, p1)" by fastforce
  have wf1: "probe_wf kd p1" using kad_hex.probe_event_wf [OF hex wf now, of rt ev] ev by simp
  from handle_probe_event_cases [OF ev] show ?thesis
  proof (elim disjE exE conjE)
    fix n assume "out = Some (StateProbeNodeFailure n)" "p1 = drop_node kd rt n p"
    with ev adv wf show ?thesis
      by (intro failure [of n p]) (auto simp: probe_advance_eq drop_node_def)
  next
    assume out: "out = None" and same: "pb_rt p1 = pb_rt p" "pb_cfg p1 = pb_cfg p"
    obtain p2 where p2: "probe_next kd rt now p1 = (st, p2)" "pb_nvl p' = pb_nvl p2" "pb_rt p' = pb_rt p2"
      using ev adv out by (auto simp: probe_advance_eq case_prod_beta prod_eq_iff)
    show ?thesis
    proof (cases "\<exists>n. st = StateProbeNodeFailure n")
      case True
      then obtain n where n: "st = StateProbeNodeFailure n" by blast
      then have "p2 = drop_node kd rt n p1"
        using kad_hex.probe_next_cases [OF hex wf1 p2(1), of "p2 = drop_node kd rt n p1"] by auto
      with n p2 same wf1 show ?thesis by (intro failure [of n p1]) (simp_all add: drop_node_def)
    next
      case False
      with p2 wf1 same show ?thesis by (intro polled [of p1 p2]) auto
    qed
  qed
qed

lemma probe_advance_rt:
  "pb_rt (snd (probe_advance kd rt now ev p)) = pb_rt p \<or>
     (\<exists>k. pb_rt (snd (probe_advance kd rt now ev p)) = rt_remove_key rt k (pb_rt p))"
proof -
  obtain out p1 where ev: "handle_probe_event kd rt now ev p = (out, p1)" by fastforce
  have "pb_rt (snd (probe_next kd rt now p1)) = pb_rt p1 \<or>
      (\<exists>k. pb_rt (snd (probe_next kd rt now p1)) = rt_remove_key rt k (pb_rt p1))"
    by (auto simp: probe_next_def drop_node_def split: option.split)
  with handle_probe_event_cases [OF ev] ev show ?thesis
    by (auto simp: probe_advance_eq case_prod_beta drop_node_def)
qed

lemma probe_reached_table:
  assumes "routing_table kd rt table_ok" "probe_reached kd rt table_ok p"
  shows "table_ok (pb_rt p)"
  using assms(2)
proof induction
  case (created table cfg p)
  then show ?case by (auto simp: new_probe_def split: option.splits)
next
  case (advanced p now ev)
  with probe_advance_rt [of kd rt now ev p] routing_table.remove_ok [OF assms(1)] show ?case by metis
qed simp

section \<open>The properties\<close>

text \<open>
  C10: every node the probe machine tracks is either scheduled for a check or being checked, never
  both; no node is in the list of ongoing checks twice, and there are at most as many ongoing
  checks as the concurrency.
\<close>

theorem probe_tracks:
  assumes "kad_hex kd" "probe_reached kd rt table_ok p"
  shows "(nvl_get kd n (pb_nvl p) \<noteq> None \<longleftrightarrow> scheduled_check kd n (pb_nvl p) \<or> being_checked kd n (pb_nvl p)) \<and>
    \<not> (scheduled_check kd n (pb_nvl p) \<and> being_checked kd n (pb_nvl p)) \<and>
    distinct (map (node_key kd) (nvl_ongoing (pb_nvl p))) \<and>
    int (ongoing_count (pb_nvl p)) \<le> pb_concurrency (pb_cfg p)"
proof -
  have wf: "probe_wf kd p" by (rule probe_reached_wf [OF assms])
  note l = probe_wf_nvl [OF wf]
  from wf have "int (ongoing_count (pb_nvl p)) \<le> pb_concurrency (pb_cfg p)"
    by (simp add: probe_wf_def ongoing_count_def)
  with nvl_wfD(5) [OF l] kad_hex.tracked_split [OF assms(1) l, of n] show ?thesis by blast
qed

text \<open>What the list says of a node: its value, and whether a check of it is under way.\<close>

definition probe_view :: "('k, 'n) kad_ops \<Rightarrow> 'n node_value_list \<Rightarrow> 'n \<Rightarrow> ('n node_value \<times> bool) option" where
  "probe_view kd l n = map_option (\<lambda>v. (v, being_checked kd n l)) (nvl_get kd n l)"

text \<open>
  C11: the list of node values, a heap of pointers beside a slice and a map, implements a map from
  nodes to a check and whether it is under way: putting a value schedules it and ends an ongoing
  check, removing forgets the node, and marking a scheduled node starts its check with the deadline.
\<close>

theorem probe_list_refines_map:
  assumes "kad_hex kd" "probe_reached kd rt table_ok p" "l = pb_nvl p"
  shows "probe_view kd (nvl_put kd nv l) m =
      (if node_key kd m = node_key kd (nv_node nv) then Some (nv, False) else probe_view kd l m) \<and>
    probe_view kd (nvl_remove kd n l) m = (if node_key kd m = node_key kd n then None else probe_view kd l m) \<and>
    (scheduled_check kd n l \<longrightarrow> probe_view kd (mark_ongoing kd n d l) m =
      (if node_key kd m = node_key kd n
       then map_option (\<lambda>(v, c). (v\<lparr>nv_check_deadline := d\<rparr>, True)) (probe_view kd l n) else probe_view kd l m))"
proof -
  have l: "nvl_wf kd l" using probe_wf_nvl [OF probe_reached_wf [OF assms(1,2)]] assms(3) by simp
  note put = kad_hex.put_wf(5) [OF assms(1) l] kad_hex.being_checked_put [OF assms(1) l]
  note remove = kad_hex.remove_wf(5) [OF assms(1) l] kad_hex.being_checked_remove [OF assms(1) l]
  have "probe_view kd (nvl_put kd nv l) m =
      (if node_key kd m = node_key kd (nv_node nv) then Some (nv, False) else probe_view kd l m)"
    by (simp add: probe_view_def put)
  moreover have "probe_view kd (nvl_remove kd n l) m = (if node_key kd m = node_key kd n then None else probe_view kd l m)"
    by (simp add: probe_view_def remove)
  ultimately show ?thesis
    by (auto simp: probe_view_def kad_hex.mark_view [OF assms(1) l] option.map_comp comp_def)
qed

text \<open>
  The machine asks for a check only of a node whose check is due, and of one no scheduled node
  is due before; the node is then being checked, until the timeout from now.
\<close>

theorem probe_checks_least_due:
  assumes "kad_hex kd" "probe_reached kd rt table_ok p" "0 < now"
    "probe_advance kd rt now ev p = (StateProbeConnectivityCheck n, p')"
  shows "being_checked kd n (pb_nvl p') \<and>
    (\<exists>v. nvl_get kd n (pb_nvl p') = Some v \<and> nv_next_check_due v \<le> now \<and>
       nv_check_deadline v = time_add now (pb_timeout (pb_cfg p)) \<and>
       (\<forall>m u. scheduled_check kd m (pb_nvl p') \<and> nvl_get kd m (pb_nvl p') = Some u \<longrightarrow>
          nv_next_check_due v \<le> nv_next_check_due u))"
  using assms
proof (cases rule: probe_advance_cases)
  case (polled p1 p2)
  let ?l = "pb_nvl p1" and ?d = "time_add now (pb_timeout (pb_cfg p1))"
  obtain v where n: "n = nv_node v" and p2: "p2 = p1\<lparr>pb_nvl := mark_ongoing kd (nv_node v) ?d ?l\<rparr>"
    and peek: "peek_next now ?l = Some v"
    by (rule kad_hex.probe_next_cases [OF assms(1) polled(4,1)]) auto
  note l = probe_wf_nvl [OF polled(4)]
  from kad_hex.peek_next_cases(2) [OF assms(1) l peek]
  have v: "scheduled_check kd n ?l" "nvl_get kd n ?l = Some v" "nv_next_check_due v \<le> now"
    and least: "\<And>m u. scheduled_check kd m ?l \<Longrightarrow> nvl_get kd m ?l = Some u \<Longrightarrow> \<not> check_before u v"
    using n by auto
  note mark = kad_hex.mark_view [OF assms(1) l v(1), where d = ?d]
  have l': "pb_nvl p' = mark_ongoing kd n ?d ?l" using polled(2) p2 n by simp
  have "nv_next_check_due v \<le> nv_next_check_due u"
    if m: "scheduled_check kd m (pb_nvl p')" "nvl_get kd m (pb_nvl p') = Some u" for m u
  proof -
    from m(1) mark(3) [of m] l' kad_hex.tracked_split(2) [OF assms(1) mark(1), of m]
    have ne: "node_key kd m \<noteq> node_key kd n" "\<not> being_checked kd m ?l" by auto
    with m(2) mark(2) [of m] l' have get: "nvl_get kd m ?l = Some u" by simp
    with ne(2) kad_hex.tracked_split(1) [OF assms(1) l, of m] have "scheduled_check kd m ?l" by simp
    from least [OF this get] show ?thesis by (auto simp: check_before_def time_defs split: if_splits)
  qed
  with v mark(2,3) [of n] l' polled(6) show ?thesis by auto
qed simp

text \<open>
  While the machine waits no check it has asked for is past its deadline, and unless it is at
  capacity no scheduled check is due; the due time it reports is the earliest deadline at capacity,
  and otherwise the earliest instant at which any node needs something, zero when it tracks none.
\<close>

theorem probe_due_time:
  assumes "kad_hex kd" "probe_reached kd rt table_ok p" "0 < now" "probe_advance kd rt now ev p = (st, p')"
  shows "(\<forall>d. st = StateProbeWaitingAtCapacity d \<longrightarrow> now < d \<and>
      least_instant {nv_check_deadline v | n v. being_checked kd n (pb_nvl p') \<and> nvl_get kd n (pb_nvl p') = Some v} d) \<and>
    (\<forall>d. st = StateProbeWaitingWithCapacity d \<or> st = StateProbeIdle d \<longrightarrow> (d = 0 \<or> now < d) \<and>
      least_instant {probe_instant kd (pb_nvl p') n v | n v. nvl_get kd n (pb_nvl p') = Some v} d)"
  using assms
proof (cases rule: probe_advance_cases)
  case (polled p1 p2)
  let ?l = "pb_nvl p1"
  note deadline = kad_hex.next_deadline_least [OF assms(1) polled(4)]
  note due = kad_hex.next_due_least [OF assms(1) polled(4)]
  show ?thesis
  proof (cases rule: kad_hex.probe_next_cases [OF assms(1) polled(4,1), case_names failure capacity waiting check])
    case capacity
    let ?D = "{nv_check_deadline v | n v. being_checked kd n ?l \<and> nvl_get kd n ?l = Some v}"
    from capacity(3) polled(4) have "nvl_ongoing ?l \<noteq> []"
      by (auto simp: probe_at_capacity_def ongoing_count_def probe_wf_def)
    then have "being_checked kd (hd (nvl_ongoing ?l)) ?l" by (simp add: being_checked_def)
    with kad_hex.tracked_split(1) [OF assms(1) probe_wf_nvl [OF polled(4)]] have "?D \<noteq> {}" by blast
    with least_instantD(1) [OF deadline] have "nvl_next_deadline kd ?l \<in> ?D" .
    with capacity(4) have "now < nvl_next_deadline kd ?l" by auto
    with capacity(1,2) deadline polled(2) show ?thesis by simp
  next
    case waiting
    let ?D = "{probe_instant kd ?l n v | n v. nvl_get kd n ?l = Some v}"
    have "nvl_next_due kd ?l = 0 \<or> nvl_next_due kd ?l \<in> ?D"
      by (rule least_instantD(2) [OF due])
    with waiting(3) have "nvl_next_due kd ?l = 0 \<or> now < nvl_next_due kd ?l" by auto
    with waiting(1,2) due polled(2) show ?thesis by auto
  qed simp_all
qed simp

text \<open>
  C12: a node reported as failed is in neither the routing table nor the list of checks, and the
  advance leaves every other node of the table alone; a machine that reports anything else leaves
  the whole table alone.
\<close>

theorem probe_failure_removes:
  assumes "kad_hex kd" "routing_table kd rt table_ok" "probe_reached kd rt table_ok p" "0 < now"
    "probe_advance kd rt now ev p = (st, p')"
  shows "(case st of
      StateProbeNodeFailure n \<Rightarrow>
        nvl_get kd n (pb_nvl p') = None \<and>
        (\<forall>k. rt_get_node rt (pb_rt p') k = (if k = node_key kd n then None else rt_get_node rt (pb_rt p) k))
    | _ \<Rightarrow> pb_rt p' = pb_rt p)"
  using assms(1,3,4,5)
proof (cases rule: probe_advance_cases)
  case (failure n p1)
  have ok: "table_ok (pb_rt p)"
    by (rule probe_reached_table [OF assms(2,3)])
  from failure show ?thesis
    using kad_hex.remove_wf(5) [OF assms(1) probe_wf_nvl [OF failure(4)]] routing_table.remove_get [OF assms(2) ok]
    by simp
next
  case (polled p1 p2)
  have "pb_rt p2 = pb_rt p1"
    by (rule kad_hex.probe_next_cases [OF assms(1) polled(4,1)]) (use polled(7) in auto)
  with polled show ?thesis by (cases st) auto
qed

end
