(* ===== verification/ProbeWitnesses.thy ===== *)
theory ProbeWitnesses
  imports ProbeTheorems
begin

text \<open>
  The properties of the probe machine on the tiny network: one node is added, falls due, is
  checked and fails the check by not answering before its deadline.
\<close>

definition tiny_probe_config :: probe_config where
  "tiny_probe_config = \<lparr>pb_check_interval = 10, pb_concurrency = 1, pb_timeout = 5, pb_tracer = True, pb_meter = True\<rparr>"

definition tiny_probe_table :: "(tiny_key, tiny_node) list_table" where
  "tiny_probe_table = \<lparr>lt_self = 0, lt_nodes = [new_node 4]\<rparr>"

type_synonym tiny_probe = "(tiny_node, (tiny_key, tiny_node) list_table) probe_machine"

definition tiny_probe_new :: tiny_probe where
  "tiny_probe_new = \<lparr>pb_rt = tiny_probe_table, pb_nvl = new_node_value_list, pb_cfg = tiny_probe_config, pb_pending_count = 0\<rparr>"

definition tiny_probe_added :: tiny_probe where
  "tiny_probe_added = snd (probe_advance tiny_kad tiny_rt 1 (EventProbeAdd (new_node 4)) tiny_probe_new)"

definition tiny_probe_checking :: tiny_probe where
  "tiny_probe_checking = snd (probe_advance tiny_kad tiny_rt 12 EventProbePoll tiny_probe_added)"

abbreviation tiny_probe_reached :: "tiny_probe \<Rightarrow> bool" where
  "tiny_probe_reached \<equiv> probe_reached tiny_kad tiny_rt (list_table_ok tiny_kad)"

lemma tiny_probe_new_reached: "tiny_probe_reached tiny_probe_new"
proof (rule created)
  show "new_probe tiny_probe_table (Some tiny_probe_config) = Inr tiny_probe_new"
    by (simp add: new_probe_def probe_config_validate_def tiny_probe_config_def tiny_probe_new_def)
  show "list_table_ok tiny_kad tiny_probe_table" by (simp add: list_table_ok_def tiny_probe_table_def)
qed

lemma tiny_probe_added_reached: "tiny_probe_reached tiny_probe_added"
  unfolding tiny_probe_added_def by (rule advanced [OF tiny_probe_new_reached]) simp

lemma tiny_probe_checking_reached: "tiny_probe_reached tiny_probe_checking"
  unfolding tiny_probe_checking_def by (rule advanced [OF tiny_probe_added_reached]) simp

lemma tiny_probe_asks:
  "probe_advance tiny_kad tiny_rt 12 EventProbePoll tiny_probe_added =
     (StateProbeConnectivityCheck (new_node 4), tiny_probe_checking)"
proof -
  have "fst (probe_advance tiny_kad tiny_rt 12 EventProbePoll tiny_probe_added) = StateProbeConnectivityCheck (new_node 4)"
    by code_simp
  then show ?thesis by (simp add: tiny_probe_checking_def prod_eq_iff)
qed

theorem probe_tracks_witness: "being_checked tiny_kad (new_node 4) (pb_nvl tiny_probe_checking)"
proof -
  have "nvl_get tiny_kad (new_node 4) (pb_nvl tiny_probe_checking) \<noteq> None" by code_simp
  moreover have "nvl_pending (pb_nvl tiny_probe_checking) = []" by code_simp
  ultimately show ?thesis
    using probe_tracks [OF tiny_hex.kad_hex_axioms tiny_probe_checking_reached, of "new_node 4"]
    by (simp add: scheduled_check_def)
qed

theorem probe_list_refines_map_witness:
  "probe_view tiny_kad (nvl_remove tiny_kad (new_node 4) (pb_nvl tiny_probe_added)) (new_node 4) = None"
  using probe_list_refines_map [OF tiny_hex.kad_hex_axioms tiny_probe_added_reached refl, of _ "new_node 4" "new_node 4"]
  by simp

theorem probe_checks_least_due_witness:
  "\<exists>v. nvl_get tiny_kad (new_node 4) (pb_nvl tiny_probe_checking) = Some v \<and> nv_next_check_due v \<le> 12 \<and>
     nv_check_deadline v = time_add 12 (pb_timeout (pb_cfg tiny_probe_added))"
  using probe_checks_least_due [OF tiny_hex.kad_hex_axioms tiny_probe_added_reached _ tiny_probe_asks] by auto

theorem probe_due_time_witness:
  "least_instant {nv_check_deadline v | n v. being_checked tiny_kad n (pb_nvl tiny_probe_checking) \<and>
     nvl_get tiny_kad n (pb_nvl tiny_probe_checking) = Some v} 17"
proof -
  let ?adv = "probe_advance tiny_kad tiny_rt 13 EventProbePoll tiny_probe_checking"
  have st: "fst ?adv = StateProbeWaitingAtCapacity 17" by code_simp
  then have "snd ?adv = tiny_probe_checking\<lparr>pb_pending_count := pending_count (pb_nvl tiny_probe_checking)\<rparr>"
    by (auto simp: probe_advance_eq probe_next_def case_prod_beta split: option.splits if_splits)
  then have "pb_nvl (snd ?adv) = pb_nvl tiny_probe_checking" by simp
  with probe_due_time [OF tiny_hex.kad_hex_axioms tiny_probe_checking_reached _ prod.collapse [of ?adv, symmetric]] st
  show ?thesis by simp
qed

theorem probe_failure_removes_witness:
  "rt_get_node tiny_rt (pb_rt (snd (probe_advance tiny_kad tiny_rt 20 EventProbePoll tiny_probe_checking))) 4 = None"
proof -
  let ?adv = "probe_advance tiny_kad tiny_rt 20 EventProbePoll tiny_probe_checking"
  have "fst ?adv = StateProbeNodeFailure (new_node 4)" by code_simp
  moreover have "node_key tiny_kad (new_node 4) = 4" by (simp add: tiny_kad_def new_node_def)
  ultimately show ?thesis
    using probe_failure_removes [OF tiny_hex.kad_hex_axioms list_table.routing_table_axioms
        tiny_probe_checking_reached _ prod.collapse [of ?adv, symmetric]] by simp
qed

end
