(* ===== verification/Bootstrap.thy ===== *)
theory Bootstrap
  imports RoutingTable Query
begin

text \<open>
  \<open>routing/bootstrap.go\<close>: the machine that fills an empty routing table by looking up the local
  node's own key. It runs one query at a time; a running query is \<open>Some\<close> query in \<open>bs_qry\<close>. The
  places where the code panics give \<open>None\<close>.
\<close>

section \<open>Configuration, states and events\<close>

definition BootstrapActivityID :: activity_id where
  "BootstrapActivityID = ''bootstrap''"

datatype bootstrap_trigger = TriggerAutomatic | TriggerRequested

definition trigger_string :: "bootstrap_trigger \<Rightarrow> string" where
  "trigger_string t = (case t of TriggerAutomatic \<Rightarrow> ''automatic'' | TriggerRequested \<Rightarrow> ''requested'')"

record bootstrap_config =
  bc_timeout :: duration
  bc_request_concurrency :: int
  bc_request_timeout :: duration
  bc_minimum_population :: int
  bc_retry_interval :: duration
  bc_tracer :: bool
  bc_meter :: bool

definition bootstrap_config_validate :: "bootstrap_config \<Rightarrow> go_error option" where
  "bootstrap_config_validate cfg = first_error ''BootstrapConfig''
     [(\<not> bc_tracer cfg, ''tracer must not be nil''),
      (\<not> bc_meter cfg, ''meter must not be nil''),
      (bc_timeout cfg < 1, ''timeout must be greater than zero''),
      (bc_request_concurrency cfg < 1, ''request concurrency must be greater than zero''),
      (bc_request_timeout cfg < 1, ''request timeout must be greater than zero''),
      (bc_minimum_population cfg < 0, ''minimum population must not be negative''),
      (0 < bc_minimum_population cfg \<and> bc_retry_interval cfg < 1, ''retry interval must be greater than zero'')]"

definition default_bootstrap_config :: bootstrap_config where
  "default_bootstrap_config =
     \<lparr>bc_timeout = 5 * minute, bc_request_concurrency = 3, bc_request_timeout = minute,
      bc_minimum_population = 10, bc_retry_interval = minute, bc_tracer = True, bc_meter = True\<rparr>"

datatype ('k, 'n) bootstrap_state =
    StateBootstrapFindCloser activity_id 'k 'n query_stats
  | StateBootstrapIdle time
  | StateBootstrapFinished query_stats 'k "'n list"
  | StateBootstrapTimeout query_stats
  | StateBootstrapWaiting time query_stats

datatype 'n bootstrap_event =
    EventBootstrapPoll
  | EventBootstrapStart "'n list"
  | EventBootstrapFindCloserResponse 'n "'n list"
  | EventBootstrapFindCloserFailure 'n go_error

section \<open>The machine\<close>

type_synonym ('k, 'n, 'tr) find_query = "('k, 'n, unit, ('k, 'tr) closest_nodes_iter) query"

record ('k, 'n, 'tr, 'rt) bootstrap_machine =
  bs_self :: 'n
  bs_rt :: 'rt
  bs_seeds :: "'n list"
  bs_qry :: "('k, 'n, 'tr) find_query option"
  bs_last_attempt :: time
  bs_cfg :: bootstrap_config
  bs_running :: bool

definition new_bootstrap ::
  "'n \<Rightarrow> 'rt \<Rightarrow> 'n list \<Rightarrow> bootstrap_config option \<Rightarrow> ('k, 'n, 'tr, 'rt) bootstrap_machine go_result" where
  "new_bootstrap self rt seeds cfg_opt =
     (case (case cfg_opt of None \<Rightarrow> None | Some cfg \<Rightarrow> bootstrap_config_validate cfg) of
        Some e \<Rightarrow> Inl e
      | None \<Rightarrow> Inr \<lparr>bs_self = self, bs_rt = rt, bs_seeds = seeds, bs_qry = None, bs_last_attempt = zero_time,
          bs_cfg = (case cfg_opt of None \<Rightarrow> default_bootstrap_config | Some cfg \<Rightarrow> cfg), bs_running = False\<rparr>)"

definition population_low ::
  "('k, 'n) kad_ops \<Rightarrow> ('k, 'n, 'rt) rt_ops \<Rightarrow> ('k, 'n, 'tr, 'rt) bootstrap_machine \<Rightarrow> bool" where
  "population_low kd rt b \<longleftrightarrow>
     int (length (rt_nearest_nodes rt (bs_rt b) (node_key kd (bs_self b)) (bc_minimum_population (bs_cfg b))))
       < bc_minimum_population (bs_cfg b)"

text \<open>
  \<open>advanceQuery\<close>, called only with a query running. A waiting query that is past its overall
  deadline is given up.
\<close>

definition bootstrap_waiting ::
  "time \<Rightarrow> query_stats \<Rightarrow> time \<Rightarrow> time \<Rightarrow> ('k, 'n, 'tr, 'rt) bootstrap_machine \<Rightarrow>
     ('k, 'n) bootstrap_state \<times> ('k, 'n, 'tr, 'rt) bootstrap_machine" where
  "bootstrap_waiting now stats deadline due b =
     (if time_after now deadline then (StateBootstrapTimeout stats, b\<lparr>bs_qry := None\<rparr>)
      else (StateBootstrapWaiting (earlier due deadline) stats, b))"

definition bootstrap_advance_query ::
  "('k, 'n) kad_ops \<Rightarrow> ('k, 'n node_status, 'tr) trie_ops \<Rightarrow> time \<Rightarrow> 'n query_event \<Rightarrow> ('k, 'n, 'tr) find_query \<Rightarrow>
     ('k, 'n, 'tr, 'rt) bootstrap_machine \<Rightarrow>
     (('k, 'n) bootstrap_state \<times> ('k, 'n, 'tr, 'rt) bootstrap_machine) option" where
  "bootstrap_advance_query kd T now qev q b =
     (let (st, q') = query_advance kd (closest_iter kd T) now qev q;
          b' = b\<lparr>bs_qry := Some q'\<rparr>
      in case st of
           StateQueryFindCloser i target n stats \<Rightarrow> Some (StateBootstrapFindCloser i target n stats, b')
         | StateQueryFinished i stats target closest \<Rightarrow>
             Some (StateBootstrapFinished stats target closest, b\<lparr>bs_qry := None\<rparr>)
         | StateQueryWaitingAtCapacity i stats deadline due \<Rightarrow> Some (bootstrap_waiting now stats deadline due b')
         | StateQueryWaitingWithCapacity i stats deadline due \<Rightarrow> Some (bootstrap_waiting now stats deadline due b')
         | StateQuerySendMessage i n msg stats \<Rightarrow> None)"

text \<open>\<open>startQuery\<close>: the trigger is only counted.\<close>

definition bootstrap_query_config :: "bootstrap_config \<Rightarrow> query_config" where
  "bootstrap_query_config cfg =
     default_query_config\<lparr>qc_concurrency := bc_request_concurrency cfg,
       qc_request_timeout := bc_request_timeout cfg, qc_timeout := bc_timeout cfg\<rparr>"

definition bootstrap_start_query ::
  "('k, 'n) kad_ops \<Rightarrow> ('k, 'n node_status, 'tr) trie_ops \<Rightarrow> time \<Rightarrow> 'n list \<Rightarrow> bootstrap_trigger \<Rightarrow>
     ('k, 'n, 'tr, 'rt) bootstrap_machine \<Rightarrow>
     (('k, 'n) bootstrap_state \<times> ('k, 'n, 'tr, 'rt) bootstrap_machine) option" where
  "bootstrap_start_query kd T now seeds trigger b =
     (let self_key = node_key kd (bs_self b) in
      case new_find_closer_query kd (closest_iter kd T) (bs_self b) BootstrapActivityID self_key
             (new_closest_nodes_iter T self_key) seeds (Some (bootstrap_query_config (bs_cfg b))) of
        Inl e \<Rightarrow> None
      | Inr q \<Rightarrow> bootstrap_advance_query kd T now EventQueryPoll q (b\<lparr>bs_qry := Some q, bs_last_attempt := now\<rparr>))"

text \<open>What \<open>Advance\<close> does when nothing has returned: it polls the query or decides whether to start one.\<close>

definition bootstrap_poll ::
  "('k, 'n) kad_ops \<Rightarrow> ('k, 'n, 'rt) rt_ops \<Rightarrow> ('k, 'n node_status, 'tr) trie_ops \<Rightarrow> time \<Rightarrow>
     ('k, 'n, 'tr, 'rt) bootstrap_machine \<Rightarrow>
     (('k, 'n) bootstrap_state \<times> ('k, 'n, 'tr, 'rt) bootstrap_machine) option" where
  "bootstrap_poll kd rt T now b =
     (case bs_qry b of
        Some q \<Rightarrow> bootstrap_advance_query kd T now EventQueryPoll q b
      | None \<Rightarrow>
          (if 0 < bc_minimum_population (bs_cfg b) \<and> bs_seeds b \<noteq> [] \<and> population_low kd rt b
           then (let retry_at = time_add (bs_last_attempt b) (bc_retry_interval (bs_cfg b)) in
                 if \<not> is_zero (bs_last_attempt b) \<and> time_before now retry_at
                 then Some (StateBootstrapIdle retry_at, b)
                 else bootstrap_start_query kd T now (bs_seeds b) TriggerAutomatic b)
           else Some (StateBootstrapIdle zero_time, b)))"

fun bootstrap_handle ::
  "('k, 'n) kad_ops \<Rightarrow> ('k, 'n, 'rt) rt_ops \<Rightarrow> ('k, 'n node_status, 'tr) trie_ops \<Rightarrow> time \<Rightarrow> 'n bootstrap_event \<Rightarrow>
     ('k, 'n, 'tr, 'rt) bootstrap_machine \<Rightarrow>
     (('k, 'n) bootstrap_state \<times> ('k, 'n, 'tr, 'rt) bootstrap_machine) option" where
  "bootstrap_handle kd rt T now (EventBootstrapStart known) b =
     (case bs_qry b of
        Some q \<Rightarrow> bootstrap_advance_query kd T now EventQueryPoll q b
      | None \<Rightarrow> bootstrap_start_query kd T now (if known = [] then bs_seeds b else known) TriggerRequested b)"
| "bootstrap_handle kd rt T now (EventBootstrapFindCloserResponse n closer) b =
     (case bs_qry b of
        Some q \<Rightarrow> bootstrap_advance_query kd T now (EventQueryNodeResponse n closer) q b
      | None \<Rightarrow> bootstrap_poll kd rt T now b)"
| "bootstrap_handle kd rt T now (EventBootstrapFindCloserFailure n err) b =
     (case bs_qry b of
        Some q \<Rightarrow> bootstrap_advance_query kd T now (EventQueryNodeFailure n err) q b
      | None \<Rightarrow> bootstrap_poll kd rt T now b)"
| "bootstrap_handle kd rt T now EventBootstrapPoll b = bootstrap_poll kd rt T now b"

definition bootstrap_advance ::
  "('k, 'n) kad_ops \<Rightarrow> ('k, 'n, 'rt) rt_ops \<Rightarrow> ('k, 'n node_status, 'tr) trie_ops \<Rightarrow> time \<Rightarrow> 'n bootstrap_event \<Rightarrow>
     ('k, 'n, 'tr, 'rt) bootstrap_machine \<Rightarrow>
     (('k, 'n) bootstrap_state \<times> ('k, 'n, 'tr, 'rt) bootstrap_machine) option" where
  "bootstrap_advance kd rt T now ev b =
     map_option (\<lambda>(out, b'). (out, b'\<lparr>bs_running := bs_qry b' \<noteq> None\<rparr>)) (bootstrap_handle kd rt T now ev b)"

end
