(* ===== verification/OwnedQuery.thy ===== *)
theory OwnedQuery
  imports QueryTheorems
begin

text \<open>
  What a machine that runs a query of its own relies on. Bootstrap, explore and the publishing
  machines each own a find-closer query, advance it with their events and turn what it reports into
  a state of their own.
\<close>

section \<open>What an advance reports of an unfinished query\<close>

context node_iter_spec
begin

lemma run_walk_output:
  fixes q :: "('k, 'n, 'm, 'it) query"
  assumes cells: "query_cells kd io valid (q_self q) (q_iter q) (q_states q)"
    and limit: "1 \<le> qc_num_results (q_cfg q)" and run: "run_walk kd io now q = (st, q')" and nf: "\<not> q_finished q"
  obtains (request) e where "st = request_state e q'" "\<not> q_finished q'"
  | (finished) "st = finished_state q'" "q_finished q'"
  | (waiting) due where "\<not> q_finished q'"
      "st = StateQueryWaitingAtCapacity (q_id q') (q_stats q') (q_deadline q') due \<or>
       st = StateQueryWaitingWithCapacity (q_id q') (q_stats q') (q_deadline q') due"
proof -
  have passed: "q_finished (passed_query now xs sts q) = q_finished q" for xs sts
    by (simp add: passed_query_def)
  have send: "q_finished (send_request now e p) = q_finished p" for e and p :: "('k, 'n, 'm, 'it) query"
    by (simp add: send_request_def Let_def)
  have mark: "q_finished (mark_finished kd io now p)" for p :: "('k, 'n, 'm, 'it) query"
    by (simp add: mark_finished_def)
  from cells limit show thesis
  proof (cases rule: run_walk_cases [where now = now])
    case (request xs e ys sts p)
    with run nf send passed show thesis by (intro that(1) [of e]) auto
  next
    case (waiting sts p)
    with run nf passed show thesis by (intro that(3) [of "earliest_node_deadline io p"]) auto
  next
    case (capacity xs e ys sts p)
    with run nf passed show thesis by (intro that(3) [of "earliest_node_deadline io p"]) auto
  qed (use run mark in \<open>auto intro!: that(2)\<close>)
qed

lemma advance_output:
  fixes q :: "('k, 'n, 'm, 'it) query"
  assumes wf: "query_wf kd io valid q" and limit: "1 \<le> qc_num_results (q_cfg q)"
    and adv: "query_advance kd io now ev q = (st, q')" and nf: "\<not> q_finished q"
  obtains (request) e where "st = request_state e q'" "\<not> q_finished q'"
  | (finished) "st = finished_state q'" "q_finished q'"
  | (waiting) due where "\<not> q_finished q'"
      "st = StateQueryWaitingAtCapacity (q_id q') (q_stats q') (q_deadline q') due \<or>
       st = StateQueryWaitingWithCapacity (q_id q') (q_stats q') (q_deadline q') due"
proof -
  have cells: "query_cells kd io valid (q_self p) (q_iter p) (q_states p)" if "query_wf kd io valid p"
    for p :: "('k, 'n, 'm, 'it) query" using that by (simp add: query_wf_def)
  have keep: "q_finished (on_node_response kd io n ns q) = q_finished q"
    "q_finished (on_node_failure kd io n q) = q_finished q" for n ns
    by (auto simp: on_node_response_def on_node_failure_def accept_closer_def
        split: option.split node_state.split prod.split)
  show thesis
  proof (cases "ev = EventQueryCancel")
    case True
    with adv nf have "st = finished_state q'" "q_finished q'"
      by (auto simp: query_advance_def mark_finished_def Let_def)
    then show thesis by (rule that(2))
  next
    case False
    with adv nf obtain p where p: "p = q \<or> (\<exists>n ns. p = on_node_response kd io n ns q) \<or> (\<exists>n. p = on_node_failure kd io n q)"
      and run: "run_walk kd io now p = (st, q')"
      by (cases ev) (auto simp: query_advance_def)
    from p keep nf have "\<not> q_finished p" "q_cfg p = q_cfg q" by auto
    moreover from p wf on_node_response_wf [OF wf] on_node_failure_wf [OF wf] have "query_wf kd io valid p" by auto
    ultimately show thesis
      using run_walk_output [OF cells _ run] limit that by metis
  qed
qed

end

context kad_node_trie
begin

lemma iterator: "node_iter_spec kd (closest_iter kd T) (closest_valid kd T ok)"
  by unfold_locales

end

section \<open>A query a machine owns\<close>

text \<open>
  The query is one the named activity started to find the nodes closest to a target, it has been
  advanced at instants after the zero time and it has not ended.
\<close>

definition owned_query ::
  "('k, 'n) kad_ops \<Rightarrow> ('k, 'n node_status, 'tr) trie_ops \<Rightarrow> activity_id \<Rightarrow> 'k \<Rightarrow>
     ('k, 'n, 'm, ('k, 'tr) closest_nodes_iter) query \<Rightarrow> bool" where
  "owned_query kd T qid target q \<longleftrightarrow>
     (\<exists>evs sts. query_reached kd T evs sts q \<and> (\<forall>e \<in> set evs. 0 < fst e)) \<and>
     q_id q = qid \<and> q_target q = target \<and> q_find_closer q \<and> \<not> q_finished q"

lemma owned_new:
  assumes "new_find_closer_query kd (closest_iter kd T) self qid target (new_closest_nodes_iter T target) known cfg = Inr q"
  shows "owned_query kd T qid target q"
proof -
  have "started_query kd T q" by (rule find_closer [OF assms])
  then have "query_reached kd T [] [] q" by (auto simp: query_reached_def)
  moreover have "q_id q = qid" "q_target q = target" "q_find_closer q" "\<not> q_finished q"
    using assms by (auto simp: new_find_closer_query_def new_query_def split: option.splits prod.splits sum.splits)
  ultimately show ?thesis unfolding owned_query_def by fastforce
qed

lemma new_query_ok:
  assumes "query_config_validate cfg = None"
  shows "\<exists>q. new_find_closer_query kd io self qid target it known (Some cfg) = Inr q"
  using assms by (auto simp: new_find_closer_query_def new_query_def split: prod.split)

lemma owned_advance:
  assumes trie: "kad_node_trie kd T ok" and own: "owned_query kd T qid target q" and now: "0 < now"
    and adv: "query_advance kd (closest_iter kd T) now ev q = (st, q')"
  obtains (request) n where "st = StateQueryFindCloser qid target n (q_stats q')" "owned_query kd T qid target q'"
  | (finished) ns where "st = StateQueryFinished qid (q_stats q') target ns"
  | (waiting) due where "owned_query kd T qid target q'" "0 < due"
      "due = Min (set (waiting_deadlines (closest_iter kd T) q'))"
      "st = StateQueryWaitingAtCapacity qid (q_stats q') (q_deadline q') due \<or>
       st = StateQueryWaitingWithCapacity qid (q_stats q') (q_deadline q') due"
proof -
  from own obtain evs sts where reached: "query_reached kd T evs sts q" and times: "\<forall>e \<in> set evs. 0 < fst e"
    by (auto simp: owned_query_def)
  note wf = kad_node_trie.reached_wf(1) [OF trie reached] and limit = kad_node_trie.reached_limit [OF trie reached]
  have iter: "node_iter_spec kd (closest_iter kd T) (closest_valid kd T ok)"
    by (rule kad_node_trie.iterator [OF trie])
  have "same_identity q q'"
    using node_iter_spec.advance_wf(2) [OF iter wf limit, of now ev] adv by simp
  with own have same: "q_id q' = qid" "q_target q' = target" "q_find_closer q'" "\<not> q_finished q"
    by (auto simp: same_identity_def owned_query_def)
  have "query_reached kd T (evs @ [(now, ev)]) (sts @ [st]) q'"
    by (rule kad_node_trie.reached_step [OF trie reached adv])
  moreover have "\<forall>e \<in> set (evs @ [(now, ev)]). 0 < fst e" using times now by simp
  ultimately have own': "owned_query kd T qid target q'" if "\<not> q_finished q'"
    using that same unfolding owned_query_def by blast
  show thesis
  proof (cases rule: node_iter_spec.advance_output
      [OF iter wf limit adv same(4), case_names request finished waiting])
    case (request e)
    with same own' show thesis by (intro that(1) [of "ns_node e"]) (simp_all add: request_state_def)
  next
    case finished
    with same show thesis by (intro that(2)) (simp add: finished_state_def)
  next
    case (waiting due)
    with kad_node_trie.reached_due [OF trie reached now times adv] same own' show thesis
      by (intro that(3) [of due]) auto
  qed
qed

end
