(* ===== verification/BootstrapTheorems.thy ===== *)
theory BootstrapTheorems
  imports Bootstrap OwnedQuery
begin

text \<open>
  The properties of the bootstrap machine. The routing table belongs to other machines, so it may
  change in any way between two advances.
\<close>

section \<open>Reachable machines\<close>

inductive bootstrap_reached ::
  "('k, 'n) kad_ops \<Rightarrow> ('k, 'n, 'rt) rt_ops \<Rightarrow> ('k, 'n node_status, 'tr) trie_ops \<Rightarrow>
     ('k, 'n, 'tr, 'rt) bootstrap_machine \<Rightarrow> bool"
  for kd rt T where
  created: "new_bootstrap self table seeds cfg = Inr b \<Longrightarrow> bootstrap_reached kd rt T b"
| advanced: "bootstrap_reached kd rt T b \<Longrightarrow> 0 < now \<Longrightarrow>
    bootstrap_advance kd rt T now ev b = Some (out, b') \<Longrightarrow> bootstrap_reached kd rt T b'"
| shared: "bootstrap_reached kd rt T b \<Longrightarrow> bootstrap_reached kd rt T (b\<lparr>bs_rt := table\<rparr>)"

definition bootstrap_wf ::
  "('k, 'n) kad_ops \<Rightarrow> ('k, 'n node_status, 'tr) trie_ops \<Rightarrow> ('k, 'n, 'tr, 'rt) bootstrap_machine \<Rightarrow> bool" where
  "bootstrap_wf kd T b \<longleftrightarrow>
     bootstrap_config_validate (bs_cfg b) = None \<and> 0 \<le> bs_last_attempt b \<and>
     (\<forall>q. bs_qry b = Some q \<longrightarrow>
        owned_query kd T BootstrapActivityID (node_key kd (bs_self b)) q \<and> 0 < bs_last_attempt b)"

lemma bootstrap_query_config_ok:
  "bootstrap_config_validate cfg = None \<Longrightarrow> query_config_validate (bootstrap_query_config cfg) = None"
  by (simp add: bootstrap_config_validate_def query_config_validate_def bootstrap_query_config_def
      default_query_config_def split: if_splits)

lemma new_bootstrap_wf: "new_bootstrap self table seeds cfg = Inr b \<Longrightarrow> bootstrap_wf kd T b"
  by (auto simp: new_bootstrap_def bootstrap_wf_def default_bootstrap_config_def duration_defs
      bootstrap_config_validate_def time_defs split: option.splits if_splits)

text \<open>What the machine makes of what its query reports.\<close>

lemma bootstrap_query_step:
  fixes b :: "('k, 'n, 'tr, 'rt) bootstrap_machine"
  assumes trie: "kad_node_trie kd T ok" and now: "0 < now"
    and own: "owned_query kd T BootstrapActivityID (node_key kd (bs_self b)) q"
  obtains (request) q' n where "owned_query kd T BootstrapActivityID (node_key kd (bs_self b)) q'"
      "bootstrap_advance_query kd T now ev q b =
         Some (StateBootstrapFindCloser BootstrapActivityID (node_key kd (bs_self b)) n (q_stats q'), b\<lparr>bs_qry := Some q'\<rparr>)"
  | (finished) stats ns where
      "bootstrap_advance_query kd T now ev q b =
         Some (StateBootstrapFinished stats (node_key kd (bs_self b)) ns, b\<lparr>bs_qry := None\<rparr>)"
  | (timeout) stats and q' :: "('k, 'n, 'tr) find_query" where "q_deadline q' < now"
      "bootstrap_advance_query kd T now ev q b = Some (StateBootstrapTimeout stats, b\<lparr>bs_qry := None\<rparr>)"
  | (waiting) q' due where "owned_query kd T BootstrapActivityID (node_key kd (bs_self b)) q'"
      "0 < due" "due = Min (set (waiting_deadlines (closest_iter kd T) q'))" "now \<le> q_deadline q'"
      "bootstrap_advance_query kd T now ev q b =
         Some (StateBootstrapWaiting (min due (q_deadline q')) (q_stats q'), b\<lparr>bs_qry := Some q'\<rparr>)"
proof -
  obtain st q' where adv: "query_advance kd (closest_iter kd T) now ev q = (st, q')" by fastforce
  show thesis
  proof (cases rule: owned_advance [OF trie own now adv, case_names request finished waiting])
    case (request n)
    with adv show thesis by (intro that(1) [of q' n]) (simp_all add: bootstrap_advance_query_def)
  next
    case (finished ns)
    with adv show thesis by (intro that(2)) (simp add: bootstrap_advance_query_def)
  next
    case (waiting due)
    from waiting(4) adv have eq: "bootstrap_advance_query kd T now ev q b =
        Some (bootstrap_waiting now (q_stats q') (q_deadline q') due (b\<lparr>bs_qry := Some q'\<rparr>))"
      by (auto simp: bootstrap_advance_query_def)
    show thesis
    proof (cases "q_deadline q' < now")
      case True
      with eq show thesis by (intro that(3) [of q' "q_stats q'"]) (simp_all add: bootstrap_waiting_def time_defs)
    next
      case False
      with now waiting(2) have "earlier due (q_deadline q') = min due (q_deadline q')"
        by (intro earlier_nonzero) simp_all
      with False eq waiting(1-3) show thesis
        by (intro that(4) [of q' due]) (simp_all add: bootstrap_waiting_def time_defs)
    qed
  qed
qed

lemma bootstrap_query_total:
  assumes "kad_node_trie kd T ok" "0 < now" "owned_query kd T BootstrapActivityID (node_key kd (bs_self b)) q"
    "bootstrap_config_validate (bs_cfg b) = None" "0 < bs_last_attempt b"
  shows "\<exists>out b'. bootstrap_advance_query kd T now ev q b = Some (out, b') \<and> bootstrap_wf kd T b'"
  using assms(1-3)
  by (cases rule: bootstrap_query_step [where ev = ev]) (use assms(4,5) in \<open>auto simp: bootstrap_wf_def\<close>)

lemma bootstrap_start_eq:
  fixes b :: "('k, 'n, 'tr, 'rt) bootstrap_machine"
  assumes "bootstrap_config_validate (bs_cfg b) = None"
  obtains q where "owned_query kd T BootstrapActivityID (node_key kd (bs_self b)) q"
    "bootstrap_start_query kd T now seeds trigger b =
       bootstrap_advance_query kd T now EventQueryPoll q (b\<lparr>bs_qry := Some q, bs_last_attempt := now\<rparr>)"
proof -
  let ?k = "node_key kd (bs_self b)"
  have "\<exists>q :: ('k, 'n, 'tr) find_query. new_find_closer_query kd (closest_iter kd T) (bs_self b) BootstrapActivityID ?k
      (new_closest_nodes_iter T ?k) seeds (Some (bootstrap_query_config (bs_cfg b))) = Inr q"
    by (rule new_query_ok [OF bootstrap_query_config_ok [OF assms]])
  then obtain q :: "('k, 'n, 'tr) find_query" where q: "new_find_closer_query kd (closest_iter kd T) (bs_self b)
      BootstrapActivityID ?k (new_closest_nodes_iter T ?k) seeds (Some (bootstrap_query_config (bs_cfg b))) = Inr q" ..
  then show thesis
    by (intro that [OF owned_new [OF q]]) (simp add: bootstrap_start_query_def Let_def)
qed

lemma bootstrap_start_total:
  assumes "kad_node_trie kd T ok" "0 < now" "bootstrap_config_validate (bs_cfg b) = None"
  shows "\<exists>out b'. bootstrap_start_query kd T now seeds trigger b = Some (out, b') \<and> bootstrap_wf kd T b'"
proof -
  obtain q where q: "owned_query kd T BootstrapActivityID (node_key kd (bs_self b)) q"
    "bootstrap_start_query kd T now seeds trigger b =
       bootstrap_advance_query kd T now EventQueryPoll q (b\<lparr>bs_qry := Some q, bs_last_attempt := now\<rparr>)"
    by (rule bootstrap_start_eq [OF assms(3)])
  show ?thesis
    unfolding q(2) by (rule bootstrap_query_total [OF assms(1,2)]) (use assms q in simp_all)
qed

lemma bootstrap_poll_total:
  assumes "kad_node_trie kd T ok" "0 < now" "bootstrap_wf kd T b"
  shows "\<exists>out b'. bootstrap_poll kd rt T now b = Some (out, b') \<and> bootstrap_wf kd T b'"
proof (cases "bs_qry b")
  case (Some q)
  with assms(3) have run: "owned_query kd T BootstrapActivityID (node_key kd (bs_self b)) q"
    "bootstrap_config_validate (bs_cfg b) = None" "0 < bs_last_attempt b" by (simp_all add: bootstrap_wf_def)
  from bootstrap_query_total [OF assms(1,2) run] Some show ?thesis by (simp add: bootstrap_poll_def)
next
  case None
  from assms(3) have "bootstrap_config_validate (bs_cfg b) = None" by (simp add: bootstrap_wf_def)
  with None assms bootstrap_start_total [OF assms(1,2)] show ?thesis by (auto simp: bootstrap_poll_def Let_def)
qed

lemma bootstrap_advance_total:
  assumes "kad_node_trie kd T ok" "0 < now" "bootstrap_wf kd T b"
  shows "\<exists>out b'. bootstrap_advance kd rt T now ev b = Some (out, b') \<and> bootstrap_wf kd T b'"
proof -
  from assms(3) have cfg: "bootstrap_config_validate (bs_cfg b) = None" by (simp add: bootstrap_wf_def)
  have run: "\<exists>out b'. bootstrap_advance_query kd T now qev q b = Some (out, b') \<and> bootstrap_wf kd T b'"
    if "bs_qry b = Some q" for q qev
    by (rule bootstrap_query_total [OF assms(1,2)]) (use assms(3) that in \<open>simp_all add: bootstrap_wf_def\<close>)
  have "\<exists>out b'. bootstrap_handle kd rt T now ev b = Some (out, b') \<and> bootstrap_wf kd T b'"
    using run bootstrap_start_total [OF assms(1,2) cfg] bootstrap_poll_total [OF assms, of rt]
    by (cases ev; cases "bs_qry b") auto
  then show ?thesis by (auto simp: bootstrap_advance_def bootstrap_wf_def)
qed

lemma bootstrap_reached_wf:
  assumes "kad_node_trie kd T ok" "bootstrap_reached kd rt T b"
  shows "bootstrap_wf kd T b"
  using assms(2)
proof induction
  case (created self table seeds cfg b)
  then show ?case by (rule new_bootstrap_wf)
next
  case (advanced b now ev out b')
  from bootstrap_advance_total [OF assms(1) advanced(2) advanced.IH, of rt ev] advanced(3) show ?case by simp
qed (simp add: bootstrap_wf_def)

section \<open>The ways an advance goes\<close>

text \<open>A bootstrap is wanted, and one may be started without being asked for.\<close>

definition bootstrap_wanted ::
  "('k, 'n) kad_ops \<Rightarrow> ('k, 'n, 'rt) rt_ops \<Rightarrow> ('k, 'n, 'tr, 'rt) bootstrap_machine \<Rightarrow> bool" where
  "bootstrap_wanted kd rt b \<longleftrightarrow>
     0 < bc_minimum_population (bs_cfg b) \<and> bs_seeds b \<noteq> [] \<and> population_low kd rt b"

definition bootstrap_retry_due :: "time \<Rightarrow> ('k, 'n, 'tr, 'rt) bootstrap_machine \<Rightarrow> bool" where
  "bootstrap_retry_due now b \<longleftrightarrow>
     bs_last_attempt b = 0 \<or> bs_last_attempt b + bc_retry_interval (bs_cfg b) \<le> now"

lemma bootstrap_handle_cases:
  fixes b :: "('k, 'n, 'tr, 'rt) bootstrap_machine"
  assumes cfg: "bootstrap_config_validate (bs_cfg b) = None"
  obtains (running) q qev where "bs_qry b = Some q"
      "bootstrap_handle kd rt T now ev b = bootstrap_advance_query kd T now qev q b"
  | (start) q where "bs_qry b = None"
      "(\<exists>known. ev = EventBootstrapStart known) \<or> bootstrap_wanted kd rt b \<and> bootstrap_retry_due now b"
      "owned_query kd T BootstrapActivityID (node_key kd (bs_self b)) q"
      "bootstrap_handle kd rt T now ev b =
         bootstrap_advance_query kd T now EventQueryPoll q (b\<lparr>bs_qry := Some q, bs_last_attempt := now\<rparr>)"
  | (idle) d where "bs_qry b = None" "\<And>known. ev \<noteq> EventBootstrapStart known"
      "bootstrap_handle kd rt T now ev b = Some (StateBootstrapIdle d, b)"
      "if bootstrap_wanted kd rt b
       then \<not> bootstrap_retry_due now b \<and> d = bs_last_attempt b + bc_retry_interval (bs_cfg b)
       else d = 0"
proof (cases "bs_qry b")
  case (Some q)
  then show thesis
    by (cases ev) (auto simp: bootstrap_poll_def intro!: that(1))
next
  case None
  note start_case = that(2) [OF None]
  have started: thesis
    if handle: "bootstrap_handle kd rt T now ev b = bootstrap_start_query kd T now seeds trigger b"
      and why: "(\<exists>known. ev = EventBootstrapStart known) \<or> bootstrap_wanted kd rt b \<and> bootstrap_retry_due now b"
    for seeds trigger
  proof -
    obtain q where "owned_query kd T BootstrapActivityID (node_key kd (bs_self b)) q"
      "bootstrap_start_query kd T now seeds trigger b =
         bootstrap_advance_query kd T now EventQueryPoll q (b\<lparr>bs_qry := Some q, bs_last_attempt := now\<rparr>)"
      by (rule bootstrap_start_eq [OF cfg])
    with handle show thesis by (intro start_case [OF why]) simp_all
  qed
  show thesis
  proof (cases "\<exists>known. ev = EventBootstrapStart known")
    case True
    then obtain known where "ev = EventBootstrapStart known" ..
    with None show thesis by (intro started) simp_all
  next
    case False
    then have poll: "bootstrap_handle kd rt T now ev b = bootstrap_poll kd rt T now b"
      using None by (cases ev) auto
    show thesis
    proof (cases "bootstrap_wanted kd rt b \<and> bootstrap_retry_due now b")
      case True
      with None poll have "bootstrap_handle kd rt T now ev b = bootstrap_start_query kd T now (bs_seeds b) TriggerAutomatic b"
        by (auto simp: bootstrap_poll_def bootstrap_wanted_def bootstrap_retry_due_def time_defs Let_def)
      with True show thesis by (intro started) auto
    next
      case idle: False
      then have "bootstrap_handle kd rt T now ev b =
          Some (StateBootstrapIdle (if bootstrap_wanted kd rt b
            then bs_last_attempt b + bc_retry_interval (bs_cfg b) else 0), b)"
        using None poll
        by (auto simp: bootstrap_poll_def bootstrap_wanted_def bootstrap_retry_due_def time_defs Let_def)
      with None False idle show thesis by (intro that(3)) auto
    qed
  qed
qed

section \<open>The properties\<close>

text \<open>
  C13: the bootstrap machine never reaches one of its panics: whatever happens, an advance reports a
  state, a query it runs looks for the nodes nearest to the local node's own key under the bootstrap
  activity, and the flag the gauge reads says whether one runs.
\<close>

theorem bootstrap_never_panics:
  assumes "kad_node_trie kd T ok" "bootstrap_reached kd rt T b" "0 < now"
  shows "\<exists>out b'. bootstrap_advance kd rt T now ev b = Some (out, b') \<and>
    (bs_running b' \<longleftrightarrow> bs_qry b' \<noteq> None) \<and>
    (\<forall>q. bs_qry b' = Some q \<longrightarrow> owned_query kd T BootstrapActivityID (node_key kd (bs_self b')) q)"
proof -
  obtain out b' where adv: "bootstrap_advance kd rt T now ev b = Some (out, b')" and wf: "bootstrap_wf kd T b'"
    using bootstrap_advance_total [OF assms(1,3) bootstrap_reached_wf [OF assms(1,2)]] by blast
  from adv have "bs_running b' \<longleftrightarrow> bs_qry b' \<noteq> None" by (auto simp: bootstrap_advance_def)
  with adv wf show ?thesis by (auto simp: bootstrap_wf_def)
qed

fun bootstrap_report_ok ::
  "('k, 'n) kad_ops \<Rightarrow> ('k, 'n node_status, 'tr) trie_ops \<Rightarrow> time \<Rightarrow> ('k, 'n) bootstrap_state \<Rightarrow>
     ('k, 'n, 'tr, 'rt) bootstrap_machine \<Rightarrow> bool" where
  "bootstrap_report_ok kd T now (StateBootstrapFindCloser i k n s) b \<longleftrightarrow>
     bs_qry b \<noteq> None \<and> i = BootstrapActivityID \<and> k = node_key kd (bs_self b)"
| "bootstrap_report_ok kd T now (StateBootstrapWaiting d s) b \<longleftrightarrow>
     (\<exists>q. bs_qry b = Some q \<and> s = q_stats q \<and> now \<le> q_deadline q \<and> 0 < d \<and>
        d = min (Min (set (waiting_deadlines (closest_iter kd T) q))) (q_deadline q))"
| "bootstrap_report_ok kd T now (StateBootstrapIdle d) b \<longleftrightarrow> bs_qry b = None"
| "bootstrap_report_ok kd T now (StateBootstrapFinished s k ns) b \<longleftrightarrow>
     bs_qry b = None \<and> k = node_key kd (bs_self b)"
| "bootstrap_report_ok kd T now (StateBootstrapTimeout s) b \<longleftrightarrow> bs_qry b = None"

lemma bootstrap_query_report:
  assumes "kad_node_trie kd T ok" "0 < now" "owned_query kd T BootstrapActivityID (node_key kd (bs_self b)) q"
    "bootstrap_advance_query kd T now ev q b = Some (out, b')"
  shows "bootstrap_report_ok kd T now out b' \<and> bs_last_attempt b' = bs_last_attempt b \<and> (\<forall>d. out \<noteq> StateBootstrapIdle d)"
  using assms(1-3) by (cases rule: bootstrap_query_step [where ev = ev]) (use assms(2,4) in auto)

lemma bootstrap_report_running [simp]:
  "bootstrap_report_ok kd T now out (b\<lparr>bs_running := r\<rparr>) = bootstrap_report_ok kd T now out b"
  by (cases out) auto

text \<open>
  What the bootstrap machine reports agrees with what it runs: a query runs after an advance
  exactly when it asks for a request or waits; while it waits the query's own deadline has not
  passed, and the due time is the earlier of that deadline and the earliest deadline of a request.
\<close>

theorem bootstrap_reports_query:
  assumes "kad_node_trie kd T ok" "bootstrap_reached kd rt T b" "0 < now"
    "bootstrap_advance kd rt T now ev b = Some (out, b')"
  shows "bootstrap_report_ok kd T now out b'"
proof -
  from bootstrap_reached_wf [OF assms(1,2)] have wf: "bootstrap_wf kd T b" .
  then have cfg: "bootstrap_config_validate (bs_cfg b) = None" by (simp add: bootstrap_wf_def)
  obtain b1 where b1: "bootstrap_handle kd rt T now ev b = Some (out, b1)" "b' = b1\<lparr>bs_running := bs_qry b1 \<noteq> None\<rparr>"
    using assms(4) by (auto simp: bootstrap_advance_def)
  from cfg have "bootstrap_report_ok kd T now out b1"
  proof (cases rule: bootstrap_handle_cases [where rt = rt and T = T and now = now and ev = ev and kd = kd])
    case (running q qev)
    with wf b1 show ?thesis
      using bootstrap_query_report [OF assms(1,3), of b q] by (simp add: bootstrap_wf_def)
  next
    case (start q)
    with b1 show ?thesis
      using bootstrap_query_report [OF assms(1,3), of "b\<lparr>bs_qry := Some q, bs_last_attempt := now\<rparr>" q] by simp
  qed (use b1 in auto)
  with b1 show ?thesis by simp
qed


text \<open>
  A bootstrap the routing table needs is not missed: the machine is idle only when none is wanted,
  and then has no due time, or when the last attempt is too recent, and then it is due when the retry
  interval has passed; when neither is so, the advance has started a bootstrap.
\<close>

theorem bootstrap_idle_due:
  assumes "kad_node_trie kd T ok" "bootstrap_reached kd rt T b" "0 < now"
    "bootstrap_advance kd rt T now ev b = Some (out, b')" "bs_qry b = None"
  shows "(\<forall>d. out = StateBootstrapIdle d \<longrightarrow>
      (if bootstrap_wanted kd rt b
       then d = bs_last_attempt b + bc_retry_interval (bs_cfg b) \<and> now < d
       else d = 0)) \<and>
    (bootstrap_wanted kd rt b \<and> bootstrap_retry_due now b \<longrightarrow> bs_last_attempt b' = now)"
proof -
  from bootstrap_reached_wf [OF assms(1,2)] have cfg: "bootstrap_config_validate (bs_cfg b) = None"
    by (simp add: bootstrap_wf_def)
  obtain b1 where b1: "bootstrap_handle kd rt T now ev b = Some (out, b1)" "b' = b1\<lparr>bs_running := bs_qry b1 \<noteq> None\<rparr>"
    using assms(4) by (auto simp: bootstrap_advance_def)
  from cfg show ?thesis
  proof (cases rule: bootstrap_handle_cases [where rt = rt and T = T and now = now and ev = ev and kd = kd])
    case (start q)
    with b1 show ?thesis
      using bootstrap_query_report [OF assms(1,3), of "b\<lparr>bs_qry := Some q, bs_last_attempt := now\<rparr>" q] by simp
  next
    case (idle d)
    with b1 show ?thesis by (auto simp: bootstrap_retry_due_def split: if_splits)
  qed (use assms(5) in simp)
qed

end
