(* ===== verification/BootstrapWitnesses.thy ===== *)
theory BootstrapWitnesses
  imports BootstrapTheorems IncludeTheorems
begin

text \<open>
  The properties of the bootstrap machine on the tiny network: an empty table, one seed that is
  asked and does not answer.
\<close>

type_synonym tiny_bootstrap =
  "(tiny_key, tiny_node, (tiny_key \<times> tiny_node node_status) list, (tiny_key, tiny_node) list_table) bootstrap_machine"

definition tiny_bootstrap_config :: bootstrap_config where
  "tiny_bootstrap_config = \<lparr>bc_timeout = 100, bc_request_concurrency = 1, bc_request_timeout = 10,
     bc_minimum_population = 1, bc_retry_interval = 20, bc_tracer = True, bc_meter = True\<rparr>"

definition tiny_bootstrap_new :: tiny_bootstrap where
  "tiny_bootstrap_new = \<lparr>bs_self = new_node 0, bs_rt = tiny_table, bs_seeds = [new_node 4], bs_qry = None,
     bs_last_attempt = 0, bs_cfg = tiny_bootstrap_config, bs_running = False\<rparr>"

abbreviation tiny_bootstrap_advance ::
  "time \<Rightarrow> tiny_node bootstrap_event \<Rightarrow> tiny_bootstrap \<Rightarrow> ((tiny_key, tiny_node) bootstrap_state \<times> tiny_bootstrap) option" where
  "tiny_bootstrap_advance \<equiv> bootstrap_advance tiny_kad tiny_rt tiny_trie"

definition tiny_bootstrap_asking :: tiny_bootstrap where
  "tiny_bootstrap_asking = snd (the (tiny_bootstrap_advance 1 EventBootstrapPoll tiny_bootstrap_new))"

definition tiny_bootstrap_ended :: tiny_bootstrap where
  "tiny_bootstrap_ended = snd (the (tiny_bootstrap_advance 12 EventBootstrapPoll tiny_bootstrap_asking))"

lemma tiny_bootstrap_new_reached: "bootstrap_reached tiny_kad tiny_rt tiny_trie tiny_bootstrap_new"
proof (rule bootstrap_reached.created)
  show "new_bootstrap (new_node 0) tiny_table [new_node 4] (Some tiny_bootstrap_config) = Inr tiny_bootstrap_new"
    by (simp add: new_bootstrap_def bootstrap_config_validate_def tiny_bootstrap_config_def tiny_bootstrap_new_def time_defs)
qed

lemma tiny_bootstrap_step:
  assumes "bootstrap_reached tiny_kad tiny_rt tiny_trie b" "0 < now"
  shows "\<exists>out. tiny_bootstrap_advance now ev b = Some (out, snd (the (tiny_bootstrap_advance now ev b))) \<and>
    bootstrap_reached tiny_kad tiny_rt tiny_trie (snd (the (tiny_bootstrap_advance now ev b)))"
  using bootstrap_advance_total [OF tiny_trie_spec assms(2) bootstrap_reached_wf [OF tiny_trie_spec assms(1)], of tiny_rt ev]
    bootstrap_reached.advanced [OF assms] by auto

lemma tiny_bootstrap_asks:
  "tiny_bootstrap_advance 1 EventBootstrapPoll tiny_bootstrap_new =
     Some (StateBootstrapFindCloser ''bootstrap'' 0 (new_node 4)
       \<lparr>qs_start = 1, qs_end = 0, qs_requests = 1, qs_success = 0, qs_failure = 0\<rparr>, tiny_bootstrap_asking)"
proof -
  have "map_option fst (tiny_bootstrap_advance 1 EventBootstrapPoll tiny_bootstrap_new) =
     Some (StateBootstrapFindCloser ''bootstrap'' 0 (new_node 4)
       \<lparr>qs_start = 1, qs_end = 0, qs_requests = 1, qs_success = 0, qs_failure = 0\<rparr>)"
    by code_simp
  then show ?thesis by (auto simp: tiny_bootstrap_asking_def)
qed

lemma tiny_bootstrap_asking_reached: "bootstrap_reached tiny_kad tiny_rt tiny_trie tiny_bootstrap_asking"
  by (rule bootstrap_reached.advanced [OF tiny_bootstrap_new_reached _ tiny_bootstrap_asks]) simp

lemma tiny_bootstrap_ends:
  "\<exists>s. tiny_bootstrap_advance 12 EventBootstrapPoll tiny_bootstrap_asking =
     Some (StateBootstrapFinished s 0 [], tiny_bootstrap_ended)"
proof -
  have "map_option fst (tiny_bootstrap_advance 12 EventBootstrapPoll tiny_bootstrap_asking) =
     Some (StateBootstrapFinished \<lparr>qs_start = 1, qs_end = 12, qs_requests = 1, qs_success = 0, qs_failure = 1\<rparr> 0 [])"
    by code_simp
  then show ?thesis by (auto simp: tiny_bootstrap_ended_def)
qed

lemma tiny_bootstrap_ended_reached: "bootstrap_reached tiny_kad tiny_rt tiny_trie tiny_bootstrap_ended"
proof -
  obtain s where "tiny_bootstrap_advance 12 EventBootstrapPoll tiny_bootstrap_asking =
     Some (StateBootstrapFinished s 0 [], tiny_bootstrap_ended)" using tiny_bootstrap_ends by blast
  then show ?thesis by (rule bootstrap_reached.advanced [OF tiny_bootstrap_asking_reached, rotated]) simp
qed

theorem bootstrap_never_panics_witness:
  "\<exists>out b'. tiny_bootstrap_advance 12 EventBootstrapPoll tiny_bootstrap_asking = Some (out, b')"
  using bootstrap_never_panics [OF tiny_trie_spec tiny_bootstrap_asking_reached, of 12 EventBootstrapPoll] by auto

theorem bootstrap_reports_query_witness: "bs_qry tiny_bootstrap_asking \<noteq> None"
  using bootstrap_reports_query [OF tiny_trie_spec tiny_bootstrap_new_reached _ tiny_bootstrap_asks] by simp


theorem bootstrap_idle_due_witness:
  "\<exists>b'. tiny_bootstrap_advance 13 EventBootstrapPoll tiny_bootstrap_ended = Some (StateBootstrapIdle 21, b') \<and>
     (1 :: time) + bc_retry_interval tiny_bootstrap_config = 21"
proof -
  have out: "map_option fst (tiny_bootstrap_advance 13 EventBootstrapPoll tiny_bootstrap_ended) = Some (StateBootstrapIdle 21)"
    by code_simp
  have last: "bs_last_attempt tiny_bootstrap_ended = 1" by code_simp
  have rest: "bs_qry tiny_bootstrap_ended = None" "bs_cfg tiny_bootstrap_ended = tiny_bootstrap_config"
    by code_simp+
  from out obtain b' where adv: "tiny_bootstrap_advance 13 EventBootstrapPoll tiny_bootstrap_ended = Some (StateBootstrapIdle 21, b')"
    by auto
  from bootstrap_idle_due [OF tiny_trie_spec tiny_bootstrap_ended_reached _ adv] last rest adv show ?thesis
    by (simp split: if_splits)
qed

end
