(* ===== verification/ExploreSchedule.thy ===== *)
theory ExploreSchedule
  imports GoHeap Coordt Complex_Main
begin

text \<open>
  The schedules of \<open>routing/explore.go\<close>: the interface \<open>ExploreSchedule\<close>, the dynamic schedule,
  a heap of the prefix lengths ordered by due time, and the schedule that never waits.
\<close>

section \<open>The interface\<close>

text \<open>\<open>sc_next_cpl\<close> is \<open>NextCpl\<close>, which also updates the schedule, \<open>sc_next_due\<close> is \<open>NextDue\<close>.\<close>

record 'sc schedule_ops =
  sc_next_cpl :: "time \<Rightarrow> 'sc \<Rightarrow> (int \<times> bool) \<times> 'sc"
  sc_next_due :: "'sc \<Rightarrow> time"

text \<open>
  The documented behaviour: a length that is returned was due, no other length's due time changes and
  its own does not move back; when none is due the answer is \<open>-1, false\<close> and nothing changes, and
  \<open>NextDue\<close> is then the earliest due time.
\<close>

locale explore_schedule =
  fixes ops :: "'sc schedule_ops"
    and due :: "'sc \<Rightarrow> int \<rightharpoonup> time"
    and ok :: "'sc \<Rightarrow> bool"
  assumes next_ok: "ok s \<Longrightarrow> ok (snd (sc_next_cpl ops ts s))"
    and next_due: "ok s \<Longrightarrow> 0 \<le> ts \<Longrightarrow> sc_next_cpl ops ts s = ((c, True), s') \<Longrightarrow>
      (\<exists>d d'. due s c = Some d \<and> d \<le> ts \<and> d \<le> d' \<and> due s' = (due s)(c \<mapsto> d'))"
    and none_due: "ok s \<Longrightarrow> sc_next_cpl ops ts s = ((c, False), s') \<Longrightarrow>
      c = -1 \<and> s' = s \<and> ts < sc_next_due ops s \<and> (\<forall>c d. due s c = Some d \<longrightarrow> sc_next_due ops s \<le> d)"
begin

text \<open>No length enters or leaves the schedule.\<close>

lemma scheduled_stay:
  assumes "ok s" "0 \<le> ts"
  shows "dom (due (snd (sc_next_cpl ops ts s))) = dom (due s)"
proof -
  obtain c b s' where out: "sc_next_cpl ops ts s = ((c, b), s')" by (metis surj_pair)
  show ?thesis
  proof (cases b)
    case True
    with next_due [OF assms, of c s'] out obtain d d' where "due s c = Some d" "due s' = (due s)(c \<mapsto> d')" by auto
    with out show ?thesis by auto
  next
    case False
    with none_due [OF assms(1), of ts c s'] out show ?thesis by simp
  qed
qed

end

section \<open>The heap of lengths\<close>

record explore_entry =
  ee_cpl :: int
  ee_due :: time

definition explore_before :: "explore_entry \<Rightarrow> explore_entry \<Rightarrow> bool" where
  "explore_before e f \<longleftrightarrow>
     (if ee_due e = ee_due f then ee_cpl e < ee_cpl f else time_before (ee_due e) (ee_due f))"

definition explore_list :: "(explore_entry, explore_entry list) heap_interface" where
  "explore_list =
     \<lparr>h_len = length, h_less = (\<lambda>l i j. explore_before (l ! i) (l ! j)), h_swap = swap_list,
      h_push = (\<lambda>e l. l @ [e]), h_pop = (\<lambda>l. (last l, butlast l))\<rparr>"

section \<open>The dynamic schedule\<close>

text \<open>
  A \<open>float64\<close> is a rational number and an operation on two of them is the exact result rounded:
  \<open>rnd\<close> is that rounding, also of a constant of the source. The samples \<open>rand.Float64\<close> gives are \<open>dx_samples\<close>, of which
  \<open>dx_drawn\<close> have been used. The conversion of a \<open>float64\<close> to an integer drops the fraction.
\<close>

record dynamic_schedule =
  dx_max_cpl :: int
  dx_interval :: duration
  dx_multiplier :: rat
  dx_jitter :: rat
  dx_cpls :: "explore_entry list"
  dx_samples :: "nat \<Rightarrow> rat"
  dx_drawn :: nat

definition float_to_int :: "rat \<Rightarrow> int" where
  "float_to_int x = (if x < 0 then - \<lfloor>- x\<rfloor> else \<lfloor>x\<rfloor>)"

text \<open>The entries the constructor appends, highest length first.\<close>

fun first_round :: "int \<Rightarrow> time \<Rightarrow> duration \<Rightarrow> nat \<Rightarrow> explore_entry list" where
  "first_round max_cpl start step n =
     map (\<lambda>i. \<lparr>ee_cpl = max_cpl - int i, ee_due = time_add start (step * (int i + 1))\<rparr>) [0..<n]"

definition new_dynamic_schedule ::
  "(rat \<Rightarrow> rat) \<Rightarrow> int \<Rightarrow> time \<Rightarrow> duration \<Rightarrow> rat \<Rightarrow> rat \<Rightarrow> (nat \<Rightarrow> rat) \<Rightarrow> dynamic_schedule go_result" where
  "new_dynamic_schedule rnd max_cpl start interval multiplier jitter samples =
     (if max_cpl < 1 then Inl (ErrorText ''maximum cpl must be greater than zero'')
      else if interval < 1 then Inl (ErrorText ''interval must be greater than zero'')
      else if multiplier < 1 then Inl (ErrorText ''interval multiplier must be greater than or equal to one'')
      else if jitter < 0 then Inl (ErrorText ''interval jitter must not be negative'')
      else if rnd (5 / 100) < jitter then Inl (ErrorText ''interval jitter must not be greater than 0.05'')
      else Inr \<lparr>dx_max_cpl = max_cpl, dx_interval = interval, dx_multiplier = multiplier, dx_jitter = jitter,
        dx_cpls = heap_init explore_list
          (first_round max_cpl start (interval div (max_cpl + 1)) (nat (max_cpl + 1))),
        dx_samples = samples, dx_drawn = 0\<rparr>)"

definition dynamic_next_due :: "dynamic_schedule \<Rightarrow> time" where
  "dynamic_next_due s = (if dx_cpls s = [] then zero_time else ee_due (dx_cpls s ! 0))"

definition cpl_interval :: "(rat \<Rightarrow> rat) \<Rightarrow> dynamic_schedule \<Rightarrow> int \<Rightarrow> duration" where
  "cpl_interval rnd s cpl =
     (let base = rnd (of_int (dx_interval s));
          scaled = rnd (base + rnd (rnd (base * rnd (of_int (dx_max_cpl s - cpl))) * dx_multiplier s));
          jittered = rnd (scaled + rnd (rnd (base * dx_jitter s) * dx_samples s (dx_drawn s)))
      in float_to_int jittered)"

definition dynamic_next_cpl ::
  "(rat \<Rightarrow> rat) \<Rightarrow> time \<Rightarrow> dynamic_schedule \<Rightarrow> (int \<times> bool) \<times> dynamic_schedule" where
  "dynamic_next_cpl rnd ts s =
     (let e = dx_cpls s ! 0 in
      if time_after (ee_due e) ts then ((-1, False), s)
      else (let e' = e\<lparr>ee_due := time_add ts (cpl_interval rnd s (ee_cpl e))\<rparr>
            in ((ee_cpl e, True),
                s\<lparr>dx_cpls := heap_fix explore_list 0 ((dx_cpls s)[0 := e']), dx_drawn := dx_drawn s + 1\<rparr>)))"

definition dynamic_ops :: "(rat \<Rightarrow> rat) \<Rightarrow> dynamic_schedule schedule_ops" where
  "dynamic_ops rnd = \<lparr>sc_next_cpl = dynamic_next_cpl rnd, sc_next_due = dynamic_next_due\<rparr>"

section \<open>The schedule that never waits\<close>

record no_wait_schedule =
  nw_max_cpl :: int
  nw_next_cpl :: int

definition new_no_wait_schedule :: "int \<Rightarrow> no_wait_schedule" where
  "new_no_wait_schedule max_cpl = \<lparr>nw_max_cpl = max_cpl, nw_next_cpl = max_cpl\<rparr>"

definition no_wait_next_due :: "no_wait_schedule \<Rightarrow> time" where
  "no_wait_next_due s = zero_time"

definition no_wait_next_cpl :: "time \<Rightarrow> no_wait_schedule \<Rightarrow> (int \<times> bool) \<times> no_wait_schedule" where
  "no_wait_next_cpl ts s =
     (let c = nw_next_cpl s - 1
      in ((nw_next_cpl s, True), s\<lparr>nw_next_cpl := (if c < 0 then nw_max_cpl s else c)\<rparr>))"

definition no_wait_ops :: "no_wait_schedule schedule_ops" where
  "no_wait_ops = \<lparr>sc_next_cpl = no_wait_next_cpl, sc_next_due = no_wait_next_due\<rparr>"

end
