(* ===== verification/Explore.thy ===== *)
theory Explore
  imports ExploreSchedule RoutingTable Query Bootstrap
begin

text \<open>
  \<open>routing/explore.go\<close>: the machine that looks up a random key at each distance in turn. The
  schedule is a value the machine holds, with its operations a parameter. The function that
  synthesizes a node is random: it takes and returns a generator, \<open>ex_gen\<close>, which the code keeps
  inside the closure. The places where the code panics give \<open>None\<close>.
\<close>

section \<open>Configuration, states and events\<close>

definition ExploreActivityID :: activity_id where
  "ExploreActivityID = ''explore''"

type_synonym ('k, 'n, 'g) cpl_fn = "'k \<Rightarrow> int \<Rightarrow> 'g \<Rightarrow> 'n go_result \<times> 'g"

record explore_config =
  xc_tracer :: bool
  xc_meter :: bool
  xc_timeout :: duration
  xc_request_concurrency :: int
  xc_request_timeout :: duration

definition explore_config_validate :: "explore_config \<Rightarrow> go_error option" where
  "explore_config_validate cfg = first_error ''ExploreConfig''
     [(\<not> xc_tracer cfg, ''tracer must not be nil''),
      (\<not> xc_meter cfg, ''meter must not be nil''),
      (xc_timeout cfg < 1, ''timeout must be greater than zero''),
      (xc_request_concurrency cfg < 1, ''request concurrency must be greater than zero''),
      (xc_request_timeout cfg < 1, ''request timeout must be greater than zero'')]"

definition default_explore_config :: explore_config where
  "default_explore_config =
     \<lparr>xc_tracer = True, xc_meter = True, xc_timeout = 10 * minute, xc_request_concurrency = 3,
      xc_request_timeout = minute\<rparr>"

datatype ('k, 'n) explore_state =
    StateExploreIdle time
  | StateExploreFindCloser int activity_id 'k 'n query_stats
  | StateExploreWaiting time int query_stats
  | StateExploreQueryFinished int query_stats 'k "'n list"
  | StateExploreQueryTimeout int query_stats
  | StateExploreFailure int go_error

datatype 'n explore_event =
    EventExplorePoll
  | EventExploreFindCloserResponse 'n "'n list"
  | EventExploreFindCloserFailure 'n go_error

section \<open>The machine\<close>

record ('k, 'n, 'tr, 'rt, 'sc, 'g) explore_machine =
  ex_self :: 'n
  ex_rt :: 'rt
  ex_gen :: 'g
  ex_qry :: "('k, 'n, 'tr) find_query option"
  ex_qry_cpl :: int
  ex_cfg :: explore_config
  ex_schedule :: 'sc
  ex_running :: bool

definition new_explore ::
  "'n \<Rightarrow> 'rt \<Rightarrow> 'g \<Rightarrow> 'sc \<Rightarrow> explore_config option \<Rightarrow> ('k, 'n, 'tr, 'rt, 'sc, 'g) explore_machine go_result" where
  "new_explore self rt gen schedule cfg_opt =
     (case (case cfg_opt of None \<Rightarrow> None | Some cfg \<Rightarrow> explore_config_validate cfg) of
        Some e \<Rightarrow> Inl e
      | None \<Rightarrow> Inr \<lparr>ex_self = self, ex_rt = rt, ex_gen = gen, ex_qry = None, ex_qry_cpl = -1,
          ex_cfg = (case cfg_opt of None \<Rightarrow> default_explore_config | Some cfg \<Rightarrow> cfg),
          ex_schedule = schedule, ex_running = False\<rparr>)"

definition clear_query ::
  "('k, 'n, 'tr, 'rt, 'sc, 'g) explore_machine \<Rightarrow> ('k, 'n, 'tr, 'rt, 'sc, 'g) explore_machine" where
  "clear_query e = e\<lparr>ex_qry := None, ex_qry_cpl := -1\<rparr>"

text \<open>
  \<open>advanceQuery\<close>. The states it builds read \<open>qryCpl\<close> after \<open>clearQuery\<close> has run.
\<close>

definition explore_waiting ::
  "time \<Rightarrow> query_stats \<Rightarrow> time \<Rightarrow> time \<Rightarrow> ('k, 'n, 'tr, 'rt, 'sc, 'g) explore_machine \<Rightarrow>
     ('k, 'n) explore_state \<times> ('k, 'n, 'tr, 'rt, 'sc, 'g) explore_machine" where
  "explore_waiting now stats deadline due e =
     (if time_after now deadline
      then (let e' = clear_query e in (StateExploreQueryTimeout (ex_qry_cpl e') stats, e'))
      else (StateExploreWaiting (earlier due deadline) (ex_qry_cpl e) stats, e))"

definition explore_advance_query ::
  "('k, 'n) kad_ops \<Rightarrow> ('k, 'n node_status, 'tr) trie_ops \<Rightarrow> time \<Rightarrow> 'n query_event \<Rightarrow> ('k, 'n, 'tr) find_query \<Rightarrow>
     ('k, 'n, 'tr, 'rt, 'sc, 'g) explore_machine \<Rightarrow>
     (('k, 'n) explore_state \<times> ('k, 'n, 'tr, 'rt, 'sc, 'g) explore_machine) option" where
  "explore_advance_query kd T now qev q e =
     (let (st, q') = query_advance kd (closest_iter kd T) now qev q;
          e' = e\<lparr>ex_qry := Some q'\<rparr>
      in case st of
           StateQueryFindCloser i target n stats \<Rightarrow>
             Some (StateExploreFindCloser (ex_qry_cpl e') i target n stats, e')
         | StateQueryFinished i stats target closest \<Rightarrow>
             (let e'' = clear_query e'
              in Some (StateExploreQueryFinished (ex_qry_cpl e'') stats target closest, e''))
         | StateQueryWaitingAtCapacity i stats deadline due \<Rightarrow> Some (explore_waiting now stats deadline due e')
         | StateQueryWaitingWithCapacity i stats deadline due \<Rightarrow> Some (explore_waiting now stats deadline due e')
         | StateQuerySendMessage i n msg stats \<Rightarrow> None)"

definition explore_query_config :: "explore_config \<Rightarrow> query_config" where
  "explore_query_config cfg =
     default_query_config\<lparr>qc_concurrency := xc_request_concurrency cfg,
       qc_request_timeout := xc_request_timeout cfg, qc_timeout := xc_timeout cfg\<rparr>"

text \<open>\<open>fmt.Errorf\<close> with a \<open>%d\<close> of the length and the wrapped error.\<close>

definition signed_decimal :: "int \<Rightarrow> string" where
  "signed_decimal i = (if i < 0 then ''-'' @ decimal (nat (- i)) else decimal (nat i))"

definition explore_error :: "string \<Rightarrow> int \<Rightarrow> go_error \<Rightarrow> go_error" where
  "explore_error what cpl err = ErrorText (what @ signed_decimal cpl @ '': '' @ error_string err)"

text \<open>Starting a query for a prefix length that is due.\<close>

definition explore_start ::
  "('k, 'n) kad_ops \<Rightarrow> ('k, 'n, 'rt) rt_ops \<Rightarrow> ('k, 'n node_status, 'tr) trie_ops \<Rightarrow> ('k, 'n, 'g) cpl_fn \<Rightarrow>
     time \<Rightarrow> int \<Rightarrow> ('k, 'n, 'tr, 'rt, 'sc, 'g) explore_machine \<Rightarrow>
     (('k, 'n) explore_state \<times> ('k, 'n, 'tr, 'rt, 'sc, 'g) explore_machine) option" where
  "explore_start kd rt T cpl_fn now cpl e =
     (case cpl_fn (node_key kd (ex_self e)) cpl (ex_gen e) of
        (Inl err, g) \<Rightarrow>
          Some (StateExploreFailure cpl (explore_error ''synthesize random node for cpl '' cpl err), e\<lparr>ex_gen := g\<rparr>)
      | (Inr node, g) \<Rightarrow>
          (let target = node_key kd node;
               e1 = e\<lparr>ex_gen := g\<rparr>;
               seeds = rt_nearest_nodes rt (ex_rt e1) target 20
           in case new_find_closer_query kd (closest_iter kd T) (ex_self e1) ExploreActivityID target
                     (new_closest_nodes_iter T target) seeds (Some (explore_query_config (ex_cfg e1))) of
                Inl err \<Rightarrow> Some (StateExploreFailure cpl (explore_error ''start explore query for cpl '' cpl err), e1)
              | Inr q \<Rightarrow>
                  explore_advance_query kd T now EventQueryPoll q (e1\<lparr>ex_qry := Some q, ex_qry_cpl := cpl\<rparr>)))"

definition explore_poll ::
  "('k, 'n) kad_ops \<Rightarrow> ('k, 'n, 'rt) rt_ops \<Rightarrow> ('k, 'n node_status, 'tr) trie_ops \<Rightarrow> ('k, 'n, 'g) cpl_fn \<Rightarrow>
     'sc schedule_ops \<Rightarrow> time \<Rightarrow> ('k, 'n, 'tr, 'rt, 'sc, 'g) explore_machine \<Rightarrow>
     (('k, 'n) explore_state \<times> ('k, 'n, 'tr, 'rt, 'sc, 'g) explore_machine) option" where
  "explore_poll kd rt T cpl_fn sched now e =
     (case ex_qry e of
        Some q \<Rightarrow> explore_advance_query kd T now EventQueryPoll q e
      | None \<Rightarrow>
          (case sc_next_cpl sched now (ex_schedule e) of
             ((cpl, due), s) \<Rightarrow>
               (let e1 = e\<lparr>ex_schedule := s\<rparr>
                in if \<not> due then Some (StateExploreIdle (sc_next_due sched (ex_schedule e1)), e1)
                   else explore_start kd rt T cpl_fn now cpl e1)))"

fun explore_handle ::
  "('k, 'n) kad_ops \<Rightarrow> ('k, 'n, 'rt) rt_ops \<Rightarrow> ('k, 'n node_status, 'tr) trie_ops \<Rightarrow> ('k, 'n, 'g) cpl_fn \<Rightarrow>
     'sc schedule_ops \<Rightarrow> time \<Rightarrow> 'n explore_event \<Rightarrow> ('k, 'n, 'tr, 'rt, 'sc, 'g) explore_machine \<Rightarrow>
     (('k, 'n) explore_state \<times> ('k, 'n, 'tr, 'rt, 'sc, 'g) explore_machine) option" where
  "explore_handle kd rt T cpl_fn sched now EventExplorePoll e = explore_poll kd rt T cpl_fn sched now e"
| "explore_handle kd rt T cpl_fn sched now (EventExploreFindCloserResponse n closer) e =
     (case ex_qry e of
        Some q \<Rightarrow> explore_advance_query kd T now (EventQueryNodeResponse n closer) q e
      | None \<Rightarrow> explore_poll kd rt T cpl_fn sched now e)"
| "explore_handle kd rt T cpl_fn sched now (EventExploreFindCloserFailure n err) e =
     (case ex_qry e of
        Some q \<Rightarrow> explore_advance_query kd T now (EventQueryNodeFailure n err) q e
      | None \<Rightarrow> explore_poll kd rt T cpl_fn sched now e)"

definition explore_advance ::
  "('k, 'n) kad_ops \<Rightarrow> ('k, 'n, 'rt) rt_ops \<Rightarrow> ('k, 'n node_status, 'tr) trie_ops \<Rightarrow> ('k, 'n, 'g) cpl_fn \<Rightarrow>
     'sc schedule_ops \<Rightarrow> time \<Rightarrow> 'n explore_event \<Rightarrow> ('k, 'n, 'tr, 'rt, 'sc, 'g) explore_machine \<Rightarrow>
     (('k, 'n) explore_state \<times> ('k, 'n, 'tr, 'rt, 'sc, 'g) explore_machine) option" where
  "explore_advance kd rt T cpl_fn sched now ev e =
     map_option (\<lambda>(out, e'). (out, e'\<lparr>ex_running := ex_qry e' \<noteq> None\<rparr>))
       (explore_handle kd rt T cpl_fn sched now ev e)"

end
