(* ===== verification/ExploreScheduleTheorems.thy ===== *)
theory ExploreScheduleTheorems
  imports ExploreSchedule
begin

text \<open>
  The dynamic schedule keeps every prefix length in its heap, gives out the one due longest, and
  explores each once before it explores any twice.
\<close>

section \<open>The heap\<close>

interpretation explore: strict_weak_order explore_before
  by unfold_locales (auto simp: explore_before_def time_defs split: if_splits)

lemma explore_list_eq: "explore_list = list_heap explore_before"
  by (simp add: explore_list_def list_heap_def)

section \<open>Rounding\<close>

text \<open>What IEEE 754 says of every rounding: it is monotone and exact on the integers up to \<open>2^53\<close>.\<close>

locale float_rounding =
  fixes rnd :: "rat \<Rightarrow> rat"
  assumes rnd_mono: "x \<le> y \<Longrightarrow> rnd x \<le> rnd y"
    and rnd_int: "\<bar>i\<bar> \<le> 2 ^ 53 \<Longrightarrow> rnd (of_int i) = of_int i"
begin

lemma rnd_zero: "rnd 0 = 0"
  using rnd_int [of 0] by simp

lemma rnd_nonneg: "0 \<le> x \<Longrightarrow> 0 \<le> rnd x"
  using rnd_mono [of 0 x] by (simp add: rnd_zero)

text \<open>Adding something to a number no less than an exact integer does not fall below the integer.\<close>

lemma rnd_add_ge: "\<bar>i\<bar> \<le> 2 ^ 53 \<Longrightarrow> of_int i \<le> x \<Longrightarrow> 0 \<le> y \<Longrightarrow> of_int i \<le> rnd (x + y)"
  using rnd_mono [of "of_int i" "x + y"] rnd_int [of i] by simp

end

interpretation exact: float_rounding "\<lambda>x. x"
  by unfold_locales simp_all

lemma float_to_int_ge:
  assumes "0 \<le> i" "of_int i \<le> x"
  shows "i \<le> float_to_int x"
proof -
  from assms(1) have "(0 :: rat) \<le> of_int i" by simp
  with assms(2) have "0 \<le> x" by (rule order_trans [rotated])
  with assms(2) show ?thesis by (simp add: float_to_int_def le_floor_iff)
qed

lemma float_to_int_of_int: "float_to_int (of_int i) = i"
  unfolding float_to_int_def of_int_minus [symmetric] floor_of_int by simp

section \<open>The invariant\<close>

definition schedule_cpls :: "dynamic_schedule \<Rightarrow> int list" where
  "schedule_cpls s = map ee_cpl (dx_cpls s)"

definition dynamic_ok :: "dynamic_schedule \<Rightarrow> bool" where
  "dynamic_ok s \<longleftrightarrow>
     is_heap explore_before (dx_cpls s) \<and> mset (schedule_cpls s) = mset [0..dx_max_cpl s] \<and>
     1 \<le> dx_max_cpl s \<and> 1 \<le> dx_interval s \<and> dx_interval s \<le> 2 ^ 53 \<and> dx_max_cpl s \<le> 2 ^ 53 \<and>
     0 \<le> dx_multiplier s \<and> 0 \<le> dx_jitter s \<and> (\<forall>i. 0 \<le> dx_samples s i)"

definition dynamic_due :: "dynamic_schedule \<Rightarrow> int \<rightharpoonup> time" where
  "dynamic_due s = map_of (map (\<lambda>e. (ee_cpl e, ee_due e)) (dx_cpls s))"

lemma dynamic_ok_distinct:
  assumes "dynamic_ok s"
  shows "distinct (map ee_cpl (dx_cpls s))" "dx_cpls s \<noteq> []"
proof -
  have m: "mset (map ee_cpl (dx_cpls s)) = mset [0..dx_max_cpl s]" "1 \<le> dx_max_cpl s"
    using assms by (simp_all add: dynamic_ok_def schedule_cpls_def)
  show "distinct (map ee_cpl (dx_cpls s))" using mset_eq_imp_distinct_iff [OF m(1)] by simp
  show "dx_cpls s \<noteq> []"
  proof
    assume "dx_cpls s = []"
    with m show False by simp
  qed
qed

lemma explore_entry_eq: "e = \<lparr>ee_cpl = c, ee_due = d\<rparr> \<longleftrightarrow> ee_cpl e = c \<and> ee_due e = d"
  by (cases e) simp

lemma dynamic_due_iff:
  assumes "distinct (map ee_cpl (dx_cpls s))"
  shows "dynamic_due s c = Some d \<longleftrightarrow> \<lparr>ee_cpl = c, ee_due = d\<rparr> \<in> set (dx_cpls s)"
proof -
  have "distinct (map fst (map (\<lambda>e. (ee_cpl e, ee_due e)) (dx_cpls s)))" using assms by (simp add: comp_def)
  then have "dynamic_due s c = Some d \<longleftrightarrow> (c, d) \<in> set (map (\<lambda>e. (ee_cpl e, ee_due e)) (dx_cpls s))"
    by (simp add: dynamic_due_def)
  also have "\<dots> \<longleftrightarrow> (\<exists>e \<in> set (dx_cpls s). e = \<lparr>ee_cpl = c, ee_due = d\<rparr>)"
    by (auto simp: explore_entry_eq)
  also have "\<dots> \<longleftrightarrow> \<lparr>ee_cpl = c, ee_due = d\<rparr> \<in> set (dx_cpls s)" by simp
  finally show ?thesis .
qed

text \<open>What \<open>NextCpl\<close> does to the schedule when a length is due.\<close>

lemma dynamic_next_cases:
  assumes ok: "dynamic_ok s" and nxt: "dynamic_next_cpl rnd ts s = ((c, b), s')"
  obtains (due) d where "b" "dynamic_due s c = Some d" "d \<le> ts"
      "\<And>c' d'. dynamic_due s c' = Some d' \<Longrightarrow> d < d' \<or> d = d' \<and> c \<le> c'"
      "dynamic_due s' = (dynamic_due s)(c \<mapsto> ts + cpl_interval rnd s c)"
      "s' = s\<lparr>dx_cpls := dx_cpls s', dx_drawn := dx_drawn s + 1\<rparr>"
      "is_heap explore_before (dx_cpls s')" "mset (schedule_cpls s') = mset (schedule_cpls s)"
  | (none) "\<not> b" "c = -1" "s' = s" "ts < dynamic_next_due s"
      "\<And>c' d'. dynamic_due s c' = Some d' \<Longrightarrow> dynamic_next_due s \<le> d'"
proof -
  let ?l = "dx_cpls s" and ?e = "dx_cpls s ! 0"
  note dist = dynamic_ok_distinct [OF ok]
  have heap: "is_heap explore_before ?l" using ok by (simp add: dynamic_ok_def)
  have least: "ee_due ?e < d' \<or> ee_due ?e = d' \<and> ee_cpl ?e \<le> c'" if "dynamic_due s c' = Some d'" for c' d'
  proof -
    from that have "\<lparr>ee_cpl = c', ee_due = d'\<rparr> \<in> set ?l" by (simp only: dynamic_due_iff [OF dist(1)])
    from explore.heap_least [OF heap this] show ?thesis
      by (simp add: explore_before_def time_defs split: if_splits)
  qed
  have e: "dynamic_due s (ee_cpl ?e) = Some (ee_due ?e)"
  proof -
    have "\<lparr>ee_cpl = ee_cpl ?e, ee_due = ee_due ?e\<rparr> = ?e" by (cases ?e) simp
    moreover have "?e \<in> set ?l" using dist(2) by simp
    ultimately show ?thesis by (simp only: dynamic_due_iff [OF dist(1)])
  qed
  show thesis
  proof (cases "ts < ee_due ?e")
    case True
    with nxt have "\<not> b" "c = -1" "s' = s" by (simp_all add: dynamic_next_cpl_def time_defs)
    moreover have head: "dynamic_next_due s = ee_due ?e" using dist(2) by (simp add: dynamic_next_due_def)
    moreover have "dynamic_next_due s \<le> d'" if "dynamic_due s c' = Some d'" for c' d'
      using least [OF that] head by auto
    ultimately show thesis using True by (intro none) simp_all
  next
    case False
    define e' where "e' = ?e\<lparr>ee_due := ts + cpl_interval rnd s (ee_cpl ?e)\<rparr>"
    from False nxt have cb: "b" "c = ee_cpl ?e"
      and s': "s' = s\<lparr>dx_cpls := heap_fix (list_heap explore_before) 0 (?l[0 := e']), dx_drawn := dx_drawn s + 1\<rparr>"
      by (auto simp: dynamic_next_cpl_def time_defs e'_def Let_def explore_list_eq)
    have "heap_but explore_before 0 (length (?l[0 := e'])) (?l[0 := e'])"
      using explore.heap_update_but [OF heap, of 0 e'] dist(2) by simp
    with explore.heap_fix_list [of 0 "?l[0 := e']"] dist(2)
    have fixed: "is_heap explore_before (dx_cpls s')" "mset (dx_cpls s') = mset (?l[0 := e'])"
      by (simp_all add: s')
    have "map ee_cpl (?l[0 := e']) = map ee_cpl ?l"
      by (cases ?l) (simp_all add: e'_def)
    with fixed(2) have cpls: "mset (schedule_cpls s') = mset (schedule_cpls s)"
      unfolding schedule_cpls_def by (metis mset_map)
    have dist': "distinct (map ee_cpl (dx_cpls s'))"
      using mset_eq_imp_distinct_iff [OF cpls] dist(1) by (simp add: schedule_cpls_def)
    have "dynamic_due s' = (dynamic_due s)(c \<mapsto> ts + cpl_interval rnd s c)"
    proof
      fix c'
      have set': "set (dx_cpls s') = insert e' (set ?l - {?e})"
        using mset_eq_setD [OF fixed(2)] dist by (cases ?l) (auto simp: e'_def)
      have same: "f = ?e" if "f \<in> set ?l" "ee_cpl f = c" for f
        using dist(1) dist(2) that cb(2) by (auto simp: distinct_map inj_on_def)
      have "dynamic_due s' c' = Some d' \<longleftrightarrow> ((dynamic_due s)(c \<mapsto> ts + cpl_interval rnd s c)) c' = Some d'" for d'
      proof (cases "c' = c")
        case True
        have "\<lparr>ee_cpl = c, ee_due = d'\<rparr> \<in> insert e' (set ?l - {?e}) \<longleftrightarrow> e' = \<lparr>ee_cpl = c, ee_due = d'\<rparr>"
          using same [of "\<lparr>ee_cpl = c, ee_due = d'\<rparr>"] by auto
        with True cb(2) show ?thesis
          by (simp add: dynamic_due_iff [OF dist'] set' explore_entry_eq) (simp add: e'_def)
      next
        case False
        then have "e' \<noteq> \<lparr>ee_cpl = c', ee_due = d'\<rparr>" "?e \<noteq> \<lparr>ee_cpl = c', ee_due = d'\<rparr>"
          using cb(2) by (simp_all add: explore_entry_eq) (simp add: e'_def)
        note this [symmetric]
        with False show ?thesis by (simp add: dynamic_due_iff [OF dist'] dynamic_due_iff [OF dist(1)] set')
      qed
      then show "dynamic_due s' c' = ((dynamic_due s)(c \<mapsto> ts + cpl_interval rnd s c)) c'"
        by (metis option.exhaust)
    qed
    then show thesis
      using cb False e least s' fixed cpls by (intro due [of "ee_due ?e"]) auto
  qed
qed

context float_rounding
begin

text \<open>Every interval is at least the base interval.\<close>

lemma cpl_interval_ge:
  assumes ok: "dynamic_ok s" and c: "c \<in> {0..dx_max_cpl s}"
  shows "dx_interval s \<le> cpl_interval rnd s c"
proof -
  let ?i = "dx_interval s" and ?f = "rnd (of_int (dx_interval s)) * rnd (of_int (dx_max_cpl s - c))"
  have base: "rnd (of_int ?i) = of_int ?i" "\<bar>?i\<bar> \<le> 2 ^ 53" "0 \<le> ?i" "(0 :: rat) \<le> of_int ?i"
    using ok by (auto simp: dynamic_ok_def intro!: rnd_int)
  have "0 \<le> rnd (of_int (dx_max_cpl s - c))" using c by (intro rnd_nonneg) simp
  then have "0 \<le> rnd ?f * dx_multiplier s"
    using ok base c by (intro mult_nonneg_nonneg rnd_nonneg) (simp_all add: dynamic_ok_def)
  then have "0 \<le> rnd (rnd ?f * dx_multiplier s)" by (rule rnd_nonneg)
  from rnd_add_ge [OF base(2) order_refl this]
  have scaled: "of_int ?i \<le> rnd (of_int ?i + rnd (rnd ?f * dx_multiplier s))" .
  have "0 \<le> rnd (rnd (rnd (of_int ?i) * dx_jitter s) * dx_samples s (dx_drawn s))"
    using ok base by (intro rnd_nonneg mult_nonneg_nonneg) (simp_all add: dynamic_ok_def)
  from float_to_int_ge [OF base(3) rnd_add_ge [OF base(2) scaled this]]
  show ?thesis by (simp add: cpl_interval_def Let_def base(1))
qed

lemma dynamic_next_ok:
  assumes ok: "dynamic_ok s"
  shows "dynamic_ok (snd (dynamic_next_cpl rnd ts s))"
proof -
  obtain c b s' where out: "dynamic_next_cpl rnd ts s = ((c, b), s')" by (metis surj_pair)
  from ok out show ?thesis
  proof (cases rule: dynamic_next_cases)
    case (due d)
    have "dx_max_cpl s' = dx_max_cpl s" "dx_interval s' = dx_interval s" "dx_multiplier s' = dx_multiplier s"
      "dx_jitter s' = dx_jitter s" "dx_samples s' = dx_samples s"
      using arg_cong [OF due(6), of dx_max_cpl] arg_cong [OF due(6), of dx_interval]
        arg_cong [OF due(6), of dx_multiplier] arg_cong [OF due(6), of dx_jitter] arg_cong [OF due(6), of dx_samples]
      by simp_all
    with ok due(7,8) out show ?thesis by (simp add: dynamic_ok_def)
  qed (use ok out in simp)
qed

lemma dynamic_cpl_range:
  assumes "dynamic_ok s" "dynamic_due s c = Some d"
  shows "c \<in> {0..dx_max_cpl s}"
proof -
  have "mset (schedule_cpls s) = mset [0..dx_max_cpl s]" using assms(1) by (simp add: dynamic_ok_def)
  from mset_eq_setD [OF this] have "set (schedule_cpls s) = {0..dx_max_cpl s}" by simp
  moreover have "c \<in> set (schedule_cpls s)"
    using assms(2) dynamic_ok_distinct(1) [OF assms(1)] by (force simp: dynamic_due_iff schedule_cpls_def)
  ultimately show ?thesis by simp
qed

end

sublocale float_rounding \<subseteq> dynamic: explore_schedule "dynamic_ops rnd" dynamic_due dynamic_ok
proof
  fix s ts c s' assume ok: "dynamic_ok s"
  show "dynamic_ok (snd (sc_next_cpl (dynamic_ops rnd) ts s))"
    using dynamic_next_ok [OF ok] by (simp add: dynamic_ops_def)
  show "\<exists>d d'. dynamic_due s c = Some d \<and> d \<le> ts \<and> d \<le> d' \<and> dynamic_due s' = (dynamic_due s)(c \<mapsto> d')"
    if "0 \<le> ts" "sc_next_cpl (dynamic_ops rnd) ts s = ((c, True), s')"
  proof -
    from that(2) have "dynamic_next_cpl rnd ts s = ((c, True), s')" by (simp add: dynamic_ops_def)
    with ok show ?thesis
    proof (cases rule: dynamic_next_cases)
      case (due d)
      have "1 \<le> cpl_interval rnd s c"
        using cpl_interval_ge [OF ok dynamic_cpl_range [OF ok due(2)]] ok by (simp add: dynamic_ok_def)
      with due(2,3,5) show ?thesis by (intro exI [of _ d] exI [of _ "ts + cpl_interval rnd s c"]) simp
    qed simp
  qed
  show "c = -1 \<and> s' = s \<and> ts < sc_next_due (dynamic_ops rnd) s \<and>
      (\<forall>c d. dynamic_due s c = Some d \<longrightarrow> sc_next_due (dynamic_ops rnd) s \<le> d)"
    if "sc_next_cpl (dynamic_ops rnd) ts s = ((c, False), s')"
  proof -
    from that have "dynamic_next_cpl rnd ts s = ((c, False), s')" by (simp add: dynamic_ops_def)
    with ok show ?thesis by (cases rule: dynamic_next_cases) (auto simp: dynamic_ops_def)
  qed
qed

text \<open>The schedule that never waits: every length is due at the zero time for ever.\<close>

definition no_wait_due :: "no_wait_schedule \<Rightarrow> int \<rightharpoonup> time" where
  "no_wait_due s c = (if 0 \<le> c \<and> c \<le> nw_max_cpl s then Some zero_time else None)"

definition no_wait_ok :: "no_wait_schedule \<Rightarrow> bool" where
  "no_wait_ok s \<longleftrightarrow> 0 \<le> nw_next_cpl s \<and> nw_next_cpl s \<le> nw_max_cpl s"

interpretation no_wait: explore_schedule no_wait_ops no_wait_due no_wait_ok
  by unfold_locales
    (auto simp: no_wait_ops_def no_wait_next_cpl_def no_wait_ok_def no_wait_due_def Let_def time_defs fun_eq_iff)

section \<open>Runs of a schedule\<close>

text \<open>The lengths given out by a sequence of calls at the given instants.\<close>

fun dynamic_run :: "(rat \<Rightarrow> rat) \<Rightarrow> time list \<Rightarrow> dynamic_schedule \<Rightarrow> int list \<times> dynamic_schedule" where
  "dynamic_run rnd [] s = ([], s)"
| "dynamic_run rnd (ts # tss) s =
     (let ((c, b), s1) = dynamic_next_cpl rnd ts s;
          (cs, s2) = dynamic_run rnd tss s1
      in (if b then c # cs else cs, s2))"

text \<open>What the code asks of its arguments, within the integers a \<open>float64\<close> holds exactly.\<close>

definition schedule_arguments :: "int \<Rightarrow> duration \<Rightarrow> (nat \<Rightarrow> rat) \<Rightarrow> bool" where
  "schedule_arguments max_cpl interval samples \<longleftrightarrow>
     max_cpl \<le> 2 ^ 53 \<and> interval \<le> 2 ^ 53 \<and> (\<forall>i. 0 \<le> samples i)"

definition first_due :: "int \<Rightarrow> time \<Rightarrow> duration \<Rightarrow> int \<Rightarrow> time" where
  "first_due max_cpl start interval c = start + (interval div (max_cpl + 1)) * (max_cpl - c + 1)"

lemma first_round_cpls: "map ee_cpl (first_round m start step n) = map (\<lambda>i. m - int i) [0..<n]"
  by simp

lemma upto_rev: "0 \<le> m \<Longrightarrow> rev [0..m] = map (\<lambda>i. m - int i) [0..<nat (m + 1)]"
  by (rule nth_equalityI) (auto simp: rev_nth)

lemma new_schedule_facts:
  assumes new: "new_dynamic_schedule rnd m start interval factor jitter samples = Inr s"
    and args: "schedule_arguments m interval samples"
  shows "dynamic_ok s" "dx_max_cpl s = m" "dx_interval s = interval" "1 \<le> m"
    "c \<in> {0..m} \<Longrightarrow> dynamic_due s c = Some (first_due m start interval c)"
proof -
  let ?step = "interval div (m + 1)" and ?l = "first_round m start (interval div (m + 1)) (nat (m + 1))"
  from new have fields: "dx_max_cpl s = m" "dx_interval s = interval" "1 \<le> m" "1 \<le> interval" "1 \<le> factor" "0 \<le> jitter"
    and s: "dx_cpls s = heap_init explore_list ?l" "dx_samples s = samples" "dx_multiplier s = factor" "dx_jitter s = jitter"
    by (auto simp: new_dynamic_schedule_def simp del: first_round.simps split: if_splits)
  show "dx_max_cpl s = m" "dx_interval s = interval" "1 \<le> m" by (rule fields)+
  from explore.heap_init_list [of ?l] have heap: "is_heap explore_before (dx_cpls s)" "mset (dx_cpls s) = mset ?l"
    by (simp_all add: s explore_list_eq del: first_round.simps)
  have "mset (schedule_cpls s) = mset (map ee_cpl ?l)"
    using heap(2) unfolding schedule_cpls_def by (metis mset_map)
  also have "\<dots> = mset (rev [0..m])" using fields(3) by (simp only: first_round_cpls upto_rev)
  finally have cpls: "mset (schedule_cpls s) = mset [0..m]" by simp
  show ok: "dynamic_ok s"
    using heap(1) cpls fields s args by (simp add: dynamic_ok_def schedule_arguments_def)
  assume c: "c \<in> {0..m}"
  have "\<lparr>ee_cpl = c, ee_due = first_due m start interval c\<rparr> \<in> set ?l"
    using c by (auto simp: first_due_def time_defs intro!: image_eqI [where x = "nat (m - c)"])
  then show "dynamic_due s c = Some (first_due m start interval c)"
    using mset_eq_setD [OF heap(2)] dynamic_due_iff [OF dynamic_ok_distinct(1) [OF ok]] by simp
qed

text \<open>The first round, as far as the lengths \<open>cs\<close> given out so far have come.\<close>

definition in_first_round :: "int \<Rightarrow> time \<Rightarrow> duration \<Rightarrow> int list \<Rightarrow> dynamic_schedule \<Rightarrow> bool" where
  "in_first_round m start interval cs s \<longleftrightarrow>
     dynamic_ok s \<and> dx_max_cpl s = m \<and> dx_interval s = interval \<and> distinct cs \<and> set cs \<subseteq> {0..m} \<and>
     (\<forall>c \<in> {0..m} - set cs. dynamic_due s c = Some (first_due m start interval c)) \<and>
     (\<forall>c \<in> set cs. \<exists>d. dynamic_due s c = Some d \<and> start + interval div (m + 1) + interval \<le> d) \<and>
     (m < interval \<longrightarrow> cs = map (\<lambda>i. m - int i) [0..<length cs])"

lemma first_due_bounds:
  assumes "1 \<le> m" "1 \<le> interval" "c \<in> {0..m}"
  shows "start + interval div (m + 1) \<le> first_due m start interval c"
    and "first_due m start interval c < start + interval div (m + 1) + interval"
proof -
  let ?q = "interval div (m + 1)"
  have q: "0 \<le> ?q" using assms(1,2) by (simp add: pos_imp_zdiv_nonneg_iff)
  have le: "?q * (m + 1) \<le> interval"
    using div_mult_mod_eq [of interval "m + 1"] pos_mod_sign [of "m + 1" interval] assms(1) by linarith
  have "?q * 1 \<le> ?q * (m - c + 1)" using q assms(3) by (intro mult_left_mono) auto
  then show "start + ?q \<le> first_due m start interval c" by (simp add: first_due_def)
  have "?q * (m - c + 1) \<le> ?q * (m + 1)" using q assms(3) by (intro mult_left_mono) auto
  with le have "?q * (m - c + 1) \<le> interval" by linarith
  with q assms(2) show "first_due m start interval c < start + ?q + interval"
    by (cases "?q = 0") (simp_all add: first_due_def)
qed

lemma down_from_set: "c \<in> set (map (\<lambda>i. m - int i) [0..<k]) \<longleftrightarrow> m - int k < c \<and> c \<le> m"
  by (auto intro!: image_eqI [where x = "nat (m - c)"])

context float_rounding
begin

lemma first_round_step:
  assumes inv: "in_first_round m start interval cs s" and short: "length cs < nat (m + 1)"
    and nxt: "dynamic_next_cpl rnd ts s = ((c, True), s')"
  shows "in_first_round m start interval (cs @ [c]) s'"
proof -
  let ?q = "interval div (m + 1)" and ?first = "first_due m start interval"
  from inv have ok: "dynamic_ok s" and m: "dx_max_cpl s = m" "dx_interval s = interval"
    and cs: "distinct cs" "set cs \<subseteq> {0..m}"
    and todo: "\<And>c. c \<in> {0..m} - set cs \<Longrightarrow> dynamic_due s c = Some (?first c)"
    and gone: "\<And>c d. c \<in> set cs \<Longrightarrow> dynamic_due s c = Some d \<Longrightarrow> start + ?q + interval \<le> d"
    and order: "m < interval \<Longrightarrow> cs = map (\<lambda>i. m - int i) [0..<length cs]"
    by (force simp: in_first_round_def)+
  have pos: "1 \<le> m" "1 \<le> interval" using ok m by (auto simp: dynamic_ok_def)
  obtain d where d: "dynamic_due s c = Some d" "d \<le> ts"
    and least: "\<And>c' d'. dynamic_due s c' = Some d' \<Longrightarrow> d < d' \<or> d = d' \<and> c \<le> c'"
    and s': "dynamic_due s' = (dynamic_due s)(c \<mapsto> ts + cpl_interval rnd s c)"
      "s' = s\<lparr>dx_cpls := dx_cpls s', dx_drawn := dx_drawn s + 1\<rparr>"
    using dynamic_next_cases [OF ok nxt] by metis
  have "card (set cs) < card {0..m}" using distinct_card [OF cs(1)] short by simp
  then obtain c0 where c0: "c0 \<in> {0..m} - set cs"
    by (metis Diff_eq_empty_iff card_mono ex_in_conv finite_atLeastAtMost_int linorder_not_less finite_set)
  have c: "c \<in> {0..m} - set cs"
  proof -
    have "c \<in> {0..m}" using dynamic_cpl_range [OF ok d(1)] m by simp
    moreover have "c \<notin> set cs"
    proof
      assume "c \<in> set cs"
      from gone [OF this d(1)] least [OF todo [OF c0]] first_due_bounds(2) [OF pos, of c0 start] c0
      show False by auto
    qed
    ultimately show ?thesis by blast
  qed
  then have dc: "d = ?first c" using todo d(1) by simp
  have "start + ?q \<le> ts" using first_due_bounds(1) [OF pos, of c start] c d(2) dc by simp
  moreover have "interval \<le> cpl_interval rnd s c" using cpl_interval_ge [OF ok, of c] c m by simp
  ultimately have late: "start + ?q + interval \<le> ts + cpl_interval rnd s c" by linarith
  have "cs @ [c] = map (\<lambda>i. m - int i) [0..<length (cs @ [c])]" if "m < interval"
  proof -
    have q: "1 \<le> ?q" using that pos by (simp add: pos_imp_zdiv_pos_iff int_one_le_iff_zero_less)
    have gaps: "x \<in> set cs \<longleftrightarrow> m - int (length cs) < x \<and> x \<le> m" for x
      by (subst order [OF that]) (rule down_from_set)
    have len: "int (length cs) \<le> m" using short by linarith
    have "c \<le> m - int (length cs)" using c gaps [of c] by auto
    moreover have "m - int (length cs) \<in> {0..m} - set cs" using gaps len by auto
    from least [OF todo [OF this]] have "\<not> ?first (m - int (length cs)) < ?first c" using dc by auto
    then have "\<not> c < m - int (length cs)" using q by (simp add: first_due_def)
    ultimately have "c = m - int (length cs)" by simp
    then show ?thesis using order [OF that] by simp
  qed
  moreover have "dynamic_ok s'" using dynamic_next_ok [OF ok, of ts] nxt by simp
  moreover have "dx_max_cpl s' = m" "dx_interval s' = interval"
    using arg_cong [OF s'(2), of dx_max_cpl] arg_cong [OF s'(2), of dx_interval] m by simp_all
  moreover have "\<forall>x \<in> set (cs @ [c]). \<exists>d. dynamic_due s' x = Some d \<and> start + ?q + interval \<le> d"
    using late inv by (auto simp: s'(1) in_first_round_def)
  ultimately show ?thesis
    using cs c todo unfolding in_first_round_def by (simp add: s'(1))
qed

lemma first_round_run:
  assumes "in_first_round m start interval pre s" "dynamic_run rnd tss s = (cs, s')"
  shows "\<exists>t. in_first_round m start interval (take (nat (m + 1)) (pre @ cs)) t"
  using assms
proof (induction tss arbitrary: pre s cs)
  case Nil
  have "length pre \<le> nat (m + 1)"
    using Nil.prems(1) card_mono [of "{0..m}" "set pre"] by (auto simp: in_first_round_def distinct_card)
  with Nil show ?case by (intro exI [of _ s]) simp
next
  case (Cons ts tss)
  obtain c b s1 where out: "dynamic_next_cpl rnd ts s = ((c, b), s1)" by (metis surj_pair)
  obtain ds where run: "dynamic_run rnd tss s1 = (ds, s')" and cs: "cs = (if b then c # ds else ds)"
    using Cons.prems(2) out by (auto simp: Let_def split: prod.splits)
  show ?case
  proof (cases b)
    case False
    have "dynamic_ok s" using Cons.prems(1) by (simp add: in_first_round_def)
    from this out have "s1 = s" by (cases rule: dynamic_next_cases) (use False in auto)
    with Cons.IH [OF Cons.prems(1)] run cs False show ?thesis by simp
  next
    case True
    show ?thesis
    proof (cases "length pre < nat (m + 1)")
      case short: True
      from first_round_step [OF Cons.prems(1) short] out True
      have "in_first_round m start interval (pre @ [c]) s1" by simp
      from Cons.IH [OF this run] cs True show ?thesis by simp
    next
      case False
      have "length pre \<le> nat (m + 1)"
        using Cons.prems(1) card_mono [of "{0..m}" "set pre"] by (auto simp: in_first_round_def distinct_card)
      with False Cons.prems(1) show ?thesis by (intro exI [of _ s]) simp
    qed
  qed
qed

end

lemma dynamic_next_keeps:
  assumes "dynamic_ok s" "dynamic_next_cpl rnd ts s = ((c, b), s')"
  shows "dx_max_cpl s' = dx_max_cpl s" "dx_interval s' = dx_interval s"
  using assms(2) by (auto simp: dynamic_next_cpl_def Let_def split: if_splits)

context float_rounding
begin

lemma dynamic_run_ok:
  assumes "dynamic_ok s" "dynamic_run rnd tss s = (cs, s')"
  shows "dynamic_ok s' \<and> dx_max_cpl s' = dx_max_cpl s \<and> dx_interval s' = dx_interval s"
  using assms
proof (induction tss arbitrary: s cs)
  case (Cons ts tss)
  obtain c b s1 ds where out: "dynamic_next_cpl rnd ts s = ((c, b), s1)" "dynamic_run rnd tss s1 = (ds, s')"
    using Cons.prems(2) by (auto simp: Let_def split: prod.splits)
  from Cons.IH [OF _ out(2)] dynamic_next_ok [OF Cons.prems(1), of ts] dynamic_next_keeps [OF Cons.prems(1) out(1)] out(1)
  show ?case by simp
qed simp

end

lemma no_wait_after:
  assumes "0 \<le> m"
  shows "((\<lambda>s. snd (no_wait_next_cpl ts s)) ^^ n) (new_no_wait_schedule m) =
    \<lparr>nw_max_cpl = m, nw_next_cpl = m - int n mod (m + 1)\<rparr>"
proof (induction n)
  case (Suc n)
  have r: "0 \<le> int n mod (m + 1)" "int n mod (m + 1) < m + 1"
    using assms pos_mod_bound [of "m + 1" "int n"] by simp_all
  have "int (Suc n) mod (m + 1) = (int n mod (m + 1) + 1) mod (m + 1)"
    using mod_add_left_eq [of "int n" "m + 1" 1] by (simp add: add.commute)
  also have "\<dots> = (if int n mod (m + 1) = m then 0 else int n mod (m + 1) + 1)"
    using r by (auto simp: mod_pos_pos_trivial)
  finally show ?case using Suc r by (simp add: no_wait_next_cpl_def Let_def)
qed (use assms in \<open>simp add: new_no_wait_schedule_def\<close>)

section \<open>The properties\<close>

text \<open>
  The first round of the dynamic schedule explores every prefix length once before any twice,
  whenever it is polled, and from the greatest length down when the interval is long enough to be
  spread.
\<close>

theorem explore_first_round:
  assumes "float_rounding rnd" "schedule_arguments m interval samples"
    "new_dynamic_schedule rnd m start interval factor jitter samples = Inr s"
    "dynamic_run rnd tss s = (cs, s')"
  shows "distinct (take (nat (m + 1)) cs) \<and>
    (m < interval \<longrightarrow> take (nat (m + 1)) cs = take (length cs) (rev [0..m]))"
proof -
  note new = new_schedule_facts [OF assms(3,2)]
  have "in_first_round m start interval [] s" using new by (simp add: in_first_round_def)
  from float_rounding.first_round_run [OF assms(1) this assms(4)] obtain t
    where t: "in_first_round m start interval (take (nat (m + 1)) cs) t" by auto
  have "take (nat (m + 1)) cs = take (length cs) (rev [0..m])" if "m < interval"
  proof -
    have "take (nat (m + 1)) cs = map (\<lambda>i. m - int i) [0..<min (length cs) (nat (m + 1))]"
      using t that by (simp add: in_first_round_def min.commute)
    also have "\<dots> = take (length cs) (rev [0..m])"
      using new(4) by (cases "length cs \<le> nat (m + 1)") (simp_all add: upto_rev take_map take_upt min_def)
    finally show ?thesis .
  qed
  with t show ?thesis by (simp add: in_first_round_def)
qed


text \<open>
  The schedule that never waits gives out the lengths from the greatest down to zero, and then
  starts again.
\<close>

theorem no_wait_cycles:
  assumes "0 \<le> m"
  shows "fst (no_wait_next_cpl ts (((\<lambda>s. snd (no_wait_next_cpl ts s)) ^^ n) (new_no_wait_schedule m))) =
    (m - int n mod (m + 1), True)"
  using no_wait_after [OF assms, where ts = ts and n = n] by (simp add: no_wait_next_cpl_def Let_def)

text \<open>
  With the arguments of the first example in the constructor's documentation, the interval for
  the length zero is fifteen hours, not the fourteen the documentation gives.
\<close>

theorem explore_example_interval:
  assumes "float_rounding rnd" "schedule_arguments 14 hour samples"
    "new_dynamic_schedule rnd 14 start hour 1 0 samples = Inr s"
  shows "cpl_interval rnd s 0 = 15 * hour"
proof -
  from assms(3) have s: "dx_max_cpl s = 14" "dx_interval s = hour" "dx_multiplier s = 1" "dx_jitter s = 0"
    by (auto simp: new_dynamic_schedule_def simp del: first_round.simps split: if_splits)
  note exact = float_rounding.rnd_int [OF assms(1)]
  have "rnd (of_int hour) = of_int hour" "rnd (of_int 14) = of_int 14"
    "rnd (of_int (hour * 14)) = of_int (hour * 14)" "rnd (of_int (15 * hour)) = of_int (15 * hour)" "rnd (of_int 0) = of_int 0"
    by (rule exact; simp add: duration_defs)+
  then have "cpl_interval rnd s 0 = float_to_int (of_int (15 * hour))" by (simp add: cpl_interval_def s Let_def)
  then show ?thesis by (simp only: float_to_int_of_int)
qed

section \<open>A small schedule\<close>

definition tiny_schedule :: dynamic_schedule where
  "tiny_schedule = projr (new_dynamic_schedule (\<lambda>x. x) 2 0 9 1 0 (\<lambda>_. 0))"

lemma tiny_schedule_new: "new_dynamic_schedule (\<lambda>x. x) 2 0 9 1 0 (\<lambda>_. 0) = Inr tiny_schedule"
  by (simp add: tiny_schedule_def new_dynamic_schedule_def)

lemma tiny_arguments: "schedule_arguments 2 9 (\<lambda>_. 0)"
  by (simp add: schedule_arguments_def)

theorem explore_first_round_witness:
  "take 3 (fst (dynamic_run (\<lambda>x. x) [2, 3, 6, 9, 9] tiny_schedule)) =
     take (length (fst (dynamic_run (\<lambda>x. x) [2, 3, 6, 9, 9] tiny_schedule))) [2, 1, 0]"
proof -
  have "rev [0..2] = [2, 1, 0 :: int]" by (simp add: upto.simps)
  with explore_first_round [OF exact.float_rounding_axioms tiny_arguments tiny_schedule_new
      prod.collapse [symmetric], of "[2, 3, 6, 9, 9]"] show ?thesis by simp
qed


theorem no_wait_cycles_witness:
  "fst (no_wait_next_cpl 0 (((\<lambda>s. snd (no_wait_next_cpl 0 s)) ^^ 4) (new_no_wait_schedule 2))) = (1, True)"
  using no_wait_cycles [of 2 0 4] by simp

theorem explore_example_interval_witness:
  "cpl_interval (\<lambda>x. x) (projr (new_dynamic_schedule (\<lambda>x. x) 14 0 hour 1 0 (\<lambda>_. 0))) 0 = 15 * hour"
proof (rule explore_example_interval [OF exact.float_rounding_axioms])
  show "schedule_arguments 14 hour (\<lambda>_. 0)" by (simp add: schedule_arguments_def duration_defs)
  show "new_dynamic_schedule (\<lambda>x. x) 14 0 hour 1 0 (\<lambda>_. 0) =
      Inr (projr (new_dynamic_schedule (\<lambda>x. x) 14 0 hour 1 0 (\<lambda>_. 0)))"
    by (simp add: new_dynamic_schedule_def duration_defs)
qed

end
