(* ===== verification/ExploreTheorems.thy ===== *)
theory ExploreTheorems
  imports Explore ExploreScheduleTheorems OwnedQuery
begin

text \<open>
  The properties of the explore machine, over any schedule that keeps the contract of the interface
  and any function that synthesizes nodes as its documentation says.
\<close>

section \<open>Reachable machines\<close>

inductive explore_reached ::
  "('k, 'n) kad_ops \<Rightarrow> ('k, 'n, 'rt) rt_ops \<Rightarrow> ('k, 'n node_status, 'tr) trie_ops \<Rightarrow> ('k, 'n, 'g) cpl_fn \<Rightarrow>
     'sc schedule_ops \<Rightarrow> ('sc \<Rightarrow> bool) \<Rightarrow> ('k, 'n, 'tr, 'rt, 'sc, 'g) explore_machine \<Rightarrow> bool"
  for kd rt T cpl_fn sched sched_ok where
  created: "new_explore self table gen s cfg = Inr e \<Longrightarrow> sched_ok s \<Longrightarrow>
    explore_reached kd rt T cpl_fn sched sched_ok e"
| advanced: "explore_reached kd rt T cpl_fn sched sched_ok e \<Longrightarrow> 0 < now \<Longrightarrow>
    explore_advance kd rt T cpl_fn sched now ev e = Some (out, e') \<Longrightarrow>
    explore_reached kd rt T cpl_fn sched sched_ok e'"
| shared: "explore_reached kd rt T cpl_fn sched sched_ok e \<Longrightarrow>
    explore_reached kd rt T cpl_fn sched sched_ok (e\<lparr>ex_rt := table\<rparr>)"

text \<open>The invariant documented with the type \<open>NodeIDForCplFunc\<close>.\<close>

definition cpl_fn_ok :: "('k, 'n) kad_ops \<Rightarrow> ('k, 'n, 'g) cpl_fn \<Rightarrow> bool" where
  "cpl_fn_ok kd cpl_fn \<longleftrightarrow>
     (\<forall>k c g n g'. cpl_fn k c g = (Inr n, g') \<longrightarrow> key_cpl kd k (node_key kd n) = c)"

text \<open>A query explores a distance when its target is at exactly that distance from the local node.\<close>

definition explores ::
  "('k, 'n) kad_ops \<Rightarrow> ('k, 'n node_status, 'tr) trie_ops \<Rightarrow> 'n \<Rightarrow> int \<Rightarrow> ('k, 'n, 'tr) find_query \<Rightarrow> bool" where
  "explores kd T self cpl q \<longleftrightarrow>
     owned_query kd T ExploreActivityID (q_target q) q \<and> key_cpl kd (node_key kd self) (q_target q) = cpl"

definition explore_wf ::
  "('k, 'n) kad_ops \<Rightarrow> ('k, 'n node_status, 'tr) trie_ops \<Rightarrow> ('k, 'n, 'tr, 'rt, 'sc, 'g) explore_machine \<Rightarrow> bool" where
  "explore_wf kd T e \<longleftrightarrow>
     explore_config_validate (ex_cfg e) = None \<and>
     (case ex_qry e of
        None \<Rightarrow> ex_qry_cpl e = -1
      | Some q \<Rightarrow> explores kd T (ex_self e) (ex_qry_cpl e) q)"

lemma explore_query_config_ok:
  "explore_config_validate cfg = None \<Longrightarrow> query_config_validate (explore_query_config cfg) = None"
  by (simp add: explore_config_validate_def query_config_validate_def explore_query_config_def
      default_query_config_def split: if_splits)

lemma new_explore_wf: "new_explore self table gen s cfg = Inr e \<Longrightarrow> explore_wf kd T e"
  by (auto simp: new_explore_def explore_wf_def default_explore_config_def duration_defs
      explore_config_validate_def split: option.splits if_splits)

text \<open>What the machine makes of what its query reports.\<close>

lemma explore_query_step:
  fixes e :: "('k, 'n, 'tr, 'rt, 'sc, 'g) explore_machine"
  assumes trie: "kad_node_trie kd T ok" and now: "0 < now" and own: "explores kd T (ex_self e) (ex_qry_cpl e) q"
  obtains (request) q' n where "explores kd T (ex_self e) (ex_qry_cpl e) q'"
      "explore_advance_query kd T now ev q e =
         Some (StateExploreFindCloser (ex_qry_cpl e) ExploreActivityID (q_target q') n (q_stats q'), e\<lparr>ex_qry := Some q'\<rparr>)"
  | (finished) stats ns where
      "explore_advance_query kd T now ev q e =
         Some (StateExploreQueryFinished (-1) stats (q_target q) ns, e\<lparr>ex_qry := None, ex_qry_cpl := -1\<rparr>)"
  | (timeout) stats where
      "explore_advance_query kd T now ev q e =
         Some (StateExploreQueryTimeout (-1) stats, e\<lparr>ex_qry := None, ex_qry_cpl := -1\<rparr>)"
  | (waiting) q' due where "explores kd T (ex_self e) (ex_qry_cpl e) q'"
      "0 < due" "due = Min (set (waiting_deadlines (closest_iter kd T) q'))" "now \<le> q_deadline q'"
      "explore_advance_query kd T now ev q e =
         Some (StateExploreWaiting (min due (q_deadline q')) (ex_qry_cpl e) (q_stats q'), e\<lparr>ex_qry := Some q'\<rparr>)"
proof -
  obtain st q' where adv: "query_advance kd (closest_iter kd T) now ev q = (st, q')" by fastforce
  from own have owned: "owned_query kd T ExploreActivityID (q_target q) q"
    and dist: "key_cpl kd (node_key kd (ex_self e)) (q_target q) = ex_qry_cpl e" by (simp_all add: explores_def)
  have keeps: "explores kd T (ex_self e) (ex_qry_cpl e) q'" "q_target q' = q_target q"
    if "owned_query kd T ExploreActivityID (q_target q) q'"
    using that dist by (auto simp: explores_def owned_query_def)
  show thesis
  proof (cases rule: owned_advance [OF trie owned now adv, case_names request finished waiting])
    case (request n)
    with adv keeps show thesis by (intro that(1) [of q' n]) (simp_all add: explore_advance_query_def)
  next
    case (finished ns)
    with adv show thesis by (intro that(2)) (simp add: explore_advance_query_def clear_query_def Let_def)
  next
    case (waiting due)
    from waiting(4) adv have eq: "explore_advance_query kd T now ev q e =
        Some (explore_waiting now (q_stats q') (q_deadline q') due (e\<lparr>ex_qry := Some q'\<rparr>))"
      by (auto simp: explore_advance_query_def)
    show thesis
    proof (cases "q_deadline q' < now")
      case True
      with eq show thesis by (intro that(3)) (simp add: explore_waiting_def clear_query_def time_defs Let_def)
    next
      case False
      with now waiting(2) have "earlier due (q_deadline q') = min due (q_deadline q')"
        by (intro earlier_nonzero) simp_all
      with False eq waiting(1-3) keeps show thesis
        by (intro that(4) [of q' due]) (simp_all add: explore_waiting_def time_defs)
    qed
  qed
qed

text \<open>The report an advance of the query gives, as a test on the machine after it.\<close>

fun explore_report_ok ::
  "('k, 'n) kad_ops \<Rightarrow> ('k, 'n node_status, 'tr) trie_ops \<Rightarrow> time \<Rightarrow> ('k, 'n) explore_state \<Rightarrow>
     ('k, 'n, 'tr, 'rt, 'sc, 'g) explore_machine \<Rightarrow> bool" where
  "explore_report_ok kd T now (StateExploreFindCloser c i k n s) e \<longleftrightarrow>
     ex_qry e \<noteq> None \<and> c = ex_qry_cpl e \<and> i = ExploreActivityID \<and> key_cpl kd (node_key kd (ex_self e)) k = c"
| "explore_report_ok kd T now (StateExploreWaiting d c s) e \<longleftrightarrow>
     c = ex_qry_cpl e \<and> (\<exists>q. ex_qry e = Some q \<and> s = q_stats q \<and> now \<le> q_deadline q \<and> 0 < d \<and>
        d = min (Min (set (waiting_deadlines (closest_iter kd T) q))) (q_deadline q))"
| "explore_report_ok kd T now (StateExploreIdle d) e \<longleftrightarrow> ex_qry e = None"
| "explore_report_ok kd T now (StateExploreQueryFinished c s k ns) e \<longleftrightarrow> ex_qry e = None \<and> c = -1"
| "explore_report_ok kd T now (StateExploreQueryTimeout c s) e \<longleftrightarrow> ex_qry e = None \<and> c = -1"
| "explore_report_ok kd T now (StateExploreFailure c err) e \<longleftrightarrow> ex_qry e = None"

lemma explore_report_running [simp]:
  "explore_report_ok kd T now out (e\<lparr>ex_running := r\<rparr>) = explore_report_ok kd T now out e"
  by (cases out) auto

lemma explore_query_report:
  assumes "kad_node_trie kd T ok" "0 < now" "explores kd T (ex_self e) (ex_qry_cpl e) q"
    "explore_config_validate (ex_cfg e) = None"
  shows "\<exists>out e'. explore_advance_query kd T now ev q e = Some (out, e') \<and> explore_wf kd T e' \<and>
    explore_report_ok kd T now out e' \<and> ex_schedule e' = ex_schedule e \<and>
    (ex_qry e' \<noteq> None \<longrightarrow> ex_qry_cpl e' = ex_qry_cpl e) \<and> (\<forall>d. out \<noteq> StateExploreIdle d)"
  using assms(1-3)
  by (cases rule: explore_query_step [where ev = ev])
    (use assms(2,4) in \<open>auto simp: explore_wf_def explores_def\<close>)

lemma explore_start_report:
  fixes e :: "('k, 'n, 'tr, 'rt, 'sc, 'g) explore_machine"
  assumes trie: "kad_node_trie kd T ok" and now: "0 < now" and fn: "cpl_fn_ok kd cpl_fn"
    and wf: "explore_wf kd T e" "ex_qry e = None"
  shows "\<exists>out e'. explore_start kd rt T cpl_fn now cpl e = Some (out, e') \<and> explore_wf kd T e' \<and>
    explore_report_ok kd T now out e' \<and> ex_schedule e' = ex_schedule e \<and>
    (ex_qry e' \<noteq> None \<longrightarrow> ex_qry_cpl e' = cpl) \<and> (\<forall>d. out \<noteq> StateExploreIdle d)"
proof (cases "cpl_fn (node_key kd (ex_self e)) cpl (ex_gen e)")
  case (Pair r g)
  show ?thesis
  proof (cases r)
    case (Inl err)
    with Pair wf show ?thesis by (simp add: explore_start_def explore_wf_def)
  next
    case (Inr node)
    let ?target = "node_key kd node" and ?e1 = "e\<lparr>ex_gen := g\<rparr>"
    let ?seeds = "rt_nearest_nodes rt (ex_rt ?e1) ?target 20"
    from wf(1) have cfg: "explore_config_validate (ex_cfg e) = None" by (simp add: explore_wf_def)
    have "\<exists>q :: ('k, 'n, 'tr) find_query. new_find_closer_query kd (closest_iter kd T) (ex_self e) ExploreActivityID ?target
      (new_closest_nodes_iter T ?target) ?seeds (Some (explore_query_config (ex_cfg e))) = Inr q"
      by (rule new_query_ok [OF explore_query_config_ok [OF cfg]])
    then obtain q :: "('k, 'n, 'tr) find_query" where q: "new_find_closer_query kd (closest_iter kd T) (ex_self e)
      ExploreActivityID ?target (new_closest_nodes_iter T ?target) ?seeds (Some (explore_query_config (ex_cfg e))) = Inr q" ..
    have dist: "key_cpl kd (node_key kd (ex_self e)) ?target = cpl"
      using fn Pair unfolding Inr cpl_fn_ok_def by blast
    from owned_new [OF q] have own: "owned_query kd T ExploreActivityID ?target q" .
    then have target: "q_target q = ?target" by (simp add: owned_query_def)
    let ?e2 = "?e1\<lparr>ex_qry := Some q, ex_qry_cpl := cpl\<rparr>"
    have "explores kd T (ex_self ?e2) (ex_qry_cpl ?e2) q" using own dist target by (simp add: explores_def)
    from explore_query_report [OF trie now this, of EventQueryPoll] cfg show ?thesis
      using Pair Inr q by (simp add: explore_start_def Let_def)
  qed
qed

section \<open>Every advance\<close>

definition explore_next_report ::
  "('k, 'n) kad_ops \<Rightarrow> ('k, 'n node_status, 'tr) trie_ops \<Rightarrow> 'sc schedule_ops \<Rightarrow> time \<Rightarrow>
     ('k, 'n, 'tr, 'rt, 'sc, 'g) explore_machine \<Rightarrow> ('k, 'n) explore_state \<Rightarrow>
     ('k, 'n, 'tr, 'rt, 'sc, 'g) explore_machine \<Rightarrow> bool" where
  "explore_next_report kd T sched now e out e' \<longleftrightarrow>
     (case ex_qry e of
        Some q \<Rightarrow> ex_schedule e' = ex_schedule e \<and> (ex_qry e' \<noteq> None \<longrightarrow> ex_qry_cpl e' = ex_qry_cpl e) \<and>
          (\<forall>d. out \<noteq> StateExploreIdle d)
      | None \<Rightarrow>
          (case sc_next_cpl sched now (ex_schedule e) of
             ((c, b), s) \<Rightarrow> ex_schedule e' = s \<and>
               (if b then (\<forall>d. out \<noteq> StateExploreIdle d) \<and> (ex_qry e' \<noteq> None \<longrightarrow> ex_qry_cpl e' = c)
                else out = StateExploreIdle (sc_next_due sched s))))"

lemma explore_poll_report:
  assumes "kad_node_trie kd T ok" "0 < now" "cpl_fn_ok kd cpl_fn" "explore_wf kd T e"
  shows "\<exists>out e'. explore_poll kd rt T cpl_fn sched now e = Some (out, e') \<and> explore_wf kd T e' \<and>
    explore_report_ok kd T now out e' \<and> explore_next_report kd T sched now e out e'"
proof (cases "ex_qry e")
  case None
  obtain c b s where nxt: "sc_next_cpl sched now (ex_schedule e) = ((c, b), s)" by (metis surj_pair)
  let ?e = "e\<lparr>ex_schedule := s\<rparr>"
  from assms(4) None have wf: "explore_wf kd T ?e" "ex_qry ?e = None" by (simp_all add: explore_wf_def)
  show ?thesis
  proof (cases b)
    case True
    with explore_start_report [OF assms(1-3) wf, of rt c] None nxt show ?thesis
      by (auto simp: explore_poll_def explore_next_report_def)
  next
    case False
    with None nxt wf show ?thesis by (simp add: explore_poll_def explore_next_report_def)
  qed
next
  case (Some q)
  with assms(4) have own: "explores kd T (ex_self e) (ex_qry_cpl e) q" and
    cfg: "explore_config_validate (ex_cfg e) = None" by (simp_all add: explore_wf_def)
  from explore_query_report [OF assms(1,2) own cfg, of EventQueryPoll] Some show ?thesis
    by (auto simp: explore_poll_def explore_next_report_def)
qed

text \<open>An event that answers a running query advances it; every other advance is a poll.\<close>

lemma explore_handle_cases:
  obtains (running) q qev where "ex_qry e = Some q"
      "explore_handle kd rt T cpl_fn sched now ev e = explore_advance_query kd T now qev q e"
  | (polled) "explore_handle kd rt T cpl_fn sched now ev e = explore_poll kd rt T cpl_fn sched now e"
  by (cases ev; cases "ex_qry e") auto

lemma explore_advance_report:
  fixes e :: "('k, 'n, 'tr, 'rt, 'sc, 'g) explore_machine"
  assumes "kad_node_trie kd T ok" "0 < now" "cpl_fn_ok kd cpl_fn" "explore_wf kd T e"
  shows "\<exists>out e'. explore_advance kd rt T cpl_fn sched now ev e = Some (out, e') \<and> explore_wf kd T e' \<and>
    explore_report_ok kd T now out e' \<and> explore_next_report kd T sched now e out e' \<and>
    (ex_running e' \<longleftrightarrow> ex_qry e' \<noteq> None)"
proof -
  have "\<exists>out e'. explore_handle kd rt T cpl_fn sched now ev e = Some (out, e') \<and> explore_wf kd T e' \<and>
    explore_report_ok kd T now out e' \<and> explore_next_report kd T sched now e out e'"
  proof (cases rule: explore_handle_cases [where e = e and rt = rt and kd = kd and T = T and now = now and ev = ev
        and cpl_fn = cpl_fn and sched = sched])
    case (running q qev)
    with assms(4) have own: "explores kd T (ex_self e) (ex_qry_cpl e) q" and
      cfg: "explore_config_validate (ex_cfg e) = None" by (simp_all add: explore_wf_def)
    from explore_query_report [OF assms(1,2) own cfg, of qev] running show ?thesis
      by (auto simp: explore_next_report_def)
  next
    case polled
    with explore_poll_report [OF assms, of rt sched] show ?thesis by simp
  qed
  then obtain out e1 where "explore_handle kd rt T cpl_fn sched now ev e = Some (out, e1)" and e1: "explore_wf kd T e1"
    "explore_report_ok kd T now out e1" "explore_next_report kd T sched now e out e1" by blast
  then have "explore_advance kd rt T cpl_fn sched now ev e = Some (out, e1\<lparr>ex_running := ex_qry e1 \<noteq> None\<rparr>)"
    by (simp add: explore_advance_def)
  moreover have "explore_wf kd T (e1\<lparr>ex_running := ex_qry e1 \<noteq> None\<rparr>)"
    "explore_next_report kd T sched now e out (e1\<lparr>ex_running := ex_qry e1 \<noteq> None\<rparr>)"
    using e1 by (simp_all add: explore_wf_def explore_next_report_def split: option.splits prod.splits)
  ultimately show ?thesis using e1(2) by simp
qed

text \<open>Reachable machines are well formed and hold a schedule that keeps its contract.\<close>

lemma explore_reached_wf:
  assumes "kad_node_trie kd T ok" "cpl_fn_ok kd cpl_fn" "explore_schedule sched due_of sched_ok"
    "explore_reached kd rt T cpl_fn sched sched_ok e"
  shows "explore_wf kd T e \<and> sched_ok (ex_schedule e)"
  using assms(4)
proof induction
  case (created self table gen s cfg e)
  then show ?case using new_explore_wf [OF created(1), of kd T]
    by (auto simp: new_explore_def split: option.splits if_splits)
next
  case (advanced e now ev out e')
  from explore_advance_report [OF assms(1) advanced(2) assms(2), of e rt sched ev] advanced
  have "explore_wf kd T e'" "explore_next_report kd T sched now e out e'" by auto
  moreover have "sched_ok (snd (sc_next_cpl sched now (ex_schedule e)))"
    using explore_schedule.next_ok [OF assms(3)] advanced.IH by blast
  ultimately show ?case using advanced.IH
    by (auto simp: explore_next_report_def split: option.splits prod.splits)
next
  case (shared e table)
  then show ?case by (simp add: explore_wf_def split: option.splits)
qed

section \<open>The properties\<close>

text \<open>
  The explore machine never reaches one of its panics: whatever happens, an advance reports a
  state, a query it runs is a find-closer query under the explore activity whose target is at exactly
  the distance being explored from the local node, and the flag the gauge reads says whether one runs.
\<close>

theorem explore_never_panics:
  assumes "kad_node_trie kd T ok" "cpl_fn_ok kd cpl_fn" "explore_schedule sched due_of sched_ok"
    "explore_reached kd rt T cpl_fn sched sched_ok e" "0 < now"
  shows "\<exists>out e'. explore_advance kd rt T cpl_fn sched now ev e = Some (out, e') \<and>
    (ex_running e' \<longleftrightarrow> ex_qry e' \<noteq> None) \<and>
    (\<forall>q. ex_qry e' = Some q \<longrightarrow> explores kd T (ex_self e') (ex_qry_cpl e') q)"
proof -
  from explore_reached_wf [OF assms(1-4)] have wf: "explore_wf kd T e" by simp
  from explore_advance_report [OF assms(1,5,2) wf, of rt sched ev] obtain out e' where
    "explore_advance kd rt T cpl_fn sched now ev e = Some (out, e')" "explore_wf kd T e'"
    "ex_running e' \<longleftrightarrow> ex_qry e' \<noteq> None" by blast
  then show ?thesis by (auto simp: explore_wf_def)
qed

text \<open>
  What the explore machine reports agrees with what it runs. A query runs after an advance exactly
  when it asks for a request or waits, and the report then carries the distance the query explores; a
  wait ends at the earlier of the query's deadline and the earliest deadline of a request.
\<close>

theorem explore_reports_query:
  assumes "kad_node_trie kd T ok" "cpl_fn_ok kd cpl_fn" "explore_schedule sched due_of sched_ok"
    "explore_reached kd rt T cpl_fn sched sched_ok e" "0 < now"
    "explore_advance kd rt T cpl_fn sched now ev e = Some (out, e')"
  shows "explore_report_ok kd T now out e'"
proof -
  from explore_reached_wf [OF assms(1-4)] have wf: "explore_wf kd T e" by simp
  from explore_advance_report [OF assms(1,5,2) wf, of rt sched ev] assms(6) show ?thesis by simp
qed

text \<open>
  A query that ends has its distance cleared before it is reported: whatever distance was
  explored, the report that the query finished or timed out carries the length -1.
\<close>

theorem explore_end_loses_cpl:
  assumes "kad_node_trie kd T ok" "cpl_fn_ok kd cpl_fn" "explore_schedule sched due_of sched_ok"
    "explore_reached kd rt T cpl_fn sched sched_ok e" "0 < now"
    "explore_advance kd rt T cpl_fn sched now ev e = Some (out, e')"
    "out = StateExploreQueryFinished c stats target ns \<or> out = StateExploreQueryTimeout c stats"
  shows "c = -1 \<and> ex_qry e' = None"
proof -
  from explore_reached_wf [OF assms(1-4)] have wf: "explore_wf kd T e" by simp
  from explore_advance_report [OF assms(1,5,2) wf, of rt sched ev] assms(6,7) show ?thesis by auto
qed


end
