(* ===== verification/ExploreWitnesses.thy ===== *)
theory ExploreWitnesses
  imports ExploreTheorems IncludeTheorems
begin

text \<open>
  The properties of the explore machine on the tiny network, with the dynamic schedule and
  \<open>node_with_cpl\<close> as the function that synthesizes nodes.
\<close>

section \<open>Synthesized nodes\<close>

lemma tiny_cpl_xor: "tiny_cpl k (k XOR m) = 8 - int (bit_digits (unat m))"
  by (simp add: tiny_cpl_def flip: xor.assoc)

text \<open>A distance below the key's length is met exactly; a greater one is an error.\<close>

lemma node_with_cpl_cases:
  "node_with_cpl k c = Inr n \<Longrightarrow> 0 \<le> c \<Longrightarrow> tiny_cpl k (tn_key n) = c"
proof -
  assume node: "node_with_cpl k c = Inr n" and "0 \<le> c"
  then have "c \<in> {0..7}" by (auto simp: node_with_cpl_def tiny_kad_def split: if_splits)
  also have "{0..7} = set [0, 1, 2, 3, 4, 5, 6, 7 :: int]" by auto
  finally have c: "c \<in> set [0, 1, 2, 3, 4, 5, 6, 7]" .
  from node have "tn_key n = k XOR push_bit (nat (7 - c)) 1"
    by (auto simp: node_with_cpl_def tiny_kad_def Let_def split: if_splits)
  then have "tiny_cpl k (tn_key n) = 8 - int (bit_digits (unat (push_bit (nat (7 - c)) (1 :: tiny_key))))"
    by (simp only: tiny_cpl_xor)
  also have "list_all (\<lambda>c. 8 - int (bit_digits (unat (push_bit (nat (7 - c)) (1 :: tiny_key)))) = c) [0, 1, 2, 3, 4, 5, 6, 7]"
    by code_simp
  with c have "8 - int (bit_digits (unat (push_bit (nat (7 - c)) (1 :: tiny_key)))) = c" unfolding list_all_iff by blast
  finally show "tiny_cpl k (tn_key n) = c" .
qed

text \<open>The function the tests pass: no random source, so the generator is the unit.\<close>

definition tiny_cpl_fn :: "(tiny_key, tiny_node, unit) cpl_fn" where
  "tiny_cpl_fn k c g = (if c < 0 then Inl (ErrorText ''negative cpl'') else node_with_cpl k c, g)"

lemma tiny_cpl_fn_ok: "cpl_fn_ok tiny_kad tiny_cpl_fn"
  unfolding cpl_fn_ok_def
proof (intro allI impI)
  fix k c g n g' assume "tiny_cpl_fn k c g = (Inr n, g')"
  then have "0 \<le> c" "node_with_cpl k c = Inr n" by (auto simp: tiny_cpl_fn_def split: if_splits)
  then show "key_cpl tiny_kad k (node_key tiny_kad n) = c"
    using node_with_cpl_cases [of k c n] by (simp add: tiny_kad_def)
qed

section \<open>A machine\<close>

type_synonym tiny_explore =
  "(tiny_key, tiny_node, (tiny_key \<times> tiny_node node_status) list, (tiny_key, tiny_node) list_table, dynamic_schedule, unit)
     explore_machine"

definition tiny_explore_new :: tiny_explore where
  "tiny_explore_new = \<lparr>ex_self = new_node 0, ex_rt = tiny_table\<lparr>lt_nodes := [new_node 4]\<rparr>, ex_gen = (), ex_qry = None,
     ex_qry_cpl = -1, ex_cfg = \<lparr>xc_tracer = True, xc_meter = True, xc_timeout = 100, xc_request_concurrency = 1,
     xc_request_timeout = 10\<rparr>, ex_schedule = tiny_schedule, ex_running = False\<rparr>"

abbreviation tiny_explore_advance ::
  "time \<Rightarrow> tiny_node explore_event \<Rightarrow> tiny_explore \<Rightarrow> ((tiny_key, tiny_node) explore_state \<times> tiny_explore) option" where
  "tiny_explore_advance \<equiv> explore_advance tiny_kad tiny_rt tiny_trie tiny_cpl_fn (dynamic_ops (\<lambda>x. x))"

abbreviation tiny_explore_reached :: "tiny_explore \<Rightarrow> bool" where
  "tiny_explore_reached \<equiv> explore_reached tiny_kad tiny_rt tiny_trie tiny_cpl_fn (dynamic_ops (\<lambda>x. x)) dynamic_ok"

definition tiny_explore_asking :: tiny_explore where
  "tiny_explore_asking = snd (the (tiny_explore_advance 3 EventExplorePoll tiny_explore_new))"

definition tiny_explore_ended :: tiny_explore where
  "tiny_explore_ended = snd (the (tiny_explore_advance 4 (EventExploreFindCloserResponse (new_node 4) []) tiny_explore_asking))"

lemmas tiny_schedule_contract = exact.dynamic.explore_schedule_axioms

lemma tiny_schedule_ok: "dynamic_ok tiny_schedule"
  using new_schedule_facts [OF tiny_schedule_new tiny_arguments] by simp

lemma tiny_explore_new_reached: "tiny_explore_reached tiny_explore_new"
proof (rule explore_reached.created)
  show "new_explore (new_node 0) (tiny_table\<lparr>lt_nodes := [new_node 4]\<rparr>) () tiny_schedule (Some (ex_cfg tiny_explore_new)) =
      Inr tiny_explore_new"
    by (simp add: new_explore_def explore_config_validate_def tiny_explore_new_def)
qed (rule tiny_schedule_ok)

lemma tiny_explore_asks:
  "\<exists>s. tiny_explore_advance 3 EventExplorePoll tiny_explore_new =
     Some (StateExploreFindCloser 2 ''explore'' 32 (new_node 4) s, tiny_explore_asking)"
proof -
  have "map_option fst (tiny_explore_advance 3 EventExplorePoll tiny_explore_new) =
     Some (StateExploreFindCloser 2 ''explore'' 32 (new_node 4)
       \<lparr>qs_start = 3, qs_end = 0, qs_requests = 1, qs_success = 0, qs_failure = 0\<rparr>)"
    by code_simp
  then show ?thesis by (auto simp: tiny_explore_asking_def)
qed

lemma tiny_explore_asking_reached: "tiny_explore_reached tiny_explore_asking"
proof -
  obtain s where "tiny_explore_advance 3 EventExplorePoll tiny_explore_new =
     Some (StateExploreFindCloser 2 ''explore'' 32 (new_node 4) s, tiny_explore_asking)" using tiny_explore_asks by blast
  then show ?thesis by (rule explore_reached.advanced [OF tiny_explore_new_reached, rotated]) simp
qed

lemma tiny_explore_ends:
  "\<exists>s. tiny_explore_advance 4 (EventExploreFindCloserResponse (new_node 4) []) tiny_explore_asking =
     Some (StateExploreQueryFinished (-1) s 32 [new_node 4], tiny_explore_ended)"
proof -
  have "map_option fst (tiny_explore_advance 4 (EventExploreFindCloserResponse (new_node 4) []) tiny_explore_asking) =
     Some (StateExploreQueryFinished (-1) \<lparr>qs_start = 3, qs_end = 4, qs_requests = 1, qs_success = 1, qs_failure = 0\<rparr> 32 [new_node 4])"
    by code_simp
  then show ?thesis by (auto simp: tiny_explore_ended_def)
qed

theorem explore_never_panics_witness:
  "\<exists>out e'. tiny_explore_advance 4 EventExplorePoll tiny_explore_asking = Some (out, e')"
  using explore_never_panics [OF tiny_trie_spec tiny_cpl_fn_ok tiny_schedule_contract tiny_explore_asking_reached, of 4 EventExplorePoll]
  by auto

theorem explore_reports_query_witness: "ex_qry_cpl tiny_explore_asking = 2"
proof -
  obtain s where "tiny_explore_advance 3 EventExplorePoll tiny_explore_new =
     Some (StateExploreFindCloser 2 ''explore'' 32 (new_node 4) s, tiny_explore_asking)" using tiny_explore_asks by blast
  from explore_reports_query [OF tiny_trie_spec tiny_cpl_fn_ok tiny_schedule_contract tiny_explore_new_reached _ this]
  show ?thesis by simp
qed

theorem explore_end_loses_cpl_witness: "ex_qry tiny_explore_asking \<noteq> None \<and> ex_qry tiny_explore_ended = None"
proof -
  obtain s where "tiny_explore_advance 4 (EventExploreFindCloserResponse (new_node 4) []) tiny_explore_asking =
     Some (StateExploreQueryFinished (-1) s 32 [new_node 4], tiny_explore_ended)" using tiny_explore_ends by blast
  from explore_end_loses_cpl [OF tiny_trie_spec tiny_cpl_fn_ok tiny_schedule_contract tiny_explore_asking_reached _ this,
      of "-1" s 32 "[new_node 4]"]
  have "ex_qry tiny_explore_ended = None" by simp
  moreover have "ex_qry tiny_explore_asking \<noteq> None" by code_simp
  ultimately show ?thesis by simp
qed


end
