(* ===== verification/PrefixTable.thy ===== *)
theory PrefixTable
  imports Coordt
begin

text \<open>
  \<open>prefix/table.go\<close>: the binary trie whose leaves are regions that tile the keyspace. A
  \<open>bitstr.Key\<close> of \<open>go-libdht\<close> is a string; its method \<open>Bit\<close> is the parameter \<open>pbit\<close>. The nodes of
  the trie are immutable, so a pointer to one is the node itself; where the code compares pointers to
  see whether an observation changed anything, \<open>observe_node\<close> gives \<open>None\<close> for the old pointer. The
  mutex and the atomic root make each operation a single step on the table.
\<close>

section \<open>Configuration\<close>

record prefix_config =
  fc_initial_prefix_len :: int
  fc_min_population :: int
  fc_max_population :: int

definition prefix_config_validate :: "prefix_config \<Rightarrow> go_error option" where
  "prefix_config_validate cfg = first_error ''prefix.Config''
     [(fc_initial_prefix_len cfg < 0, ''initial prefix length must not be negative''),
      (fc_min_population cfg < 0, ''minimum population must not be negative''),
      (fc_max_population cfg \<le> fc_min_population cfg,
       ''maximum population must be greater than minimum population'')]"

definition default_prefix_config :: prefix_config where
  "default_prefix_config = \<lparr>fc_initial_prefix_len = 0, fc_min_population = 10, fc_max_population = 40\<rparr>"

section \<open>Regions and the trie\<close>

record region =
  rg_prefix :: string
  rg_population :: int
  rg_last_surveyed :: time

record region_data =
  rd_population :: int
  rd_last_surveyed :: time

datatype table_node =
    RegionLeaf region_data
  | RegionFork table_node table_node

record prefix_table =
  tb_cfg :: prefix_config
  tb_root :: table_node

definition bit_byte :: "bool \<Rightarrow> char" where
  "bit_byte b = (if b then CHR ''1'' else CHR ''0'')"

definition region_of :: "region_data \<Rightarrow> string \<Rightarrow> region" where
  "region_of d prefix =
     \<lparr>rg_prefix = prefix, rg_population = rd_population d, rg_last_surveyed = rd_last_surveyed d\<rparr>"

fun build_trie :: "nat \<Rightarrow> table_node" where
  "build_trie 0 = RegionLeaf \<lparr>rd_population = 0, rd_last_surveyed = zero_time\<rparr>"
| "build_trie (Suc depth) = RegionFork (build_trie depth) (build_trie depth)"

definition new_table :: "('k, 'n) kad_ops \<Rightarrow> prefix_config option \<Rightarrow> prefix_table go_result" where
  "new_table kd cfg_opt =
     (case (case cfg_opt of None \<Rightarrow> None | Some cfg \<Rightarrow> prefix_config_validate cfg) of
        Some e \<Rightarrow> Inl e
      | None \<Rightarrow>
          (let cfg = (case cfg_opt of None \<Rightarrow> default_prefix_config | Some cfg \<Rightarrow> cfg)
           in if int (key_bit_len kd) < fc_initial_prefix_len cfg
              then Inl (config_error ''prefix.Config'' ''initial prefix length exceeds key length'')
              else Inr \<lparr>tb_cfg = cfg, tb_root = build_trie (nat (fc_initial_prefix_len cfg))\<rparr>))"

section \<open>Reading the table\<close>

fun locate_from :: "('k, 'n) kad_ops \<Rightarrow> 'k \<Rightarrow> table_node \<Rightarrow> nat \<Rightarrow> string \<Rightarrow> region" where
  "locate_from kd key (RegionLeaf d) depth prefix = region_of d prefix"
| "locate_from kd key (RegionFork l r) depth prefix =
     (let b = key_bit kd key depth
      in locate_from kd key (if b then r else l) (depth + 1) (prefix @ [bit_byte b]))"

definition locate :: "('k, 'n) kad_ops \<Rightarrow> 'k \<Rightarrow> prefix_table \<Rightarrow> region" where
  "locate kd key t = locate_from kd key (tb_root t) 0 ''''"

fun walk_regions :: "table_node \<Rightarrow> string \<Rightarrow> region list" where
  "walk_regions (RegionLeaf d) prefix = [region_of d prefix]"
| "walk_regions (RegionFork l r) prefix = walk_regions l (prefix @ ''0'') @ walk_regions r (prefix @ ''1'')"

definition table_regions :: "prefix_table \<Rightarrow> region list" where
  "table_regions t = walk_regions (tb_root t) ''''"

fun walk_prefixes :: "table_node \<Rightarrow> string \<Rightarrow> string list" where
  "walk_prefixes (RegionLeaf d) prefix = [prefix]"
| "walk_prefixes (RegionFork l r) prefix = walk_prefixes l (prefix @ ''0'') @ walk_prefixes r (prefix @ ''1'')"

definition leaf_prefixes :: "table_node \<Rightarrow> string list" where
  "leaf_prefixes n = walk_prefixes n ''''"

definition diff_prefixes :: "string list \<Rightarrow> string list \<Rightarrow> string list \<times> string list" where
  "diff_prefixes old nxt = (filter (\<lambda>p. p \<notin> set nxt) old, filter (\<lambda>p. p \<notin> set old) nxt)"

section \<open>Observing a survey\<close>

function build_leaf ::
  "('k, 'n) kad_ops \<Rightarrow> prefix_config \<Rightarrow> 'k list \<Rightarrow> nat \<Rightarrow> time \<Rightarrow> table_node" where
  "build_leaf kd cfg members depth now =
     (if int (length members) \<le> fc_max_population cfg \<or> key_bit_len kd \<le> depth
      then RegionLeaf \<lparr>rd_population = int (length members), rd_last_surveyed = now\<rparr>
      else RegionFork
        (build_leaf kd cfg (filter (\<lambda>m. \<not> key_bit kd m depth) members) (depth + 1) now)
        (build_leaf kd cfg (filter (\<lambda>m. key_bit kd m depth) members) (depth + 1) now))"
  by pat_completeness auto
termination
  by (relation "measure (\<lambda>(kd, cfg, members, depth, now). key_bit_len kd - depth)") auto

declare build_leaf.simps [simp del]

fun sparse_surveyed_leaf :: "prefix_config \<Rightarrow> table_node \<Rightarrow> region_data option" where
  "sparse_surveyed_leaf cfg (RegionFork l r) = None"
| "sparse_surveyed_leaf cfg (RegionLeaf d) =
     (if is_zero (rd_last_surveyed d) then None
      else if fc_min_population cfg < rd_population d then None
      else Some d)"

text \<open>The fork above a changed child, merged into a leaf when both children are sparse.\<close>

definition join_children :: "prefix_config \<Rightarrow> bool \<Rightarrow> table_node \<Rightarrow> table_node \<Rightarrow> table_node" where
  "join_children cfg b new_child other =
     (case (sparse_surveyed_leaf cfg new_child, sparse_surveyed_leaf cfg other) of
        (Some l1, Some l2) \<Rightarrow>
          RegionLeaf \<lparr>rd_population = rd_population l1 + rd_population l2,
            rd_last_surveyed = earlier_time (rd_last_surveyed l1) (rd_last_surveyed l2)\<rparr>
      | _ \<Rightarrow> if b then RegionFork other new_child else RegionFork new_child other)"

fun observe_node ::
  "('k, 'n) kad_ops \<Rightarrow> (string \<Rightarrow> nat \<Rightarrow> bool) \<Rightarrow> prefix_config \<Rightarrow> table_node \<Rightarrow> string \<Rightarrow> nat \<Rightarrow> 'k list \<Rightarrow> time \<Rightarrow>
     table_node option" where
  "observe_node kd pbit cfg (RegionLeaf d) prefix depth members now =
     (if depth \<noteq> length prefix then None else Some (build_leaf kd cfg members depth now))"
| "observe_node kd pbit cfg (RegionFork l r) prefix depth members now =
     (if depth = length prefix then None
      else (let b = pbit prefix depth
            in map_option (\<lambda>new_child. join_children cfg b new_child (if b then l else r))
                 (observe_node kd pbit cfg (if b then r else l) prefix (depth + 1) members now)))"

definition observe ::
  "('k, 'n) kad_ops \<Rightarrow> (string \<Rightarrow> nat \<Rightarrow> bool) \<Rightarrow> string \<Rightarrow> 'k list \<Rightarrow> time \<Rightarrow> prefix_table \<Rightarrow>
     (string list \<times> string list) \<times> prefix_table" where
  "observe kd pbit prefix members now t =
     (case observe_node kd pbit (tb_cfg t) (tb_root t) prefix 0 members now of
        None \<Rightarrow> (([], []), t)
      | Some nxt \<Rightarrow>
          (diff_prefixes (leaf_prefixes (tb_root t)) (leaf_prefixes nxt), t\<lparr>tb_root := nxt\<rparr>))"

end
