(* ===== verification/PrefixTableTheorems.thy ===== *)
theory PrefixTableTheorems
  imports PrefixTable "HOL-Library.Sublist"
begin

text \<open>
  The regions of a prefix table tile the keyspace, whatever is observed; a lookup finds the region a
  key falls in; an observation replaces the regions it reports and no others; and the populations add
  up.
\<close>

section \<open>Keys and prefixes\<close>

text \<open>What the code relies on of \<open>bitstr.Key\<close>: its bits are its characters.\<close>

definition bitstr_bits :: "(string \<Rightarrow> nat \<Rightarrow> bool) \<Rightarrow> bool" where
  "bitstr_bits pbit \<longleftrightarrow> (\<forall>p i. i < length p \<longrightarrow> pbit p i = (p ! i = CHR ''1''))"

definition bit_string :: "string \<Rightarrow> bool" where
  "bit_string p \<longleftrightarrow> set p \<subseteq> {CHR ''0'', CHR ''1''}"

text \<open>The leading bits of the key are the prefix.\<close>

definition carries :: "('k, 'n) kad_ops \<Rightarrow> 'k \<Rightarrow> string \<Rightarrow> bool" where
  "carries kd key p \<longleftrightarrow> (\<forall>i < length p. key_bit kd key i = (p ! i = CHR ''1''))"

lemma carries_Nil [simp]: "carries kd key []"
  by (simp add: carries_def)

lemma carries_snoc [simp]:
  "carries kd key (p @ [c]) \<longleftrightarrow> carries kd key p \<and> key_bit kd key (length p) = (c = CHR ''1'')"
  by (auto simp: carries_def nth_append less_Suc_eq)

lemma bit_byte_simps [simp]: "bit_byte True = CHR ''1''" "bit_byte False = CHR ''0''"
  by (simp_all add: bit_byte_def)

lemma walk_prefixes_regions: "walk_prefixes n p = map rg_prefix (walk_regions n p)"
  by (induction n arbitrary: p) (simp_all add: region_of_def)

lemma leaf_prefixes_regions: "leaf_prefixes (tb_root t) = map rg_prefix (table_regions t)"
  by (simp add: leaf_prefixes_def table_regions_def walk_prefixes_regions)

section \<open>The leaves are a complete prefix code\<close>

lemma walk_prefix: "x \<in> set (walk_prefixes n p) \<Longrightarrow> prefix p x"
  by (induction n arbitrary: p) (auto dest: append_prefixD)

lemma walk_nonempty: "walk_prefixes n p \<noteq> []"
  by (induction n arbitrary: p) auto

text \<open>Two strings, one of which is a prefix of the other.\<close>

definition related :: "string \<Rightarrow> string \<Rightarrow> bool" where
  "related a b \<longleftrightarrow> prefix a b \<or> prefix b a"

lemma related_refl [simp]: "related a a"
  by (simp add: related_def)

lemma related_commute: "related a b \<longleftrightarrow> related b a"
  by (auto simp: related_def)

lemma related_extend: "prefix a x \<Longrightarrow> prefix b y \<Longrightarrow> related x y \<Longrightarrow> related a b"
  by (meson related_def prefix_order.trans prefix_same_cases)

lemma related_snoc: "related (p @ [c]) (p @ [d]) \<longleftrightarrow> c = d"
  by (auto simp: related_def)

lemma walk_prefix_free:
  "x \<in> set (walk_prefixes n p) \<Longrightarrow> y \<in> set (walk_prefixes n p) \<Longrightarrow> related x y \<Longrightarrow> x = y"
proof (induction n arbitrary: p)
  case (RegionFork l r)
  have cross: "\<not> related u v" if "u \<in> set (walk_prefixes l (p @ ''0''))" "v \<in> set (walk_prefixes r (p @ ''1''))" for u v
    using related_extend [OF walk_prefix [OF that(1)] walk_prefix [OF that(2)]] by (auto simp: related_snoc)
  have "\<not> related v u" if "u \<in> set (walk_prefixes l (p @ ''0''))" "v \<in> set (walk_prefixes r (p @ ''1''))" for u v
    using cross [OF that] related_commute by blast
  with RegionFork.prems RegionFork.IH cross show ?case by (simp only: walk_prefixes.simps set_append) blast
qed simp

lemma walk_distinct: "distinct (walk_prefixes n p)"
proof (induction n arbitrary: p)
  case (RegionFork l r)
  have "set (walk_prefixes l (p @ ''0'')) \<inter> set (walk_prefixes r (p @ ''1'')) = {}"
  proof (rule equals0I)
    fix x assume "x \<in> set (walk_prefixes l (p @ ''0'')) \<inter> set (walk_prefixes r (p @ ''1''))"
    then have "prefix (p @ ''0'') x" "prefix (p @ ''1'') x" using walk_prefix by blast+
    from related_extend [OF this related_refl] show False by (simp add: related_snoc)
  qed
  with RegionFork.IH show ?case by simp
qed simp

lemma walk_complete:
  "prefix p a \<Longrightarrow> bit_string a \<Longrightarrow> \<exists>x \<in> set (walk_prefixes n p). related x a"
proof (induction n arbitrary: p)
  case (RegionLeaf d)
  then show ?case by (simp add: related_def)
next
  case (RegionFork l r)
  show ?case
  proof (cases "a = p")
    case True
    obtain x where x: "x \<in> set (walk_prefixes l (p @ ''0''))" using walk_nonempty by (metis last_in_set)
    with walk_prefix [OF x] True show ?thesis by (auto simp: related_def dest: append_prefixD)
  next
    case False
    with RegionFork.prems(1) obtain c as where a: "a = p @ c # as"
      unfolding prefix_def by (metis append_Nil2 neq_Nil_conv)
    with RegionFork.prems(2) have "c = CHR ''0'' \<or> c = CHR ''1''" by (auto simp: bit_string_def)
    with a RegionFork.IH(1) [of "p @ ''0''"] RegionFork.IH(2) [of "p @ ''1''"] RegionFork.prems(2)
    show ?thesis by auto
  qed
qed

lemma bit_string_snoc [simp]: "bit_string (p @ [c]) \<longleftrightarrow> bit_string p \<and> (c = CHR ''0'' \<or> c = CHR ''1'')"
  by (auto simp: bit_string_def)

lemma walk_bit_string: "bit_string p \<Longrightarrow> x \<in> set (walk_prefixes n p) \<Longrightarrow> bit_string x"
proof (induction n arbitrary: p)
  case (RegionFork l r)
  from RegionFork.prems(2) RegionFork.IH(1) [of "p @ ''0''"] RegionFork.IH(2) [of "p @ ''1''"] RegionFork.prems(1)
  show ?case by auto
qed simp


section \<open>Lookups\<close>

lemma locate_filter:
  "filter (\<lambda>r. carries kd key (rg_prefix r)) (walk_regions n p) =
     (if carries kd key p then [locate_from kd key n (length p) p] else [])"
  by (induction n arbitrary: p) (simp_all add: region_of_def)


section \<open>Observations\<close>

text \<open>Following the surveyed prefix one bit down.\<close>

lemma prefix_next:
  assumes "prefix p q" "p \<noteq> q" "bit_string q" "bitstr_bits pbit"
  obtains (bit) b where "pbit q (length p) = b" "prefix (p @ [bit_byte b]) q"
proof -
  from assms(1,2) obtain c qs where q: "q = p @ c # qs" unfolding prefix_def by (metis append_Nil2 neq_Nil_conv)
  with assms(3) have c: "c = CHR ''0'' \<or> c = CHR ''1''" by (auto simp: bit_string_def)
  from q assms(4) have "pbit q (length p) = (c = CHR ''1'')" by (simp add: bitstr_bits_def)
  moreover from q c have "prefix (p @ [bit_byte (c = CHR ''1'')]) q" by auto
  ultimately show thesis by (rule bit)
qed

lemma walk_fork_child:
  "prefix (p @ [bit_byte b]) q \<Longrightarrow>
     q \<in> set (walk_prefixes (RegionFork l r) p) \<longleftrightarrow> q \<in> set (walk_prefixes (if b then r else l) (p @ [bit_byte b]))"
  using walk_prefix [of q l "p @ ''0''"] walk_prefix [of q r "p @ ''1''"]
    related_extend [of "p @ ''0''" q "p @ ''1''" q] by (auto simp: related_snoc)

lemma prefix_length_eq: "prefix p q \<Longrightarrow> length p = length q \<longleftrightarrow> p = q"
  by (auto simp: prefix_def)

lemma walk_fork_self: "p \<notin> set (walk_prefixes (RegionFork l r) p)"
  using walk_prefix [of p l "p @ ''0''"] walk_prefix [of p r "p @ ''1''"] by (auto dest: prefix_length_le)

lemma observe_None_iff:
  assumes "bitstr_bits pbit" "bit_string q" "prefix p q"
  shows "observe_node kd pbit cfg n q (length p) ms now = None \<longleftrightarrow> q \<notin> set (walk_prefixes n p)"
  using assms(3)
proof (induction n arbitrary: p)
  case (RegionLeaf d)
  then show ?case by (auto simp: prefix_length_eq)
next
  case (RegionFork l r)
  show ?case
  proof (cases "p = q")
    case True
    then show ?thesis using walk_fork_self by (auto simp del: walk_prefixes.simps)
  next
    case False
    from prefix_next [OF RegionFork.prems False assms(2,1)] obtain b
      where b: "pbit q (length p) = b" "prefix (p @ [bit_byte b]) q" by metis
    from RegionFork.IH(1) [of "p @ ''0''"] RegionFork.IH(2) [of "p @ ''1''"] b
    have "observe_node kd pbit cfg (if b then r else l) q (length p + 1) ms now = None \<longleftrightarrow>
        q \<notin> set (walk_prefixes (if b then r else l) (p @ [bit_byte b]))" by (cases b) simp_all
    with False b RegionFork.prems show ?thesis
      using walk_fork_child [OF b(2)] by (simp add: prefix_length_eq del: walk_prefixes.simps)
  qed
qed

text \<open>Induction along the path to the surveyed region, which is what \<open>observeNode\<close> rebuilds.\<close>

lemma observe_Some_induct [consumes 4, case_names leaf fork]:
  assumes "bitstr_bits pbit" "bit_string q" "prefix p q" "observe_node kd pbit cfg n q (length p) ms now = Some n'"
    and leaf: "\<And>d. P q (RegionLeaf d) (build_leaf kd cfg ms (length q) now)"
    and fork: "\<And>p b l r new. prefix (p @ [bit_byte b]) q \<Longrightarrow> P (p @ [bit_byte b]) (if b then r else l) new \<Longrightarrow>
      P p (RegionFork l r) (join_children cfg b new (if b then l else r))"
  shows "P p n n'"
  using assms(3,4)
proof (induction n arbitrary: p n')
  case (RegionLeaf d)
  with leaf show ?case by (auto simp: prefix_length_eq split: if_splits)
next
  case (RegionFork l r)
  then have "p \<noteq> q" by auto
  from prefix_next [OF RegionFork.prems(1) this assms(2,1)] obtain b
    where b: "pbit q (length p) = b" "prefix (p @ [bit_byte b]) q" by metis
  from RegionFork.prems \<open>p \<noteq> q\<close> b obtain new where
    new: "observe_node kd pbit cfg (if b then r else l) q (length (p @ [bit_byte b])) ms now = Some new"
      "n' = join_children cfg b new (if b then l else r)" by (auto simp: prefix_length_eq)
  have "P (p @ [bit_byte b]) (if b then r else l) new"
    using RegionFork.IH(1) [OF b(2)] RegionFork.IH(2) [OF b(2)] new(1) by (cases b) simp_all
  from fork [OF b(2) this] new(2) show ?case by simp
qed

lemma sparse_SomeD: "sparse_surveyed_leaf cfg n = Some d \<Longrightarrow> n = RegionLeaf d \<and> rd_population d \<le> fc_min_population cfg"
  by (cases n) (auto split: if_splits)

lemma join_cases:
  obtains (merged) l1 l2 where "new = RegionLeaf l1" "other = RegionLeaf l2"
      "rd_population l1 \<le> fc_min_population cfg" "rd_population l2 \<le> fc_min_population cfg"
      "join_children cfg b new other = RegionLeaf \<lparr>rd_population = rd_population l1 + rd_population l2,
        rd_last_surveyed = earlier_time (rd_last_surveyed l1) (rd_last_surveyed l2)\<rparr>"
  | (forked) "join_children cfg b new other = (if b then RegionFork other new else RegionFork new other)"
proof (cases "sparse_surveyed_leaf cfg new")
  case None
  then show thesis by (intro forked) (simp add: join_children_def)
next
  case new: (Some l1)
  show thesis
  proof (cases "sparse_surveyed_leaf cfg other")
    case None
    with new show thesis by (intro forked) (simp add: join_children_def)
  next
    case (Some l2)
    have "join_children cfg b new other = RegionLeaf \<lparr>rd_population = rd_population l1 + rd_population l2,
        rd_last_surveyed = earlier_time (rd_last_surveyed l1) (rd_last_surveyed l2)\<rparr>"
      by (simp add: join_children_def new Some)
    with sparse_SomeD [OF new] sparse_SomeD [OF Some] show thesis by (intro merged) blast+
  qed
qed

text \<open>The regions away from the surveyed one stay as they are.\<close>

lemma observe_keeps_others:
  assumes "bitstr_bits pbit" "bit_string q" "prefix p q" "observe_node kd pbit cfg n q (length p) ms now = Some n'"
  shows "x \<in> set (walk_regions n' p) \<Longrightarrow> x \<in> set (walk_regions n p) \<or> related q (rg_prefix x)"
  using assms
proof (induction rule: observe_Some_induct)
  case (leaf d)
  have "rg_prefix x \<in> set (walk_prefixes (build_leaf kd cfg ms (length q) now) q)"
    using leaf by (auto simp: walk_prefixes_regions)
  from walk_prefix [OF this] show ?case by (simp add: related_def)
next
  case (fork p b l r new)
  have "prefix p q" using fork(1) by (auto dest: append_prefixD)
  show ?case
  proof (cases rule: join_cases [of new "if b then l else r" cfg b])
    case merged
    with fork.prems \<open>prefix p q\<close> show ?thesis by (auto simp: region_of_def related_def)
  next
    case forked
    with fork show ?thesis by (cases b) auto
  qed
qed

section \<open>Populations\<close>

fun node_population :: "table_node \<Rightarrow> int" where
  "node_population (RegionLeaf d) = rd_population d"
| "node_population (RegionFork l r) = node_population l + node_population r"

lemma node_population_walk: "sum_list (map rg_population (walk_regions n p)) = node_population n"
  by (induction n arbitrary: p) (simp_all add: region_of_def)

lemma build_leaf_population: "node_population (build_leaf kd cfg ms d now) = int (length ms)"
proof (induction kd cfg ms d now rule: build_leaf.induct)
  case (1 kd cfg ms d now)
  have "length (filter (\<lambda>m. \<not> key_bit kd m d) ms) + length (filter (\<lambda>m. key_bit kd m d) ms) = length ms"
    using sum_length_filter_compl [of "\<lambda>m. key_bit kd m d" ms] by simp
  with 1 show ?case by (subst build_leaf.simps) auto
qed

lemma observe_population_change:
  assumes "bitstr_bits pbit" "bit_string q" "prefix p q" "observe_node kd pbit cfg n q (length p) ms now = Some n'"
  shows "\<exists>x \<in> set (walk_regions n p). rg_prefix x = q \<and>
    node_population n' + rg_population x = node_population n + int (length ms)"
  using assms
proof (induction rule: observe_Some_induct)
  case (leaf d)
  then show ?case by (simp add: build_leaf_population region_of_def)
next
  case (fork p b l r new)
  have join: "node_population (join_children cfg b new (if b then l else r)) =
      node_population new + node_population (if b then l else r)"
    by (cases rule: join_cases [of new "if b then l else r" cfg b]) auto
  from fork obtain x where "x \<in> set (walk_regions (if b then r else l) (p @ [bit_byte b]))" "rg_prefix x = q"
    "node_population new + rg_population x = node_population (if b then r else l) + int (length ms)" by blast
  with join show ?case by (intro bexI [of _ x]) (cases b; simp)+
qed

text \<open>What a survey finds is counted in the region it falls in.\<close>

lemma build_leaf_counts:
  "x \<in> set (walk_regions (build_leaf kd cfg ms (length p) now) p) \<Longrightarrow> \<forall>m \<in> set ms. carries kd m p \<Longrightarrow>
     rg_population x = count_of (\<lambda>m. carries kd m (rg_prefix x)) ms \<and> rg_last_surveyed x = now"
proof (induction kd cfg ms "length p" now arbitrary: p rule: build_leaf.induct)
  case (1 kd cfg ms now p)
  show ?case
  proof (cases "int (length ms) \<le> fc_max_population cfg \<or> key_bit_len kd \<le> length p")
    case True
    have "filter (\<lambda>m. carries kd m p) ms = ms" using 1(4) by (auto simp: filter_id_conv)
    with True 1(3) show ?thesis by (simp add: build_leaf.simps [of kd cfg ms] region_of_def count_of_def)
  next
    case False
    let ?ms = "\<lambda>b. filter (\<lambda>m. key_bit kd m (length p) = b) ms"
    have "build_leaf kd cfg ms (length p) now = RegionFork (build_leaf kd cfg (?ms False) (length p + 1) now)
        (build_leaf kd cfg (?ms True) (length p + 1) now)"
      using False by (simp add: build_leaf.simps [of kd cfg ms])
    with 1(3) have "x \<in> set (walk_regions (build_leaf kd cfg (?ms False) (length p + 1) now) (p @ [bit_byte False])) \<or>
        x \<in> set (walk_regions (build_leaf kd cfg (?ms True) (length p + 1) now) (p @ [bit_byte True]))" by simp
    then obtain b where x: "x \<in> set (walk_regions (build_leaf kd cfg (?ms b) (length p + 1) now) (p @ [bit_byte b]))"
      by blast
    have "rg_population x = count_of (\<lambda>m. carries kd m (rg_prefix x)) (?ms b) \<and> rg_last_surveyed x = now"
      using 1(1) [OF False, of "p @ [bit_byte b]"] 1(2) [OF False, of "p @ [bit_byte b]"] x 1(4)
      by (cases b) auto
    moreover have "rg_prefix x \<in> set (walk_prefixes (build_leaf kd cfg (?ms b) (length p + 1) now) (p @ [bit_byte b]))"
      using x by (simp add: walk_prefixes_regions)
    from walk_prefix [OF this] obtain ys where ys: "rg_prefix x = (p @ [bit_byte b]) @ ys" by (auto simp: prefix_def)
    have "count_of (\<lambda>m. carries kd m (rg_prefix x)) (?ms b) = count_of (\<lambda>m. carries kd m (rg_prefix x)) ms"
    proof -
      have "key_bit kd m (length p) = b" if "carries kd m (rg_prefix x)" for m
        using that by (cases b) (auto simp: ys carries_def nth_append dest: spec [of _ "length p"])
      then show ?thesis by (auto simp: count_of_def intro: arg_cong [where f = length] filter_cong)
    qed
    ultimately show ?thesis by simp
  qed
qed

lemma observe_counts:
  assumes "bitstr_bits pbit" "bit_string q" "prefix p q" "observe_node kd pbit cfg n q (length p) ms now = Some n'"
    and members: "\<forall>m \<in> set ms. carries kd m q"
  shows "x \<in> set (walk_regions n' p) \<Longrightarrow> strict_prefix q (rg_prefix x) \<Longrightarrow>
    rg_population x = count_of (\<lambda>m. carries kd m (rg_prefix x)) ms \<and> rg_last_surveyed x = now"
  using assms(1-4)
proof (induction rule: observe_Some_induct)
  case (leaf d)
  from build_leaf_counts [OF leaf(1) members] show ?case .
next
  case (fork p b l r new)
  have away: "x \<notin> set (walk_regions n (p @ [bit_byte (\<not> b)]))" for n
  proof
    assume "x \<in> set (walk_regions n (p @ [bit_byte (\<not> b)]))"
    then have "prefix (p @ [bit_byte (\<not> b)]) (rg_prefix x)" using walk_prefix by (force simp: walk_prefixes_regions)
    from related_extend [OF this fork(1)] fork(4) show False by (cases b) (simp_all add: related_def strict_prefix_def)
  qed
  show ?case
  proof (cases rule: join_cases [of new "if b then l else r" cfg b])
    case merged
    have "prefix p q" using fork(1) by (auto dest: append_prefixD)
    with merged fork(3,4) show ?thesis by (auto simp: region_of_def strict_prefix_def dest: prefix_order.antisym)
  next
    case forked
    with fork(2-4) away [of l] away [of r] show ?thesis by (cases b) auto
  qed
qed

text \<open>Depth and size of the regions.\<close>

fun node_ok :: "('k, 'n) kad_ops \<Rightarrow> prefix_config \<Rightarrow> table_node \<Rightarrow> nat \<Rightarrow> bool" where
  "node_ok kd cfg (RegionLeaf d) depth \<longleftrightarrow> depth \<le> key_bit_len kd \<and> 0 \<le> rd_population d \<and>
     (2 * fc_min_population cfg \<le> fc_max_population cfg \<longrightarrow>
       rd_population d \<le> fc_max_population cfg \<or> depth = key_bit_len kd)"
| "node_ok kd cfg (RegionFork l r) depth \<longleftrightarrow> node_ok kd cfg l (depth + 1) \<and> node_ok kd cfg r (depth + 1)"

lemma node_ok_depth: "node_ok kd cfg n d \<Longrightarrow> d \<le> key_bit_len kd"
  by (induction n arbitrary: d) fastforce+

lemma build_trie_ok: "n + d \<le> key_bit_len kd \<Longrightarrow> 0 \<le> fc_max_population cfg \<Longrightarrow> node_ok kd cfg (build_trie n) d"
  by (induction n arbitrary: d) auto

lemma build_leaf_ok: "d \<le> key_bit_len kd \<Longrightarrow> node_ok kd cfg (build_leaf kd cfg ms d now) d"
proof (induction kd cfg ms d now rule: build_leaf.induct)
  case (1 kd cfg ms d now)
  then show ?case by (subst build_leaf.simps) auto
qed

lemma observe_node_ok:
  "observe_node kd pbit cfg n q d ms now = Some n' \<Longrightarrow> node_ok kd cfg n d \<Longrightarrow> node_ok kd cfg n' d"
proof (induction n arbitrary: d n')
  case (RegionLeaf r)
  then show ?case by (auto simp: build_leaf_ok split: if_splits)
next
  case (RegionFork l r)
  define b where "b = pbit q d"
  from RegionFork.prems(1) obtain new where new: "n' = join_children cfg b new (if b then l else r)"
    "observe_node kd pbit cfg (if b then r else l) q (d + 1) ms now = Some new"
    unfolding observe_node.simps Let_def b_def [symmetric] by (cases "d = length q") auto
  with RegionFork.IH RegionFork.prems(2) have ok: "node_ok kd cfg new (d + 1)" "node_ok kd cfg (if b then l else r) (d + 1)"
    by (cases b; simp)+
  show ?case
  proof (cases rule: join_cases [of new "if b then l else r" cfg b])
    case (merged l1 l2)
    with ok new show ?thesis by auto
  next
    case forked
    with ok new show ?thesis by (cases b) auto
  qed
qed

lemma node_ok_regions:
  "node_ok kd cfg n (length p) \<Longrightarrow> x \<in> set (walk_regions n p) \<Longrightarrow>
     length (rg_prefix x) \<le> key_bit_len kd \<and> 0 \<le> rg_population x \<and>
     (2 * fc_min_population cfg \<le> fc_max_population cfg \<longrightarrow>
       rg_population x \<le> fc_max_population cfg \<or> length (rg_prefix x) = key_bit_len kd)"
proof (induction n arbitrary: p)
  case (RegionFork l r)
  from RegionFork.prems RegionFork.IH(1) [of "p @ ''0''"] RegionFork.IH(2) [of "p @ ''1''"] show ?case by auto
qed (auto simp: region_of_def)

section \<open>Reachable tables\<close>

inductive table_reached :: "('k, 'n) kad_ops \<Rightarrow> (string \<Rightarrow> nat \<Rightarrow> bool) \<Rightarrow> prefix_table \<Rightarrow> bool" for kd pbit where
  created: "new_table kd cfg = Inr t \<Longrightarrow> table_reached kd pbit t"
| observed: "table_reached kd pbit t \<Longrightarrow> observe kd pbit q ms now t = (change, t') \<Longrightarrow> table_reached kd pbit t'"

lemma new_table_ok: "new_table kd cfg_opt = Inr t \<Longrightarrow> node_ok kd (tb_cfg t) (tb_root t) 0"
  by (auto simp: new_table_def Let_def prefix_config_validate_def default_prefix_config_def
      split: option.splits if_splits intro!: build_trie_ok)

lemma table_reached_ok: "table_reached kd pbit t \<Longrightarrow> node_ok kd (tb_cfg t) (tb_root t) 0"
  by (induction rule: table_reached.induct)
    (auto simp: new_table_ok observe_def observe_node_ok split: option.splits)

lemma observe_cases:
  assumes "observe kd pbit q ms now t = ((removed, added), t')"
  obtains (ignored) "observe_node kd pbit (tb_cfg t) (tb_root t) q 0 ms now = None" "t' = t" "removed = []" "added = []"
  | (changed) nxt where "observe_node kd pbit (tb_cfg t) (tb_root t) q 0 ms now = Some nxt" "t' = t\<lparr>tb_root := nxt\<rparr>"
      "removed = filter (\<lambda>p. p \<notin> set (leaf_prefixes nxt)) (leaf_prefixes (tb_root t))"
      "added = filter (\<lambda>p. p \<notin> set (leaf_prefixes (tb_root t))) (leaf_prefixes nxt)"
  using assms by (auto simp: observe_def diff_prefixes_def split: option.splits)

lemma table_prefixes_distinct: "distinct (map rg_prefix (table_regions t))"
  by (simp add: leaf_prefixes_regions [symmetric] leaf_prefixes_def walk_distinct)

lemma observe_change:
  assumes "bitstr_bits pbit" "bit_string q" "observe kd pbit q ms now t = ((removed, added), t')"
  shows "(q \<notin> set (map rg_prefix (table_regions t)) \<longrightarrow> t' = t \<and> removed = [] \<and> added = []) \<and>
    set removed \<subseteq> set (map rg_prefix (table_regions t)) \<and> set added \<inter> set (map rg_prefix (table_regions t)) = {} \<and>
    set (map rg_prefix (table_regions t')) = set (map rg_prefix (table_regions t)) - set removed \<union> set added \<and>
    distinct removed \<and> distinct added \<and> (\<forall>a \<in> set added. \<exists>r \<in> set removed. related a r) \<and>
    (\<forall>x \<in> set (table_regions t'). \<not> related q (rg_prefix x) \<longrightarrow> x \<in> set (table_regions t))"
  using assms(3)
proof (cases rule: observe_cases)
  case ignored
  then show ?thesis by simp
next
  case (changed nxt)
  let ?old = "leaf_prefixes (tb_root t)" and ?new = "leaf_prefixes nxt"
  have regions: "map rg_prefix (table_regions t) = ?old" "map rg_prefix (table_regions t') = ?new"
    using changed(2) by (simp_all add: leaf_prefixes_regions [symmetric])
  have leaf: "q \<in> set ?old"
    using observe_None_iff [OF assms(1,2), of "[]" kd "tb_cfg t" "tb_root t" ms now] changed(1) by (auto simp: leaf_prefixes_def)
  have "\<exists>r \<in> set removed. related a r" if a: "a \<in> set added" for a
  proof -
    from a changed(4) have new: "a \<in> set ?new" "a \<notin> set ?old" by auto
    have "bit_string a" using new(1) walk_bit_string [of "[]"] by (simp add: leaf_prefixes_def bit_string_def)
    from walk_complete [OF Nil_prefix this, of "tb_root t"] obtain r where r: "r \<in> set ?old" "related r a"
      by (auto simp: leaf_prefixes_def)
    moreover from r new have "r \<notin> set ?new"
      using walk_prefix_free [of r nxt "[]" a] by (auto simp: leaf_prefixes_def)
    ultimately show ?thesis using changed(3) related_commute by auto
  qed
  moreover have "\<forall>x \<in> set (table_regions t'). \<not> related q (rg_prefix x) \<longrightarrow> x \<in> set (table_regions t)"
    using observe_keeps_others [OF assms(1,2) Nil_prefix, of kd "tb_cfg t" "tb_root t" ms now nxt] changed(1,2)
    by (auto simp: table_regions_def)
  moreover have "distinct ?old" "distinct ?new" by (simp_all add: leaf_prefixes_def walk_distinct)
  ultimately show ?thesis using leaf by (simp only: regions) (auto simp: changed(3,4))
qed

section \<open>The properties\<close>

text \<open>
  C17: the regions tile the keyspace. Of the regions listed, the key falls in exactly one, and that is
  the one a lookup by the key's bits returns.
\<close>

theorem locate_is_region:
  "filter (\<lambda>r. carries kd key (rg_prefix r)) (table_regions t) = [locate kd key t] \<and>
     distinct (map rg_prefix (table_regions t))"
  using locate_filter [of kd key "tb_root t" "[]"] table_prefixes_distinct
  by (simp add: table_regions_def locate_def)

text \<open>
  An observation of a region that is no longer a leaf changes nothing; otherwise the prefixes it
  reports as removed and added are exactly the difference between the regions before and after, each
  added one covers or is covered by a removed one, and every region that is neither above nor below
  the surveyed one is as it was.
\<close>

theorem observe_replaces:
  assumes "bitstr_bits pbit" "bit_string q" "observe kd pbit q ms now t = ((removed, added), t')"
  shows "(q \<notin> set (map rg_prefix (table_regions t)) \<longrightarrow> t' = t \<and> removed = [] \<and> added = []) \<and>
    set removed \<subseteq> set (map rg_prefix (table_regions t)) \<and> set added \<inter> set (map rg_prefix (table_regions t)) = {} \<and>
    set (map rg_prefix (table_regions t')) = set (map rg_prefix (table_regions t)) - set removed \<union> set added \<and>
    distinct removed \<and> distinct added \<and> (\<forall>a \<in> set added. \<exists>r \<in> set removed. related a r) \<and>
    (\<forall>x \<in> set (table_regions t'). \<not> related q (rg_prefix x) \<longrightarrow> x \<in> set (table_regions t))"
  by (rule observe_change [OF assms])

text \<open>
  C18: populations add up. An observation replaces the count of the surveyed region by the number of
  nodes found, whatever is split or merged; a region split off the surveyed one counts the nodes found
  that fall in it; no region's prefix is longer than a key; and when the
  threshold for a split is at least twice the threshold for a merge, no region ever holds more nodes
  than the threshold for a split unless its prefix is a whole key.
\<close>

theorem observe_populations:
  assumes "table_reached kd pbit t" "bitstr_bits pbit" "bit_string q"
    "x \<in> set (table_regions t)" "rg_prefix x = q" "observe kd pbit q ms now t = (change, t')"
  shows "sum_list (map rg_population (table_regions t')) =
      sum_list (map rg_population (table_regions t)) - rg_population x + int (length ms) \<and>
    ((\<forall>m \<in> set ms. carries kd m q) \<longrightarrow> (\<forall>r \<in> set (table_regions t'). strict_prefix q (rg_prefix r) \<longrightarrow>
      rg_population r = count_of (\<lambda>m. carries kd m (rg_prefix r)) ms \<and> rg_last_surveyed r = now)) \<and>
    (\<forall>r \<in> set (table_regions t'). length (rg_prefix r) \<le> key_bit_len kd \<and> 0 \<le> rg_population r \<and>
      (2 * fc_min_population (tb_cfg t) \<le> fc_max_population (tb_cfg t) \<longrightarrow>
        rg_population r \<le> fc_max_population (tb_cfg t) \<or> length (rg_prefix r) = key_bit_len kd))"
proof -
  obtain removed added where ch: "change = (removed, added)" by fastforce
  from assms(4,5) have leaf: "q \<in> set (walk_prefixes (tb_root t) [])" by (auto simp: table_regions_def walk_prefixes_regions)
  have ok': "node_ok kd (tb_cfg t') (tb_root t') 0"
    using table_reached.observed [OF assms(1,6)] by (rule table_reached_ok)
  from assms(6)[unfolded ch] show ?thesis
  proof (cases rule: observe_cases)
    case ignored
    with leaf show ?thesis using observe_None_iff [OF assms(2,3), of "[]" kd "tb_cfg t" "tb_root t" ms now] by simp
  next
    case (changed nxt)
    from observe_population_change [OF assms(2,3) Nil_prefix, of kd "tb_cfg t" "tb_root t" ms now nxt] changed(1)
    obtain y where y: "y \<in> set (table_regions t)" "rg_prefix y = q"
      "node_population nxt + rg_population y = node_population (tb_root t) + int (length ms)"
      by (auto simp: table_regions_def)
    have "y = x" using y(1,2) assms(4,5) table_prefixes_distinct [of t] by (auto simp: distinct_map dest: inj_onD)
    with y(3) changed(2) have sum: "sum_list (map rg_population (table_regions t')) =
        sum_list (map rg_population (table_regions t)) - rg_population x + int (length ms)"
      by (simp add: table_regions_def node_population_walk)
    have "\<forall>r \<in> set (table_regions t'). strict_prefix q (rg_prefix r) \<longrightarrow>
        rg_population r = count_of (\<lambda>m. carries kd m (rg_prefix r)) ms \<and> rg_last_surveyed r = now"
      if "\<forall>m \<in> set ms. carries kd m q"
      using observe_counts [OF assms(2,3) Nil_prefix, of kd "tb_cfg t" "tb_root t" ms now nxt] that changed(1,2)
      by (auto simp: table_regions_def)
    with sum node_ok_regions [of kd "tb_cfg t'" "tb_root t'" "[]"] ok' changed(2) show ?thesis
      by (simp add: table_regions_def)
  qed
qed

end
