(* ===== verification/PrefixTableWitnesses.thy ===== *)
theory PrefixTableWitnesses
  imports PrefixTableTheorems Tiny
begin

text \<open>The properties of the prefix table on 8-bit keys.\<close>

definition tiny_bits :: "string \<Rightarrow> nat \<Rightarrow> bool" where
  "tiny_bits p i \<longleftrightarrow> p ! i = CHR ''1''"

lemma tiny_bits_ok: "bitstr_bits tiny_bits"
  by (simp add: bitstr_bits_def tiny_bits_def)

definition tiny_prefix_config :: prefix_config where
  "tiny_prefix_config = \<lparr>fc_initial_prefix_len = 1, fc_min_population = 1, fc_max_population = 3\<rparr>"

definition tiny_regions :: prefix_table where
  "tiny_regions = projr (new_table tiny_kad (Some tiny_prefix_config))"

lemma tiny_regions_reached: "table_reached tiny_kad tiny_bits tiny_regions"
proof (rule table_reached.created)
  show "new_table tiny_kad (Some tiny_prefix_config) = Inr tiny_regions"
    by (simp add: tiny_regions_def new_table_def tiny_prefix_config_def prefix_config_validate_def tiny_kad_def)
qed

text \<open>Four nodes in the lower half, two in each of its quarters: the region is split.\<close>

definition tiny_split :: "(string list \<times> string list) \<times> prefix_table" where
  "tiny_split = observe tiny_kad tiny_bits ''0'' [0, 1, 64, 65] 9 tiny_regions"

lemma tiny_split_change: "fst tiny_split = ([''0''], [''00'', ''01''])"
  by code_simp

lemma tiny_split_regions:
  "table_regions (snd tiny_split) =
     [\<lparr>rg_prefix = ''00'', rg_population = 2, rg_last_surveyed = 9\<rparr>,
      \<lparr>rg_prefix = ''01'', rg_population = 2, rg_last_surveyed = 9\<rparr>,
      \<lparr>rg_prefix = ''1'', rg_population = 0, rg_last_surveyed = 0\<rparr>]"
  by code_simp

theorem observe_replaces_witness: "set [''0''] \<subseteq> set (map rg_prefix (table_regions tiny_regions))"
proof -
  have "bit_string ''0''" by (simp add: bit_string_def)
  moreover have "observe tiny_kad tiny_bits ''0'' [0, 1, 64, 65] 9 tiny_regions = (([''0''], [''00'', ''01'']), snd tiny_split)"
    using tiny_split_change by (simp add: tiny_split_def prod_eq_iff)
  ultimately show ?thesis using observe_replaces [OF tiny_bits_ok] by blast
qed

theorem observe_populations_witness:
  "sum_list (map rg_population (table_regions (snd tiny_split))) = 4"
proof -
  have q: "bit_string ''0''" by (simp add: bit_string_def)
  have regions: "table_regions tiny_regions = [\<lparr>rg_prefix = ''0'', rg_population = 0, rg_last_surveyed = 0\<rparr>,
      \<lparr>rg_prefix = ''1'', rg_population = 0, rg_last_surveyed = 0\<rparr>]" by code_simp
  have "observe tiny_kad tiny_bits ''0'' [0, 1, 64, 65] 9 tiny_regions = (fst tiny_split, snd tiny_split)"
    by (simp add: tiny_split_def)
  from observe_populations [OF tiny_regions_reached tiny_bits_ok q _ _ this,
      of "\<lparr>rg_prefix = ''0'', rg_population = 0, rg_last_surveyed = 0\<rparr>"]
  show ?thesis by (simp add: regions)
qed

text \<open>
  The condition on the thresholds is needed: with the thresholds 2 and 3, which the configuration
  accepts, two regions of two nodes merge into one of four, which the threshold for a split forbids.
\<close>

lemma merge_can_exceed:
  "prefix_config_validate \<lparr>fc_initial_prefix_len = 1, fc_min_population = 2, fc_max_population = 3\<rparr> = None \<and>
   map rg_population (table_regions (snd (observe tiny_kad tiny_bits ''1'' [128, 129] 2
     (snd (observe tiny_kad tiny_bits ''0'' [0, 1] 1
       (projr (new_table tiny_kad (Some \<lparr>fc_initial_prefix_len = 1, fc_min_population = 2, fc_max_population = 3\<rparr>)))))))) = [4]"
  by code_simp

end
