(* ===== verification/Keystore.thy ===== *)
theory Keystore
  imports Coordt
begin

text \<open>
  \<open>keystore/keystore.go\<close>: the keys a node provides, enumerable by prefix. The binary trie that holds
  them is a type of \<open>go-libdht\<close>: its operations are the parameter \<open>key_trie_ops\<close>, with the documented
  behaviour as the locale \<open>key_trie\<close>. A sequence is the loop that calls \<open>yield\<close> until it returns false;
  \<open>yield\<close> threads the state its caller captures. The walk below the prefix ends because the trie is
  finite, which is a fact about the parameter: it is a partial function, and that it ends is a theorem.
\<close>

section \<open>The interface of the trie\<close>

text \<open>
  \<open>kt_add\<close> and \<open>kt_remove\<close> are \<open>trie.Add\<close> and \<open>trie.Remove\<close>, \<open>kt_key\<close> is \<open>Key\<close>, whose pointer is nil when
  the node holds no key, and \<open>kt_branch\<close> is \<open>Branch\<close>.
\<close>

record ('k, 'kt) key_trie_ops =
  kt_new :: 'kt
  kt_add :: "'kt \<Rightarrow> 'k \<Rightarrow> 'kt go_result"
  kt_remove :: "'kt \<Rightarrow> 'k \<Rightarrow> 'kt go_result"
  kt_is_leaf :: "'kt \<Rightarrow> bool"
  kt_key :: "'kt \<Rightarrow> 'k option"
  kt_branch :: "'kt \<Rightarrow> bool \<Rightarrow> 'kt"

definition is_nonempty_leaf :: "('k, 'kt) key_trie_ops \<Rightarrow> 'kt \<Rightarrow> bool" where
  "is_nonempty_leaf T node \<longleftrightarrow> kt_is_leaf T node \<and> kt_key T node \<noteq> None"

section \<open>The keystore\<close>

record 'kt keystore =
  ke_root :: 'kt

definition new_keystore :: "('k, 'kt) key_trie_ops \<Rightarrow> 'kt keystore" where
  "new_keystore T = \<lparr>ke_root = kt_new T\<rparr>"

definition keystore_add :: "('k, 'kt) key_trie_ops \<Rightarrow> 'k \<Rightarrow> 'kt keystore \<Rightarrow> 'kt keystore" where
  "keystore_add T k t = (case kt_add T (ke_root t) k of Inl e \<Rightarrow> t | Inr nxt \<Rightarrow> t\<lparr>ke_root := nxt\<rparr>)"

definition keystore_remove :: "('k, 'kt) key_trie_ops \<Rightarrow> 'k \<Rightarrow> 'kt keystore \<Rightarrow> 'kt keystore" where
  "keystore_remove T k t = (case kt_remove T (ke_root t) k of Inl e \<Rightarrow> t | Inr nxt \<Rightarrow> t\<lparr>ke_root := nxt\<rparr>)"

definition has_prefix :: "('k, 'n) kad_ops \<Rightarrow> (string \<Rightarrow> nat \<Rightarrow> bool) \<Rightarrow> 'k \<Rightarrow> string \<Rightarrow> bool" where
  "has_prefix kd pbit k prefix \<longleftrightarrow>
     \<not> key_bit_len kd < length prefix \<and> (\<forall>i \<in> {..<length prefix}. key_bit kd k i = pbit prefix i)"

text \<open>\<open>collect\<close>: the state after the calls of \<open>yield\<close>, and whether the last of them asked for more.\<close>

partial_function (option) collect_keys ::
  "('k, 'kt) key_trie_ops \<Rightarrow> ('k \<Rightarrow> 's \<Rightarrow> 's \<times> bool) \<Rightarrow> 'kt \<Rightarrow> 's \<Rightarrow> ('s \<times> bool) option" where
  "collect_keys T yield node s =
     (if kt_is_leaf T node
      then (if is_nonempty_leaf T node then Some (yield (the (kt_key T node)) s) else Some (s, True))
      else Option.bind (collect_keys T yield (kt_branch T node False) s)
        (\<lambda>r. if snd r then collect_keys T yield (kt_branch T node True) (fst r) else Some (fst r, False)))"

declare collect_keys.simps [code]

text \<open>The walk along the bits of the prefix from position \<open>i\<close>, with \<open>n\<close> bits to go.\<close>

fun descend_keys ::
  "('k, 'n) kad_ops \<Rightarrow> (string \<Rightarrow> nat \<Rightarrow> bool) \<Rightarrow> ('k, 'kt) key_trie_ops \<Rightarrow> string \<Rightarrow>
     ('k \<Rightarrow> 's \<Rightarrow> 's \<times> bool) \<Rightarrow> nat \<Rightarrow> nat \<Rightarrow> 'kt \<Rightarrow> 's \<Rightarrow> 's option" where
  "descend_keys kd pbit T prefix yield 0 i node s = map_option fst (collect_keys T yield node s)"
| "descend_keys kd pbit T prefix yield (Suc n) i node s =
     (if kt_is_leaf T node
      then Some (if is_nonempty_leaf T node \<and> has_prefix kd pbit (the (kt_key T node)) prefix
                 then fst (yield (the (kt_key T node)) s) else s)
      else descend_keys kd pbit T prefix yield n (i + 1) (kt_branch T node (pbit prefix i)) s)"

definition keys_under ::
  "('k, 'n) kad_ops \<Rightarrow> (string \<Rightarrow> nat \<Rightarrow> bool) \<Rightarrow> ('k, 'kt) key_trie_ops \<Rightarrow> string \<Rightarrow>
     ('k \<Rightarrow> 's \<Rightarrow> 's \<times> bool) \<Rightarrow> 'kt keystore \<Rightarrow> 's \<Rightarrow> 's option" where
  "keys_under kd pbit T prefix yield t s = descend_keys kd pbit T prefix yield (length prefix) 0 (ke_root t) s"

end
