(* ===== verification/KeystoreTheorems.thy ===== *)
theory KeystoreTheorems
  imports Keystore Tiny
begin

text \<open>
  The keystore holds the set of keys that were added and not removed, and enumerates those under a
  prefix, each once.
\<close>

section \<open>The contract of the trie\<close>

text \<open>
  A trie at some depth holds a set of keys: a leaf holds at most one, and a node that is not a leaf
  holds in each branch the keys with that bit at its depth, which is less than the length of a key.
\<close>

locale key_trie =
  fixes kd :: "('k, 'n) kad_ops"
    and T :: "('k, 'kt) key_trie_ops"
    and trie_ok :: "nat \<Rightarrow> 'kt \<Rightarrow> bool"
    and keys_of :: "'kt \<Rightarrow> 'k set"
  assumes new_ok: "trie_ok 0 (kt_new T)" "keys_of (kt_new T) = {}"
    and add_ok: "trie_ok 0 t \<Longrightarrow> \<exists>t'. kt_add T t k = Inr t' \<and> trie_ok 0 t' \<and> keys_of t' = insert k (keys_of t)"
    and remove_ok: "trie_ok 0 t \<Longrightarrow> \<exists>t'. kt_remove T t k = Inr t' \<and> trie_ok 0 t' \<and> keys_of t' = keys_of t - {k}"
    and leaf: "trie_ok d t \<Longrightarrow> kt_is_leaf T t \<Longrightarrow> keys_of t = set_option (kt_key T t)"
    and branch: "trie_ok d t \<Longrightarrow> \<not> kt_is_leaf T t \<Longrightarrow> d < key_bit_len kd \<and> trie_ok (d + 1) (kt_branch T t b) \<and>
      keys_of (kt_branch T t b) = {k \<in> keys_of t. key_bit kd k d = b}"
begin

end

section \<open>Loops over a sequence\<close>

fun yield_all :: "('k \<Rightarrow> 's \<Rightarrow> 's \<times> bool) \<Rightarrow> 'k list \<Rightarrow> 's \<Rightarrow> 's \<times> bool" where
  "yield_all yield [] s = (s, True)"
| "yield_all yield (k # ks) s = (case yield k s of (s', go) \<Rightarrow> if go then yield_all yield ks s' else (s', False))"

lemma yield_all_append:
  "yield_all yield (xs @ ys) s =
     (if snd (yield_all yield xs s) then yield_all yield ys (fst (yield_all yield xs s)) else (fst (yield_all yield xs s), False))"
  by (induction xs arbitrary: s) (auto split: prod.splits)

lemma yield_all_single: "fst (yield_all yield [k] s) = fst (yield k s)"
  by (simp split: prod.splits)

lemma yield_all_leaf: "yield_all yield [k] s = yield k s"
  by (simp split: prod.splits)

lemma yield_collects: "yield_all (\<lambda>k s. (s @ [k], True)) ks s = (s @ ks, True)"
  by (induction ks arbitrary: s) auto

section \<open>The walk\<close>

definition enumerates :: "('k \<Rightarrow> bool) \<Rightarrow> 'k set \<Rightarrow> 'k list \<Rightarrow> bool" where
  "enumerates P K ks \<longleftrightarrow> distinct ks \<and> set ks = {k \<in> K. P k}"

context key_trie
begin

lemma collect_all:
  "trie_ok d t \<Longrightarrow> \<exists>ks. enumerates (\<lambda>k. True) (keys_of t) ks \<and>
     (\<forall>yield (s :: 's). collect_keys T yield t s = Some (yield_all yield ks s))"
proof (induction "key_bit_len kd - d" arbitrary: d t rule: less_induct)
  case less
  show ?case
  proof (cases "kt_is_leaf T t")
    case True
    from leaf [OF less.prems True] True show ?thesis
      by (intro exI [of _ "case kt_key T t of None \<Rightarrow> [] | Some k \<Rightarrow> [k]"])
        (auto simp: enumerates_def collect_keys.simps is_nonempty_leaf_def yield_all_leaf simp del: yield_all.simps(2)
          split: option.splits)
  next
    case False
    from branch [OF less.prems False] have d: "d < key_bit_len kd"
      and ok: "trie_ok (d + 1) (kt_branch T t b)" and keys: "keys_of (kt_branch T t b) = {k \<in> keys_of t. key_bit kd k d = b}"
      for b by auto
    have smaller: "key_bit_len kd - (d + 1) < key_bit_len kd - d" using d by simp
    obtain xs where xs: "enumerates (\<lambda>k. True) (keys_of (kt_branch T t False)) xs"
      "\<forall>yield (s :: 's). collect_keys T yield (kt_branch T t False) s = Some (yield_all yield xs s)"
      using less.hyps [OF smaller ok] by blast
    obtain ys where ys: "enumerates (\<lambda>k. True) (keys_of (kt_branch T t True)) ys"
      "\<forall>yield (s :: 's). collect_keys T yield (kt_branch T t True) s = Some (yield_all yield ys s)"
      using less.hyps [OF smaller ok] by blast
    have "enumerates (\<lambda>k. True) (keys_of t) (xs @ ys)" using xs(1) ys(1) by (auto simp: enumerates_def keys)
    moreover have "collect_keys T yield t s = Some (yield_all yield (xs @ ys) s)" for yield and s :: 's
      using False xs(2) ys(2) by (subst collect_keys.simps) (simp add: yield_all_append)
    ultimately show ?thesis by blast
  qed
qed

lemma descend_all:
  assumes "trie_ok d t" "length prefix = d + n" "d \<le> key_bit_len kd" "\<forall>k \<in> keys_of t. \<forall>i < d. key_bit kd k i = pbit prefix i"
  shows "\<exists>ks. enumerates (\<lambda>k. has_prefix kd pbit k prefix) (keys_of t) ks \<and>
    (\<forall>yield (s :: 's). descend_keys kd pbit T prefix yield n d t s = Some (fst (yield_all yield ks s)))"
  using assms
proof (induction n arbitrary: d t)
  case 0
  obtain ks where ks: "enumerates (\<lambda>k. True) (keys_of t) ks"
    "\<forall>yield (s :: 's). collect_keys T yield t s = Some (yield_all yield ks s)" using collect_all [OF 0(1)] by blast
  have "enumerates (\<lambda>k. has_prefix kd pbit k prefix) (keys_of t) ks"
    using ks(1) 0 by (auto simp: enumerates_def has_prefix_def)
  with ks(2) show ?case by auto
next
  case (Suc n)
  show ?case
  proof (cases "kt_is_leaf T t")
    case True
    from leaf [OF Suc.prems(1) True] True show ?thesis
      by (intro exI [of _ "case kt_key T t of None \<Rightarrow> [] | Some k \<Rightarrow> if has_prefix kd pbit k prefix then [k] else []"])
        (auto simp: enumerates_def is_nonempty_leaf_def yield_all_leaf simp del: yield_all.simps(2) split: option.splits)
  next
    case False
    let ?b = "pbit prefix d"
    from branch [OF Suc.prems(1) False, of ?b] have d: "d < key_bit_len kd"
      and ok: "trie_ok (d + 1) (kt_branch T t ?b)" and keys: "keys_of (kt_branch T t ?b) = {k \<in> keys_of t. key_bit kd k d = ?b}"
      by auto
    have "\<forall>k \<in> keys_of (kt_branch T t ?b). \<forall>i < d + 1. key_bit kd k i = pbit prefix i"
      using Suc.prems(4) by (auto simp: keys less_Suc_eq)
    with Suc.IH [OF ok] Suc.prems(2) d obtain ks where
      ks: "enumerates (\<lambda>k. has_prefix kd pbit k prefix) (keys_of (kt_branch T t ?b)) ks"
      "\<forall>yield (s :: 's). descend_keys kd pbit T prefix yield n (d + 1) (kt_branch T t ?b) s = Some (fst (yield_all yield ks s))"
      by auto
    have "enumerates (\<lambda>k. has_prefix kd pbit k prefix) (keys_of t) ks"
      using ks(1) Suc.prems(2) by (auto simp: enumerates_def keys has_prefix_def)
    with ks(2) False show ?thesis by auto
  qed
qed

end

section \<open>Reachable keystores\<close>

text \<open>The keystores a sequence of calls makes, with the set of keys that were added and not removed since.\<close>

inductive keystore_reached :: "('k, 'kt) key_trie_ops \<Rightarrow> 'k set \<Rightarrow> 'kt keystore \<Rightarrow> bool" for T where
  created: "keystore_reached T {} (new_keystore T)"
| added: "keystore_reached T ks t \<Longrightarrow> keystore_reached T (insert k ks) (keystore_add T k t)"
| removed: "keystore_reached T ks t \<Longrightarrow> keystore_reached T (ks - {k}) (keystore_remove T k t)"

lemma keystore_reached_keys:
  assumes "key_trie kd T trie_ok keys_of" "keystore_reached T ks t"
  shows "trie_ok 0 (ke_root t) \<and> keys_of (ke_root t) = ks"
  using assms(2)
proof induction
  case created
  then show ?case using key_trie.new_ok [OF assms(1)] by (simp add: new_keystore_def)
next
  case (added ks t k)
  obtain t' where "kt_add T (ke_root t) k = Inr t'" "trie_ok 0 t'" "keys_of t' = insert k (keys_of (ke_root t))"
    using key_trie.add_ok [OF assms(1), of "ke_root t" k] added.IH by blast
  with added.IH show ?case by (simp add: keystore_add_def)
next
  case (removed ks t k)
  obtain t' where "kt_remove T (ke_root t) k = Inr t'" "trie_ok 0 t'" "keys_of t' = keys_of (ke_root t) - {k}"
    using key_trie.remove_ok [OF assms(1), of "ke_root t" k] removed.IH by blast
  with removed.IH show ?case by (simp add: keystore_remove_def)
qed

text \<open>The keys a loop that collects them all ends with.\<close>

definition keys_below ::
  "('k, 'n) kad_ops \<Rightarrow> (string \<Rightarrow> nat \<Rightarrow> bool) \<Rightarrow> ('k, 'kt) key_trie_ops \<Rightarrow> string \<Rightarrow> 'kt keystore \<Rightarrow> 'k set option" where
  "keys_below kd pbit T prefix t = map_option set (keys_under kd pbit T prefix (\<lambda>k s. (s @ [k], True)) t [])"

section \<open>The properties\<close>

text \<open>
  C19: the keystore refines the set of the keys added and not removed since. A loop over the keys under
  a prefix ends, and it runs its body on the keys of that set whose leading bits are the prefix, each
  once, until the body asks for no more.
\<close>

theorem keystore_refines_set:
  assumes "key_trie kd T trie_ok keys_of" "keystore_reached T K t"
  shows "\<exists>ks. distinct ks \<and> set ks = {k \<in> K. has_prefix kd pbit k prefix} \<and>
    (\<forall>yield (s :: 's). keys_under kd pbit T prefix yield t s = Some (fst (yield_all yield ks s)))"
proof -
  from keystore_reached_keys [OF assms] have "trie_ok 0 (ke_root t)" "keys_of (ke_root t) = K" by simp_all
  with key_trie.descend_all [OF assms(1), of 0 "ke_root t" prefix "length prefix" pbit, where 's = 's] show ?thesis
    by (simp add: keys_under_def enumerates_def)
qed


section \<open>A trie kept as a list\<close>

text \<open>
  The instance the witnesses run on: a node at some depth is the list of its keys, a leaf when there
  are fewer than two. Keys of one length that agree on all their bits are equal.
\<close>

locale kad_bits =
  fixes kd :: "('k, 'n) kad_ops"
  assumes bits_inject: "(\<And>i. i < key_bit_len kd \<Longrightarrow> key_bit kd a i = key_bit kd b i) \<Longrightarrow> a = b"

type_synonym 'k list_keys = "nat \<times> 'k list"

definition list_keys :: "('k, 'n) kad_ops \<Rightarrow> ('k, 'k list_keys) key_trie_ops" where
  "list_keys kd =
     \<lparr>kt_new = (0, []),
      kt_add = (\<lambda>(d, ks) k. Inr (d, if k \<in> set ks then ks else ks @ [k])),
      kt_remove = (\<lambda>(d, ks) k. Inr (d, filter (\<lambda>x. x \<noteq> k) ks)),
      kt_is_leaf = (\<lambda>(d, ks). length ks < 2),
      kt_key = (\<lambda>(d, ks). if length ks = 1 then Some (hd ks) else None),
      kt_branch = (\<lambda>(d, ks) b. (d + 1, filter (\<lambda>k. key_bit kd k d = b) ks))\<rparr>"

definition list_keys_ok :: "('k, 'n) kad_ops \<Rightarrow> nat \<Rightarrow> 'k list_keys \<Rightarrow> bool" where
  "list_keys_ok kd d t \<longleftrightarrow> fst t = d \<and> distinct (snd t) \<and>
     (\<forall>a \<in> set (snd t). \<forall>b \<in> set (snd t). \<forall>i < d. key_bit kd a i = key_bit kd b i)"

lemma short_list: "length ks < 2 \<Longrightarrow> set ks = set_option (if length ks = 1 then Some (hd ks) else None)"
  by (cases ks) auto

sublocale kad_bits \<subseteq> list_trie_keys: key_trie kd "list_keys kd" "list_keys_ok kd" "\<lambda>t. set (snd t)"
proof
  fix d t b assume ok: "list_keys_ok kd d t"
  then have dist: "distinct (snd t)" and depth: "fst t = d"
    and agree: "\<And>x y i. x \<in> set (snd t) \<Longrightarrow> y \<in> set (snd t) \<Longrightarrow> i < d \<Longrightarrow> key_bit kd x i = key_bit kd y i"
    unfolding list_keys_ok_def by blast+
  show "set (snd t) = set_option (kt_key (list_keys kd) t)" if "kt_is_leaf (list_keys kd) t"
    using that by (cases t) (simp add: list_keys_def short_list)
  show "d < key_bit_len kd \<and> list_keys_ok kd (d + 1) (kt_branch (list_keys kd) t b) \<and>
      set (snd (kt_branch (list_keys kd) t b)) = {k \<in> set (snd t). key_bit kd k d = b}"
    if "\<not> kt_is_leaf (list_keys kd) t"
  proof -
    note node = that
    obtain x y ks where t: "snd t = x # y # ks"
      using node by (cases t; cases "snd t" rule: remdups_adj.cases) (simp_all add: list_keys_def)
    with dist have "x \<noteq> y" by auto
    have "d < key_bit_len kd"
    proof (rule ccontr)
      assume "\<not> d < key_bit_len kd"
      then have "key_bit kd x i = key_bit kd y i" if "i < key_bit_len kd" for i using that agree [of x y i] t by simp
      then have "x = y" by (rule bits_inject)
      with \<open>x \<noteq> y\<close> show False ..
    qed
    moreover have "kt_branch (list_keys kd) t b = (d + 1, filter (\<lambda>k. key_bit kd k d = b) (snd t))"
      using depth by (cases t) (simp add: list_keys_def)
    moreover have "list_keys_ok kd (d + 1) (d + 1, filter (\<lambda>k. key_bit kd k d = b) (snd t))"
      unfolding list_keys_ok_def using dist agree by (auto simp: less_Suc_eq)
    ultimately show ?thesis by simp
  qed
qed (auto simp: list_keys_def list_keys_ok_def)

interpretation tiny_bits: kad_bits tiny_kad
proof
  fix a b :: tiny_key
  assume eq: "i < key_bit_len tiny_kad \<Longrightarrow> key_bit tiny_kad a i = key_bit tiny_kad b i" for i
  show "a = b"
  proof (rule bit_word_eqI)
    fix n assume "n < LENGTH(8)"
    then show "bit a n = bit b n" using eq [of "7 - n"] by (simp add: tiny_kad_def)
  qed
qed

definition tiny_keystore :: "tiny_key list_keys keystore" where
  "tiny_keystore = keystore_add (list_keys tiny_kad) 129 (keystore_add (list_keys tiny_kad) 128
     (keystore_add (list_keys tiny_kad) 1 (new_keystore (list_keys tiny_kad))))"

lemma tiny_keystore_reached: "keystore_reached (list_keys tiny_kad) {129, 128, 1} tiny_keystore"
  unfolding tiny_keystore_def by (intro keystore_reached.intros)

theorem keystore_refines_set_witness:
  "\<exists>ks. distinct ks \<and> set ks = {k \<in> {129, 128, 1}. has_prefix tiny_kad (\<lambda>p i. p ! i = CHR ''1'') k ''1''} \<and>
    keys_under tiny_kad (\<lambda>p i. p ! i = CHR ''1'') (list_keys tiny_kad) ''1'' (\<lambda>k s. (s @ [k], True)) tiny_keystore [] =
      Some (fst (yield_all (\<lambda>k s. (s @ [k], True)) ks []))"
  using keystore_refines_set [OF tiny_bits.list_trie_keys.key_trie_axioms tiny_keystore_reached,
      of "\<lambda>p i. p ! i = CHR ''1''" "''1''", where 's = "tiny_key list"] by blast

lemma tiny_keystore_keys:
  "keys_under tiny_kad (\<lambda>p i. p ! i = CHR ''1'') (list_keys tiny_kad) ''1'' (\<lambda>k s. (s @ [k], True)) tiny_keystore [] =
     Some [128, 129]"
  by code_simp


end
