(* ===== verification/Publish.thy ===== *)
theory Publish
  imports Query "HOL-Library.AList"
begin

text \<open>
  The parts of \<open>publish\<close> that the publish machines share. \<open>publish/publish.go\<close>: their states and
  events. And the bookkeeping of the stores, which each machine repeats: the nodes still to be asked,
  the nodes that have yet to reply and the failures, in maps keyed by the string form of the node.

  A Go map is a list of entries with distinct keys. The order in which a loop ranges over a map is not
  determined by the language: it is the argument \<open>ord\<close> of an operation, any function that permutes
  the keys. An event the code panics on gives \<open>None\<close>.
\<close>

section \<open>States and events\<close>

type_synonym 'n failures = "(string \<times> 'n \<times> go_error) list"

datatype ('k, 'n, 'm) publish_state =
    StatePublishFindCloser activity_id 'n 'k
  | StatePublishStoreRecord activity_id 'n 'm
  | StatePublishWaiting time activity_id
  | StatePublishFinished activity_id "'n list" "'n failures" query_stats
  | StatePublishIdle

datatype ('k, 'n, 'm) publish_event =
    EventPublishPoll
  | EventPublishStart 'k
  | EventPublishStop
  | EventPublishNodeResponse 'n "'n list"
  | EventPublishNodeFailure 'n go_error
  | EventPublishStoreRecordSuccess 'n "'m option" "'m option"
  | EventPublishStoreRecordFailure 'n "'m option" go_error

fun is_stop_event :: "('k, 'n, 'm) publish_event \<Rightarrow> bool" where
  "is_stop_event EventPublishStop = True"
| "is_stop_event _ = False"

section \<open>Ranging over a map\<close>

definition map_range :: "(string list \<Rightarrow> string list) \<Rightarrow> (string \<times> 'v) list \<Rightarrow> (string \<times> 'v) list" where
  "map_range ord m = map (\<lambda>k. (k, the (map_of m k))) (ord (map fst m))"

section \<open>The stores of a publish\<close>

record 'n stores =
  sr_todo :: "(string \<times> 'n) list"
  sr_waiting :: "(string \<times> 'n) list"
  sr_failed :: "'n failures"

text \<open>Adding nodes to the nodes still to be asked.\<close>

definition add_todo :: "('k, 'n) kad_ops \<Rightarrow> 'n list \<Rightarrow> ('n, 'z) stores_scheme \<Rightarrow> ('n, 'z) stores_scheme" where
  "add_todo kd ns s = s\<lparr>sr_todo := fold (\<lambda>n. AList.update (node_str kd n) n) ns (sr_todo s)\<rparr>"

text \<open>Taking one of them: it is asked next.\<close>

definition next_store ::
  "(string list \<Rightarrow> string list) \<Rightarrow> ('n, 'z) stores_scheme \<Rightarrow> ('n \<times> ('n, 'z) stores_scheme) option" where
  "next_store ord s =
     (case map_range ord (sr_todo s) of
        [] \<Rightarrow> None
      | (k, n) # _ \<Rightarrow>
          Some (n, s\<lparr>sr_todo := AList.delete k (sr_todo s), sr_waiting := AList.update k n (sr_waiting s)\<rparr>))"

definition fail_store ::
  "('k, 'n) kad_ops \<Rightarrow> 'n \<Rightarrow> go_error \<Rightarrow> ('n, 'z) stores_scheme \<Rightarrow> ('n, 'z) stores_scheme" where
  "fail_store kd n err s = s\<lparr>sr_failed := AList.update (node_str kd n) (n, err) (sr_failed s)\<rparr>"

definition heard_from :: "('k, 'n) kad_ops \<Rightarrow> 'n \<Rightarrow> ('n, 'z) stores_scheme \<Rightarrow> ('n, 'z) stores_scheme" where
  "heard_from kd n s = s\<lparr>sr_waiting := AList.delete (node_str kd n) (sr_waiting s)\<rparr>"

text \<open>The two loops of a stop: every node not asked or not heard from has failed.\<close>

definition cancel_todo ::
  "('k, 'n) kad_ops \<Rightarrow> (string list \<Rightarrow> string list) \<Rightarrow> ('n, 'z) stores_scheme \<Rightarrow> ('n, 'z) stores_scheme" where
  "cancel_todo kd ord s =
     fold (\<lambda>(k, n) s. fail_store kd n (ErrorText ''cancelled'') (s\<lparr>sr_todo := AList.delete (node_str kd n) (sr_todo s)\<rparr>))
       (map_range ord (sr_todo s)) s"

definition cancel_waiting ::
  "('k, 'n) kad_ops \<Rightarrow> (string list \<Rightarrow> string list) \<Rightarrow> ('n, 'z) stores_scheme \<Rightarrow> ('n, 'z) stores_scheme" where
  "cancel_waiting kd ord s =
     fold (\<lambda>(k, n) s. fail_store kd n (ErrorText ''cancelled'') (s\<lparr>sr_waiting := AList.delete (node_str kd n) (sr_waiting s)\<rparr>))
       (map_range ord (sr_waiting s)) s"

end
