(* ===== verification/StaticPublish.thy ===== *)
theory StaticPublish
  imports Publish
begin

text \<open>
  \<open>publish/static.go\<close>: the machine that publishes a record to a fixed set of nodes.
\<close>

record ('n, 'm) static = "'n stores" +
  sp_id :: activity_id
  sp_msg :: 'm
  sp_nodes :: "'n list"
  sp_success :: "(string \<times> 'n) list"

text \<open>The configuration has one field, the tracer.\<close>

record static_config =
  stc_tracer :: bool

definition static_config_validate :: "static_config \<Rightarrow> go_error option" where
  "static_config_validate cfg = first_error ''StaticConfig'' [(\<not> stc_tracer cfg, ''tracer must not be nil'')]"

definition default_static_config :: static_config where
  "default_static_config = \<lparr>stc_tracer = True\<rparr>"

definition new_static :: "activity_id \<Rightarrow> 'm \<Rightarrow> 'n list \<Rightarrow> static_config option \<Rightarrow> ('n, 'm) static go_result" where
  "new_static qid msg nodes cfg_opt =
     (case (case cfg_opt of None \<Rightarrow> None | Some cfg \<Rightarrow> static_config_validate cfg) of
        Some e \<Rightarrow> Inl e
      | None \<Rightarrow> Inr \<lparr>sr_todo = [], sr_waiting = [], sr_failed = [],
          sp_id = qid, sp_msg = msg, sp_nodes = nodes, sp_success = []\<rparr>)"

fun static_handle ::
  "('k, 'n) kad_ops \<Rightarrow> (string list \<Rightarrow> string list) \<Rightarrow> ('k, 'n, 'm) publish_event \<Rightarrow> ('n, 'm) static \<Rightarrow>
     ('n, 'm) static option" where
  "static_handle kd ord (EventPublishStart target) f = Some (add_todo kd (sp_nodes f) f)"
| "static_handle kd ord EventPublishStop f = Some (cancel_waiting kd ord (cancel_todo kd ord f))"
| "static_handle kd ord (EventPublishStoreRecordSuccess n req resp) f =
     (let f' = heard_from kd n f in Some (f'\<lparr>sp_success := AList.update (node_str kd n) n (sp_success f')\<rparr>))"
| "static_handle kd ord (EventPublishStoreRecordFailure n req err) f =
     Some (fail_store kd n err (heard_from kd n f))"
| "static_handle kd ord EventPublishPoll f = Some f"
| "static_handle kd ord (EventPublishNodeResponse n closer) f = None"
| "static_handle kd ord (EventPublishNodeFailure n err) f = None"

definition static_contacted :: "(string list \<Rightarrow> string list) \<Rightarrow> ('n, 'm) static \<Rightarrow> 'n list" where
  "static_contacted ord f = map snd (map_range ord (sp_success f)) @ map (fst \<circ> snd) (map_range ord (sr_failed f))"

definition static_advance ::
  "('k, 'n) kad_ops \<Rightarrow> (string list \<Rightarrow> string list) \<Rightarrow> ('k, 'n, 'm) publish_event \<Rightarrow> ('n, 'm) static \<Rightarrow>
     (('k, 'n, 'm) publish_state \<times> ('n, 'm) static) option" where
  "static_advance kd ord ev f0 =
     map_option (\<lambda>f.
       case next_store ord f of
         Some (n, f') \<Rightarrow> (StatePublishStoreRecord (sp_id f) n (sp_msg f), f')
       | None \<Rightarrow>
           (if sr_waiting f \<noteq> [] then (StatePublishWaiting zero_time InvalidActivityID, f)
            else (StatePublishFinished (sp_id f) (static_contacted ord f) (sr_failed f) zero_query_stats, f)))
     (static_handle kd ord ev f0)"

end
