(* ===== verification/PublishFacts.thy ===== *)
theory PublishFacts
  imports Publish
begin

text \<open>
  The bookkeeping of the stores, once for all the machines that publish: a node is asked at most once,
  and is at any time still to be asked, or asked.
\<close>

section \<open>Ranging over a map\<close>

text \<open>All that is known of the order in which a loop ranges over a map.\<close>

definition range_order :: "(string list \<Rightarrow> string list) \<Rightarrow> bool" where
  "range_order ord \<longleftrightarrow> (\<forall>ks. mset (ord ks) = mset ks)"

lemma range_order_id [simp]: "range_order (\<lambda>ks. ks)"
  by (simp add: range_order_def)

lemma range_order_set: "range_order ord \<Longrightarrow> set (ord ks) = set ks"
  unfolding range_order_def by (metis set_mset_mset)

lemma map_range_keys: "map fst (map_range ord m) = ord (map fst m)"
  by (simp add: map_range_def comp_def)

lemma map_range_set:
  assumes "range_order ord" "distinct (map fst m)"
  shows "set (map_range ord m) = set m"
proof -
  have "set (map_range ord m) = (\<lambda>k. (k, the (map_of m k))) ` fst ` set m"
    by (simp add: map_range_def range_order_set [OF assms(1)])
  also have "\<dots> = set m" using assms(2) by (force simp: image_image image_iff)
  finally show ?thesis .
qed

lemma map_range_Nil_iff: "range_order ord \<Longrightarrow> map_range ord m = [] \<longleftrightarrow> m = []"
  using range_order_set [of ord "map fst m"] by (auto simp: map_range_def)

section \<open>Sets of nodes by name\<close>

definition names :: "('k, 'n) kad_ops \<Rightarrow> 'n list \<Rightarrow> string set" where
  "names kd ns = node_str kd ` set ns"

lemma names_simps [simp]:
  "names kd [] = {}" "names kd (n # ns) = insert (node_str kd n) (names kd ns)"
  "names kd (ns @ ms) = names kd ns \<union> names kd ms"
  by (auto simp: names_def)

lemma names_Nil_iff [simp]: "names kd ns = {} \<longleftrightarrow> ns = []" "{} = names kd ns \<longleftrightarrow> ns = []"
  by (auto simp: names_def)

lemma update_keys_set: "fst ` set (AList.update k v m) = insert k (fst ` set m)"
  by (induction m) auto

lemma delete_keys_set: "fst ` set (AList.delete k m) = fst ` set m - {k}"
  by (auto simp: AList.delete_eq)

lemma update_subset: "set (AList.update k v m) \<subseteq> insert (k, v) (set m)"
  by (induction m) auto

section \<open>The stores\<close>

text \<open>The maps are keyed by name; the nodes asked so far are \<open>asked\<close>, in order.\<close>

definition stores_ok :: "('k, 'n) kad_ops \<Rightarrow> 'n list \<Rightarrow> 'n list \<Rightarrow> ('n, 'z) stores_scheme \<Rightarrow> bool" where
  "stores_ok kd nodes asked s \<longleftrightarrow>
     distinct (map fst (sr_todo s)) \<and> distinct (map fst (sr_waiting s)) \<and>
     (\<forall>(k, n) \<in> set (sr_todo s). k = node_str kd n \<and> n \<in> set nodes) \<and>
     (\<forall>(k, n) \<in> set (sr_waiting s). k = node_str kd n \<and> n \<in> set asked) \<and>
     distinct (map (node_str kd) asked) \<and> set asked \<subseteq> set nodes \<and>
     fst ` set (sr_todo s) \<inter> names kd asked = {}"

text \<open>Every node is asked or still to be asked.\<close>

definition all_offered :: "('k, 'n) kad_ops \<Rightarrow> 'n list \<Rightarrow> 'n list \<Rightarrow> ('n, 'z) stores_scheme \<Rightarrow> bool" where
  "all_offered kd nodes asked s \<longleftrightarrow> names kd nodes = names kd asked \<union> fst ` set (sr_todo s)"

lemma stores_ok_no_nodes: "stores_ok kd [] asked s \<Longrightarrow> asked = [] \<and> sr_todo s = [] \<and> sr_waiting s = []"
  unfolding stores_ok_def by (cases "sr_todo s"; cases "sr_waiting s") auto

lemma add_todo_simps [simp]:
  "sr_waiting (add_todo kd ns s) = sr_waiting s" "sr_failed (add_todo kd ns s) = sr_failed s"
  "stores.more (add_todo kd ns s) = stores.more s"
  by (simp_all add: add_todo_def)

lemma fold_update_todo:
  "distinct (map fst m) \<Longrightarrow> \<forall>(k, n) \<in> set m. k = node_str kd n \<and> n \<in> A \<Longrightarrow> set ns \<subseteq> A \<Longrightarrow>
     distinct (map fst (fold (\<lambda>n. AList.update (node_str kd n) n) ns m)) \<and>
     (\<forall>(k, n) \<in> set (fold (\<lambda>n. AList.update (node_str kd n) n) ns m). k = node_str kd n \<and> n \<in> A) \<and>
     fst ` set (fold (\<lambda>n. AList.update (node_str kd n) n) ns m) = fst ` set m \<union> names kd ns"
proof (induction ns arbitrary: m)
  case (Cons n ns)
  let ?m = "AList.update (node_str kd n) n m"
  have 1: "distinct (map fst (AList.update (node_str kd n) n m))" using Cons.prems(1) by (rule distinct_update)
  have 2: "\<forall>(k, x) \<in> set ?m. k = node_str kd x \<and> x \<in> A"
    using update_subset [of "node_str kd n" n m] Cons.prems(2,3) by (auto dest: subsetD)
  from Cons.prems(3) have 3: "set ns \<subseteq> A" by simp
  from Cons.IH [OF 1 2 3] show ?case by (simp add: update_keys_set)
qed simp

lemma add_todo_ok:
  assumes "sr_todo s = []" "sr_waiting s = []"
  shows "stores_ok kd ns [] (add_todo kd ns s)" "all_offered kd ns [] (add_todo kd ns s)"
  using fold_update_todo [of "[]" kd "set ns" ns] assms
  by (auto simp: stores_ok_def all_offered_def add_todo_def)

lemma next_store_None: "range_order ord \<Longrightarrow> next_store ord s = None \<longleftrightarrow> sr_todo s = []"
  using map_range_Nil_iff [of ord "sr_todo s"] by (auto simp: next_store_def split: list.splits)

lemma next_store_ok:
  assumes "range_order ord" "stores_ok kd nodes asked s" "next_store ord s = Some (n, s')"
  shows "stores_ok kd nodes (asked @ [n]) s'"
    "all_offered kd nodes asked s \<Longrightarrow> all_offered kd nodes (asked @ [n]) s'"
    "sr_failed s' = sr_failed s" "stores.more s' = stores.more s"
proof -
  from assms(3) obtain k where k: "(k, n) \<in> set (map_range ord (sr_todo s))"
    and s': "s' = s\<lparr>sr_todo := AList.delete k (sr_todo s), sr_waiting := AList.update k n (sr_waiting s)\<rparr>"
    by (auto simp: next_store_def split: list.splits)
  from k assms(1,2) have todo: "(k, n) \<in> set (sr_todo s)" by (simp add: map_range_set stores_ok_def)
  with assms(2) have n: "k = node_str kd n" "n \<in> set nodes" "k \<notin> names kd asked" by (auto simp: stores_ok_def)
  show "stores_ok kd nodes (asked @ [n]) s'"
    using assms(2) n update_subset [of k n "sr_waiting s"] unfolding stores_ok_def s'
    by (auto simp: AList.delete_eq distinct_update distinct_map_filter names_def)
  show "all_offered kd nodes (asked @ [n]) s'" if "all_offered kd nodes asked s"
  proof -
    have "node_str kd n \<in> fst ` set (sr_todo s)" using todo n(1) by force
    with that n(1) show ?thesis by (auto simp: all_offered_def s' delete_keys_set)
  qed
  show "sr_failed s' = sr_failed s" "stores.more s' = stores.more s" by (simp_all add: s')
qed

lemma heard_from_ok [simp]:
  "stores_ok kd nodes asked s \<Longrightarrow> stores_ok kd nodes asked (heard_from kd n s)"
  "all_offered kd nodes asked (heard_from kd n s) = all_offered kd nodes asked s"
  by (auto simp: stores_ok_def all_offered_def heard_from_def AList.delete_eq distinct_map_filter)

lemma fail_store_ok [simp]:
  "stores_ok kd nodes asked (fail_store kd n e s) = stores_ok kd nodes asked s"
  "all_offered kd nodes asked (fail_store kd n e s) = all_offered kd nodes asked s"
  by (simp_all add: stores_ok_def all_offered_def fail_store_def)

section \<open>A stop\<close>

lemma fold_cancel_todo:
  "fold (\<lambda>(k, n) s. fail_store kd n e (s\<lparr>sr_todo := AList.delete (node_str kd n) (sr_todo s)\<rparr>)) xs s =
     s\<lparr>sr_todo := fold (\<lambda>(k, n). AList.delete (node_str kd n)) xs (sr_todo s),
       sr_failed := fold (\<lambda>(k, n). AList.update (node_str kd n) (n, e)) xs (sr_failed s)\<rparr>"
  by (induction xs arbitrary: s) (auto simp: fail_store_def)

lemma fold_cancel_waiting:
  "fold (\<lambda>(k, n) s. fail_store kd n e (s\<lparr>sr_waiting := AList.delete (node_str kd n) (sr_waiting s)\<rparr>)) xs s =
     s\<lparr>sr_waiting := fold (\<lambda>(k, n). AList.delete (node_str kd n)) xs (sr_waiting s),
       sr_failed := fold (\<lambda>(k, n). AList.update (node_str kd n) (n, e)) xs (sr_failed s)\<rparr>"
  by (induction xs arbitrary: s) (auto simp: fail_store_def)

lemma fold_delete_all:
  "\<forall>(k, n) \<in> set xs. k = f n \<Longrightarrow> fst ` set m \<subseteq> fst ` set xs \<Longrightarrow> fold (\<lambda>(k, n). AList.delete (f n)) xs m = []"
proof (induction xs arbitrary: m)
  case (Cons x xs)
  obtain k n where x: "x = (k, n)" by fastforce
  have "fst ` set (AList.delete (f n) m) \<subseteq> fst ` set xs" using Cons.prems x by (auto simp: delete_keys_set)
  with Cons.IH [of "AList.delete (f n) m"] Cons.prems(1) x show ?case by simp
qed simp

lemma fold_update_keys:
  "\<forall>(k, n) \<in> set xs. k = f n \<Longrightarrow>
     fst ` set (fold (\<lambda>(k, n). AList.update (f n) (n, e)) xs m) = fst ` set m \<union> fst ` set xs"
proof (induction xs arbitrary: m)
  case (Cons x xs)
  then show ?case by (cases x) (auto simp: update_keys_set)
qed simp

text \<open>Everything a stop cancels is a failure after it, and nothing is left to do.\<close>

lemma cancel_ok:
  assumes "range_order ord" "stores_ok kd nodes asked s"
  defines "s' \<equiv> cancel_waiting kd ord (cancel_todo kd ord s)"
  shows "sr_todo s' = []" "sr_waiting s' = []" "stores.more s' = stores.more s" "stores_ok kd nodes asked s'"
    "fst ` set (sr_failed s') = fst ` set (sr_failed s) \<union> fst ` set (sr_todo s) \<union> fst ` set (sr_waiting s)"
proof -
  let ?todo = "map_range ord (sr_todo s)" and ?wait = "map_range ord (sr_waiting s)" and ?e = "ErrorText ''cancelled''"
  have sets: "set ?todo = set (sr_todo s)" "set ?wait = set (sr_waiting s)"
    using assms(1,2) by (simp_all add: map_range_set stores_ok_def)
  have keyed: "\<forall>(k, n) \<in> set ?todo. k = node_str kd n" "\<forall>(k, n) \<in> set ?wait. k = node_str kd n"
    using assms(2) by (auto simp: sets stores_ok_def)
  have todo: "cancel_todo kd ord s = s\<lparr>sr_todo := [], sr_failed := fold (\<lambda>(k, n). AList.update (node_str kd n) (n, ?e)) ?todo (sr_failed s)\<rparr>"
    using fold_delete_all [OF keyed(1), of "sr_todo s"] sets by (simp add: cancel_todo_def fold_cancel_todo)
  have s': "s' = s\<lparr>sr_todo := [], sr_waiting := [],
      sr_failed := fold (\<lambda>(k, n). AList.update (node_str kd n) (n, ?e)) ?wait
        (fold (\<lambda>(k, n). AList.update (node_str kd n) (n, ?e)) ?todo (sr_failed s))\<rparr>"
    using fold_delete_all [OF keyed(2), of "sr_waiting s"] sets
    by (simp add: s'_def todo cancel_waiting_def fold_cancel_waiting)
  then show "sr_todo s' = []" "sr_waiting s' = []" "stores.more s' = stores.more s" by simp_all
  show "stores_ok kd nodes asked s'" using assms(2) by (simp add: s' stores_ok_def)
  show "fst ` set (sr_failed s') = fst ` set (sr_failed s) \<union> fst ` set (sr_todo s) \<union> fst ` set (sr_waiting s)"
    using fold_update_keys [OF keyed(1), of ?e] fold_update_keys [OF keyed(2), of ?e] sets by (auto simp: s')
qed

text \<open>The node a state asks for.\<close>

fun asked_of :: "('k, 'n, 'm) publish_state \<Rightarrow> 'n list" where
  "asked_of (StatePublishStoreRecord i n msg) = [n]"
| "asked_of _ = []"

fun is_start_event :: "('k, 'n, 'm) publish_event \<Rightarrow> bool" where
  "is_start_event (EventPublishStart target) = True"
| "is_start_event _ = False"

end
