(* ===== verification/StaticPublishTheorems.thy ===== *)
theory StaticPublishTheorems
  imports StaticPublish PublishFacts Tiny
begin

text \<open>The machine that publishes to fixed nodes asks each of them once and reports on all of them.\<close>

section \<open>Runs\<close>

text \<open>
  A machine that was created, started and advanced by events other than a second start, with the nodes
  it has asked, in order, and whether it was stopped. Each advance ranges over maps in its own order.
\<close>

inductive static_run ::
  "('k, 'n) kad_ops \<Rightarrow> activity_id \<Rightarrow> 'm \<Rightarrow> 'n list \<Rightarrow> 'n list \<Rightarrow> bool \<Rightarrow> ('n, 'm) static \<Rightarrow> bool"
  for kd :: "('k, 'n) kad_ops" and qid msg nodes where
  started: "new_static qid msg nodes cfg = Inr f0 \<Longrightarrow> range_order ord \<Longrightarrow>
    static_advance kd ord (EventPublishStart (target :: 'k)) f0 = Some (out, f) \<Longrightarrow>
    static_run kd qid msg nodes (asked_of out) False f"
| advanced: "static_run kd qid msg nodes asked stopped f \<Longrightarrow> range_order ord \<Longrightarrow> \<not> is_start_event ev \<Longrightarrow>
    static_advance kd ord (ev :: ('k, 'n, 'm) publish_event) f = Some (out, f') \<Longrightarrow>
    static_run kd qid msg nodes (asked @ asked_of out) (stopped \<or> is_stop_event ev) f'"

text \<open>Where each node is: still to be asked, waited for, a success or a failure.\<close>

definition static_names :: "('n, 'm) static \<Rightarrow> string set" where
  "static_names f = fst ` set (sr_todo f) \<union> fst ` set (sr_waiting f) \<union> fst ` set (sp_success f) \<union> fst ` set (sr_failed f)"

definition static_ok ::
  "('k, 'n) kad_ops \<Rightarrow> activity_id \<Rightarrow> 'm \<Rightarrow> 'n list \<Rightarrow> 'n list \<Rightarrow> bool \<Rightarrow> ('n, 'm) static \<Rightarrow> bool" where
  "static_ok kd qid msg nodes asked stopped f \<longleftrightarrow>
     sp_id f = qid \<and> sp_msg f = msg \<and> sp_nodes f = nodes \<and> stores_ok kd nodes asked f \<and>
     (if stopped then sr_todo f = [] else all_offered kd nodes asked f) \<and>
     names kd nodes \<subseteq> static_names f"

text \<open>The end of an advance, after its event.\<close>

definition static_next ::
  "(string list \<Rightarrow> string list) \<Rightarrow> ('n, 'm) static \<Rightarrow> ('k, 'n, 'm) publish_state \<times> ('n, 'm) static" where
  "static_next ord f =
     (case next_store ord f of
        Some (n, f') \<Rightarrow> (StatePublishStoreRecord (sp_id f) n (sp_msg f), f')
      | None \<Rightarrow>
          (if sr_waiting f \<noteq> [] then (StatePublishWaiting zero_time InvalidActivityID, f)
           else (StatePublishFinished (sp_id f) (static_contacted ord f) (sr_failed f) zero_query_stats, f)))"

lemma static_advance_next: "static_advance kd ord ev f = map_option (static_next ord) (static_handle kd ord ev f)"
  unfolding static_advance_def static_next_def [abs_def] ..

lemma static_more_eq: "stores.more f' = stores.more f \<Longrightarrow>
    sp_id f' = sp_id f \<and> sp_msg f' = sp_msg f \<and> sp_nodes f' = sp_nodes f \<and> sp_success f' = sp_success f"
  by (cases f; cases f') simp

lemma static_next_cases:
  assumes "range_order ord" "static_next ord f = (out, f')"
  obtains (asks) n where "next_store ord f = Some (n, f')" "out = StatePublishStoreRecord (sp_id f) n (sp_msg f)"
  | (waits) "sr_todo f = []" "sr_waiting f \<noteq> []" "f' = f" "out = StatePublishWaiting zero_time InvalidActivityID"
  | (ends) "sr_todo f = []" "sr_waiting f = []" "f' = f"
      "out = StatePublishFinished (sp_id f) (static_contacted ord f) (sr_failed f) zero_query_stats"
proof (cases "next_store ord f")
  case None
  with next_store_None [OF assms(1), of f] have "sr_todo f = []" by simp
  from None assms(2) have "(out, f') = (if sr_waiting f \<noteq> [] then (StatePublishWaiting zero_time InvalidActivityID, f)
      else (StatePublishFinished (sp_id f) (static_contacted ord f) (sr_failed f) zero_query_stats, f))"
    by (simp add: static_next_def)
  with \<open>sr_todo f = []\<close> show thesis by (cases "sr_waiting f = []") (auto intro: waits ends)
next
  case (Some r)
  obtain n g where r: "r = (n, g)" by fastforce
  have "(out, f') = (StatePublishStoreRecord (sp_id f) n (sp_msg f), g)"
    unfolding assms(2) [symmetric] static_next_def Some r by simp
  then have "g = f'" "out = StatePublishStoreRecord (sp_id f) n (sp_msg f)" by simp_all
  with Some r show thesis by (intro asks) simp_all
qed

lemma next_store_covers:
  assumes "range_order ord" "stores_ok kd nodes asked f" "next_store ord f = Some (n, f')"
  shows "fst ` set (sr_todo f) \<union> fst ` set (sr_waiting f) = fst ` set (sr_todo f') \<union> fst ` set (sr_waiting f')"
proof -
  from assms(3) obtain k where k: "(k, n) \<in> set (map_range ord (sr_todo f))"
    and f': "f' = f\<lparr>sr_todo := AList.delete k (sr_todo f), sr_waiting := AList.update k n (sr_waiting f)\<rparr>"
    by (auto simp: next_store_def split: list.splits)
  have "set (map_range ord (sr_todo f)) = set (sr_todo f)" using assms(1,2) by (simp add: map_range_set stores_ok_def)
  with k have "fst (k, n) \<in> fst ` set (sr_todo f)" by (intro imageI) simp
  then have "insert k (fst ` set (sr_todo f)) = fst ` set (sr_todo f)" by auto
  then show ?thesis by (simp add: f' delete_keys_set update_keys_set) blast
qed

lemma static_next_ok:
  assumes ord: "range_order ord" and ok: "static_ok kd qid msg nodes asked stopped f"
    and adv: "static_next ord f = (out, f')"
  shows "static_ok kd qid msg nodes (asked @ asked_of out) stopped f'"
  using ord adv
proof (cases rule: static_next_cases)
  case (asks n)
  from ok have sok: "stores_ok kd nodes asked f" by (simp add: static_ok_def)
  have "\<not> stopped" using ok asks(1) next_store_None [OF ord, of f] by (auto simp: static_ok_def)
  note asked = next_store_ok [OF ord sok asks(1)]
  have same: "sp_id f' = sp_id f" "sp_msg f' = sp_msg f" "sp_nodes f' = sp_nodes f" "sp_success f' = sp_success f"
    using static_more_eq [OF asked(4)] by simp_all
  have "static_names f' = static_names f"
    using next_store_covers [OF ord sok asks(1)] by (simp add: static_names_def same asked(3))
  with ok asks asked(1,2) same \<open>\<not> stopped\<close> show ?thesis by (simp add: static_ok_def)
qed (use ok in simp_all)

lemma static_names_answer:
  "static_names f \<subseteq> static_names ((heard_from kd n f)\<lparr>sp_success := AList.update (node_str kd n) n (sp_success f)\<rparr>)"
  "static_names f \<subseteq> static_names (fail_store kd n err (heard_from kd n f))"
  by (auto simp: static_names_def heard_from_def fail_store_def update_keys_set delete_keys_set)

lemma static_success_ok [simp]:
  "stores_ok kd nodes asked (f\<lparr>sp_success := m\<rparr>) = stores_ok kd nodes asked f"
  "all_offered kd nodes asked (f\<lparr>sp_success := m\<rparr>) = all_offered kd nodes asked f"
  by (simp_all add: stores_ok_def all_offered_def)

lemma static_answer_simps [simp]:
  "sp_id (heard_from kd n f) = sp_id f" "sp_msg (heard_from kd n f) = sp_msg f" "sp_nodes (heard_from kd n f) = sp_nodes f"
  "sp_success (heard_from kd n f) = sp_success f" "sr_todo (heard_from kd n f) = sr_todo f"
  "sp_id (fail_store kd n err f) = sp_id f" "sp_msg (fail_store kd n err f) = sp_msg f"
  "sp_nodes (fail_store kd n err f) = sp_nodes f" "sr_todo (fail_store kd n err f) = sr_todo f"
  by (simp_all add: heard_from_def fail_store_def)

lemma static_handle_ok:
  assumes ord: "range_order ord" and ok: "static_ok kd qid msg nodes asked stopped f"
    and ev: "\<not> is_start_event ev" "static_handle kd ord ev f = Some f'"
  shows "static_ok kd qid msg nodes asked (stopped \<or> is_stop_event ev) f'"
proof (cases ev)
  case EventPublishStop
  from ok have sok: "stores_ok kd nodes asked f" by (simp add: static_ok_def)
  note cancelled = cancel_ok [OF ord sok]
  from EventPublishStop ev have f': "f' = cancel_waiting kd ord (cancel_todo kd ord f)" by simp
  have same: "sp_id f' = sp_id f" "sp_msg f' = sp_msg f" "sp_nodes f' = sp_nodes f" "sp_success f' = sp_success f"
    using static_more_eq [OF cancelled(3)] f' by simp_all
  have "static_names f' = static_names f" using cancelled(1,2,5) same by (auto simp: static_names_def f')
  with ok cancelled(1,4) same f' EventPublishStop show ?thesis by (simp add: static_ok_def)
next
  case (EventPublishStoreRecordSuccess n req resp)
  with ok ev static_names_answer(1) [of f kd n] show ?thesis by (auto simp: static_ok_def Let_def)
next
  case (EventPublishStoreRecordFailure n req err)
  with ok ev static_names_answer(2) [of f kd n err] show ?thesis by (auto simp: static_ok_def Let_def)
qed (use ok ev in auto)

lemma static_run_ok: "static_run kd qid msg nodes asked stopped f \<Longrightarrow> static_ok kd qid msg nodes asked stopped f"
proof (induction rule: static_run.induct)
  case (started cfg f0 ord target out f)
  from started(1) have f0: "sr_todo f0 = []" "sr_waiting f0 = []" "sp_id f0 = qid" "sp_msg f0 = msg" "sp_nodes f0 = nodes"
    by (auto simp: new_static_def split: option.splits)
  let ?f1 = "add_todo kd nodes f0"
  have "static_ok kd qid msg nodes [] False ?f1"
    using add_todo_ok [OF f0(1,2), of kd nodes] f0 by (auto simp: static_ok_def static_names_def all_offered_def add_todo_def)
  from static_next_ok [OF started(2) this] started(3) f0 show ?case
    by (simp add: static_advance_next)
next
  case (advanced asked stopped f ord ev out f')
  from advanced(4) obtain f1 where "static_handle kd ord ev f = Some f1" "static_next ord f1 = (out, f')"
    by (auto simp: static_advance_next)
  with static_handle_ok [OF advanced(2,5,3)] static_next_ok [OF advanced(2)] show ?case by metis
qed

section \<open>The properties\<close>

text \<open>
  A publish to fixed nodes asks each of them at most once, and no other node, for its record. It
  finishes only when it has asked every node and each has answered, or when it is stopped; the errors
  it then reports, and the nodes it reports as contacted, cover every node: after a stop also the nodes
  that were never asked.
\<close>

theorem static_stores_once:
  assumes "static_run kd qid msg nodes asked stopped f" "range_order ord" "\<not> is_start_event ev"
    "static_advance kd ord ev f = Some (out, f')"
  shows "distinct (map (node_str kd) (asked @ asked_of out)) \<and> set (asked @ asked_of out) \<subseteq> set nodes \<and>
    (\<forall>i n m. out = StatePublishStoreRecord i n m \<longrightarrow> i = qid \<and> m = msg) \<and>
    (\<forall>i contacted errs stats. out = StatePublishFinished i contacted errs stats \<longrightarrow>
      i = qid \<and> errs = sr_failed f' \<and>
      (\<forall>n \<in> set nodes. node_str kd n \<in> fst ` set (sp_success f') \<union> fst ` set errs) \<and>
      contacted = static_contacted ord f' \<and>
      (\<not> stopped \<and> \<not> is_stop_event ev \<longrightarrow> names kd asked = names kd nodes))"
proof -
  from static_run.advanced [OF assms(1-4)] have ok': "static_ok kd qid msg nodes (asked @ asked_of out) (stopped \<or> is_stop_event ev) f'"
    by (rule static_run_ok)
  obtain f1 where f1: "static_handle kd ord ev f = Some f1" "static_next ord f1 = (out, f')"
    using assms(4) by (auto simp: static_advance_next)
  from static_handle_ok [OF assms(2) static_run_ok [OF assms(1)] assms(3) f1(1)]
  have ok1: "static_ok kd qid msg nodes asked (stopped \<or> is_stop_event ev) f1" .
  from assms(2) f1(2) show ?thesis
  proof (cases rule: static_next_cases)
    case (asks n)
    with ok' ok1 show ?thesis by (auto simp: static_ok_def stores_ok_def)
  next
    case waits
    with ok' show ?thesis by (auto simp: static_ok_def stores_ok_def)
  next
    case ends
    then have "names kd nodes \<subseteq> fst ` set (sp_success f1) \<union> fst ` set (sr_failed f1)"
      using ok1 by (simp add: static_ok_def static_names_def)
    then have "\<forall>n \<in> set nodes. node_str kd n \<in> fst ` set (sp_success f1) \<union> fst ` set (sr_failed f1)"
      by (auto simp: names_def)
    moreover have "names kd asked = names kd nodes" if "\<not> stopped \<and> \<not> is_stop_event ev"
      using ok1 that ends(1) by (simp add: static_ok_def all_offered_def)
    ultimately show ?thesis using ends ok1 by (simp add: static_ok_def stores_ok_def)
  qed
qed

text \<open>The nodes reported as contacted after a stop that comes before any answer: all of them.\<close>

definition tiny_static :: "(tiny_node, string) static" where
  "tiny_static = projr (new_static ''p'' ''m'' [new_node 1, new_node 2] None)"

definition tiny_static_started :: "(tiny_node, string) static" where
  "tiny_static_started = snd (the (static_advance tiny_kad (\<lambda>ks. ks) (EventPublishStart 1) tiny_static))"

lemma tiny_static_asks:
  "static_advance tiny_kad (\<lambda>ks. ks) (EventPublishStart 1) tiny_static =
     Some (StatePublishStoreRecord ''p'' (new_node 1) ''m'', tiny_static_started)"
proof -
  have "map_option fst (static_advance tiny_kad (\<lambda>ks. ks) (EventPublishStart 1) tiny_static) =
     Some (StatePublishStoreRecord ''p'' (new_node 1) ''m'')" by code_simp
  then show ?thesis by (auto simp: tiny_static_started_def)
qed

lemma tiny_static_run: "static_run tiny_kad ''p'' ''m'' [new_node 1, new_node 2] [new_node 1] False tiny_static_started"
proof -
  have "new_static ''p'' ''m'' [new_node 1, new_node 2] None = Inr tiny_static"
    by (simp add: tiny_static_def new_static_def)
  from static_run.started [OF this _ tiny_static_asks] show ?thesis by simp
qed

definition tiny_static_stopped ::
  "(tiny_key, tiny_node, string) publish_state \<times> (tiny_node, string) static" where
  "tiny_static_stopped = the (static_advance tiny_kad (\<lambda>ks. ks) EventPublishStop tiny_static_started)"

lemma tiny_static_stop:
  "static_advance tiny_kad (\<lambda>ks. ks) EventPublishStop tiny_static_started = Some tiny_static_stopped \<and>
   fst tiny_static_stopped = StatePublishFinished ''p'' [new_node 2, new_node 1]
     [(''02'', new_node 2, ErrorText ''cancelled''), (''01'', new_node 1, ErrorText ''cancelled'')] zero_query_stats"
  by code_simp

theorem static_stores_once_witness:
  "[new_node 2, new_node 1] = static_contacted (\<lambda>ks. ks) (snd tiny_static_stopped)"
proof -
  have "static_advance tiny_kad (\<lambda>ks. ks) EventPublishStop tiny_static_started =
      Some (StatePublishFinished ''p'' [new_node 2, new_node 1]
        [(''02'', new_node 2, ErrorText ''cancelled''), (''01'', new_node 1, ErrorText ''cancelled'')] zero_query_stats,
        snd tiny_static_stopped)"
    using tiny_static_stop by (simp add: prod_eq_iff)
  from static_stores_once [OF tiny_static_run range_order_id _ this] show ?thesis by simp
qed

end
