(* ===== verification/FollowUp.thy ===== *)
theory FollowUp
  imports Publish QueryPool
begin

text \<open>
  \<open>publish/followup.go\<close>: the machine that finds the nodes nearest to the target and then stores the
  record with each of them. The query pool it advances is shared with the other publishes: it is
  passed in and given back.
\<close>

record ('n, 'm) follow_up = "'n stores" +
  fo_id :: activity_id
  fo_msg :: 'm
  fo_seeds :: "'n list"
  fo_closest :: "'n list"
  fo_stats :: query_stats
  fo_success :: "(string \<times> 'n) list"

record follow_up_config =
  fuc_tracer :: bool

definition follow_up_config_validate :: "follow_up_config \<Rightarrow> go_error option" where
  "follow_up_config_validate cfg = first_error ''FollowUpConfig'' [(\<not> fuc_tracer cfg, ''tracer must not be nil'')]"

definition default_follow_up_config :: follow_up_config where
  "default_follow_up_config = \<lparr>fuc_tracer = True\<rparr>"

definition new_follow_up ::
  "activity_id \<Rightarrow> 'm \<Rightarrow> 'n list \<Rightarrow> follow_up_config option \<Rightarrow> ('n, 'm) follow_up go_result" where
  "new_follow_up qid msg seeds cfg_opt =
     (case (case cfg_opt of None \<Rightarrow> None | Some cfg \<Rightarrow> follow_up_config_validate cfg) of
        Some e \<Rightarrow> Inl e
      | None \<Rightarrow> Inr \<lparr>sr_todo = [], sr_waiting = [], sr_failed = [],
          fo_id = qid, fo_msg = msg, fo_seeds = seeds, fo_closest = [], fo_stats = zero_query_stats,
          fo_success = []\<rparr>)"

definition is_query_done :: "('n, 'm) follow_up \<Rightarrow> bool" where
  "is_query_done f \<longleftrightarrow> fo_closest f \<noteq> []"

text \<open>\<open>handleEvent\<close>: the event for the query pool, if any.\<close>

fun follow_up_event ::
  "('k, 'n) kad_ops \<Rightarrow> ('k, 'n, 'm) publish_event \<Rightarrow> ('n, 'm) follow_up \<Rightarrow>
     ('k, 'n, 'm) pool_event option \<times> ('n, 'm) follow_up" where
  "follow_up_event kd (EventPublishStart target) f =
     (Some (EventPoolAddFindCloserQuery (fo_id f) target (fo_seeds f) 0), f)"
| "follow_up_event kd EventPublishStop f =
     (if is_query_done f then (None, f) else (Some (EventPoolStopQuery (fo_id f)), f))"
| "follow_up_event kd (EventPublishNodeResponse n closer) f = (Some (EventPoolNodeResponse (fo_id f) n closer), f)"
| "follow_up_event kd (EventPublishNodeFailure n err) f = (Some (EventPoolNodeFailure (fo_id f) n err), f)"
| "follow_up_event kd (EventPublishStoreRecordSuccess n req resp) f =
     (let f' = heard_from kd n f in (None, f'\<lparr>fo_success := AList.update (node_str kd n) n (fo_success f')\<rparr>))"
| "follow_up_event kd (EventPublishStoreRecordFailure n req err) f = (None, fail_store kd n err (heard_from kd n f))"
| "follow_up_event kd EventPublishPoll f = (Some EventPoolPoll, f)"

text \<open>
  What \<open>advancePool\<close> makes of the state of the query pool: the state to return at once, if any. The
  code does not compare the id in the state with its own. A state it panics on gives \<open>None\<close>.
\<close>

fun follow_up_pool_state ::
  "('k, 'n) kad_ops \<Rightarrow> ('k, 'n, 'm) pool_state \<Rightarrow> ('n, 'm) follow_up \<Rightarrow>
     (('k, 'n, 'm) publish_state option \<times> ('n, 'm) follow_up) option" where
  "follow_up_pool_state kd (StatePoolFindCloser i target n stats) f = Some (Some (StatePublishFindCloser i n target), f)"
| "follow_up_pool_state kd (StatePoolWaitingAtCapacity due) f = Some (Some (StatePublishWaiting due (fo_id f)), f)"
| "follow_up_pool_state kd (StatePoolWaitingWithCapacity due) f = Some (Some (StatePublishWaiting due (fo_id f)), f)"
| "follow_up_pool_state kd (StatePoolQueryFinished i stats target closest) f =
     (let f' = f\<lparr>fo_stats := stats\<rparr>
      in if closest = [] then Some (Some (StatePublishFinished (fo_id f') [] [] (fo_stats f')), f')
         else Some (None, add_todo kd closest (f'\<lparr>fo_closest := closest\<rparr>)))"
| "follow_up_pool_state kd (StatePoolQueryTimeout i stats) f =
     (let f' = f\<lparr>fo_stats := stats\<rparr> in Some (Some (StatePublishFinished (fo_id f') [] [] (fo_stats f')), f'))"
| "follow_up_pool_state kd (StatePoolIdle due) f = Some (None, f)"
| "follow_up_pool_state kd (StatePoolSendMessage i n msg stats) f = None"

definition follow_up_pool ::
  "('k, 'n) kad_ops \<Rightarrow> ('k, 'n node_status, 'tr) trie_ops \<Rightarrow> time \<Rightarrow> ('k, 'n, 'm) pool_event option \<Rightarrow>
     ('k, 'n, 'm, 'tr) query_pool \<Rightarrow> ('n, 'm) follow_up \<Rightarrow>
     (('k, 'n, 'm) publish_state option \<times> ('k, 'n, 'm, 'tr) query_pool \<times> ('n, 'm) follow_up) option" where
  "follow_up_pool kd T now pev qp f =
     (case pev of
        None \<Rightarrow> Some (None, qp, f)
      | Some ev \<Rightarrow> (case pool_advance kd T now ev qp of
          (st, qp') \<Rightarrow> map_option (\<lambda>(out, f'). (out, qp', f')) (follow_up_pool_state kd st f)))"

text \<open>The second phase of \<open>Advance\<close>.\<close>

definition follow_up_store ::
  "('k, 'n) kad_ops \<Rightarrow> (string list \<Rightarrow> string list) \<Rightarrow> bool \<Rightarrow> ('n, 'm) follow_up \<Rightarrow>
     ('k, 'n, 'm) publish_state \<times> ('n, 'm) follow_up" where
  "follow_up_store kd ord is_stop f0 =
     (let f = (if is_stop then cancel_waiting kd ord (cancel_todo kd ord f0) else f0)
      in case next_store ord f of
           Some (n, f') \<Rightarrow> (StatePublishStoreRecord (fo_id f) n (fo_msg f), f')
         | None \<Rightarrow>
             (if sr_waiting f \<noteq> [] then (StatePublishWaiting zero_time InvalidActivityID, f)
              else if is_stop \<or> (sr_todo f = [] \<and> fo_closest f \<noteq> [])
              then (StatePublishFinished (fo_id f) (fo_closest f) (sr_failed f) (fo_stats f), f)
              else (StatePublishIdle, f)))"

definition follow_up_advance ::
  "('k, 'n) kad_ops \<Rightarrow> ('k, 'n node_status, 'tr) trie_ops \<Rightarrow> (string list \<Rightarrow> string list) \<Rightarrow> time \<Rightarrow>
     ('k, 'n, 'm) publish_event \<Rightarrow> ('k, 'n, 'm, 'tr) query_pool \<Rightarrow> ('n, 'm) follow_up \<Rightarrow>
     (('k, 'n, 'm) publish_state \<times> ('k, 'n, 'm, 'tr) query_pool \<times> ('n, 'm) follow_up) option" where
  "follow_up_advance kd T ord now ev qp f0 =
     (case follow_up_event kd ev f0 of
        (pev, f1) \<Rightarrow>
          (case follow_up_pool kd T now pev qp f1 of
             None \<Rightarrow> None
           | Some (Some out, qp', f') \<Rightarrow> Some (out, qp', f')
           | Some (None, qp', f') \<Rightarrow>
               (case follow_up_store kd ord (is_stop_event ev) f' of (out, f2) \<Rightarrow> Some (out, qp', f2))))"

end
