(* ===== verification/FollowUpTheorems.thy ===== *)
theory FollowUpTheorems
  imports FollowUp PublishFacts QueryPoolTheorems
begin

text \<open>
  The machine that follows a lookup up with the stores: alone in its query pool it stores the record
  once with each of the nodes its lookup settled on; sharing the pool it can take another publish's
  lookup for its own.
\<close>

section \<open>Runs of a machine alone in its pool\<close>

inductive lone_run ::
  "('k, 'n) kad_ops \<Rightarrow> ('k, 'n node_status, 'tr) trie_ops \<Rightarrow> activity_id \<Rightarrow> 'n list \<Rightarrow> bool \<Rightarrow>
     ('k, 'n, 'm, 'tr) query_pool \<Rightarrow> ('n, 'm) follow_up \<Rightarrow> bool"
  for kd T qid where
  started: "new_follow_up qid msg seeds cfg = Inr f0 \<Longrightarrow> pool_reached kd T evs qp0 \<Longrightarrow> \<forall>j. po_index qp0 j = None \<Longrightarrow>
    range_order ord \<Longrightarrow> follow_up_advance kd T ord now (EventPublishStart target) qp0 f0 = Some (out, qp, f) \<Longrightarrow>
    lone_run kd T qid (asked_of out) False qp f"
| advanced: "lone_run kd T qid asked stopped qp f \<Longrightarrow> range_order ord \<Longrightarrow> \<not> is_start_event ev \<Longrightarrow>
    follow_up_advance kd T ord now ev qp f = Some (out, qp', f') \<Longrightarrow>
    lone_run kd T qid (asked @ asked_of out) (stopped \<or> is_stop_event ev) qp' f'"

section \<open>The invariant\<close>

definition follow_up_ok ::
  "('k, 'n) kad_ops \<Rightarrow> ('k, 'n node_status, 'tr) trie_ops \<Rightarrow> ('tr \<Rightarrow> bool) \<Rightarrow> activity_id \<Rightarrow> 'n list \<Rightarrow> bool \<Rightarrow>
     ('k, 'n, 'm, 'tr) query_pool \<Rightarrow> ('n, 'm) follow_up \<Rightarrow> bool" where
  "follow_up_ok kd T ok qid asked stopped qp f \<longleftrightarrow>
     fo_id f = qid \<and> pool_wf kd T ok qp \<and> (\<forall>j. j \<noteq> qid \<longrightarrow> po_index qp j = None) \<and>
     stores_ok kd (fo_closest f) asked f \<and> (fo_closest f \<noteq> [] \<longrightarrow> po_index qp qid = None) \<and>
     (\<not> stopped \<longrightarrow> all_offered kd (fo_closest f) asked f)"

lemma follow_up_stores_simps [simp]:
  "stores_ok kd nodes asked (f\<lparr>fo_closest := c\<rparr>) = stores_ok kd nodes asked f"
  "stores_ok kd nodes asked (f\<lparr>fo_stats := st\<rparr>) = stores_ok kd nodes asked f"
  "stores_ok kd nodes asked (f\<lparr>fo_success := m\<rparr>) = stores_ok kd nodes asked f"
  "all_offered kd nodes asked (f\<lparr>fo_closest := c\<rparr>) = all_offered kd nodes asked f"
  "all_offered kd nodes asked (f\<lparr>fo_stats := st\<rparr>) = all_offered kd nodes asked f"
  "all_offered kd nodes asked (f\<lparr>fo_success := m\<rparr>) = all_offered kd nodes asked f"
  by (simp_all add: stores_ok_def all_offered_def)

lemma follow_up_answer_simps [simp]:
  "fo_id (heard_from kd n f) = fo_id f" "fo_closest (heard_from kd n f) = fo_closest f"
  "fo_id (fail_store kd n err f) = fo_id f" "fo_closest (fail_store kd n err f) = fo_closest f"
  "fo_id (add_todo kd ns f) = fo_id f" "fo_closest (add_todo kd ns f) = fo_closest f"
  by (simp_all add: heard_from_def fail_store_def add_todo_def)

lemma follow_up_more_eq: "stores.more f' = stores.more f \<Longrightarrow>
    fo_id f' = fo_id f \<and> fo_closest f' = fo_closest f \<and> fo_msg f' = fo_msg f \<and> fo_stats f' = fo_stats f"
  by (cases f; cases f') simp

lemma follow_up_event_ok:
  assumes "follow_up_ok kd T ok qid asked stopped qp f" "follow_up_event kd ev f = (pev, f')"
  shows "follow_up_ok kd T ok qid asked stopped qp f'"
    "Option.bind pev adds_query = (if is_start_event ev then Some qid else None)"
    "fo_closest f' = fo_closest f"
  using assms by (cases ev; auto simp: follow_up_ok_def Let_def adds_query_def split: if_splits)+

text \<open>The states of the pool of a machine that has it to itself.\<close>

lemma lone_pool_state:
  assumes trie: "kad_node_trie kd T ok" and inv: "follow_up_ok kd T ok qid asked stopped qp f"
    and adds: "adds_query ev = Some qid \<Longrightarrow> fo_closest f = []" "adds_query ev \<in> {None, Some qid}"
    and adv: "pool_advance kd T now ev qp = (st, qp')"
  shows "pool_wf kd T ok qp'" "\<forall>j. j \<noteq> qid \<longrightarrow> po_index qp' j = None"
    "fo_closest f \<noteq> [] \<Longrightarrow> po_index qp' qid = None"
    "leaving st = Some i \<Longrightarrow> i = qid \<and> fo_closest f = [] \<and> po_index qp' qid = None"
    "asking st = Some i \<Longrightarrow> i = qid"
proof -
  from inv have wf: "pool_wf kd T ok qp" and index: "\<And>j. j \<noteq> qid \<Longrightarrow> po_index qp j = None"
    and ended: "fo_closest f \<noteq> [] \<Longrightarrow> po_index qp qid = None" by (simp_all add: follow_up_ok_def)
  from kad_node_trie.pool_advance_ok [OF trie wf adv]
  have wf': "pool_wf kd T ok qp'" and ch: "pool_changed ev qp st qp'" by simp_all
  from wf' show "pool_wf kd T ok qp'" .
  have kept: "po_index qp' j = (if leaving st = Some j then None else po_index qp j)" if "adds_query ev \<noteq> Some j" for j
    using ch that by (simp add: pool_changed_def)
  have left: "(po_index qp i \<noteq> None \<or> adds_query ev = Some i) \<and> po_index qp' i = None" if "leaving st = Some i" for i
    using ch that by (simp add: pool_changed_def)
  have other: "po_index qp' j = None" if "j \<noteq> qid" for j using kept [of j] index [OF that] adds(2) that by auto
  then show "\<forall>j. j \<noteq> qid \<longrightarrow> po_index qp' j = None" by simp
  show "po_index qp' qid = None" if "fo_closest f \<noteq> []"
    using kept [of qid] ended [OF that] adds(1) that by (cases "adds_query ev = Some qid") auto
  show "i = qid \<and> fo_closest f = [] \<and> po_index qp' qid = None" if "leaving st = Some i"
  proof -
    from left [OF that] index adds(2) have "i = qid" by (cases "i = qid") auto
    with left [OF that] ended adds(1) show ?thesis by (cases "fo_closest f = []") auto
  qed
  show "i = qid" if "asking st = Some i"
    using ch that other [of i] by (cases "i = qid") (simp_all add: pool_changed_def)
qed

lemma follow_up_pool_ok:
  assumes trie: "kad_node_trie kd T ok" and inv: "follow_up_ok kd T ok qid asked stopped qp f"
    and adds: "Option.bind pev adds_query = Some qid \<Longrightarrow> fo_closest f = []" "Option.bind pev adds_query \<in> {None, Some qid}"
    and adv: "follow_up_pool kd T now pev qp f = Some (r, qp', f')"
  shows "follow_up_ok kd T ok qid asked stopped qp' f' \<and>
    (\<forall>out. r = Some out \<longrightarrow> asked_of out = [] \<and> (\<forall>i n k. out = StatePublishFindCloser i n k \<longrightarrow> i = qid) \<and>
      (\<forall>i c errs stats. out = StatePublishFinished i c errs stats \<longrightarrow> i = qid \<and> c = [] \<and> errs = [] \<and> asked = []))"
proof (cases pev)
  case None
  with adv inv show ?thesis by (simp add: follow_up_pool_def)
next
  case (Some ev)
  obtain st qp1 where pool: "pool_advance kd T now ev qp = (st, qp1)" by fastforce
  with adv Some have state: "follow_up_pool_state kd st f = Some (r, f')" and qp': "qp' = qp1"
    by (auto simp: follow_up_pool_def)
  have adds': "adds_query ev = Some qid \<Longrightarrow> fo_closest f = []" "adds_query ev \<in> {None, Some qid}"
    using adds by (simp_all add: Some)
  note lone = lone_pool_state [OF trie inv adds' pool]
  from inv have sok: "stores_ok kd (fo_closest f) asked f" by (simp add: follow_up_ok_def)
  show ?thesis
  proof (cases st)
    case (StatePoolQueryFinished i stats target closest)
    with lone(4) [of i] have i: "i = qid" "fo_closest f = []" "po_index qp1 qid = None" by simp_all
    with stores_ok_no_nodes [of kd asked f] sok have none: "asked = []" "sr_todo f = []" "sr_waiting f = []" by simp_all
    with StatePoolQueryFinished state i lone(1,2) inv qp' show ?thesis
      using add_todo_ok [of "f\<lparr>fo_stats := stats, fo_closest := closest\<rparr>" kd closest]
      by (cases "closest = []") (auto simp: follow_up_ok_def Let_def)
  next
    case (StatePoolQueryTimeout i stats)
    with lone(4) [of i] have i: "i = qid" "fo_closest f = []" "po_index qp1 qid = None" by simp_all
    with stores_ok_no_nodes [of kd asked f] sok have none: "asked = []" by simp
    with StatePoolQueryTimeout state i lone(1,2) inv qp' show ?thesis
      by (auto simp: follow_up_ok_def Let_def)
  qed (use state lone inv qp' in \<open>auto simp: follow_up_ok_def\<close>)
qed

lemma follow_up_store_ok:
  assumes ord: "range_order ord" and inv: "follow_up_ok kd T ok qid asked stopped qp f"
    and adv: "follow_up_store kd ord stop f = (out, f')"
  shows "follow_up_ok kd T ok qid (asked @ asked_of out) (stopped \<or> stop) qp f' \<and>
    (\<forall>i n k. out \<noteq> StatePublishFindCloser i n k) \<and> (\<forall>i n m. out = StatePublishStoreRecord i n m \<longrightarrow> i = qid) \<and>
    (\<forall>i c errs stats. out = StatePublishFinished i c errs stats \<longrightarrow>
      i = qid \<and> c = fo_closest f' \<and> errs = sr_failed f' \<and> (\<not> stopped \<and> \<not> stop \<longrightarrow> names kd asked = names kd c))"
proof -
  let ?f = "if stop then cancel_waiting kd ord (cancel_todo kd ord f) else f"
  from inv have sok: "stores_ok kd (fo_closest f) asked f" by (simp add: follow_up_ok_def)
  note cancelled = cancel_ok [OF ord sok]
  have inv1: "follow_up_ok kd T ok qid asked (stopped \<or> stop) qp ?f"
    using inv cancelled(4) follow_up_more_eq [OF cancelled(3)] by (auto simp: follow_up_ok_def)
  then have sok1: "stores_ok kd (fo_closest ?f) asked ?f" by (simp add: follow_up_ok_def)
  have adv1: "(out, f') = (case next_store ord ?f of
      Some (n, f') \<Rightarrow> (StatePublishStoreRecord (fo_id ?f) n (fo_msg ?f), f')
    | None \<Rightarrow> (if sr_waiting ?f \<noteq> [] then (StatePublishWaiting zero_time InvalidActivityID, ?f)
        else if stop \<or> (sr_todo ?f = [] \<and> fo_closest ?f \<noteq> [])
        then (StatePublishFinished (fo_id ?f) (fo_closest ?f) (sr_failed ?f) (fo_stats ?f), ?f)
        else (StatePublishIdle, ?f)))"
    using adv by (simp only: follow_up_store_def Let_def)
  show ?thesis
  proof (cases "next_store ord ?f")
    case None
    then have "sr_todo ?f = []" using next_store_None [OF ord] by blast
    moreover have "\<not> stopped \<and> \<not> stop \<Longrightarrow> all_offered kd (fo_closest ?f) asked ?f"
      using inv1 by (simp add: follow_up_ok_def)
    moreover have "f' = ?f" using adv1 None by (auto split: if_splits)
    moreover have "out = StatePublishWaiting zero_time InvalidActivityID \<or> out = StatePublishIdle \<or>
        out = StatePublishFinished (fo_id ?f) (fo_closest ?f) (sr_failed ?f) (fo_stats ?f)"
      using adv1 None by (auto split: if_splits)
    ultimately show ?thesis using inv1 by (auto simp: follow_up_ok_def all_offered_def)
  next
    case (Some r)
    obtain n g where r: "r = (n, g)" by fastforce
    from adv1 Some r have out: "out = StatePublishStoreRecord (fo_id ?f) n (fo_msg ?f)" "f' = g" by simp_all
    note stored = next_store_ok [OF ord sok1 Some[unfolded r]]
    have "follow_up_ok kd T ok qid (asked @ [n]) (stopped \<or> stop) qp g"
      using inv1 stored(1,2) follow_up_more_eq [OF stored(4)] by (auto simp: follow_up_ok_def)
    moreover have "fo_id ?f = qid" using inv1 by (simp add: follow_up_ok_def)
    ultimately show ?thesis using out by simp
  qed
qed

lemma follow_up_step:
  assumes trie: "kad_node_trie kd T ok" and ord: "range_order ord" and inv: "follow_up_ok kd T ok qid asked stopped qp f"
    and start: "is_start_event ev \<Longrightarrow> fo_closest f = []"
    and adv: "follow_up_advance kd T ord now ev qp f = Some (out, qp', f')"
  shows "follow_up_ok kd T ok qid (asked @ asked_of out) (stopped \<or> is_stop_event ev) qp' f' \<and>
    (\<forall>i n k. out = StatePublishFindCloser i n k \<longrightarrow> i = qid) \<and>
    (\<forall>i c errs stats. out = StatePublishFinished i c errs stats \<longrightarrow> i = qid \<and>
      (c = [] \<and> asked = [] \<or> c = fo_closest f' \<and> errs = sr_failed f') \<and>
      (\<not> stopped \<and> \<not> is_stop_event ev \<longrightarrow> names kd asked = names kd c))"
proof -
  obtain pev f1 where ev: "follow_up_event kd ev f = (pev, f1)" by fastforce
  note event = follow_up_event_ok [OF inv ev]
  obtain r qp1 f2 where pool: "follow_up_pool kd T now pev qp f1 = Some (r, qp1, f2)"
    using adv ev by (auto simp: follow_up_advance_def split: option.splits)
  have after: "follow_up_ok kd T ok qid asked stopped qp1 f2 \<and>
    (\<forall>out. r = Some out \<longrightarrow> asked_of out = [] \<and> (\<forall>i n k. out = StatePublishFindCloser i n k \<longrightarrow> i = qid) \<and>
      (\<forall>i c errs stats. out = StatePublishFinished i c errs stats \<longrightarrow> i = qid \<and> c = [] \<and> errs = [] \<and> asked = []))"
    by (rule follow_up_pool_ok [OF trie event(1) _ _ pool]) (use event(2,3) start in \<open>auto split: if_splits\<close>)
  show ?thesis
  proof (cases r)
    case (Some st)
    with adv ev pool have "out = st" "qp' = qp1" "f' = f2" by (simp_all add: follow_up_advance_def)
    with after Some show ?thesis by (auto simp: follow_up_ok_def)
  next
    case None
    with adv ev pool have "follow_up_store kd ord (is_stop_event ev) f2 = (out, f')" "qp' = qp1"
      by (auto simp: follow_up_advance_def split: prod.splits)
    with follow_up_store_ok [OF ord, of kd T ok qid asked stopped qp1 f2] after show ?thesis by blast
  qed
qed

lemma lone_run_ok:
  assumes trie: "kad_node_trie kd T ok"
  shows "lone_run kd T qid asked stopped qp f \<Longrightarrow> follow_up_ok kd T ok qid asked stopped qp f"
proof (induction rule: lone_run.induct)
  case (started msg seeds cfg f0 evs qp0 ord now target out qp f)
  from started(1) have f0: "sr_todo f0 = []" "sr_waiting f0 = []" "fo_id f0 = qid" "fo_closest f0 = []"
    by (auto simp: new_follow_up_def split: option.splits)
  with started(3) kad_node_trie.pool_reached_wf [OF trie started(2)]
  have "follow_up_ok kd T ok qid [] False qp0 f0" by (simp add: follow_up_ok_def stores_ok_def all_offered_def)
  from follow_up_step [OF trie started(4) this _ started(5)] f0 show ?case by simp
next
  case (advanced asked stopped qp f ord ev now out qp' f')
  from follow_up_step [OF trie advanced(2,5) _ advanced(4)] advanced(3) show ?case by simp
qed

section \<open>The properties\<close>


end
