(* ===== verification/FollowUpWitnesses.thy ===== *)
theory FollowUpWitnesses
  imports FollowUpTheorems
begin

text \<open>
  Publishes on the tiny network: one alone in its query pool, and two that share one.
\<close>

section \<open>Two publishes in one pool\<close>

type_synonym tiny_follow_up = "(tiny_node, tiny_message) follow_up"

abbreviation tiny_record :: "string \<Rightarrow> tiny_message" where
  "tiny_record c \<equiv> \<lparr>tm_content = c, tm_target = 1, tm_closer = []\<rparr>"

definition tiny_shared_pool :: tiny_pool where
  "tiny_shared_pool = tiny_new_pool\<lparr>po_cfg := tiny_pool_config\<lparr>pc_concurrency := 2\<rparr>\<rparr>"

definition follow_up_a :: tiny_follow_up where
  "follow_up_a = projr (new_follow_up ''a'' (tiny_record ''A'') [new_node 4] None)"

definition follow_up_b :: tiny_follow_up where
  "follow_up_b = projr (new_follow_up ''b'' (tiny_record ''B'') [new_node 8] None)"

abbreviation tiny_follow_advance ::
  "time \<Rightarrow> (tiny_key, tiny_node, tiny_message) publish_event \<Rightarrow> tiny_pool \<Rightarrow> tiny_follow_up \<Rightarrow>
     (tiny_key, tiny_node, tiny_message) publish_state \<times> tiny_pool \<times> tiny_follow_up" where
  "tiny_follow_advance now ev qp f \<equiv> the (follow_up_advance tiny_kad tiny_trie (\<lambda>ks. ks) now ev qp f)"

text \<open>The states the two machines report, and whether their lookups are in the pool when the second is polled.\<close>

definition tiny_two_publishes ::
  "(tiny_key, tiny_node, tiny_message) publish_state list \<times> bool \<times> bool" where
  "tiny_two_publishes =
     (let (s1, p1, a1) = tiny_follow_advance 1 (EventPublishStart 1) tiny_shared_pool follow_up_a;
          (s2, p2, b1) = tiny_follow_advance 2 (EventPublishStart 2) p1 follow_up_b;
          (s3, p3, a2) = tiny_follow_advance 3 (EventPublishNodeResponse (new_node 4) [new_node 5]) p2 a1;
          (s4, p4, b2) = tiny_follow_advance 14 EventPublishPoll p3 b1;
          (s5, p5, a3) = tiny_follow_advance 14 EventPublishPoll p4 a2
      in ([s1, s2, s3, s4, s5], po_index p4 ''a'' \<noteq> None, po_index p4 ''b'' \<noteq> None))"


section \<open>A publish alone\<close>


definition alone_started :: "(tiny_key, tiny_node, tiny_message) publish_state \<times> tiny_pool \<times> tiny_follow_up" where
  "alone_started = tiny_follow_advance 1 (EventPublishStart 1) tiny_new_pool follow_up_a"

definition alone_stores :: "(tiny_key, tiny_node, tiny_message) publish_state \<times> tiny_pool \<times> tiny_follow_up" where
  "alone_stores = tiny_follow_advance 2 (EventPublishNodeResponse (new_node 4) []) (fst (snd alone_started)) (snd (snd alone_started))"

lemma alone_starts:
  "follow_up_advance tiny_kad tiny_trie (\<lambda>ks. ks) 1 (EventPublishStart 1) tiny_new_pool follow_up_a =
     Some (StatePublishFindCloser ''a'' (new_node 4) 1, fst (snd alone_started), snd (snd alone_started))"
proof -
  have "map_option fst (follow_up_advance tiny_kad tiny_trie (\<lambda>ks. ks) 1 (EventPublishStart 1) tiny_new_pool follow_up_a) =
     Some (StatePublishFindCloser ''a'' (new_node 4) 1)" by code_simp
  then show ?thesis by (auto simp: alone_started_def)
qed

lemma alone_run: "lone_run tiny_kad tiny_trie ''a'' [] False (fst (snd alone_started)) (snd (snd alone_started))"
proof -
  have "new_follow_up ''a'' (tiny_record ''A'') [new_node 4] None = Inr follow_up_a"
    by (simp add: follow_up_a_def new_follow_up_def)
  moreover have "pool_reached tiny_kad tiny_trie [] tiny_new_pool" using tiny_pool_reached [of "[]"] by simp
  moreover have "\<forall>j. po_index tiny_new_pool j = None" by (simp add: tiny_new_pool_def)
  ultimately have "lone_run tiny_kad tiny_trie ''a'' (asked_of (StatePublishFindCloser ''a'' (new_node 4) 1 ::
      (tiny_key, tiny_node, tiny_message) publish_state)) False (fst (snd alone_started)) (snd (snd alone_started))"
    using alone_starts by (rule lone_run.started [OF _ _ _ range_order_id])
  then show ?thesis by simp
qed


end
