(* ===== verification/RegionPublish.thy ===== *)
theory RegionPublish
  imports Coordt "HOL-Library.AList"
begin

text \<open>
  \<open>publish/region.go\<close>: the machine that schedules the publishing of every key of a surveyed region,
  one publish per key, at most \<open>rp_max_in_flight\<close> of them at once.

  \<open>slices.SortFunc\<close> of the standard library does not keep the order of elements that compare equal:
  the sort is the argument \<open>srt\<close>, which takes the comparison function and the slice. The map of the
  publishes in flight is a list of entries with distinct keys.
\<close>

section \<open>Configuration\<close>

record region_publish_config =
  rpc_tracer :: bool
  rpc_replication :: int
  rpc_max_in_flight :: int

definition region_publish_config_validate :: "region_publish_config \<Rightarrow> go_error option" where
  "region_publish_config_validate cfg =
     first_error ''RegionPublishConfig''
       [(\<not> rpc_tracer cfg, ''tracer must not be nil''),
        (rpc_replication cfg < 1, ''replication must be greater than zero''),
        (rpc_max_in_flight cfg < 1, ''max in flight must be greater than zero'')]"

definition default_region_publish_config :: region_publish_config where
  "default_region_publish_config = \<lparr>rpc_tracer = True, rpc_replication = 20, rpc_max_in_flight = 16\<rparr>"

section \<open>The machine\<close>

record ('k, 'n) region_publish =
  rp_id :: activity_id
  rp_keys :: "'k list"
  rp_nodes :: "'n list"
  rp_r :: int
  rp_max_in_flight :: int
  rp_cursor :: nat
  rp_in_flight :: "(activity_id \<times> nat) list"

datatype ('k, 'n) region_state =
    StateRegionStartKey activity_id 'k "'n list"
  | StateRegionWaiting time
  | StateRegionFinished

datatype region_event =
    EventRegionPoll
  | EventRegionKeyDone activity_id

definition new_region_publish ::
  "activity_id \<Rightarrow> 'k list \<Rightarrow> 'n list \<Rightarrow> region_publish_config option \<Rightarrow> ('k, 'n) region_publish go_result" where
  "new_region_publish qid keys nodes cfg_opt =
     (let cfg = (case cfg_opt of None \<Rightarrow> default_region_publish_config | Some cfg \<Rightarrow> cfg)
      in case (if cfg_opt = None then None else region_publish_config_validate cfg) of
           Some e \<Rightarrow> Inl e
         | None \<Rightarrow> Inr \<lparr>rp_id = qid, rp_keys = keys, rp_nodes = nodes, rp_r = rpc_replication cfg,
             rp_max_in_flight = rpc_max_in_flight cfg, rp_cursor = 0, rp_in_flight = []\<rparr>)"

text \<open>\<open>closest\<close>; the constructor has checked that the number of nodes is positive.\<close>

definition region_closest ::
  "('k, 'n) kad_ops \<Rightarrow> (('n \<Rightarrow> 'n \<Rightarrow> int) \<Rightarrow> 'n list \<Rightarrow> 'n list) \<Rightarrow> 'n list \<Rightarrow> 'k \<Rightarrow> int \<Rightarrow> 'n list" where
  "region_closest kd srt nodes target r =
     (let sorted = srt (\<lambda>a b. key_compare kd (key_xor kd (node_key kd a) target)
                                (key_xor kd (node_key kd b) target)) nodes
      in if r < int (length sorted) then take (nat r) sorted else sorted)"

text \<open>The id of the publish of the key at an index: the \<open>%s-%d\<close> format.\<close>

definition child_id :: "activity_id \<Rightarrow> nat \<Rightarrow> activity_id" where
  "child_id qid i = qid @ ''-'' @ decimal i"

definition region_next :: "('k, 'n) region_publish \<Rightarrow> ('k, 'n) region_state" where
  "region_next rp =
     (if rp_cursor rp < length (rp_keys rp) \<or> 0 < length (rp_in_flight rp)
      then StateRegionWaiting zero_time else StateRegionFinished)"

fun region_advance ::
  "('k, 'n) kad_ops \<Rightarrow> (('n \<Rightarrow> 'n \<Rightarrow> int) \<Rightarrow> 'n list \<Rightarrow> 'n list) \<Rightarrow> region_event \<Rightarrow>
     ('k, 'n) region_publish \<Rightarrow> ('k, 'n) region_state \<times> ('k, 'n) region_publish" where
  "region_advance kd srt (EventRegionKeyDone child) rp =
     (let rp' = rp\<lparr>rp_in_flight := AList.delete child (rp_in_flight rp)\<rparr> in (region_next rp', rp'))"
| "region_advance kd srt EventRegionPoll rp =
     (if rp_cursor rp < length (rp_keys rp) \<and> int (length (rp_in_flight rp)) < rp_max_in_flight rp
      then (let i = rp_cursor rp; k = rp_keys rp ! i; child = child_id (rp_id rp) i
            in (StateRegionStartKey child k (region_closest kd srt (rp_nodes rp) k (rp_r rp)),
                rp\<lparr>rp_cursor := i + 1, rp_in_flight := AList.update child i (rp_in_flight rp)\<rparr>))
      else (region_next rp, rp))"

end
