(* ===== verification/RegionPublishTheorems.thy ===== *)
theory RegionPublishTheorems
  imports RegionPublish TinyNetwork PublishFacts
begin

text \<open>
  The machine of a region starts a publish for every key, in order, each with the nodes of the region
  nearest to the key, never more at once than its limit; a caller that polls it and reports the publishes
  it started is done after a number of steps known beforehand.
\<close>

section \<open>The sort of the standard library\<close>

text \<open>
  What \<open>slices.SortFunc\<close> documents: the slice is rearranged, and it is in order when the comparison
  is a strict weak ordering.
\<close>

definition weak_ordering :: "('a \<Rightarrow> 'a \<Rightarrow> int) \<Rightarrow> bool" where
  "weak_ordering cmp \<longleftrightarrow>
     (\<forall>a b. cmp a b < 0 \<longleftrightarrow> 0 < cmp b a) \<and> (\<forall>a b c. cmp a b \<le> 0 \<longrightarrow> cmp b c \<le> 0 \<longrightarrow> cmp a c \<le> 0)"

lemma weak_orderingD:
  assumes "weak_ordering cmp"
  shows "\<not> cmp a b \<le> 0 \<Longrightarrow> cmp b a \<le> 0" "cmp a b \<le> 0 \<Longrightarrow> cmp b c \<le> 0 \<Longrightarrow> cmp a c \<le> 0"
proof -
  from assms have "cmp b a < 0 \<longleftrightarrow> 0 < cmp a b" "cmp a b \<le> 0 \<longrightarrow> cmp b c \<le> 0 \<longrightarrow> cmp a c \<le> 0"
    unfolding weak_ordering_def by blast+
  then show "\<not> cmp a b \<le> 0 \<Longrightarrow> cmp b a \<le> 0" "cmp a b \<le> 0 \<Longrightarrow> cmp b c \<le> 0 \<Longrightarrow> cmp a c \<le> 0" by auto
qed

locale slices_sort =
  fixes srt :: "('a \<Rightarrow> 'a \<Rightarrow> int) \<Rightarrow> 'a list \<Rightarrow> 'a list"
  assumes sort_mset: "mset (srt cmp xs) = mset xs"
    and sort_sorted: "weak_ordering cmp \<Longrightarrow> sorted_wrt (\<lambda>a b. cmp a b \<le> 0) (srt cmp xs)"

text \<open>The laws of a key beyond the metric: comparison has a direction and the distance has none.\<close>

locale kad_order = kad_metric kd for kd :: "('k, 'n) kad_ops" +
  assumes compare_swap: "key_compare kd a b < 0 \<longleftrightarrow> 0 < key_compare kd b a"
    and xor_commute: "key_xor kd a b = key_xor kd b a"
begin

lemma distance_ordering:
  "weak_ordering (\<lambda>a b. key_compare kd (key_xor kd (f a) t) (key_xor kd (f b) t))"
  unfolding weak_ordering_def using compare_swap nearer_trans [of t]
  by (auto simp: nearer_eq_def xor_commute [of _ t])

end

interpretation tiny_order: kad_order tiny_kad
  by unfold_locales (auto simp: tiny_kad_def tiny_compare_def xor.commute)

text \<open>An insertion sort behaves as documented.\<close>

fun insert_cmp :: "('a \<Rightarrow> 'a \<Rightarrow> int) \<Rightarrow> 'a \<Rightarrow> 'a list \<Rightarrow> 'a list" where
  "insert_cmp cmp x [] = [x]"
| "insert_cmp cmp x (y # ys) = (if cmp x y \<le> 0 then x # y # ys else y # insert_cmp cmp x ys)"

definition insertion_sort :: "('a \<Rightarrow> 'a \<Rightarrow> int) \<Rightarrow> 'a list \<Rightarrow> 'a list" where
  "insertion_sort cmp xs = foldr (insert_cmp cmp) xs []"

lemma mset_insert_cmp [simp]: "mset (insert_cmp cmp x ys) = add_mset x (mset ys)"
  by (induction cmp x ys rule: insert_cmp.induct) auto

lemma sorted_insert_cmp:
  assumes "weak_ordering cmp" "sorted_wrt (\<lambda>a b. cmp a b \<le> 0) ys"
  shows "sorted_wrt (\<lambda>a b. cmp a b \<le> 0) (insert_cmp cmp x ys)"
  using assms(2)
proof (induction ys)
  case (Cons y ys)
  have "set (insert_cmp cmp x ys) = insert x (set ys)"
    by (metis mset_insert_cmp set_mset_add_mset_insert set_mset_mset)
  moreover have "cmp y x \<le> 0" if "\<not> cmp x y \<le> 0"
    by (rule weak_orderingD(1) [OF assms(1) that])
  moreover have "cmp x z \<le> 0" if "cmp x y \<le> 0" "z \<in> set ys" for z
    using that Cons.prems by (auto intro: weak_orderingD(2) [OF assms(1)])
  ultimately show ?case using Cons by auto
qed simp

interpretation insertion: slices_sort insertion_sort
proof
  fix cmp :: "'a \<Rightarrow> 'a \<Rightarrow> int" and xs
  show "mset (insertion_sort cmp xs) = mset xs" unfolding insertion_sort_def by (induction xs) auto
  show "sorted_wrt (\<lambda>a b. cmp a b \<le> 0) (insertion_sort cmp xs)" if "weak_ordering cmp"
    unfolding insertion_sort_def by (induction xs) (auto intro: sorted_insert_cmp that)
qed

section \<open>The nodes of a key\<close>

text \<open>The number of nodes, and no node left out is nearer than one chosen.\<close>

lemma region_closest_nearest:
  fixes target :: 'k and nodes :: "'n list"
  assumes "kad_order kd" "slices_sort srt" "1 \<le> r"
  defines "ns \<equiv> region_closest kd srt nodes target r"
  shows "\<exists>rest. mset nodes = mset ns + mset rest \<and> length ns = min (nat r) (length nodes) \<and>
    sorted_wrt (\<lambda>a b. nearer_eq kd target (node_key kd a) (node_key kd b)) ns \<and>
    (\<forall>a \<in> set ns. \<forall>b \<in> set rest. nearer_eq kd target (node_key kd a) (node_key kd b))"
proof -
  define cmp where "cmp = (\<lambda>a b. key_compare kd (key_xor kd (node_key kd a) target) (key_xor kd (node_key kd b) target))"
  define all where "all = srt cmp nodes"
  have near: "cmp a b \<le> 0 \<longleftrightarrow> nearer_eq kd target (node_key kd a) (node_key kd b)" for a b
    by (simp add: cmp_def nearer_eq_def kad_order.xor_commute [OF assms(1), of target])
  have mset: "mset all = mset nodes" unfolding all_def by (rule slices_sort.sort_mset [OF assms(2)])
  have sorted: "sorted_wrt (\<lambda>a b. nearer_eq kd target (node_key kd a) (node_key kd b)) all"
    using slices_sort.sort_sorted [OF assms(2), of cmp nodes]
      kad_order.distance_ordering [OF assms(1), of "node_key kd" target]
    unfolding all_def near [symmetric] by (simp only: cmp_def)
  have ns: "ns = take (nat r) all"
    using assms(3) by (auto simp: ns_def region_closest_def Let_def all_def cmp_def)
  have split: "sorted_wrt (\<lambda>a b. nearer_eq kd target (node_key kd a) (node_key kd b)) (take (nat r) all @ drop (nat r) all)"
    using sorted by simp
  have "mset nodes = mset (take (nat r) all) + mset (drop (nat r) all)"
    by (metis append_take_drop_id mset mset_append)
  moreover have "length (take (nat r) all) = min (nat r) (length nodes)"
    using mset_eq_length [OF mset] by simp
  ultimately show ?thesis
    unfolding ns using split [unfolded sorted_wrt_append] by blast
qed

section \<open>Runs of the machine\<close>

fun started_of :: "('k, 'n) region_state \<Rightarrow> (activity_id \<times> 'k \<times> 'n list) list" where
  "started_of (StateRegionStartKey child k ns) = [(child, k, ns)]"
| "started_of _ = []"

text \<open>The publishes the machine has asked for, in order.\<close>

inductive region_run ::
  "('k, 'n) kad_ops \<Rightarrow> (('n \<Rightarrow> 'n \<Rightarrow> int) \<Rightarrow> 'n list \<Rightarrow> 'n list) \<Rightarrow> activity_id \<Rightarrow> 'k list \<Rightarrow> 'n list \<Rightarrow>
     (activity_id \<times> 'k \<times> 'n list) list \<Rightarrow> ('k, 'n) region_publish \<Rightarrow> bool"
  for kd srt qid keys nodes where
  start: "new_region_publish qid keys nodes cfg = Inr rp \<Longrightarrow> region_run kd srt qid keys nodes [] rp"
| step: "region_run kd srt qid keys nodes started rp \<Longrightarrow> region_advance kd srt ev rp = (st, rp') \<Longrightarrow>
     region_run kd srt qid keys nodes (started @ started_of st) rp'"

text \<open>The publishes of the keys before an index.\<close>

definition key_publishes ::
  "('k, 'n) kad_ops \<Rightarrow> (('n \<Rightarrow> 'n \<Rightarrow> int) \<Rightarrow> 'n list \<Rightarrow> 'n list) \<Rightarrow> activity_id \<Rightarrow> 'k list \<Rightarrow> 'n list \<Rightarrow> int \<Rightarrow> nat \<Rightarrow>
     (activity_id \<times> 'k \<times> 'n list) list" where
  "key_publishes kd srt qid keys nodes r n =
     map (\<lambda>i. (child_id qid i, keys ! i, region_closest kd srt nodes (keys ! i) r)) [0..<n]"

lemma key_publishes_simps [simp]:
  "key_publishes kd srt qid keys nodes r 0 = []"
  "key_publishes kd srt qid keys nodes r (Suc n) =
     key_publishes kd srt qid keys nodes r n @
       [(child_id qid n, keys ! n, region_closest kd srt nodes (keys ! n) r)]"
  by (simp_all add: key_publishes_def)

lemma child_id_inject [simp]: "child_id qid i = child_id qid j \<longleftrightarrow> i = j"
  by (simp add: child_id_def decimal_inject)

definition region_ok ::
  "activity_id \<Rightarrow> 'k list \<Rightarrow> 'n list \<Rightarrow> ('k, 'n) region_publish \<Rightarrow> bool" where
  "region_ok qid keys nodes rp \<longleftrightarrow>
     rp_id rp = qid \<and> rp_keys rp = keys \<and> rp_nodes rp = nodes \<and> 1 \<le> rp_r rp \<and> 1 \<le> rp_max_in_flight rp \<and>
     rp_cursor rp \<le> length keys \<and> distinct (map fst (rp_in_flight rp)) \<and>
     fst ` set (rp_in_flight rp) \<subseteq> child_id qid ` {..<rp_cursor rp} \<and>
     int (length (rp_in_flight rp)) \<le> rp_max_in_flight rp"

lemma new_region_ok:
  assumes "new_region_publish qid keys nodes cfg = Inr rp"
  shows "region_ok qid keys nodes rp" "rp_cursor rp = 0" "rp_in_flight rp = []"
  using assms
  by (auto simp: new_region_publish_def region_ok_def default_region_publish_config_def
      region_publish_config_validate_def Let_def split: option.splits if_splits)

text \<open>One advance: it starts the key at the cursor, or only the publishes in flight change.\<close>

lemma region_advance_cases:
  assumes "region_advance kd srt ev rp = (st, rp')"
  obtains (start) i where "ev = EventRegionPoll" "i = rp_cursor rp" "i < length (rp_keys rp)"
      "int (length (rp_in_flight rp)) < rp_max_in_flight rp"
      "st = StateRegionStartKey (child_id (rp_id rp) i) (rp_keys rp ! i)
              (region_closest kd srt (rp_nodes rp) (rp_keys rp ! i) (rp_r rp))"
      "rp' = rp\<lparr>rp_cursor := Suc i, rp_in_flight := AList.update (child_id (rp_id rp) i) i (rp_in_flight rp)\<rparr>"
  | (freed) child where "ev = EventRegionKeyDone child" "st = region_next rp'"
      "rp' = rp\<lparr>rp_in_flight := AList.delete child (rp_in_flight rp)\<rparr>"
  | (held) "ev = EventRegionPoll" "st = region_next rp" "rp' = rp"
      "rp_cursor rp = length (rp_keys rp) \<or> rp_max_in_flight rp \<le> int (length (rp_in_flight rp)) \<or>
       length (rp_keys rp) < rp_cursor rp"
proof (cases ev)
  case (EventRegionKeyDone child)
  with assms show thesis by (intro freed [of child]) (auto simp: Let_def)
next
  case EventRegionPoll
  show thesis
  proof (cases "rp_cursor rp < length (rp_keys rp) \<and> int (length (rp_in_flight rp)) < rp_max_in_flight rp")
    case True
    with assms EventRegionPoll show thesis by (intro start [OF EventRegionPoll refl]) (simp_all add: Let_def)
  next
    case False
    with assms EventRegionPoll show thesis by (intro held) auto
  qed
qed

lemma region_advance_ok:
  assumes "region_ok qid keys nodes rp" "region_advance kd srt ev rp = (st, rp')"
  shows "region_ok qid keys nodes rp' \<and> rp_r rp' = rp_r rp \<and> rp_max_in_flight rp' = rp_max_in_flight rp \<and>
    key_publishes kd srt qid keys nodes (rp_r rp) (rp_cursor rp') =
       key_publishes kd srt qid keys nodes (rp_r rp) (rp_cursor rp) @ started_of st"
  using assms(2)
proof (cases rule: region_advance_cases)
  case (start i)
  let ?m = "AList.update (child_id qid i) i (rp_in_flight rp)"
  have "child_id qid i \<notin> fst ` set (rp_in_flight rp)" using assms(1) start(2) by (auto simp: region_ok_def)
  then have "length (map fst ?m) = Suc (length (rp_in_flight rp))"
    unfolding update_keys by (simp add: image_iff)
  moreover have "distinct (map fst ?m)" using assms(1) by (simp add: region_ok_def distinct_update)
  ultimately have "region_ok qid keys nodes rp'"
    using start assms(1) by (simp add: region_ok_def update_keys_set lessThan_Suc) blast
  with start assms(1) show ?thesis by (simp add: region_ok_def)
next
  case (freed child)
  have "length (AList.delete child (rp_in_flight rp)) \<le> length (rp_in_flight rp)"
    by (rule length_delete_le)
  with freed(3) assms(1) have "region_ok qid keys nodes rp'"
    by (simp add: region_ok_def distinct_delete delete_keys_set) blast
  moreover have "started_of st = []" unfolding freed(2) by (simp add: region_next_def)
  ultimately show ?thesis using freed(3) by simp
next
  case held
  have "started_of st = []" unfolding held(2) by (simp add: region_next_def)
  with held(3) assms(1) show ?thesis by simp
qed

lemma region_next_finished:
  assumes "region_ok qid keys nodes rp"
  shows "region_next rp = StateRegionFinished \<longleftrightarrow>
    started_of (region_next rp) = [] \<and> rp_cursor rp = length keys \<and> rp_in_flight rp = []"
  using assms by (auto simp: region_next_def region_ok_def)

lemma region_run_ok:
  "region_run kd srt qid keys nodes started rp \<Longrightarrow>
     region_ok qid keys nodes rp \<and> started = key_publishes kd srt qid keys nodes (rp_r rp) (rp_cursor rp)"
proof (induction rule: region_run.induct)
  case (start cfg rp)
  with new_region_ok show ?case by fastforce
next
  case (step started rp ev st rp')
  from step.IH have ok: "region_ok qid keys nodes rp" by simp
  from region_advance_ok [OF ok step.hyps(2)] step.IH show ?case by simp
qed

section \<open>A caller that reports what it was asked to start\<close>

text \<open>
  The caller polls. Held back, it reports one of the publishes in flight, any one, as done. \<open>None\<close>
  means that it has not finished within the given number of steps.
\<close>

fun region_drive ::
  "('k, 'n) kad_ops \<Rightarrow> (('n \<Rightarrow> 'n \<Rightarrow> int) \<Rightarrow> 'n list \<Rightarrow> 'n list) \<Rightarrow> (activity_id list \<Rightarrow> activity_id) \<Rightarrow> nat \<Rightarrow>
     ('k, 'n) region_publish \<Rightarrow> (activity_id \<times> 'k \<times> 'n list) list option" where
  "region_drive kd srt pick 0 rp = None"
| "region_drive kd srt pick (Suc n) rp =
     (case region_advance kd srt EventRegionPoll rp of
        (StateRegionFinished, rp') \<Rightarrow> Some []
      | (StateRegionStartKey child k ns, rp') \<Rightarrow> map_option (Cons (child, k, ns)) (region_drive kd srt pick n rp')
      | (StateRegionWaiting due, rp') \<Rightarrow>
          region_drive kd srt pick n
            (snd (region_advance kd srt (EventRegionKeyDone (pick (map fst (rp_in_flight rp')))) rp')))"

definition region_work :: "('k, 'n) region_publish \<Rightarrow> nat" where
  "region_work rp = 2 * (length (rp_keys rp) - rp_cursor rp) + length (rp_in_flight rp)"

lemma length_delete_member:
  assumes "distinct (map fst m)" "k \<in> fst ` set m"
  shows "Suc (length (AList.delete k m)) = length m"
proof -
  have "length (AList.delete k m) = length (removeAll k (map fst m))" by (metis delete_keys length_map)
  also have "\<dots> = length (remove1 k (map fst m))" using assms(1) by (simp add: distinct_remove1_removeAll)
  also have "\<dots> = length m - 1" using assms(2) by (simp add: length_remove1)
  finally show ?thesis using assms(2) by (cases m) auto
qed

lemma region_drive_starts:
  assumes "region_ok qid keys nodes rp" "region_work rp < fuel" "\<forall>cs. cs \<noteq> [] \<longrightarrow> pick cs \<in> set cs"
  shows "\<exists>started. region_drive kd srt pick fuel rp = Some started \<and>
    key_publishes kd srt qid keys nodes (rp_r rp) (rp_cursor rp) @ started =
      key_publishes kd srt qid keys nodes (rp_r rp) (length keys)"
  using assms(1,2)
proof (induction fuel arbitrary: rp)
  case (Suc fuel)
  note ok = Suc.prems(1)
  obtain st rp' where adv: "region_advance kd srt EventRegionPoll rp = (st, rp')" by fastforce
  note same = region_advance_ok [OF ok adv, THEN conjunct1] region_advance_ok [OF ok adv, THEN conjunct2]
  from adv show ?case
  proof (cases rule: region_advance_cases)
    case (start i)
    have "child_id qid i \<notin> fst ` set (rp_in_flight rp)"
      using ok start(2) by (auto simp: region_ok_def)
    then have "length (map fst (AList.update (child_id qid i) i (rp_in_flight rp))) = Suc (length (rp_in_flight rp))"
      unfolding update_keys by (simp add: image_iff)
    with start ok Suc.prems(2) have "region_work rp' < fuel"
      by (simp add: region_work_def region_ok_def)
    from Suc.IH [OF same(1) this] start adv same(2) show ?thesis by (auto simp: Let_def)
  next
    case held
    show ?thesis
    proof (cases "rp_in_flight rp = []")
      case True
      with held ok have "rp_cursor rp = length keys" by (auto simp: region_ok_def)
      with True held adv ok show ?thesis by (auto simp: region_next_def region_ok_def)
    next
      case False
      let ?c = "pick (map fst (rp_in_flight rp))"
      obtain rp2 st2 where done_: "region_advance kd srt (EventRegionKeyDone ?c) rp = (st2, rp2)" by fastforce
      have rp2: "rp2 = rp\<lparr>rp_in_flight := AList.delete ?c (rp_in_flight rp)\<rparr>" using done_ by (simp add: Let_def)
      have "?c \<in> fst ` set (rp_in_flight rp)" using assms(3) [rule_format, of "map fst (rp_in_flight rp)"] False by auto
      then have "Suc (length (rp_in_flight rp2)) = length (rp_in_flight rp)"
        using ok rp2 by (simp add: length_delete_member region_ok_def)
      with Suc.prems(2) rp2 have "region_work rp2 < fuel" by (simp add: region_work_def)
      from Suc.IH [OF region_advance_ok [OF ok done_, THEN conjunct1] this] show ?thesis
        using False held adv done_ rp2 by (auto simp: region_next_def)
    qed
  qed simp
qed simp

section \<open>The properties\<close>

text \<open>
  The publishes a region machine has asked for are those of the keys before the cursor, in the order
  of the keys and each under its own id, with the nodes chosen for the key. Never more are in flight than
  the limit, whatever the caller reports and whenever it polls. And the machine reports that it has
  finished exactly when every key has been started and nothing is in flight.
\<close>

theorem region_starts_in_order:
  assumes "region_run kd srt qid keys nodes started rp" "region_advance kd srt ev rp = (st, rp')"
  shows "started @ started_of st = key_publishes kd srt qid keys nodes (rp_r rp') (rp_cursor rp') \<and>
    distinct (map fst (started @ started_of st)) \<and>
    int (length (rp_in_flight rp')) \<le> rp_max_in_flight rp' \<and>
    (st = StateRegionFinished \<longleftrightarrow> started_of st = [] \<and> rp_cursor rp' = length keys \<and> rp_in_flight rp' = [])"
proof -
  from region_run_ok [OF assms(1)] have ok: "region_ok qid keys nodes rp"
    and started: "started = key_publishes kd srt qid keys nodes (rp_r rp) (rp_cursor rp)" by auto
  note same = region_advance_ok [OF ok assms(2), THEN conjunct1] region_advance_ok [OF ok assms(2), THEN conjunct2]
  have 1: "started @ started_of st = key_publishes kd srt qid keys nodes (rp_r rp') (rp_cursor rp')"
    using started same by simp
  have 2: "distinct (map fst (started @ started_of st))"
    unfolding 1 by (simp add: key_publishes_def comp_def distinct_map inj_on_def)
  have 3: "int (length (rp_in_flight rp')) \<le> rp_max_in_flight rp'" using same by (simp add: region_ok_def)
  have "st = StateRegionFinished \<longleftrightarrow> started_of st = [] \<and> rp_cursor rp' = length keys \<and> rp_in_flight rp' = []"
    using assms(2)
  proof (cases rule: region_advance_cases)
    case (start i)
    show ?thesis unfolding start(5) by simp
  next
    case (freed child)
    show ?thesis unfolding freed(2) by (rule region_next_finished [OF same(1)])
  next
    case held
    show ?thesis unfolding held(2,3) by (rule region_next_finished [OF ok])
  qed
  with 1 2 3 show ?thesis by blast
qed

text \<open>
  C23: A new region machine comes to an end. Polled again and again, and told of any publish in flight that
  it is done whenever it holds a key back, it finishes within two steps a key and one more, having started
  every key of the region once, in order, each with the nodes nearest to it: as many as the replication
  asks for, or every node of the region when there are fewer, and no node left out is nearer.
\<close>

theorem region_publishes_every_key:
  assumes "kad_order kd" "slices_sort srt" "\<forall>cs. cs \<noteq> [] \<longrightarrow> pick cs \<in> set cs"
    "new_region_publish qid keys nodes cfg = Inr rp" "2 * length keys < fuel"
  shows "\<exists>started. region_drive kd srt pick fuel rp = Some started \<and> map (fst \<circ> snd) started = keys \<and>
    distinct (map fst started) \<and>
    (\<forall>(child, k, ns) \<in> set started.
       \<exists>rest. mset nodes = mset ns + mset rest \<and> length ns = min (nat (rp_r rp)) (length nodes) \<and>
         (\<forall>a \<in> set ns. \<forall>b \<in> set rest. nearer_eq kd k (node_key kd a) (node_key kd b)))"
proof -
  note new = new_region_ok [OF assms(4)]
  have "region_work rp < fuel" using new assms(5) by (simp add: region_work_def region_ok_def)
  from region_drive_starts [OF new(1) this assms(3)] new(2)
  have drive: "region_drive kd srt pick fuel rp = Some (key_publishes kd srt qid keys nodes (rp_r rp) (length keys))"
    by auto
  have "1 \<le> rp_r rp" using new(1) by (simp add: region_ok_def)
  from region_closest_nearest [OF assms(1,2) this]
  have near: "\<exists>rest. mset nodes = mset (region_closest kd srt nodes k (rp_r rp)) + mset rest \<and>
      length (region_closest kd srt nodes k (rp_r rp)) = min (nat (rp_r rp)) (length nodes) \<and>
      (\<forall>a \<in> set (region_closest kd srt nodes k (rp_r rp)). \<forall>b \<in> set rest. nearer_eq kd k (node_key kd a) (node_key kd b))" for k
    by blast
  let ?all = "key_publishes kd srt qid keys nodes (rp_r rp) (length keys)"
  have "map (fst \<circ> snd) ?all = keys" by (simp add: key_publishes_def comp_def map_nth)
  moreover have "distinct (map fst ?all)" by (simp add: key_publishes_def comp_def distinct_map inj_on_def)
  moreover have "ns = region_closest kd srt nodes k (rp_r rp)" if "(child, k, ns) \<in> set ?all" for child k ns
    using that by (auto simp: key_publishes_def)
  ultimately show ?thesis using drive near by (intro exI [of _ ?all]) blast
qed

section \<open>A region of four nodes\<close>

definition tiny_region :: "(tiny_key, tiny_node) region_publish" where
  "tiny_region = \<lparr>rp_id = ''r'', rp_keys = [1, 6], rp_nodes = map new_node [0, 2, 4, 5], rp_r = 2,
     rp_max_in_flight = 1, rp_cursor = 0, rp_in_flight = []\<rparr>"

definition tiny_region_config :: region_publish_config where
  "tiny_region_config = \<lparr>rpc_tracer = True, rpc_replication = 2, rpc_max_in_flight = 1\<rparr>"

lemma tiny_region_new:
  "new_region_publish ''r'' [1, 6] (map new_node [0, 2, 4, 5]) (Some tiny_region_config) = Inr tiny_region"
  by (simp add: new_region_publish_def tiny_region_def tiny_region_config_def region_publish_config_validate_def)

definition tiny_region_started :: "(tiny_key, tiny_node) region_state \<times> (tiny_key, tiny_node) region_publish" where
  "tiny_region_started = region_advance tiny_kad insertion_sort EventRegionPoll tiny_region"

theorem region_starts_in_order_witness:
  "fst tiny_region_started = StateRegionStartKey ''r-0'' 1 (map new_node [0, 2]) \<and>
   [(''r-0'', 1, map new_node [0, 2])] =
     key_publishes tiny_kad insertion_sort ''r'' [1, 6] (map new_node [0, 2, 4, 5]) 2 1 \<and>
   int (length (rp_in_flight (snd tiny_region_started))) \<le> 1"
proof -
  have first: "tiny_region_started =
      (StateRegionStartKey ''r-0'' 1 (map new_node [0, 2]),
       tiny_region\<lparr>rp_cursor := 1, rp_in_flight := [(''r-0'', 0)]\<rparr>)"
    by code_simp
  from region_starts_in_order [OF region_run.start [OF tiny_region_new]
      first [unfolded tiny_region_started_def]]
  show ?thesis by (simp add: first tiny_region_def)
qed

theorem region_publishes_every_key_witness:
  "map (fst \<circ> snd) (the (region_drive tiny_kad insertion_sort hd 5 tiny_region)) = [1, 6] \<and>
   region_drive tiny_kad insertion_sort hd 5 tiny_region =
     Some [(''r-0'', 1, map new_node [0, 2]), (''r-1'', 6, map new_node [4, 5])]"
proof -
  have "\<exists>started. region_drive tiny_kad insertion_sort hd 5 tiny_region = Some started \<and>
      map (fst \<circ> snd) started = [1, 6]"
  proof -
    have pick: "\<forall>cs :: activity_id list. cs \<noteq> [] \<longrightarrow> hd cs \<in> set cs" by simp
    have "2 * length [1, 6 :: tiny_key] < (5 :: nat)" by simp
    from region_publishes_every_key [OF tiny_order.kad_order_axioms insertion.slices_sort_axioms
        pick tiny_region_new this]
    show ?thesis by (elim exE conjE) (intro exI conjI, assumption+)
  qed
  moreover have "region_drive tiny_kad insertion_sort hd 5 tiny_region =
      Some [(''r-0'', 1, map new_node [0, 2]), (''r-1'', 6, map new_node [4, 5])]"
    by code_simp
  ultimately show ?thesis by auto
qed

end
