(* ===== verification/SurveySchedule.thy ===== *)
theory SurveySchedule
  imports Prelude GoHeap "HOL-Library.Char_ord" "HOL-Library.List_Lexorder"
begin

text \<open>
  \<open>regionSchedule\<close> of \<open>publish/survey.go\<close>: the time each region is next due, in a heap with the earliest
  first, and an index by prefix. The heap and the index hold pointers to entries; an address into
  \<open>rs_entries\<close> is such a pointer. An entry knows its place in the heap, which \<open>Swap\<close> and \<open>Push\<close>
  maintain; \<open>Pop\<close> leaves the place of the entry it takes out as it was.
\<close>

record schedule_entry =
  se_prefix :: string
  se_due :: time
  se_idx :: nat

record region_schedule =
  rs_entries :: "schedule_entry list"
  rs_heap :: "nat list"
  rs_index :: "string \<rightharpoonup> nat"

definition new_region_schedule :: region_schedule where
  "new_region_schedule = \<lparr>rs_entries = [], rs_heap = [], rs_index = (\<lambda>_. None)\<rparr>"

abbreviation entry_at :: "region_schedule \<Rightarrow> nat \<Rightarrow> schedule_entry" where
  "entry_at s a \<equiv> rs_entries s ! a"

section \<open>The heap\<close>

text \<open>Strings compare byte by byte, which is the order of \<open>List_Lexorder\<close> over that of \<open>Char_ord\<close>.\<close>

definition due_before :: "time \<times> string \<Rightarrow> time \<times> string \<Rightarrow> bool" where
  "due_before x y \<longleftrightarrow> (if fst x = fst y then snd x < snd y else time_before (fst x) (fst y))"

definition schedule_less :: "region_schedule \<Rightarrow> nat \<Rightarrow> nat \<Rightarrow> bool" where
  "schedule_less s i j \<longleftrightarrow>
     (let e = entry_at s (rs_heap s ! i); f = entry_at s (rs_heap s ! j)
      in due_before (se_due e, se_prefix e) (se_due f, se_prefix f))"

definition set_place :: "nat \<Rightarrow> nat \<Rightarrow> region_schedule \<Rightarrow> region_schedule" where
  "set_place a i s = s\<lparr>rs_entries := (rs_entries s)[a := (rs_entries s ! a)\<lparr>se_idx := i\<rparr>]\<rparr>"

definition schedule_swap :: "nat \<Rightarrow> nat \<Rightarrow> region_schedule \<Rightarrow> region_schedule" where
  "schedule_swap i j s =
     (let s1 = s\<lparr>rs_heap := swap_list i j (rs_heap s)\<rparr>;
          s2 = set_place (rs_heap s1 ! i) i s1
      in set_place (rs_heap s2 ! j) j s2)"

definition schedule_push :: "nat \<Rightarrow> region_schedule \<Rightarrow> region_schedule" where
  "schedule_push a s =
     (let s1 = set_place a (length (rs_heap s)) s in s1\<lparr>rs_heap := rs_heap s1 @ [a]\<rparr>)"

definition schedule_pop :: "region_schedule \<Rightarrow> nat \<times> region_schedule" where
  "schedule_pop s = (last (rs_heap s), s\<lparr>rs_heap := butlast (rs_heap s)\<rparr>)"

definition schedule_heap :: "(nat, region_schedule) heap_interface" where
  "schedule_heap = \<lparr>h_len = (\<lambda>s. length (rs_heap s)), h_less = schedule_less, h_swap = schedule_swap,
     h_push = schedule_push, h_pop = schedule_pop\<rparr>"

section \<open>The operations\<close>

definition set_due :: "nat \<Rightarrow> time \<Rightarrow> region_schedule \<Rightarrow> region_schedule" where
  "set_due a due s = s\<lparr>rs_entries := (rs_entries s)[a := (rs_entries s ! a)\<lparr>se_due := due\<rparr>]\<rparr>"

definition schedule_add :: "string \<Rightarrow> time \<Rightarrow> region_schedule \<Rightarrow> region_schedule" where
  "schedule_add region due s =
     (case rs_index s region of
        Some a \<Rightarrow> (let s1 = set_due a due s in heap_fix schedule_heap (se_idx (entry_at s1 a)) s1)
      | None \<Rightarrow>
          (let a = length (rs_entries s);
               s1 = s\<lparr>rs_entries := rs_entries s @ [\<lparr>se_prefix = region, se_due = due, se_idx = 0\<rparr>]\<rparr>;
               s2 = heap_push schedule_heap a s1
           in s2\<lparr>rs_index := (rs_index s2)(region \<mapsto> a)\<rparr>))"

definition reschedule_region :: "string \<Rightarrow> time \<Rightarrow> region_schedule \<Rightarrow> region_schedule" where
  "reschedule_region region due s = schedule_add region due s"

definition schedule_remove :: "string \<Rightarrow> region_schedule \<Rightarrow> region_schedule" where
  "schedule_remove region s =
     (case rs_index s region of
        None \<Rightarrow> s
      | Some a \<Rightarrow>
          (let s1 = snd (heap_remove schedule_heap (se_idx (entry_at s a)) s)
           in s1\<lparr>rs_index := (rs_index s1)(region := None)\<rparr>))"

definition due_of :: "region_schedule \<Rightarrow> string \<Rightarrow> time option" where
  "due_of s region = map_option (\<lambda>a. se_due (entry_at s a)) (rs_index s region)"

definition schedule_peek :: "region_schedule \<Rightarrow> schedule_entry option" where
  "schedule_peek s = (if rs_heap s = [] then None else Some (entry_at s (rs_heap s ! 0)))"

end
