(* ===== verification/Survey.thy ===== *)
theory Survey
  imports SurveySchedule RoutingTable Bootstrap PrefixTable ExploreSchedule
    "HOL-Library.Sublist" "HOL-Library.Signed_Division"
begin

text \<open>
  \<open>publish/survey.go\<close>: the machine that keeps a prefix table current by surveying each of its regions in
  turn with a coverage query. The table is shared with readers; only the survey changes it, so it is part
  of the state of the machine. The function that mints a key inside a region is a parameter; what it keeps
  between calls is the generator \<open>sv_gen\<close>. The places where the code panics give \<open>None\<close>.
\<close>

section \<open>Configuration, states and events\<close>

definition SurveyActivityID :: activity_id where
  "SurveyActivityID = ''survey''"

type_synonym ('k, 'g) prefix_target_fn = "string \<Rightarrow> 'g \<Rightarrow> 'k go_result \<times> 'g"

record survey_config =
  svc_tracer :: bool
  svc_meter :: bool
  svc_interval :: duration
  svc_region_timeout :: duration
  svc_request_concurrency :: int
  svc_request_timeout :: duration
  svc_walk_in_bound :: int

definition survey_config_validate :: "survey_config \<Rightarrow> go_error option" where
  "survey_config_validate cfg = first_error ''SurveyConfig''
     [(\<not> svc_tracer cfg, ''tracer must not be nil''),
      (\<not> svc_meter cfg, ''meter must not be nil''),
      (svc_interval cfg < 1, ''interval must be greater than zero''),
      (svc_region_timeout cfg < 1, ''region timeout must be greater than zero''),
      (svc_request_concurrency cfg < 1, ''request concurrency must be greater than zero''),
      (svc_request_timeout cfg < 1, ''request timeout must be greater than zero''),
      (svc_walk_in_bound cfg < 1, ''walk-in bound must be greater than zero'')]"

definition default_survey_config :: survey_config where
  "default_survey_config =
     \<lparr>svc_tracer = True, svc_meter = True, svc_interval = 22 * hour, svc_region_timeout = 5 * minute,
      svc_request_concurrency = 3, svc_request_timeout = minute, svc_walk_in_bound = 20\<rparr>"

datatype ('k, 'n) survey_state =
    StateSurveyIdle time
  | StateSurveyFindCloser activity_id 'k 'n query_stats
  | StateSurveyWaiting time query_stats
  | StateSurveyFinished string "'n list" query_stats
  | StateSurveyTimeout string query_stats
  | StateSurveyFailure string go_error

datatype 'n survey_event =
    EventSurveyPoll
  | EventSurveyFindCloserResponse 'n "'n list"
  | EventSurveyFindCloserFailure 'n go_error

section \<open>The machine\<close>

text \<open>The target is the zero value of the key type, \<open>None\<close>, while no survey runs.\<close>

record ('k, 'n, 'tr, 'rt, 'g) survey_machine =
  sv_self :: 'n
  sv_rt :: 'rt
  sv_table :: prefix_table
  sv_gen :: 'g
  sv_schedule :: region_schedule
  sv_seeded :: bool
  sv_qry :: "('k, 'n, 'tr) find_query option"
  sv_prefix :: string
  sv_target :: "'k option"
  sv_cfg :: survey_config
  sv_running :: bool

text \<open>\<open>NewSurvey\<close>: a nil table is \<open>None\<close>, and so is the generator of a nil target function.\<close>

definition new_survey ::
  "'n \<Rightarrow> 'rt \<Rightarrow> prefix_table option \<Rightarrow> 'g option \<Rightarrow> survey_config option \<Rightarrow>
     ('k, 'n, 'tr, 'rt, 'g) survey_machine go_result" where
  "new_survey self rt table gen cfg_opt =
     (case (case cfg_opt of None \<Rightarrow> None | Some cfg \<Rightarrow> survey_config_validate cfg) of
        Some e \<Rightarrow> Inl e
      | None \<Rightarrow>
          (case table of
             None \<Rightarrow> Inl (config_error ''Survey'' ''table must not be nil'')
           | Some t \<Rightarrow>
               (case gen of
                  None \<Rightarrow> Inl (config_error ''Survey'' ''target function must not be nil'')
                | Some g \<Rightarrow> Inr \<lparr>sv_self = self, sv_rt = rt, sv_table = t, sv_gen = g,
                    sv_schedule = new_region_schedule, sv_seeded = False, sv_qry = None, sv_prefix = [],
                    sv_target = None,
                    sv_cfg = (case cfg_opt of None \<Rightarrow> default_survey_config | Some cfg \<Rightarrow> cfg),
                    sv_running = False\<rparr>)))"

text \<open>
  \<open>oldestRegionAge\<close>, which a gauge reads: \<open>Duration.Seconds\<close> is a floating-point number, rounded by
  \<open>rnd\<close> at each operation, and the conversion to an integer drops its fraction.
\<close>

definition duration_seconds :: "(rat \<Rightarrow> rat) \<Rightarrow> duration \<Rightarrow> rat" where
  "duration_seconds rnd d =
     rnd (rnd (of_int (d sdiv second)) + rnd (rnd (of_int (d smod second)) / 1000000000))"

definition oldest_region_age :: "(rat \<Rightarrow> rat) \<Rightarrow> region list \<Rightarrow> time \<Rightarrow> int" where
  "oldest_region_age rnd regions now =
     (let oldest = fold (\<lambda>r oldest.
            if is_zero (rg_last_surveyed r) then oldest
            else if is_zero oldest \<or> time_before (rg_last_surveyed r) oldest then rg_last_surveyed r
            else oldest) regions zero_time
      in if is_zero oldest then 0 else float_to_int (duration_seconds rnd (now - oldest)))"

section \<open>The schedule and the table\<close>

definition seed_schedule ::
  "time \<Rightarrow> ('k, 'n, 'tr, 'rt, 'g) survey_machine \<Rightarrow> ('k, 'n, 'tr, 'rt, 'g) survey_machine" where
  "seed_schedule now s =
     (if sv_seeded s then s
      else (let s1 = s\<lparr>sv_seeded := True\<rparr>;
                regions = table_regions (sv_table s1)
            in if length regions = 0 then s1
               else (let step = svc_interval (sv_cfg s1) div int (length regions)
                     in s1\<lparr>sv_schedule :=
                          fold (\<lambda>(i, r). schedule_add (rg_prefix r) (time_add now (step * int i)))
                            (enumerate 0 regions) (sv_schedule s1)\<rparr>)))"

definition prefix_related :: "string \<Rightarrow> string \<Rightarrow> bool" where
  "prefix_related a b \<longleftrightarrow> prefix b a \<or> prefix a b"

definition member_keys :: "('k, 'n) kad_ops \<Rightarrow> 'n list \<Rightarrow> 'k list" where
  "member_keys kd nodes = map (node_key kd) nodes"

text \<open>\<open>reconcile\<close>: the due time a region added takes from those removed, and the change of the schedule.\<close>

definition inherited_due :: "string list \<Rightarrow> region_schedule \<Rightarrow> string \<Rightarrow> time" where
  "inherited_due removed s a =
     fold (\<lambda>r best.
       if \<not> prefix_related a r then best
       else case due_of s r of
         None \<Rightarrow> best
       | Some d \<Rightarrow> (if is_zero best \<or> time_before d best then d else best)) removed zero_time"

definition reconcile :: "string list \<Rightarrow> string list \<Rightarrow> region_schedule \<Rightarrow> region_schedule" where
  "reconcile removed added s =
     (if length removed = 0 \<and> length added = 0 then s
      else (let dues = map (\<lambda>a. (a, inherited_due removed s a)) added;
                s1 = fold schedule_remove removed s
            in fold (\<lambda>(a, d). schedule_add a d) dues s1))"

definition clear_survey :: "('k, 'n, 'tr, 'rt, 'g) survey_machine \<Rightarrow> ('k, 'n, 'tr, 'rt, 'g) survey_machine" where
  "clear_survey s = s\<lparr>sv_qry := None, sv_prefix := [], sv_target := None\<rparr>"

section \<open>Advancing the survey\<close>

definition survey_waiting ::
  "time \<Rightarrow> query_stats \<Rightarrow> time \<Rightarrow> time \<Rightarrow> string \<Rightarrow> ('k, 'n, 'tr, 'rt, 'g) survey_machine \<Rightarrow>
     ('k, 'n) survey_state \<times> ('k, 'n, 'tr, 'rt, 'g) survey_machine" where
  "survey_waiting now stats deadline due region s =
     (if time_after now deadline then (StateSurveyTimeout region stats, clear_survey s)
      else (StateSurveyWaiting (earlier due deadline) stats, s))"

text \<open>The end of a query: the members found become an observation of the table.\<close>

definition survey_observe ::
  "('k, 'n) kad_ops \<Rightarrow> (string \<Rightarrow> nat \<Rightarrow> bool) \<Rightarrow> time \<Rightarrow> string \<Rightarrow> 'n list \<Rightarrow>
     ('k, 'n, 'tr, 'rt, 'g) survey_machine \<Rightarrow> ('k, 'n, 'tr, 'rt, 'g) survey_machine" where
  "survey_observe kd pbit now region closest s =
     (case observe kd pbit region (member_keys kd closest) now (sv_table s) of
        ((removed, added), table) \<Rightarrow>
          s\<lparr>sv_table := table, sv_schedule := reconcile removed added (sv_schedule s)\<rparr>)"

definition survey_advance_query ::
  "('k, 'n) kad_ops \<Rightarrow> (string \<Rightarrow> nat \<Rightarrow> bool) \<Rightarrow> ('k, 'n node_status, 'tr) trie_ops \<Rightarrow> time \<Rightarrow>
     'n query_event \<Rightarrow> ('k, 'n, 'tr) find_query \<Rightarrow> ('k, 'n, 'tr, 'rt, 'g) survey_machine \<Rightarrow>
     (('k, 'n) survey_state \<times> ('k, 'n, 'tr, 'rt, 'g) survey_machine) option" where
  "survey_advance_query kd pbit T now qev q s =
     (let region = sv_prefix s;
          (st, q') = query_advance kd (closest_iter kd T) now qev q;
          s' = s\<lparr>sv_qry := Some q'\<rparr>
      in case st of
           StateQueryFindCloser i target n stats \<Rightarrow> Some (StateSurveyFindCloser i target n stats, s')
         | StateQueryFinished i stats target closest \<Rightarrow>
             Some (StateSurveyFinished region closest stats, survey_observe kd pbit now region closest (clear_survey s'))
         | StateQueryWaitingAtCapacity i stats deadline due \<Rightarrow> Some (survey_waiting now stats deadline due region s')
         | StateQueryWaitingWithCapacity i stats deadline due \<Rightarrow> Some (survey_waiting now stats deadline due region s')
         | StateQuerySendMessage i n msg stats \<Rightarrow> None)"

definition survey_query_config :: "survey_config \<Rightarrow> query_config" where
  "survey_query_config cfg =
     default_query_config\<lparr>qc_concurrency := svc_request_concurrency cfg,
       qc_request_timeout := svc_request_timeout cfg, qc_timeout := svc_region_timeout cfg,
       qc_num_results := svc_walk_in_bound cfg\<rparr>"

text \<open>\<open>startSurvey\<close>; both errors are wrapped with \<open>fmt.Errorf\<close>.\<close>

definition start_survey ::
  "('k, 'n) kad_ops \<Rightarrow> ('k, 'n, 'rt) rt_ops \<Rightarrow> (string \<Rightarrow> nat \<Rightarrow> bool) \<Rightarrow> ('k, 'n node_status, 'tr) trie_ops \<Rightarrow>
     ('k, 'g) prefix_target_fn \<Rightarrow> time \<Rightarrow> string \<Rightarrow> ('k, 'n, 'tr, 'rt, 'g) survey_machine \<Rightarrow>
     (('k, 'n) survey_state \<times> ('k, 'n, 'tr, 'rt, 'g) survey_machine) option" where
  "start_survey kd rt pbit T target_fn now region s0 =
     (case target_fn region (sv_gen s0) of
        (Inl err, g) \<Rightarrow>
          Some (StateSurveyFailure region
            (ErrorText (''target for prefix '' @ region @ '': '' @ error_string err)), s0\<lparr>sv_gen := g\<rparr>)
      | (Inr target, g) \<Rightarrow>
          (let s = s0\<lparr>sv_gen := g\<rparr>;
               seeds = rt_nearest_nodes rt (sv_rt s) target (svc_walk_in_bound (sv_cfg s))
           in case new_coverage_query kd (closest_iter kd T) (sv_self s) SurveyActivityID target
                     (int (length region)) (new_closest_nodes_iter T target) seeds
                     (Some (survey_query_config (sv_cfg s))) of
                Inl err \<Rightarrow>
                  Some (StateSurveyFailure region
                    (ErrorText (''start coverage query: '' @ error_string err)), s)
              | Inr q \<Rightarrow>
                  survey_advance_query kd pbit T now EventQueryPoll q
                    (s\<lparr>sv_qry := Some q, sv_prefix := region, sv_target := Some target\<rparr>)))"

text \<open>What \<open>Advance\<close> does when no query runs.\<close>

definition survey_poll ::
  "('k, 'n) kad_ops \<Rightarrow> ('k, 'n, 'rt) rt_ops \<Rightarrow> (string \<Rightarrow> nat \<Rightarrow> bool) \<Rightarrow> ('k, 'n node_status, 'tr) trie_ops \<Rightarrow>
     ('k, 'g) prefix_target_fn \<Rightarrow> time \<Rightarrow> ('k, 'n, 'tr, 'rt, 'g) survey_machine \<Rightarrow>
     (('k, 'n) survey_state \<times> ('k, 'n, 'tr, 'rt, 'g) survey_machine) option" where
  "survey_poll kd rt pbit T target_fn now s0 =
     (let s = seed_schedule now s0
      in case schedule_peek (sv_schedule s) of
           None \<Rightarrow> Some (StateSurveyIdle zero_time, s)
         | Some entry \<Rightarrow>
             (if time_after (se_due entry) now then Some (StateSurveyIdle (se_due entry), s)
              else start_survey kd rt pbit T target_fn now (se_prefix entry)
                (s\<lparr>sv_schedule := reschedule_region (se_prefix entry)
                     (time_add now (svc_interval (sv_cfg s))) (sv_schedule s)\<rparr>)))"

text \<open>The query event of an event, when a query runs.\<close>

fun survey_query_event :: "'n survey_event \<Rightarrow> 'n query_event" where
  "survey_query_event EventSurveyPoll = EventQueryPoll"
| "survey_query_event (EventSurveyFindCloserResponse n closer) = EventQueryNodeResponse n closer"
| "survey_query_event (EventSurveyFindCloserFailure n err) = EventQueryNodeFailure n err"

definition survey_advance ::
  "('k, 'n) kad_ops \<Rightarrow> ('k, 'n, 'rt) rt_ops \<Rightarrow> (string \<Rightarrow> nat \<Rightarrow> bool) \<Rightarrow> ('k, 'n node_status, 'tr) trie_ops \<Rightarrow>
     ('k, 'g) prefix_target_fn \<Rightarrow> time \<Rightarrow> 'n survey_event \<Rightarrow> ('k, 'n, 'tr, 'rt, 'g) survey_machine \<Rightarrow>
     (('k, 'n) survey_state \<times> ('k, 'n, 'tr, 'rt, 'g) survey_machine) option" where
  "survey_advance kd rt pbit T target_fn now ev s =
     map_option (\<lambda>(out, s'). (out, s'\<lparr>sv_running := sv_qry s' \<noteq> None\<rparr>))
       (case sv_qry s of
          Some q \<Rightarrow> survey_advance_query kd pbit T now (survey_query_event ev) q s
        | None \<Rightarrow> survey_poll kd rt pbit T target_fn now s)"

end
