(* ===== verification/SurveyScheduleFacts.thy ===== *)
theory SurveyScheduleFacts
  imports SurveySchedule HeapPlaces
begin

text \<open>
  The schedule is a finite map from regions to due times, and the entry it gives first is the least of
  it: earliest due, and first by prefix among those due together.
\<close>

section \<open>The heap is a client of the heap package\<close>

definition schedule_ok :: "region_schedule \<Rightarrow> bool" where
  "schedule_ok s \<longleftrightarrow>
     distinct (rs_heap s) \<and> (\<forall>a \<in> set (rs_heap s). a < length (rs_entries s)) \<and>
     (\<forall>i < length (rs_heap s). se_idx (entry_at s (rs_heap s ! i)) = i)"

definition schedule_elem :: "nat \<Rightarrow> region_schedule \<Rightarrow> nat \<times> time \<times> string" where
  "schedule_elem a s = (a, se_due (entry_at s a), se_prefix (entry_at s a))"

definition schedule_elems :: "region_schedule \<Rightarrow> (nat \<times> time \<times> string) list" where
  "schedule_elems s = map (\<lambda>a. schedule_elem a s) (rs_heap s)"

definition elem_due_before :: "nat \<times> time \<times> string \<Rightarrow> nat \<times> time \<times> string \<Rightarrow> bool" where
  "elem_due_before x y \<longleftrightarrow> due_before (snd x) (snd y)"

definition schedule_fresh :: "nat \<Rightarrow> region_schedule \<Rightarrow> bool" where
  "schedule_fresh a s \<longleftrightarrow> a < length (rs_entries s) \<and> a \<notin> set (rs_heap s)"

lemma set_place_simps [simp]:
  "rs_heap (set_place a i s) = rs_heap s" "rs_index (set_place a i s) = rs_index s"
  "length (rs_entries (set_place a i s)) = length (rs_entries s)"
  "set_place a i (s\<lparr>rs_heap := h\<rparr>) = (set_place a i s)\<lparr>rs_heap := h\<rparr>"
  by (simp_all add: set_place_def)

lemma entry_set_place [simp]:
  "se_prefix (entry_at (set_place a i s) b) = se_prefix (entry_at s b)"
  "se_due (entry_at (set_place a i s) b) = se_due (entry_at s b)"
  "se_idx (entry_at (set_place a i s) b) = (if b = a \<and> a < length (rs_entries s) then i else se_idx (entry_at s b))"
  by (cases "b = a"; cases "a < length (rs_entries s)"; simp add: set_place_def list_update_beyond)+

lemma schedule_swap_simps [simp]:
  "rs_heap (schedule_swap i j s) = swap_list i j (rs_heap s)" "rs_index (schedule_swap i j s) = rs_index s"
  "length (rs_entries (schedule_swap i j s)) = length (rs_entries s)"
  "se_prefix (entry_at (schedule_swap i j s) b) = se_prefix (entry_at s b)"
  "se_due (entry_at (schedule_swap i j s) b) = se_due (entry_at s b)"
  by (simp_all add: schedule_swap_def Let_def)

lemma schedule_elem_swap [simp]: "schedule_elem a (schedule_swap i j s) = schedule_elem a s"
  by (simp add: schedule_elem_def)

lemma schedule_swap_ok:
  assumes ok: "schedule_ok s" and ij: "i < length (rs_heap s)" "j < length (rs_heap s)"
  shows "schedule_ok (schedule_swap i j s)"
proof -
  let ?p = "rs_heap s" and ?s = "schedule_swap i j s"
  from ok have d: "distinct ?p" and lt: "\<And>a. a \<in> set ?p \<Longrightarrow> a < length (rs_entries s)"
    and idx: "\<And>k. k < length ?p \<Longrightarrow> se_idx (entry_at s (?p ! k)) = k"
    by (auto simp: schedule_ok_def)
  have "se_idx (entry_at ?s b) = (if b = swap_list i j ?p ! j then j
      else if b = swap_list i j ?p ! i then i else se_idx (entry_at s b))" if "b \<in> set ?p" for b
    using lt [OF that] by (auto simp: schedule_swap_def Let_def)
  from swap_places [OF d ij, of "\<lambda>a. se_idx (entry_at s a)" "\<lambda>k. k", OF idx this]
  show ?thesis
    using d lt swap_list_set [OF ij] swap_list_distinct [OF ij] by (simp add: schedule_ok_def)
qed

interpretation schedule: heap_client elem_due_before schedule_heap schedule_elems schedule_elem
    schedule_fresh schedule_ok
proof
  fix e f g :: "nat \<times> time \<times> string"
  show "elem_due_before e f \<Longrightarrow> \<not> elem_due_before f e"
    by (auto simp: elem_due_before_def due_before_def time_defs split: if_splits)
  show "\<not> elem_due_before e f \<Longrightarrow> \<not> elem_due_before f g \<Longrightarrow> \<not> elem_due_before e g"
    by (auto simp: elem_due_before_def due_before_def time_defs split: if_splits)
next
  fix s assume ok: "schedule_ok s"
  show "h_len schedule_heap s = length (schedule_elems s)"
    by (simp add: schedule_heap_def schedule_elems_def)
  fix i j
  show "h_less schedule_heap s i j = elem_due_before (schedule_elems s ! i) (schedule_elems s ! j)"
    if "i < length (schedule_elems s)" "j < length (schedule_elems s)"
    using that by (simp add: schedule_heap_def schedule_elems_def schedule_elem_def schedule_less_def elem_due_before_def Let_def)
  show "schedule_ok (h_swap schedule_heap i j s) \<and>
      schedule_elems (h_swap schedule_heap i j s) = swap_list i j (schedule_elems s)"
    if "i < length (schedule_elems s)" "j < length (schedule_elems s)"
    using that schedule_swap_ok [OF ok, of i j]
    by (simp add: schedule_heap_def schedule_elems_def swap_list_map)
next
  fix s a assume ok: "schedule_ok s" and fresh: "schedule_fresh a s"
  then show "schedule_ok (h_push schedule_heap a s) \<and>
      schedule_elems (h_push schedule_heap a s) = schedule_elems s @ [schedule_elem a s]"
    by (auto simp: schedule_heap_def schedule_ok_def schedule_elems_def schedule_elem_def schedule_fresh_def
        schedule_push_def Let_def nth_append)
next
  fix s assume ok: "schedule_ok s" and ne: "schedule_elems s \<noteq> []"
  then obtain as a where "rs_heap s = as @ [a]" by (cases "rs_heap s" rule: rev_cases) (auto simp: schedule_elems_def)
  with ok show "schedule_ok (snd (h_pop schedule_heap s)) \<and>
      schedule_elems (snd (h_pop schedule_heap s)) = butlast (schedule_elems s) \<and>
      schedule_elem (fst (h_pop schedule_heap s)) s = last (schedule_elems s)"
    by (auto simp: schedule_heap_def schedule_ok_def schedule_elems_def schedule_elem_def schedule_pop_def nth_append)
      (drule_tac x = i in spec, simp)
qed

section \<open>What the heap operations leave alone\<close>

definition same_entries :: "region_schedule \<Rightarrow> region_schedule \<Rightarrow> bool" where
  "same_entries s t \<longleftrightarrow> rs_index t = rs_index s \<and> length (rs_entries t) = length (rs_entries s) \<and>
     (\<forall>a. se_prefix (entry_at t a) = se_prefix (entry_at s a) \<and> se_due (entry_at t a) = se_due (entry_at s a))"

lemma same_entries_steps:
  "same_entries s s" "same_entries s t \<Longrightarrow> same_entries s (h_swap schedule_heap i j t)"
  "same_entries s t \<Longrightarrow> same_entries s (h_push schedule_heap a t)"
  "same_entries s t \<Longrightarrow> same_entries s (snd (h_pop schedule_heap t))"
  by (simp_all add: same_entries_def schedule_heap_def schedule_push_def schedule_pop_def Let_def)

lemma same_entries_ops:
  "same_entries s (heap_push schedule_heap a s)" "same_entries s (heap_fix schedule_heap i s)"
  "same_entries s (snd (heap_remove schedule_heap i s))"
  by (rule heap_push_invariant heap_fix_invariant heap_remove_invariant; rule same_entries_steps;
      (assumption | rule same_entries_steps))+

lemma same_entries_elem: "same_entries s t \<Longrightarrow> schedule_elem a t = schedule_elem a s"
  by (simp add: same_entries_def schedule_elem_def)

lemma mset_heap: "mset (rs_heap s) = image_mset fst (mset (schedule_elems s))"
  by (simp add: schedule_elems_def schedule_elem_def image_mset.compositionality comp_def)

section \<open>The schedule as a map\<close>

definition schedule_wf :: "region_schedule \<Rightarrow> bool" where
  "schedule_wf s \<longleftrightarrow> schedule_ok s \<and> is_heap elem_due_before (schedule_elems s) \<and>
     (\<forall>p a. rs_index s p = Some a \<longleftrightarrow> a \<in> set (rs_heap s) \<and> se_prefix (entry_at s a) = p)"

lemma schedule_wfD:
  assumes "schedule_wf s"
  shows "schedule_ok s" "is_heap elem_due_before (schedule_elems s)"
    "rs_index s p = Some a \<longleftrightarrow> a \<in> set (rs_heap s) \<and> se_prefix (entry_at s a) = p"
  using assms by (simp_all add: schedule_wf_def)

text \<open>The address of a region, its place in the heap and what the heap holds there.\<close>

lemma schedule_place:
  assumes "schedule_wf s" "rs_index s r = Some a"
  shows "a < length (rs_entries s)" "se_idx (entry_at s a) < length (rs_heap s)" "rs_heap s ! se_idx (entry_at s a) = a"
proof -
  from assms have a: "a \<in> set (rs_heap s)" and ok: "schedule_ok s" by (simp_all add: schedule_wfD)
  then obtain i where "i < length (rs_heap s)" "rs_heap s ! i = a" by (auto simp: in_set_conv_nth)
  with ok show "se_idx (entry_at s a) < length (rs_heap s)" "rs_heap s ! se_idx (entry_at s a) = a"
    by (auto simp: schedule_ok_def)
  from a ok show "a < length (rs_entries s)" by (simp add: schedule_ok_def)
qed

lemma new_schedule_wf: "schedule_wf new_region_schedule" "due_of new_region_schedule = Map.empty"
  by (auto simp: schedule_wf_def schedule_ok_def schedule_elems_def new_region_schedule_def due_of_def heap_upto_def)

text \<open>A region that is scheduled already.\<close>

lemma set_due_simps [simp]:
  "rs_heap (set_due a d s) = rs_heap s" "rs_index (set_due a d s) = rs_index s"
  "length (rs_entries (set_due a d s)) = length (rs_entries s)"
  "se_prefix (entry_at (set_due a d s) b) = se_prefix (entry_at s b)"
  "se_idx (entry_at (set_due a d s) b) = se_idx (entry_at s b)"
  "se_due (entry_at (set_due a d s) b) = (if b = a \<and> a < length (rs_entries s) then d else se_due (entry_at s b))"
  by (cases "b = a"; cases "a < length (rs_entries s)"; simp add: set_due_def list_update_beyond)+

lemma set_due_fix:
  fixes d :: time
  assumes wf: "schedule_wf s" and a: "rs_index s r = Some a"
  defines "t \<equiv> set_due a d s"
  defines "u \<equiv> heap_fix schedule_heap (se_idx (entry_at t a)) t"
  shows "schedule_wf u" "due_of u = (due_of s)(r \<mapsto> d)"
proof -
  let ?i = "se_idx (entry_at s a)"
  note place = schedule_place [OF wf a] and ok = schedule_wfD(1) [OF wf]
  have elems: "schedule_elems t = (schedule_elems s)[?i := schedule_elem a t]"
  proof (rule nth_equalityI)
    fix k assume k: "k < length (schedule_elems t)"
    then have k': "k < length (rs_heap s)" by (simp add: schedule_elems_def t_def)
    then have "rs_heap s ! k = a \<longleftrightarrow> k = ?i"
      using ok place by (metis nth_eq_iff_index_eq schedule_ok_def)
    with k' place show "schedule_elems t ! k = (schedule_elems s)[?i := schedule_elem a t] ! k"
      by (cases "k = ?i") (simp_all add: schedule_elems_def schedule_elem_def t_def)
  qed (simp add: schedule_elems_def t_def)
  have tok: "schedule_ok t" using ok by (simp add: schedule_ok_def t_def)
  have "heap_but elem_due_before ?i (length (schedule_elems t)) (schedule_elems t)"
    using schedule.heap_update_but [OF schedule_wfD(2) [OF wf], of ?i "schedule_elem a t"] place
    unfolding elems by (simp add: schedule_elems_def)
  with tok place have fixed: "schedule_ok u" "is_heap elem_due_before (schedule_elems u)"
    "mset (schedule_elems u) = mset (schedule_elems t)"
    using schedule.client_fix [OF tok, of ?i] by (simp_all add: u_def t_def schedule_elems_def)
  have same: "same_entries t u" unfolding u_def by (rule same_entries_ops)
  have heap: "set (rs_heap u) = set (rs_heap s)"
    using fixed(3) by (metis mset_heap set_mset_mset set_due_simps(1) t_def)
  have index: "rs_index u = rs_index s" and prefixes: "se_prefix (entry_at u b) = se_prefix (entry_at s b)" for b
    using same by (simp_all add: same_entries_def t_def)
  show "schedule_wf u"
    using fixed wf heap index prefixes by (simp add: schedule_wf_def)
  have dues: "se_due (entry_at u b) = (if b = a then d else se_due (entry_at s b))" for b
    using same place(1) by (simp add: same_entries_def t_def)
  show "due_of u = (due_of s)(r \<mapsto> d)"
  proof
    fix p
    show "due_of u p = ((due_of s)(r \<mapsto> d)) p"
    proof (cases "p = r")
      case True
      with a dues show ?thesis by (simp add: due_of_def index)
    next
      case False
      have "rs_index s p \<noteq> Some a" using False a schedule_wfD(3) [OF wf] by metis
      with False dues show ?thesis by (cases "rs_index s p") (auto simp: due_of_def index)
    qed
  qed
qed

text \<open>A new region.\<close>

lemma push_entry:
  fixes d :: time
  assumes wf: "schedule_wf s" and new: "rs_index s r = None"
  defines "t \<equiv> s\<lparr>rs_entries := rs_entries s @ [\<lparr>se_prefix = r, se_due = d, se_idx = 0\<rparr>]\<rparr>"
  defines "u \<equiv> heap_push schedule_heap (length (rs_entries s)) t"
  shows "schedule_wf (u\<lparr>rs_index := (rs_index u)(r \<mapsto> length (rs_entries s))\<rparr>)"
    "due_of (u\<lparr>rs_index := (rs_index u)(r \<mapsto> length (rs_entries s))\<rparr>) = (due_of s)(r \<mapsto> d)"
proof -
  let ?a = "length (rs_entries s)"
  note ok = schedule_wfD(1) [OF wf]
  have old: "entry_at t b = entry_at s b" if "b < ?a" for b using that by (simp add: t_def nth_append)
  have inside: "b < ?a" if "b \<in> set (rs_heap s)" for b using ok that by (simp add: schedule_ok_def)
  have elems: "schedule_elems t = schedule_elems s"
    using inside old by (simp add: schedule_elems_def schedule_elem_def t_def)
  have tok: "schedule_ok t" using ok by (auto simp: schedule_ok_def t_def nth_append)
  have fresh: "schedule_fresh ?a t" using inside by (auto simp: schedule_fresh_def t_def)
  have pushed: "schedule_ok u" "is_heap elem_due_before (schedule_elems u)"
    "mset (schedule_elems u) = add_mset (schedule_elem ?a t) (mset (schedule_elems t))"
    using schedule.client_heap_push [OF tok fresh] schedule_wfD(2) [OF wf] by (simp_all add: u_def elems)
  have same: "same_entries t u" unfolding u_def by (rule same_entries_ops)
  have "mset (rs_heap u) = add_mset ?a (mset (rs_heap s))"
    using pushed(3) by (simp add: mset_heap elems schedule_elem_def)
  then have heap: "set (rs_heap u) = insert ?a (set (rs_heap s))"
    by (metis set_mset_add_mset_insert set_mset_mset)
  have index: "rs_index u = rs_index s" using same by (simp add: same_entries_def t_def)
  have entry: "se_prefix (entry_at u b) = (if b = ?a then r else se_prefix (entry_at s b))"
    "se_due (entry_at u b) = (if b = ?a then d else se_due (entry_at s b))" if "b \<le> ?a" for b
    using same old [of b] that by (auto simp: same_entries_def t_def)
  have other: "se_prefix (entry_at s b) \<noteq> r" if "b \<in> set (rs_heap s)" for b
    using that new schedule_wfD(3) [OF wf, of r b] by auto
  let ?v = "u\<lparr>rs_index := (rs_index u)(r \<mapsto> ?a)\<rparr>"
  have "schedule_ok ?v" "schedule_elems ?v = schedule_elems u"
    using pushed(1) by (simp_all add: schedule_ok_def schedule_elems_def schedule_elem_def)
  moreover have "rs_index ?v p = Some b \<longleftrightarrow> b \<in> set (rs_heap ?v) \<and> se_prefix (entry_at ?v b) = p" for p b
  proof (cases "b = ?a")
    case True
    have "?a \<notin> set (rs_heap s)" using inside by blast
    with True entry(1) [of ?a] schedule_wfD(3) [OF wf, of p ?a] show ?thesis by (simp add: index heap)
  next
    case False
    with other entry(1) [OF less_imp_le [OF inside], of b] schedule_wfD(3) [OF wf, of p b] new
    show ?thesis by (auto simp: index heap)
  qed
  ultimately show "schedule_wf ?v" using pushed(2) by (simp only: schedule_wf_def) blast
  have small: "b < ?a" if "rs_index s p = Some b" for p b using schedule_wfD(3) [OF wf] inside that by blast
  show "due_of ?v = (due_of s)(r \<mapsto> d)"
  proof
    fix p
    show "due_of ?v p = ((due_of s)(r \<mapsto> d)) p"
    proof (cases "rs_index s p")
      case None
      with entry(2) [of ?a] show ?thesis by (simp add: due_of_def index)
    next
      case (Some b)
      with small [OF Some] entry(2) [of b] new show ?thesis by (auto simp: due_of_def index)
    qed
  qed
qed

lemma schedule_add_ok:
  assumes "schedule_wf s"
  shows "schedule_wf (schedule_add r d s)" "due_of (schedule_add r d s) = (due_of s)(r \<mapsto> d)"
  using push_entry [OF assms, of r d] set_due_fix [OF assms, of r _ d]
  by (auto simp: schedule_add_def Let_def split: option.split)

text \<open>Removing a region.\<close>

lemma schedule_remove_ok:
  assumes wf: "schedule_wf s"
  shows "schedule_wf (schedule_remove r s)" "due_of (schedule_remove r s) = (due_of s)(r := None)"
proof -
  have "schedule_wf (schedule_remove r s) \<and> due_of (schedule_remove r s) = (due_of s)(r := None)"
  proof (cases "rs_index s r")
    case None
    with wf show ?thesis by (auto simp: schedule_remove_def due_of_def fun_eq_iff)
  next
    case (Some a)
    let ?i = "se_idx (entry_at s a)"
    define u where "u = snd (heap_remove schedule_heap ?i s)"
    define v where "v = u\<lparr>rs_index := (rs_index u)(r := None)\<rparr>"
    note place = schedule_place [OF wf Some] and ok = schedule_wfD(1,2) [OF wf]
    have rem: "schedule_ok u" "is_heap elem_due_before (schedule_elems u)"
      "mset (schedule_elems s) = add_mset (schedule_elems s ! ?i) (mset (schedule_elems u))"
      using schedule.client_remove [OF ok(1) _ ok(2), of ?i _ u] place by (simp_all add: u_def schedule_elems_def prod_eq_iff)
    have same: "same_entries s u" unfolding u_def by (rule same_entries_ops)
    have index: "rs_index u = rs_index s" and entry: "se_prefix (entry_at u b) = se_prefix (entry_at s b)"
      "se_due (entry_at u b) = se_due (entry_at s b)" for b
      using same by (simp_all add: same_entries_def)
    have m: "mset (rs_heap s) = mset (a # rs_heap u)"
      using rem(3) place by (simp add: mset_heap) (simp add: schedule_elems_def schedule_elem_def)
    then have "distinct (a # rs_heap u)" "set (rs_heap s) = insert a (set (rs_heap u))"
      using mset_eq_imp_distinct_iff [OF m] mset_eq_setD [OF m] ok(1) by (simp_all add: schedule_ok_def)
    then have heap: "set (rs_heap u) = set (rs_heap s) - {a}" by auto
    have only: "rs_index s p = Some a \<longleftrightarrow> p = r" for p using Some schedule_wfD(3) [OF wf] by metis
    have "rs_index v p = Some b \<longleftrightarrow> b \<in> set (rs_heap v) \<and> se_prefix (entry_at v b) = p" for p b
      using Some only [of p] schedule_wfD(3) [OF wf, of p b] by (auto simp: v_def heap index entry)
    moreover have "schedule_ok v" "schedule_elems v = schedule_elems u"
      using rem(1) by (simp_all add: v_def schedule_ok_def schedule_elems_def schedule_elem_def)
    ultimately have "schedule_wf v" using rem(2) by (simp only: schedule_wf_def) blast
    moreover have "due_of v = (due_of s)(r := None)"
      by (auto simp: due_of_def v_def index entry fun_eq_iff)
    moreover have "schedule_remove r s = v" using Some by (simp add: schedule_remove_def u_def v_def Let_def)
    ultimately show ?thesis by simp
  qed
  then show "schedule_wf (schedule_remove r s)" "due_of (schedule_remove r s) = (due_of s)(r := None)" by auto
qed

text \<open>The entry at the root.\<close>

lemma schedule_peek_None: "schedule_wf s \<Longrightarrow> schedule_peek s = None \<longleftrightarrow> due_of s = Map.empty"
proof -
  assume wf: "schedule_wf s"
  have "due_of s = Map.empty \<longleftrightarrow> (\<forall>p. rs_index s p = None)" by (auto simp: due_of_def fun_eq_iff)
  also have "\<dots> \<longleftrightarrow> (\<forall>p a. rs_index s p \<noteq> Some a)" by auto
  also have "\<dots> \<longleftrightarrow> rs_heap s = []" by (cases "rs_heap s") (auto simp: schedule_wfD(3) [OF wf])
  finally show ?thesis by (simp add: schedule_peek_def)
qed

lemma schedule_peek_Some:
  assumes wf: "schedule_wf s" and peek: "schedule_peek s = Some e"
  shows "due_of s (se_prefix e) = Some (se_due e)"
    "due_of s p = Some d \<Longrightarrow> \<not> due_before (d, p) (se_due e, se_prefix e)"
proof -
  from peek have ne: "rs_heap s \<noteq> []" and e: "e = entry_at s (rs_heap s ! 0)"
    by (auto simp: schedule_peek_def split: if_splits)
  have "rs_heap s ! 0 \<in> set (rs_heap s)" using ne by simp
  then have "rs_index s (se_prefix e) = Some (rs_heap s ! 0)" using schedule_wfD(3) [OF wf] e by simp
  then show "due_of s (se_prefix e) = Some (se_due e)" using e by (simp add: due_of_def)
  show "\<not> due_before (d, p) (se_due e, se_prefix e)" if due: "due_of s p = Some d"
  proof -
    from due obtain b where b: "rs_index s p = Some b" and d: "d = se_due (entry_at s b)" by (auto simp: due_of_def)
    from b have "b \<in> set (rs_heap s)" "se_prefix (entry_at s b) = p" by (simp_all add: schedule_wfD(3) [OF wf])
    then have "schedule_elem b s \<in> set (schedule_elems s)" "schedule_elem b s = (b, d, p)"
      using d by (auto simp: schedule_elems_def schedule_elem_def)
    with schedule.heap_least [OF schedule_wfD(2) [OF wf], of "schedule_elem b s"] ne e
    show ?thesis by (simp add: elem_due_before_def schedule_elems_def schedule_elem_def)
  qed
qed

section \<open>The interface the survey uses\<close>

text \<open>
  A collection of due times by region, as a map: what adding and removing several regions in turn
  amounts to.
\<close>

locale due_table =
  fixes add :: "string \<Rightarrow> time \<Rightarrow> 's \<Rightarrow> 's" and remove :: "string \<Rightarrow> 's \<Rightarrow> 's"
    and dues :: "'s \<Rightarrow> string \<Rightarrow> time option" and wf :: "'s \<Rightarrow> bool"
  assumes add_wf: "wf s \<Longrightarrow> wf (add r d s)" and add_dues: "wf s \<Longrightarrow> dues (add r d s) = (dues s)(r \<mapsto> d)"
    and remove_wf: "wf s \<Longrightarrow> wf (remove r s)" and remove_dues: "wf s \<Longrightarrow> dues (remove r s) = (dues s)(r := None)"
begin

lemma add_all:
  "wf s \<Longrightarrow> wf (fold (\<lambda>(r, d). add r d) xs s) \<and>
     (distinct (map fst xs) \<longrightarrow> dues (fold (\<lambda>(r, d). add r d) xs s) = dues s ++ map_of xs)"
proof (induction xs arbitrary: s)
  case (Cons x xs)
  obtain r d where x: "x = (r, d)" by fastforce
  with Cons.prems Cons.IH [of "add r d s"] show ?case
    by (auto simp: add_wf add_dues map_add_def fun_eq_iff map_of_eq_None_iff dest: map_of_SomeD split: option.split)
      (force dest: map_of_SomeD)
qed simp

lemma remove_all:
  "wf s \<Longrightarrow> wf (fold remove rs s) \<and> dues (fold remove rs s) = (\<lambda>p. if p \<in> set rs then None else dues s p)"
proof (induction rs arbitrary: s)
  case (Cons r rs)
  with Cons.IH [of "remove r s"] show ?case by (auto simp: remove_wf remove_dues)
qed simp

end

interpretation region_dues: due_table schedule_add schedule_remove due_of schedule_wf
  by unfold_locales (simp_all add: schedule_add_ok schedule_remove_ok)

end
