(* ===== verification/OwnedCoverage.thy ===== *)
theory OwnedCoverage
  imports OwnedQuery
begin

text \<open>
  A coverage query that a machine owns: its region, and what the nodes it reports have in common.
\<close>

lemma owned_new_coverage:
  assumes "new_coverage_query kd (closest_iter kd T) self qid target plen (new_closest_nodes_iter T target) known cfg = Inr q"
  shows "owned_query kd T qid target q" "q_coverage q" "q_prefix_len q = plen"
proof -
  have "started_query kd T q" by (rule coverage [OF assms])
  then have "query_reached kd T [] [] q" by (auto simp: query_reached_def)
  moreover have "q_id q = qid" "q_target q = target" "q_find_closer q" "\<not> q_finished q"
    and props: "q_coverage q" "q_prefix_len q = plen"
    using assms by (auto simp: new_coverage_query_def new_find_closer_query_def new_query_def
        split: option.splits prod.splits sum.splits if_splits)
  ultimately show "owned_query kd T qid target q" unfolding owned_query_def by fastforce
  show "q_coverage q" "q_prefix_len q = plen" by (rule props)+
qed

lemma new_coverage_query_ok:
  assumes "query_config_validate cfg = None" "0 \<le> plen" "plen \<le> int (key_bit_len kd)"
  shows "\<exists>q. new_coverage_query kd io self qid target plen it known (Some cfg) = Inr q"
  using new_query_ok [OF assms(1)] assms(2,3) unfolding new_coverage_query_def
  by (metis (no_types, lifting) linorder_not_less sum.simps(6))

text \<open>The region stays the same, and a query that ends by itself reports members of it only.\<close>

lemma owned_coverage_advance:
  assumes metric: "kad_metric kd" and trie: "kad_node_trie kd T ok" and own: "owned_query kd T qid target q"
    and cov: "q_coverage q" and ev: "ev \<noteq> EventQueryCancel"
    and adv: "query_advance kd (closest_iter kd T) now ev q = (st, q')"
  shows "q_coverage q'" "q_prefix_len q' = q_prefix_len q"
    "st = StateQueryFinished i stats t ns \<Longrightarrow> n \<in> set ns \<Longrightarrow> q_prefix_len q \<le> key_cpl kd (node_key kd n) target"
proof -
  from own obtain evs sts where reached: "query_reached kd T evs sts q" by (auto simp: owned_query_def)
  note wf = kad_node_trie.reached_wf(1) [OF trie reached] and limit = kad_node_trie.reached_limit [OF trie reached]
  have iter: "node_iter_spec kd (closest_iter kd T) (closest_valid kd T ok)"
    by (rule kad_node_trie.iterator [OF trie])
  have "same_identity q q'"
    using node_iter_spec.advance_wf(2) [OF iter wf limit, of now ev] adv by simp
  with cov own show same: "q_coverage q'" "q_prefix_len q' = q_prefix_len q"
    by (auto simp: same_identity_def owned_query_def)
  have target: "q_target q' = target"
    using \<open>same_identity q q'\<close> own by (simp add: same_identity_def owned_query_def)
  show "q_prefix_len q \<le> key_cpl kd (node_key kd n) target"
    if st: "st = StateQueryFinished i stats t ns" and n: "n \<in> set ns"
  proof -
    have "\<not> q_finished q" using own by (simp add: owned_query_def)
    from kad_node_trie.coverage_result [OF trie kad_metric.nearer_cpl [OF metric] reached this ev adv [unfolded st] same(1)] n
    have "in_prefix kd q' (node_key kd n)" by auto
    with same(2) target show ?thesis by (simp add: in_prefix_def)
  qed
qed

end
