(* ===== verification/SurveyTheorems.thy ===== *)
theory SurveyTheorems
  imports Survey SurveyScheduleFacts OwnedCoverage PrefixTableTheorems
begin

text \<open>
  The survey keeps its schedule in step with the table: the regions scheduled are the regions of the
  table, whatever splits and merges. It starts the region due first, reports members of the region only
  and hands the due times of the regions that went to those that replaced them.
\<close>

section \<open>The change of the schedule\<close>

lemma prefix_related: "prefix_related a b \<longleftrightarrow> related a b"
  by (auto simp: prefix_related_def related_def)

text \<open>The due times of the regions that one of the given regions covers or that cover it.\<close>

definition related_dues :: "string list \<Rightarrow> (string \<Rightarrow> time option) \<Rightarrow> string \<Rightarrow> time list" where
  "related_dues rs due a = map (\<lambda>r. the (due r)) (filter (\<lambda>r. related a r \<and> due r \<noteq> None) rs)"

lemma inherited_due_eq: "inherited_due rs s a = earliest_from 0 (related_dues rs (due_of s) a)"
proof -
  have "fold (\<lambda>r best. if \<not> prefix_related a r then best
       else case due_of s r of None \<Rightarrow> best
         | Some d \<Rightarrow> (if is_zero best \<or> time_before d best then d else best)) rs b =
     earliest_from b (related_dues rs (due_of s) a)" for b
    by (induction rs arbitrary: b) (auto simp: related_dues_def prefix_related split: option.split)
  then show ?thesis by (simp add: inherited_due_def zero_time_def)
qed

lemma inherited_due_Min:
  assumes "\<forall>r d. due_of s r = Some d \<longrightarrow> 0 < d" "r \<in> set rs" "related a r" "due_of s r \<noteq> None"
  shows "inherited_due rs s a = Min (set (related_dues rs (due_of s) a))" "0 < inherited_due rs s a"
proof -
  have pos: "0 < d" if "d \<in> set (related_dues rs (due_of s) a)" for d
    using that assms(1) by (auto simp: related_dues_def)
  then have "\<forall>d \<in> set (related_dues rs (due_of s) a). d \<noteq> 0" by fastforce
  moreover have ne: "related_dues rs (due_of s) a \<noteq> []"
    using assms(2-4) by (auto simp: related_dues_def filter_empty_conv)
  ultimately show eq: "inherited_due rs s a = Min (set (related_dues rs (due_of s) a))"
    by (simp add: inherited_due_eq earliest_from_zero)
  show "0 < inherited_due rs s a" unfolding eq using ne by (intro pos Min_in) auto
qed

lemma reconcile_ok:
  assumes wf: "schedule_wf s" and pos: "\<forall>r d. due_of s r = Some d \<longrightarrow> 0 < d"
    and removed: "set removed \<subseteq> dom (due_of s)" and added: "distinct added"
    and source: "\<forall>a \<in> set added. \<exists>r \<in> set removed. related a r"
  shows "schedule_wf (reconcile removed added s)"
    "due_of (reconcile removed added s) =
      (\<lambda>p. if p \<in> set added then Some (Min (set (related_dues removed (due_of s) p)))
        else if p \<in> set removed then None else due_of s p)"
proof -
  let ?dues = "map (\<lambda>a. (a, inherited_due removed s a)) added" and ?s = "fold schedule_remove removed s"
  have rec: "reconcile removed added s = fold (\<lambda>(a, d). schedule_add a d) ?dues ?s"
    by (simp add: reconcile_def)
  note rem = region_dues.remove_all [OF wf, of removed]
  have fst: "map fst ?dues = added" by (simp add: comp_def)
  from region_dues.add_all [of ?s ?dues] rem added fst
  have all: "schedule_wf (reconcile removed added s)"
    "due_of (reconcile removed added s) = due_of ?s ++ map_of ?dues" by (simp_all add: rec)
  then show "schedule_wf (reconcile removed added s)" by simp
  have min: "inherited_due removed s a = Min (set (related_dues removed (due_of s) a))" if "a \<in> set added" for a
  proof -
    from that source obtain r where r: "r \<in> set removed" "related a r" by blast
    with removed have "due_of s r \<noteq> None" by blast
    from inherited_due_Min(1) [OF pos r this] show ?thesis by blast
  qed
  show "due_of (reconcile removed added s) =
      (\<lambda>p. if p \<in> set added then Some (Min (set (related_dues removed (due_of s) p)))
        else if p \<in> set removed then None else due_of s p)"
    unfolding all(2) using rem min
    by (auto simp: fun_eq_iff map_add_def map_of_map_restrict restrict_map_def split: option.split)
qed

section \<open>Bits and shared prefixes\<close>

text \<open>Two keys with a common prefix of some length agree on the bits of it.\<close>

locale kad_bits =
  fixes kd :: "('k, 'n) kad_ops"
  assumes cpl_bits: "int n \<le> key_cpl kd a b \<Longrightarrow> i < n \<Longrightarrow> key_bit kd a i = key_bit kd b i"
begin

lemma carries_near: "int (length p) \<le> key_cpl kd a b \<Longrightarrow> carries kd b p \<Longrightarrow> carries kd a p"
  unfolding carries_def using cpl_bits by blast

end

lemma bit_digits_bound: "bit_digits m \<le> k \<Longrightarrow> m < 2 ^ k"
proof (induction k arbitrary: m)
  case 0
  then show ?case by (subst (asm) bit_digits.simps) (simp split: if_splits)
next
  case (Suc k)
  have "m = 0 \<or> bit_digits (m div 2) \<le> k" using Suc.prems unfolding bit_digits.simps [of m] by (simp split: if_splits)
  with Suc.IH [of "m div 2"] show ?case by auto
qed

interpretation tiny_bits: kad_bits tiny_kad
proof
  fix n i :: nat and a b :: tiny_key
  assume n: "int n \<le> key_cpl tiny_kad a b" and i: "i < n"
  then have small: "bit_digits (unat (a XOR b)) \<le> 8 - n" and "n \<le> 8"
    by (auto simp: tiny_kad_def tiny_cpl_def)
  have "\<not> bit (unat (a XOR b)) (7 - i)"
  proof -
    have "unat (a XOR b) < 2 ^ (8 - n)" by (rule bit_digits_bound [OF small])
    also have "(2 :: nat) ^ (8 - n) \<le> 2 ^ (7 - i)" using i \<open>n \<le> 8\<close> by (intro power_increasing) auto
    finally show ?thesis by (simp add: bit_iff_odd)
  qed
  then show "key_bit tiny_kad a i = key_bit tiny_kad b i"
    by (simp add: tiny_kad_def bit_unsigned_iff bit_xor_iff)
qed

section \<open>Reachable machines\<close>

inductive survey_reached ::
  "('k, 'n) kad_ops \<Rightarrow> ('k, 'n, 'rt) rt_ops \<Rightarrow> (string \<Rightarrow> nat \<Rightarrow> bool) \<Rightarrow> ('k, 'n node_status, 'tr) trie_ops \<Rightarrow>
     ('k, 'g) prefix_target_fn \<Rightarrow> ('k, 'n, 'tr, 'rt, 'g) survey_machine \<Rightarrow> bool"
  for kd rt pbit T target_fn where
  created: "new_survey self table (Some t) gen cfg = Inr s \<Longrightarrow> survey_reached kd rt pbit T target_fn s"
| advanced: "survey_reached kd rt pbit T target_fn s \<Longrightarrow> 0 < now \<Longrightarrow>
    survey_advance kd rt pbit T target_fn now ev s = Some (out, s') \<Longrightarrow> survey_reached kd rt pbit T target_fn s'"
| shared: "survey_reached kd rt pbit T target_fn s \<Longrightarrow> survey_reached kd rt pbit T target_fn (s\<lparr>sv_rt := table\<rparr>)"

text \<open>What is documented of the function that mints targets: the leading bits of the key are the prefix.\<close>

definition target_fn_ok :: "('k, 'n) kad_ops \<Rightarrow> ('k, 'g) prefix_target_fn \<Rightarrow> bool" where
  "target_fn_ok kd target_fn \<longleftrightarrow> (\<forall>p g k g'. target_fn p g = (Inr k, g') \<longrightarrow> carries kd k p)"

abbreviation table_prefixes :: "prefix_table \<Rightarrow> string set" where
  "table_prefixes t \<equiv> set (map rg_prefix (table_regions t))"

definition surveys ::
  "('k, 'n) kad_ops \<Rightarrow> ('k, 'n node_status, 'tr) trie_ops \<Rightarrow> string \<Rightarrow> ('k, 'n, 'tr) find_query \<Rightarrow> bool" where
  "surveys kd T region q \<longleftrightarrow>
     owned_query kd T SurveyActivityID (q_target q) q \<and> q_coverage q \<and> q_prefix_len q = int (length region) \<and>
     carries kd (q_target q) region"

definition survey_wf ::
  "('k, 'n) kad_ops \<Rightarrow> ('k, 'n node_status, 'tr) trie_ops \<Rightarrow> ('k, 'n, 'tr, 'rt, 'g) survey_machine \<Rightarrow> bool" where
  "survey_wf kd T s \<longleftrightarrow>
     survey_config_validate (sv_cfg s) = None \<and> schedule_wf (sv_schedule s) \<and>
     dom (due_of (sv_schedule s)) = (if sv_seeded s then table_prefixes (sv_table s) else {}) \<and>
     (\<forall>p d. due_of (sv_schedule s) p = Some d \<longrightarrow> 0 < d) \<and>
     (case sv_qry s of
        None \<Rightarrow> sv_prefix s = [] \<and> sv_target s = None
      | Some q \<Rightarrow> surveys kd T (sv_prefix s) q \<and> sv_target s = Some (q_target q) \<and> sv_seeded s \<and>
          sv_prefix s \<in> table_prefixes (sv_table s))"

lemma survey_query_config_ok:
  "survey_config_validate cfg = None \<Longrightarrow> query_config_validate (survey_query_config cfg) = None"
  by (simp add: survey_config_validate_def query_config_validate_def survey_query_config_def
      default_query_config_def split: if_splits)

lemma new_survey_wf: "new_survey self table t gen cfg = Inr s \<Longrightarrow> survey_wf kd T s"
  by (auto simp: new_survey_def survey_wf_def default_survey_config_def duration_defs new_schedule_wf
      survey_config_validate_def split: option.splits if_splits)

lemma survey_wf_running [simp]: "survey_wf kd T (s\<lparr>sv_running := r\<rparr>) = survey_wf kd T s"
  by (cases "sv_qry s") (simp_all add: survey_wf_def)

lemma survey_wf_shared [simp]: "survey_wf kd T (s\<lparr>sv_rt := r\<rparr>) = survey_wf kd T s"
  by (cases "sv_qry s") (simp_all add: survey_wf_def)

text \<open>The prefixes of a table are strings of bits no longer than a key.\<close>

lemma table_prefix_bits: "p \<in> table_prefixes t \<Longrightarrow> bit_string p"
  using walk_bit_string [of "[]" p "tb_root t"]
  by (simp add: leaf_prefixes_regions [symmetric] leaf_prefixes_def bit_string_def)

section \<open>Seeding the schedule\<close>

lemma seed_schedule_simps [simp]:
  "sv_seeded (seed_schedule now s)" "sv_qry (seed_schedule now s) = sv_qry s"
  "sv_table (seed_schedule now s) = sv_table s" "sv_cfg (seed_schedule now s) = sv_cfg s"
  "sv_prefix (seed_schedule now s) = sv_prefix s" "sv_target (seed_schedule now s) = sv_target s"
  "sv_rt (seed_schedule now s) = sv_rt s" "sv_gen (seed_schedule now s) = sv_gen s"
  "sv_self (seed_schedule now s) = sv_self s"
  by (simp_all add: seed_schedule_def Let_def)

text \<open>One survey of every region, spread over an interval in the order of the regions.\<close>

definition first_dues :: "time \<Rightarrow> duration \<Rightarrow> region list \<Rightarrow> (string \<times> time) list" where
  "first_dues now interval regions =
     map (\<lambda>i. (rg_prefix (regions ! i), now + interval div int (length regions) * int i)) [0..<length regions]"

lemma fst_first_dues [simp]: "map fst (first_dues now interval regions) = map rg_prefix regions"
  by (rule nth_equalityI) (simp_all add: first_dues_def)

lemma seed_schedule_eq:
  assumes "\<not> sv_seeded s"
  shows "sv_schedule (seed_schedule now s) =
    fold (\<lambda>(r, d). schedule_add r d) (first_dues now (svc_interval (sv_cfg s)) (table_regions (sv_table s)))
      (sv_schedule s)"
proof -
  let ?rs = "table_regions (sv_table s)"
  have "fold (\<lambda>(i, r). schedule_add (rg_prefix r) (time_add now (step * int i))) (enumerate 0 ?rs) sch =
      fold (\<lambda>(r, d). schedule_add r d) (map (\<lambda>(i, r). (rg_prefix r, now + step * int i)) (enumerate 0 ?rs)) sch"
    for step sch by (simp add: fold_map comp_def case_prod_beta' time_add_def)
  moreover have "map (\<lambda>(i, r). (rg_prefix r, now + step * int i)) (enumerate 0 ?rs) =
      map (\<lambda>i. (rg_prefix (?rs ! i), now + step * int i)) [0..<length ?rs]" for step
    by (rule nth_equalityI) (simp_all add: nth_enumerate_eq)
  ultimately show ?thesis
    using assms by (auto simp: seed_schedule_def Let_def first_dues_def)
qed

lemma seed_schedule_wf:
  assumes "survey_wf kd T s" "sv_qry s = None" "0 < now"
  shows "survey_wf kd T (seed_schedule now s)"
proof (cases "sv_seeded s")
  case True
  with assms(1) show ?thesis by (simp add: seed_schedule_def)
next
  case False
  let ?rs = "table_regions (sv_table s)"
  let ?ds = "first_dues now (svc_interval (sv_cfg s)) ?rs"
  from assms False have wf: "schedule_wf (sv_schedule s)" and empty: "due_of (sv_schedule s) = Map.empty"
    and cfg: "survey_config_validate (sv_cfg s) = None" by (simp_all add: survey_wf_def)
  from region_dues.add_all [OF wf, of ?ds] table_prefixes_distinct [of "sv_table s"]
  have all: "schedule_wf (sv_schedule (seed_schedule now s))"
    "due_of (sv_schedule (seed_schedule now s)) = map_of ?ds"
    by (simp_all add: seed_schedule_eq [OF False] empty)
  have "1 \<le> svc_interval (sv_cfg s)" using cfg by (simp add: survey_config_validate_def split: if_splits)
  then have "0 \<le> svc_interval (sv_cfg s) div int (length ?rs)" by (cases "?rs = []") (simp_all add: pos_imp_zdiv_nonneg_iff)
  then have pos: "0 < d" if "(p, d) \<in> set ?ds" for p d
    using that assms(3) by (auto simp: first_dues_def intro: add_pos_nonneg)
  have "dom (map_of ?ds) = table_prefixes (sv_table s)"
    by (metis dom_map_of_conv_image_fst fst_first_dues list.set_map)
  with all pos assms(1,2) cfg show ?thesis by (auto simp: survey_wf_def dest: map_of_SomeD)
qed

lemma seed_schedule_dues:
  assumes "survey_wf kd T s" "\<not> sv_seeded s"
  shows "due_of (sv_schedule (seed_schedule now s)) =
    map_of (first_dues now (svc_interval (sv_cfg s)) (table_regions (sv_table s)))"
proof -
  from assms have "schedule_wf (sv_schedule s)" and empty: "due_of (sv_schedule s) = Map.empty"
    by (simp_all add: survey_wf_def)
  from region_dues.add_all [OF this(1)] table_prefixes_distinct [of "sv_table s"] show ?thesis
    by (simp add: seed_schedule_eq [OF assms(2)] empty)
qed

section \<open>The end of a survey\<close>

text \<open>
  The due times once a region has been observed: those of the regions that went are gone, those of the
  regions that came are the earliest of the regions they replace, the others stay.
\<close>

definition dues_after ::
  "string list \<Rightarrow> string list \<Rightarrow> (string \<Rightarrow> time option) \<Rightarrow> string \<Rightarrow> time option" where
  "dues_after removed added due =
     (\<lambda>p. if p \<in> set added then Some (Min (set (related_dues removed due p)))
       else if p \<in> set removed then None else due p)"

lemma survey_observe_ok:
  fixes s :: "('k, 'n, 'tr, 'rt, 'g) survey_machine"
  assumes bits: "bitstr_bits pbit" and wf: "survey_wf kd T s" and seeded: "sv_seeded s" and idle: "sv_qry s = None"
    and region: "region \<in> table_prefixes (sv_table s)"
    and obs: "observe kd pbit region (member_keys kd ns) now (sv_table s) = ((removed, added), t)"
  shows "survey_wf kd T (survey_observe kd pbit now region ns s)"
    "survey_observe kd pbit now region ns s =
       s\<lparr>sv_table := t, sv_schedule := reconcile removed added (sv_schedule s)\<rparr>"
    "due_of (reconcile removed added (sv_schedule s)) = dues_after removed added (due_of (sv_schedule s))"
proof -
  let ?due = "due_of (sv_schedule s)"
  from wf seeded have sched: "schedule_wf (sv_schedule s)" and dom: "dom ?due = table_prefixes (sv_table s)"
    and pos: "\<forall>p d. ?due p = Some d \<longrightarrow> 0 < d" by (simp_all add: survey_wf_def)
  note change = observe_change [OF bits table_prefix_bits [OF region] obs]
  from change dom have removed: "set removed \<subseteq> dom ?due" and added: "distinct added"
    and source: "\<forall>a \<in> set added. \<exists>r \<in> set removed. related a r"
    and regions: "table_prefixes t = table_prefixes (sv_table s) - set removed \<union> set added" by auto
  note rec = reconcile_ok [OF sched pos removed added source]
  show after: "due_of (reconcile removed added (sv_schedule s)) = dues_after removed added ?due"
    unfolding dues_after_def by (rule rec(2))
  show eq: "survey_observe kd pbit now region ns s =
      s\<lparr>sv_table := t, sv_schedule := reconcile removed added (sv_schedule s)\<rparr>"
    by (simp add: survey_observe_def obs)
  have dom': "dom (dues_after removed added ?due) = table_prefixes t"
    unfolding regions dom [symmetric] by (auto simp: dues_after_def split: if_splits)
  have pos': "0 < d" if "dues_after removed added ?due p = Some d" for p d
  proof (cases "p \<in> set added")
    case True
    with source obtain r where r: "r \<in> set removed" "related p r" by blast
    with removed have "?due r \<noteq> None" by blast
    from inherited_due_Min [OF pos r this] that True show ?thesis by (simp add: dues_after_def)
  next
    case False
    with that pos show ?thesis by (auto simp: dues_after_def split: if_splits)
  qed
  show "survey_wf kd T (survey_observe kd pbit now region ns s)"
    using wf idle rec(1) dom' pos' seeded unfolding eq by (auto simp: survey_wf_def after)
qed

text \<open>What the machine makes of what its query reports.\<close>

lemma survey_query_step:
  fixes s :: "('k, 'n, 'tr, 'rt, 'g) survey_machine"
  assumes metric: "kad_metric kd" and trie: "kad_node_trie kd T ok" and now: "0 < now"
    and own: "surveys kd T (sv_prefix s) q" and ev: "ev \<noteq> EventQueryCancel"
  obtains (request) q' n where "surveys kd T (sv_prefix s) q'" "q_target q' = q_target q"
      "survey_advance_query kd pbit T now ev q s =
         Some (StateSurveyFindCloser SurveyActivityID (q_target q) n (q_stats q'), s\<lparr>sv_qry := Some q'\<rparr>)"
  | (finished) stats ns where "\<forall>n \<in> set ns. int (length (sv_prefix s)) \<le> key_cpl kd (node_key kd n) (q_target q)"
      "survey_advance_query kd pbit T now ev q s =
         Some (StateSurveyFinished (sv_prefix s) ns stats, survey_observe kd pbit now (sv_prefix s) ns (clear_survey s))"
  | (timeout) stats where
      "survey_advance_query kd pbit T now ev q s = Some (StateSurveyTimeout (sv_prefix s) stats, clear_survey s)"
  | (waiting) q' due where "surveys kd T (sv_prefix s) q'" "q_target q' = q_target q" "0 < due" "now \<le> q_deadline q'"
      "due = Min (set (waiting_deadlines (closest_iter kd T) q'))"
      "survey_advance_query kd pbit T now ev q s =
         Some (StateSurveyWaiting (min due (q_deadline q')) (q_stats q'), s\<lparr>sv_qry := Some q'\<rparr>)"
proof -
  obtain st q' where adv: "query_advance kd (closest_iter kd T) now ev q = (st, q')" by fastforce
  from own have owned: "owned_query kd T SurveyActivityID (q_target q) q" and cov: "q_coverage q"
    and len: "q_prefix_len q = int (length (sv_prefix s))" and car: "carries kd (q_target q) (sv_prefix s)"
    by (simp_all add: surveys_def)
  note region = owned_coverage_advance [OF metric trie owned cov ev adv]
  have keeps: "surveys kd T (sv_prefix s) q'" "q_target q' = q_target q"
    if "owned_query kd T SurveyActivityID (q_target q) q'"
    using that region(1,2) len car by (auto simp: surveys_def owned_query_def)
  have clear: "clear_survey (s\<lparr>sv_qry := Some q'\<rparr>) = clear_survey s" by (simp add: clear_survey_def)
  show thesis
  proof (cases rule: owned_advance [OF trie owned now adv, case_names request finished waiting])
    case (request n)
    with adv keeps show thesis by (intro that(1) [of q' n]) (simp_all add: survey_advance_query_def)
  next
    case (finished ns)
    with adv region(3) [OF finished] len clear show thesis
      by (intro that(2) [of ns "q_stats q'"]) (simp_all add: survey_advance_query_def Let_def)
  next
    case (waiting due)
    from waiting(4) adv have eq: "survey_advance_query kd pbit T now ev q s =
        Some (survey_waiting now (q_stats q') (q_deadline q') due (sv_prefix s) (s\<lparr>sv_qry := Some q'\<rparr>))"
      by (auto simp: survey_advance_query_def)
    show thesis
    proof (cases "q_deadline q' < now")
      case True
      with eq clear show thesis by (intro that(3)) (simp add: survey_waiting_def time_defs)
    next
      case False
      with now waiting(2) have "earlier due (q_deadline q') = min due (q_deadline q')"
        by (intro earlier_nonzero) simp_all
      with False eq waiting(1-3) keeps show thesis
        by (intro that(4) [of q' due]) (simp_all add: survey_waiting_def time_defs)
    qed
  qed
qed

lemma survey_wf_query:
  assumes "survey_wf kd T s" "sv_qry s = Some q"
  shows "surveys kd T (sv_prefix s) q" "sv_target s = Some (q_target q)" "sv_seeded s"
    "sv_prefix s \<in> table_prefixes (sv_table s)"
  using assms by (simp_all add: survey_wf_def)

lemma survey_wf_next_query:
  "survey_wf kd T s \<Longrightarrow> sv_qry s = Some q \<Longrightarrow> surveys kd T (sv_prefix s) q' \<Longrightarrow> q_target q' = q_target q \<Longrightarrow>
     survey_wf kd T (s\<lparr>sv_qry := Some q'\<rparr>)"
  by (simp add: survey_wf_def)

lemma survey_wf_clear: "survey_wf kd T s \<Longrightarrow> survey_wf kd T (clear_survey s)"
  by (simp add: survey_wf_def clear_survey_def)

lemma clear_survey_simps [simp]:
  "sv_table (clear_survey s) = sv_table s" "sv_schedule (clear_survey s) = sv_schedule s"
  "sv_seeded (clear_survey s) = sv_seeded s" "sv_qry (clear_survey s) = None" "sv_cfg (clear_survey s) = sv_cfg s"
  by (simp_all add: clear_survey_def)

text \<open>The region a report is about, the one being surveyed unless the report names another.\<close>

fun surveyed_region ::
  "('k, 'n) survey_state \<Rightarrow> ('k, 'n, 'tr, 'rt, 'g) survey_machine \<Rightarrow> string" where
  "surveyed_region (StateSurveyFinished p ns stats) s = p"
| "surveyed_region (StateSurveyTimeout p stats) s = p"
| "surveyed_region (StateSurveyFailure p err) s = p"
| "surveyed_region _ s = sv_prefix s"

fun is_survey_finished :: "('k, 'n) survey_state \<Rightarrow> bool" where
  "is_survey_finished (StateSurveyFinished p ns stats) = True"
| "is_survey_finished _ = False"

lemma surveyed_region_running [simp]: "surveyed_region out (s\<lparr>sv_running := r\<rparr>) = surveyed_region out s"
  by (cases out) simp_all

lemma survey_advance_query_ok:
  fixes s :: "('k, 'n, 'tr, 'rt, 'g) survey_machine"
  assumes metric: "kad_metric kd" and trie: "kad_node_trie kd T ok" and bits: "bitstr_bits pbit" and now: "0 < now"
    and wf: "survey_wf kd T s" and qry: "sv_qry s = Some q" and ev: "ev \<noteq> EventQueryCancel"
  shows "\<exists>out s'. survey_advance_query kd pbit T now ev q s = Some (out, s') \<and> survey_wf kd T s' \<and> sv_seeded s' \<and>
    surveyed_region out s' = sv_prefix s \<and> (\<forall>d. out \<noteq> StateSurveyIdle d) \<and>
    (\<not> is_survey_finished out \<longrightarrow> sv_schedule s' = sv_schedule s \<and> sv_table s' = sv_table s)"
proof (cases rule: survey_query_step [OF metric trie now survey_wf_query(1) [OF wf qry] ev, where pbit = pbit,
      case_names request finished timeout waiting])
  case (request q' n)
  with survey_wf_next_query [OF wf qry request(1,2)] survey_wf_query(3) [OF wf qry] show ?thesis by simp
next
  case (finished stats ns)
  obtain removed added t where "observe kd pbit (sv_prefix s) (member_keys kd ns) now (sv_table (clear_survey s)) =
      ((removed, added), t)" by (metis prod.exhaust)
  from survey_observe_ok [OF bits survey_wf_clear [OF wf] _ _ _ this] survey_wf_query [OF wf qry] finished
  show ?thesis by simp
next
  case (timeout stats)
  with survey_wf_clear [OF wf] survey_wf_query(3) [OF wf qry] show ?thesis by simp
next
  case (waiting q' due)
  with survey_wf_next_query [OF wf qry waiting(1,2)] survey_wf_query(3) [OF wf qry] show ?thesis by simp
qed

lemma start_survey_ok:
  fixes s :: "('k, 'n, 'tr, 'rt, 'g) survey_machine"
  assumes metric: "kad_metric kd" and trie: "kad_node_trie kd T ok" and bits: "bitstr_bits pbit" and now: "0 < now"
    and target: "target_fn_ok kd target_fn" and wf: "survey_wf kd T s" and idle: "sv_qry s = None"
    and seeded: "sv_seeded s" and region: "region \<in> table_prefixes (sv_table s)"
  shows "\<exists>out s'. start_survey kd rt pbit T target_fn now region s = Some (out, s') \<and> survey_wf kd T s' \<and> sv_seeded s' \<and>
    surveyed_region out s' = region \<and> (\<forall>d. out \<noteq> StateSurveyIdle d) \<and>
    (\<not> is_survey_finished out \<longrightarrow> sv_schedule s' = sv_schedule s \<and> sv_table s' = sv_table s)"
proof -
  obtain r g where fn: "target_fn region (sv_gen s) = (r, g)" by fastforce
  have wf1: "survey_wf kd T (s\<lparr>sv_gen := g\<rparr>)" using wf idle by (simp add: survey_wf_def)
  show ?thesis
  proof (cases r)
    case (Inl err)
    with fn wf1 seeded show ?thesis by (simp add: start_survey_def)
  next
    case (Inr k)
    let ?new = "new_coverage_query kd (closest_iter kd T) (sv_self s) SurveyActivityID k (int (length region))
      (new_closest_nodes_iter T k) (rt_nearest_nodes rt (sv_rt s) k (svc_walk_in_bound (sv_cfg s)))
      (Some (survey_query_config (sv_cfg s))) :: ('k, 'n, 'tr) find_query go_result"
    show ?thesis
    proof (cases ?new)
      case (Inl err)
      with fn Inr wf1 seeded show ?thesis by (simp add: start_survey_def)
    next
      case new: (Inr q)
      note own = owned_new_coverage [OF new]
      define s1 where "s1 = s\<lparr>sv_gen := g, sv_qry := Some q, sv_prefix := region, sv_target := Some k\<rparr>"
      have "carries kd k region" using target fn Inr unfolding target_fn_ok_def by blast
      moreover have "q_target q = k" using own(1) by (simp add: owned_query_def)
      ultimately have "surveys kd T region q" using own by (simp add: surveys_def)
      with wf seeded region \<open>q_target q = k\<close> have "survey_wf kd T s1" by (simp add: survey_wf_def s1_def)
      from survey_advance_query_ok [OF metric trie bits now this, of q EventQueryPoll] fn Inr new
      show ?thesis by (simp add: start_survey_def s1_def)
    qed
  qed
qed

section \<open>Polling an idle survey\<close>

text \<open>The region due first, and first by prefix of those due together.\<close>

definition least_due :: "(string \<Rightarrow> time option) \<Rightarrow> string \<Rightarrow> time \<Rightarrow> bool" where
  "least_due due p d \<longleftrightarrow> due p = Some d \<and> (\<forall>r e. due r = Some e \<longrightarrow> d < e \<or> d = e \<and> p \<le> r)"

lemma peek_least_due:
  assumes "schedule_wf s" "schedule_peek s = Some e"
  shows "least_due (due_of s) (se_prefix e) (se_due e)"
  unfolding least_due_def
proof (intro conjI allI impI)
  show "due_of s (se_prefix e) = Some (se_due e)" by (rule schedule_peek_Some(1) [OF assms])
  show "se_due e < d \<or> se_due e = d \<and> se_prefix e \<le> r" if "due_of s r = Some d" for r d
    using schedule_peek_Some(2) [OF assms that] by (auto simp: due_before_def time_before_def split: if_splits)
qed

lemma survey_poll_ok:
  fixes s :: "('k, 'n, 'tr, 'rt, 'g) survey_machine"
  assumes metric: "kad_metric kd" and trie: "kad_node_trie kd T ok" and bits: "bitstr_bits pbit" and now: "0 < now"
    and target: "target_fn_ok kd target_fn" and wf: "survey_wf kd T s" and idle: "sv_qry s = None"
  defines "due \<equiv> due_of (sv_schedule (seed_schedule now s))"
  shows "\<exists>out s' p d. survey_poll kd rt pbit T target_fn now s = Some (out, s') \<and> survey_wf kd T s' \<and> sv_seeded s' \<and>
    p \<in> table_prefixes (sv_table s) \<and> least_due due p d \<and>
    (if now < d then out = StateSurveyIdle d \<and> sv_qry s' = None \<and> due_of (sv_schedule s') = due \<and> sv_table s' = sv_table s
     else surveyed_region out s' = p \<and> (\<forall>d. out \<noteq> StateSurveyIdle d) \<and>
       (\<not> is_survey_finished out \<longrightarrow> sv_table s' = sv_table s \<and>
          due_of (sv_schedule s') = due(p \<mapsto> now + svc_interval (sv_cfg s))))"
proof -
  define s1 where "s1 = seed_schedule now s"
  have wf1: "survey_wf kd T s1" unfolding s1_def by (rule seed_schedule_wf [OF wf idle now])
  have same: "sv_seeded s1" "sv_qry s1 = None" "sv_table s1 = sv_table s" "sv_cfg s1 = sv_cfg s"
    using idle by (simp_all add: s1_def)
  from wf1 same have sched: "schedule_wf (sv_schedule s1)" and dom: "dom due = table_prefixes (sv_table s)"
    by (simp_all add: survey_wf_def due_def s1_def)
  have "table_prefixes (sv_table s) \<noteq> {}"
    by (simp add: leaf_prefixes_regions [symmetric] leaf_prefixes_def walk_nonempty)
  with dom have "due \<noteq> Map.empty" by auto
  with sched obtain e where peek: "schedule_peek (sv_schedule s1) = Some e"
    using schedule_peek_None by (auto simp: due_def s1_def)
  have least: "least_due due (se_prefix e) (se_due e)"
    using peek_least_due [OF sched peek] by (simp add: due_def s1_def)
  then have region: "se_prefix e \<in> table_prefixes (sv_table s)" using dom by (auto simp: least_due_def)
  show ?thesis
  proof (cases "now < se_due e")
    case True
    with peek have "survey_poll kd rt pbit T target_fn now s = Some (StateSurveyIdle (se_due e), s1)"
      by (simp add: survey_poll_def s1_def time_after_def)
    with True wf1 same region least show ?thesis
      by (intro exI [of _ "StateSurveyIdle (se_due e)"] exI [of _ s1] exI [of _ "se_prefix e"] exI [of _ "se_due e"])
        (simp add: due_def s1_def)
  next
    case False
    define s2 where "s2 = s1\<lparr>sv_schedule := reschedule_region (se_prefix e)
      (time_add now (svc_interval (sv_cfg s1))) (sv_schedule s1)\<rparr>"
    have poll: "survey_poll kd rt pbit T target_fn now s = start_survey kd rt pbit T target_fn now (se_prefix e) s2"
      using False peek by (simp add: survey_poll_def s1_def [symmetric] s2_def time_after_def)
    note add = schedule_add_ok [OF sched, of "se_prefix e" "now + svc_interval (sv_cfg s)"]
    have due2: "due_of (sv_schedule s2) = due(se_prefix e \<mapsto> now + svc_interval (sv_cfg s))"
      using add(2) by (simp add: s2_def reschedule_region_def time_add_def same due_def s1_def)
    have "1 \<le> svc_interval (sv_cfg s)"
      using wf by (simp add: survey_wf_def survey_config_validate_def split: if_splits)
    then have "survey_wf kd T s2"
      using wf1 add due2 same region dom now
      by (auto simp: survey_wf_def s2_def reschedule_region_def time_add_def due_def s1_def split: if_splits)
    moreover have "sv_qry s2 = None" "sv_seeded s2" "sv_table s2 = sv_table s"
      using same by (simp_all add: s2_def)
    ultimately show ?thesis
      using start_survey_ok [OF metric trie bits now target, of s2 "se_prefix e" rt] region least False due2
      by (fastforce simp: poll)
  qed
qed

lemma survey_advance_ok:
  fixes s :: "('k, 'n, 'tr, 'rt, 'g) survey_machine"
  assumes "kad_metric kd" "kad_node_trie kd T ok" "bitstr_bits pbit" "0 < now"
    and "target_fn_ok kd target_fn" "survey_wf kd T s"
  shows "\<exists>out s'. survey_advance kd rt pbit T target_fn now ev s = Some (out, s') \<and> survey_wf kd T s' \<and> sv_seeded s'"
proof (cases "sv_qry s")
  case None
  with survey_poll_ok [OF assms None, of rt] show ?thesis by (auto simp: survey_advance_def)
next
  case (Some q)
  have "survey_query_event ev \<noteq> EventQueryCancel" by (cases ev) simp_all
  with survey_advance_query_ok [OF assms(1-4,6) Some, of "survey_query_event ev"] Some show ?thesis
    by (auto simp: survey_advance_def)
qed

lemma survey_reached_wf:
  assumes "kad_metric kd" "kad_node_trie kd T ok" "bitstr_bits pbit" "target_fn_ok kd target_fn"
    "survey_reached kd rt pbit T target_fn s"
  shows "survey_wf kd T s"
  using assms(5)
proof (induction rule: survey_reached.induct)
  case (advanced s now ev out s')
  with survey_advance_ok [OF assms(1-3) advanced.hyps(2) assms(4) advanced.IH, of rt ev] show ?case by auto
qed (auto simp: new_survey_wf)

section \<open>The properties\<close>

text \<open>
  C24: The survey does not panic, and after every advance the regions it has scheduled are the regions of
  the table, whatever splits and merges its surveys have brought; a survey that is running is of one of
  them, and so is the one a poll may start next.
\<close>

theorem survey_schedule_covers_table:
  assumes "kad_metric kd" "kad_node_trie kd T ok" "bitstr_bits pbit" "target_fn_ok kd target_fn"
    "survey_reached kd rt pbit T target_fn s" "0 < now"
  shows "\<exists>out s'. survey_advance kd rt pbit T target_fn now ev s = Some (out, s') \<and>
    dom (due_of (sv_schedule s')) = table_prefixes (sv_table s') \<and>
    (sv_qry s' \<noteq> None \<longrightarrow> sv_prefix s' \<in> table_prefixes (sv_table s')) \<and>
    (\<forall>e. schedule_peek (sv_schedule s') = Some e \<longrightarrow> se_prefix e \<in> table_prefixes (sv_table s'))"
proof -
  from survey_advance_ok [OF assms(1-3,6,4) survey_reached_wf [OF assms(1-5)], of rt ev] obtain out s'
    where adv: "survey_advance kd rt pbit T target_fn now ev s = Some (out, s')" and wf: "survey_wf kd T s'"
      and seeded: "sv_seeded s'" by blast
  from wf seeded have dom: "dom (due_of (sv_schedule s')) = table_prefixes (sv_table s')"
    and sched: "schedule_wf (sv_schedule s')" by (simp_all add: survey_wf_def)
  moreover have "sv_prefix s' \<in> table_prefixes (sv_table s')" if "sv_qry s' \<noteq> None"
    using that survey_wf_query(4) [OF wf] by blast
  moreover have "se_prefix e \<in> table_prefixes (sv_table s')" if "schedule_peek (sv_schedule s') = Some e" for e
    using schedule_peek_Some(1) [OF sched that] dom by blast
  ultimately show ?thesis using adv by blast
qed

text \<open>
  With no survey running, an advance looks at the region due first, and first by prefix of those due
  together. If that is due the survey of that region starts, and unless it is over at once the region is
  next due an interval from now and the other regions are due when they were; if it is not, the survey is
  idle until it is, and nothing changes. The first advance gives every region its first due time, spread
  over one interval.
\<close>

theorem survey_starts_least_due:
  assumes "kad_metric kd" "kad_node_trie kd T ok" "bitstr_bits pbit" "target_fn_ok kd target_fn"
    "survey_reached kd rt pbit T target_fn s" "0 < now" "sv_qry s = None"
    "survey_advance kd rt pbit T target_fn now ev s = Some (out, s')"
  shows "\<exists>p d due. least_due due p d \<and> due =
      (if sv_seeded s then due_of (sv_schedule s)
       else map_of (first_dues now (svc_interval (sv_cfg s)) (table_regions (sv_table s)))) \<and>
    (if now < d
     then out = StateSurveyIdle d \<and> sv_qry s' = None \<and> due_of (sv_schedule s') = due
     else surveyed_region out s' = p \<and> (\<forall>d. out \<noteq> StateSurveyIdle d) \<and>
       (\<not> is_survey_finished out \<longrightarrow> due_of (sv_schedule s') = due(p \<mapsto> now + svc_interval (sv_cfg s))))"
proof -
  note wf = survey_reached_wf [OF assms(1-5)]
  have "due_of (sv_schedule (seed_schedule now s)) =
      (if sv_seeded s then due_of (sv_schedule s)
       else map_of (first_dues now (svc_interval (sv_cfg s)) (table_regions (sv_table s))))"
    using seed_schedule_dues [OF wf, of now] by (auto simp: seed_schedule_def)
  with survey_poll_ok [OF assms(1-3,6,4) wf assms(7), of rt] assms(7,8) show ?thesis
    by (fastforce simp: survey_advance_def)
qed

text \<open>
  C25: A survey that finishes reports nodes of the region it was surveying only, and its report is what the
  table observes. In the schedule the regions that went are gone, each region that came is due when the
  first of those it replaces was, and the other regions are due when they were.
\<close>

theorem survey_reports_members:
  assumes "kad_metric kd" "kad_bits kd" "kad_node_trie kd T ok" "bitstr_bits pbit" "target_fn_ok kd target_fn"
    "survey_reached kd rt pbit T target_fn s" "0 < now" "sv_qry s = Some q"
    "survey_advance kd rt pbit T target_fn now ev s = Some (StateSurveyFinished p ns stats, s')"
  shows "p = sv_prefix s \<and> (\<forall>n \<in> set ns. carries kd (node_key kd n) p) \<and>
    (\<exists>removed added. observe kd pbit p (member_keys kd ns) now (sv_table s) = ((removed, added), sv_table s') \<and>
       due_of (sv_schedule s') = dues_after removed added (due_of (sv_schedule s)))"
proof -
  note wf = survey_reached_wf [OF assms(1,3,4,5,6)]
  note running = survey_wf_query [OF wf assms(8)]
  have ev: "survey_query_event ev \<noteq> EventQueryCancel" by (cases ev) simp_all
  from assms(8,9) obtain s2 where step: "survey_advance_query kd pbit T now (survey_query_event ev) q s =
      Some (StateSurveyFinished p ns stats, s2)" and s': "s' = s2\<lparr>sv_running := sv_qry s2 \<noteq> None\<rparr>"
    by (auto simp: survey_advance_def)
  show ?thesis
  proof (cases rule: survey_query_step [OF assms(1,3,7) running(1) ev, where pbit = pbit,
        case_names request finished timeout waiting])
    case (finished stats' ns')
    from step finished(2) have eq: "p = sv_prefix s" "ns' = ns"
      "s2 = survey_observe kd pbit now (sv_prefix s) ns (clear_survey s)" by auto
    obtain removed added t where obs: "observe kd pbit p (member_keys kd ns) now (sv_table (clear_survey s)) =
        ((removed, added), t)" by (metis prod.exhaust)
    have region: "p \<in> table_prefixes (sv_table (clear_survey s))" using running(4) eq(1) by simp
    note after = survey_observe_ok [OF assms(4) survey_wf_clear [OF wf] _ _ region obs]
    have "carries kd (node_key kd n) p" if "n \<in> set ns" for n
    proof (rule kad_bits.carries_near [OF assms(2)])
      show "int (length p) \<le> key_cpl kd (node_key kd n) (q_target q)" using finished(1) that eq by simp
      show "carries kd (q_target q) p" using running(1) eq by (simp add: surveys_def)
    qed
    moreover have "sv_table s' = t" "due_of (sv_schedule s') = dues_after removed added (due_of (sv_schedule s))"
      using after(2,3) running(3) eq s' by simp_all
    ultimately show ?thesis using obs eq(1) by auto
  qed (use step in auto)
qed

end
