(* ===== verification/SurveyWitnesses.thy ===== *)
theory SurveyWitnesses
  imports SurveyTheorems IncludeTheorems PrefixTableWitnesses
begin

text \<open>
  The properties of the survey on the tiny network: a table of two halves, a routing table of one node,
  and the function that mints the least key of a region.
\<close>

definition tiny_target_fn :: "(tiny_key, unit) prefix_target_fn" where
  "tiny_target_fn p g =
     (let k = foldr (\<lambda>i k. if p ! i = CHR ''1'' then k OR push_bit (7 - i) 1 else k) [0..<length p] 0
      in if \<forall>i \<in> {..<length p}. key_bit tiny_kad k i = (p ! i = CHR ''1'') then Inr k
         else Inl (ErrorText ''no key with the prefix''), g)"

lemma tiny_target_ok: "target_fn_ok tiny_kad tiny_target_fn"
  by (auto simp: target_fn_ok_def tiny_target_fn_def carries_def Let_def split: if_splits)

type_synonym tiny_survey =
  "(tiny_key, tiny_node, (tiny_key \<times> tiny_node node_status) list, (tiny_key, tiny_node) list_table, unit) survey_machine"

definition tiny_survey_config :: survey_config where
  "tiny_survey_config = \<lparr>svc_tracer = True, svc_meter = True, svc_interval = 100, svc_region_timeout = 50,
     svc_request_concurrency = 1, svc_request_timeout = 10, svc_walk_in_bound = 3\<rparr>"

definition tiny_survey_new :: tiny_survey where
  "tiny_survey_new =
     projr (new_survey (new_node 0) (tiny_table\<lparr>lt_nodes := [new_node 4]\<rparr>) (Some tiny_regions) (Some ())
       (Some tiny_survey_config))"

abbreviation tiny_survey_advance ::
  "time \<Rightarrow> tiny_node survey_event \<Rightarrow> tiny_survey \<Rightarrow> ((tiny_key, tiny_node) survey_state \<times> tiny_survey) option" where
  "tiny_survey_advance \<equiv> survey_advance tiny_kad tiny_rt tiny_bits tiny_trie tiny_target_fn"

abbreviation tiny_survey_reached :: "tiny_survey \<Rightarrow> bool" where
  "tiny_survey_reached \<equiv> survey_reached tiny_kad tiny_rt tiny_bits tiny_trie tiny_target_fn"

definition tiny_survey_asking :: tiny_survey where
  "tiny_survey_asking = snd (the (tiny_survey_advance 5 EventSurveyPoll tiny_survey_new))"

definition tiny_survey_ended :: tiny_survey where
  "tiny_survey_ended =
     snd (the (tiny_survey_advance 7 (EventSurveyFindCloserResponse (new_node 4) []) tiny_survey_asking))"

lemma tiny_survey_new_reached: "tiny_survey_reached tiny_survey_new"
proof (rule survey_reached.created)
  show "new_survey (new_node 0) (tiny_table\<lparr>lt_nodes := [new_node 4]\<rparr>) (Some tiny_regions) (Some ())
      (Some tiny_survey_config) = Inr tiny_survey_new"
    by (simp add: tiny_survey_new_def new_survey_def survey_config_validate_def tiny_survey_config_def)
qed

text \<open>The first survey, from the poll that starts it to the reply that ends it.\<close>

definition tiny_survey_story ::
  "((tiny_key, tiny_node) survey_state \<times> string \<times> bool \<times> (tiny_key, tiny_node) survey_state \<times> int) option" where
  "tiny_survey_story =
     (case tiny_survey_advance 5 EventSurveyPoll tiny_survey_new of
        None \<Rightarrow> None
      | Some (out, s) \<Rightarrow>
          (case tiny_survey_advance 7 (EventSurveyFindCloserResponse (new_node 4) []) s of
             None \<Rightarrow> None
           | Some (out', s') \<Rightarrow>
               Some (out, sv_prefix s, sv_qry s \<noteq> None, out', rg_population (locate tiny_kad 4 (sv_table s')))))"

lemma tiny_survey_story:
  "tiny_survey_story = Some
     (StateSurveyFindCloser ''survey'' 0 (new_node 4)
        \<lparr>qs_start = 5, qs_end = 0, qs_requests = 1, qs_success = 0, qs_failure = 0\<rparr>, ''0'', True,
      StateSurveyFinished ''0'' [new_node 4]
        \<lparr>qs_start = 5, qs_end = 7, qs_requests = 1, qs_success = 1, qs_failure = 0\<rparr>, 1)"
  by code_simp

lemma tiny_survey_asks:
  "\<exists>s. tiny_survey_advance 5 EventSurveyPoll tiny_survey_new =
     Some (StateSurveyFindCloser ''survey'' 0 (new_node 4) s, tiny_survey_asking)"
  "sv_prefix tiny_survey_asking = ''0''" "sv_qry tiny_survey_asking \<noteq> None"
  using tiny_survey_story
  by (auto simp: tiny_survey_story_def tiny_survey_asking_def split: option.splits)

lemma tiny_survey_ends:
  "\<exists>s. tiny_survey_advance 7 (EventSurveyFindCloserResponse (new_node 4) []) tiny_survey_asking =
     Some (StateSurveyFinished ''0'' [new_node 4] s, tiny_survey_ended)"
  "rg_population (locate tiny_kad 4 (sv_table tiny_survey_ended)) = 1"
  using tiny_survey_story
  by (auto simp: tiny_survey_story_def tiny_survey_asking_def tiny_survey_ended_def split: option.splits)

lemma tiny_survey_asking_reached: "tiny_survey_reached tiny_survey_asking"
proof -
  obtain s where "tiny_survey_advance 5 EventSurveyPoll tiny_survey_new =
     Some (StateSurveyFindCloser ''survey'' 0 (new_node 4) s, tiny_survey_asking)" using tiny_survey_asks(1) by blast
  then show ?thesis by (rule survey_reached.advanced [OF tiny_survey_new_reached, rotated]) simp
qed

lemmas tiny_survey_setting = tiny.kad_metric_axioms tiny_trie_spec tiny_bits_ok tiny_target_ok

theorem survey_schedule_covers_table_witness:
  "\<exists>out s'. tiny_survey_advance 6 EventSurveyPoll tiny_survey_asking = Some (out, s') \<and>
     dom (due_of (sv_schedule s')) = table_prefixes (sv_table s')"
  using survey_schedule_covers_table [OF tiny_survey_setting tiny_survey_asking_reached, of 6 EventSurveyPoll] by auto

theorem survey_starts_least_due_witness:
  "\<exists>d. map_of (first_dues 5 100 (table_regions tiny_regions)) ''0'' = Some d \<and> sv_prefix tiny_survey_asking = ''0''"
proof -
  have idle: "sv_qry tiny_survey_new = None" "\<not> sv_seeded tiny_survey_new"
    "svc_interval (sv_cfg tiny_survey_new) = 100" "sv_table tiny_survey_new = tiny_regions"
    by (simp_all add: tiny_survey_new_def new_survey_def survey_config_validate_def tiny_survey_config_def)
  note region = tiny_survey_asks(2)
  obtain s where "tiny_survey_advance 5 EventSurveyPoll tiny_survey_new =
     Some (StateSurveyFindCloser ''survey'' 0 (new_node 4) s, tiny_survey_asking)" using tiny_survey_asks(1) by blast
  from survey_starts_least_due [OF tiny_survey_setting tiny_survey_new_reached _ idle(1) this]
  have "\<exists>d. least_due (map_of (first_dues 5 100 (table_regions tiny_regions))) ''0'' d"
    by (auto simp: idle region split: if_splits)
  then show ?thesis by (auto simp: least_due_def region)
qed

theorem survey_reports_members_witness:
  "carries tiny_kad 4 ''0'' \<and> (\<exists>q. sv_qry tiny_survey_asking = Some q) \<and>
   rg_population (locate tiny_kad 4 (sv_table tiny_survey_ended)) = 1"
proof -
  obtain q where q: "sv_qry tiny_survey_asking = Some q" using tiny_survey_asks(3) by auto
  obtain s where "tiny_survey_advance 7 (EventSurveyFindCloserResponse (new_node 4) []) tiny_survey_asking =
     Some (StateSurveyFinished ''0'' [new_node 4] s, tiny_survey_ended)" using tiny_survey_ends(1) by blast
  from survey_reports_members [OF tiny_survey_setting(1) tiny_bits.kad_bits_axioms tiny_survey_setting(2-4)
      tiny_survey_asking_reached _ q this]
  have "\<forall>n \<in> set [new_node 4]. carries tiny_kad (node_key tiny_kad n) ''0''"
    by (rule conjunct2 [THEN conjunct1]) simp
  moreover have "node_key tiny_kad (new_node 4) = 4" by (simp add: tiny_kad_def new_node_def)
  ultimately have "carries tiny_kad 4 ''0''" by simp
  with q tiny_survey_ends(2) show ?thesis by simp
qed

end
