(* ===== verification/NetSize.thy ===== *)
theory NetSize
  imports Complex_Main Coordt "HOL-Library.Word"
begin

text \<open>
  \<open>netsize/netsize.go\<close>: the estimator of the number of nodes in the network. A \<open>float64\<close> is a rational
  number and every arithmetic operation on floats is followed by the rounding \<open>rnd\<close>; overflow to an
  infinity is not modelled, and neither is the fused multiplication and addition the compiler may use on
  some processors. The square root of package \<open>math\<close> is the argument \<open>fsqrt\<close>, the sort of package
  \<open>slices\<close> the argument \<open>srt\<close>. The mutex makes each operation a single step on the observations.
\<close>

unbundle bit_operations_syntax

section \<open>Configuration\<close>

definition ErrNotEnoughData :: go_error where
  "ErrNotEnoughData = ErrorText ''not enough data''"

definition ErrEmptySample :: go_error where
  "ErrEmptySample = ErrorText ''empty sample''"

definition distance_bits :: nat where
  "distance_bits = 53"

record netsize_config =
  nc_max_measurement_age :: duration
  nc_min_observations :: int
  nc_min_ranks :: int
  nc_max_observations :: int

definition default_netsize_config :: netsize_config where
  "default_netsize_config =
     \<lparr>nc_max_measurement_age = 2 * hour, nc_min_observations = 2, nc_min_ranks = 2, nc_max_observations = 150\<rparr>"

definition netsize_config_validate :: "netsize_config \<Rightarrow> go_error option" where
  "netsize_config_validate cfg = first_error ''netsize.Config''
     [(nc_max_measurement_age cfg < 1, ''max measurement age must be greater than zero''),
      (nc_min_observations cfg < 2, ''min observations must be greater than one''),
      (nc_min_ranks cfg < 2, ''min ranks must be greater than one''),
      (nc_max_observations cfg < nc_min_observations cfg,
       ''max observations must not be less than min observations'')]"

record estimate =
  es_size :: int
  es_std_err :: rat
  es_fit :: rat
  es_samples :: int

record observation =
  ob_distance :: rat
  ob_at :: time

record estimator =
  et_cfg :: netsize_config
  et_obs :: "observation list list"

definition new_estimator :: "netsize_config option \<Rightarrow> estimator go_result" where
  "new_estimator cfg_opt =
     (case (case cfg_opt of None \<Rightarrow> None | Some cfg \<Rightarrow> netsize_config_validate cfg) of
        Some e \<Rightarrow> Inl e
      | None \<Rightarrow> Inr \<lparr>et_cfg = (case cfg_opt of None \<Rightarrow> default_netsize_config | Some cfg \<Rightarrow> cfg), et_obs = []\<rparr>)"

section \<open>Distances\<close>

text \<open>
  The leading bits of a distance in a \<open>uint64\<close>. At most 53 bits are read, so the conversion to a float
  and the division by a power of two are exact.
\<close>

definition leading_bits :: "('k, 'n) kad_ops \<Rightarrow> 'k \<Rightarrow> nat \<Rightarrow> 64 word" where
  "leading_bits kd d bits = fold (\<lambda>i leading. push_bit 1 leading OR of_bool (key_bit kd d i)) [0..<bits] 0"

definition keyspace_fraction :: "('k, 'n) kad_ops \<Rightarrow> 'k \<Rightarrow> nat \<Rightarrow> rat" where
  "keyspace_fraction kd distance bits =
     of_int (uint (leading_bits kd distance bits)) / of_int (uint (push_bit bits 1 :: 64 word))"

definition normed_distance :: "('k, 'n) kad_ops \<Rightarrow> 'k \<Rightarrow> 'k \<Rightarrow> rat" where
  "normed_distance kd a b = keyspace_fraction kd (key_xor kd a b) (min (key_bit_len kd) distance_bits)"

section \<open>Observations\<close>

definition add_observation :: "netsize_config \<Rightarrow> observation \<Rightarrow> observation list \<Rightarrow> observation list" where
  "add_observation cfg ob obs0 =
     (let obs = obs0 @ [ob]
      in if nc_max_observations cfg < int (length obs) then drop (nat (int (length obs) - nc_max_observations cfg)) obs
         else obs)"

definition track ::
  "('k, 'n) kad_ops \<Rightarrow> (('n \<Rightarrow> 'n \<Rightarrow> int) \<Rightarrow> 'n list \<Rightarrow> 'n list) \<Rightarrow> time \<Rightarrow> 'k \<Rightarrow> 'n list \<Rightarrow> estimator \<Rightarrow>
     go_error option \<times> estimator" where
  "track kd srt now target closest e =
     (if length closest = 0 then (Some ErrEmptySample, e)
      else (let sorted = srt (\<lambda>a b. key_compare kd (key_xor kd target (node_key kd a))
                                      (key_xor kd target (node_key kd b))) closest;
                grown = et_obs e @ replicate (length sorted - length (et_obs e)) []
            in (None, e\<lparr>et_obs := fold (\<lambda>(i, node) obs.
                  obs[i := add_observation (et_cfg e)
                    \<lparr>ob_distance = normed_distance kd target (node_key kd node), ob_at = now\<rparr> (obs ! i)])
                  (enumerate 0 sorted) grown\<rparr>)))"

text \<open>\<open>sort.Search\<close> of the standard library: the least index in a range for which a test is true.\<close>

function search_between :: "(nat \<Rightarrow> bool) \<Rightarrow> nat \<Rightarrow> nat \<Rightarrow> nat" where
  "search_between f i j =
     (if i < j
      then (let h = (i + j) div 2 in if \<not> f h then search_between f (h + 1) j else search_between f i h)
      else i)"
  by pat_completeness auto
termination
  by (relation "measure (\<lambda>(f, i, j). j - i)") auto

declare search_between.simps [simp del]

definition sort_search :: "nat \<Rightarrow> (nat \<Rightarrow> bool) \<Rightarrow> nat" where
  "sort_search n f = search_between f 0 n"

definition unexpired :: "observation list \<Rightarrow> time \<Rightarrow> observation list" where
  "unexpired obs cutoff = drop (sort_search (length obs) (\<lambda>j. time_after (ob_at (obs ! j)) cutoff)) obs"

section \<open>The estimate\<close>

definition mean_variance :: "(rat \<Rightarrow> rat) \<Rightarrow> observation list \<Rightarrow> rat \<times> rat" where
  "mean_variance rnd obs =
     (let sum = fold (\<lambda>ob s. rnd (s + ob_distance ob)) obs 0;
          mean = rnd (sum / rnd (of_nat (length obs)));
          sum_squares = fold (\<lambda>ob s. let diff = rnd (ob_distance ob - mean) in rnd (s + rnd (diff * diff))) obs 0
      in (mean, rnd (sum_squares / rnd (of_int (int (length obs) - 1)))))"

text \<open>The point a rank contributes to the fit, and the number of observations behind it.\<close>

record fit_point =
  fp_rank :: rat
  fp_mean :: rat
  fp_weight :: rat

definition rank_point ::
  "(rat \<Rightarrow> rat) \<Rightarrow> netsize_config \<Rightarrow> time \<Rightarrow> nat \<Rightarrow> observation list \<Rightarrow> (fit_point \<times> nat) option" where
  "rank_point rnd cfg cutoff i obs0 =
     (let obs = unexpired obs0 cutoff
      in if int (length obs) < nc_min_observations cfg then None
         else (case mean_variance rnd obs of
           (mean, variance) \<Rightarrow>
             (if variance \<le> 0 then None
              else Some (\<lparr>fp_rank = rnd (of_nat (i + 1)), fp_mean = mean,
                fp_weight = rnd (rnd (of_nat (length obs)) / variance)\<rparr>, length obs))))"

definition fit_points ::
  "(rat \<Rightarrow> rat) \<Rightarrow> netsize_config \<Rightarrow> time \<Rightarrow> observation list list \<Rightarrow> (fit_point \<times> nat) list" where
  "fit_points rnd cfg cutoff obs = List.map_filter (\<lambda>(i, os). rank_point rnd cfg cutoff i os) (enumerate 0 obs)"

text \<open>\<open>math.Round\<close>: to the nearest integer, halves away from zero.\<close>

definition math_round :: "rat \<Rightarrow> int" where
  "math_round x = (if x < 0 then - \<lfloor>1 / 2 - x\<rfloor> else \<lfloor>x + 1 / 2\<rfloor>)"

definition make_estimate :: "(rat \<Rightarrow> rat) \<Rightarrow> (rat \<Rightarrow> rat) \<Rightarrow> time \<Rightarrow> estimator \<Rightarrow> estimate go_result" where
  "make_estimate rnd fsqrt now e =
     (let cutoff = time_add now (- nc_max_measurement_age (et_cfg e));
          ps = fit_points rnd (et_cfg e) cutoff (et_obs e);
          points = map fst ps;
          sumwxx = fold (\<lambda>p s. rnd (s + rnd (rnd (fp_weight p * fp_rank p) * fp_rank p))) points 0;
          sumwxy = fold (\<lambda>p s. rnd (s + rnd (rnd (fp_weight p * fp_rank p) * fp_mean p))) points 0;
          samples = sum_list (map snd ps)
      in if int (length points) < nc_min_ranks (et_cfg e) then Inl ErrNotEnoughData
         else (let slope = rnd (sumwxy / sumwxx)
               in if slope \<le> 0 \<or> 1 \<le> slope then Inl ErrNotEnoughData
                  else (let chi_square = fold (\<lambda>p s.
                              let residual = rnd (fp_mean p - rnd (slope * fp_rank p))
                              in rnd (s + rnd (rnd (fp_weight p * residual) * residual))) points 0;
                            slope_err = rnd (1 / fsqrt sumwxx)
                        in Inr \<lparr>es_size = math_round (rnd (rnd (1 / slope) - 1)),
                             es_std_err = rnd (slope_err / rnd (slope * slope)),
                             es_fit = rnd (chi_square / rnd (of_int (int (length points) - 1))),
                             es_samples = int samples\<rparr>)))"

end
