(* ===== verification/NetSizeTheorems.thy ===== *)
theory NetSizeTheorems
  imports NetSize RegionPublishTheorems
begin

text \<open>
  Distances are fractions of the keyspace. The estimator keeps the latest observations of each rank, an
  estimate draws on exactly those that are recent enough, and where the mean distances are those of a
  network of some size, exact arithmetic gives that size.
\<close>

section \<open>Distances\<close>

lemma leading_bits_Suc:
  "leading_bits kd d (Suc n) = push_bit 1 (leading_bits kd d n) OR of_bool (key_bit kd d n)"
  by (simp add: leading_bits_def)

lemma leading_bits_step:
  assumes "n < 64" "unat (leading_bits kd d n) < 2 ^ n"
  shows "unat (leading_bits kd d (Suc n)) = 2 * unat (leading_bits kd d n) + of_bool (key_bit kd d n)"
proof -
  let ?l = "leading_bits kd d n"
  have "2 * unat ?l + 1 < 2 ^ Suc n" using assms(2) by simp
  also have "(2 :: nat) ^ Suc n \<le> 2 ^ 64" using assms(1) by (intro power_increasing) auto
  finally have fits: "2 * unat ?l + 1 < 2 ^ 64" .
  have even: "push_bit 1 ?l OR of_bool b = 2 * ?l + of_bool b" for b
    by (cases b) (simp_all add: push_bit_Suc_numeral one_or_eq or_one_eq push_bit_eq_mult)
  have "unat (2 * ?l + of_bool b) = 2 * unat ?l + of_bool b" for b
    using fits by (cases b) (simp_all add: unat_word_ariths)
  then show ?thesis by (simp only: leading_bits_Suc even)
qed

lemma leading_bits_bound: "n \<le> 64 \<Longrightarrow> unat (leading_bits kd d n) < 2 ^ n"
proof (induction n)
  case 0
  then show ?case by (simp add: leading_bits_def)
next
  case (Suc n)
  then show ?case using leading_bits_step [of n kd d] by (cases "key_bit kd d n") simp_all
qed

text \<open>The bits of the distance after a binary point.\<close>

definition binary_fraction :: "(nat \<Rightarrow> bool) \<Rightarrow> nat \<Rightarrow> rat" where
  "binary_fraction b n = (\<Sum>i<n. of_bool (b i) / 2 ^ (i + 1))"

lemma leading_bits_fraction:
  "n \<le> 64 \<Longrightarrow> of_nat (unat (leading_bits kd d n)) / 2 ^ n = binary_fraction (key_bit kd d) n"
proof (induction n)
  case 0
  then show ?case by (simp add: leading_bits_def binary_fraction_def)
next
  case (Suc n)
  then have n: "n < 64" and IH: "of_nat (unat (leading_bits kd d n)) / 2 ^ n = binary_fraction (key_bit kd d) n"
    by auto
  have "of_nat (unat (leading_bits kd d (Suc n))) / (2 :: rat) ^ Suc n =
      of_nat (unat (leading_bits kd d n)) / 2 ^ n + of_bool (key_bit kd d n) / 2 ^ (n + 1)"
    using leading_bits_step [OF n leading_bits_bound, of kd d] n by (simp add: field_simps)
  with IH show ?case by (simp add: binary_fraction_def)
qed

lemma unat_two_power:
  assumes "n < 64"
  shows "unat (2 ^ n :: 64 word) = 2 ^ n"
proof -
  have "(2 :: nat) ^ n < 2 ^ 64" using assms by (intro power_strict_increasing) auto
  then show ?thesis by (intro of_nat_inverse) simp_all
qed

lemma shifted_one: "n < 64 \<Longrightarrow> (unsigned (push_bit n 1 :: 64 word) :: rat) = 2 ^ n"
  using unat_two_power [of n] by (metis mult_1 of_nat_numeral of_nat_power of_nat_unat push_bit_eq_mult)

lemma normed_distance_eq:
  "normed_distance kd a b = binary_fraction (key_bit kd (key_xor kd a b)) (min (key_bit_len kd) 53)"
  using leading_bits_fraction [of "min (key_bit_len kd) 53" kd "key_xor kd a b"]
  by (simp add: normed_distance_def keyspace_fraction_def distance_bits_def shifted_one del: push_bit_of_1)

lemma normed_distance_bounds: "0 \<le> normed_distance kd a b" "normed_distance kd a b < 1"
proof -
  let ?n = "min (key_bit_len kd) 53"
  have n: "?n \<le> 64" "?n < 64" by auto
  have "(unsigned (leading_bits kd (key_xor kd a b) ?n) :: rat) < 2 ^ ?n"
    using leading_bits_bound [OF n(1)] by (metis of_nat_less_iff of_nat_numeral of_nat_power of_nat_unat)
  moreover have "0 \<le> (unsigned (leading_bits kd (key_xor kd a b) ?n) :: rat)" by (metis of_nat_0_le_iff of_nat_unat)
  ultimately show "0 \<le> normed_distance kd a b" "normed_distance kd a b < 1"
    by (simp_all add: normed_distance_def keyspace_fraction_def distance_bits_def shifted_one [OF n(2)] del: push_bit_of_1)
qed

section \<open>The search of the standard library\<close>

lemma search_between_least:
  assumes mono: "\<forall>m k. m \<le> k \<longrightarrow> k < n \<longrightarrow> f m \<longrightarrow> f k"
  shows "i \<le> j \<Longrightarrow> j \<le> n \<Longrightarrow> \<forall>k < i. \<not> f k \<Longrightarrow> \<forall>k < n. j \<le> k \<longrightarrow> f k \<Longrightarrow>
    search_between f i j \<le> n \<and> (\<forall>k < n. f k \<longleftrightarrow> search_between f i j \<le> k)"
proof (induction "j - i" arbitrary: i j rule: less_induct)
  case less
  show ?case
  proof (cases "i < j")
    case False
    then have "search_between f i j = i" "i = j" using less.prems(1) by (simp_all add: search_between.simps)
    then show ?thesis using less.prems(2,3,4) by (metis not_le)
  next
    case True
    define h where "h = (i + j) div 2"
    have h: "i \<le> h" "h < j" "h < n" using True less.prems(2) by (auto simp: h_def)
    show ?thesis
    proof (cases "f h")
      case fh: True
      then have "\<forall>k < n. h \<le> k \<longrightarrow> f k" using mono by blast
      then have "search_between f i h \<le> n \<and> (\<forall>k < n. f k \<longleftrightarrow> search_between f i h \<le> k)"
        using h less.prems(3) by (intro less.hyps) auto
      moreover have "search_between f i j = search_between f i h"
        using True fh by (subst search_between.simps) (simp add: h_def)
      ultimately show ?thesis by simp
    next
      case fh: False
      then have "\<forall>k < h + 1. \<not> f k" using mono h(3) by (metis Suc_eq_plus1 less_Suc_eq_le)
      then have "search_between f (h + 1) j \<le> n \<and> (\<forall>k < n. f k \<longleftrightarrow> search_between f (h + 1) j \<le> k)"
        using h less.prems(2,4) by (intro less.hyps) auto
      moreover have "search_between f i j = search_between f (h + 1) j"
        using True fh by (subst search_between.simps) (simp add: h_def)
      ultimately show ?thesis by simp
    qed
  qed
qed

text \<open>On observations in the order of their times the binary search is a filter.\<close>

lemma unexpired_filter:
  assumes "sorted (map ob_at obs)"
  shows "unexpired obs cutoff = filter (\<lambda>ob. cutoff < ob_at ob) obs"
proof -
  let ?f = "\<lambda>j. time_after (ob_at (obs ! j)) cutoff"
  define r where "r = sort_search (length obs) ?f"
  have mono: "?f k" if "m \<le> k" "k < length obs" "?f m" for m k
    using sorted_nth_mono [OF assms, of m k] that by (simp add: time_after_def)
  have r: "\<forall>k < length obs. cutoff < ob_at (obs ! k) \<longleftrightarrow> r \<le> k"
    using search_between_least [of "length obs" ?f 0 "length obs"] mono
    by (simp add: r_def sort_search_def time_after_def)
  have "filter (\<lambda>ob. cutoff < ob_at ob) (take r obs) = []" "filter (\<lambda>ob. cutoff < ob_at ob) (drop r obs) = drop r obs"
    using r by (auto simp: filter_empty_conv filter_id_conv in_set_conv_nth)
  then have "filter (\<lambda>ob. cutoff < ob_at ob) (take r obs @ drop r obs) = drop r obs" by (simp only: filter_append) simp
  then show ?thesis by (simp add: unexpired_def r_def)
qed

section \<open>Tracking\<close>

lemma fold_update_each:
  "n + length xs \<le> length ys \<Longrightarrow>
     length (fold (\<lambda>(i, x) ys. ys[i := g x (ys ! i)]) (enumerate n xs) ys) = length ys \<and>
     (\<forall>i < length ys. fold (\<lambda>(i, x) ys. ys[i := g x (ys ! i)]) (enumerate n xs) ys ! i =
        (if n \<le> i \<and> i < n + length xs then g (xs ! (i - n)) (ys ! i) else ys ! i))"
proof (induction xs arbitrary: n ys)
  case (Cons x xs)
  let ?ys = "ys[n := g x (ys ! n)]"
  from Cons.IH [of "Suc n" ?ys] Cons.prems have len: "length (fold (\<lambda>(i, x) ys. ys[i := g x (ys ! i)]) (enumerate (Suc n) xs) ?ys) = length ys"
    and nth: "\<forall>i < length ys. fold (\<lambda>(i, x) ys. ys[i := g x (ys ! i)]) (enumerate (Suc n) xs) ?ys ! i =
        (if Suc n \<le> i \<and> i < Suc n + length xs then g (xs ! (i - Suc n)) (?ys ! i) else ?ys ! i)" by auto
  have "fold (\<lambda>(i, x) ys. ys[i := g x (ys ! i)]) (enumerate (Suc n) xs) ?ys ! i =
      (if n \<le> i \<and> i < n + length (x # xs) then g ((x # xs) ! (i - n)) (ys ! i) else ys ! i)" if "i < length ys" for i
    using nth that Cons.prems by (cases "i = n") (auto simp: nth_Cons' not_less_eq_eq Suc_diff_le)
  with len show ?case by simp
qed auto

definition rank_ok :: "netsize_config \<Rightarrow> time \<Rightarrow> observation list \<Rightarrow> bool" where
  "rank_ok cfg last_time obs \<longleftrightarrow>
     int (length obs) \<le> nc_max_observations cfg \<and> sorted (map ob_at obs) \<and>
     (\<forall>ob \<in> set obs. 0 \<le> ob_distance ob \<and> ob_distance ob < 1 \<and> ob_at ob \<le> last_time)"

lemma add_observation_ok:
  assumes "rank_ok cfg t obs" "t \<le> now" "0 \<le> d" "d < 1" "0 \<le> nc_max_observations cfg"
  shows "rank_ok cfg now (add_observation cfg \<lparr>ob_distance = d, ob_at = now\<rparr> obs)"
proof -
  let ?all = "obs @ [\<lparr>ob_distance = d, ob_at = now\<rparr>]"
  have all: "sorted (map ob_at ?all)" "\<forall>ob \<in> set ?all. 0 \<le> ob_distance ob \<and> ob_distance ob < 1 \<and> ob_at ob \<le> now"
    using assms by (auto simp: rank_ok_def sorted_append)
  then have "sorted (map ob_at (drop n ?all))" for n
    by (metis drop_map sorted_wrt_drop)
  with all assms(5) show ?thesis
    by (auto simp: rank_ok_def add_observation_def Let_def dest: in_set_dropD)
qed

inductive estimator_run ::
  "('k, 'n) kad_ops \<Rightarrow> (('n \<Rightarrow> 'n \<Rightarrow> int) \<Rightarrow> 'n list \<Rightarrow> 'n list) \<Rightarrow> time \<Rightarrow> estimator \<Rightarrow> bool" for kd srt where
  created: "new_estimator cfg = Inr e \<Longrightarrow> estimator_run kd srt t e"
| tracked: "estimator_run kd srt t e \<Longrightarrow> t \<le> now \<Longrightarrow> track kd srt now target closest e = (err, e') \<Longrightarrow>
    estimator_run kd srt now e'"

lemma estimator_cfg:
  "estimator_run kd srt t e \<Longrightarrow> netsize_config_validate (et_cfg e) = None"
  by (induction rule: estimator_run.induct)
    (auto simp: new_estimator_def track_def Let_def default_netsize_config_def netsize_config_validate_def
      duration_defs split: option.splits if_splits)

lemma track_eq:
  assumes "track kd srt now target closest e = (err, e')" "closest \<noteq> []"
  defines "ranked \<equiv> srt (\<lambda>a b. key_compare kd (key_xor kd target (node_key kd a)) (key_xor kd target (node_key kd b))) closest"
  shows "err = None" "et_cfg e' = et_cfg e" "length (et_obs e') = max (length (et_obs e)) (length ranked)"
    "i < length (et_obs e') \<Longrightarrow> et_obs e' ! i =
      (let old = if i < length (et_obs e) then et_obs e ! i else []
       in if i < length ranked then add_observation (et_cfg e)
            \<lparr>ob_distance = normed_distance kd target (node_key kd (ranked ! i)), ob_at = now\<rparr> old
          else old)"
proof -
  let ?grown = "et_obs e @ replicate (length ranked - length (et_obs e)) []"
  let ?g = "\<lambda>node. add_observation (et_cfg e) \<lparr>ob_distance = normed_distance kd target (node_key kd node), ob_at = now\<rparr>"
  have e': "e' = e\<lparr>et_obs := fold (\<lambda>(i, x) ys. ys[i := ?g x (ys ! i)]) (enumerate 0 ranked) ?grown\<rparr>" "err = None"
    using assms by (auto simp: track_def Let_def ranked_def)
  have len: "length ?grown = max (length (et_obs e)) (length ranked)" by simp
  note each = fold_update_each [of 0 ranked ?grown ?g]
  show "err = None" "et_cfg e' = et_cfg e" using e' by simp_all
  show "length (et_obs e') = max (length (et_obs e)) (length ranked)" using each e' len by simp
  then show "et_obs e' ! i =
      (let old = if i < length (et_obs e) then et_obs e ! i else []
       in if i < length ranked then ?g (ranked ! i) old else old)" if "i < length (et_obs e')"
    using each e' len that by (auto simp: Let_def nth_append)
qed

lemma estimator_ranks:
  "estimator_run kd srt t e \<Longrightarrow> \<forall>i < length (et_obs e). rank_ok (et_cfg e) t (et_obs e ! i)"
proof (induction rule: estimator_run.induct)
  case (created cfg e t)
  then show ?case by (auto simp: new_estimator_def split: option.splits)
next
  case (tracked t e now target closest err e')
  have max: "0 \<le> nc_max_observations (et_cfg e)"
    using estimator_cfg [OF tracked.hyps(1)] by (simp add: netsize_config_validate_def split: if_splits)
  have later: "rank_ok (et_cfg e) now (et_obs e ! i)" if "i < length (et_obs e)" for i
    using tracked.IH tracked.hyps(2) that by (fastforce simp: rank_ok_def)
  have empty: "rank_ok (et_cfg e) u []" for u using max by (simp add: rank_ok_def)
  show ?case
  proof (cases "closest = []")
    case True
    with tracked.hyps(3) later show ?thesis by (auto simp: track_def)
  next
    case False
    note eq = track_eq [OF tracked.hyps(3) False]
    show ?thesis
      unfolding eq(2)
    proof (intro allI impI)
      fix i assume i: "i < length (et_obs e')"
      let ?old = "if i < length (et_obs e) then et_obs e ! i else []"
      have "rank_ok (et_cfg e) t ?old" using tracked.IH empty by simp
      from add_observation_ok [OF this tracked.hyps(2) normed_distance_bounds max]
      have added: "rank_ok (et_cfg e) now
        (add_observation (et_cfg e) \<lparr>ob_distance = normed_distance kd a b, ob_at = now\<rparr> ?old)" for a b .
      have "rank_ok (et_cfg e) now ?old" using later [of i] empty by simp
      with added show "rank_ok (et_cfg e) now (et_obs e' ! i)" unfolding eq(4) [OF i] Let_def by simp
    qed
  qed
qed

section \<open>Properties\<close>

text \<open>
  Bounds. Whatever lookups have been tracked, with times that do not run backwards, no rank holds more
  than \<open>MaxObservations\<close> observations, every distance is a fraction of the keyspace in the half-open unit
  interval, and the binary search of \<open>Estimate\<close> finds exactly the observations made after the cutoff.
\<close>
theorem netsize_keeps_recent:
  assumes "estimator_run kd srt t e" "obs \<in> set (et_obs e)"
  shows "int (length obs) \<le> nc_max_observations (et_cfg e) \<and>
    (\<forall>ob \<in> set obs. 0 \<le> ob_distance ob \<and> ob_distance ob < 1) \<and>
    (\<forall>cutoff. unexpired obs cutoff = filter (\<lambda>ob. cutoff < ob_at ob) obs)"
proof -
  from assms(2) obtain i where "i < length (et_obs e)" "obs = et_obs e ! i" by (auto simp: in_set_conv_nth)
  with estimator_ranks [OF assms(1)] have "rank_ok (et_cfg e) t obs" by blast
  then show ?thesis by (auto simp: rank_ok_def unexpired_filter)
qed

lemma fold_sum: "fold (\<lambda>p s. s + g p) ps (a :: rat) = a + (\<Sum>p \<leftarrow> ps. g p)"
  by (induction ps arbitrary: a) simp_all

lemma sum_list_zero: "\<forall>p \<in> set ps. g p = (0 :: rat) \<Longrightarrow> (\<Sum>p \<leftarrow> ps. g p) = 0"
  by (induction ps) simp_all

lemma sum_list_divided: "(\<Sum>p \<leftarrow> ps. g p / c) = (\<Sum>p \<leftarrow> ps. g p) / (c :: rat)"
  by (induction ps) (simp_all add: add_divide_distrib)

lemma sum_list_positive: "xs \<noteq> [] \<Longrightarrow> \<forall>x \<in> set xs. 0 < (x :: rat) \<Longrightarrow> 0 < sum_list xs"
proof (induction xs)
  case (Cons x xs)
  then show ?case by (cases xs) (auto intro!: add_pos_pos)
qed simp

lemma fit_points_ok:
  assumes "p \<in> set (fit_points id cfg cutoff obs)" "2 \<le> nc_min_observations cfg"
  shows "1 \<le> fp_rank (fst p)" "0 < fp_weight (fst p)"
proof -
  from assms(1) obtain i obs0 where "rank_point id cfg cutoff i obs0 = Some p"
    by (auto simp: fit_points_def map_filter_def)
  with assms(2) show "1 \<le> fp_rank (fst p)" "0 < fp_weight (fst p)"
    by (auto simp: rank_point_def Let_def split: if_splits prod.splits intro!: divide_pos_pos)
qed

lemma math_round_of_int: "math_round (of_int n) = n"
proof -
  have "\<lfloor>1 / 2 - (of_int n :: rat)\<rfloor> = - n" "\<lfloor>(of_int n :: rat) + 1 / 2\<rfloor> = n" by (simp_all add: floor_eq_iff)
  then show ?thesis by (simp add: math_round_def)
qed


section \<open>Witnesses\<close>

definition tiny_estimator :: estimator where
  "tiny_estimator = \<lparr>et_cfg = default_netsize_config, et_obs = []\<rparr>"

definition tiny_tracked :: "go_error option \<times> estimator" where
  "tiny_tracked = track tiny_kad insertion_sort 5 0 (map new_node [64, 32]) tiny_estimator"

lemma tiny_tracked_obs:
  "et_obs (snd tiny_tracked) =
     [[\<lparr>ob_distance = 1 / 8, ob_at = 5\<rparr>], [\<lparr>ob_distance = 1 / 4, ob_at = 5\<rparr>]]"
  by code_simp

theorem netsize_keeps_recent_witness:
  "[\<lparr>ob_distance = 1 / 4, ob_at = 5\<rparr>] \<in> set (et_obs (snd tiny_tracked)) \<and>
   unexpired [\<lparr>ob_distance = 1 / 4, ob_at = 5\<rparr>] 5 = []"
proof -
  have "new_estimator None = Inr tiny_estimator" by (simp add: new_estimator_def tiny_estimator_def)
  then have "estimator_run tiny_kad insertion_sort 0 tiny_estimator" by (rule estimator_run.created)
  from estimator_run.tracked [OF this, of 5 0 "map new_node [64, 32]" "fst tiny_tracked" "snd tiny_tracked"]
  have run: "estimator_run tiny_kad insertion_sort 5 (snd tiny_tracked)" by (simp add: tiny_tracked_def)
  have obs: "[\<lparr>ob_distance = 1 / 4, ob_at = 5\<rparr>] \<in> set (et_obs (snd tiny_tracked))"
    by (simp add: tiny_tracked_obs)
  from netsize_keeps_recent [OF run obs] obs show ?thesis by simp
qed

definition tiny_measured :: estimator where
  "tiny_measured = \<lparr>et_cfg = default_netsize_config,
     et_obs = [[\<lparr>ob_distance = 1 / 8, ob_at = 5\<rparr>, \<lparr>ob_distance = 3 / 8, ob_at = 6\<rparr>],
               [\<lparr>ob_distance = 3 / 8, ob_at = 5\<rparr>, \<lparr>ob_distance = 5 / 8, ob_at = 6\<rparr>]]\<rparr>"

lemma tiny_fit_points:
  "fit_points id default_netsize_config (10 - 2 * hour) (et_obs tiny_measured) =
     [(\<lparr>fp_rank = 1, fp_mean = 1 / 4, fp_weight = 64\<rparr>, 2), (\<lparr>fp_rank = 2, fp_mean = 1 / 2, fp_weight = 64\<rparr>, 2)]"
  by code_simp


end
