(* ===== verification/Optimistic.thy ===== *)
theory Optimistic
  imports Publish QueryPool NetSize
begin

text \<open>
  \<open>publish/optimistic.go\<close>: the machine that stores a record while the walk towards its target is still
  running. A \<open>float64\<close> is a rational number with the rounding \<open>rnd\<close> after each operation, as for the
  size of the network. The inverse of the regularized incomplete gamma function, of package
  \<open>mathext\<close>, is the argument \<open>gamma_inv\<close>; where the code gets a NaN it gives \<open>None\<close>. The sort of
  package \<open>slices\<close> is the argument \<open>srt\<close>. The target of a machine that has not been started is the zero
  value of the key type, the argument \<open>zk\<close>.
\<close>

section \<open>Configuration\<close>

record optimistic_config =
  oc_tracer :: bool
  oc_replication_factor :: int
  oc_individual_certainty :: rat
  oc_set_strictness :: rat

definition optimistic_config_validate :: "optimistic_config \<Rightarrow> go_error option" where
  "optimistic_config_validate c = first_error ''OptimisticConfig''
     [(\<not> oc_tracer c, ''tracer must not be nil''),
      (oc_replication_factor c < 1, ''replication factor must be greater than zero''),
      (oc_individual_certainty c \<le> 0 \<or> 1 \<le> oc_individual_certainty c,
       ''individual certainty must be greater than zero and less than one''),
      (oc_set_strictness c \<le> 0 \<or> 1 \<le> oc_set_strictness c,
       ''set strictness must be greater than zero and less than one'')]"

definition optimistic_thresholds ::
  "(rat \<Rightarrow> rat) \<Rightarrow> (rat \<Rightarrow> rat \<Rightarrow> rat option) \<Rightarrow> optimistic_config \<Rightarrow> int \<Rightarrow> (rat \<times> rat) go_result" where
  "optimistic_thresholds rnd gamma_inv c network_size =
     (let k = rnd (of_int (oc_replication_factor c));
          n = rnd (of_int network_size);
          individual = map_option (\<lambda>x. rnd (x / n)) (gamma_inv k (rnd (1 - oc_individual_certainty c)));
          set_thr = map_option (\<lambda>x. rnd (x / n)) (gamma_inv (rnd (rnd (k / 2) + 1)) (rnd (1 - oc_set_strictness c)))
      in case (individual, set_thr) of
           (Some i, Some s) \<Rightarrow> Inr (i, s)
         | _ \<Rightarrow> Inl (ErrorText (''distance thresholds do not converge for replication factor '' @
                   decimal (nat (oc_replication_factor c)))))"

definition default_optimistic_config :: "(rat \<Rightarrow> rat) \<Rightarrow> optimistic_config" where
  "default_optimistic_config rnd =
     \<lparr>oc_tracer = True, oc_replication_factor = 20, oc_individual_certainty = rnd (9 / 10),
      oc_set_strictness = rnd (1 / 10)\<rparr>"

section \<open>The machine\<close>

record 'n found_node =
  fn_node :: 'n
  fn_distance :: rat

record ('k, 'n, 'm) optimistic = "'n stores" +
  op_id :: activity_id
  op_cfg :: optimistic_config
  op_msg :: 'm
  op_seeds :: "'n list"
  op_target :: 'k
  op_individual_threshold :: rat
  op_set_threshold :: rat
  op_found :: "'n found_node list"
  op_seen :: "string list"
  op_next_due :: time
  op_query_stats :: query_stats
  op_walking :: bool
  op_started :: bool
  op_stopped :: bool
  op_contacted :: "'n list"

definition new_optimistic ::
  "(rat \<Rightarrow> rat) \<Rightarrow> (rat \<Rightarrow> rat \<Rightarrow> rat option) \<Rightarrow> 'k \<Rightarrow> activity_id \<Rightarrow> 'm \<Rightarrow> 'n list \<Rightarrow> int \<Rightarrow>
     optimistic_config option \<Rightarrow> ('k, 'n, 'm) optimistic go_result" where
  "new_optimistic rnd gamma_inv zk qid msg seeds network_size cfg_opt =
     (case (case cfg_opt of None \<Rightarrow> None | Some cfg \<Rightarrow> optimistic_config_validate cfg) of
        Some e \<Rightarrow> Inl e
      | None \<Rightarrow>
          (let cfg = (case cfg_opt of None \<Rightarrow> default_optimistic_config rnd | Some cfg \<Rightarrow> cfg)
           in if network_size < 1
              then Inl (config_error ''Optimistic'' ''network size must be greater than zero'')
              else (case optimistic_thresholds rnd gamma_inv cfg network_size of
                Inl e \<Rightarrow> Inl e
              | Inr (individual, set_thr) \<Rightarrow>
                  Inr \<lparr>sr_todo = [], sr_waiting = [], sr_failed = [], op_id = qid, op_cfg = cfg, op_msg = msg,
                    op_seeds = seeds, op_target = zk, op_individual_threshold = individual,
                    op_set_threshold = set_thr, op_found = [], op_seen = [], op_next_due = zero_time,
                    op_query_stats = zero_query_stats, op_walking = False, op_started = False,
                    op_stopped = False, op_contacted = []\<rparr>)))"

section \<open>Discovering nodes\<close>

definition found_compare :: "'n found_node \<Rightarrow> 'n found_node \<Rightarrow> int" where
  "found_compare a b =
     (if fn_distance a < fn_distance b then -1 else if fn_distance b < fn_distance a then 1 else 0)"

definition discover_node ::
  "('k, 'n) kad_ops \<Rightarrow> 'n \<Rightarrow> ('k, 'n, 'm) optimistic \<Rightarrow> ('k, 'n, 'm) optimistic" where
  "discover_node kd n f =
     (let key = node_str kd n
      in if key \<in> set (op_seen f) then f
         else (let distance = normed_distance kd (op_target f) (node_key kd n);
                   f1 = f\<lparr>op_seen := key # op_seen f,
                          op_found := op_found f @ [\<lparr>fn_node = n, fn_distance = distance\<rparr>]\<rparr>
               in if distance < op_individual_threshold f1 then f1\<lparr>sr_todo := AList.update key n (sr_todo f1)\<rparr>
                  else f1))"

definition discover ::
  "('k, 'n) kad_ops \<Rightarrow> (('n found_node \<Rightarrow> 'n found_node \<Rightarrow> int) \<Rightarrow> 'n found_node list \<Rightarrow> 'n found_node list) \<Rightarrow>
     'n list \<Rightarrow> ('k, 'n, 'm) optimistic \<Rightarrow> ('k, 'n, 'm) optimistic" where
  "discover kd srt ns f =
     (let f1 = fold (discover_node kd) ns f in f1\<lparr>op_found := srt found_compare (op_found f1)\<rparr>)"

text \<open>\<open>o.found[:o.cfg.ReplicationFactor]\<close>, or all of them where there are fewer.\<close>

definition closest_found :: "('k, 'n, 'm) optimistic \<Rightarrow> 'n found_node list" where
  "closest_found f = take (nat (oc_replication_factor (op_cfg f))) (op_found f)"

definition set_threshold_met :: "(rat \<Rightarrow> rat) \<Rightarrow> ('k, 'n, 'm) optimistic \<Rightarrow> bool" where
  "set_threshold_met rnd f \<longleftrightarrow>
     (if int (length (op_found f)) < oc_replication_factor (op_cfg f) then False
      else (let sum = fold (\<lambda>x s. rnd (s + fn_distance x)) (closest_found f) 0
            in rnd (sum / rnd (of_int (oc_replication_factor (op_cfg f)))) < op_set_threshold f))"

definition queue_closest ::
  "('k, 'n) kad_ops \<Rightarrow> 'n found_node \<Rightarrow> ('k, 'n, 'm) optimistic \<Rightarrow> ('k, 'n, 'm) optimistic" where
  "queue_closest kd x f =
     (let key = node_str kd (fn_node x)
      in if map_of (sr_waiting f) key \<noteq> None then f
         else if map_of (sr_failed f) key \<noteq> None then f
         else if \<exists>n \<in> set (op_contacted f). node_str kd n = key then f
         else f\<lparr>sr_todo := AList.update key (fn_node x) (sr_todo f)\<rparr>)"

definition end_walk :: "('k, 'n) kad_ops \<Rightarrow> ('k, 'n, 'm) optimistic \<Rightarrow> ('k, 'n, 'm) optimistic" where
  "end_walk kd f0 =
     (let f = f0\<lparr>op_walking := False\<rparr>
      in if op_stopped f then f else fold (queue_closest kd) (closest_found f) f)"

section \<open>Events\<close>

fun optimistic_event ::
  "('k, 'n) kad_ops \<Rightarrow> (('n found_node \<Rightarrow> 'n found_node \<Rightarrow> int) \<Rightarrow> 'n found_node list \<Rightarrow> 'n found_node list) \<Rightarrow>
     ('k, 'n, 'm) publish_event \<Rightarrow> ('k, 'n, 'm) optimistic \<Rightarrow>
     ('k, 'n, 'm) pool_event option \<times> ('k, 'n, 'm) optimistic" where
  "optimistic_event kd srt (EventPublishStart target) f =
     (let f1 = discover kd srt (op_seeds f) (f\<lparr>op_started := True, op_walking := True, op_target := target\<rparr>)
      in (Some (EventPoolAddFindCloserQuery (op_id f1) target (op_seeds f1) 0), f1))"
| "optimistic_event kd srt EventPublishStop f =
     (let f1 = f\<lparr>op_stopped := True\<rparr>
      in if \<not> op_walking f1 then (None, f1) else (Some (EventPoolStopQuery (op_id f1)), f1))"
| "optimistic_event kd srt (EventPublishNodeResponse n closer) f =
     (let f1 = discover kd srt closer f in (Some (EventPoolNodeResponse (op_id f1) n closer), f1))"
| "optimistic_event kd srt (EventPublishNodeFailure n err) f = (Some (EventPoolNodeFailure (op_id f) n err), f)"
| "optimistic_event kd srt (EventPublishStoreRecordSuccess n req resp) f = (None, heard_from kd n f)"
| "optimistic_event kd srt (EventPublishStoreRecordFailure n req err) f = (None, fail_store kd n err (heard_from kd n f))"
| "optimistic_event kd srt EventPublishPoll f = (Some EventPoolPoll, f)"

text \<open>
  What \<open>advancePool\<close> makes of the state of the query pool; the code does not compare the id in the
  state with its own, and panics on a state that gives \<open>None\<close>.
\<close>

fun optimistic_pool_state ::
  "('k, 'n) kad_ops \<Rightarrow> (('n found_node \<Rightarrow> 'n found_node \<Rightarrow> int) \<Rightarrow> 'n found_node list \<Rightarrow> 'n found_node list) \<Rightarrow>
     ('k, 'n, 'm) pool_state \<Rightarrow> ('k, 'n, 'm) optimistic \<Rightarrow>
     (('k, 'n, 'm) publish_state option \<times> ('k, 'n, 'm) optimistic) option" where
  "optimistic_pool_state kd srt (StatePoolFindCloser i target n stats) f =
     Some (Some (StatePublishFindCloser i n target), f)"
| "optimistic_pool_state kd srt (StatePoolWaitingAtCapacity due) f = Some (None, f\<lparr>op_next_due := due\<rparr>)"
| "optimistic_pool_state kd srt (StatePoolWaitingWithCapacity due) f = Some (None, f\<lparr>op_next_due := due\<rparr>)"
| "optimistic_pool_state kd srt (StatePoolQueryFinished i stats target closest) f =
     Some (None, end_walk kd (discover kd srt closest (f\<lparr>op_query_stats := stats\<rparr>)))"
| "optimistic_pool_state kd srt (StatePoolQueryTimeout i stats) f =
     Some (None, end_walk kd (f\<lparr>op_query_stats := stats\<rparr>))"
| "optimistic_pool_state kd srt (StatePoolIdle due) f = Some (None, f)"
| "optimistic_pool_state kd srt (StatePoolSendMessage i n msg stats) f = None"

definition optimistic_pool ::
  "('k, 'n) kad_ops \<Rightarrow> ('k, 'n node_status, 'tr) trie_ops \<Rightarrow>
     (('n found_node \<Rightarrow> 'n found_node \<Rightarrow> int) \<Rightarrow> 'n found_node list \<Rightarrow> 'n found_node list) \<Rightarrow> time \<Rightarrow>
     ('k, 'n, 'm) pool_event option \<Rightarrow> ('k, 'n, 'm, 'tr) query_pool \<Rightarrow> ('k, 'n, 'm) optimistic \<Rightarrow>
     (('k, 'n, 'm) publish_state option \<times> ('k, 'n, 'm, 'tr) query_pool \<times> ('k, 'n, 'm) optimistic) option" where
  "optimistic_pool kd T srt now pev qp f =
     (case pev of
        None \<Rightarrow> Some (None, qp, f)
      | Some ev \<Rightarrow> (case pool_advance kd T now ev qp of
          (st, qp') \<Rightarrow> map_option (\<lambda>(out, f'). (out, qp', f')) (optimistic_pool_state kd srt st f)))"

section \<open>Advancing\<close>

text \<open>The event, and whether it ends the walk: then the query is stopped instead.\<close>

definition optimistic_judge ::
  "('k, 'n) kad_ops \<Rightarrow> (('n found_node \<Rightarrow> 'n found_node \<Rightarrow> int) \<Rightarrow> 'n found_node list \<Rightarrow> 'n found_node list) \<Rightarrow>
     (rat \<Rightarrow> rat) \<Rightarrow> ('k, 'n, 'm) publish_event \<Rightarrow> ('k, 'n, 'm) optimistic \<Rightarrow>
     ('k, 'n, 'm) pool_event option \<times> ('k, 'n, 'm) optimistic" where
  "optimistic_judge kd srt rnd ev f0 =
     (case optimistic_event kd srt ev (f0\<lparr>op_next_due := zero_time\<rparr>) of
        (pev, f) \<Rightarrow>
          (if op_walking f \<and> \<not> op_stopped f \<and> set_threshold_met rnd f
           then (Some (EventPoolStopQuery (op_id f)), end_walk kd f)
           else (pev, f)))"

text \<open>The loops of a stop delete by the key of the map.\<close>

definition cancel_rest ::
  "('k, 'n) kad_ops \<Rightarrow> (string list \<Rightarrow> string list) \<Rightarrow> ('k, 'n, 'm) optimistic \<Rightarrow> ('k, 'n, 'm) optimistic" where
  "cancel_rest kd ord f0 =
     (let f = fold (\<lambda>(k, n) f. fail_store kd n (ErrorText ''cancelled'') (f\<lparr>sr_todo := AList.delete k (sr_todo f)\<rparr>))
                (map_range ord (sr_todo f0)) f0
      in fold (\<lambda>(k, n) f. fail_store kd n (ErrorText ''cancelled'') (f\<lparr>sr_waiting := AList.delete k (sr_waiting f)\<rparr>))
           (map_range ord (sr_waiting f)) f)"

definition optimistic_finished :: "('k, 'n, 'm) optimistic \<Rightarrow> ('k, 'n, 'm) publish_state" where
  "optimistic_finished f = StatePublishFinished (op_id f) (op_contacted f) (sr_failed f) (op_query_stats f)"

definition optimistic_store ::
  "('k, 'n) kad_ops \<Rightarrow> (string list \<Rightarrow> string list) \<Rightarrow> ('k, 'n, 'm) optimistic \<Rightarrow>
     ('k, 'n, 'm) publish_state \<times> ('k, 'n, 'm) optimistic" where
  "optimistic_store kd ord f =
     (if op_stopped f then (let f' = cancel_rest kd ord f in (optimistic_finished f', f'))
      else (case next_store ord f of
        Some (n, f') \<Rightarrow> (StatePublishStoreRecord (op_id f) n (op_msg f), f'\<lparr>op_contacted := op_contacted f @ [n]\<rparr>)
      | None \<Rightarrow>
          (if sr_waiting f \<noteq> [] \<or> op_walking f then (StatePublishWaiting (op_next_due f) (op_id f), f)
           else if op_started f then (optimistic_finished f, f)
           else (StatePublishIdle, f))))"

definition optimistic_advance ::
  "('k, 'n) kad_ops \<Rightarrow> ('k, 'n node_status, 'tr) trie_ops \<Rightarrow>
     (('n found_node \<Rightarrow> 'n found_node \<Rightarrow> int) \<Rightarrow> 'n found_node list \<Rightarrow> 'n found_node list) \<Rightarrow> (rat \<Rightarrow> rat) \<Rightarrow>
     (string list \<Rightarrow> string list) \<Rightarrow> time \<Rightarrow> ('k, 'n, 'm) publish_event \<Rightarrow> ('k, 'n, 'm, 'tr) query_pool \<Rightarrow>
     ('k, 'n, 'm) optimistic \<Rightarrow>
     (('k, 'n, 'm) publish_state \<times> ('k, 'n, 'm, 'tr) query_pool \<times> ('k, 'n, 'm) optimistic) option" where
  "optimistic_advance kd T srt rnd ord now ev qp f0 =
     (case optimistic_judge kd srt rnd ev f0 of
        (pev, f1) \<Rightarrow>
          (case optimistic_pool kd T srt now pev qp f1 of
             None \<Rightarrow> None
           | Some (Some out, qp', f') \<Rightarrow> Some (out, qp', f')
           | Some (None, qp', f') \<Rightarrow> (case optimistic_store kd ord f' of (out, f2) \<Rightarrow> Some (out, qp', f2))))"

end
