(* ===== verification/PublishPool.thy ===== *)
theory PublishPool
  imports StaticPublish FollowUp Optimistic
begin

text \<open>
  \<open>publish/pool.go\<close>: the pool that runs every publish. A publish is one of three machines; the pool holds
  them in a map keyed by the id they were started with, an association list with distinct keys, and owns the
  query pool in which they run their lookups, which each of them is handed when it is advanced. Machines are
  compared by the address of the interface value they are stored in, so two are the same when they are
  stored under the same key. A panic of a machine, or of the pool, gives \<open>None\<close>.
\<close>

section \<open>The environment and the machines\<close>

text \<open>What the machines need of packages that are not part of the repository.\<close>

record ('k, 'n, 'tr) publish_env =
  pe_kad :: "('k, 'n) kad_ops"
  pe_trie :: "('k, 'n node_status, 'tr) trie_ops"
  pe_sort :: "('n found_node \<Rightarrow> 'n found_node \<Rightarrow> int) \<Rightarrow> 'n found_node list \<Rightarrow> 'n found_node list"
  pe_round :: "rat \<Rightarrow> rat"
  pe_gamma_inv :: "rat \<Rightarrow> rat \<Rightarrow> rat option"
  pe_zero_key :: 'k

datatype ('k, 'n, 'm) publish_machine =
    PublishFollowUp "('n, 'm) follow_up"
  | PublishStatic "('n, 'm) static"
  | PublishOptimistic "('k, 'n, 'm) optimistic"

fun machine_id :: "('k, 'n, 'm) publish_machine \<Rightarrow> activity_id" where
  "machine_id (PublishFollowUp f) = fo_id f"
| "machine_id (PublishStatic s) = sp_id s"
| "machine_id (PublishOptimistic f) = op_id f"

fun machine_advance ::
  "('k, 'n, 'tr) publish_env \<Rightarrow> (string list \<Rightarrow> string list) \<Rightarrow> time \<Rightarrow> ('k, 'n, 'm) publish_event \<Rightarrow>
     ('k, 'n, 'm, 'tr) query_pool \<Rightarrow> ('k, 'n, 'm) publish_machine \<Rightarrow>
     (('k, 'n, 'm) publish_state \<times> ('k, 'n, 'm, 'tr) query_pool \<times> ('k, 'n, 'm) publish_machine) option" where
  "machine_advance env ord now ev qp (PublishFollowUp f) =
     map_option (\<lambda>(st, qp', f'). (st, qp', PublishFollowUp f'))
       (follow_up_advance (pe_kad env) (pe_trie env) ord now ev qp f)"
| "machine_advance env ord now ev qp (PublishStatic s) =
     map_option (\<lambda>(st, s'). (st, qp, PublishStatic s')) (static_advance (pe_kad env) ord ev s)"
| "machine_advance env ord now ev qp (PublishOptimistic f) =
     map_option (\<lambda>(st, qp', f'). (st, qp', PublishOptimistic f'))
       (optimistic_advance (pe_kad env) (pe_trie env) (pe_sort env) (pe_round env) ord now ev qp f)"

section \<open>Configuration, states and events\<close>

record publish_pool_config =
  ppc_query :: "pool_config option"
  ppc_optimistic :: "optimistic_config option"
  ppc_tracer :: bool

definition publish_pool_config_validate :: "publish_pool_config \<Rightarrow> go_error option" where
  "publish_pool_config_validate cfg =
     (if ppc_query cfg = None then Some (ErrorText ''query pool config must not be nil'')
      else case ppc_optimistic cfg of
        None \<Rightarrow> Some (ErrorText ''optimistic config must not be nil'')
      | Some o_cfg \<Rightarrow>
          (case optimistic_config_validate o_cfg of
             Some e \<Rightarrow> Some (ErrorText (''optimistic config: '' @ error_string e))
           | None \<Rightarrow> if \<not> ppc_tracer cfg then Some (ErrorText ''tracer must not be nil'') else None))"

definition default_publish_pool_config :: "(rat \<Rightarrow> rat) \<Rightarrow> publish_pool_config" where
  "default_publish_pool_config rnd =
     \<lparr>ppc_query = Some default_pool_config, ppc_optimistic = Some (default_optimistic_config rnd), ppc_tracer = True\<rparr>"

datatype ('k, 'n, 'm) pub_pool_state =
    PoolFindCloser activity_id 'k 'n
  | PoolWaiting time
  | PoolStoreRecord activity_id 'n 'm
  | PoolPublishFinished activity_id "'n list" "'n failures" query_stats
  | PoolIdle

datatype ('k, 'n, 'm) pub_pool_event =
    PoolPoll
  | PoolStartFollowUp activity_id 'k 'm "'n list"
  | PoolStartStatic activity_id 'k 'm "'n list"
  | PoolStartOptimistic activity_id 'k 'm "'n list" int
  | PoolStopPublish activity_id
  | PoolGetCloserNodesSuccess activity_id 'n 'k "'n list"
  | PoolGetCloserNodesFailure activity_id 'n 'k go_error
  | PoolStoreRecordSuccess activity_id 'n "'m option" "'m option"
  | PoolStoreRecordFailure activity_id 'n "'m option" go_error

section \<open>The pool\<close>

record ('k, 'n, 'm, 'tr) publish_pool =
  pp_qp :: "('k, 'n, 'm, 'tr) query_pool"
  pp_bcs :: "(activity_id \<times> ('k, 'n, 'm) publish_machine) list"
  pp_cfg :: publish_pool_config
  pp_next_due :: time

definition new_publish_pool ::
  "(rat \<Rightarrow> rat) \<Rightarrow> 'n \<Rightarrow> publish_pool_config option \<Rightarrow> ('k, 'n, 'm, 'tr) publish_pool go_result" where
  "new_publish_pool rnd self cfg_opt =
     (case (case cfg_opt of None \<Rightarrow> None | Some cfg \<Rightarrow> publish_pool_config_validate cfg) of
        Some e \<Rightarrow> Inl (ErrorText (''validate pool config: '' @ error_string e))
      | None \<Rightarrow>
          (let cfg = (case cfg_opt of None \<Rightarrow> default_publish_pool_config rnd | Some cfg \<Rightarrow> cfg)
           in case new_pool self (map_option (\<lambda>c. c\<lparr>pc_tracer := ppc_tracer cfg\<rparr>) (ppc_query cfg)) of
                Inl e \<Rightarrow> Inl (ErrorText (''new query pool: '' @ error_string e))
              | Inr qp \<Rightarrow> Inr \<lparr>pp_qp = qp, pp_bcs = [], pp_cfg = cfg, pp_next_due = zero_time\<rparr>))"

definition record_due :: "time \<Rightarrow> ('k, 'n, 'm, 'tr) publish_pool \<Rightarrow> ('k, 'n, 'm, 'tr) publish_pool" where
  "record_due due p =
     (if is_zero due then p
      else if is_zero (pp_next_due p) \<or> time_before due (pp_next_due p) then p\<lparr>pp_next_due := due\<rparr>
      else p)"

text \<open>
  \<open>handleEvent\<close>: the key of the publish the event is addressed to and the event to deliver to it. A
  configuration that a constructor refuses leaves the pool as it is.
\<close>

definition start_publish ::
  "activity_id \<Rightarrow> 'k \<Rightarrow> ('k, 'n, 'm) publish_machine go_result \<Rightarrow> ('k, 'n, 'm, 'tr) publish_pool \<Rightarrow>
     (activity_id \<times> ('k, 'n, 'm) publish_event) option \<times> ('k, 'n, 'm, 'tr) publish_pool" where
  "start_publish i target r p =
     (case r of
        Inl e \<Rightarrow> (None, p)
      | Inr sm \<Rightarrow> (Some (i, EventPublishStart target), p\<lparr>pp_bcs := AList.update i sm (pp_bcs p)\<rparr>))"

definition deliver_to ::
  "activity_id \<Rightarrow> ('k, 'n, 'm) publish_event \<Rightarrow> ('k, 'n, 'm, 'tr) publish_pool \<Rightarrow>
     (activity_id \<times> ('k, 'n, 'm) publish_event) option \<times> ('k, 'n, 'm, 'tr) publish_pool" where
  "deliver_to i bev p = (if map_of (pp_bcs p) i = None then (None, p) else (Some (i, bev), p))"

fun publish_pool_event ::
  "('k, 'n, 'tr) publish_env \<Rightarrow> ('k, 'n, 'm) pub_pool_event \<Rightarrow> ('k, 'n, 'm, 'tr) publish_pool \<Rightarrow>
     (activity_id \<times> ('k, 'n, 'm) publish_event) option \<times> ('k, 'n, 'm, 'tr) publish_pool" where
  "publish_pool_event env (PoolStartFollowUp i target msg seed) p =
     start_publish i target
       (map_sum id PublishFollowUp
         (new_follow_up i msg seed (Some (default_follow_up_config\<lparr>fuc_tracer := ppc_tracer (pp_cfg p)\<rparr>)))) p"
| "publish_pool_event env (PoolStartStatic i target msg nodes) p =
     start_publish i target
       (map_sum id PublishStatic
         (new_static i msg nodes (Some (default_static_config\<lparr>stc_tracer := ppc_tracer (pp_cfg p)\<rparr>)))) p"
| "publish_pool_event env (PoolStartOptimistic i target msg seed network_size) p =
     start_publish i target
       (map_sum id PublishOptimistic
         (new_optimistic (pe_round env) (pe_gamma_inv env) (pe_zero_key env) i msg seed network_size
           (map_option (\<lambda>c. c\<lparr>oc_tracer := ppc_tracer (pp_cfg p)\<rparr>) (ppc_optimistic (pp_cfg p))))) p"
| "publish_pool_event env (PoolStopPublish i) p = deliver_to i EventPublishStop p"
| "publish_pool_event env (PoolGetCloserNodesSuccess i n target closer) p =
     deliver_to i (EventPublishNodeResponse n closer) p"
| "publish_pool_event env (PoolGetCloserNodesFailure i n target err) p =
     deliver_to i (EventPublishNodeFailure n err) p"
| "publish_pool_event env (PoolStoreRecordSuccess i n req resp) p =
     deliver_to i (EventPublishStoreRecordSuccess n req resp) p"
| "publish_pool_event env (PoolStoreRecordFailure i n req err) p =
     deliver_to i (EventPublishStoreRecordFailure n req err) p"
| "publish_pool_event env PoolPoll p = (None, p)"

text \<open>\<open>advancePublish\<close>: the state to return, if the publish has produced one.\<close>

fun publish_pool_state ::
  "('k, 'n, 'm) publish_state \<Rightarrow> ('k, 'n, 'm, 'tr) publish_pool \<Rightarrow>
     ('k, 'n, 'm) pub_pool_state option \<times> ('k, 'n, 'm, 'tr) publish_pool" where
  "publish_pool_state (StatePublishFindCloser i n target) p = (Some (PoolFindCloser i target n), p)"
| "publish_pool_state (StatePublishWaiting due i) p = (None, record_due due p)"
| "publish_pool_state (StatePublishStoreRecord i n msg) p = (Some (PoolStoreRecord i n msg), p)"
| "publish_pool_state (StatePublishFinished i contacted errs stats) p =
     (Some (PoolPublishFinished i contacted errs stats), p\<lparr>pp_bcs := AList.delete i (pp_bcs p)\<rparr>)"
| "publish_pool_state StatePublishIdle p = (None, p)"

definition advance_publish ::
  "('k, 'n, 'tr) publish_env \<Rightarrow> (string list \<Rightarrow> string list) \<Rightarrow> time \<Rightarrow> activity_id \<Rightarrow>
     ('k, 'n, 'm) publish_event \<Rightarrow> ('k, 'n, 'm, 'tr) publish_pool \<Rightarrow>
     (('k, 'n, 'm) pub_pool_state option \<times> ('k, 'n, 'm, 'tr) publish_pool) option" where
  "advance_publish env ord now i bev p =
     (case map_of (pp_bcs p) i of
        None \<Rightarrow> None
      | Some sm \<Rightarrow>
          (case machine_advance env ord now bev (pp_qp p) sm of
             None \<Rightarrow> None
           | Some (st, qp, sm') \<Rightarrow>
               Some (publish_pool_state st (p\<lparr>pp_qp := qp, pp_bcs := AList.update i sm' (pp_bcs p)\<rparr>))))"

text \<open>The loop over the publishes, which stops at the first that has produced something.\<close>

fun poll_publishes ::
  "('k, 'n, 'tr) publish_env \<Rightarrow> (string list \<Rightarrow> string list) \<Rightarrow> time \<Rightarrow> activity_id option \<Rightarrow> activity_id list \<Rightarrow>
     ('k, 'n, 'm, 'tr) publish_pool \<Rightarrow>
     (('k, 'n, 'm) pub_pool_state option \<times> ('k, 'n, 'm, 'tr) publish_pool) option" where
  "poll_publishes env ord now skip [] p = Some (None, p)"
| "poll_publishes env ord now skip (i # is) p =
     (if skip = Some i then poll_publishes env ord now skip is p
      else case advance_publish env ord now i EventPublishPoll p of
        None \<Rightarrow> None
      | Some (Some st, p') \<Rightarrow> Some (Some st, p')
      | Some (None, p') \<Rightarrow> poll_publishes env ord now skip is p')"

definition walk_publishes ::
  "('k, 'n, 'tr) publish_env \<Rightarrow> (string list \<Rightarrow> string list) \<Rightarrow> time \<Rightarrow> activity_id option \<Rightarrow>
     ('k, 'n, 'm, 'tr) publish_pool \<Rightarrow> (('k, 'n, 'm) pub_pool_state \<times> ('k, 'n, 'm, 'tr) publish_pool) option" where
  "walk_publishes env ord now skip p =
     (if pp_bcs p = [] then Some (PoolIdle, p)
      else case poll_publishes env ord now skip (ord (map fst (pp_bcs p))) p of
        None \<Rightarrow> None
      | Some (Some st, p') \<Rightarrow> Some (st, p')
      | Some (None, p') \<Rightarrow> Some (PoolWaiting (pp_next_due p'), p'))"

definition publish_pool_advance ::
  "('k, 'n, 'tr) publish_env \<Rightarrow> (string list \<Rightarrow> string list) \<Rightarrow> time \<Rightarrow> ('k, 'n, 'm) pub_pool_event \<Rightarrow>
     ('k, 'n, 'm, 'tr) publish_pool \<Rightarrow> (('k, 'n, 'm) pub_pool_state \<times> ('k, 'n, 'm, 'tr) publish_pool) option" where
  "publish_pool_advance env ord now ev p0 =
     (case publish_pool_event env ev (p0\<lparr>pp_next_due := zero_time\<rparr>) of
        (None, p) \<Rightarrow> walk_publishes env ord now None p
      | (Some (i, bev), p) \<Rightarrow>
          (case advance_publish env ord now i bev p of
             None \<Rightarrow> None
           | Some (Some st, p') \<Rightarrow> Some (st, p')
           | Some (None, p') \<Rightarrow> walk_publishes env ord now (Some i) p'))"

end
