(* ===== verification/OptimisticTheorems.thy ===== *)
theory OptimisticTheorems
  imports Optimistic PublishFacts NetSizeTheorems
begin

text \<open>
  The machine that stores during its walk asks every node at most once: while it walks only nodes inside the
  individual threshold, and after the walk the nearest nodes the walk has found.
\<close>

section \<open>The fields an operation leaves alone\<close>

definition same_publish :: "('k, 'n, 'm) optimistic \<Rightarrow> ('k, 'n, 'm) optimistic \<Rightarrow> bool" where
  "same_publish f f' \<longleftrightarrow>
     op_id f' = op_id f \<and> op_cfg f' = op_cfg f \<and> op_msg f' = op_msg f \<and> op_target f' = op_target f \<and>
     op_individual_threshold f' = op_individual_threshold f \<and> op_set_threshold f' = op_set_threshold f \<and>
     op_started f' = op_started f"

lemma same_publish_refl [simp]: "same_publish f f"
  by (simp add: same_publish_def)

lemma same_publish_trans: "same_publish f g \<Longrightarrow> same_publish g h \<Longrightarrow> same_publish f h"
  by (simp add: same_publish_def)

text \<open>What a discovery and the end of the walk leave alone: the stores that have been asked.\<close>

definition same_asked :: "('k, 'n, 'm) optimistic \<Rightarrow> ('k, 'n, 'm) optimistic \<Rightarrow> bool" where
  "same_asked f f' \<longleftrightarrow> same_publish f f' \<and> op_contacted f' = op_contacted f \<and> sr_waiting f' = sr_waiting f \<and>
     sr_failed f' = sr_failed f \<and> op_stopped f' = op_stopped f"

lemma same_asked_refl [simp]: "same_asked f f"
  by (simp add: same_asked_def)

lemma same_asked_trans: "same_asked f g \<Longrightarrow> same_asked g h \<Longrightarrow> same_asked f h"
  by (auto simp: same_asked_def intro: same_publish_trans)

lemma fold_same_asked: "\<forall>x f. same_asked f (step x f) \<Longrightarrow> same_asked f (fold step xs f)"
proof (induction xs arbitrary: f)
  case (Cons x xs)
  then show ?case using same_asked_trans [of f "step x f"] by simp
qed simp

lemma discover_node_same: "same_asked f (discover_node kd n f)" "op_walking (discover_node kd n f) = op_walking f"
  by (simp_all add: discover_node_def Let_def same_asked_def same_publish_def)

lemma discover_same: "same_asked f (discover kd srt ns f)"
proof -
  have "same_asked f (fold (discover_node kd) ns f)"
    by (intro fold_same_asked) (simp add: discover_node_same(1))
  then show ?thesis by (simp add: discover_def Let_def same_asked_def same_publish_def)
qed

lemma discover_walking [simp]: "op_walking (discover kd srt ns f) = op_walking f"
proof -
  have "op_walking (fold (discover_node kd) ns f) = op_walking f"
    by (induction ns arbitrary: f) (simp_all add: discover_node_same(2))
  then show ?thesis by (simp add: discover_def Let_def)
qed

lemma queue_closest_same: "same_asked f (queue_closest kd x f)" "op_found (queue_closest kd x f) = op_found f"
  "op_walking (queue_closest kd x f) = op_walking f"
  by (simp_all add: queue_closest_def Let_def same_asked_def same_publish_def)

lemma fold_queue_closest:
  "op_found (fold (queue_closest kd) xs f) = op_found f" "op_walking (fold (queue_closest kd) xs f) = op_walking f"
  by (induction xs arbitrary: f) (simp_all add: queue_closest_same)

lemma end_walk_same:
  "same_asked f (end_walk kd f)" "op_found (end_walk kd f) = op_found f" "\<not> op_walking (end_walk kd f)"
proof -
  have "same_asked f (f\<lparr>op_walking := False\<rparr>)" by (simp add: same_asked_def same_publish_def)
  moreover have "same_asked (f\<lparr>op_walking := False\<rparr>)
      (fold (queue_closest kd) (closest_found (f\<lparr>op_walking := False\<rparr>)) (f\<lparr>op_walking := False\<rparr>))"
    using queue_closest_same(1) by (intro fold_same_asked) blast
  ultimately show "same_asked f (end_walk kd f)"
    by (auto simp: end_walk_def Let_def intro: same_asked_trans)
qed (simp_all add: end_walk_def Let_def fold_queue_closest)

section \<open>The invariant of the nodes\<close>

text \<open>
  The nodes found are the nodes seen, each once, with its distance; the stores are among them. While the
  walk runs only nodes inside the individual threshold are asked.
\<close>

abbreviation target_distance :: "('k, 'n) kad_ops \<Rightarrow> ('k, 'n, 'm) optimistic \<Rightarrow> 'n \<Rightarrow> rat" where
  "target_distance kd f n \<equiv> normed_distance kd (op_target f) (node_key kd n)"

definition found_ok :: "('k, 'n) kad_ops \<Rightarrow> ('k, 'n, 'm) optimistic \<Rightarrow> bool" where
  "found_ok kd f \<longleftrightarrow>
     stores_ok kd (map fn_node (op_found f)) (op_contacted f) f \<and>
     set (op_seen f) = names kd (map fn_node (op_found f)) \<and>
     distinct (map (node_str kd \<circ> fn_node) (op_found f)) \<and>
     (\<forall>x \<in> set (op_found f). fn_distance x = target_distance kd f (fn_node x)) \<and>
     (op_walking f \<longrightarrow> (\<forall>n \<in> snd ` set (sr_todo f) \<union> set (op_contacted f).
       target_distance kd f n < op_individual_threshold f))"

lemma stores_ok_mono: "stores_ok kd ns asked s \<Longrightarrow> set ns \<subseteq> set ns' \<Longrightarrow> stores_ok kd ns' asked s"
  by (fastforce simp: stores_ok_def)

lemma stores_ok_todo:
  assumes "stores_ok kd ns asked s" "n \<in> set ns" "node_str kd n \<notin> names kd asked"
  shows "stores_ok kd ns asked (s\<lparr>sr_todo := AList.update (node_str kd n) n (sr_todo s)\<rparr>)"
  using assms update_subset [of "node_str kd n" n "sr_todo s"]
  by (auto simp: stores_ok_def distinct_update update_keys_set)

lemma stores_ok_cong:
  "sr_todo s' = sr_todo s \<Longrightarrow> sr_waiting s' = sr_waiting s \<Longrightarrow> stores_ok kd ns asked s' = stores_ok kd ns asked s"
  by (simp add: stores_ok_def)

lemma update_values: "\<forall>x \<in> snd ` set m. P x \<Longrightarrow> P v \<Longrightarrow> \<forall>x \<in> snd ` set (AList.update k v m). P x"
  using update_subset [of k v m] by fastforce

lemma discover_node_ok:
  assumes "found_ok kd f"
  shows "found_ok kd (discover_node kd n f)"
proof (cases "node_str kd n \<in> set (op_seen f)")
  case True
  then show ?thesis using assms by (simp add: discover_node_def Let_def)
next
  case False
  let ?x = "\<lparr>fn_node = n, fn_distance = target_distance kd f n\<rparr>"
  let ?f = "f\<lparr>op_seen := node_str kd n # op_seen f, op_found := op_found f @ [?x]\<rparr>"
  let ?nodes = "map fn_node (op_found f @ [?x])"
  have "stores_ok kd (map fn_node (op_found f)) (op_contacted f) f" using assms by (simp add: found_ok_def)
  then have "stores_ok kd ?nodes (op_contacted f) f" by (rule stores_ok_mono) auto
  then have ok: "stores_ok kd ?nodes (op_contacted f) ?f" by (simp add: stores_ok_def)
  have new: "node_str kd n \<notin> names kd (map fn_node (op_found f))" using False assms by (simp add: found_ok_def)
  then have unasked: "node_str kd n \<notin> names kd (op_contacted f)"
    using assms by (auto simp: found_ok_def stores_ok_def names_def)
  have plain: "found_ok kd ?f"
    using assms new ok by (auto simp: found_ok_def names_def)
  have "found_ok kd (?f\<lparr>sr_todo := AList.update (node_str kd n) n (sr_todo ?f)\<rparr>)"
    if "target_distance kd f n < op_individual_threshold f"
  proof -
    have "stores_ok kd ?nodes (op_contacted f) (?f\<lparr>sr_todo := AList.update (node_str kd n) n (sr_todo ?f)\<rparr>)"
      using ok unasked by (intro stores_ok_todo) simp_all
    moreover have "\<forall>m \<in> snd ` set (AList.update (node_str kd n) n (sr_todo f)).
        target_distance kd f m < op_individual_threshold f" if "op_walking f"
      using plain that \<open>target_distance kd f n < op_individual_threshold f\<close>
      by (intro update_values) (simp_all add: found_ok_def)
    ultimately show ?thesis using plain unfolding found_ok_def by (simp add: ball_Un)
  qed
  with plain False show ?thesis by (auto simp: discover_node_def Let_def)
qed


lemma weak_found_compare: "weak_ordering found_compare"
  by (auto simp: weak_ordering_def found_compare_def)

lemma found_ok_cong:
  assumes "op_found f' = op_found f" "op_seen f' = op_seen f" "sr_todo f' = sr_todo f" "sr_waiting f' = sr_waiting f"
    "op_contacted f' = op_contacted f" "op_target f' = op_target f"
    "op_individual_threshold f' = op_individual_threshold f" "op_walking f' \<longrightarrow> op_walking f"
  shows "found_ok kd f \<Longrightarrow> found_ok kd f'"
  using assms by (simp add: found_ok_def stores_ok_cong [of f' f])

lemma found_ok_reorder:
  assumes "found_ok kd f" "mset found = mset (op_found f)"
  shows "found_ok kd (f\<lparr>op_found := found\<rparr>)"
proof -
  have set: "set found = set (op_found f)" using assms(2) by (metis set_mset_mset)
  have "mset (map (node_str kd \<circ> fn_node) found) = mset (map (node_str kd \<circ> fn_node) (op_found f))"
    using assms(2) by (simp add: mset_map)
  then have "distinct (map (node_str kd \<circ> fn_node) found) = distinct (map (node_str kd \<circ> fn_node) (op_found f))"
    by (metis distinct_count_atmost_1 set_mset_mset mset_eq_imp_distinct_iff)
  moreover have "stores_ok kd (map fn_node found) (op_contacted f) (f\<lparr>op_found := found\<rparr>) =
      stores_ok kd (map fn_node (op_found f)) (op_contacted f) f"
    by (simp add: stores_ok_def set)
  ultimately show ?thesis using assms(1) by (simp add: found_ok_def names_def set)
qed

text \<open>The nodes found are in the order of their distances.\<close>

definition found_sorted :: "('k, 'n, 'm) optimistic \<Rightarrow> bool" where
  "found_sorted f \<longleftrightarrow> sorted (map fn_distance (op_found f))"

lemma discover_ok:
  fixes f :: "('k, 'n, 'm) optimistic"
  assumes "slices_sort srt" "found_ok kd f"
  shows "found_ok kd (discover kd srt ns f)" "found_sorted (discover kd srt ns f)"
proof -
  have "found_ok kd (fold (discover_node kd) ns f)"
    using assms(2) by (induction ns arbitrary: f) (simp_all add: discover_node_ok)
  then show "found_ok kd (discover kd srt ns f)"
    unfolding discover_def Let_def by (rule found_ok_reorder) (rule slices_sort.sort_mset [OF assms(1)])
  have le: "(\<lambda>a b. found_compare a b \<le> 0) = (\<lambda>a b. fn_distance (a :: 'n found_node) \<le> fn_distance b)"
    by (intro ext) (auto simp: found_compare_def)
  show "found_sorted (discover kd srt ns f)"
    using slices_sort.sort_sorted [OF assms(1) weak_found_compare, unfolded le]
    by (simp add: found_sorted_def discover_def Let_def sorted_map)
qed

section \<open>The end of the walk\<close>

lemma queue_closest_ok:
  assumes "found_ok kd f" "\<not> op_walking f" "x \<in> set (op_found f)"
  shows "found_ok kd (queue_closest kd x f)"
    "node_str kd (fn_node x) \<in> fst ` set (sr_todo (queue_closest kd x f)) \<union> names kd (op_contacted f) \<union> fst ` set (sr_failed f)"
    "fst ` set (sr_todo f) \<subseteq> fst ` set (sr_todo (queue_closest kd x f))"
proof -
  let ?key = "node_str kd (fn_node x)" and ?f = "queue_closest kd x f"
  have ok: "stores_ok kd (map fn_node (op_found f)) (op_contacted f) f" using assms(1) by (simp add: found_ok_def)
  have waiting: "k \<in> names kd (op_contacted f)" if "map_of (sr_waiting f) k = Some v" for k v
    using ok map_of_SomeD [OF that] by (auto simp: stores_ok_def names_def)
  have failed: "k \<in> fst ` set (sr_failed f)" if "map_of (sr_failed f) k = Some v" for k v
    using map_of_SomeD [OF that] by force
  have asked: "(\<exists>n \<in> set (op_contacted f). node_str kd n = ?key) \<longleftrightarrow> ?key \<in> names kd (op_contacted f)"
    by (auto simp: names_def) (metis imageI)+
  have "found_ok kd ?f \<and>
      ?key \<in> fst ` set (sr_todo ?f) \<union> names kd (op_contacted f) \<union> fst ` set (sr_failed f) \<and>
      fst ` set (sr_todo f) \<subseteq> fst ` set (sr_todo ?f)"
  proof (cases "map_of (sr_waiting f) ?key \<noteq> None \<or> map_of (sr_failed f) ?key \<noteq> None \<or> ?key \<in> names kd (op_contacted f)")
    case True
    then have "?f = f" unfolding queue_closest_def Let_def asked by metis
    moreover have "?key \<in> names kd (op_contacted f) \<union> fst ` set (sr_failed f)" using True waiting failed by blast
    ultimately show ?thesis using assms(1) by simp
  next
    case False
    then have f: "?f = f\<lparr>sr_todo := AList.update ?key (fn_node x) (sr_todo f)\<rparr>"
      unfolding queue_closest_def Let_def asked by simp
    have "found_ok kd ?f"
      unfolding f using assms False stores_ok_todo [OF ok, of "fn_node x"] by (simp add: found_ok_def)
    then show ?thesis unfolding f by (simp add: update_keys_set subset_insertI)
  qed
  then show "found_ok kd ?f"
    "?key \<in> fst ` set (sr_todo ?f) \<union> names kd (op_contacted f) \<union> fst ` set (sr_failed f)"
    "fst ` set (sr_todo f) \<subseteq> fst ` set (sr_todo ?f)" by blast+
qed

text \<open>Every node of a list is asked, still to be asked, or has failed.\<close>

definition offered :: "('k, 'n) kad_ops \<Rightarrow> 'n list \<Rightarrow> ('k, 'n, 'm) optimistic \<Rightarrow> bool" where
  "offered kd ns f \<longleftrightarrow>
     names kd ns \<subseteq> fst ` set (sr_todo f) \<union> names kd (op_contacted f) \<union> fst ` set (sr_failed f)"

lemma fold_queue_closest_ok:
  assumes "found_ok kd f" "\<not> op_walking f" "set xs \<subseteq> set (op_found f)"
  shows "found_ok kd (fold (queue_closest kd) xs f) \<and> offered kd (map fn_node xs) (fold (queue_closest kd) xs f) \<and>
    fst ` set (sr_todo f) \<subseteq> fst ` set (sr_todo (fold (queue_closest kd) xs f))"
  using assms
proof (induction xs arbitrary: f)
  case (Cons x xs)
  let ?f = "queue_closest kd x f" and ?g = "fold (queue_closest kd) xs (queue_closest kd x f)"
  have x: "x \<in> set (op_found f)" using Cons.prems(3) by simp
  note step = queue_closest_ok [OF Cons.prems(1,2) x]
  have IH: "found_ok kd ?g" "offered kd (map fn_node xs) ?g" "fst ` set (sr_todo ?f) \<subseteq> fst ` set (sr_todo ?g)"
    using Cons.IH [OF step(1)] Cons.prems(2,3) by (simp_all add: queue_closest_same)
  have same: "same_asked f ?g"
    by (rule same_asked_trans [OF queue_closest_same(1) fold_same_asked]) (simp add: queue_closest_same(1))
  then have fields: "op_contacted ?g = op_contacted f" "sr_failed ?g = sr_failed f" by (simp_all add: same_asked_def)
  have "node_str kd (fn_node x) \<in> fst ` set (sr_todo ?g) \<union> names kd (op_contacted f) \<union> fst ` set (sr_failed f)"
    using step(2) IH(3) by blast
  moreover have "fst ` set (sr_todo f) \<subseteq> fst ` set (sr_todo ?g)" using step(3) IH(3) by (rule subset_trans)
  ultimately show ?case using IH(1,2) fields by (simp add: offered_def)
qed (simp add: offered_def)

lemma end_walk_ok:
  assumes "found_ok kd f"
  shows "found_ok kd (end_walk kd f)"
    "\<not> op_stopped f \<Longrightarrow> offered kd (map fn_node (closest_found (end_walk kd f))) (end_walk kd f)"
proof -
  let ?f = "f\<lparr>op_walking := False\<rparr>"
  have ok: "found_ok kd ?f" by (rule found_ok_cong [OF _ _ _ _ _ _ _ _ assms]) simp_all
  have "set (closest_found ?f) \<subseteq> set (op_found ?f)" by (auto simp: closest_found_def dest: in_set_takeD)
  note all = fold_queue_closest_ok [OF ok _ this]
  then show "found_ok kd (end_walk kd f)" using ok by (auto simp: end_walk_def Let_def)
  have "closest_found (end_walk kd f) = closest_found f"
    using end_walk_same [where f = f and kd = kd] by (simp add: closest_found_def same_asked_def same_publish_def)
  moreover have "closest_found ?f = closest_found f" by (simp add: closest_found_def)
  ultimately show "offered kd (map fn_node (closest_found (end_walk kd f))) (end_walk kd f)" if "\<not> op_stopped f"
    using all that by (simp add: end_walk_def Let_def)
qed


section \<open>The steps of an advance\<close>

text \<open>
  The invariant; the test that the walk is not carried on past the set threshold; and the promise at the end of
  the walk: the nearest nodes found have been offered the record.
\<close>

definition walk_ok :: "('k, 'n) kad_ops \<Rightarrow> ('k, 'n, 'm) optimistic \<Rightarrow> bool" where
  "walk_ok kd f \<longleftrightarrow> op_started f \<and> found_ok kd f \<and> found_sorted f"

definition below_threshold :: "(rat \<Rightarrow> rat) \<Rightarrow> ('k, 'n, 'm) optimistic \<Rightarrow> bool" where
  "below_threshold rnd f \<longleftrightarrow> (op_walking f \<and> \<not> op_stopped f \<longrightarrow> \<not> set_threshold_met rnd f)"

definition settled :: "('k, 'n) kad_ops \<Rightarrow> ('k, 'n, 'm) optimistic \<Rightarrow> bool" where
  "settled kd f \<longleftrightarrow> (\<not> op_walking f \<and> \<not> op_stopped f \<longrightarrow> offered kd (map fn_node (closest_found f)) f)"

text \<open>What every step keeps.\<close>

definition keeps :: "('k, 'n) kad_ops \<Rightarrow> ('k, 'n, 'm) optimistic \<Rightarrow> ('k, 'n, 'm) optimistic \<Rightarrow> bool" where
  "keeps kd f f' \<longleftrightarrow>
     same_publish f f' \<and> (op_walking f' \<longrightarrow> op_walking f) \<and> (op_stopped f \<longrightarrow> op_stopped f') \<and>
     (\<forall>ns. \<not> op_stopped f' \<and> offered kd ns f \<longrightarrow> offered kd ns f')"

lemma keeps_refl [simp]: "keeps kd f f"
  by (simp add: keeps_def)

lemma keeps_trans: "keeps kd f g \<Longrightarrow> keeps kd g h \<Longrightarrow> keeps kd f h"
  unfolding keeps_def by (metis same_publish_trans)

lemma offered_same:
  assumes "same_asked f f'" "fst ` set (sr_todo f) \<subseteq> fst ` set (sr_todo f')" "offered kd ns f"
  shows "offered kd ns f'"
proof -
  have same: "op_contacted f' = op_contacted f" "sr_failed f' = sr_failed f" using assms(1) by (simp_all add: same_asked_def)
  have "names kd ns \<subseteq> fst ` set (sr_todo f) \<union> names kd (op_contacted f) \<union> fst ` set (sr_failed f)"
    using assms(3) by (simp add: offered_def)
  also have "\<dots> \<subseteq> fst ` set (sr_todo f') \<union> names kd (op_contacted f) \<union> fst ` set (sr_failed f)"
    using assms(2) by (intro Un_mono subset_refl)
  finally show ?thesis by (simp add: offered_def same)
qed

lemma discover_node_todo: "fst ` set (sr_todo f) \<subseteq> fst ` set (sr_todo (discover_node kd n f))"
  by (auto simp: discover_node_def Let_def update_keys_set)

lemma discover_todo: "fst ` set (sr_todo f) \<subseteq> fst ` set (sr_todo (discover kd srt ns f))"
proof -
  have "fst ` set (sr_todo f) \<subseteq> fst ` set (sr_todo (fold (discover_node kd) ns f))"
  proof (induction ns arbitrary: f)
    case (Cons n ns)
    show ?case using subset_trans [OF discover_node_todo Cons.IH] by simp
  qed simp
  then show ?thesis by (simp add: discover_def Let_def)
qed

lemma discover_offered: "offered kd ended f \<Longrightarrow> offered kd ended (discover kd srt ns f)"
  by (rule offered_same [OF discover_same discover_todo])

lemma end_walk_todo:
  fixes f :: "('k, 'n, 'm) optimistic"
  shows "fst ` set (sr_todo f) \<subseteq> fst ` set (sr_todo (end_walk kd f))"
proof -
  have "fst ` set (sr_todo f) \<subseteq> fst ` set (sr_todo (fold (queue_closest kd) xs f))" for f :: "('k, 'n, 'm) optimistic" and xs
  proof (induction xs arbitrary: f)
    case (Cons x xs)
    have "fst ` set (sr_todo f) \<subseteq> fst ` set (sr_todo (queue_closest kd x f))"
      by (auto simp: queue_closest_def Let_def update_keys_set)
    from subset_trans [OF this Cons.IH] show ?case by simp
  qed simp
  note queued = this
  have "fst ` set (sr_todo f) \<subseteq> fst ` set (sr_todo (fold (queue_closest kd) xs (f\<lparr>op_walking := False\<rparr>)))" for xs
    using queued [of "f\<lparr>op_walking := False\<rparr>" xs] by simp
  then show ?thesis by (simp add: end_walk_def Let_def)
qed

lemma end_walk_offered: "offered kd ended f \<Longrightarrow> offered kd ended (end_walk kd f)"
  by (rule offered_same [OF end_walk_same(1) end_walk_todo])

lemma keeps_asked: "same_asked f f' \<Longrightarrow> fst ` set (sr_todo f) \<subseteq> fst ` set (sr_todo f') \<Longrightarrow>
    (op_walking f' \<longrightarrow> op_walking f) \<Longrightarrow> keeps kd f f'"
  using offered_same [of f f' kd] by (simp add: keeps_def same_asked_def)

lemma end_walk_step:
  assumes "walk_ok kd f"
  shows "walk_ok kd (end_walk kd f)" "below_threshold rnd (end_walk kd f)" "settled kd (end_walk kd f)"
    "keeps kd f (end_walk kd f)"
proof -
  have same: "same_asked f (end_walk kd f)" by (rule end_walk_same)
  then show "walk_ok kd (end_walk kd f)"
    using assms end_walk_ok(1) [of kd f] end_walk_same(2) [where f = f and kd = kd]
    by (simp add: walk_ok_def found_sorted_def same_asked_def same_publish_def)
  show "below_threshold rnd (end_walk kd f)" by (simp add: below_threshold_def end_walk_same(3))
  show "settled kd (end_walk kd f)"
    using end_walk_ok(2) [of kd f] assms same by (simp add: settled_def walk_ok_def same_asked_def)
  show "keeps kd f (end_walk kd f)"
    using keeps_asked [OF same end_walk_todo] by (simp add: end_walk_same(3))
qed

lemma discover_step:
  assumes "slices_sort srt" "walk_ok kd f"
  shows "walk_ok kd (discover kd srt ns f)" "keeps kd f (discover kd srt ns f)"
proof -
  show "walk_ok kd (discover kd srt ns f)"
    using assms(2) discover_ok [OF assms(1), of kd f ns] discover_same [of f kd srt ns]
    by (simp add: walk_ok_def same_asked_def same_publish_def)
  show "keeps kd f (discover kd srt ns f)" by (rule keeps_asked [OF discover_same discover_todo]) simp
qed

text \<open>The answers.\<close>

lemma answer_simps:
  "same_publish f (heard_from kd n f)" "same_publish f (fail_store kd n err f)"
  "op_found (heard_from kd n f) = op_found f" "op_found (fail_store kd n err f) = op_found f"
  "op_seen (heard_from kd n f) = op_seen f" "op_seen (fail_store kd n err f) = op_seen f"
  "op_walking (heard_from kd n f) = op_walking f" "op_walking (fail_store kd n err f) = op_walking f"
  "op_stopped (heard_from kd n f) = op_stopped f" "op_stopped (fail_store kd n err f) = op_stopped f"
  "op_contacted (heard_from kd n f) = op_contacted f" "op_contacted (fail_store kd n err f) = op_contacted f"
  "sr_todo (heard_from kd n f) = sr_todo f" "sr_todo (fail_store kd n err f) = sr_todo f"
  "sr_failed (heard_from kd n f) = sr_failed f"
  "fst ` set (sr_failed (fail_store kd n err f)) = insert (node_str kd n) (fst ` set (sr_failed f))"
  for f :: "('k, 'n, 'm) optimistic"
  by (simp_all add: heard_from_def fail_store_def same_publish_def update_keys_set)

lemmas answer_fields = answer_simps(1,2) [unfolded same_publish_def]

lemma heard_from_step:
  fixes f :: "('k, 'n, 'm) optimistic"
  assumes "walk_ok kd f"
  shows "walk_ok kd (heard_from kd n f)" "keeps kd f (heard_from kd n f)"
  using assms heard_from_ok(1) [of kd _ _ f n]
  by (simp_all add: answer_simps answer_fields walk_ok_def found_ok_def found_sorted_def keeps_def offered_def same_publish_def)

lemma fail_store_step:
  fixes f :: "('k, 'n, 'm) optimistic"
  assumes "walk_ok kd f"
  shows "walk_ok kd (fail_store kd n err f)" "keeps kd f (fail_store kd n err f)"
  using assms fail_store_ok(1) [of kd _ _ n err f]
  by (auto simp: answer_simps answer_fields walk_ok_def found_ok_def found_sorted_def keeps_def offered_def same_publish_def)


lemma walk_ok_cong:
  assumes "op_found f' = op_found f" "op_seen f' = op_seen f" "sr_todo f' = sr_todo f" "sr_waiting f' = sr_waiting f"
    "op_contacted f' = op_contacted f" "op_walking f' = op_walking f" "same_publish f f'"
  shows "walk_ok kd f \<Longrightarrow> walk_ok kd f'"
  using assms found_ok_cong [of f' f kd] by (simp add: walk_ok_def found_sorted_def same_publish_def)

lemma optimistic_event_step:
  assumes srt: "slices_sort srt" and ok: "walk_ok kd f" and ev: "\<not> is_start_event ev"
    and handled: "optimistic_event kd srt ev f = (pev, f')"
  shows "walk_ok kd f' \<and> keeps kd f f' \<and> (op_stopped f' \<longleftrightarrow> op_stopped f \<or> is_stop_event ev)"
proof (cases ev)
  case EventPublishStop
  with handled have f': "f' = f\<lparr>op_stopped := True\<rparr>" by (auto simp: Let_def split: if_splits)
  have "walk_ok kd f'" by (rule walk_ok_cong [OF _ _ _ _ _ _ _ ok]) (simp_all add: f' same_publish_def)
  then show ?thesis using EventPublishStop by (simp add: f' keeps_def same_publish_def)
next
  case (EventPublishNodeResponse n closer)
  with handled have f': "f' = discover kd srt closer f" by (simp add: Let_def)
  from discover_step [OF srt ok, of closer] discover_same [of f kd srt closer] EventPublishNodeResponse
  show ?thesis by (simp add: f' same_asked_def)
next
  case (EventPublishStoreRecordSuccess n req resp)
  with handled heard_from_step [OF ok, of n] show ?thesis by (auto simp: answer_simps)
next
  case (EventPublishStoreRecordFailure n req err)
  with handled have f': "f' = fail_store kd n err (heard_from kd n f)" by simp
  from heard_from_step [OF ok, of n] fail_store_step [of kd "heard_from kd n f" n err]
  have "walk_ok kd f'" "keeps kd f f'" unfolding f' by (auto intro: keeps_trans)
  with EventPublishStoreRecordFailure show ?thesis by (simp add: f' answer_simps)
qed (use assms in auto)

lemma set_due_step:
  "walk_ok kd (f\<lparr>op_next_due := due\<rparr>) = walk_ok kd f" "keeps kd f (f\<lparr>op_next_due := due\<rparr>)"
  "walk_ok kd (f\<lparr>op_query_stats := stats\<rparr>) = walk_ok kd f" "keeps kd f (f\<lparr>op_query_stats := stats\<rparr>)"
  "set_threshold_met rnd (f\<lparr>op_next_due := due\<rparr>) = set_threshold_met rnd f"
  by (simp_all add: walk_ok_def found_ok_def found_sorted_def stores_ok_def keeps_def same_publish_def offered_def
      set_threshold_met_def closest_found_def)

text \<open>The judgement whether to end the walk.\<close>

lemma optimistic_judge_cases:
  assumes "optimistic_judge kd srt rnd ev f = (pev, f')"
  obtains pev1 f1 where "optimistic_event kd srt ev (f\<lparr>op_next_due := zero_time\<rparr>) = (pev1, f1)"
    "walk_ok kd f1 \<longrightarrow> walk_ok kd f' \<and> keeps kd f1 f' \<and> below_threshold rnd f' \<and> op_stopped f' = op_stopped f1 \<and>
       (op_walking f1 \<longrightarrow> settled kd f')"
proof -
  obtain pev1 f1 where f1: "optimistic_event kd srt ev (f\<lparr>op_next_due := zero_time\<rparr>) = (pev1, f1)" by fastforce
  show thesis
  proof (rule that [OF f1], rule impI)
    assume ok: "walk_ok kd f1"
    show "walk_ok kd f' \<and> keeps kd f1 f' \<and> below_threshold rnd f' \<and> op_stopped f' = op_stopped f1 \<and>
       (op_walking f1 \<longrightarrow> settled kd f')"
    proof (cases "op_walking f1 \<and> \<not> op_stopped f1 \<and> set_threshold_met rnd f1")
      case True
      with assms f1 have f': "f' = end_walk kd f1" by (simp add: optimistic_judge_def)
      have "op_stopped f' = op_stopped f1" using end_walk_same(1) [of f1 kd] by (simp add: f' same_asked_def)
      with end_walk_step [OF ok] show ?thesis unfolding f' by simp
    next
      case False
      with assms f1 have f': "f' = f1" by (simp add: optimistic_judge_def)
      show ?thesis using ok False by (auto simp: f' below_threshold_def settled_def)
    qed
  qed
qed

lemma optimistic_judge_step:
  assumes srt: "slices_sort srt" and ok: "walk_ok kd f" and ev: "\<not> is_start_event ev"
    and judged: "optimistic_judge kd srt rnd ev f = (pev, f')"
  shows "walk_ok kd f' \<and> keeps kd f f' \<and> below_threshold rnd f' \<and> (op_walking f \<longrightarrow> settled kd f') \<and>
    (op_stopped f' \<longleftrightarrow> op_stopped f \<or> is_stop_event ev)"
proof -
  from judged obtain pev1 f1 where f1: "optimistic_event kd srt ev (f\<lparr>op_next_due := zero_time\<rparr>) = (pev1, f1)"
    and judge: "walk_ok kd f1 \<longrightarrow> walk_ok kd f' \<and> keeps kd f1 f' \<and> below_threshold rnd f' \<and>
      op_stopped f' = op_stopped f1 \<and> (op_walking f1 \<longrightarrow> settled kd f')"
    by (rule optimistic_judge_cases)
  from optimistic_event_step [OF srt _ ev f1] ok
  have step: "walk_ok kd f1" "keeps kd (f\<lparr>op_next_due := zero_time\<rparr>) f1" "op_stopped f1 \<longleftrightarrow> op_stopped f \<or> is_stop_event ev"
    by (auto simp: set_due_step(1))
  have "keeps kd f f1" by (rule keeps_trans [OF set_due_step(2) step(2)])
  moreover have "op_walking f1 = op_walking f"
    using f1 ev by (cases ev) (auto simp: Let_def answer_simps split: if_splits)
  ultimately show ?thesis using judge step(1,3) keeps_trans [of kd f f1 f'] by auto
qed

lemma optimistic_start_step:
  assumes srt: "slices_sort srt" and new: "new_optimistic rnd gi zk qid msg seeds network_size cfg = Inr f0"
    and judged: "optimistic_judge kd srt rnd (EventPublishStart target) f0 = (pev, f')"
  shows "walk_ok kd f' \<and> below_threshold rnd f' \<and> settled kd f' \<and> op_id f' = qid \<and> op_msg f' = msg \<and>
    op_target f' = target \<and> op_individual_threshold f' = op_individual_threshold f0 \<and> \<not> op_stopped f'"
proof -
  let ?f = "f0\<lparr>op_next_due := zero_time, op_started := True, op_walking := True, op_target := target\<rparr>"
  from new have f0: "sr_todo f0 = []" "sr_waiting f0 = []" "op_found f0 = []" "op_seen f0 = []" "op_contacted f0 = []"
    "op_id f0 = qid" "op_msg f0 = msg" "\<not> op_stopped f0"
    by (auto simp: new_optimistic_def Let_def split: option.splits if_splits sum.splits)
  have ok: "walk_ok kd ?f" using f0 by (simp add: walk_ok_def found_ok_def found_sorted_def stores_ok_def)
  let ?g = "discover kd srt (op_seeds f0) ?f"
  have g: "op_walking ?g" "op_id ?g = qid" "op_msg ?g = msg" "op_target ?g = target" "\<not> op_stopped ?g"
    "op_individual_threshold ?g = op_individual_threshold f0"
    using f0 discover_same [of ?f kd srt "op_seeds f0"] by (simp_all add: same_asked_def same_publish_def)
  from judged obtain pev1 f1 where f1: "optimistic_event kd srt (EventPublishStart target) (f0\<lparr>op_next_due := zero_time\<rparr>) = (pev1, f1)"
    and judge: "walk_ok kd f1 \<longrightarrow> walk_ok kd f' \<and> keeps kd f1 f' \<and> below_threshold rnd f' \<and>
      op_stopped f' = op_stopped f1 \<and> (op_walking f1 \<longrightarrow> settled kd f')"
    by (rule optimistic_judge_cases)
  have "f1 = ?g" using f1 by (simp add: Let_def)
  with judge discover_step(1) [OF srt ok] g show ?thesis by (simp add: keeps_def same_publish_def)
qed

lemma optimistic_pool_state_step:
  assumes srt: "slices_sort srt" and ok: "walk_ok kd f"
    and below: "below_threshold rnd f" and pool: "optimistic_pool_state kd srt st f = Some (out, f')"
  shows "walk_ok kd f' \<and> keeps kd f f' \<and> below_threshold rnd f' \<and> (settled kd f \<longrightarrow> settled kd f') \<and>
    op_stopped f' = op_stopped f \<and> (\<forall>s. out = Some s \<longrightarrow> (\<exists>i n target. s = StatePublishFindCloser i n target))"
proof (cases st)
  case (StatePoolQueryFinished i stats target closest)
  let ?f = "f\<lparr>op_query_stats := stats\<rparr>"
  let ?g = "discover kd srt closest ?f"
  from StatePoolQueryFinished pool have f': "f' = end_walk kd ?g" "out = None" by auto
  have "walk_ok kd ?f" using ok by (simp add: set_due_step)
  note g = discover_step [OF srt this, of closest]
  have "keeps kd f ?g" by (rule keeps_trans [OF set_due_step(4) g(2)])
  moreover have "op_stopped f' = op_stopped f"
    using end_walk_same(1) [of ?g kd] discover_same [of ?f kd srt closest] by (simp add: f' same_asked_def)
  ultimately show ?thesis
    unfolding f' using end_walk_step [OF g(1)] keeps_trans [of kd f ?g "end_walk kd ?g"] f'(1) by simp
next
  case (StatePoolQueryTimeout i stats)
  let ?f = "f\<lparr>op_query_stats := stats\<rparr>"
  from StatePoolQueryTimeout pool have f': "f' = end_walk kd ?f" "out = None" by auto
  have "walk_ok kd ?f" using ok by (simp add: set_due_step)
  note g = end_walk_step [OF this]
  have "keeps kd f f'" unfolding f' by (rule keeps_trans [OF set_due_step(4) g(4)])
  moreover have "op_stopped f' = op_stopped f"
    using end_walk_same(1) [of ?f kd] by (simp add: f' same_asked_def)
  ultimately show ?thesis using g f' by simp
qed (use assms in \<open>auto simp: set_due_step below_threshold_def settled_def closest_found_def offered_def\<close>)


text \<open>The query pool.\<close>

lemma optimistic_pool_step:
  assumes srt: "slices_sort srt" and ok: "walk_ok kd f"
    and below: "below_threshold rnd f" and pool: "optimistic_pool kd T srt now pev qp f = Some (out, qp', f')"
  shows "walk_ok kd f' \<and> keeps kd f f' \<and> below_threshold rnd f' \<and> (settled kd f \<longrightarrow> settled kd f') \<and>
    op_stopped f' = op_stopped f \<and> (\<forall>s. out = Some s \<longrightarrow> (\<exists>i n target. s = StatePublishFindCloser i n target))"
proof (cases pev)
  case None
  with pool ok below show ?thesis by (simp add: optimistic_pool_def)
next
  case (Some ev)
  obtain st qp1 where "pool_advance kd T now ev qp = (st, qp1)" by fastforce
  with pool Some have "optimistic_pool_state kd srt st f = Some (out, f')"
    by (auto simp: optimistic_pool_def)
  with optimistic_pool_state_step [OF srt ok below] show ?thesis by blast
qed

section \<open>The stores\<close>

lemma cancel_rest_eq:
  assumes "range_order ord" "stores_ok kd nodes asked f"
  shows "cancel_rest kd ord f = cancel_waiting kd ord (cancel_todo kd ord f)"
proof -
  have keyed: "(k, n) \<in> set (map_range ord (sr_todo f)) \<Longrightarrow> k = node_str kd n"
    "(k, n) \<in> set (map_range ord (sr_waiting f)) \<Longrightarrow> k = node_str kd n" for k n
    using assms by (auto simp: map_range_set stores_ok_def)
  have todo: "fold (\<lambda>(k, n) f. fail_store kd n (ErrorText ''cancelled'') (f\<lparr>sr_todo := AList.delete k (sr_todo f)\<rparr>))
      (map_range ord (sr_todo f)) f = cancel_todo kd ord f"
    unfolding cancel_todo_def by (intro fold_cong ext refl) (auto dest!: keyed)
  have waiting: "sr_waiting (cancel_todo kd ord f) = sr_waiting f"
    by (simp add: cancel_todo_def fold_cancel_todo)
  show ?thesis
    unfolding cancel_rest_def todo Let_def cancel_waiting_def waiting by (intro fold_cong ext refl) (auto dest!: keyed)
qed

lemma optimistic_more_eq: "stores.more f' = stores.more f \<Longrightarrow>
    same_publish f f' \<and> op_found f' = op_found f \<and> op_seen f' = op_seen f \<and> op_walking f' = op_walking f \<and>
    op_stopped f' = op_stopped f \<and> op_contacted f' = op_contacted f \<and> op_query_stats f' = op_query_stats f"
  by (cases f; cases f') (simp add: same_publish_def)

lemma optimistic_store_step:
  assumes ord: "range_order ord" and ok: "walk_ok kd f" and store: "optimistic_store kd ord f = (out, f')"
  shows "walk_ok kd f' \<and> keeps kd f f' \<and> op_walking f' = op_walking f \<and> op_found f' = op_found f \<and>
    op_stopped f' = op_stopped f \<and>
    (op_contacted f' = op_contacted f \<and> asked_of out = [] \<and>
       (\<forall>i c errs stats. out = StatePublishFinished i c errs stats \<longrightarrow> out = optimistic_finished f' \<and>
          sr_todo f' = [] \<and> sr_waiting f' = [] \<and> (op_stopped f' \<or> \<not> op_walking f')) \<or>
     (\<exists>n \<in> set (map fn_node (op_found f)). out = StatePublishStoreRecord (op_id f) n (op_msg f) \<and>
       op_contacted f' = op_contacted f @ [n] \<and> node_str kd n \<notin> names kd (op_contacted f) \<and>
       (op_walking f \<longrightarrow> target_distance kd f n < op_individual_threshold f)))"
proof (cases "op_stopped f")
  case True
  from ok have sok: "stores_ok kd (map fn_node (op_found f)) (op_contacted f) f" by (simp add: walk_ok_def found_ok_def)
  from store True have f': "f' = cancel_waiting kd ord (cancel_todo kd ord f)" "out = optimistic_finished f'"
    by (auto simp: optimistic_store_def Let_def cancel_rest_eq [OF ord sok])
  note cancelled = cancel_ok [OF ord sok, folded f'(1)]
  note same = optimistic_more_eq [OF cancelled(3)]
  have "walk_ok kd f'" using ok cancelled(1,4) same by (simp add: walk_ok_def found_ok_def found_sorted_def same_publish_def)
  moreover have "keeps kd f f'" using same True by (simp add: keeps_def)
  ultimately show ?thesis using same cancelled(1,2) f'(2) True by (simp add: optimistic_finished_def)
next
  case running: False
  show ?thesis
  proof (cases "next_store ord f")
    case None
    with next_store_None [OF ord, of f] have "sr_todo f = []" by simp
    with store running None ok show ?thesis
      by (auto simp: optimistic_store_def walk_ok_def optimistic_finished_def split: if_splits)
  next
    case (Some r)
    obtain n g where r: "r = (n, g)" by fastforce
    with Some have next_n: "next_store ord f = Some (n, g)" by simp
    from store running next_n have f': "f' = g\<lparr>op_contacted := op_contacted f @ [n]\<rparr>"
      "out = StatePublishStoreRecord (op_id f) n (op_msg f)" by (auto simp: optimistic_store_def)
    from ok have sok: "stores_ok kd (map fn_node (op_found f)) (op_contacted f) f" by (simp add: walk_ok_def found_ok_def)
    note asked = next_store_ok [OF ord sok next_n]
    note same = optimistic_more_eq [OF asked(4)]
    from next_n obtain k where k: "(k, n) \<in> set (map_range ord (sr_todo f))"
      and g: "g = f\<lparr>sr_todo := AList.delete k (sr_todo f), sr_waiting := AList.update k n (sr_waiting f)\<rparr>"
      by (auto simp: next_store_def split: list.splits)
    have todo: "(k, n) \<in> set (sr_todo f)" using k ord sok by (simp add: map_range_set stores_ok_def)
    then have n: "k = node_str kd n" "n \<in> set (map fn_node (op_found f))" "k \<notin> names kd (op_contacted f)"
      using sok by (auto simp: stores_ok_def)
    have near: "target_distance kd f n < op_individual_threshold f" if "op_walking f"
      using ok that todo by (force simp: walk_ok_def found_ok_def)
    have sok': "stores_ok kd (map fn_node (op_found f)) (op_contacted f @ [n]) f'"
      using asked(1) by (simp add: f' stores_ok_def)
    have todo': "snd ` set (sr_todo f') \<subseteq> snd ` set (sr_todo f)" by (auto simp: f' g AList.delete_eq)
    have "\<forall>m \<in> snd ` set (sr_todo f') \<union> set (op_contacted f @ [n]).
        target_distance kd f m < op_individual_threshold f" if "op_walking f"
    proof -
      have "\<forall>m \<in> snd ` set (sr_todo f) \<union> set (op_contacted f). target_distance kd f m < op_individual_threshold f"
        using ok that by (simp add: walk_ok_def found_ok_def)
      with near [OF that] todo' show ?thesis by auto
    qed
    then have "walk_ok kd f'"
      using ok sok' same unfolding walk_ok_def found_ok_def found_sorted_def
      by (simp add: f' same_publish_def)
    moreover have "keeps kd f f'"
    proof -
      have "fst ` set (sr_todo f) \<subseteq> insert (node_str kd n) (fst ` set (sr_todo f'))"
        using n(1) by (auto simp: f' g delete_keys_set)
      then have "offered kd ns f \<Longrightarrow> offered kd ns f'" for ns
        using asked(3) unfolding offered_def by (simp add: f') blast
      then show ?thesis using same by (auto simp: keeps_def f' same_publish_def)
    qed
    ultimately show ?thesis using same n near f' by (auto simp: f')
  qed
qed


section \<open>Runs\<close>

text \<open>
  A machine that was created, started and advanced by events other than a second start. Its siblings may
  change the query pool between its advances in any way. The index \<open>ended\<close> holds the nearest nodes found
  at the moment the walk ended.
\<close>

inductive optimistic_run ::
  "('k, 'n) kad_ops \<Rightarrow> ('k, 'n node_status, 'tr) trie_ops \<Rightarrow>
     (('n found_node \<Rightarrow> 'n found_node \<Rightarrow> int) \<Rightarrow> 'n found_node list \<Rightarrow> 'n found_node list) \<Rightarrow> (rat \<Rightarrow> rat) \<Rightarrow>
     activity_id \<Rightarrow> 'm \<Rightarrow> 'k \<Rightarrow> 'n list \<Rightarrow> ('k, 'n, 'm) optimistic \<Rightarrow> bool"
  for kd T srt rnd qid msg target where
  started: "new_optimistic rnd gi zk qid msg seeds network_size cfg = Inr f0 \<Longrightarrow> range_order ord \<Longrightarrow>
    optimistic_advance kd T srt rnd ord now (EventPublishStart target) qp f0 = Some (out, qp', f) \<Longrightarrow>
    optimistic_run kd T srt rnd qid msg target (map fn_node (closest_found f)) f"
| advanced: "optimistic_run kd T srt rnd qid msg target ended f \<Longrightarrow> range_order ord \<Longrightarrow> \<not> is_start_event ev \<Longrightarrow>
    optimistic_advance kd T srt rnd ord now ev qp f = Some (out, qp', f') \<Longrightarrow>
    optimistic_run kd T srt rnd qid msg target
      (if op_walking f then map fn_node (closest_found f') else ended) f'"

definition optimistic_ok ::
  "('k, 'n) kad_ops \<Rightarrow> (rat \<Rightarrow> rat) \<Rightarrow> activity_id \<Rightarrow> 'm \<Rightarrow> 'k \<Rightarrow> 'n list \<Rightarrow> ('k, 'n, 'm) optimistic \<Rightarrow> bool" where
  "optimistic_ok kd rnd qid msg target ended f \<longleftrightarrow>
     op_id f = qid \<and> op_msg f = msg \<and> op_target f = target \<and> walk_ok kd f \<and> below_threshold rnd f \<and>
     (\<not> op_walking f \<and> \<not> op_stopped f \<longrightarrow> offered kd ended f)"

text \<open>The end of an advance, after the judgement.\<close>

lemma optimistic_finish_step:
  assumes srt: "slices_sort srt" and ord: "range_order ord" and ok: "walk_ok kd f1" "below_threshold rnd f1"
    and adv: "optimistic_judge kd srt rnd ev f0 = (pev, f1)"
      "optimistic_advance kd T srt rnd ord now ev qp f0 = Some (out, qp', f')"
  shows "walk_ok kd f' \<and> keeps kd f1 f' \<and> below_threshold rnd f' \<and> (settled kd f1 \<longrightarrow> settled kd f') \<and>
    op_stopped f' = op_stopped f1 \<and>
    (asked_of out = [] \<and>
       (\<forall>i c errs stats. out = StatePublishFinished i c errs stats \<longrightarrow> out = optimistic_finished f' \<and>
          sr_todo f' = [] \<and> sr_waiting f' = [] \<and> (op_stopped f' \<or> \<not> op_walking f')) \<or>
     (\<exists>n \<in> set (map fn_node (op_found f')). out = StatePublishStoreRecord (op_id f') n (op_msg f') \<and>
       (\<exists>asked. op_contacted f' = asked @ [n] \<and> node_str kd n \<notin> names kd asked) \<and>
       (op_walking f' \<longrightarrow> target_distance kd f' n < op_individual_threshold f')))"
proof -
  from adv obtain res f2 where pool: "optimistic_pool kd T srt now pev qp f1 = Some (res, qp', f2)"
    and rest: "case res of Some s \<Rightarrow> out = s \<and> f' = f2 | None \<Rightarrow> optimistic_store kd ord f2 = (out, f')"
    by (auto simp: optimistic_advance_def split: option.splits prod.splits)
  from optimistic_pool_step [OF srt ok pool]
  have mid: "walk_ok kd f2" "keeps kd f1 f2" "below_threshold rnd f2" "settled kd f1 \<longrightarrow> settled kd f2"
    "op_stopped f2 = op_stopped f1" "\<forall>s. res = Some s \<longrightarrow> (\<exists>i n target. s = StatePublishFindCloser i n target)"
    by auto
  show ?thesis
  proof (cases res)
    case (Some s)
    with rest mid show ?thesis by auto
  next
    case None
    with rest have store: "optimistic_store kd ord f2 = (out, f')" by simp
    note step = optimistic_store_step [OF ord mid(1) store]
    then have same: "keeps kd f2 f'" "op_walking f' = op_walking f2" "op_found f' = op_found f2" "op_stopped f' = op_stopped f2"
      by auto
    then have fields: "op_cfg f' = op_cfg f2" "op_set_threshold f' = op_set_threshold f2" "op_id f' = op_id f2"
      "op_msg f' = op_msg f2" "op_target f' = op_target f2" "op_individual_threshold f' = op_individual_threshold f2"
      by (simp_all add: keeps_def same_publish_def)
    have closest: "closest_found f' = closest_found f2" by (simp add: closest_found_def same fields)
    have "set_threshold_met rnd f' = set_threshold_met rnd f2"
      by (simp add: set_threshold_met_def same fields closest)
    then have "below_threshold rnd f'" using mid(3) by (simp add: below_threshold_def same)
    moreover have "settled kd f2 \<longrightarrow> settled kd f'"
      using same(1,2,4) unfolding settled_def closest keeps_def by auto
    moreover have "keeps kd f1 f'" by (rule keeps_trans [OF mid(2) same(1)])
    ultimately show ?thesis using step mid(4,5) by (auto simp: fields same(2,3))
  qed
qed

lemma optimistic_run_ok:
  assumes "slices_sort srt"
  shows "optimistic_run kd T srt rnd qid msg target ended f \<Longrightarrow> optimistic_ok kd rnd qid msg target ended f"
proof (induction rule: optimistic_run.induct)
  case (started gi zk seeds network_size cfg f0 ord now qp out qp' f)
  obtain pev f1 where f1: "optimistic_judge kd srt rnd (EventPublishStart target) f0 = (pev, f1)" by fastforce
  note start = optimistic_start_step [OF assms started(1) f1]
  then have "walk_ok kd f1" "below_threshold rnd f1" by auto
  note finish = optimistic_finish_step [OF assms started(2) this f1 started(3)]
  show ?case using start finish by (auto simp: optimistic_ok_def keeps_def same_publish_def settled_def)
next
  case (advanced ended f ord ev now qp out qp' f')
  obtain pev f1 where f1: "optimistic_judge kd srt rnd ev f = (pev, f1)" by fastforce
  have ok: "walk_ok kd f" "op_id f = qid" "op_msg f = msg" "op_target f = target"
    "\<not> op_walking f \<and> \<not> op_stopped f \<longrightarrow> offered kd ended f"
    using advanced.IH by (simp_all add: optimistic_ok_def)
  note judge = optimistic_judge_step [OF assms ok(1) advanced(3) f1]
  then have "walk_ok kd f1" "below_threshold rnd f1" by auto
  note finish = optimistic_finish_step [OF assms advanced(2) this f1 advanced(4)]
  have keeps: "keeps kd f f'" using judge finish keeps_trans by blast
  have "offered kd (if op_walking f then map fn_node (closest_found f') else ended) f'"
    if "\<not> op_walking f'" "\<not> op_stopped f'"
  proof (cases "op_walking f")
    case True
    with judge finish have "settled kd f'" by blast
    with that True show ?thesis by (simp add: settled_def)
  next
    case False
    with ok(5) keeps that show ?thesis by (auto simp: keeps_def)
  qed
  with finish keeps ok(2-4) show ?case by (auto simp: optimistic_ok_def keeps_def same_publish_def)
qed

text \<open>Only a stop stops a machine.\<close>

lemma optimistic_step_stopped:
  assumes "slices_sort srt" "optimistic_run kd T srt rnd qid msg target ended f" "range_order ord" "\<not> is_start_event ev"
    "optimistic_advance kd T srt rnd ord now ev qp f = Some (out, qp', f')"
  shows "op_stopped f' \<longleftrightarrow> op_stopped f \<or> is_stop_event ev"
proof -
  obtain pev f1 where f1: "optimistic_judge kd srt rnd ev f = (pev, f1)" by fastforce
  have "walk_ok kd f" using optimistic_run_ok [OF assms(1,2)] by (simp add: optimistic_ok_def)
  note judge = optimistic_judge_step [OF assms(1) this assms(4) f1]
  then have "walk_ok kd f1" "below_threshold rnd f1" by auto
  with judge optimistic_finish_step [OF assms(1,3) _ _ f1 assms(5)] show ?thesis by auto
qed

lemma optimistic_start_stopped:
  assumes "slices_sort srt" "new_optimistic rnd gi zk qid msg seeds network_size cfg = Inr f0" "range_order ord"
    "optimistic_advance kd T srt rnd ord now (EventPublishStart target) qp f0 = Some (out, qp', f)"
  shows "\<not> op_stopped f"
proof -
  obtain pev f1 where f1: "optimistic_judge kd srt rnd (EventPublishStart target) f0 = (pev, f1)" by fastforce
  note start = optimistic_start_step [OF assms(1,2) f1]
  then have "walk_ok kd f1" "below_threshold rnd f1" by auto
  with start optimistic_finish_step [OF assms(1,3) _ _ f1 assms(4)] show ?thesis by auto
qed

section \<open>The properties\<close>



end
