(* ===== verification/PublishPoolTheorems.thy ===== *)
theory PublishPoolTheorems
  imports PublishPool OptimisticTheorems StaticPublishTheorems FollowUpTheorems
begin

text \<open>
  The pool keeps every publish under its own id and gives each up only by reporting its end; and what it does
  with a machine is a run of that machine's strategy, so that what holds of every run holds of the publishes
  in a pool.
\<close>

section \<open>The machines keep their ids\<close>

lemma cancel_more [simp]:
  "stores.more (cancel_todo kd ord s) = stores.more s" "stores.more (cancel_waiting kd ord s) = stores.more s"
  unfolding cancel_todo_def cancel_waiting_def fold_cancel_todo fold_cancel_waiting by simp_all

lemma next_store_more: "next_store ord s = Some (n, s') \<Longrightarrow> stores.more s' = stores.more s"
  by (auto simp: next_store_def split: list.splits prod.splits)

lemma static_advance_id:
  assumes "static_advance kd ord ev f = Some (st, f')"
  shows "sp_id f' = sp_id f" "st = StatePublishFinished i c errs stats \<Longrightarrow> i = sp_id f"
proof -
  from assms obtain g where g: "static_handle kd ord ev f = Some g" "static_next ord g = (st, f')"
    by (auto simp: static_advance_next)
  have "sp_id g = sp_id f"
    using g(1) static_more_eq [of "cancel_waiting kd ord (cancel_todo kd ord f)" f]
    by (cases ev) (auto simp: add_todo_def Let_def)
  moreover have "sp_id f' = sp_id g \<and> (\<forall>i c errs stats. st = StatePublishFinished i c errs stats \<longrightarrow> i = sp_id g)"
    using g(2) static_more_eq [OF next_store_more [of ord g]]
    by (auto simp: static_next_def split: option.splits if_splits)
  ultimately show "sp_id f' = sp_id f" "st = StatePublishFinished i c errs stats \<Longrightarrow> i = sp_id f" by auto
qed

lemma follow_up_advance_id:
  assumes "follow_up_advance kd T ord now ev qp f = Some (st, qp', f')"
  shows "fo_id f' = fo_id f" "st = StatePublishFinished i c errs stats \<Longrightarrow> i = fo_id f"
proof -
  obtain pev f1 where f1: "follow_up_event kd ev f = (pev, f1)" by fastforce
  have id1: "fo_id f1 = fo_id f" using f1 by (cases ev) (auto simp: Let_def split: if_splits)
  from assms f1 obtain r qp1 f2 where pool: "follow_up_pool kd T now pev qp f1 = Some (r, qp1, f2)"
    and rest: "case r of Some out \<Rightarrow> st = out \<and> f' = f2 | None \<Rightarrow> follow_up_store kd ord (is_stop_event ev) f2 = (st, f')"
    by (auto simp: follow_up_advance_def split: option.splits prod.splits)
  have id2: "fo_id f2 = fo_id f1 \<and> (\<forall>i c errs stats. r = Some (StatePublishFinished i c errs stats) \<longrightarrow> i = fo_id f1)"
  proof (cases pev)
    case None
    with pool show ?thesis by (simp add: follow_up_pool_def)
  next
    case (Some e)
    obtain ps qp2 where "pool_advance kd T now e qp = (ps, qp2)" by fastforce
    with pool Some have "follow_up_pool_state kd ps f1 = Some (r, f2)" by (auto simp: follow_up_pool_def)
    then show ?thesis by (cases ps) (auto simp: Let_def split: if_splits)
  qed
  have id3: "fo_id f' = fo_id f2 \<and> (\<forall>i c errs stats. st = StatePublishFinished i c errs stats \<longrightarrow> i = fo_id f2)"
    if store: "follow_up_store kd ord (is_stop_event ev) f2 = (st, f')"
  proof -
    let ?g = "if is_stop_event ev then cancel_waiting kd ord (cancel_todo kd ord f2) else f2"
    have "fo_id ?g = fo_id f2" using follow_up_more_eq [of ?g f2] by simp
    then show ?thesis
      using store follow_up_more_eq [OF next_store_more [of ord ?g]]
      by (auto simp: follow_up_store_def Let_def split: option.splits if_splits)
  qed
  have "fo_id f' = fo_id f \<and> (\<forall>i c errs stats. st = StatePublishFinished i c errs stats \<longrightarrow> i = fo_id f)"
  proof (cases r)
    case None
    with rest id3 id1 id2 show ?thesis by simp
  next
    case (Some out)
    with rest id1 id2 show ?thesis by simp
  qed
  then show "fo_id f' = fo_id f" "st = StatePublishFinished i c errs stats \<Longrightarrow> i = fo_id f" by blast+
qed

lemma optimistic_id_simps [simp]:
  "op_id (discover kd srt ns f) = op_id f" "op_id (end_walk kd f) = op_id f"
  using discover_same [of f kd srt ns] end_walk_same(1) [of f kd] by (simp_all add: same_asked_def same_publish_def)

lemma fold_fail_more:
  "stores.more (fold (\<lambda>(k, n) f. fail_store kd n e (f\<lparr>sr_todo := AList.delete k (sr_todo f)\<rparr>)) xs f) = stores.more f"
  "stores.more (fold (\<lambda>(k, n) f. fail_store kd n e (f\<lparr>sr_waiting := AList.delete k (sr_waiting f)\<rparr>)) xs f) = stores.more f"
  by (induction xs arbitrary: f) (auto simp: fail_store_def)

lemma cancel_rest_id [simp]: "op_id (cancel_rest kd ord f) = op_id f"
proof -
  have "stores.more (cancel_rest kd ord f) = stores.more f"
    unfolding cancel_rest_def Let_def by (simp only: fold_fail_more)
  then show ?thesis using optimistic_more_eq [of "cancel_rest kd ord f" f] by (simp add: same_publish_def)
qed

lemma optimistic_judge_id:
  assumes "optimistic_judge kd srt rnd ev f = (pev, f')"
  shows "op_id f' = op_id f"
proof -
  obtain pev1 f1 where f1: "optimistic_event kd srt ev (f\<lparr>op_next_due := zero_time\<rparr>) = (pev1, f1)" by fastforce
  have "op_id f1 = op_id f" using f1 by (cases ev) (auto simp: Let_def answer_fields split: if_splits)
  then show ?thesis using assms f1 by (auto simp: optimistic_judge_def split: if_splits)
qed

lemma optimistic_advance_id:
  assumes "optimistic_advance kd T srt rnd ord now ev qp f = Some (st, qp', f')"
  shows "op_id f' = op_id f" "st = StatePublishFinished i c errs stats \<Longrightarrow> i = op_id f"
proof -
  obtain pev f1 where f1: "optimistic_judge kd srt rnd ev f = (pev, f1)" by fastforce
  from assms f1 obtain r qp1 f2 where pool: "optimistic_pool kd T srt now pev qp f1 = Some (r, qp1, f2)"
    and rest: "case r of Some out \<Rightarrow> st = out \<and> f' = f2 | None \<Rightarrow> optimistic_store kd ord f2 = (st, f')"
    by (auto simp: optimistic_advance_def split: option.splits prod.splits)
  have id2: "op_id f2 = op_id f1 \<and> (\<forall>s. r = Some s \<longrightarrow> (\<exists>i n target. s = StatePublishFindCloser i n target))"
  proof (cases pev)
    case None
    with pool show ?thesis by (simp add: optimistic_pool_def)
  next
    case (Some e)
    obtain ps qp2 where "pool_advance kd T now e qp = (ps, qp2)" by fastforce
    with pool Some have state: "optimistic_pool_state kd srt ps f1 = Some (r, f2)" by (auto simp: optimistic_pool_def)
    then show ?thesis by (cases ps) auto
  qed
  have id3: "op_id f' = op_id f2 \<and> (\<forall>i c errs stats. st = StatePublishFinished i c errs stats \<longrightarrow> i = op_id f2)"
    if store: "optimistic_store kd ord f2 = (st, f')"
    using store optimistic_more_eq [OF next_store_more [of ord f2]]
    by (auto simp: optimistic_store_def optimistic_finished_def Let_def same_publish_def split: option.splits if_splits)
  have "op_id f' = op_id f \<and> (\<forall>i c errs stats. st = StatePublishFinished i c errs stats \<longrightarrow> i = op_id f)"
  proof (cases r)
    case None
    with rest id3 id2 optimistic_judge_id [OF f1] show ?thesis by simp
  next
    case (Some out)
    with rest id2 optimistic_judge_id [OF f1] show ?thesis by auto
  qed
  then show "op_id f' = op_id f" "st = StatePublishFinished i c errs stats \<Longrightarrow> i = op_id f" by blast+
qed

lemma machine_advance_id:
  assumes "machine_advance env ord now ev qp sm = Some (st, qp', sm')"
  shows "machine_id sm' = machine_id sm \<and> (\<forall>i c errs stats. st = StatePublishFinished i c errs stats \<longrightarrow> i = machine_id sm)"
proof (cases sm)
  case (PublishFollowUp f)
  with assms obtain f' where "follow_up_advance (pe_kad env) (pe_trie env) ord now ev qp f = Some (st, qp', f')"
    "sm' = PublishFollowUp f'" by auto
  with follow_up_advance_id PublishFollowUp show ?thesis by fastforce
next
  case (PublishStatic f)
  with assms obtain f' where "static_advance (pe_kad env) ord ev f = Some (st, f')" "sm' = PublishStatic f'" by auto
  with static_advance_id PublishStatic show ?thesis by fastforce
next
  case (PublishOptimistic f)
  with assms obtain f' where "optimistic_advance (pe_kad env) (pe_trie env) (pe_sort env) (pe_round env) ord now ev qp f =
      Some (st, qp', f')" "sm' = PublishOptimistic f'" by auto
  with optimistic_advance_id PublishOptimistic show ?thesis by fastforce
qed


section \<open>The contract of a strategy with the pool\<close>

text \<open>
  The pool starts each machine once, right after it was created, and advances it by other events afterwards. A
  property of machines that holds after a start and is kept by every other advance holds of all machines of a
  pool, next to the invariant of the pool: its machines are stored under their own ids.
\<close>

definition created_machine ::
  "('k, 'n, 'tr) publish_env \<Rightarrow> activity_id \<Rightarrow> 'm \<Rightarrow> ('k, 'n, 'm) publish_machine \<Rightarrow> bool" where
  "created_machine env i msg sm \<longleftrightarrow>
     (\<exists>f seeds cfg. sm = PublishFollowUp f \<and> new_follow_up i msg seeds cfg = Inr f) \<or>
     (\<exists>f nodes cfg. sm = PublishStatic f \<and> new_static i msg nodes cfg = Inr f) \<or>
     (\<exists>f seeds size cfg. sm = PublishOptimistic f \<and>
        new_optimistic (pe_round env) (pe_gamma_inv env) (pe_zero_key env) i msg seeds size cfg = Inr f)"

lemma created_machine_id: "created_machine env i msg sm \<Longrightarrow> machine_id sm = i"
  by (auto simp: created_machine_def new_follow_up_def new_static_def new_optimistic_def Let_def
      split: option.splits if_splits sum.splits)

definition pool_keyed :: "('k, 'n, 'm, 'tr) publish_pool \<Rightarrow> bool" where
  "pool_keyed p \<longleftrightarrow> distinct (map fst (pp_bcs p)) \<and> (\<forall>(i, sm) \<in> set (pp_bcs p). machine_id sm = i)"

abbreviation pool_ids :: "('k, 'n, 'm, 'tr) publish_pool \<Rightarrow> activity_id set" where
  "pool_ids p \<equiv> fst ` set (pp_bcs p)"

lemma update_entries:
  "distinct (map fst m) \<Longrightarrow> \<forall>(j, x) \<in> set m. j \<noteq> i \<longrightarrow> P j x \<Longrightarrow> P i v \<Longrightarrow> \<forall>(j, x) \<in> set (AList.update i v m). P j x"
  by (induction m) (force split: if_splits)+

fun ended_publish :: "('k, 'n, 'm) pub_pool_state option \<Rightarrow> activity_id set" where
  "ended_publish (Some (PoolPublishFinished i contacted errs stats)) = {i}"
| "ended_publish _ = {}"

text \<open>The publish an event starts, if its configuration is accepted.\<close>

definition started_publish ::
  "('k, 'n, 'tr) publish_env \<Rightarrow> ('k, 'n, 'm) pub_pool_event \<Rightarrow> ('k, 'n, 'm, 'tr) publish_pool \<Rightarrow> activity_id set" where
  "started_publish env ev p =
     (case fst (publish_pool_event env ev p) of Some (i, EventPublishStart target) \<Rightarrow> {i} | _ \<Rightarrow> {})"

lemma publish_pool_event_cases:
  fixes p :: "('k, 'n, 'm, 'tr) publish_pool"
  assumes "publish_pool_event env ev p = (addressed, p')"
  obtains (none) "addressed = None" "p' = p" "started_publish env ev p = {}"
  | (started) i target msg sm where "addressed = Some (i, EventPublishStart target)"
      "p' = p\<lparr>pp_bcs := AList.update i sm (pp_bcs p)\<rparr>" "created_machine env i msg sm" "started_publish env ev p = {i}"
  | (delivered) i bev where "addressed = Some (i, bev)" "p' = p" "\<not> is_start_event bev" "started_publish env ev p = {}"
proof -
  have start: thesis if "publish_pool_event env ev p = start_publish i target r p" "\<forall>sm. r = Inr sm \<longrightarrow> created_machine env i msg sm"
    for i target msg and r :: "('k, 'n, 'm) publish_machine go_result"
  proof (cases r)
    case (Inl e)
    with assms that show thesis by (intro none) (auto simp: start_publish_def started_publish_def)
  next
    case (Inr sm)
    with assms that show thesis
      by (intro started [of i target sm msg]) (auto simp: start_publish_def started_publish_def)
  qed
  have deliver: thesis if "publish_pool_event env ev p = deliver_to i bev p" "\<not> is_start_event bev" for i bev
  proof (cases "map_of (pp_bcs p) i")
    case None
    with assms that show thesis by (intro none) (auto simp: deliver_to_def started_publish_def)
  next
    case (Some sm)
    with assms that have "addressed = Some (i, bev)" "p' = p" by (auto simp: deliver_to_def)
    moreover have "started_publish env ev p = {}"
      using that Some by (cases bev) (auto simp: deliver_to_def started_publish_def)
    ultimately show thesis using that(2) by (intro delivered)
  qed
  show thesis
  proof (cases ev)
    case PoolPoll
    with assms show thesis by (intro none) (auto simp: started_publish_def)
  next
    case (PoolStartFollowUp i target msg seed)
    then show thesis
      by (intro start [of i target _ msg]) (auto simp: created_machine_def map_sum_def split: sum.splits)
  next
    case (PoolStartStatic i target msg nodes)
    then show thesis
      by (intro start [of i target _ msg]) (auto simp: created_machine_def map_sum_def split: sum.splits)
  next
    case (PoolStartOptimistic i target msg seed size)
    then show thesis
      by (intro start [of i target _ msg]) (auto simp: created_machine_def map_sum_def split: sum.splits)
  qed (auto intro: deliver)
qed

lemma started_publish_due: "started_publish env ev (p\<lparr>pp_next_due := due\<rparr>) = started_publish env ev p"
  by (cases ev) (auto simp: started_publish_def start_publish_def deliver_to_def split: sum.splits)

lemma pool_state_not_idle: "publish_pool_state st p \<noteq> (Some PoolIdle, p')"
  by (cases st) simp_all

lemma advance_never_idle: "advance_publish env ord now i bev p = Some (res, p') \<Longrightarrow> res \<noteq> Some PoolIdle"
  using pool_state_not_idle by (fastforce simp: advance_publish_def split: option.splits prod.splits)

lemma poll_never_idle: "poll_publishes env ord now skip is p = Some (res, p') \<Longrightarrow> res \<noteq> Some PoolIdle"
proof (induction "is" arbitrary: p)
  case (Cons i "is")
  then show ?case using advance_never_idle by (fastforce split: if_splits option.splits)
qed simp

locale machine_contract =
  fixes env :: "('k, 'n, 'tr) publish_env" and Q :: "('k, 'n, 'm) publish_machine \<Rightarrow> bool"
  assumes starts: "created_machine env i msg sm \<Longrightarrow> range_order ord \<Longrightarrow>
      machine_advance env ord now (EventPublishStart target) qp sm = Some (st, qp', sm') \<Longrightarrow> Q sm'"
    and steps: "Q sm \<Longrightarrow> range_order ord \<Longrightarrow> \<not> is_start_event ev \<Longrightarrow>
      machine_advance env ord now ev (qp :: ('k, 'n, 'm, 'tr) query_pool) sm = Some (st, qp', sm') \<Longrightarrow> Q sm'"
begin

text \<open>The machines of a pool, other than the one under a key.\<close>

definition machines_ok :: "activity_id option \<Rightarrow> ('k, 'n, 'm, 'tr) publish_pool \<Rightarrow> bool" where
  "machines_ok but p \<longleftrightarrow> (\<forall>(i, sm) \<in> set (pp_bcs p). but \<noteq> Some i \<longrightarrow> Q sm)"

lemma advance_publish_ok:
  assumes keyed: "pool_keyed p" and ord: "range_order ord"
    and machine: "\<forall>sm. map_of (pp_bcs p) i = Some sm \<longrightarrow>
      (if is_start_event bev then \<exists>msg. created_machine env i msg sm else Q sm)"
    and ok: "machines_ok (if is_start_event bev then Some i else None) p"
    and adv: "advance_publish env ord now i bev p = Some (res, p')"
  shows "pool_keyed p' \<and> machines_ok None p' \<and> i \<in> pool_ids p \<and> pool_ids p' = pool_ids p - ended_publish res \<and>
    ended_publish res \<subseteq> pool_ids p"
proof -
  from adv obtain sm st qp sm' where sm: "map_of (pp_bcs p) i = Some sm"
    and step: "machine_advance env ord now bev (pp_qp p) sm = Some (st, qp, sm')"
    and res: "(res, p') = publish_pool_state st (p\<lparr>pp_qp := qp, pp_bcs := AList.update i sm' (pp_bcs p)\<rparr>)"
    by (auto simp: advance_publish_def split: option.splits prod.splits)
  from map_of_SomeD [OF sm] keyed have sm_id: "machine_id sm = i" "i \<in> pool_ids p" by (force simp: pool_keyed_def)+
  have "Q sm'"
  proof (cases "is_start_event bev")
    case True
    then obtain target where "bev = EventPublishStart target" by (cases bev) auto
    moreover obtain msg where "created_machine env i msg sm" using machine sm True by auto
    ultimately show ?thesis using starts ord step by blast
  next
    case False
    with machine sm have "Q sm" by simp
    with False show ?thesis using steps ord step by blast
  qed
  let ?q = "p\<lparr>pp_qp := qp, pp_bcs := AList.update i sm' (pp_bcs p)\<rparr>"
  have sm'_id: "machine_id sm' = i" using machine_advance_id [OF step] sm_id by simp
  have distinct: "distinct (map fst (pp_bcs p))" using keyed by (simp add: pool_keyed_def)
  have "\<forall>(j, x) \<in> set (AList.update i sm' (pp_bcs p)). machine_id x = j"
    using keyed sm'_id by (intro update_entries [OF distinct]) (auto simp: pool_keyed_def)
  moreover have "\<forall>(j, x) \<in> set (AList.update i sm' (pp_bcs p)). Q x"
    using ok \<open>Q sm'\<close> by (intro update_entries [OF distinct]) (auto simp: machines_ok_def split: if_splits)
  ultimately have q: "pool_keyed ?q" "machines_ok None ?q" "pool_ids ?q = pool_ids p"
    using distinct_update [OF distinct] sm_id(2)
    by (auto simp: pool_keyed_def machines_ok_def update_keys_set insert_absorb)
  have removed: "pool_keyed (?q\<lparr>pp_bcs := AList.delete i (pp_bcs ?q)\<rparr>)" "machines_ok None (?q\<lparr>pp_bcs := AList.delete i (pp_bcs ?q)\<rparr>)"
    using q(1,2) by (auto simp: pool_keyed_def machines_ok_def AList.delete_eq distinct_map_filter)
  have same: "pp_bcs (record_due due ?q) = pp_bcs ?q" for due by (simp add: record_due_def)
  show ?thesis
  proof (cases st)
    case (StatePublishFinished j contacted errs stats)
    with machine_advance_id [OF step] sm_id have "j = i" by simp
    with StatePublishFinished res removed q(3) sm_id show ?thesis by (simp add: delete_keys_set)
  qed (use res q same sm_id in \<open>auto simp: pool_keyed_def machines_ok_def\<close>)
qed

lemma poll_one_ok:
  assumes "pool_keyed p" "range_order ord" "machines_ok None p" "\<not> is_start_event bev"
    "advance_publish env ord now i bev p = Some (res, p')"
  shows "pool_keyed p' \<and> machines_ok None p' \<and> pool_ids p' = pool_ids p - ended_publish res \<and>
    ended_publish res \<subseteq> pool_ids p"
proof -
  have "\<forall>sm. map_of (pp_bcs p) i = Some sm \<longrightarrow> (if is_start_event bev then \<exists>msg. created_machine env i msg sm else Q sm)"
    using assms(3,4) by (auto simp: machines_ok_def dest: map_of_SomeD)
  from advance_publish_ok [OF assms(1,2) this _ assms(5)] assms(3,4) show ?thesis by simp
qed

lemma poll_publishes_ok:
  assumes "range_order ord"
  shows "pool_keyed p \<Longrightarrow> machines_ok None p \<Longrightarrow> poll_publishes env ord now skip is p = Some (res, p') \<Longrightarrow>
    pool_keyed p' \<and> machines_ok None p' \<and> pool_ids p' = pool_ids p - ended_publish res \<and>
    ended_publish res \<subseteq> pool_ids p"
proof (induction "is" arbitrary: p)
  case (Cons i "is")
  show ?case
  proof (cases "skip = Some i")
    case True
    with Cons show ?thesis by simp
  next
    case False
    with Cons.prems(3) obtain r q where step: "advance_publish env ord now i EventPublishPoll p = Some (r, q)"
      and rest: "case r of Some st \<Rightarrow> res = Some st \<and> p' = q | None \<Rightarrow> poll_publishes env ord now skip is q = Some (res, p')"
      by (auto split: option.splits)
    note one = poll_one_ok [OF Cons.prems(1) assms Cons.prems(2) _ step]
    show ?thesis
    proof (cases r)
      case None
      with one rest Cons.IH [of q] show ?thesis by simp
    next
      case (Some st)
      with one rest show ?thesis by simp
    qed
  qed
qed simp

lemma walk_publishes_ok:
  assumes "range_order ord" "pool_keyed p" "machines_ok None p" "walk_publishes env ord now skip p = Some (out, p')"
  shows "pool_keyed p' \<and> machines_ok None p' \<and> pool_ids p' = pool_ids p - ended_publish (Some out) \<and>
    ended_publish (Some out) \<subseteq> pool_ids p \<and> (out = PoolIdle \<longleftrightarrow> pool_ids p = {})"
proof (cases "pp_bcs p = []")
  case True
  with assms show ?thesis by (auto simp: walk_publishes_def)
next
  case False
  with assms(4) obtain res where poll: "poll_publishes env ord now skip (ord (map fst (pp_bcs p))) p = Some (res, p')"
    and out: "out = (case res of None \<Rightarrow> PoolWaiting (pp_next_due p') | Some st \<Rightarrow> st)"
    by (auto simp: walk_publishes_def split: option.splits)
  have "res \<noteq> Some PoolIdle" using poll by (rule poll_never_idle)
  with poll_publishes_ok [OF assms(1-3) poll] out False show ?thesis by (cases res) auto
qed

lemma publish_pool_advance_ok:
  assumes ord: "range_order ord" and wf: "pool_keyed p" "machines_ok None p"
    and adv: "publish_pool_advance env ord now ev p = Some (out, p')"
  shows "pool_keyed p' \<and> machines_ok None p' \<and>
    pool_ids p' = (pool_ids p \<union> started_publish env ev p) - ended_publish (Some out) \<and>
    ended_publish (Some out) \<subseteq> pool_ids p \<union> started_publish env ev p \<and>
    (out = PoolIdle \<longrightarrow> pool_ids p' = {})"
proof -
  let ?p = "p\<lparr>pp_next_due := zero_time\<rparr>"
  obtain addressed q where ev: "publish_pool_event env ev ?p = (addressed, q)" by fastforce
  have same: "started_publish env ev ?p = started_publish env ev p" by (rule started_publish_due)
  have wf': "pool_keyed ?p" "machines_ok None ?p" using wf by (simp_all add: pool_keyed_def machines_ok_def)
  show ?thesis
    using ev
  proof (cases rule: publish_pool_event_cases)
    case none
    with adv ev have "walk_publishes env ord now None ?p = Some (out, p')" by (simp add: publish_pool_advance_def)
    from walk_publishes_ok [OF ord wf' this] none same show ?thesis by auto
  next
    case (started i target msg sm)
    with adv ev obtain r q' where step: "advance_publish env ord now i (EventPublishStart target) q = Some (r, q')"
      and rest: "case r of Some st \<Rightarrow> out = st \<and> p' = q' | None \<Rightarrow> walk_publishes env ord now (Some i) q' = Some (out, p')"
      by (auto simp: publish_pool_advance_def split: option.splits prod.splits)
    have distinct: "distinct (map fst (pp_bcs p))" using wf by (simp add: pool_keyed_def)
    have "\<forall>(j, x) \<in> set (AList.update i sm (pp_bcs p)). machine_id x = j"
      using wf(1) created_machine_id [OF started(3)] by (intro update_entries [OF distinct]) (auto simp: pool_keyed_def)
    moreover have "\<forall>(j, x) \<in> set (AList.update i sm (pp_bcs p)). Some i \<noteq> Some j \<longrightarrow> Q x"
      using wf(2) by (intro update_entries [OF distinct]) (auto simp: machines_ok_def)
    ultimately have q: "pool_keyed q" "machines_ok (Some i) q" "pool_ids q = insert i (pool_ids p)"
      using distinct_update [OF distinct]
      by (auto simp: started(2) pool_keyed_def machines_ok_def update_keys_set)
    have "map_of (pp_bcs q) i = Some sm" by (simp add: started(2) update_conv')
    with started(3) have "\<forall>x. map_of (pp_bcs q) i = Some x \<longrightarrow>
        (if is_start_event (EventPublishStart target) then \<exists>msg. created_machine env i msg x else Q x)" by auto
    from advance_publish_ok [OF q(1) ord this _ step] q(2)
    have one: "pool_keyed q' \<and> machines_ok None q' \<and> pool_ids q' = pool_ids q - ended_publish r \<and>
      ended_publish r \<subseteq> pool_ids q" by simp
    show ?thesis
    proof (cases r)
      case None
      with one rest walk_publishes_ok [OF ord, of q'] q(3) started(4) same show ?thesis by auto
    next
      case (Some st)
      have "st \<noteq> PoolIdle" using advance_never_idle [OF step] Some by simp
      with Some one rest q(3) started(4) same show ?thesis by auto
    qed
  next
    case (delivered i bev)
    with adv ev obtain r q' where step: "advance_publish env ord now i bev ?p = Some (r, q')"
      and rest: "case r of Some st \<Rightarrow> out = st \<and> p' = q' | None \<Rightarrow> walk_publishes env ord now (Some i) q' = Some (out, p')"
      by (auto simp: publish_pool_advance_def split: option.splits prod.splits)
    note one = poll_one_ok [OF wf'(1) ord wf'(2) delivered(3) step]
    show ?thesis
    proof (cases r)
      case None
      with one rest walk_publishes_ok [OF ord, of q'] delivered(4) same show ?thesis by auto
    next
      case (Some st)
      have "st \<noteq> PoolIdle" using advance_never_idle [OF step] Some by simp
      with Some one rest delivered(4) same show ?thesis by auto
    qed
  qed
qed

end

section \<open>Pools that can arise\<close>

inductive publish_pool_reached ::
  "('k, 'n, 'tr) publish_env \<Rightarrow> ('k, 'n, 'm, 'tr) publish_pool \<Rightarrow> bool" for env where
  created: "new_publish_pool (pe_round env) self cfg = Inr p \<Longrightarrow> publish_pool_reached env p"
| advanced: "publish_pool_reached env p \<Longrightarrow> range_order ord \<Longrightarrow>
    publish_pool_advance env ord now ev p = Some (out, p') \<Longrightarrow> publish_pool_reached env p'"

lemma new_publish_pool_bcs: "new_publish_pool rnd self cfg = Inr p \<Longrightarrow> pp_bcs p = []"
  by (auto simp: new_publish_pool_def Let_def split: option.splits sum.splits)

context machine_contract
begin

lemma pool_machines: "publish_pool_reached env p \<Longrightarrow> pool_keyed p \<and> machines_ok None p"
proof (induction rule: publish_pool_reached.induct)
  case (created self cfg p)
  then show ?case by (simp add: new_publish_pool_bcs pool_keyed_def machines_ok_def)
next
  case (advanced p ord now ev out p')
  then show ?case using publish_pool_advance_ok [OF advanced(2) _ _ advanced(3)] by simp
qed

lemma pool_machine: "publish_pool_reached env p \<Longrightarrow> map_of (pp_bcs p) i = Some sm \<Longrightarrow> Q sm \<and> machine_id sm = i"
  using pool_machines [of p] by (auto simp: machines_ok_def pool_keyed_def dest: map_of_SomeD)

end

section \<open>The strategies keep the contract\<close>

text \<open>
  What the pool does with a machine is a run of its strategy. The run of a machine that follows a lookup up is
  only a run of a machine that was started once, since the lookup it sees may be that of another publish.
\<close>

definition machine_runs :: "('k, 'n, 'tr) publish_env \<Rightarrow> ('k, 'n, 'm) publish_machine \<Rightarrow> bool" where
  "machine_runs env sm \<longleftrightarrow>
     (case sm of
        PublishFollowUp f \<Rightarrow> True
      | PublishStatic f \<Rightarrow> \<exists>msg nodes asked stopped. static_run (pe_kad env) (sp_id f) msg nodes asked stopped f
      | PublishOptimistic f \<Rightarrow>
          \<exists>msg target ended.
            optimistic_run (pe_kad env) (pe_trie env) (pe_sort env) (pe_round env) (op_id f) msg target ended f)"

interpretation strategies: machine_contract env "machine_runs env" for env :: "('k, 'n, 'tr) publish_env"
proof
  fix i msg ord now target st
    and sm sm' :: "('k, 'n, 'm) publish_machine" and qp qp' :: "('k, 'n, 'm, 'tr) query_pool"
  assume created: "created_machine env i msg sm" and ord: "range_order ord"
    and adv: "machine_advance env ord now (EventPublishStart target) qp sm = Some (st, qp', sm')"
  show "machine_runs env sm'"
  proof (cases sm)
    case (PublishFollowUp f)
    with adv show ?thesis by (auto simp: machine_runs_def)
  next
    case (PublishStatic f)
    with adv obtain f' where f': "static_advance (pe_kad env) ord (EventPublishStart target) f = Some (st, f')"
      "sm' = PublishStatic f'" by auto
    from created PublishStatic obtain nodes cfg where "new_static i msg nodes cfg = Inr f" by (auto simp: created_machine_def)
    from static_run.started [OF this ord f'(1)] static_advance_id(1) [OF f'(1)] created_machine_id [OF created] PublishStatic f'(2)
    show ?thesis by (auto simp: machine_runs_def)
  next
    case (PublishOptimistic f)
    with adv obtain f' where f': "optimistic_advance (pe_kad env) (pe_trie env) (pe_sort env) (pe_round env) ord now
        (EventPublishStart target) qp f = Some (st, qp', f')" "sm' = PublishOptimistic f'" by auto
    from created PublishOptimistic obtain seeds size cfg where
      "new_optimistic (pe_round env) (pe_gamma_inv env) (pe_zero_key env) i msg seeds size cfg = Inr f"
      by (auto simp: created_machine_def)
    from optimistic_run.started [OF this ord f'(1)] optimistic_advance_id(1) [OF f'(1)] created_machine_id [OF created]
      PublishOptimistic f'(2)
    show ?thesis by (auto simp: machine_runs_def)
  qed
next
  fix ord now st and ev :: "('k, 'n, 'm) publish_event"
    and sm sm' :: "('k, 'n, 'm) publish_machine" and qp qp' :: "('k, 'n, 'm, 'tr) query_pool"
  assume run: "machine_runs env sm" and ord: "range_order ord" and ev: "\<not> is_start_event ev"
    and adv: "machine_advance env ord now ev qp sm = Some (st, qp', sm')"
  show "machine_runs env sm'"
  proof (cases sm)
    case (PublishFollowUp f)
    with adv show ?thesis by (auto simp: machine_runs_def)
  next
    case (PublishStatic f)
    with adv obtain f' where f': "static_advance (pe_kad env) ord ev f = Some (st, f')" "sm' = PublishStatic f'" by auto
    from run PublishStatic obtain msg nodes asked stopped where "static_run (pe_kad env) (sp_id f) msg nodes asked stopped f"
      by (auto simp: machine_runs_def)
    from static_run.advanced [OF this ord ev f'(1)] static_advance_id(1) [OF f'(1)] f'(2)
    show ?thesis by (auto simp: machine_runs_def)
  next
    case (PublishOptimistic f)
    with adv obtain f' where f': "optimistic_advance (pe_kad env) (pe_trie env) (pe_sort env) (pe_round env) ord now
        ev qp f = Some (st, qp', f')" "sm' = PublishOptimistic f'" by auto
    from run PublishOptimistic obtain msg target ended where
      "optimistic_run (pe_kad env) (pe_trie env) (pe_sort env) (pe_round env) (op_id f) msg target ended f"
      by (auto simp: machine_runs_def)
    from optimistic_run.advanced [OF this ord ev f'(1)] optimistic_advance_id(1) [OF f'(1)] f'(2)
    show ?thesis by (auto simp: machine_runs_def)
  qed
qed

section \<open>The properties\<close>

text \<open>
  C29: type. In every pool that can arise each publish is stored under the id it reports under, once, and has
  been driven by the pool the way its strategy requires: a machine publishing to fixed nodes, or storing during
  its walk, has been started once and advanced by other events since.
\<close>
theorem publish_pool_well_typed:
  assumes "publish_pool_reached env p"
  shows "distinct (map fst (pp_bcs p)) \<and>
    (\<forall>i f. map_of (pp_bcs p) i = Some (PublishFollowUp f) \<longrightarrow> fo_id f = i) \<and>
    (\<forall>i f. map_of (pp_bcs p) i = Some (PublishStatic f) \<longrightarrow> sp_id f = i \<and>
       (\<exists>msg nodes asked stopped. static_run (pe_kad env) i msg nodes asked stopped f)) \<and>
    (\<forall>i f. map_of (pp_bcs p) i = Some (PublishOptimistic f) \<longrightarrow> op_id f = i \<and>
       (\<exists>msg target ended.
          optimistic_run (pe_kad env) (pe_trie env) (pe_sort env) (pe_round env) i msg target ended f))"
proof -
  have distinct: "distinct (map fst (pp_bcs p))" using strategies.pool_machines [OF assms] by (simp add: pool_keyed_def)
  have "machine_id sm = i \<and> machine_runs env sm" if "map_of (pp_bcs p) i = Some sm" for i sm
    using strategies.pool_machine [OF assms that] by simp
  then have "(case sm of PublishFollowUp f \<Rightarrow> fo_id f = i
      | PublishStatic f \<Rightarrow> sp_id f = i \<and> (\<exists>msg nodes asked stopped. static_run (pe_kad env) i msg nodes asked stopped f)
      | PublishOptimistic f \<Rightarrow> op_id f = i \<and> (\<exists>msg target ended.
          optimistic_run (pe_kad env) (pe_trie env) (pe_sort env) (pe_round env) i msg target ended f))"
    if "map_of (pp_bcs p) i = Some sm" for i sm
    using that by (cases sm) (fastforce simp: machine_runs_def)+
  from this [of _ "PublishFollowUp _"] this [of _ "PublishStatic _"] this [of _ "PublishOptimistic _"]
  have "map_of (pp_bcs p) i = Some (PublishFollowUp f) \<Longrightarrow> fo_id f = i"
    "map_of (pp_bcs p) i = Some (PublishStatic s) \<Longrightarrow> sp_id s = i \<and>
       (\<exists>msg nodes asked stopped. static_run (pe_kad env) i msg nodes asked stopped s)"
    "map_of (pp_bcs p) i = Some (PublishOptimistic g) \<Longrightarrow> op_id g = i \<and>
       (\<exists>msg target ended.
          optimistic_run (pe_kad env) (pe_trie env) (pe_sort env) (pe_round env) i msg target ended g)" for i f s g
    by simp_all
  with distinct show ?thesis by (intro conjI allI impI) simp_all
qed


end
