(* ===== verification/OptimisticWitnesses.thy ===== *)
theory OptimisticWitnesses
  imports OptimisticTheorems QueryPoolTheorems
begin

text \<open>
  An optimistic publish of one replica on the tiny network: the walk finds a node inside the individual
  threshold, the record is stored with it while the walk goes on, and the walk ends with no nearer node.
\<close>

type_synonym tiny_optimistic = "(tiny_key, tiny_node, tiny_message) optimistic"

type_synonym tiny_publish_state = "(tiny_key, tiny_node, tiny_message) publish_state"

definition tiny_gamma_inv :: "rat \<Rightarrow> rat \<Rightarrow> rat option" where
  "tiny_gamma_inv a p = Some (a * p)"

definition tiny_optimistic_config :: optimistic_config where
  "tiny_optimistic_config = \<lparr>oc_tracer = True, oc_replication_factor = 1, oc_individual_certainty = 1 / 2,
     oc_set_strictness = 255 / 256\<rparr>"

abbreviation tiny_provide :: tiny_message where
  "tiny_provide \<equiv> \<lparr>tm_content = ''R'', tm_target = 1, tm_closer = []\<rparr>"

definition tiny_optimistic_new :: tiny_optimistic where
  "tiny_optimistic_new =
     projr (new_optimistic id tiny_gamma_inv 0 ''o'' tiny_provide [new_node 3] 8 (Some tiny_optimistic_config))"

abbreviation tiny_optimistic_advance ::
  "time \<Rightarrow> (tiny_key, tiny_node, tiny_message) publish_event \<Rightarrow> tiny_pool \<Rightarrow> tiny_optimistic \<Rightarrow>
     (tiny_publish_state \<times> tiny_pool \<times> tiny_optimistic) option" where
  "tiny_optimistic_advance \<equiv> optimistic_advance tiny_kad tiny_trie insertion_sort id (\<lambda>ks. ks)"

text \<open>The machine after some events, with the states it has reported and whether it then walks.\<close>

type_synonym tiny_optimistic_log =
  "((tiny_publish_state \<times> bool) list \<times> tiny_pool \<times> tiny_optimistic) option"

fun log_advance ::
  "(tiny_publish_state \<times> bool) list \<Rightarrow> (tiny_publish_state \<times> tiny_pool \<times> tiny_optimistic) option \<Rightarrow>
     tiny_optimistic_log" where
  "log_advance outs None = None"
| "log_advance outs (Some (out, qp, f)) = Some (outs @ [(out, op_walking f)], qp, f)"

fun log_step ::
  "time \<times> (tiny_key, tiny_node, tiny_message) publish_event \<Rightarrow> tiny_optimistic_log \<Rightarrow> tiny_optimistic_log" where
  "log_step ev None = None"
| "log_step (now, ev) (Some (outs, qp, f)) = log_advance outs (tiny_optimistic_advance now ev qp f)"

definition tiny_optimistic_log ::
  "(time \<times> (tiny_key, tiny_node, tiny_message) publish_event) list \<Rightarrow> tiny_optimistic_log" where
  "tiny_optimistic_log evs = fold log_step evs (Some ([], tiny_new_pool, tiny_optimistic_new))"

lemma log_step_Some:
  assumes "log_step (now, ev) l = Some (outs @ [(out, w)], qp', f')"
  obtains qp f where "l = Some (outs, qp, f)" "tiny_optimistic_advance now ev qp f = Some (out, qp', f')"
    "op_walking f' = w"
proof -
  from assms obtain outs0 qp f where l: "l = Some (outs0, qp, f)" by (cases l) auto
  with assms have "log_advance outs0 (tiny_optimistic_advance now ev qp f) = Some (outs @ [(out, w)], qp', f')" by simp
  then have "outs0 = outs" "tiny_optimistic_advance now ev qp f = Some (out, qp', f')" "op_walking f' = w"
    by (cases "tiny_optimistic_advance now ev qp f"; auto)+
  with l show thesis by (intro that) simp_all
qed

abbreviation tiny_answers :: "(time \<times> (tiny_key, tiny_node, tiny_message) publish_event) list" where
  "tiny_answers \<equiv>
     [(1, EventPublishStart 1), (2, EventPublishPoll),
      (3, EventPublishNodeResponse (new_node 3) []), (4, EventPublishStoreRecordSuccess (new_node 3) (Some tiny_provide) None)]"

definition tiny_ended_stats :: query_stats where
  "tiny_ended_stats = \<lparr>qs_start = 1, qs_end = 3, qs_requests = 1, qs_success = 1, qs_failure = 0\<rparr>"

lemma tiny_optimistic_outs:
  "map_option fst (tiny_optimistic_log tiny_answers) = Some
     ([(StatePublishFindCloser ''o'' (new_node 3) 1, True),
       (StatePublishStoreRecord ''o'' (new_node 3) tiny_provide, True), (StatePublishWaiting 0 ''o'', False),
       (StatePublishFinished ''o'' [new_node 3] [] tiny_ended_stats, False)])"
  by code_simp


text \<open>The steps behind the log.\<close>

lemma log_snoc:
  assumes "tiny_optimistic_log (evs @ [(now, ev)]) = Some (outs @ [(out, w)], qp', f')"
  shows "\<exists>qp f. tiny_optimistic_log evs = Some (outs, qp, f) \<and> tiny_optimistic_advance now ev qp f = Some (out, qp', f') \<and>
    op_walking f' = w"
proof -
  have "log_step (now, ev) (tiny_optimistic_log evs) = Some (outs @ [(out, w)], qp', f')"
    using assms by (simp add: tiny_optimistic_log_def)
  then show ?thesis by (rule log_step_Some) blast
qed

abbreviation tiny_started_log :: "(tiny_publish_state \<times> bool) list" where
  "tiny_started_log \<equiv> [(StatePublishFindCloser ''o'' (new_node 3) 1, True)]"

abbreviation tiny_asked_log :: "(tiny_publish_state \<times> bool) list" where
  "tiny_asked_log \<equiv> tiny_started_log @ [(StatePublishStoreRecord ''o'' (new_node 3) tiny_provide, True)]"

abbreviation tiny_waiting_log :: "(tiny_publish_state \<times> bool) list" where
  "tiny_waiting_log \<equiv> tiny_asked_log @ [(StatePublishWaiting 0 ''o'', False)]"

lemma tiny_optimistic_steps:
  "\<exists>qp1 f1 qp2 f2 qp3 f3 qp4 f4.
    tiny_optimistic_advance 1 (EventPublishStart 1) tiny_new_pool tiny_optimistic_new =
       Some (StatePublishFindCloser ''o'' (new_node 3) 1, qp1, f1) \<and>
    tiny_optimistic_advance 2 EventPublishPoll qp1 f1 = Some (StatePublishStoreRecord ''o'' (new_node 3) tiny_provide, qp2, f2) \<and>
    tiny_optimistic_advance 3 (EventPublishNodeResponse (new_node 3) []) qp2 f2 = Some (StatePublishWaiting 0 ''o'', qp3, f3) \<and>
    tiny_optimistic_advance 4 (EventPublishStoreRecordSuccess (new_node 3) (Some tiny_provide) None) qp3 f3 =
       Some (StatePublishFinished ''o'' [new_node 3] [] tiny_ended_stats, qp4, f4) \<and> op_walking f2"
proof -
  let ?evs1 = "[] @ [(1, EventPublishStart 1)]"
  let ?evs2 = "?evs1 @ [(2, EventPublishPoll)]"
  let ?evs3 = "?evs2 @ [(3, EventPublishNodeResponse (new_node 3) [])]"
  from tiny_optimistic_outs obtain qp4 f4 where "tiny_optimistic_log
      (?evs3 @ [(4, EventPublishStoreRecordSuccess (new_node 3) (Some tiny_provide) None)]) =
      Some (tiny_waiting_log @ [(StatePublishFinished ''o'' [new_node 3] [] tiny_ended_stats, False)], qp4, f4)"
    by auto
  from log_snoc [OF this] obtain qp3 f3 where log3: "tiny_optimistic_log ?evs3 = Some (tiny_waiting_log, qp3, f3)"
    and step4: "tiny_optimistic_advance 4 (EventPublishStoreRecordSuccess (new_node 3) (Some tiny_provide) None) qp3 f3 =
       Some (StatePublishFinished ''o'' [new_node 3] [] tiny_ended_stats, qp4, f4)" by blast
  from log_snoc [OF log3] obtain qp2 f2 where log2: "tiny_optimistic_log ?evs2 = Some (tiny_asked_log, qp2, f2)"
    and step3: "tiny_optimistic_advance 3 (EventPublishNodeResponse (new_node 3) []) qp2 f2 = Some (StatePublishWaiting 0 ''o'', qp3, f3)"
    by blast
  from log_snoc [OF log2] obtain qp1 f1 where log1: "tiny_optimistic_log ?evs1 = Some (tiny_started_log, qp1, f1)"
    and step2: "tiny_optimistic_advance 2 EventPublishPoll qp1 f1 = Some (StatePublishStoreRecord ''o'' (new_node 3) tiny_provide, qp2, f2)"
      "op_walking f2" by blast
  have "tiny_optimistic_log ?evs1 = Some ([] @ tiny_started_log, qp1, f1)" using log1 by simp
  from log_snoc [OF this] have "tiny_optimistic_advance 1 (EventPublishStart 1) tiny_new_pool tiny_optimistic_new =
       Some (StatePublishFindCloser ''o'' (new_node 3) 1, qp1, f1)"
    by (auto simp: tiny_optimistic_log_def)
  with step2 step3 step4 show ?thesis by blast
qed

lemma tiny_optimistic_created:
  "new_optimistic id tiny_gamma_inv 0 ''o'' tiny_provide [new_node 3] 8 (Some tiny_optimistic_config) = Inr tiny_optimistic_new"
  by (simp add: tiny_optimistic_new_def new_optimistic_def optimistic_config_validate_def tiny_optimistic_config_def
      optimistic_thresholds_def tiny_gamma_inv_def Let_def)

abbreviation tiny_optimistic_run :: "tiny_node list \<Rightarrow> tiny_optimistic \<Rightarrow> bool" where
  "tiny_optimistic_run \<equiv> optimistic_run tiny_kad tiny_trie insertion_sort id ''o'' tiny_provide 1"



end
