(* ===== verification/PublishPoolWitnesses.thy ===== *)
theory PublishPoolWitnesses
  imports PublishPoolTheorems OptimisticWitnesses
begin

text \<open>A pool on the tiny network that publishes one record to two fixed nodes.\<close>

definition tiny_env :: "(tiny_key, tiny_node, (tiny_key \<times> tiny_node node_status) list) publish_env" where
  "tiny_env = \<lparr>pe_kad = tiny_kad, pe_trie = tiny_trie, pe_sort = insertion_sort, pe_round = id,
     pe_gamma_inv = tiny_gamma_inv, pe_zero_key = 0\<rparr>"

type_synonym tiny_publish_pool =
  "(tiny_key, tiny_node, tiny_message, (tiny_key \<times> tiny_node node_status) list) publish_pool"

definition tiny_publish_pool_config :: publish_pool_config where
  "tiny_publish_pool_config = \<lparr>ppc_query = Some tiny_pool_config, ppc_optimistic = Some tiny_optimistic_config,
     ppc_tracer = True\<rparr>"

definition tiny_publish_pool :: tiny_publish_pool where
  "tiny_publish_pool = projr (new_publish_pool id (new_node 0) (Some tiny_publish_pool_config))"

lemma tiny_publish_pool_new: "new_publish_pool (pe_round tiny_env) (new_node 0) (Some tiny_publish_pool_config) = Inr tiny_publish_pool"
  by (simp add: tiny_publish_pool_def tiny_env_def new_publish_pool_def publish_pool_config_validate_def
      tiny_publish_pool_config_def optimistic_config_validate_def tiny_optimistic_config_def Let_def
      new_pool_def pool_config_validate_def tiny_pool_config_def)

lemma tiny_publish_pool_reached: "publish_pool_reached tiny_env tiny_publish_pool"
  by (rule publish_pool_reached.created [OF tiny_publish_pool_new])

abbreviation tiny_publish_pool_advance ::
  "time \<Rightarrow> (tiny_key, tiny_node, tiny_message) pub_pool_event \<Rightarrow> tiny_publish_pool \<Rightarrow>
     ((tiny_key, tiny_node, tiny_message) pub_pool_state \<times> tiny_publish_pool) option" where
  "tiny_publish_pool_advance \<equiv> publish_pool_advance tiny_env (\<lambda>ks. ks)"

abbreviation tiny_static_start :: "(tiny_key, tiny_node, tiny_message) pub_pool_event" where
  "tiny_static_start \<equiv> PoolStartStatic ''s'' 1 tiny_provide [new_node 4]"

abbreviation tiny_stored :: "(tiny_key, tiny_node, tiny_message) pub_pool_event" where
  "tiny_stored \<equiv> PoolStoreRecordSuccess ''s'' (new_node 4) (Some tiny_provide) None"

definition tiny_storing_pool :: tiny_publish_pool where
  "tiny_storing_pool = snd (the (tiny_publish_pool_advance 1 tiny_static_start tiny_publish_pool))"

definition tiny_stored_pool :: tiny_publish_pool where
  "tiny_stored_pool = snd (the (tiny_publish_pool_advance 2 tiny_stored tiny_storing_pool))"

lemma tiny_publish_starts:
  "map_option (\<lambda>(out, p). (out, map fst (pp_bcs p))) (tiny_publish_pool_advance 1 tiny_static_start tiny_publish_pool) =
     Some (PoolStoreRecord ''s'' (new_node 4) tiny_provide, [''s''])"
  by code_simp

lemma tiny_publish_ends:
  "map_option (\<lambda>(out, p). (out, map fst (pp_bcs p))) (tiny_publish_pool_advance 2 tiny_stored tiny_storing_pool) =
     Some (PoolPublishFinished ''s'' [new_node 4] [] zero_query_stats, [])"
  by code_simp

lemma tiny_storing_reached: "publish_pool_reached tiny_env tiny_storing_pool" "map fst (pp_bcs tiny_storing_pool) = [''s'']"
proof -
  from tiny_publish_starts obtain out p where adv: "tiny_publish_pool_advance 1 tiny_static_start tiny_publish_pool = Some (out, p)"
    "map fst (pp_bcs p) = [''s'']" by auto
  then have "tiny_storing_pool = p" by (simp add: tiny_storing_pool_def)
  with adv publish_pool_reached.advanced [OF tiny_publish_pool_reached range_order_id adv(1)]
  show "publish_pool_reached tiny_env tiny_storing_pool" "map fst (pp_bcs tiny_storing_pool) = [''s'']" by simp_all
qed

theorem publish_pool_well_typed_witness:
  "map fst (pp_bcs tiny_storing_pool) = [''s''] \<and> distinct (map fst (pp_bcs tiny_storing_pool))"
  using publish_pool_well_typed [OF tiny_storing_reached(1)] tiny_storing_reached(2) by simp


end
