(* ===== verification/Behaviour.thy ===== *)
theory Behaviour
  imports Publish
begin

text \<open>
  \<open>behaviour.go\<close>, \<open>event.go\<close> and the notifier of \<open>query.go\<close>: what the behaviours of the coordinator have in
  common. A behaviour runs state machines for the event loop. Other goroutines hand it events through a
  bounded queue; it keeps the events it has yet to hand out; it tells the event loop that it has work through
  a channel with room for one signal, here the flag \<open>bh_ready\<close>; and when it has none it arms a timer for the
  instant its machines next have some. The locks make each operation a single step. A context carries
  deadlines and traces to other packages and is left out.
\<close>

section \<open>Events\<close>

text \<open>
  The events the coordinator emits about a query or a publish. A nil message is \<open>None\<close>.
\<close>

record ('n, 'm) query_progressed =
  qe_activity :: activity_id
  qe_node :: 'n
  qe_response :: "'m option"
  qe_stats :: query_stats

record 'n query_finished =
  qf_activity :: activity_id
  qf_stats :: query_stats
  qf_closest :: "'n list"
  qf_err :: "go_error option"

record 'n publish_finished =
  pf_activity :: activity_id
  pf_contacted :: "'n list"
  pf_errors :: "'n failures"
  pf_query_stats :: query_stats
  pf_err :: "go_error option"

text \<open>
  The events the behaviours exchange, with the fields in the order of the source. A \<open>Notify\<close> field that
  holds a behaviour is the behaviour's address, one that holds a query monitor is the monitor's address; nil
  is \<open>None\<close>.
\<close>

datatype ('k, 'n, 'm) behaviour_event =
    EventStartBootstrap "'n list"
  | EventOutboundGetCloserNodes activity_id 'n 'k "nat option"
  | EventOutboundSendMessage activity_id 'n "'m option" "nat option"
  | EventStartMessageQuery activity_id 'k 'm "'n list" "nat option" int
  | EventStartFindCloserQuery activity_id 'k "'n list" "nat option" int
  | EventStopQuery activity_id
  | EventStartFollowUpPublish activity_id 'k 'm "'n list" "nat option"
  | EventStartStaticPublish activity_id 'k 'm "'n list" "nat option"
  | EventStartOptimisticPublish activity_id 'k 'm "'n list" int "nat option"
  | EventAddNode 'n
  | EventGetCloserNodesSuccess activity_id 'n 'k "'n list"
  | EventGetCloserNodesFailure activity_id 'n 'k go_error
  | EventSendMessageSuccess activity_id "'m option" 'n "'m option" "'n list"
  | EventSendMessageFailure activity_id "'m option" 'n go_error
  | EventQueryProgressed "('n, 'm) query_progressed"
  | EventQueryFinished "'n query_finished"
  | EventPublishFinished "'n publish_finished"
  | EventRoutingUpdated 'n
  | EventRoutingRemoved 'n
  | EventBootstrapFinished query_stats "go_error option"
  | EventNotifyConnectivity 'n
  | EventNotifyNonConnectivity 'n
  | EventRoutingPoll

section \<open>The inbound queue\<close>

record 'e inbound_queue =
  iq_events :: "'e list"
  iq_capacity :: int
  iq_depth :: int

definition new_inbound_queue :: "int \<Rightarrow> 'e inbound_queue" where
  "new_inbound_queue capacity = \<lparr>iq_events = [], iq_capacity = capacity, iq_depth = 0\<rparr>"

definition inbound_enqueue :: "'e \<Rightarrow> 'e inbound_queue \<Rightarrow> bool \<times> 'e inbound_queue" where
  "inbound_enqueue ce q =
     (if iq_capacity q \<le> int (length (iq_events q)) then (False, q)
      else (let q' = q\<lparr>iq_events := iq_events q @ [ce]\<rparr>
            in (True, q'\<lparr>iq_depth := int (length (iq_events q'))\<rparr>)))"

definition inbound_dequeue :: "'e inbound_queue \<Rightarrow> 'e option \<times> 'e inbound_queue" where
  "inbound_dequeue q =
     (case iq_events q of
        [] \<Rightarrow> (None, q)
      | ce # rest \<Rightarrow> (Some ce, q\<lparr>iq_events := rest, iq_depth := int (length rest)\<rparr>))"

definition inbound_empty :: "'e inbound_queue \<Rightarrow> bool" where
  "inbound_empty q \<longleftrightarrow> iq_depth q = 0"

section \<open>Channels\<close>

text \<open>
  A Go channel with a buffer. A receiver that is blocked on the channel takes the next value whatever the
  capacity is: \<open>ch_receivers\<close> is the number of values that blocked receivers have room for, and \<open>ch_buf\<close> holds
  every value sent that has not been received. A send on a closed channel and closing one panic, \<open>None\<close>.
\<close>

record 'a channel =
  ch_cap :: nat
  ch_receivers :: nat
  ch_buf :: "'a list"
  ch_closed :: bool

definition make_channel :: "nat \<Rightarrow> 'a channel" where
  "make_channel n = \<lparr>ch_cap = n, ch_receivers = 0, ch_buf = [], ch_closed = False\<rparr>"

definition has_room :: "'a channel \<Rightarrow> bool" where
  "has_room c \<longleftrightarrow> length (ch_buf c) < ch_cap c + ch_receivers c"

text \<open>A send in a \<open>select\<close> with a \<open>default\<close> clause: whether the value was sent.\<close>

definition try_send :: "'a \<Rightarrow> 'a channel \<Rightarrow> (bool \<times> 'a channel) option" where
  "try_send x c =
     (if ch_closed c then None
      else if has_room c then Some (True, c\<lparr>ch_buf := ch_buf c @ [x]\<rparr>)
      else Some (False, c))"

definition close_channel :: "'a channel \<Rightarrow> 'a channel option" where
  "close_channel c = (if ch_closed c then None else Some (c\<lparr>ch_closed := True\<rparr>))"

text \<open>
  \<open>Waiter\<close>: the flag \<open>done\<close> and the channel \<open>pending\<close>. \<open>Notify\<close> blocks while the channel has no room and
  the context of the work item is not done; \<open>cancelled\<close> says that the \<open>select\<close> took the context's case.
\<close>

record 'e waiter =
  wt_pending :: "'e channel"
  wt_done :: bool

datatype 'a outcome = Blocked | Panicked | Returned 'a

definition new_waiter :: "'e waiter" where
  "new_waiter = \<lparr>wt_pending = make_channel 1, wt_done = False\<rparr>"

definition waiter_notify :: "bool \<Rightarrow> 'e \<Rightarrow> 'e waiter \<Rightarrow> 'e waiter outcome" where
  "waiter_notify cancelled ev w =
     (if wt_done w \<or> cancelled then Returned w
      else case try_send ev (wt_pending w) of
        None \<Rightarrow> Panicked
      | Some (True, c) \<Rightarrow> Returned (w\<lparr>wt_pending := c\<rparr>)
      | Some (False, c) \<Rightarrow> Blocked)"

definition waiter_close :: "'e waiter \<Rightarrow> 'e waiter outcome" where
  "waiter_close w =
     (case close_channel (wt_pending w) of
        None \<Rightarrow> Panicked
      | Some c \<Rightarrow> Returned \<lparr>wt_pending = c, wt_done = True\<rparr>)"

section \<open>Monitors and notifiers\<close>

text \<open>
  A \<open>QueryMonitor\<close> is a pair of channels: \<open>QueryWaiter\<close> and \<open>PublishWaiter\<close> are its implementations, made with
  the capacity of the channel for progress.
\<close>

record ('p, 'e) monitor =
  mo_progressed :: "'p channel"
  mo_finished :: "'e channel"

definition new_monitor :: "nat \<Rightarrow> ('p, 'e) monitor" where
  "new_monitor n = \<lparr>mo_progressed = make_channel n, mo_finished = make_channel 1\<rparr>"

text \<open>A \<open>queryNotifier\<close>; its monitor is an address.\<close>

record 'p notifier =
  nt_monitor :: nat
  nt_pending :: "'p list"
  nt_stopping :: bool

definition new_notifier :: "nat \<Rightarrow> 'p notifier" where
  "new_notifier a = \<lparr>nt_monitor = a, nt_pending = [], nt_stopping = False\<rparr>"

definition try_notify_progressed ::
  "'p \<Rightarrow> 'p notifier \<Rightarrow> ('p, 'e) monitor \<Rightarrow> (bool \<times> 'p notifier \<times> ('p, 'e) monitor) option" where
  "try_notify_progressed ev w mo =
     (if nt_stopping w then Some (False, w, mo)
      else case try_send ev (mo_progressed mo) of
        None \<Rightarrow> None
      | Some (True, c) \<Rightarrow> Some (True, w, mo\<lparr>mo_progressed := c\<rparr>)
      | Some (False, c) \<Rightarrow> Some (False, w\<lparr>nt_pending := nt_pending w @ [ev]\<rparr>, mo))"

text \<open>
  The loop of \<open>DrainPending\<close>: the rest of the queue at the event that could not be sent, if there is one.
\<close>

fun drain_loop :: "'p list \<Rightarrow> 'p channel \<Rightarrow> ('p list option \<times> 'p channel) option" where
  "drain_loop [] c = Some (None, c)"
| "drain_loop (ce # rest) c =
     (case try_send ce c of
        None \<Rightarrow> None
      | Some (True, c') \<Rightarrow> drain_loop rest c'
      | Some (False, c') \<Rightarrow> Some (Some (ce # rest), c'))"

definition drain_pending ::
  "'p notifier \<Rightarrow> ('p, 'e) monitor \<Rightarrow> ('p notifier \<times> ('p, 'e) monitor) option" where
  "drain_pending w mo =
     (case drain_loop (nt_pending w) (mo_progressed mo) of
        None \<Rightarrow> None
      | Some (None, c) \<Rightarrow> Some (w, mo\<lparr>mo_progressed := c\<rparr>)
      | Some (Some rest, c) \<Rightarrow> Some (w\<lparr>nt_pending := rest\<rparr>, mo\<lparr>mo_progressed := c\<rparr>))"

definition notify_finished ::
  "'e \<Rightarrow> 'p notifier \<Rightarrow> ('p, 'e) monitor \<Rightarrow> ('p notifier \<times> ('p, 'e) monitor) option" where
  "notify_finished ev w mo =
     (case drain_pending (w\<lparr>nt_stopping := True\<rparr>) mo of
        None \<Rightarrow> None
      | Some (w1, mo1) \<Rightarrow>
          (case close_channel (mo_progressed mo1) of
             None \<Rightarrow> None
           | Some p \<Rightarrow>
               (case try_send ev (mo_finished mo1) of
                  None \<Rightarrow> None
                | Some (sent, f) \<Rightarrow>
                    map_option (\<lambda>f'. (w1, \<lparr>mo_progressed = p, mo_finished = f'\<rparr>)) (close_channel f))))"

section \<open>The state of a behaviour\<close>

record 'e behaviour =
  bh_ref :: nat
  bh_pending_outbound :: "'e list"
  bh_inbound :: "'e inbound_queue"
  bh_poll_again :: bool
  bh_ready :: bool
  bh_timer :: "time option"

definition new_behaviour :: "nat \<Rightarrow> int \<Rightarrow> 'e behaviour" where
  "new_behaviour a capacity = \<lparr>bh_ref = a, bh_pending_outbound = [], bh_inbound = new_inbound_queue capacity,
     bh_poll_again = False, bh_ready = False, bh_timer = None\<rparr>"

definition signal_ready :: "('e, 'z) behaviour_scheme \<Rightarrow> ('e, 'z) behaviour_scheme" where
  "signal_ready b = b\<lparr>bh_ready := True\<rparr>"

text \<open>
  \<open>readyTimer\<close>: the instant at which the timer will fire, if it is armed. \<open>now\<close> is the instant \<open>time.Until\<close>
  reads. The last definition is the firing itself, which the Go runtime does.
\<close>

definition timer_instant :: "time \<Rightarrow> time \<Rightarrow> time option" where
  "timer_instant now due = (if is_zero due then None else Some (time_add now (max (due - now) 1)))"

definition arm_timer :: "time \<Rightarrow> time \<Rightarrow> ('e, 'z) behaviour_scheme \<Rightarrow> ('e, 'z) behaviour_scheme" where
  "arm_timer now due b = b\<lparr>bh_timer := timer_instant now due\<rparr>"

definition timer_fires :: "time \<Rightarrow> ('e, 'z) behaviour_scheme \<Rightarrow> ('e, 'z) behaviour_scheme" where
  "timer_fires now b =
     (case bh_timer b of
        None \<Rightarrow> b
      | Some t \<Rightarrow> (if t \<le> now then (signal_ready b)\<lparr>bh_timer := None\<rparr> else b))"

text \<open>The event loop receives the signal, and then calls \<open>Perform\<close>.\<close>

definition take_ready :: "('e, 'z) behaviour_scheme \<Rightarrow> ('e, 'z) behaviour_scheme" where
  "take_ready b = b\<lparr>bh_ready := False\<rparr>"

text \<open>
  \<open>Notify\<close> of a behaviour, up to what it does with an event it drops: whether the event was queued.
\<close>

definition notify_inbound :: "'e \<Rightarrow> ('e, 'z) behaviour_scheme \<Rightarrow> bool \<times> ('e, 'z) behaviour_scheme" where
  "notify_inbound ev b =
     (case inbound_enqueue ev (bh_inbound b) of
        (False, q) \<Rightarrow> (False, b)
      | (True, q) \<Rightarrow> (True, signal_ready (b\<lparr>bh_inbound := q\<rparr>)))"

definition next_pending_inbound :: "('e, 'z) behaviour_scheme \<Rightarrow> 'e option \<times> ('e, 'z) behaviour_scheme" where
  "next_pending_inbound b = (case inbound_dequeue (bh_inbound b) of (ce, q) \<Rightarrow> (ce, b\<lparr>bh_inbound := q\<rparr>))"

definition next_pending_outbound :: "('e, 'z) behaviour_scheme \<Rightarrow> 'e option \<times> ('e, 'z) behaviour_scheme" where
  "next_pending_outbound b =
     (case bh_pending_outbound b of
        [] \<Rightarrow> (None, b)
      | ev # rest \<Rightarrow> (Some ev, b\<lparr>bh_pending_outbound := rest\<rparr>))"

definition queue_outbound :: "'e list \<Rightarrow> ('e, 'z) behaviour_scheme \<Rightarrow> ('e, 'z) behaviour_scheme" where
  "queue_outbound evs b = b\<lparr>bh_pending_outbound := bh_pending_outbound b @ evs\<rparr>"

text \<open>\<open>updateReadyStatus\<close>; the behaviours differ in the due time they arm the timer for.\<close>

definition update_ready_status ::
  "time \<Rightarrow> bool \<Rightarrow> time \<Rightarrow> ('e, 'z) behaviour_scheme \<Rightarrow> ('e, 'z) behaviour_scheme" where
  "update_ready_status now performed due b =
     (if performed \<or> bh_poll_again b \<or> length (bh_pending_outbound b) \<noteq> 0 then signal_ready b
      else if \<not> inbound_empty (bh_inbound b) then signal_ready b
      else arm_timer now due b)"

section \<open>Behaviours that notify\<close>

text \<open>
  The queries and publishes of a behaviour have notifiers, in a map keyed by the activity. The monitors they
  send to belong to the callers: \<open>nb_monitors\<close> is the store of them, which a caller changes when it receives.
\<close>

record ('e, 'p, 't) notifying = "'e behaviour" +
  nb_notifiers :: "(activity_id \<times> 'p notifier) list"
  nb_monitors :: "('p, 't) monitor list"
  nb_next_due :: time

definition add_notifier ::
  "activity_id \<Rightarrow> nat option \<Rightarrow> ('e, 'p, 't, 'z) notifying_scheme \<Rightarrow> ('e, 'p, 't, 'z) notifying_scheme" where
  "add_notifier i monitor b =
     (case monitor of
        None \<Rightarrow> b
      | Some a \<Rightarrow> b\<lparr>nb_notifiers := AList.update i (new_notifier a) (nb_notifiers b)\<rparr>)"

text \<open>An operation on the notifier of an activity, if it has one, and on the monitor it sends to.\<close>

definition with_notifier ::
  "activity_id \<Rightarrow> ('p notifier \<Rightarrow> ('p, 't) monitor \<Rightarrow> ('p notifier \<times> ('p, 't) monitor) option) \<Rightarrow>
     ('e, 'p, 't, 'z) notifying_scheme \<Rightarrow> ('e, 'p, 't, 'z) notifying_scheme option" where
  "with_notifier i f b =
     (case map_of (nb_notifiers b) i of
        None \<Rightarrow> Some b
      | Some w \<Rightarrow>
          (case f w (nb_monitors b ! nt_monitor w) of
             None \<Rightarrow> None
           | Some (w', mo) \<Rightarrow>
               Some (b\<lparr>nb_notifiers := AList.update i w' (nb_notifiers b),
                       nb_monitors := (nb_monitors b)[nt_monitor w := mo]\<rparr>)))"

definition notify_progress ::
  "activity_id \<Rightarrow> 'p \<Rightarrow> ('e, 'p, 't, 'z) notifying_scheme \<Rightarrow> ('e, 'p, 't, 'z) notifying_scheme option" where
  "notify_progress i ev b = with_notifier i (\<lambda>w mo. map_option snd (try_notify_progressed ev w mo)) b"

definition notify_end ::
  "activity_id \<Rightarrow> 't \<Rightarrow> ('e, 'p, 't, 'z) notifying_scheme \<Rightarrow> ('e, 'p, 't, 'z) notifying_scheme option" where
  "notify_end i ev b =
     map_option (\<lambda>b'. b'\<lparr>nb_notifiers := AList.delete i (nb_notifiers b')\<rparr>) (with_notifier i (notify_finished ev) b)"

text \<open>The loop over the notifiers at the start of \<open>Perform\<close>.\<close>

fun drain_notifiers ::
  "activity_id list \<Rightarrow> ('e, 'p, 't, 'z) notifying_scheme \<Rightarrow> ('e, 'p, 't, 'z) notifying_scheme option" where
  "drain_notifiers [] b = Some b"
| "drain_notifiers (i # is) b =
     (case with_notifier i drain_pending b of
        None \<Rightarrow> None
      | Some b' \<Rightarrow> drain_notifiers is b')"

text \<open>
  \<open>reportDropped\<close>: the caller of an operation that was dropped is told through a notifier made for it.
\<close>

definition report_dropped ::
  "nat option \<Rightarrow> 't \<Rightarrow> ('e, 'p, 't, 'z) notifying_scheme \<Rightarrow> ('e, 'p, 't, 'z) notifying_scheme option" where
  "report_dropped monitor ev b =
     (case monitor of
        None \<Rightarrow> Some b
      | Some a \<Rightarrow>
          map_option (\<lambda>(w, mo). b\<lparr>nb_monitors := (nb_monitors b)[a := mo]\<rparr>)
            (notify_finished ev (new_notifier a) (nb_monitors b ! a)))"

end
