(* ===== verification/QueryBehaviour.thy ===== *)
theory QueryBehaviour
  imports Behaviour QueryPool NetSize
begin

text \<open>
  \<open>query.go\<close>: the behaviour that runs the queries of the coordinator's callers in a query pool. The fields
  \<open>Logger\<close>, \<open>Tracer\<close> and \<open>Meter\<close> of a configuration say whether the value is set. The estimator of the
  network size is shared with the routing behaviour: \<open>qb_network_size\<close> is the estimator itself, which the
  other behaviour may change between two steps of this one. \<open>ts i\<close> is the \<open>i\<close>-th instant an operation reads
  from the clock, and \<open>None\<close> a panic.
\<close>

section \<open>Configuration\<close>

record query_behaviour_config =
  qbc_logger :: bool
  qbc_tracer :: bool
  qbc_meter :: bool
  qbc_network_size :: "estimator option"
  qbc_queue_capacity :: int
  qbc_concurrency :: int
  qbc_timeout :: duration
  qbc_request_concurrency :: int
  qbc_request_timeout :: duration

definition query_behaviour_config_validate :: "query_behaviour_config \<Rightarrow> go_error option" where
  "query_behaviour_config_validate cfg = first_error ''QueryConfig''
     [(\<not> qbc_logger cfg, ''logger must not be nil''),
      (\<not> qbc_tracer cfg, ''tracer must not be nil''),
      (\<not> qbc_meter cfg, ''meter must not be nil''),
      (qbc_queue_capacity cfg < 1, ''queue capacity must be greater than zero''),
      (qbc_concurrency cfg < 1, ''query concurrency must be greater than zero''),
      (qbc_timeout cfg < 1, ''query timeout must be greater than zero''),
      (qbc_request_concurrency cfg < 1, ''request concurrency must be greater than zero''),
      (qbc_request_timeout cfg < 1, ''request timeout must be greater than zero'')]"

definition default_query_behaviour_config :: query_behaviour_config where
  "default_query_behaviour_config =
     \<lparr>qbc_logger = True, qbc_tracer = True, qbc_meter = True, qbc_network_size = None, qbc_queue_capacity = 1024,
      qbc_concurrency = 3, qbc_timeout = 5 * minute, qbc_request_concurrency = 3, qbc_request_timeout = minute\<rparr>"

section \<open>The behaviour\<close>

record ('k, 'n, 'm, 'tr) query_behaviour =
    "(('k, 'n, 'm) behaviour_event, ('n, 'm) query_progressed, 'n query_finished) notifying" +
  qb_pool :: "('k, 'n, 'm, 'tr) query_pool"
  qb_network_size :: "estimator option"

text \<open>What the behaviour needs of packages that are not part of the repository.\<close>

record ('k, 'n, 'tr) query_env =
  qv_kad :: "('k, 'n) kad_ops"
  qv_trie :: "('k, 'n node_status, 'tr) trie_ops"
  qv_sort :: "('n \<Rightarrow> 'n \<Rightarrow> int) \<Rightarrow> 'n list \<Rightarrow> 'n list"

text \<open>
  \<open>NewQueryBehaviour\<close>: \<open>a\<close> is the address of the new behaviour and \<open>ms\<close> the monitors there are. The
  instruments of the meter are not modelled.
\<close>

definition new_query_behaviour ::
  "nat \<Rightarrow> (('n, 'm) query_progressed, 'n query_finished) monitor list \<Rightarrow> 'n \<Rightarrow> query_behaviour_config option \<Rightarrow>
     ('k, 'n, 'm, 'tr) query_behaviour go_result" where
  "new_query_behaviour a ms self cfg_opt =
     (case (case cfg_opt of None \<Rightarrow> None | Some cfg \<Rightarrow> query_behaviour_config_validate cfg) of
        Some e \<Rightarrow> Inl e
      | None \<Rightarrow>
          (let cfg = (case cfg_opt of None \<Rightarrow> default_query_behaviour_config | Some cfg \<Rightarrow> cfg);
               qp_cfg = default_pool_config
                 \<lparr>pc_concurrency := qbc_concurrency cfg, pc_timeout := qbc_timeout cfg,
                  pc_query_concurrency := qbc_request_concurrency cfg,
                  pc_request_timeout := qbc_request_timeout cfg, pc_tracer := qbc_tracer cfg\<rparr>
           in case new_pool self (Some qp_cfg) of
                Inl e \<Rightarrow> Inl (WrappedError ''query pool: '' e)
              | Inr pool \<Rightarrow>
                  Inr (notifying.extend
                    (behaviour.extend (new_behaviour a (qbc_queue_capacity cfg)) (notifying.fields [] ms zero_time))
                    (query_behaviour.fields pool (qbc_network_size cfg)))))"

section \<open>Receiving events\<close>

text \<open>The monitor that waits for the event a start event leads to, and the activity it is waiting for.\<close>

fun query_monitor :: "('k, 'n, 'm) behaviour_event \<Rightarrow> (activity_id \<times> nat option) option" where
  "query_monitor (EventStartFindCloserQuery i target seed monitor num) = Some (i, monitor)"
| "query_monitor (EventStartMessageQuery i target msg seed monitor num) = Some (i, monitor)"
| "query_monitor _ = None"

definition query_notify ::
  "('k, 'n, 'm) behaviour_event \<Rightarrow> ('k, 'n, 'm, 'tr) query_behaviour \<Rightarrow> ('k, 'n, 'm, 'tr) query_behaviour option" where
  "query_notify ev b =
     (case notify_inbound ev b of
        (True, b') \<Rightarrow> Some b'
      | (False, b') \<Rightarrow>
          (case query_monitor ev of
             None \<Rightarrow> Some b'
           | Some (i, monitor) \<Rightarrow>
               report_dropped monitor
                 \<lparr>qf_activity = i, qf_stats = zero_query_stats, qf_closest = [], qf_err = Some ErrEventDropped\<rparr> b'))"

section \<open>Advancing the pool\<close>

text \<open>What a state of the pool makes the behaviour do: the event it hands out, if any.\<close>

definition track_closest ::
  "('k, 'n, 'tr) query_env \<Rightarrow> time \<Rightarrow> 'k \<Rightarrow> 'n list \<Rightarrow> ('k, 'n, 'm, 'tr) query_behaviour \<Rightarrow>
     ('k, 'n, 'm, 'tr) query_behaviour" where
  "track_closest env now target closest b =
     (case qb_network_size b of
        None \<Rightarrow> b
      | Some e \<Rightarrow>
          (if 0 < length closest
           then b\<lparr>qb_network_size := Some (snd (track (qv_kad env) (qv_sort env) now target closest e))\<rparr>
           else b))"

fun query_pool_state ::
  "('k, 'n, 'tr) query_env \<Rightarrow> time \<Rightarrow> ('k, 'n, 'm) pool_state \<Rightarrow> ('k, 'n, 'm, 'tr) query_behaviour \<Rightarrow>
     (('k, 'n, 'm) behaviour_event option \<times> ('k, 'n, 'm, 'tr) query_behaviour) option" where
  "query_pool_state env now (StatePoolFindCloser i target n stats) b =
     Some (Some (EventOutboundGetCloserNodes i n target (Some (bh_ref b))), b)"
| "query_pool_state env now (StatePoolSendMessage i n msg stats) b =
     Some (Some (EventOutboundSendMessage i n msg (Some (bh_ref b))), b)"
| "query_pool_state env now (StatePoolWaitingAtCapacity due) b = Some (None, b\<lparr>nb_next_due := due\<rparr>)"
| "query_pool_state env now (StatePoolWaitingWithCapacity due) b = Some (None, b\<lparr>nb_next_due := due\<rparr>)"
| "query_pool_state env now (StatePoolQueryFinished i stats target closest) b =
     map_option (Pair None)
       (notify_end i \<lparr>qf_activity = i, qf_stats = stats, qf_closest = closest, qf_err = None\<rparr>
         (track_closest env now target closest b\<lparr>bh_poll_again := True\<rparr>))"
| "query_pool_state env now (StatePoolQueryTimeout i stats) b =
     map_option (Pair None)
       (notify_end i \<lparr>qf_activity = i, qf_stats = stats, qf_closest = [], qf_err = Some ErrQueryTimeout\<rparr>
         (b\<lparr>bh_poll_again := True\<rparr>))"
| "query_pool_state env now (StatePoolIdle due) b = Some (None, b\<lparr>nb_next_due := due\<rparr>)"

definition query_advance_pool ::
  "('k, 'n, 'tr) query_env \<Rightarrow> time \<Rightarrow> ('k, 'n, 'm) pool_event \<Rightarrow> ('k, 'n, 'm, 'tr) query_behaviour \<Rightarrow>
     (('k, 'n, 'm) behaviour_event option \<times> ('k, 'n, 'm, 'tr) query_behaviour) option" where
  "query_advance_pool env now ev b0 =
     (let b = b0\<lparr>bh_poll_again := False\<rparr>;
          (st, pool) = pool_advance (qv_kad env) (qv_trie env) now ev (qb_pool b)
      in query_pool_state env now st (b\<lparr>qb_pool := pool\<rparr>))"

section \<open>Performing\<close>

text \<open>
  The \<open>switch\<close> of \<open>performNextInbound\<close>: the command for the pool. A progress event carries the pool's
  statistics with the response counted.
\<close>

definition query_progress ::
  "activity_id \<Rightarrow> 'n \<Rightarrow> 'm option \<Rightarrow> ('k, 'n, 'm, 'tr) query_behaviour \<Rightarrow> ('n, 'm) query_progressed" where
  "query_progress i n resp b =
     (let stats = fst (pool_stats (qb_pool b) i)
      in \<lparr>qe_activity = i, qe_node = n, qe_response = resp, qe_stats = stats\<lparr>qs_success := qs_success stats + 1\<rparr>\<rparr>)"

fun query_command ::
  "('k, 'n, 'm) behaviour_event \<Rightarrow> ('k, 'n, 'm, 'tr) query_behaviour \<Rightarrow>
     (('k, 'n, 'm) pool_event \<times> ('k, 'n, 'm, 'tr) query_behaviour) option" where
  "query_command (EventStartFindCloserQuery i target seed monitor num) b =
     Some (EventPoolAddFindCloserQuery i target seed 0, add_notifier i monitor b)"
| "query_command (EventStartMessageQuery i target msg seed monitor num) b =
     Some (EventPoolAddQuery i target msg seed 0, add_notifier i monitor b)"
| "query_command (EventStopQuery i) b = Some (EventPoolStopQuery i, b)"
| "query_command (EventGetCloserNodesSuccess i n target closer) b =
     (let b1 = queue_outbound (map EventAddNode closer) b
      in map_option (Pair (EventPoolNodeResponse i n closer)) (notify_progress i (query_progress i n None b1) b1))"
| "query_command (EventGetCloserNodesFailure i n target err) b =
     Some (EventPoolNodeFailure i n err, queue_outbound [EventNotifyNonConnectivity n] b)"
| "query_command (EventSendMessageSuccess i req n resp closer) b =
     (let b1 = queue_outbound (map EventAddNode closer) b
      in map_option (Pair (EventPoolNodeResponse i n closer)) (notify_progress i (query_progress i n resp b1) b1))"
| "query_command (EventSendMessageFailure i req n err) b =
     Some (EventPoolNodeFailure i n err, queue_outbound [EventNotifyNonConnectivity n] b)"
| "query_command _ b = None"

definition query_perform_inbound ::
  "('k, 'n, 'tr) query_env \<Rightarrow> time \<Rightarrow> ('k, 'n, 'm, 'tr) query_behaviour \<Rightarrow>
     (('k, 'n, 'm) behaviour_event option \<times> ('k, 'n, 'm, 'tr) query_behaviour) option" where
  "query_perform_inbound env now b0 =
     (case next_pending_inbound b0 of
        (None, b) \<Rightarrow> Some (None, b)
      | (Some ev, b) \<Rightarrow>
          (case query_command ev b of
             None \<Rightarrow> None
           | Some (cmd, b') \<Rightarrow> query_advance_pool env now cmd b'))"

text \<open>\<open>Perform\<close> without the deferred call of \<open>updateReadyStatus\<close>.\<close>

definition query_perform_work ::
  "('k, 'n, 'tr) query_env \<Rightarrow> (activity_id list \<Rightarrow> activity_id list) \<Rightarrow> (nat \<Rightarrow> time) \<Rightarrow>
     ('k, 'n, 'm, 'tr) query_behaviour \<Rightarrow>
     (('k, 'n, 'm) behaviour_event option \<times> ('k, 'n, 'm, 'tr) query_behaviour) option" where
  "query_perform_work env ord ts b0 =
     (case drain_notifiers (ord (map fst (nb_notifiers b0))) b0 of
        None \<Rightarrow> None
      | Some b1 \<Rightarrow>
          (case next_pending_outbound b1 of
             (Some ev, b2) \<Rightarrow> Some (Some ev, b2)
           | (None, b2) \<Rightarrow>
               (case query_perform_inbound env (ts 0) b2 of
                  None \<Rightarrow> None
                | Some (Some ev, b3) \<Rightarrow> Some (Some ev, b3)
                | Some (None, b3) \<Rightarrow>
                    (case query_advance_pool env (ts 1) EventPoolPoll b3 of
                       None \<Rightarrow> None
                     | Some (Some ev, b4) \<Rightarrow> Some (Some ev, b4)
                     | Some (None, b4) \<Rightarrow> Some (next_pending_outbound b4)))))"

definition query_perform ::
  "('k, 'n, 'tr) query_env \<Rightarrow> (activity_id list \<Rightarrow> activity_id list) \<Rightarrow> (nat \<Rightarrow> time) \<Rightarrow>
     ('k, 'n, 'm, 'tr) query_behaviour \<Rightarrow>
     (('k, 'n, 'm) behaviour_event option \<times> ('k, 'n, 'm, 'tr) query_behaviour) option" where
  "query_perform env ord ts b =
     map_option (\<lambda>(out, b'). (out, update_ready_status (ts 2) (out \<noteq> None) (nb_next_due b') b'))
       (query_perform_work env ord ts b)"

end
