(* ===== verification/BehaviourTheorems.thy ===== *)
theory BehaviourTheorems
  imports Behaviour PublishFacts
begin

text \<open>
  What the parts of a behaviour do: the inbound queue is a bounded queue, a monitor is told of the end of its
  query once and its channels are closed, the timer wakes the behaviour. The locale \<open>performing\<close> is the contract
  of \<open>Behaviour.Perform\<close> with the event loop: after it, the behaviour has signalled that it has work, or it has
  none and its timer is armed.
\<close>

section \<open>The inbound queue\<close>

definition inbound_ok :: "'e inbound_queue \<Rightarrow> bool" where
  "inbound_ok q \<longleftrightarrow> iq_depth q = int (length (iq_events q))"

lemma inbound_ok_new [simp]: "inbound_ok (new_inbound_queue n)"
  by (simp add: inbound_ok_def new_inbound_queue_def)

lemma inbound_ok_enqueue: "inbound_ok q \<Longrightarrow> inbound_ok (snd (inbound_enqueue e q))"
  by (simp add: inbound_ok_def inbound_enqueue_def Let_def)

lemma inbound_ok_dequeue: "inbound_ok q \<Longrightarrow> inbound_ok (snd (inbound_dequeue q))"
  by (auto simp: inbound_ok_def inbound_dequeue_def split: list.splits)

lemma inbound_empty_iff: "inbound_ok q \<Longrightarrow> inbound_empty q \<longleftrightarrow> iq_events q = []"
  by (simp add: inbound_ok_def inbound_empty_def)

text \<open>A run of the queue: the events it accepted and those it gave out.\<close>

datatype 'e queue_op = Put 'e | Take

fun queue_run :: "'e queue_op list \<Rightarrow> 'e inbound_queue \<Rightarrow> 'e list \<times> 'e list \<times> 'e inbound_queue" where
  "queue_run [] q = ([], [], q)"
| "queue_run (Put e # ops) q =
     (case inbound_enqueue e q of
        (accepted, q') \<Rightarrow> (case queue_run ops q' of (ins, outs, q'') \<Rightarrow> (if accepted then e # ins else ins, outs, q'')))"
| "queue_run (Take # ops) q =
     (case inbound_dequeue q of
        (got, q') \<Rightarrow> (case queue_run ops q' of (ins, outs, q'') \<Rightarrow>
          (ins, (case got of None \<Rightarrow> outs | Some e \<Rightarrow> e # outs), q'')))"

lemma queue_run_fifo:
  "inbound_ok q \<Longrightarrow> int (length (iq_events q)) \<le> max 0 (iq_capacity q) \<Longrightarrow> queue_run ops q = (ins, outs, q') \<Longrightarrow>
     iq_events q @ ins = outs @ iq_events q' \<and> inbound_ok q' \<and> iq_capacity q' = iq_capacity q \<and>
     int (length (iq_events q')) \<le> max 0 (iq_capacity q)"
proof (induction ops arbitrary: q ins outs q')
  case (Cons op ops)
  show ?case
  proof (cases op)
    case (Put e)
    obtain accepted q1 where q1: "inbound_enqueue e q = (accepted, q1)" by fastforce
    obtain ins1 outs1 q2 where run: "queue_run ops q1 = (ins1, outs1, q2)" by (metis surj_pair)
    have "inbound_ok q1" using inbound_ok_enqueue [of q e] Cons.prems(1) q1 by simp
    moreover have "int (length (iq_events q1)) \<le> max 0 (iq_capacity q1)" "iq_capacity q1 = iq_capacity q"
      "iq_events q1 = iq_events q @ (if accepted then [e] else [])"
      using q1 Cons.prems(2) by (auto simp: inbound_enqueue_def Let_def split: if_splits)
    ultimately show ?thesis
      using Cons.IH [OF _ _ run] Cons.prems(3) Put q1 run by (auto split: if_splits)
  next
    case Take
    obtain got q1 where q1: "inbound_dequeue q = (got, q1)" by fastforce
    obtain ins1 outs1 q2 where run: "queue_run ops q1 = (ins1, outs1, q2)" by (metis surj_pair)
    have "inbound_ok q1" using inbound_ok_dequeue [of q] Cons.prems(1) q1 by simp
    moreover have "int (length (iq_events q1)) \<le> max 0 (iq_capacity q1)" "iq_capacity q1 = iq_capacity q"
      "iq_events q = (case got of None \<Rightarrow> [] | Some e \<Rightarrow> [e]) @ iq_events q1"
      using q1 Cons.prems(2) by (auto simp: inbound_dequeue_def split: list.splits)
    ultimately show ?thesis
      using Cons.IH [OF _ _ run] Cons.prems(3) Take q1 run by (auto split: option.splits)
  qed
qed auto

text \<open>
  C31: refinement. The inbound queue is a bounded queue, first in first out: whatever is put and taken, the
  events accepted are those given out followed by those it still holds, it never holds more than its capacity,
  it refuses an event only when it holds as many, and the depth that \<open>empty\<close> reads without the lock says
  that it is empty exactly when it is.
\<close>

theorem inbound_queue_fifo:
  assumes "queue_run ops (new_inbound_queue capacity) = (ins, outs, q)"
  shows "ins = outs @ iq_events q \<and> int (length (iq_events q)) \<le> max 0 capacity \<and>
    (fst (inbound_enqueue e q) \<longleftrightarrow> int (length (iq_events q)) < capacity) \<and>
    (inbound_empty q \<longleftrightarrow> iq_events q = [])"
  using queue_run_fifo [OF _ _ assms] inbound_empty_iff [of q]
  by (auto simp: new_inbound_queue_def inbound_ok_def inbound_enqueue_def Let_def)

theorem inbound_queue_fifo_witness:
  "queue_run [Put (1::int), Put 2, Put 3, Take, Put 4] (new_inbound_queue 2) =
     ([1, 2, 4], [1], \<lparr>iq_events = [2, 4], iq_capacity = 2, iq_depth = 2\<rparr>) \<and>
   [1, 2, 4] = [1::int] @ [2, 4] \<and> \<not> fst (inbound_enqueue 5 \<lparr>iq_events = [2, 4::int], iq_capacity = 2, iq_depth = 2\<rparr>)"
proof -
  have run: "queue_run [Put (1::int), Put 2, Put 3, Take, Put 4] (new_inbound_queue 2) =
     ([1, 2, 4], [1], \<lparr>iq_events = [2, 4], iq_capacity = 2, iq_depth = 2\<rparr>)"
    by (simp add: new_inbound_queue_def inbound_enqueue_def inbound_dequeue_def)
  with inbound_queue_fifo [OF run, of 5] show ?thesis by simp
qed

section \<open>Sending to a monitor\<close>

definition room :: "'a channel \<Rightarrow> nat" where
  "room c = ch_cap c + ch_receivers c - length (ch_buf c)"

lemma try_send_cases:
  "\<not> ch_closed c \<Longrightarrow> try_send x c = (if 0 < room c then Some (True, c\<lparr>ch_buf := ch_buf c @ [x]\<rparr>) else Some (False, c))"
  by (auto simp: try_send_def has_room_def room_def)

lemma drain_loop_sends:
  "\<not> ch_closed c \<Longrightarrow>
     drain_loop xs c = Some (if length xs \<le> room c then None else Some (drop (room c) xs),
       c\<lparr>ch_buf := ch_buf c @ take (room c) xs\<rparr>)"
proof (induction xs arbitrary: c)
  case (Cons x xs)
  show ?case
  proof (cases "0 < room c")
    case True
    then have "room (c\<lparr>ch_buf := ch_buf c @ [x]\<rparr>) = room c - 1" by (auto simp: room_def)
    with True Cons.IH [of "c\<lparr>ch_buf := ch_buf c @ [x]\<rparr>"] Cons.prems show ?thesis
      by (cases "room c") (auto simp: try_send_cases)
  qed (use Cons.prems in \<open>simp add: try_send_cases\<close>)
qed simp

lemma drain_loop_closed: "ch_closed c \<Longrightarrow> drain_loop xs c = (if xs = [] then Some (None, c) else None)"
  by (cases xs) (simp_all add: try_send_def)

lemma drain_pending_sends:
  assumes "\<not> ch_closed (mo_progressed mo)"
  shows "drain_pending w mo = Some
    (if length (nt_pending w) \<le> room (mo_progressed mo) then w
     else w\<lparr>nt_pending := drop (room (mo_progressed mo)) (nt_pending w)\<rparr>,
     mo\<lparr>mo_progressed := (mo_progressed mo)
       \<lparr>ch_buf := ch_buf (mo_progressed mo) @ take (room (mo_progressed mo)) (nt_pending w)\<rparr>\<rparr>)"
  using drain_loop_sends [OF assms, of "nt_pending w"] by (simp add: drain_pending_def)

text \<open>
  Safety, of a defect. \<open>DrainPending\<close> forgets the events it has sent only when one of them could not be
  sent: when there is room for all of them it sends all of them and keeps them queued, so that the next call
  sends them again.
\<close>

theorem drain_pending_resends:
  assumes "\<not> ch_closed (mo_progressed mo)" "2 * length (nt_pending w) \<le> room (mo_progressed mo)"
  shows "\<exists>mo1 mo2. drain_pending w mo = Some (w, mo1) \<and> drain_pending w mo1 = Some (w, mo2) \<and>
    ch_buf (mo_progressed mo1) = ch_buf (mo_progressed mo) @ nt_pending w \<and>
    ch_buf (mo_progressed mo2) = ch_buf (mo_progressed mo) @ nt_pending w @ nt_pending w"
proof -
  let ?mo1 = "mo\<lparr>mo_progressed := (mo_progressed mo)\<lparr>ch_buf := ch_buf (mo_progressed mo) @ nt_pending w\<rparr>\<rparr>"
  have 1: "drain_pending w mo = Some (w, ?mo1)"
    using assms(2) by (simp add: drain_pending_sends [OF assms(1)])
  have "room (mo_progressed ?mo1) = room (mo_progressed mo) - length (nt_pending w)" by (simp add: room_def)
  then have "drain_pending w ?mo1 = Some (w, ?mo1\<lparr>mo_progressed := (mo_progressed ?mo1)
      \<lparr>ch_buf := ch_buf (mo_progressed ?mo1) @ nt_pending w\<rparr>\<rparr>)"
    using assms by (subst drain_pending_sends) auto
  with 1 show ?thesis by fastforce
qed

definition tiny_monitor :: "(nat, nat) monitor" where
  "tiny_monitor = (new_monitor 2)\<lparr>mo_progressed := (make_channel 2)\<lparr>ch_buf := []\<rparr>\<rparr>"

theorem drain_pending_resends_witness:
  "\<exists>mo1 mo2. drain_pending \<lparr>nt_monitor = 0, nt_pending = [7], nt_stopping = False\<rparr> tiny_monitor =
      Some (\<lparr>nt_monitor = 0, nt_pending = [7], nt_stopping = False\<rparr>, mo1) \<and>
    drain_pending \<lparr>nt_monitor = 0, nt_pending = [7], nt_stopping = False\<rparr> mo1 =
      Some (\<lparr>nt_monitor = 0, nt_pending = [7], nt_stopping = False\<rparr>, mo2) \<and>
    ch_buf (mo_progressed mo2) = [7, 7]"
proof -
  have open': "\<not> ch_closed (mo_progressed tiny_monitor)" "room (mo_progressed tiny_monitor) = 2"
    "ch_buf (mo_progressed tiny_monitor) = []"
    by (simp_all add: tiny_monitor_def new_monitor_def make_channel_def room_def)
  from drain_pending_resends [OF open'(1), of "\<lparr>nt_monitor = 0, nt_pending = [7], nt_stopping = False\<rparr>"] open'
  show ?thesis by auto
qed

lemma close_channel_Some: "close_channel c = Some c' \<longleftrightarrow> \<not> ch_closed c \<and> c' = c\<lparr>ch_closed := True\<rparr>"
  by (auto simp: close_channel_def)

text \<open>
  Error behaviour. \<open>NotifyFinished\<close> panics exactly when one of the monitor's channels has been closed
  before. Otherwise it sends the events that are pending as far as there is room, in their order, then the
  terminal event if there is room for it, and leaves both channels closed: nothing can be sent after it.
\<close>

theorem notify_finished_outcome:
  "(notify_finished ev w mo = None \<longleftrightarrow> ch_closed (mo_progressed mo) \<or> ch_closed (mo_finished mo)) \<and>
   (\<forall>w' mo'. notify_finished ev w mo = Some (w', mo') \<longrightarrow>
      ch_buf (mo_progressed mo') =
        ch_buf (mo_progressed mo) @ take (room (mo_progressed mo)) (nt_pending w) \<and>
      ch_buf (mo_finished mo') = ch_buf (mo_finished mo) @ (if 0 < room (mo_finished mo) then [ev] else []) \<and>
      ch_closed (mo_progressed mo') \<and> ch_closed (mo_finished mo') \<and> nt_stopping w')"
proof (cases "ch_closed (mo_progressed mo)")
  case True
  then have "notify_finished ev w mo = None"
    by (auto simp: notify_finished_def drain_pending_def drain_loop_closed close_channel_def)
  with True show ?thesis by simp
next
  case False
  have drain: "drain_pending (w\<lparr>nt_stopping := True\<rparr>) mo = Some
    (if length (nt_pending w) \<le> room (mo_progressed mo) then w\<lparr>nt_stopping := True\<rparr>
     else w\<lparr>nt_stopping := True, nt_pending := drop (room (mo_progressed mo)) (nt_pending w)\<rparr>,
     mo\<lparr>mo_progressed := (mo_progressed mo)
       \<lparr>ch_buf := ch_buf (mo_progressed mo) @ take (room (mo_progressed mo)) (nt_pending w)\<rparr>\<rparr>)"
    using drain_pending_sends [OF False, of "w\<lparr>nt_stopping := True\<rparr>"] by simp
  show ?thesis
  proof (cases "ch_closed (mo_finished mo)")
    case True
    with False show ?thesis by (simp add: notify_finished_def drain close_channel_def try_send_def)
  next
    case open': False
    have "has_room (mo_finished mo) \<longleftrightarrow> 0 < room (mo_finished mo)" by (auto simp: has_room_def room_def)
    with False open' show ?thesis
      by (auto simp: notify_finished_def drain close_channel_def try_send_def)
  qed
qed

section \<open>The timer\<close>

text \<open>A timer is armed for an instant to come that is not before the due time, and its firing is a signal.\<close>

lemma timer_instant_wakes:
  "timer_instant now due = Some t \<Longrightarrow> now < t \<and> due \<le> t \<and> (now < due \<longrightarrow> t = due)"
  by (auto simp: timer_instant_def time_defs split: if_splits)

lemma timer_instant_None [simp]: "timer_instant now due = None \<longleftrightarrow> due = 0"
  by (simp add: timer_instant_def time_defs)

lemma timer_fires_ready: "bh_timer b = Some t \<Longrightarrow> t \<le> now \<Longrightarrow> bh_ready (timer_fires now b)"
  by (simp add: timer_fires_def signal_ready_def)

section \<open>What the steps of a behaviour leave alone\<close>

named_theorems behaviour_simps

lemma signal_ready_simps [behaviour_simps]:
  "bh_inbound (signal_ready b) = bh_inbound b" "bh_pending_outbound (signal_ready b) = bh_pending_outbound b"
  "bh_poll_again (signal_ready b) = bh_poll_again b" "bh_timer (signal_ready b) = bh_timer b"
  "bh_ready (signal_ready b)" "behaviour.more (signal_ready b) = behaviour.more b"
  by (simp_all add: signal_ready_def)

lemma update_ready_status_simps [behaviour_simps]:
  "bh_inbound (update_ready_status now p due b) = bh_inbound b"
  "bh_pending_outbound (update_ready_status now p due b) = bh_pending_outbound b"
  "bh_poll_again (update_ready_status now p due b) = bh_poll_again b"
  "behaviour.more (update_ready_status now p due b) = behaviour.more b"
  by (simp_all add: update_ready_status_def signal_ready_def arm_timer_def)

lemma next_pending_outbound_simps [behaviour_simps]:
  "bh_inbound (snd (next_pending_outbound b)) = bh_inbound b"
  "bh_poll_again (snd (next_pending_outbound b)) = bh_poll_again b"
  "behaviour.more (snd (next_pending_outbound b)) = behaviour.more b"
  by (simp_all add: next_pending_outbound_def split: list.splits)

lemma next_pending_outbound_None: "next_pending_outbound b = (None, b') \<longleftrightarrow> bh_pending_outbound b = [] \<and> b' = b"
  by (auto simp: next_pending_outbound_def split: list.splits)

lemma next_pending_inbound_simps [behaviour_simps]:
  "bh_pending_outbound (snd (next_pending_inbound b)) = bh_pending_outbound b"
  "bh_poll_again (snd (next_pending_inbound b)) = bh_poll_again b"
  "behaviour.more (snd (next_pending_inbound b)) = behaviour.more b"
  by (simp_all add: next_pending_inbound_def split: prod.splits)

lemma next_pending_inbound_ok: "inbound_ok (bh_inbound b) \<Longrightarrow> inbound_ok (bh_inbound (snd (next_pending_inbound b)))"
  using inbound_ok_dequeue [of "bh_inbound b"]
  by (cases "inbound_dequeue (bh_inbound b)") (simp add: next_pending_inbound_def)

lemma queue_outbound_simps [behaviour_simps]:
  "bh_inbound (queue_outbound evs b) = bh_inbound b"
  "bh_poll_again (queue_outbound evs b) = bh_poll_again b"
  "behaviour.more (queue_outbound evs b) = behaviour.more b"
  by (simp_all add: queue_outbound_def)

lemma notify_inbound_ok: "inbound_ok (bh_inbound b) \<Longrightarrow> inbound_ok (bh_inbound (snd (notify_inbound ev b)))"
  using inbound_ok_enqueue [of "bh_inbound b" ev] by (auto simp: notify_inbound_def behaviour_simps split: prod.splits bool.splits)

section \<open>The contract of performing\<close>

text \<open>
  \<open>perform c s\<close> is a call of \<open>Perform\<close> whose environment and clock are \<open>c\<close>, \<open>base\<close> the part of the state all
  behaviours have, \<open>due\<close> the instant the behaviour's machines next have work, \<open>armed_at\<close> the last reading of
  the clock.
\<close>

locale performing =
  fixes perform :: "'c \<Rightarrow> 's \<Rightarrow> ('e option \<times> 's) option"
    and base :: "'s \<Rightarrow> 'e behaviour"
    and due :: "'s \<Rightarrow> time"
    and armed_at :: "'c \<Rightarrow> time"
  assumes ends_with_status: "perform c s = Some (out, s') \<Longrightarrow>
      \<exists>b. base s' = update_ready_status (armed_at c) (out \<noteq> None) (due s') b"
    and keeps_queue: "perform c s = Some (out, s') \<Longrightarrow> inbound_ok (bh_inbound (base s)) \<Longrightarrow>
      inbound_ok (bh_inbound (base s'))"
begin

lemma awake:
  assumes "perform c s = Some (out, s')" "inbound_ok (bh_inbound (base s))" "\<not> bh_ready (base s')"
  shows "out = None \<and> \<not> bh_poll_again (base s') \<and> bh_pending_outbound (base s') = [] \<and>
    iq_events (bh_inbound (base s')) = [] \<and> bh_timer (base s') = timer_instant (armed_at c) (due s')"
proof -
  obtain b where b: "base s' = update_ready_status (armed_at c) (out \<noteq> None) (due s') b"
    using ends_with_status [OF assms(1)] by blast
  have "inbound_empty (bh_inbound (base s')) \<longleftrightarrow> iq_events (bh_inbound (base s')) = []"
    using inbound_empty_iff [OF keeps_queue [OF assms(1,2)]] .
  with assms(3) show ?thesis unfolding b
    by (auto simp: update_ready_status_def signal_ready_def arm_timer_def split: if_splits)
qed

text \<open>A behaviour that still has work is performed again: at once, or when its timer fires.\<close>

lemma wakes:
  assumes "perform c s = Some (out, s')" "inbound_ok (bh_inbound (base s))" "due s' \<noteq> 0"
  shows "bh_ready (base s') \<or> (\<exists>t. bh_timer (base s') = Some t \<and> armed_at c < t \<and>
    (armed_at c < due s' \<longrightarrow> t = due s') \<and> (\<forall>now \<ge> t. bh_ready (timer_fires now (base s'))))"
proof (cases "bh_ready (base s')")
  case False
  then have timer: "bh_timer (base s') = timer_instant (armed_at c) (due s')" using awake assms by blast
  with assms(3) obtain t where t: "timer_instant (armed_at c) (due s') = Some t"
    by (cases "timer_instant (armed_at c) (due s')") auto
  with timer timer_instant_wakes [OF t] timer_fires_ready [of "base s'" t] show ?thesis by auto
qed simp

end

end
