(* ===== verification/QueryBehaviourTheorems.thy ===== *)
theory QueryBehaviourTheorems
  imports QueryBehaviour BehaviourTheorems QueryPoolTheorems
begin

text \<open>
  The query behaviour keeps its pool well formed, has a waiter only for a query that its pool is running, and
  is always woken for the next thing its pool has to do.
\<close>

section \<open>What the operations on notifiers leave alone\<close>

lemma add_notifier_simps [behaviour_simps]:
  "bh_inbound (add_notifier i m b) = bh_inbound b" "bh_pending_outbound (add_notifier i m b) = bh_pending_outbound b"
  "bh_poll_again (add_notifier i m b) = bh_poll_again b" "nb_monitors (add_notifier i m b) = nb_monitors b"
  "notifying.more (add_notifier i m b) = notifying.more b"
  by (cases m; simp add: add_notifier_def)+

lemma add_notifier_other [behaviour_simps]:
  "j \<noteq> i \<Longrightarrow> map_of (nb_notifiers (add_notifier i m b)) j = map_of (nb_notifiers b) j"
  by (cases m) (simp_all add: add_notifier_def update_conv)

lemma with_notifier_keeps:
  assumes "with_notifier i f b = Some b'"
  shows "bh_inbound b' = bh_inbound b" "bh_pending_outbound b' = bh_pending_outbound b"
    "bh_poll_again b' = bh_poll_again b" "nb_next_due b' = nb_next_due b" "notifying.more b' = notifying.more b"
    "map_of (nb_notifiers b') j = None \<longleftrightarrow> map_of (nb_notifiers b) j = None"
  using assms by (auto simp: with_notifier_def update_conv split: option.splits if_splits)

lemmas notify_progress_keeps = with_notifier_keeps [of _ "\<lambda>w mo. map_option snd (try_notify_progressed ev w mo)" for ev,
    folded notify_progress_def]

lemma notify_end_keeps:
  assumes "notify_end i ev b = Some b'"
  shows "bh_inbound b' = bh_inbound b" "bh_pending_outbound b' = bh_pending_outbound b"
    "bh_poll_again b' = bh_poll_again b" "nb_next_due b' = nb_next_due b" "notifying.more b' = notifying.more b"
    "map_of (nb_notifiers b') j = None \<longleftrightarrow> j = i \<or> map_of (nb_notifiers b) j = None"
  using assms with_notifier_keeps [of i "notify_finished ev" b]
  by (auto simp: notify_end_def delete_conv split: if_splits)

lemma drain_notifiers_keeps:
  assumes "drain_notifiers is b = Some b'"
  shows "bh_inbound b' = bh_inbound b \<and> bh_pending_outbound b' = bh_pending_outbound b \<and>
    bh_poll_again b' = bh_poll_again b \<and> nb_next_due b' = nb_next_due b \<and> notifying.more b' = notifying.more b \<and>
    (\<forall>j. map_of (nb_notifiers b') j = None \<longleftrightarrow> map_of (nb_notifiers b) j = None)"
  using assms
proof (induction "is" arbitrary: b)
  case (Cons i "is")
  then obtain b1 where b1: "with_notifier i drain_pending b = Some b1" "drain_notifiers is b1 = Some b'"
    by (auto split: option.splits)
  from Cons.IH [OF b1(2)] with_notifier_keeps [OF b1(1)] show ?case by simp
qed simp

lemma report_dropped_keeps:
  assumes "report_dropped m ev b = Some b'"
  shows "bh_inbound b' = bh_inbound b" "notifying.more b' = notifying.more b" "nb_notifiers b' = nb_notifiers b"
  using assms by (auto simp: report_dropped_def split: option.splits)

section \<open>The pool has a query for every waiter\<close>

lemma pool_query_config_valid:
  "pool_config_validate cfg = None \<Longrightarrow> query_config_validate (pool_query_config cfg num) = None"
  by (auto simp: pool_config_validate_def query_config_validate_def pool_query_config_def default_query_config_def
      first_error_None_iff Let_def simp del: first_error.simps)

lemma new_query_error:
  "new_query kd io self i target msg it known (Some c) = Inl e \<Longrightarrow> query_config_validate c = Some e"
  by (cases "add_nodes kd io self known (it, [])") (auto simp: new_query_def Let_def split: option.splits)

lemma new_find_closer_query_error:
  "new_find_closer_query kd io self i target it known (Some c) = Inl e \<Longrightarrow> query_config_validate c = Some e"
  by (auto simp: new_find_closer_query_def dest: new_query_error split: sum.splits)

lemma insert_query_indexes: "(\<And>e. r \<noteq> Inl e) \<Longrightarrow> po_index (snd (insert_query i r p)) i \<noteq> None"
  by (cases r) (auto simp: insert_query_def)

lemma added_is_indexed:
  assumes "pool_config_validate (po_cfg p) = None" "adds_query ev = Some j"
    "handle_pool_event kd T now ev p = (r, skip, p1)"
  shows "po_index p1 j \<noteq> None \<and> r = None \<and> skip = InvalidActivityID"
proof (cases ev)
  case (EventPoolAddFindCloserQuery i target seed num)
  let ?r = "new_find_closer_query kd (closest_iter kd T) (po_self p) i target (new_closest_nodes_iter T target) seed
    (Some (pool_query_config (po_cfg p) num))"
  have "po_index (snd (insert_query i ?r p)) i \<noteq> None"
    using new_find_closer_query_error [of kd "closest_iter kd T"] pool_query_config_valid [OF assms(1), of num]
    by (intro insert_query_indexes) force+
  with assms EventPoolAddFindCloserQuery show ?thesis by (auto simp: adds_query_def pool_add_find_closer_def)
next
  case (EventPoolAddQuery i target msg seed num)
  let ?r = "new_query kd (closest_iter kd T) (po_self p) i target (Some msg) (new_closest_nodes_iter T target) seed
    (Some (pool_query_config (po_cfg p) num))"
  have "po_index (snd (insert_query i ?r p)) i \<noteq> None"
    using new_query_error [of kd "closest_iter kd T"] pool_query_config_valid [OF assms(1), of num]
    by (intro insert_query_indexes) force+
  with assms EventPoolAddQuery show ?thesis by (auto simp: adds_query_def pool_add_query_def)
qed (use assms in \<open>simp_all add: adds_query_def\<close>)

context kad_node_trie
begin

lemma pool_advance_adds:
  assumes wf: "pool_wf kd T ok p" and cfg: "pool_config_validate (po_cfg p) = None"
    and adv: "pool_advance kd T now ev p = (st, p')" and adds: "adds_query ev = Some j"
  shows "po_index p' j = None \<longrightarrow> leaving st = Some j"
proof -
  obtain r skip p1 where ev: "handle_pool_event kd T now ev (p\<lparr>po_in_flight := 0\<rparr>) = (r, skip, p1)" by (metis surj_pair)
  from added_is_indexed [OF _ adds ev] cfg have p1: "po_index p1 j \<noteq> None" "r = None" "skip = InvalidActivityID" by simp_all
  from wf have wf0: "pool_wf kd T ok (p\<lparr>po_in_flight := 0\<rparr>)" "po_in_flight (p\<lparr>po_in_flight := 0\<rparr>) = 0" by simp_all
  from handle_event_ok [OF wf0 ev] p1(2,3)
  have wf1: "pool_wf kd T ok p1" and flight: "po_in_flight p1 = 0 \<or>
      (po_in_flight p1 = 1 \<and> (\<exists>a \<in> active_queries p1. q_id (query_at p1 a) = skip))"
    by (auto simp: pool_step_ok_def)
  show ?thesis
  proof (cases "po_queries p1 = []")
    case True
    with adv ev p1 show ?thesis by (auto simp: pool_advance_def)
  next
    case False
    obtain r1 p2 where poll: "poll_queries kd T now skip (po_queries p1) p1 = (r1, p2)" by fastforce
    from poll_all_ok(1) [OF wf1 poll] flight p1(3) have step: "pool_step_ok kd T ok p1 r1 p2" by auto
    from adv ev p1(2) False poll have p': "p' = p2"
      "st = (case r1 of Some s \<Rightarrow> s | None \<Rightarrow> if 0 < po_in_flight p2
         then StatePoolWaitingWithCapacity (pool_next_due p2) else StatePoolIdle (pool_next_due p2))"
      by (auto simp: pool_advance_def split: option.splits if_splits)
    from step p1(1) p' show ?thesis
      by (cases r1) (auto simp: pool_step_ok_def split: option.splits if_splits)
  qed
qed

end

definition query_behaviour_ok ::
  "('k, 'n, 'tr) query_env \<Rightarrow> ('tr \<Rightarrow> bool) \<Rightarrow> ('k, 'n, 'm, 'tr) query_behaviour \<Rightarrow> bool" where
  "query_behaviour_ok env ok b \<longleftrightarrow>
     inbound_ok (bh_inbound b) \<and> pool_wf (qv_kad env) (qv_trie env) ok (qb_pool b) \<and>
     pool_config_validate (po_cfg (qb_pool b)) = None \<and>
     (\<forall>j. map_of (nb_notifiers b) j \<noteq> None \<longrightarrow> po_index (qb_pool b) j \<noteq> None)"

text \<open>The state that the pool reports, and what the behaviour makes of it.\<close>

lemma track_closest_keeps:
  "bh_inbound (track_closest env now t c b) = bh_inbound b"
  "bh_pending_outbound (track_closest env now t c b) = bh_pending_outbound b"
  "qb_pool (track_closest env now t c b) = qb_pool b" "nb_notifiers (track_closest env now t c b) = nb_notifiers b"
  "nb_monitors (track_closest env now t c b) = nb_monitors b"
  by (simp_all add: track_closest_def split: option.splits)

lemma qb_pool_more: "notifying.more b' = notifying.more b \<Longrightarrow> qb_pool b' = qb_pool (b :: ('k, 'n, 'm, 'tr) query_behaviour)"
  by (cases b; cases b') simp

lemma query_pool_state_keeps:
  assumes "query_pool_state env now st b = Some (out, b')"
  shows "bh_inbound b' = bh_inbound b" "qb_pool b' = qb_pool b" "bh_pending_outbound b' = bh_pending_outbound b"
    "map_of (nb_notifiers b') j = None \<longleftrightarrow> leaving st = Some j \<or> map_of (nb_notifiers b) j = None"
    "out = None \<Longrightarrow> bh_poll_again b' \<or> leaving st = None \<and> asking st = None \<and>
       st \<in> {StatePoolWaitingAtCapacity (nb_next_due b'), StatePoolWaitingWithCapacity (nb_next_due b'),
             StatePoolIdle (nb_next_due b')}"
proof -
  have "bh_inbound b' = bh_inbound b \<and> qb_pool b' = qb_pool b \<and> bh_pending_outbound b' = bh_pending_outbound b \<and>
    (map_of (nb_notifiers b') j = None \<longleftrightarrow> leaving st = Some j \<or> map_of (nb_notifiers b) j = None) \<and>
    (out = None \<longrightarrow> bh_poll_again b' \<or> leaving st = None \<and> asking st = None \<and>
       st \<in> {StatePoolWaitingAtCapacity (nb_next_due b'), StatePoolWaitingWithCapacity (nb_next_due b'),
             StatePoolIdle (nb_next_due b')})"
  proof (cases "leaving st")
    case None
    with assms show ?thesis by (cases st) auto
  next
    case (Some i)
    with assms obtain b1 ev where b1: "notify_end i ev b1 = Some b'" "out = None" "bh_poll_again b1"
      "bh_inbound b1 = bh_inbound b" "qb_pool b1 = qb_pool b" "bh_pending_outbound b1 = bh_pending_outbound b"
      "nb_notifiers b1 = nb_notifiers b"
      by (cases st) (auto simp: track_closest_keeps)
    with Some notify_end_keeps [OF b1(1)] qb_pool_more [of b' b1] show ?thesis by auto
  qed
  then show "bh_inbound b' = bh_inbound b" "qb_pool b' = qb_pool b" "bh_pending_outbound b' = bh_pending_outbound b"
    "map_of (nb_notifiers b') j = None \<longleftrightarrow> leaving st = Some j \<or> map_of (nb_notifiers b) j = None"
    "out = None \<Longrightarrow> bh_poll_again b' \<or> leaving st = None \<and> asking st = None \<and>
       st \<in> {StatePoolWaitingAtCapacity (nb_next_due b'), StatePoolWaitingWithCapacity (nb_next_due b'),
             StatePoolIdle (nb_next_due b')}" by simp_all
qed

lemma query_advance_pool_ok:
  assumes trie: "kad_node_trie (qv_kad env) (qv_trie env) ok"
    and ok: "inbound_ok (bh_inbound b)" "pool_wf (qv_kad env) (qv_trie env) ok (qb_pool b)"
      "pool_config_validate (po_cfg (qb_pool b)) = None"
      "\<forall>j. map_of (nb_notifiers b) j \<noteq> None \<longrightarrow> po_index (qb_pool b) j \<noteq> None \<or> adds_query ev = Some j"
    and adv: "query_advance_pool env now ev b = Some (out, b')"
  shows "query_behaviour_ok env ok b'"
    "out = None \<Longrightarrow> bh_poll_again b' \<or> nb_next_due b' = pool_next_due (qb_pool b')"
proof -
  obtain st pool where st: "pool_advance (qv_kad env) (qv_trie env) now ev (qb_pool b) = (st, pool)" by fastforce
  from adv st have state: "query_pool_state env now st (b\<lparr>bh_poll_again := False, qb_pool := pool\<rparr>) = Some (out, b')"
    by (simp add: query_advance_pool_def)
  note keeps = query_pool_state_keeps [OF state, simplified]
  from kad_node_trie.pool_advance_ok [OF trie ok(2) st]
  have pool: "pool_wf (qv_kad env) (qv_trie env) ok pool" "po_cfg pool = po_cfg (qb_pool b)"
    "pool_changed ev (qb_pool b) st pool" "waiting_ok st pool" by auto
  have "po_index pool j \<noteq> None" if "map_of (nb_notifiers b') j \<noteq> None" for j
  proof -
    from that keeps(4) have j: "leaving st \<noteq> Some j" "map_of (nb_notifiers b) j \<noteq> None" by auto
    show ?thesis
    proof (cases "adds_query ev = Some j")
      case True
      with kad_node_trie.pool_advance_adds [OF trie ok(2,3) st True] j show ?thesis by blast
    next
      case False
      with j ok(4) pool(3) show ?thesis by (auto simp: pool_changed_def)
    qed
  qed
  with pool ok keeps show "query_behaviour_ok env ok b'" by (simp add: query_behaviour_ok_def)
  show "out = None \<Longrightarrow> bh_poll_again b' \<or> nb_next_due b' = pool_next_due (qb_pool b')"
    using keeps(5) pool(4) keeps(2) by (auto simp: waiting_ok_def)
qed

section \<open>Performing\<close>

lemma query_command_ok:
  assumes ok: "query_behaviour_ok env ok b" and cmd: "query_command ev b = Some (cmd, b')"
  shows "inbound_ok (bh_inbound b') \<and> qb_pool b' = qb_pool b \<and>
    (\<forall>j. map_of (nb_notifiers b') j \<noteq> None \<longrightarrow> po_index (qb_pool b) j \<noteq> None \<or> adds_query cmd = Some j)"
proof -
  have more: "qb_pool (add_notifier i m b) = qb_pool b" "qb_pool (queue_outbound evs b) = qb_pool b" for i m evs
    by (simp_all add: add_notifier_def queue_outbound_def split: option.splits)
  have progress: ?thesis if "notify_progress i pe (queue_outbound evs b) = Some b'" "adds_query cmd = None" for i pe evs
    using ok notify_progress_keeps [OF that(1)] qb_pool_more [of b' "queue_outbound evs b"] that(2) more
    by (simp add: query_behaviour_ok_def behaviour_simps queue_outbound_def)
  show ?thesis
  proof (cases ev)
    case (EventStartMessageQuery i target msg seed m num)
    with cmd ok more show ?thesis
      by (clarsimp simp: query_behaviour_ok_def adds_query_def behaviour_simps)
  next
    case (EventStartFindCloserQuery i target seed m num)
    with cmd ok more show ?thesis
      by (clarsimp simp: query_behaviour_ok_def adds_query_def behaviour_simps)
  qed (use cmd ok progress more in
      \<open>auto simp: query_behaviour_ok_def adds_query_def behaviour_simps Let_def queue_outbound_def\<close>)
qed

lemma query_behaviour_ok_cong:
  "query_behaviour_ok env ok b \<Longrightarrow> bh_inbound b' = bh_inbound b \<Longrightarrow> qb_pool b' = qb_pool b \<Longrightarrow>
     (\<forall>j. map_of (nb_notifiers b') j = None \<longleftrightarrow> map_of (nb_notifiers b) j = None) \<Longrightarrow> query_behaviour_ok env ok b'"
  by (simp add: query_behaviour_ok_def)

lemma query_perform_inbound_ok:
  assumes trie: "kad_node_trie (qv_kad env) (qv_trie env) ok" and ok: "query_behaviour_ok env ok b"
    and "perform": "query_perform_inbound env now b = Some (out, b')"
  shows "query_behaviour_ok env ok b'"
proof -
  obtain ce b1 where next_in: "next_pending_inbound b = (ce, b1)" by fastforce
  from ok next_pending_inbound_ok [of b] next_in have ok1: "query_behaviour_ok env ok b1"
    by (auto simp: query_behaviour_ok_def next_pending_inbound_def split: prod.splits)
  show ?thesis
  proof (cases ce)
    case None
    with "perform" next_in ok1 show ?thesis by (simp add: query_perform_inbound_def)
  next
    case (Some ev)
    with "perform" next_in obtain cmd b2 where cmd: "query_command ev b1 = Some (cmd, b2)"
      "query_advance_pool env now cmd b2 = Some (out, b')"
      by (auto simp: query_perform_inbound_def split: option.splits)
    from query_command_ok [OF ok1 cmd(1)] ok1 query_advance_pool_ok(1) [OF trie _ _ _ _ cmd(2)]
    show ?thesis by (simp add: query_behaviour_ok_def)
  qed
qed

lemma query_perform_work_ok:
  assumes trie: "kad_node_trie (qv_kad env) (qv_trie env) ok" and ok: "query_behaviour_ok env ok b"
    and work: "query_perform_work env ord ts b = Some (out, b')"
  shows "query_behaviour_ok env ok b'"
    "out = None \<Longrightarrow> bh_poll_again b' \<or> nb_next_due b' = pool_next_due (qb_pool b')"
proof -
  from work obtain b1 where b1: "drain_notifiers (ord (map fst (nb_notifiers b))) b = Some b1"
    by (auto simp: query_perform_work_def split: option.splits)
  from drain_notifiers_keeps [OF b1] ok qb_pool_more [of b1 b] have ok1: "query_behaviour_ok env ok b1"
    by (intro query_behaviour_ok_cong [OF ok]) auto
  have out_ok: "query_behaviour_ok env ok (snd (next_pending_outbound b2))" if "query_behaviour_ok env ok b2" for b2
    using that by (auto simp: query_behaviour_ok_def next_pending_outbound_def split: list.splits)
  have "query_behaviour_ok env ok b' \<and>
    (out = None \<longrightarrow> bh_poll_again b' \<or> nb_next_due b' = pool_next_due (qb_pool b'))"
  proof (cases "next_pending_outbound b1")
    case (Pair e b2)
    with out_ok [OF ok1] have ok2: "query_behaviour_ok env ok b2" by simp
    show ?thesis
    proof (cases e)
      case (Some ev)
      with work b1 Pair ok2 show ?thesis by (auto simp: query_perform_work_def)
    next
      case None
      with work b1 Pair obtain e3 b3 where b3: "query_perform_inbound env (ts 0) b2 = Some (e3, b3)"
        by (auto simp: query_perform_work_def split: option.splits)
      note ok3 = query_perform_inbound_ok [OF trie ok2 b3]
      show ?thesis
      proof (cases e3)
        case (Some ev)
        with work b1 Pair None b3 ok3 show ?thesis by (auto simp: query_perform_work_def)
      next
        case e3: None
        with work b1 Pair None b3 obtain e4 b4 where b4: "query_advance_pool env (ts 1) EventPoolPoll b3 = Some (e4, b4)"
          "(out, b') = (case e4 of Some ev \<Rightarrow> (Some ev, b4) | None \<Rightarrow> next_pending_outbound b4)"
          by (auto simp: query_perform_work_def split: option.splits)
        have none: "adds_query EventPoolPoll = None" by (simp add: adds_query_def)
        note pool = query_advance_pool_ok [OF trie _ _ _ _ b4(1)]
        have ok4: "query_behaviour_ok env ok b4" "e4 = None \<Longrightarrow> bh_poll_again b4 \<or> nb_next_due b4 = pool_next_due (qb_pool b4)"
          using pool ok3 none by (auto simp: query_behaviour_ok_def)
        with b4(2) out_ok [OF ok4(1)] show ?thesis
          by (cases e4) (auto simp: next_pending_outbound_def split: list.splits)
      qed
    qed
  qed
  then show "query_behaviour_ok env ok b'"
    "out = None \<Longrightarrow> bh_poll_again b' \<or> nb_next_due b' = pool_next_due (qb_pool b')" by blast+
qed

section \<open>The contract with the event loop\<close>

lemma query_advance_pool_inbound: "query_advance_pool env now ev b = Some (out, b') \<Longrightarrow> bh_inbound b' = bh_inbound b"
  by (auto simp: query_advance_pool_def dest: query_pool_state_keeps(1) split: prod.splits)

lemma query_command_inbound: "query_command ev b = Some (cmd, b') \<Longrightarrow> bh_inbound b' = bh_inbound b"
  by (cases ev) (auto simp: behaviour_simps Let_def dest: notify_progress_keeps(1))

lemma query_perform_inbound_queue:
  assumes "query_perform_inbound env now b = Some (out, b')" "inbound_ok (bh_inbound b)"
  shows "inbound_ok (bh_inbound b')"
proof -
  obtain ce b1 where b1: "next_pending_inbound b = (ce, b1)" by fastforce
  with next_pending_inbound_ok [OF assms(2)] assms(1) show ?thesis
    using query_advance_pool_inbound query_command_inbound
    by (fastforce simp: query_perform_inbound_def split: option.splits)
qed

lemma query_perform_work_queue:
  assumes "query_perform_work env ord ts b = Some (out, b')" "inbound_ok (bh_inbound b)"
  shows "inbound_ok (bh_inbound b')"
proof -
  from assms(1) obtain b1 where b1: "drain_notifiers (ord (map fst (nb_notifiers b))) b = Some b1"
    by (auto simp: query_perform_work_def split: option.splits)
  obtain e b2 where b2: "next_pending_outbound b1 = (e, b2)" by fastforce
  from drain_notifiers_keeps [OF b1] assms(2) next_pending_outbound_simps(1) [of b1] b2
  have ok2: "inbound_ok (bh_inbound b2)" by simp
  have out: "bh_inbound b4 = bh_inbound b3" if "next_pending_outbound b3 = (e', b4)"
    for b3 b4 :: "('a, 'b, 'c, 'd) query_behaviour" and e'
    using next_pending_outbound_simps(1) [of b3] that by simp
  from assms(1) b1 b2 ok2 show ?thesis
    by (auto simp: query_perform_work_def split: option.splits
        dest!: query_advance_pool_inbound query_perform_inbound_queue out)
qed

lemma truncate_update_ready_status:
  "behaviour.truncate (update_ready_status now p d b) = update_ready_status now p d (behaviour.truncate b)"
  by (simp add: update_ready_status_def signal_ready_def arm_timer_def behaviour.truncate_def)

lemma truncate_fields [simp]:
  "bh_ready (behaviour.truncate b) = bh_ready b" "bh_inbound (behaviour.truncate b) = bh_inbound b"
  "bh_poll_again (behaviour.truncate b) = bh_poll_again b" "bh_timer (behaviour.truncate b) = bh_timer b"
  "bh_pending_outbound (behaviour.truncate b) = bh_pending_outbound b"
  by (simp_all add: behaviour.truncate_def)

lemma update_ready_status_next_due [simp]:
  "nb_next_due (update_ready_status now p d b) = nb_next_due b"
  "qb_pool (update_ready_status now p d b') = qb_pool b'"
  by (simp_all add: update_ready_status_def signal_ready_def arm_timer_def)

type_synonym ('k, 'n, 'tr) query_call = "('k, 'n, 'tr) query_env \<times> (activity_id list \<Rightarrow> activity_id list) \<times> (nat \<Rightarrow> time)"

fun query_performs ::
  "('k, 'n, 'tr) query_call \<Rightarrow> ('k, 'n, 'm, 'tr) query_behaviour \<Rightarrow>
     (('k, 'n, 'm) behaviour_event option \<times> ('k, 'n, 'm, 'tr) query_behaviour) option" where
  "query_performs (env, ord, ts) b = query_perform env ord ts b"

interpretation query_loop: performing query_performs behaviour.truncate nb_next_due "\<lambda>(env, ord, ts). ts 2"
proof (unfold_locales, goal_cases)
  case (1 c s out s')
  then obtain env ord ts b where c: "c = (env, ord, ts)" and b: "query_perform_work env ord ts s = Some (out, b)"
    "s' = update_ready_status (ts 2) (out \<noteq> None) (nb_next_due b) b"
    by (cases c) (auto simp: query_perform_def)
  then show ?case by (auto simp: truncate_update_ready_status)
next
  case (2 c s out s')
  then obtain env ord ts b where "query_perform_work env ord ts s = Some (out, b)"
    "s' = update_ready_status (ts 2) (out \<noteq> None) (nb_next_due b) b"
    by (cases c) (auto simp: query_perform_def)
  with 2(2) query_perform_work_queue show ?case by (auto simp: update_ready_status_simps)
qed

section \<open>The life of a behaviour\<close>

text \<open>
  What can happen to the behaviour: it is created, notified and performed; the event loop takes its signal and
  its timer fires; its callers receive from their monitors, and the routing behaviour changes the estimator.
\<close>

inductive query_behaviour_reached ::
  "('k, 'n, 'tr) query_env \<Rightarrow> ('k, 'n, 'm, 'tr) query_behaviour \<Rightarrow> bool" for env :: "('k, 'n, 'tr) query_env" where
  created: "new_query_behaviour a ms self cfg = Inr b \<Longrightarrow> query_behaviour_reached env b"
| notified: "query_behaviour_reached env b \<Longrightarrow> query_notify ev b = Some b' \<Longrightarrow> query_behaviour_reached env b'"
| performed: "query_behaviour_reached env b \<Longrightarrow> query_perform env ord ts b = Some (out, b') \<Longrightarrow>
    query_behaviour_reached env b'"
| taken: "query_behaviour_reached env b \<Longrightarrow> query_behaviour_reached env (take_ready b)"
| fired: "query_behaviour_reached env b \<Longrightarrow> query_behaviour_reached env (timer_fires now b)"
| received: "query_behaviour_reached env b \<Longrightarrow> query_behaviour_reached env (b\<lparr>nb_monitors := ms\<rparr>)"
| tracked: "query_behaviour_reached env b \<Longrightarrow> query_behaviour_reached env (b\<lparr>qb_network_size := e\<rparr>)"

lemma query_behaviour_reached_ok:
  assumes trie: "kad_node_trie (qv_kad env) (qv_trie env) ok"
  shows "query_behaviour_reached env b \<Longrightarrow> query_behaviour_ok env ok b"
proof (induction rule: query_behaviour_reached.induct)
  case (created a ms self cfg b)
  then obtain q_cfg pool where pool: "new_pool self (Some q_cfg) = Inr pool"
    and b: "bh_inbound b = new_inbound_queue (iq_capacity (bh_inbound b))" "nb_notifiers b = []" "qb_pool b = pool"
    by (auto simp: new_query_behaviour_def Let_def new_behaviour_def behaviour.defs notifying.defs
        query_behaviour.defs new_inbound_queue_def split: option.splits sum.splits)
  from pool have "pool_wf (qv_kad env) (qv_trie env) ok pool" "pool_config_validate (po_cfg pool) = None"
    by (auto simp: new_pool_def pool_wf_def split: option.splits)
  with b show ?case
    by (metis inbound_ok_new map_of.simps(1) query_behaviour_ok_def)
next
  case (notified b ev b')
  obtain q b1 where b1: "notify_inbound ev b = (q, b1)" by fastforce
  from notify_inbound_ok [of b ev] notified(3) b1
  have ok1: "query_behaviour_ok env ok b1"
    by (auto simp: query_behaviour_ok_def notify_inbound_def signal_ready_def split: prod.splits bool.splits)
  show ?case
  proof (cases "b' = b1")
    case False
    with notified(2) b1 obtain i m ev' where dropped: "report_dropped m ev' b1 = Some b'"
      by (auto simp: query_notify_def split: bool.splits option.splits)
    from report_dropped_keeps [OF dropped] qb_pool_more [of b' b1] show ?thesis
      by (intro query_behaviour_ok_cong [OF ok1]) auto
  qed (use ok1 in simp)
next
  case (performed b ord ts out b')
  then obtain b1 where "query_perform_work env ord ts b = Some (out, b1)"
    "b' = update_ready_status (ts 2) (out \<noteq> None) (nb_next_due b1) b1" by (auto simp: query_perform_def)
  with query_perform_work_ok(1) [OF trie performed(3)] show ?case
    by (auto simp: query_behaviour_ok_def update_ready_status_def signal_ready_def arm_timer_def)
qed (auto simp: query_behaviour_ok_def take_ready_def timer_fires_def signal_ready_def split: option.splits)


text \<open>
  C33: liveness. The query behaviour loses no wake-up: after every \<open>Perform\<close> either it has signalled that it has
  work, or it has handed out nothing, nothing is queued in it in either direction, and its timer is armed for
  the earliest instant at which one of its queries has something to do, if there is one.
\<close>

theorem query_behaviour_wakes:
  assumes "kad_node_trie (qv_kad env) (qv_trie env) ok" "query_behaviour_reached env b"
    "query_perform env ord ts b = Some (out, b')"
  shows "bh_ready b' \<or> (out = None \<and> bh_pending_outbound b' = [] \<and> iq_events (bh_inbound b') = [] \<and>
    bh_timer b' = (if pool_due_times (qb_pool b') = [] then None
      else timer_instant (ts 2) (Min (set (pool_due_times (qb_pool b'))))))"
proof (cases "bh_ready b'")
  case False
  note ok = query_behaviour_reached_ok [OF assms(1,2)]
  from assms(3) obtain b1 where b1: "query_perform_work env ord ts b = Some (out, b1)"
    "b' = update_ready_status (ts 2) (out \<noteq> None) (nb_next_due b1) b1" by (auto simp: query_perform_def)
  have "out = None \<and> \<not> bh_poll_again b' \<and> bh_pending_outbound b' = [] \<and> iq_events (bh_inbound b') = [] \<and>
      bh_timer b' = timer_instant (ts 2) (nb_next_due b')"
    using query_loop.awake [of "(env, ord, ts)" b out b'] assms(3) ok False
    by (simp add: query_behaviour_ok_def)
  with query_perform_work_ok(2) [OF assms(1) ok b1(1)] b1(2)
  show ?thesis by (auto simp: update_ready_status_simps pool_next_due_eq timer_instant_def is_zero_def zero_time_def)
qed simp

section \<open>The end of a query\<close>

text \<open>The event that tells a waiter of a state of the pool with which a query ends.\<close>

fun end_event :: "('k, 'n, 'm) pool_state \<Rightarrow> 'n query_finished option" where
  "end_event (StatePoolQueryFinished i stats target closest) =
     Some \<lparr>qf_activity = i, qf_stats = stats, qf_closest = closest, qf_err = None\<rparr>"
| "end_event (StatePoolQueryTimeout i stats) =
     Some \<lparr>qf_activity = i, qf_stats = stats, qf_closest = [], qf_err = Some ErrQueryTimeout\<rparr>"
| "end_event _ = None"

text \<open>
  C34: functional. When the pool ends a query that somebody waits for, by finishing it or by its timeout, the
  waiter is told: the result of the query, or that it timed out, is on the channel for the end if that had
  room, both channels of the monitor are closed, and the behaviour holds no waiter for the activity any more.
  The waiters of the other queries are as they were.
\<close>

theorem query_end_told:
  assumes "query_advance_pool env now cmd b = Some (out, b')"
    "fst (pool_advance (qv_kad env) (qv_trie env) now cmd (qb_pool b)) = st"
    "end_event st = Some ev" "map_of (nb_notifiers b) (qf_activity ev) = Some w"
    "nt_monitor w < length (nb_monitors b)"
  shows "out = None \<and> map_of (nb_notifiers b') (qf_activity ev) = None \<and>
    ch_buf (mo_finished (nb_monitors b' ! nt_monitor w)) = ch_buf (mo_finished (nb_monitors b ! nt_monitor w)) @
      (if 0 < room (mo_finished (nb_monitors b ! nt_monitor w)) then [ev] else []) \<and>
    ch_closed (mo_finished (nb_monitors b' ! nt_monitor w)) \<and>
    ch_closed (mo_progressed (nb_monitors b' ! nt_monitor w)) \<and>
    (\<forall>j. j \<noteq> qf_activity ev \<longrightarrow> map_of (nb_notifiers b') j = map_of (nb_notifiers b) j)"
proof -
  from assms(1-3) obtain b1 where b1: "notify_end (qf_activity ev) ev b1 = Some b'" "out = None"
    "nb_notifiers b1 = nb_notifiers b" "nb_monitors b1 = nb_monitors b"
    by (cases st) (auto simp: query_advance_pool_def track_closest_keeps split: prod.splits)
  then obtain w' mo' where told: "notify_finished ev w (nb_monitors b ! nt_monitor w) = Some (w', mo')"
    and b': "b' = b1\<lparr>nb_notifiers := AList.delete (qf_activity ev) (AList.update (qf_activity ev) w' (nb_notifiers b)),
      nb_monitors := (nb_monitors b)[nt_monitor w := mo']\<rparr>"
    using assms(4) by (auto simp: notify_end_def with_notifier_def split: option.splits)
  with notify_finished_outcome [of ev w "nb_monitors b ! nt_monitor w"] assms(5) b1(2)
  show ?thesis by (auto simp: delete_conv update_conv)
qed

text \<open>
  Safety, of a defect. A start event says how many nodes the caller wants to have contacted before the query
  may end; \<open>performNextInbound\<close> leaves it out of the command for the pool. Whatever the number is, what is done
  with the event is the same, and a query added without a number asks for the 20 of the default configuration.
\<close>

theorem query_num_results_ignored:
  "query_perform_inbound env now
     (b\<lparr>bh_inbound := q\<lparr>iq_events := EventStartFindCloserQuery i target seed monitor n # evs\<rparr>\<rparr>) =
   query_perform_inbound env now
     (b\<lparr>bh_inbound := q\<lparr>iq_events := EventStartFindCloserQuery i target seed monitor n' # evs\<rparr>\<rparr>) \<and>
   query_perform_inbound env now
     (b\<lparr>bh_inbound := q\<lparr>iq_events := EventStartMessageQuery i target msg seed monitor n # evs\<rparr>\<rparr>) =
   query_perform_inbound env now
     (b\<lparr>bh_inbound := q\<lparr>iq_events := EventStartMessageQuery i target msg seed monitor n' # evs\<rparr>\<rparr>) \<and>
   qc_num_results (pool_query_config cfg 0) = 20"
  by (simp add: query_perform_inbound_def next_pending_inbound_def inbound_dequeue_def pool_query_config_def
      default_query_config_def)

end
