(* ===== verification/QueryBehaviourWitnesses.thy ===== *)
theory QueryBehaviourWitnesses
  imports QueryBehaviourTheorems StaticPublishTheorems
begin

text \<open>The properties of the query behaviour on the tiny network, with one query that has a waiter.\<close>

type_synonym tiny_query_behaviour =
  "(tiny_key, tiny_node, tiny_message, (tiny_key \<times> tiny_node node_status) list) query_behaviour"

definition tiny_query_env :: "(tiny_key, tiny_node, (tiny_key \<times> tiny_node node_status) list) query_env" where
  "tiny_query_env = \<lparr>qv_kad = tiny_kad, qv_trie = tiny_trie, qv_sort = (\<lambda>cmp ns. ns)\<rparr>"

definition tiny_query_config :: query_behaviour_config where
  "tiny_query_config = \<lparr>qbc_logger = True, qbc_tracer = True, qbc_meter = True, qbc_network_size = None,
     qbc_queue_capacity = 4, qbc_concurrency = 1, qbc_timeout = 100, qbc_request_concurrency = 1,
     qbc_request_timeout = 10\<rparr>"

definition tiny_query_behaviour :: tiny_query_behaviour where
  "tiny_query_behaviour = projr (new_query_behaviour 0 [new_monitor 1] (new_node 0) (Some tiny_query_config))"

abbreviation tiny_query_start :: "(tiny_key, tiny_node, tiny_message) behaviour_event" where
  "tiny_query_start \<equiv> EventStartFindCloserQuery ''q'' 1 [new_node 2] (Some 0) 1"

definition tiny_query_queued :: tiny_query_behaviour where
  "tiny_query_queued = the (query_notify tiny_query_start tiny_query_behaviour)"

abbreviation tiny_query_perform ::
  "time \<Rightarrow> tiny_query_behaviour \<Rightarrow>
     ((tiny_key, tiny_node, tiny_message) behaviour_event option \<times> tiny_query_behaviour) option" where
  "tiny_query_perform now \<equiv> query_perform tiny_query_env (\<lambda>is. is) (\<lambda>i. now)"

definition tiny_query_asking :: tiny_query_behaviour where
  "tiny_query_asking = snd (the (tiny_query_perform 1 tiny_query_queued))"

definition tiny_query_waiting :: tiny_query_behaviour where
  "tiny_query_waiting = snd (the (tiny_query_perform 2 (take_ready tiny_query_asking)))"

lemma tiny_query_queues: "query_notify tiny_query_start tiny_query_behaviour = Some tiny_query_queued"
proof -
  have "query_notify tiny_query_start tiny_query_behaviour \<noteq> None" by code_simp
  then show ?thesis by (auto simp: tiny_query_queued_def)
qed

lemma tiny_query_asks:
  "map_option (\<lambda>(out, b). (out, map fst (nb_notifiers b), bh_ready b)) (tiny_query_perform 1 tiny_query_queued) =
     Some (Some (EventOutboundGetCloserNodes ''q'' (new_node 2) 1 (Some 0)), [''q''], True)"
  by code_simp

lemma tiny_query_waits:
  "map_option (\<lambda>(out, b). (out, bh_ready b, bh_timer b)) (tiny_query_perform 2 (take_ready tiny_query_asking)) =
     Some (None, False, Some 11)"
  by code_simp

lemma tiny_query_steps:
  "\<exists>out. tiny_query_perform 1 tiny_query_queued = Some (out, tiny_query_asking)"
  "tiny_query_perform 2 (take_ready tiny_query_asking) = Some (None, tiny_query_waiting)"
  "\<not> bh_ready tiny_query_waiting" "bh_timer tiny_query_waiting = Some 11"
  "map fst (nb_notifiers tiny_query_asking) = [''q'']"
  using tiny_query_asks tiny_query_waits
  by (auto simp: tiny_query_asking_def tiny_query_waiting_def)

lemma tiny_query_reached:
  "query_behaviour_reached tiny_query_env tiny_query_asking"
  "query_behaviour_reached tiny_query_env tiny_query_waiting"
proof -
  have new: "new_query_behaviour 0 [new_monitor 1] (new_node 0) (Some tiny_query_config) = Inr tiny_query_behaviour"
    by (simp add: tiny_query_behaviour_def new_query_behaviour_def query_behaviour_config_validate_def
        tiny_query_config_def default_pool_config_def new_pool_def pool_config_validate_def Let_def)
  obtain out where step: "tiny_query_perform 1 tiny_query_queued = Some (out, tiny_query_asking)"
    using tiny_query_steps(1) by blast
  show asking: "query_behaviour_reached tiny_query_env tiny_query_asking"
    using query_behaviour_reached.performed [OF query_behaviour_reached.notified [OF
        query_behaviour_reached.created [OF new] tiny_query_queues] step] .
  show "query_behaviour_reached tiny_query_env tiny_query_waiting"
    using query_behaviour_reached.performed [OF query_behaviour_reached.taken [OF asking] tiny_query_steps(2)] .
qed

lemma tiny_query_trie: "kad_node_trie (qv_kad tiny_query_env) (qv_trie tiny_query_env) list_trie_ok"
  using tiny_trie_spec by (simp add: tiny_query_env_def)


theorem query_behaviour_wakes_witness:
  "timer_instant 2 (Min (set (pool_due_times (qb_pool tiny_query_waiting)))) = Some 11"
  using query_behaviour_wakes [OF tiny_query_trie query_behaviour_reached.taken [OF tiny_query_reached(1)]
      tiny_query_steps(2)] tiny_query_steps(3,4)
  by (auto split: if_splits)

text \<open>The reply of the node ends the query.\<close>

definition tiny_query_told :: tiny_query_behaviour where
  "tiny_query_told = snd (the (query_advance_pool tiny_query_env 3 (EventPoolNodeResponse ''q'' (new_node 2) [])
     tiny_query_asking))"

definition tiny_query_result :: "tiny_node query_finished" where
  "tiny_query_result = \<lparr>qf_activity = ''q'', qf_stats = \<lparr>qs_start = 1, qs_end = 3, qs_requests = 1, qs_success = 1,
     qs_failure = 0\<rparr>, qf_closest = [new_node 2], qf_err = None\<rparr>"

definition tiny_query_end :: "(tiny_key, tiny_node, tiny_message) pool_state" where
  "tiny_query_end = fst (pool_advance (qv_kad tiny_query_env) (qv_trie tiny_query_env) 3
     (EventPoolNodeResponse ''q'' (new_node 2) []) (qb_pool tiny_query_asking))"

lemma tiny_query_ends: "end_event tiny_query_end = Some tiny_query_result"
  by code_simp

lemma tiny_query_tells:
  "query_advance_pool tiny_query_env 3 (EventPoolNodeResponse ''q'' (new_node 2) []) tiny_query_asking \<noteq> None \<and>
   map_of (nb_notifiers tiny_query_asking) ''q'' = Some (new_notifier 0) \<and>
   nb_monitors tiny_query_asking = [new_monitor 1]"
  by code_simp

theorem query_end_told_witness:
  "ch_buf (mo_finished (nb_monitors tiny_query_told ! 0)) = [tiny_query_result] \<and>
   map_of (nb_notifiers tiny_query_told) ''q'' = None"
proof -
  from tiny_query_tells obtain out where step: "query_advance_pool tiny_query_env 3
      (EventPoolNodeResponse ''q'' (new_node 2) []) tiny_query_asking = Some (out, tiny_query_told)"
    by (auto simp: tiny_query_told_def)
  have i: "qf_activity tiny_query_result = ''q''" by (simp add: tiny_query_result_def)
  have mo: "nt_monitor (new_notifier 0) < length (nb_monitors tiny_query_asking)"
    "room (mo_finished (nb_monitors tiny_query_asking ! 0)) = 1"
    "ch_buf (mo_finished (nb_monitors tiny_query_asking ! 0)) = []" "nt_monitor (new_notifier 0) = 0"
    using tiny_query_tells by (simp_all add: new_notifier_def new_monitor_def make_channel_def room_def)
  have w: "map_of (nb_notifiers tiny_query_asking) (qf_activity tiny_query_result) = Some (new_notifier 0)"
    using tiny_query_tells i by simp
  show ?thesis
    using query_end_told [OF step tiny_query_end_def [symmetric] tiny_query_ends w mo(1)] by (simp add: mo(2-) i)
qed

end
