(* ===== verification/NetworkBehaviour.thy ===== *)
theory NetworkBehaviour
  imports Behaviour PublishFacts
begin

text \<open>
  \<open>network.go\<close>: the behaviour that sends requests to other nodes. Each node has a handler, which sends the
  requests it has accepted one at a time from a goroutine of its own. A request holds a slot of the capacity all
  handlers share and one of its handler's from the moment it is accepted until it has been sent or discarded.

  A handler is an address into \<open>nw_heap\<close>, the handlers ever made; the map \<open>nw_handlers\<close> holds the address of
  the handler of each node. The mutex of the map and the channels make each of the operations below one
  step of the relation \<open>network_step\<close>: a call of \<open>Notify\<close> up to what it reports of a request it drops, the
  three branches of the \<open>select\<close> in \<open>run\<close> (taking a request, with the end of its sending a step of its own;
  offering itself to \<open>evictIdle\<close>; stopping) and \<open>Close\<close>. When the idle timer fires is not determined.
\<close>

section \<open>Configuration\<close>

record network_config =
  ntc_logger :: bool
  ntc_tracer :: bool
  ntc_meter :: bool
  ntc_capacity :: int
  ntc_node_capacity :: int
  ntc_idle_timeout :: duration

definition network_config_validate :: "network_config \<Rightarrow> go_error option" where
  "network_config_validate cfg = first_error ''NetworkConfig''
     [(\<not> ntc_logger cfg, ''logger must not be nil''),
      (\<not> ntc_tracer cfg, ''tracer must not be nil''),
      (\<not> ntc_meter cfg, ''meter must not be nil''),
      (ntc_capacity cfg < 1, ''capacity must be greater than zero''),
      (ntc_node_capacity cfg < 1, ''node capacity must be greater than zero''),
      (ntc_idle_timeout cfg < 1, ''idle timeout must be greater than zero'')]"

definition default_network_config :: network_config where
  "default_network_config = \<lparr>ntc_logger = True, ntc_tracer = True, ntc_meter = True, ntc_capacity = 256,
     ntc_node_capacity = 3, ntc_idle_timeout = minute\<rparr>"

section \<open>Slots\<close>

text \<open>The tokens of the channel \<open>tokens\<close>, and its capacity.\<close>

record slots =
  sl_held :: nat
  sl_capacity :: nat

definition new_slots :: "int \<Rightarrow> slots" where
  "new_slots n = \<lparr>sl_held = 0, sl_capacity = nat n\<rparr>"

definition slots_acquire :: "slots \<Rightarrow> bool \<times> slots" where
  "slots_acquire s =
     (if sl_held s < sl_capacity s then (True, s\<lparr>sl_held := sl_held s + 1\<rparr>) else (False, s))"

definition slots_release :: "slots \<Rightarrow> slots" where
  "slots_release s = (if 0 < sl_held s then s\<lparr>sl_held := sl_held s - 1\<rparr> else s)"

section \<open>The handlers\<close>

text \<open>
  \<open>nh_pending\<close> is the channel of the requests accepted, with room for \<open>nh_room\<close>; \<open>nh_sending\<close> is the request
  the goroutine is sending; \<open>nh_stopped\<close> says that the channel \<open>stop\<close> is closed, \<open>nh_done\<close> that the goroutine
  has returned.
\<close>

record ('k, 'n, 'm) node_handler =
  nh_self :: 'n
  nh_slots :: slots
  nh_pending :: "('k, 'n, 'm) behaviour_event list"
  nh_room :: nat
  nh_sending :: "('k, 'n, 'm) behaviour_event option"
  nh_stopped :: bool
  nh_done :: bool

record ('k, 'n, 'm) network =
  nw_cfg :: network_config
  nw_handlers :: "(string \<times> nat) list"
  nw_slots :: slots
  nw_pending :: "('k, 'n, 'm) behaviour_event list"
  nw_ready :: bool
  nw_heap :: "('k, 'n, 'm) node_handler list"

definition new_node_handler :: "'n \<Rightarrow> network_config \<Rightarrow> ('k, 'n, 'm) node_handler" where
  "new_node_handler self cfg = \<lparr>nh_self = self, nh_slots = new_slots (ntc_node_capacity cfg), nh_pending = [],
     nh_room = nat (ntc_node_capacity cfg), nh_sending = None, nh_stopped = False, nh_done = False\<rparr>"

definition new_network :: "network_config option \<Rightarrow> ('k, 'n, 'm) network go_result" where
  "new_network cfg_opt =
     (case (case cfg_opt of None \<Rightarrow> None | Some cfg \<Rightarrow> network_config_validate cfg) of
        Some e \<Rightarrow> Inl e
      | None \<Rightarrow>
          (let cfg = (case cfg_opt of None \<Rightarrow> default_network_config | Some cfg \<Rightarrow> cfg)
           in Inr \<lparr>nw_cfg = cfg, nw_handlers = [], nw_slots = new_slots (ntc_capacity cfg),
             nw_pending = [], nw_ready = False, nw_heap = []\<rparr>))"

abbreviation handler_at :: "('k, 'n, 'm) network \<Rightarrow> nat \<Rightarrow> ('k, 'n, 'm) node_handler" where
  "handler_at w a \<equiv> nw_heap w ! a"

text \<open>\<open>NodeHandler.Notify\<close>: \<open>None\<close> if the send to the channel blocks.\<close>

definition handler_notify ::
  "('k, 'n, 'm) behaviour_event \<Rightarrow> slots \<Rightarrow> ('k, 'n, 'm) node_handler \<Rightarrow>
     (bool \<times> slots \<times> ('k, 'n, 'm) node_handler) option" where
  "handler_notify ev shared h =
     (case slots_acquire shared of
        (False, shared') \<Rightarrow> Some (False, shared', h)
      | (True, shared') \<Rightarrow>
          (case slots_acquire (nh_slots h) of
             (False, own) \<Rightarrow> Some (False, slots_release shared', h\<lparr>nh_slots := own\<rparr>)
           | (True, own) \<Rightarrow>
               (if length (nh_pending h) < nh_room h
                then Some (True, shared', h\<lparr>nh_slots := own, nh_pending := nh_pending h @ [ev]\<rparr>)
                else None)))"

text \<open>\<open>notifyHandler\<close>: the handler is made if the node has none.\<close>

definition ensure_handler ::
  "('k, 'n) kad_ops \<Rightarrow> 'n \<Rightarrow> ('k, 'n, 'm) network \<Rightarrow> nat \<times> ('k, 'n, 'm) network" where
  "ensure_handler kd n w =
     (case map_of (nw_handlers w) (node_str kd n) of
        Some a \<Rightarrow> (a, w)
      | None \<Rightarrow>
          (length (nw_heap w),
           w\<lparr>nw_heap := nw_heap w @ [new_node_handler n (nw_cfg w)],
             nw_handlers := AList.update (node_str kd n) (length (nw_heap w)) (nw_handlers w)\<rparr>))"

definition notify_handler ::
  "('k, 'n) kad_ops \<Rightarrow> 'n \<Rightarrow> ('k, 'n, 'm) behaviour_event \<Rightarrow> ('k, 'n, 'm) network \<Rightarrow>
     (bool \<times> ('k, 'n, 'm) network) option" where
  "notify_handler kd n ev w =
     (case ensure_handler kd n w of
        (a, w1) \<Rightarrow>
          map_option (\<lambda>(accepted, shared, h). (accepted, w1\<lparr>nw_slots := shared, nw_heap := (nw_heap w1)[a := h]\<rparr>))
            (handler_notify ev (nw_slots w1) (handler_at w1 a)))"

text \<open>
  \<open>NetworkBehaviour.Notify\<close>: the failure it reports to whoever asked when the request is dropped. A command
  that is not a request panics, \<open>None\<close>, as does a send that blocks for ever.
\<close>

fun request_node :: "('k, 'n, 'm) behaviour_event \<Rightarrow> 'n option" where
  "request_node (EventOutboundGetCloserNodes i n target requester) = Some n"
| "request_node (EventOutboundSendMessage i n msg requester) = Some n"
| "request_node _ = None"

fun request_failure ::
  "go_error \<Rightarrow> ('k, 'n, 'm) behaviour_event \<Rightarrow> (nat \<times> ('k, 'n, 'm) behaviour_event) option" where
  "request_failure err (EventOutboundGetCloserNodes i n target (Some r)) =
     Some (r, EventGetCloserNodesFailure i n target err)"
| "request_failure err (EventOutboundSendMessage i n msg (Some r)) = Some (r, EventSendMessageFailure i msg n err)"
| "request_failure err _ = None"

definition network_notify ::
  "('k, 'n) kad_ops \<Rightarrow> ('k, 'n, 'm) behaviour_event \<Rightarrow> ('k, 'n, 'm) network \<Rightarrow>
     ((nat \<times> ('k, 'n, 'm) behaviour_event) option \<times> ('k, 'n, 'm) network) option" where
  "network_notify kd ev w =
     (case request_node ev of
        None \<Rightarrow> None
      | Some n \<Rightarrow>
          (case notify_handler kd n ev w of
             None \<Rightarrow> None
           | Some (accepted, w') \<Rightarrow>
               Some (if accepted then None else request_failure ErrRequestDropped ev,
                     if 0 < length (nw_pending w') then w'\<lparr>nw_ready := True\<rparr> else w')))"

text \<open>\<open>Perform\<close> hands out a queued event; no operation of the file queues one.\<close>

definition network_perform ::
  "('k, 'n, 'm) network \<Rightarrow> ('k, 'n, 'm) behaviour_event option \<times> ('k, 'n, 'm) network" where
  "network_perform w =
     (case nw_pending w of
        [] \<Rightarrow> (None, w)
      | ev # rest \<Rightarrow> (Some ev, w\<lparr>nw_pending := rest, nw_ready := nw_ready w \<or> 0 < length rest\<rparr>))"

section \<open>The goroutine of a handler\<close>

definition set_handler :: "nat \<Rightarrow> ('k, 'n, 'm) node_handler \<Rightarrow> ('k, 'n, 'm) network \<Rightarrow> ('k, 'n, 'm) network" where
  "set_handler a h w = w\<lparr>nw_heap := (nw_heap w)[a := h]\<rparr>"

text \<open>\<open>release\<close>.\<close>

definition handler_release :: "nat \<Rightarrow> ('k, 'n, 'm) network \<Rightarrow> ('k, 'n, 'm) network" where
  "handler_release a w =
     set_handler a ((handler_at w a)\<lparr>nh_slots := slots_release (nh_slots (handler_at w a))\<rparr>)
       (w\<lparr>nw_slots := slots_release (nw_slots w)\<rparr>)"

text \<open>
  \<open>send\<close>: what the handler reports of a request, given what the router returned: the nodes of
  \<open>GetClosestNodes\<close>, or the response of \<open>SendMessage\<close> with its closer nodes. A request with a nil
  \<open>Notify\<close> is not sent.
\<close>

fun send_report ::
  "'n \<Rightarrow> ('n list) go_result \<Rightarrow> ('m option \<times> 'n list) go_result \<Rightarrow> ('k, 'n, 'm) behaviour_event \<Rightarrow>
     (nat \<times> ('k, 'n, 'm) behaviour_event) option" where
  "send_report self nodes resp (EventOutboundGetCloserNodes i n target (Some r)) =
     Some (r, case nodes of
                Inl err \<Rightarrow> EventGetCloserNodesFailure i self target (WrappedError ''NodeHandler: '' err)
              | Inr ns \<Rightarrow> EventGetCloserNodesSuccess i self target ns)"
| "send_report self nodes resp (EventOutboundSendMessage i n msg (Some r)) =
     Some (r, case resp of
                Inl err \<Rightarrow> EventSendMessageFailure i msg self (WrappedError ''NodeHandler: '' err)
              | Inr (m, ns) \<Rightarrow> EventSendMessageSuccess i msg self m ns)"
| "send_report self nodes resp _ = None"

definition handler_take :: "nat \<Rightarrow> ('k, 'n, 'm) network \<Rightarrow> ('k, 'n, 'm) network" where
  "handler_take a w =
     (case nh_pending (handler_at w a) of
        [] \<Rightarrow> w
      | ev # rest \<Rightarrow> set_handler a ((handler_at w a)\<lparr>nh_pending := rest, nh_sending := Some ev\<rparr>) w)"

text \<open>
  The rest of that branch: the request is sent, unless its context is done, and its capacity is given back.
\<close>

definition handler_finish ::
  "nat \<Rightarrow> bool \<Rightarrow> ('n list) go_result \<Rightarrow> ('m option \<times> 'n list) go_result \<Rightarrow> ('k, 'n, 'm) network \<Rightarrow>
     (nat \<times> ('k, 'n, 'm) behaviour_event) option \<times> ('k, 'n, 'm) network" where
  "handler_finish a context_done nodes resp w =
     (case nh_sending (handler_at w a) of
        None \<Rightarrow> (None, w)
      | Some ev \<Rightarrow>
          (if context_done then None else send_report (nh_self (handler_at w a)) nodes resp ev,
           handler_release a (set_handler a ((handler_at w a)\<lparr>nh_sending := None\<rparr>) w)))"

text \<open>\<open>idle\<close>, \<open>Close\<close> of a handler and \<open>evictIdle\<close>.\<close>

definition handler_idle :: "('k, 'n, 'm) node_handler \<Rightarrow> bool" where
  "handler_idle h \<longleftrightarrow> sl_held (nh_slots h) = 0"

fun discard_pending :: "nat \<Rightarrow> nat \<Rightarrow> ('k, 'n, 'm) network \<Rightarrow> ('k, 'n, 'm) network" where
  "discard_pending 0 a w = w"
| "discard_pending (Suc n) a w =
     discard_pending n a
       (handler_release a (set_handler a ((handler_at w a)\<lparr>nh_pending := tl (nh_pending (handler_at w a))\<rparr>) w))"

definition handler_close :: "nat \<Rightarrow> ('k, 'n, 'm) network \<Rightarrow> ('k, 'n, 'm) network" where
  "handler_close a w =
     (if nh_stopped (handler_at w a) then w
      else discard_pending (length (nh_pending (handler_at w a))) a
             (set_handler a ((handler_at w a)\<lparr>nh_stopped := True\<rparr>) w))"

definition evict_idle :: "('k, 'n) kad_ops \<Rightarrow> nat \<Rightarrow> ('k, 'n, 'm) network \<Rightarrow> bool \<times> ('k, 'n, 'm) network" where
  "evict_idle kd a w =
     (let key = node_str kd (nh_self (handler_at w a))
      in if map_of (nw_handlers w) key \<noteq> Some a \<or> \<not> handler_idle (handler_at w a) then (False, w)
         else (True, handler_close a (w\<lparr>nw_handlers := AList.delete key (nw_handlers w)\<rparr>)))"

text \<open>The idle timer's branch, and \<open>NetworkBehaviour.Close\<close>, which visits the handlers in the order \<open>ord\<close>.\<close>

definition handler_done :: "nat \<Rightarrow> ('k, 'n, 'm) network \<Rightarrow> ('k, 'n, 'm) network" where
  "handler_done a w = set_handler a ((handler_at w a)\<lparr>nh_done := True\<rparr>) w"

definition handler_timeout :: "('k, 'n) kad_ops \<Rightarrow> nat \<Rightarrow> ('k, 'n, 'm) network \<Rightarrow> ('k, 'n, 'm) network" where
  "handler_timeout kd a w = (case evict_idle kd a w of (removed, w') \<Rightarrow> if removed then handler_done a w' else w')"

definition network_close :: "(string list \<Rightarrow> string list) \<Rightarrow> ('k, 'n, 'm) network \<Rightarrow> ('k, 'n, 'm) network" where
  "network_close ord w =
     (fold (\<lambda>(key, a). handler_close a) (map_range ord (nw_handlers w)) w)\<lparr>nw_handlers := []\<rparr>"

section \<open>The steps of the network\<close>

text \<open>
  A goroutine that is in its \<open>select\<close> sends nothing and has not returned.
\<close>

definition selecting :: "nat \<Rightarrow> ('k, 'n, 'm) network \<Rightarrow> bool" where
  "selecting a w \<longleftrightarrow> a < length (nw_heap w) \<and> nh_sending (handler_at w a) = None \<and> \<not> nh_done (handler_at w a)"

inductive network_step :: "('k, 'n) kad_ops \<Rightarrow> ('k, 'n, 'm) network \<Rightarrow> ('k, 'n, 'm) network \<Rightarrow> bool"
  for kd :: "('k, 'n) kad_ops" where
  notify: "network_notify kd ev w = Some (out, w') \<Longrightarrow> network_step kd w w'"
| take: "selecting a w \<Longrightarrow> nh_pending (handler_at w a) \<noteq> [] \<Longrightarrow> network_step kd w (handler_take a w)"
| finish: "a < length (nw_heap w) \<Longrightarrow> nh_sending (handler_at w a) \<noteq> None \<Longrightarrow>
    network_step kd w (snd (handler_finish a context_done nodes resp w))"
| timeout: "selecting a w \<Longrightarrow> network_step kd w (handler_timeout kd a w)"
| stop: "selecting a w \<Longrightarrow> nh_stopped (handler_at w a) \<Longrightarrow> network_step kd w (handler_done a w)"
| perform: "network_step kd w (snd (network_perform (w\<lparr>nw_ready := False\<rparr>)))"
| close: "range_order ord \<Longrightarrow> network_step kd w (network_close ord w)"

inductive network_reached :: "('k, 'n) kad_ops \<Rightarrow> ('k, 'n, 'm) network \<Rightarrow> bool" for kd :: "('k, 'n) kad_ops" where
  created: "new_network cfg = Inr w \<Longrightarrow> network_reached kd w"
| stepped: "network_reached kd w \<Longrightarrow> network_step kd w w' \<Longrightarrow> network_reached kd w'"

end
