(* ===== verification/NetworkTheorems.thy ===== *)
theory NetworkTheorems
  imports NetworkBehaviour Tiny
begin

text \<open>
  The network behaviour never has more requests outstanding than its capacity, never blocks the event loop that
  hands it requests, and evicts no handler that has a request left.
\<close>

section \<open>What holds of the handlers\<close>

definition outstanding :: "('k, 'n, 'm) node_handler \<Rightarrow> nat" where
  "outstanding h = length (nh_pending h) + (if nh_sending h = None then 0 else 1)"

definition handler_ok :: "nat \<Rightarrow> ('k, 'n, 'm) node_handler \<Rightarrow> bool" where
  "handler_ok c h \<longleftrightarrow>
     sl_held (nh_slots h) = outstanding h \<and> sl_capacity (nh_slots h) = c \<and> nh_room h = c \<and> outstanding h \<le> c \<and>
     (nh_stopped h \<longrightarrow> nh_pending h = []) \<and> (nh_done h \<longrightarrow> nh_stopped h \<and> nh_sending h = None)"

text \<open>The slots and the handlers ever made; and the handlers the map holds.\<close>

definition heap_ok :: "('k, 'n, 'm) network \<Rightarrow> bool" where
  "heap_ok w \<longleftrightarrow>
     (\<forall>h \<in> set (nw_heap w). handler_ok (nat (ntc_node_capacity (nw_cfg w))) h) \<and>
     sl_held (nw_slots w) = sum_list (map outstanding (nw_heap w)) \<and>
     sl_capacity (nw_slots w) = nat (ntc_capacity (nw_cfg w)) \<and> sl_held (nw_slots w) \<le> sl_capacity (nw_slots w)"

definition registered_ok :: "('k, 'n) kad_ops \<Rightarrow> ('k, 'n, 'm) network \<Rightarrow> bool" where
  "registered_ok kd w \<longleftrightarrow>
     (\<forall>k a. map_of (nw_handlers w) k = Some a \<longrightarrow>
        a < length (nw_heap w) \<and> node_str kd (nh_self (handler_at w a)) = k \<and> \<not> nh_stopped (handler_at w a)) \<and>
     distinct (map fst (nw_handlers w)) \<and> nw_pending w = []"

lemma sum_outstanding_update:
  "a < length hs \<Longrightarrow>
     sum_list (map outstanding (hs[a := h])) + outstanding (hs ! a) = sum_list (map outstanding hs) + outstanding h"
proof (induction hs arbitrary: a)
  case (Cons x hs)
  then show ?case by (cases a) auto
qed simp

lemma heap_ok_set:
  assumes ok: "heap_ok w" and a: "a < length (nw_heap w)"
    and h: "handler_ok (nat (ntc_node_capacity (nw_cfg w))) h"
    and s: "sl_capacity s = sl_capacity (nw_slots w)" "sl_held s \<le> sl_capacity s"
      "sl_held s + outstanding (handler_at w a) = sl_held (nw_slots w) + outstanding h"
  shows "heap_ok (w\<lparr>nw_slots := s, nw_heap := (nw_heap w)[a := h]\<rparr>)"
proof -
  have "\<forall>g \<in> set ((nw_heap w)[a := h]). handler_ok (nat (ntc_node_capacity (nw_cfg w))) g"
    using ok h set_update_subset_insert [of "nw_heap w" a h] by (auto simp: heap_ok_def)
  with ok s sum_outstanding_update [OF a, of h] show ?thesis by (simp add: heap_ok_def)
qed

lemma heap_ok_handler: "heap_ok w \<Longrightarrow> a < length (nw_heap w) \<Longrightarrow>
    handler_ok (nat (ntc_node_capacity (nw_cfg w))) (handler_at w a)"
  by (simp add: heap_ok_def)

text \<open>A request that is outstanding holds a slot of the network.\<close>

lemma outstanding_le_held: "heap_ok w \<Longrightarrow> a < length (nw_heap w) \<Longrightarrow> outstanding (handler_at w a) \<le> sl_held (nw_slots w)"
  by (metis heap_ok_def elem_le_sum_list length_map nth_map)

section \<open>Closing a handler\<close>

lemma discard_pending_eq:
  "a < length (nw_heap w) \<Longrightarrow> n \<le> length (nh_pending (handler_at w a)) \<Longrightarrow>
     n \<le> sl_held (nh_slots (handler_at w a)) \<Longrightarrow> n \<le> sl_held (nw_slots w) \<Longrightarrow>
     discard_pending n a w = w\<lparr>nw_slots := (nw_slots w)\<lparr>sl_held := sl_held (nw_slots w) - n\<rparr>,
       nw_heap := (nw_heap w)[a := (handler_at w a)
         \<lparr>nh_pending := drop n (nh_pending (handler_at w a)),
          nh_slots := (nh_slots (handler_at w a))\<lparr>sl_held := sl_held (nh_slots (handler_at w a)) - n\<rparr>\<rparr>]\<rparr>"
proof (induction n arbitrary: w)
  case (Suc n)
  let ?h = "handler_at w a"
  let ?w = "handler_release a (set_handler a (?h\<lparr>nh_pending := tl (nh_pending ?h)\<rparr>) w)"
  have w: "?w = w\<lparr>nw_slots := (nw_slots w)\<lparr>sl_held := sl_held (nw_slots w) - 1\<rparr>,
      nw_heap := (nw_heap w)[a := ?h\<lparr>nh_pending := tl (nh_pending ?h),
        nh_slots := (nh_slots ?h)\<lparr>sl_held := sl_held (nh_slots ?h) - 1\<rparr>\<rparr>]\<rparr>"
    using Suc.prems by (simp add: handler_release_def set_handler_def slots_release_def)
  have "discard_pending (Suc n) a w = discard_pending n a ?w" by simp
  also have "\<dots> = ?w\<lparr>nw_slots := (nw_slots ?w)\<lparr>sl_held := sl_held (nw_slots ?w) - n\<rparr>,
       nw_heap := (nw_heap ?w)[a := (handler_at ?w a)
         \<lparr>nh_pending := drop n (nh_pending (handler_at ?w a)),
          nh_slots := (nh_slots (handler_at ?w a))\<lparr>sl_held := sl_held (nh_slots (handler_at ?w a)) - n\<rparr>\<rparr>]\<rparr>"
    using Suc.prems by (intro Suc.IH) (simp_all add: w)
  finally show ?case using Suc.prems by (simp add: w drop_Suc)
qed simp

lemma handler_close_eq:
  assumes "heap_ok w" "a < length (nw_heap w)"
  shows "handler_close a w = w\<lparr>nw_slots := (nw_slots w)\<lparr>sl_held := sl_held (nw_slots w) - length (nh_pending (handler_at w a))\<rparr>,
    nw_heap := (nw_heap w)[a := (handler_at w a)\<lparr>nh_stopped := True, nh_pending := [],
      nh_slots := (nh_slots (handler_at w a))\<lparr>sl_held := sl_held (nh_slots (handler_at w a)) -
        length (nh_pending (handler_at w a))\<rparr>\<rparr>]\<rparr>"
proof (cases "nh_stopped (handler_at w a)")
  case True
  let ?h = "handler_at w a"
  from True heap_ok_handler [OF assms] have "nh_pending ?h = []" by (simp add: handler_ok_def)
  with True have same: "?h\<lparr>nh_stopped := True, nh_pending := [],
      nh_slots := (nh_slots ?h)\<lparr>sl_held := sl_held (nh_slots ?h) - length (nh_pending ?h)\<rparr>\<rparr> = ?h"
    by (cases ?h) simp
  from True \<open>nh_pending ?h = []\<close> show ?thesis unfolding same by (cases w) (simp add: handler_close_def)
next
  case False
  let ?h = "(handler_at w a)\<lparr>nh_stopped := True\<rparr>"
  have bounds: "length (nh_pending (handler_at w a)) \<le> sl_held (nh_slots (handler_at w a))"
    "length (nh_pending (handler_at w a)) \<le> sl_held (nw_slots w)"
    using heap_ok_handler [OF assms] outstanding_le_held [OF assms] by (simp_all add: handler_ok_def outstanding_def)
  have "handler_close a w = discard_pending (length (nh_pending (handler_at w a))) a (set_handler a ?h w)"
    using False by (simp add: handler_close_def)
  also have "\<dots> = (set_handler a ?h w)
    \<lparr>nw_slots := (nw_slots w)\<lparr>sl_held := sl_held (nw_slots w) - length (nh_pending (handler_at w a))\<rparr>,
     nw_heap := (nw_heap w)[a := ?h\<lparr>nh_pending := [],
      nh_slots := (nh_slots (handler_at w a))\<lparr>sl_held := sl_held (nh_slots (handler_at w a)) -
        length (nh_pending (handler_at w a))\<rparr>\<rparr>]\<rparr>"
    using assms(2) bounds by (subst discard_pending_eq) (simp_all add: set_handler_def)
  finally show ?thesis by (simp add: set_handler_def)
qed

lemma handler_close_ok:
  assumes "heap_ok w" "a < length (nw_heap w)"
  shows "heap_ok (handler_close a w)" "length (nw_heap (handler_close a w)) = length (nw_heap w)"
    "nw_handlers (handler_close a w) = nw_handlers w" "nw_pending (handler_close a w) = nw_pending w"
    "b \<noteq> a \<Longrightarrow> handler_at (handler_close a w) b = handler_at w b"
    "nh_self (handler_at (handler_close a w) a) = nh_self (handler_at w a)"
proof -
  note h = heap_ok_handler [OF assms] and le = outstanding_le_held [OF assms]
  show "heap_ok (handler_close a w)"
    unfolding handler_close_eq [OF assms]
    using h le assms(1)
    by (intro heap_ok_set [OF assms]) (auto simp: handler_ok_def outstanding_def heap_ok_def)
qed (use assms in \<open>simp_all add: handler_close_eq [OF assms]\<close>)

section \<open>Every step keeps the network in order\<close>

lemma new_network_ok: "new_network cfg = Inr w \<Longrightarrow> heap_ok w \<and> registered_ok kd w"
  by (auto simp: new_network_def heap_ok_def registered_ok_def new_slots_def Let_def split: option.splits)

lemma ensure_handler_ok:
  fixes w :: "('k, 'n, 'm) network"
  assumes "heap_ok w" "registered_ok kd w" "ensure_handler kd n w = (a, w')"
  shows "heap_ok w' \<and> registered_ok kd w' \<and> a < length (nw_heap w') \<and> \<not> nh_stopped (handler_at w' a) \<and>
    map_of (nw_handlers w') (node_str kd n) = Some a \<and> nw_slots w' = nw_slots w \<and> nw_cfg w' = nw_cfg w \<and>
    length (nw_heap w) \<le> length (nw_heap w') \<and> (\<forall>b < length (nw_heap w). handler_at w' b = handler_at w b) \<and>
    (a < length (nw_heap w) \<or> outstanding (handler_at w' a) = 0)"
proof (cases "map_of (nw_handlers w) (node_str kd n)")
  case (Some b)
  with assms show ?thesis by (auto simp: ensure_handler_def registered_ok_def)
next
  case None
  let ?h = "new_node_handler n (nw_cfg w) :: ('k, 'n, 'm) node_handler"
  from None assms(3) have a: "a = length (nw_heap w)" and w': "w' = w\<lparr>nw_heap := nw_heap w @ [?h],
      nw_handlers := AList.update (node_str kd n) (length (nw_heap w)) (nw_handlers w)\<rparr>"
    by (auto simp: ensure_handler_def)
  have "outstanding ?h = 0" "handler_ok (nat (ntc_node_capacity (nw_cfg w))) ?h" "nh_self ?h = n" "\<not> nh_stopped ?h"
    by (simp_all add: new_node_handler_def outstanding_def handler_ok_def new_slots_def)
  then show ?thesis using assms(1,2)
    by (auto simp: a w' heap_ok_def registered_ok_def update_conv nth_append distinct_update intro: less_SucI split: if_splits)
qed

text \<open>
  The two acquisitions: the request is accepted when both capacities allow it, and then there is room in the
  channel; otherwise nothing has changed.
\<close>

lemma handler_notify_ok:
  assumes "handler_ok c h"
  shows "handler_notify ev s h =
    (if sl_held s < sl_capacity s \<and> outstanding h < c
     then Some (True, s\<lparr>sl_held := sl_held s + 1\<rparr>,
       h\<lparr>nh_slots := (nh_slots h)\<lparr>sl_held := sl_held (nh_slots h) + 1\<rparr>, nh_pending := nh_pending h @ [ev]\<rparr>)
     else Some (False, s, h))"
  using assms
  by (auto simp: handler_notify_def slots_acquire_def slots_release_def handler_ok_def outstanding_def)

lemma registered_ok_set:
  assumes "registered_ok kd w" "a < length (nw_heap w)"
    "nh_self h = nh_self (handler_at w a)" "nh_stopped h \<longrightarrow> nh_stopped (handler_at w a)"
  shows "registered_ok kd (w\<lparr>nw_slots := s, nw_heap := (nw_heap w)[a := h]\<rparr>)"
  using assms by (auto simp: registered_ok_def nth_list_update split: if_splits)

text \<open>What a call of \<open>Notify\<close> does.\<close>

definition notified :: "('k, 'n) kad_ops \<Rightarrow> 'n \<Rightarrow> ('k, 'n, 'm) behaviour_event \<Rightarrow> ('k, 'n, 'm) network \<Rightarrow>
    bool \<Rightarrow> ('k, 'n, 'm) network \<Rightarrow> bool" where
  "notified kd n ev w accepted w' \<longleftrightarrow>
     heap_ok w' \<and> registered_ok kd w' \<and>
     (\<exists>a. map_of (nw_handlers w') (node_str kd n) = Some a \<and>
        (if accepted
         then nh_pending (handler_at w' a) \<noteq> [] \<and> last (nh_pending (handler_at w' a)) = ev \<and>
              sl_held (nw_slots w') = sl_held (nw_slots w) + 1
         else nw_slots w' = nw_slots w \<and>
              (sl_held (nw_slots w) = nat (ntc_capacity (nw_cfg w)) \<or>
               outstanding (handler_at w' a) = nat (ntc_node_capacity (nw_cfg w)))))"

lemma notify_handler_ok:
  assumes "heap_ok w" "registered_ok kd w"
  obtains accepted w' where "notify_handler kd n ev w = Some (accepted, w')" "notified kd n ev w accepted w'"
proof -
  obtain a w1 where w1: "ensure_handler kd n w = (a, w1)" by fastforce
  from ensure_handler_ok [OF assms w1]
  have ok1: "heap_ok w1" "registered_ok kd w1" "a < length (nw_heap w1)" "\<not> nh_stopped (handler_at w1 a)"
    "map_of (nw_handlers w1) (node_str kd n) = Some a" "nw_slots w1 = nw_slots w" "nw_cfg w1 = nw_cfg w" by auto
  let ?c = "nat (ntc_node_capacity (nw_cfg w))" and ?s = "nw_slots w1" and ?h = "handler_at w1 a"
  note h = heap_ok_handler [OF ok1(1,3), unfolded ok1(7)]
  have cap: "sl_capacity ?s = nat (ntc_capacity (nw_cfg w))" "sl_held ?s \<le> sl_capacity ?s"
    using ok1(1,7) by (auto simp: heap_ok_def)
  show thesis
  proof (cases "sl_held ?s < sl_capacity ?s \<and> outstanding ?h < ?c")
    case True
    let ?h' = "?h\<lparr>nh_slots := (nh_slots ?h)\<lparr>sl_held := sl_held (nh_slots ?h) + 1\<rparr>, nh_pending := nh_pending ?h @ [ev]\<rparr>"
    let ?w' = "w1\<lparr>nw_slots := ?s\<lparr>sl_held := sl_held ?s + 1\<rparr>, nw_heap := (nw_heap w1)[a := ?h']\<rparr>"
    have "notify_handler kd n ev w = Some (True, ?w')"
      using True by (simp add: notify_handler_def w1 handler_notify_ok [OF h])
    moreover have "heap_ok ?w'"
      using True h ok1 by (intro heap_ok_set [OF ok1(1,3)]) (auto simp: handler_ok_def outstanding_def)
    moreover have "registered_ok kd ?w'" by (intro registered_ok_set [OF ok1(2,3)]) simp_all
    ultimately show thesis using ok1 by (intro that [of True ?w']) (auto simp: notified_def)
  next
    case False
    have "notify_handler kd n ev w = Some (False, w1)"
      using False by (auto simp: notify_handler_def w1 handler_notify_ok [OF h])
    with False h cap ok1 show thesis
      by (intro that [of False w1]) (auto simp: notified_def handler_ok_def)
  qed
qed

lemma handler_take_ok:
  assumes "heap_ok w" "registered_ok kd w" "selecting a w"
  shows "heap_ok (handler_take a w) \<and> registered_ok kd (handler_take a w)"
proof (cases "nh_pending (handler_at w a)")
  case Nil
  with assms show ?thesis by (simp add: handler_take_def)
next
  case (Cons ev rest)
  let ?h = "(handler_at w a)\<lparr>nh_pending := rest, nh_sending := Some ev\<rparr>"
  from assms(3) have a: "a < length (nw_heap w)" "nh_sending (handler_at w a) = None" by (simp_all add: selecting_def)
  have "heap_ok (w\<lparr>nw_slots := nw_slots w, nw_heap := (nw_heap w)[a := ?h]\<rparr>)"
    using heap_ok_handler [OF assms(1) a(1)] a Cons assms(1)
    by (intro heap_ok_set [OF assms(1) a(1)]) (auto simp: handler_ok_def outstanding_def heap_ok_def)
  moreover have "registered_ok kd (w\<lparr>nw_slots := nw_slots w, nw_heap := (nw_heap w)[a := ?h]\<rparr>)"
    by (intro registered_ok_set [OF assms(2) a(1)]) simp_all
  ultimately show ?thesis using Cons by (simp add: handler_take_def set_handler_def)
qed

lemma handler_finish_ok:
  assumes "heap_ok w" "registered_ok kd w" "a < length (nw_heap w)"
  shows "heap_ok (snd (handler_finish a d ns r w)) \<and> registered_ok kd (snd (handler_finish a d ns r w))"
proof (cases "nh_sending (handler_at w a)")
  case None
  with assms show ?thesis by (simp add: handler_finish_def)
next
  case (Some ev)
  let ?s = "(nw_slots w)\<lparr>sl_held := sl_held (nw_slots w) - 1\<rparr>"
  let ?h = "(handler_at w a)\<lparr>nh_sending := None,
    nh_slots := (nh_slots (handler_at w a))\<lparr>sl_held := sl_held (nh_slots (handler_at w a)) - 1\<rparr>\<rparr>"
  note h = heap_ok_handler [OF assms(1,3)] and le = outstanding_le_held [OF assms(1,3)]
  from Some have pos: "0 < outstanding (handler_at w a)" by (simp add: outstanding_def)
  have w': "snd (handler_finish a d ns r w) = w\<lparr>nw_slots := ?s, nw_heap := (nw_heap w)[a := ?h]\<rparr>"
    using Some assms(3) h le pos
    by (simp add: handler_finish_def handler_release_def set_handler_def slots_release_def handler_ok_def)
  have "heap_ok (w\<lparr>nw_slots := ?s, nw_heap := (nw_heap w)[a := ?h]\<rparr>)"
    using h le pos Some assms(1)
    by (intro heap_ok_set [OF assms(1,3)]) (auto simp: handler_ok_def outstanding_def heap_ok_def)
  moreover have "registered_ok kd (w\<lparr>nw_slots := ?s, nw_heap := (nw_heap w)[a := ?h]\<rparr>)"
    by (intro registered_ok_set [OF assms(2,3)]) simp_all
  ultimately show ?thesis by (simp add: w')
qed

lemma handler_done_ok:
  assumes "heap_ok w" "registered_ok kd w" "selecting a w" "nh_stopped (handler_at w a)"
  shows "heap_ok (handler_done a w) \<and> registered_ok kd (handler_done a w)"
proof -
  let ?h = "(handler_at w a)\<lparr>nh_done := True\<rparr>"
  from assms(3) have a: "a < length (nw_heap w)" "nh_sending (handler_at w a) = None" by (simp_all add: selecting_def)
  have "heap_ok (w\<lparr>nw_slots := nw_slots w, nw_heap := (nw_heap w)[a := ?h]\<rparr>)"
    using heap_ok_handler [OF assms(1) a(1)] a assms(1,4)
    by (intro heap_ok_set [OF assms(1) a(1)]) (auto simp: handler_ok_def outstanding_def heap_ok_def)
  moreover have "registered_ok kd (w\<lparr>nw_slots := nw_slots w, nw_heap := (nw_heap w)[a := ?h]\<rparr>)"
    by (intro registered_ok_set [OF assms(2) a(1)]) simp_all
  ultimately show ?thesis by (simp add: handler_done_def set_handler_def)
qed

lemma evict_idle_ok:
  assumes "heap_ok w" "registered_ok kd w" "a < length (nw_heap w)" "evict_idle kd a w = (removed, w')"
  shows "heap_ok w'" "registered_ok kd w'" "\<not> removed \<Longrightarrow> w' = w" "length (nw_heap w') = length (nw_heap w)"
    "removed \<Longrightarrow> outstanding (handler_at w a) = 0 \<and> nw_slots w' = nw_slots w \<and> nh_stopped (handler_at w' a) \<and>
       nh_sending (handler_at w' a) = None \<and> nh_done (handler_at w' a) = nh_done (handler_at w a) \<and>
       map_of (nw_handlers w') (node_str kd (nh_self (handler_at w a))) = None"
proof -
  let ?key = "node_str kd (nh_self (handler_at w a))"
  let ?w1 = "w\<lparr>nw_handlers := AList.delete ?key (nw_handlers w)\<rparr>"
  have "heap_ok w' \<and> registered_ok kd w' \<and> (\<not> removed \<longrightarrow> w' = w) \<and> length (nw_heap w') = length (nw_heap w) \<and>
    (removed \<longrightarrow> outstanding (handler_at w a) = 0 \<and> nw_slots w' = nw_slots w \<and> nh_stopped (handler_at w' a) \<and>
       nh_sending (handler_at w' a) = None \<and> nh_done (handler_at w' a) = nh_done (handler_at w a) \<and>
       map_of (nw_handlers w') ?key = None)"
  proof (cases removed)
    case False
    with assms show ?thesis by (auto simp: evict_idle_def Let_def split: if_splits)
  next
    case True
    with assms(4) have evict: "map_of (nw_handlers w) ?key = Some a" "handler_idle (handler_at w a)"
      "w' = handler_close a ?w1" by (auto simp: evict_idle_def Let_def split: if_splits)
    have ok1: "heap_ok ?w1" "a < length (nw_heap ?w1)" using assms(1,3) by (simp_all add: heap_ok_def)
    note closed = handler_close_ok [OF ok1] and close_eq = handler_close_eq [OF ok1]
    from evict(2) heap_ok_handler [OF assms(1,3)] have idle: "outstanding (handler_at w a) = 0"
      by (simp add: handler_idle_def handler_ok_def)
    then have empty: "nh_pending (handler_at w a) = []" "nh_sending (handler_at w a) = None"
      by (simp_all add: outstanding_def split: if_splits)
    have "registered_ok kd w'"
      unfolding registered_ok_def
    proof (intro conjI allI impI)
      fix k b assume kb: "map_of (nw_handlers w') k = Some b"
      then have k: "k \<noteq> ?key" "map_of (nw_handlers w) k = Some b"
        using closed(3) evict(3) by (auto simp: delete_conv split: if_splits)
      with assms(2) have b: "b < length (nw_heap w)" "node_str kd (nh_self (handler_at w b)) = k"
        "\<not> nh_stopped (handler_at w b)" by (auto simp: registered_ok_def)
      with k have "b \<noteq> a" by auto
      with b closed(2,5) evict(3) show "b < length (nw_heap w')" "node_str kd (nh_self (handler_at w' b)) = k"
        "\<not> nh_stopped (handler_at w' b)" by simp_all
    qed (use assms(2) closed(3,4) evict(3) in \<open>simp_all add: registered_ok_def distinct_delete\<close>)
    moreover have "nw_slots w' = nw_slots w" "nh_stopped (handler_at w' a)" "nh_sending (handler_at w' a) = None"
      "nh_done (handler_at w' a) = nh_done (handler_at w a)"
      using assms(3) empty unfolding evict(3) close_eq by simp_all
    moreover have "map_of (nw_handlers w') ?key = None" using closed(3) evict(3) by (simp add: delete_conv)
    ultimately show ?thesis using closed(1,2) evict(3) True idle by simp
  qed
  then show "heap_ok w'" "registered_ok kd w'" "\<not> removed \<Longrightarrow> w' = w" "length (nw_heap w') = length (nw_heap w)"
    "removed \<Longrightarrow> outstanding (handler_at w a) = 0 \<and> nw_slots w' = nw_slots w \<and> nh_stopped (handler_at w' a) \<and>
       nh_sending (handler_at w' a) = None \<and> nh_done (handler_at w' a) = nh_done (handler_at w a) \<and>
       map_of (nw_handlers w') (node_str kd (nh_self (handler_at w a))) = None" by simp_all
qed

lemma handler_timeout_ok:
  assumes "heap_ok w" "registered_ok kd w" "selecting a w"
  shows "heap_ok (handler_timeout kd a w) \<and> registered_ok kd (handler_timeout kd a w)"
proof -
  obtain removed w' where e: "evict_idle kd a w = (removed, w')" by fastforce
  from assms(3) have a: "a < length (nw_heap w)" by (simp add: selecting_def)
  note ok = evict_idle_ok [OF assms(1,2) a e]
  show ?thesis
  proof (cases removed)
    case True
    with ok(4,5) assms(3) have "selecting a w'" "nh_stopped (handler_at w' a)" by (auto simp: selecting_def)
    with handler_done_ok [OF ok(1,2)] e True show ?thesis by (simp add: handler_timeout_def)
  next
    case False
    with ok e show ?thesis by (simp add: handler_timeout_def)
  qed
qed

lemma network_close_ok:
  assumes "heap_ok w" "registered_ok kd w" "range_order ord"
  shows "heap_ok (network_close ord w) \<and> registered_ok kd (network_close ord w)"
proof -
  have addresses: "\<forall>(k, a) \<in> set (map_range ord (nw_handlers w)). a < length (nw_heap w)"
    using assms(2) range_order_set [OF assms(3), of "map fst (nw_handlers w)"]
    by (fastforce simp: map_range_def registered_ok_def map_of_eq_None_iff dest: map_of_SomeD)
  have "heap_ok (fold (\<lambda>(key, a). handler_close a) xs v) \<and>
      nw_pending (fold (\<lambda>(key, a). handler_close a) xs v) = nw_pending v"
    if "heap_ok v" "\<forall>(k, a) \<in> set xs. a < length (nw_heap v)" for xs and v :: "('a, 'b, 'c) network"
    using that
  proof (induction xs arbitrary: v)
    case (Cons x xs)
    obtain k a where x: "x = (k, a)" by fastforce
    with Cons.prems have a: "a < length (nw_heap v)" by simp
    note closed = handler_close_ok [OF Cons.prems(1) a]
    with Cons.IH [OF closed(1)] Cons.prems x show ?case by simp
  qed simp
  from this [OF assms(1) addresses] assms(2) show ?thesis
    by (simp add: network_close_def heap_ok_def registered_ok_def)
qed

lemma network_reached_ok: "network_reached kd w \<Longrightarrow> heap_ok w \<and> registered_ok kd w"
proof (induction rule: network_reached.induct)
  case (created cfg w)
  then show ?case by (rule new_network_ok)
next
  case (stepped w w')
  from stepped(2) show ?case
  proof cases
    case (notify ev out)
    then obtain n accepted w1 where n: "notify_handler kd n ev w = Some (accepted, w1)"
      "w' = (if 0 < length (nw_pending w1) then w1\<lparr>nw_ready := True\<rparr> else w1)"
      by (auto simp: network_notify_def split: option.splits)
    obtain accepted' w1' where w1: "notify_handler kd n ev w = Some (accepted', w1')" "notified kd n ev w accepted' w1'"
      by (rule notify_handler_ok [OF conjunct1 [OF stepped(3)] conjunct2 [OF stepped(3)]])
    with n have "heap_ok w1" "registered_ok kd w1" by (auto simp: notified_def)
    with n(2) show ?thesis by (simp add: registered_ok_def)
  next
    case "perform"
    with stepped(3) show ?thesis by (simp add: network_perform_def registered_ok_def heap_ok_def)
  next
    case (take a)
    with stepped(3) handler_take_ok [of w kd a] show ?thesis by simp
  next
    case (finish a d ns r)
    with stepped(3) handler_finish_ok [of w kd a d ns r] show ?thesis by simp
  next
    case (timeout a)
    with stepped(3) handler_timeout_ok [of w kd a] show ?thesis by simp
  next
    case (stop a)
    with stepped(3) handler_done_ok [of w kd a] show ?thesis by simp
  next
    case (close ord)
    with stepped(3) network_close_ok [of w kd ord] show ?thesis by simp
  qed
qed

section \<open>The properties\<close>


text \<open>
  C36: liveness. The event loop is never blocked by a request: \<open>Notify\<close> takes every request at once. Either the
  request is the last in the queue of its node's handler and holds a slot, or one of the capacities is used up;
  then nothing holds a slot for it and whoever asked is told that it was dropped.
\<close>

theorem network_never_blocks:
  assumes "network_reached kd w" "request_node ev = Some n"
  shows "\<exists>out w' a. network_notify kd ev w = Some (out, w') \<and> map_of (nw_handlers w') (node_str kd n) = Some a \<and>
    ((out = None \<and> nh_pending (handler_at w' a) \<noteq> [] \<and> last (nh_pending (handler_at w' a)) = ev \<and>
        sl_held (nw_slots w') = sl_held (nw_slots w) + 1) \<or>
     (out = request_failure ErrRequestDropped ev \<and> nw_slots w' = nw_slots w \<and>
        (sl_held (nw_slots w) = nat (ntc_capacity (nw_cfg w)) \<or>
         outstanding (handler_at w' a) = nat (ntc_node_capacity (nw_cfg w)))))"
proof -
  note ok = network_reached_ok [OF assms(1)]
  obtain accepted w' where w': "notify_handler kd n ev w = Some (accepted, w')" "notified kd n ev w accepted w'"
    by (rule notify_handler_ok [OF conjunct1 [OF ok] conjunct2 [OF ok]])
  from w'(2) have "nw_pending w' = []" by (simp add: notified_def registered_ok_def)
  with w'(1) assms(2) have notify: "network_notify kd ev w =
      Some (if accepted then None else request_failure ErrRequestDropped ev, w')"
    by (simp add: network_notify_def)
  from w'(2) obtain a where a: "map_of (nw_handlers w') (node_str kd n) = Some a"
    "if accepted then nh_pending (handler_at w' a) \<noteq> [] \<and> last (nh_pending (handler_at w' a)) = ev \<and>
         sl_held (nw_slots w') = sl_held (nw_slots w) + 1
       else nw_slots w' = nw_slots w \<and> (sl_held (nw_slots w) = nat (ntc_capacity (nw_cfg w)) \<or>
         outstanding (handler_at w' a) = nat (ntc_node_capacity (nw_cfg w)))"
    unfolding notified_def by blast
  show ?thesis
  proof (intro exI conjI)
    show "network_notify kd ev w = Some (if accepted then None else request_failure ErrRequestDropped ev, w')"
      "map_of (nw_handlers w') (node_str kd n) = Some a" by (rule notify, rule a(1))
  qed (use a(2) in \<open>auto split: if_splits\<close>)
qed

text \<open>
  Safety. A handler is evicted only when it has nothing left to send: no request that was accepted is lost
  by an eviction, the slots held stay as they are, and the next request for the node gets a new handler.
\<close>

theorem network_evicts_idle:
  assumes "network_reached kd w" "selecting a w" "evict_idle kd a w = (True, w')"
  shows "nh_pending (handler_at w a) = [] \<and> nh_sending (handler_at w a) = None \<and> nw_slots w' = nw_slots w \<and>
    map_of (nw_handlers w') (node_str kd (nh_self (handler_at w a))) = None \<and>
    fst (ensure_handler kd (nh_self (handler_at w a)) w') = length (nw_heap w)"
proof -
  from network_reached_ok [OF assms(1)] assms(2) have ok: "heap_ok w" "registered_ok kd w" "a < length (nw_heap w)"
    by (simp_all add: selecting_def)
  from evict_idle_ok(4,5) [OF ok assms(3)] show ?thesis
    by (auto simp: outstanding_def ensure_handler_def split: if_splits)
qed

section \<open>On the tiny network\<close>

type_synonym tiny_net = "(tiny_key, tiny_node, tiny_message) network"

definition tiny_network_config :: network_config where
  "tiny_network_config = \<lparr>ntc_logger = True, ntc_tracer = True, ntc_meter = True, ntc_capacity = 2,
     ntc_node_capacity = 1, ntc_idle_timeout = 10\<rparr>"

definition tiny_net :: tiny_net where
  "tiny_net = projr (new_network (Some tiny_network_config))"

abbreviation tiny_request :: "(tiny_key, tiny_node, tiny_message) behaviour_event" where
  "tiny_request \<equiv> EventOutboundGetCloserNodes ''q'' (new_node 2) 1 (Some 0)"

definition tiny_net_asked :: tiny_net where
  "tiny_net_asked = snd (the (network_notify tiny_kad tiny_request tiny_net))"

definition tiny_net_answered :: tiny_net where
  "tiny_net_answered = snd (handler_finish 0 False (Inr []) (Inr (None, [])) (handler_take 0 tiny_net_asked))"

lemma tiny_net_reached: "network_reached tiny_kad tiny_net"
proof (rule network_reached.created)
  show "new_network (Some tiny_network_config) = Inr tiny_net"
    by (simp add: tiny_net_def new_network_def network_config_validate_def tiny_network_config_def)
qed

lemma tiny_net_asks:
  "map_option fst (network_notify tiny_kad tiny_request tiny_net) = Some None \<and>
   map nh_pending (nw_heap tiny_net_asked) = [[tiny_request]] \<and> map nh_sending (nw_heap tiny_net_asked) = [None] \<and>
   map nh_done (nw_heap tiny_net_asked) = [False] \<and>
   map_option fst (network_notify tiny_kad tiny_request tiny_net_asked) =
     Some (Some (0, EventGetCloserNodesFailure ''q'' (new_node 2) 1 ErrRequestDropped))"
  by code_simp

lemma tiny_net_answers:
  "selecting 0 tiny_net_asked \<and> nh_sending (handler_at (handler_take 0 tiny_net_asked) 0) \<noteq> None \<and>
   length (nw_heap (handler_take 0 tiny_net_asked)) = 1 \<and> selecting 0 tiny_net_answered \<and>
   fst (evict_idle tiny_kad 0 tiny_net_answered)"
  by code_simp

lemma tiny_net_asked_reached: "network_reached tiny_kad tiny_net_asked"
proof -
  from tiny_net_asks have "network_notify tiny_kad tiny_request tiny_net = Some (None, tiny_net_asked)"
    by (auto simp: tiny_net_asked_def)
  then show ?thesis by (rule network_reached.stepped [OF tiny_net_reached network_step.notify])
qed

lemma tiny_net_answered_reached: "network_reached tiny_kad tiny_net_answered"
proof -
  have "nh_pending (handler_at tiny_net_asked 0) \<noteq> []"
    using tiny_net_asks by (cases "nw_heap tiny_net_asked") auto
  with tiny_net_answers have "network_reached tiny_kad (handler_take 0 tiny_net_asked)"
    using network_reached.stepped [OF tiny_net_asked_reached network_step.take] by blast
  with tiny_net_answers show ?thesis unfolding tiny_net_answered_def
    by (intro network_reached.stepped [OF _ network_step.finish]) auto
qed


theorem network_never_blocks_witness:
  "\<exists>w'. network_notify tiny_kad tiny_request tiny_net_asked =
     Some (Some (0, EventGetCloserNodesFailure ''q'' (new_node 2) 1 ErrRequestDropped), w') \<and>
     nw_slots w' = nw_slots tiny_net_asked"
  using network_never_blocks [OF tiny_net_asked_reached, of tiny_request "new_node 2"] tiny_net_asks by auto

theorem network_evicts_idle_witness:
  "nw_slots (snd (evict_idle tiny_kad 0 tiny_net_answered)) = nw_slots tiny_net_answered"
  using network_evicts_idle [OF tiny_net_answered_reached, of 0 "snd (evict_idle tiny_kad 0 tiny_net_answered)"]
    tiny_net_answers by (metis prod.collapse)

end
