(* ===== verification/PublishBehaviour.thy ===== *)
theory PublishBehaviour
  imports Behaviour PublishPool Survey RegionPublish
begin

text \<open>
  \<open>publish.go\<close>: the behaviour that stores records, for the callers of the coordinator in a publish pool, and
  for this node's own keys region by region: a survey of a region starts a region publish, and a region
  publish starts one static publish in the pool for each of its keys. The pool and the survey are held through
  the interface \<open>StateMachine\<close>: their \<open>Advance\<close> methods are fields of the environment, and the behaviour's
  state has their states. A keystore is what its \<open>KeysUnder\<close> yields. \<open>ts i\<close> is the \<open>i\<close>-th instant an
  operation reads from the clock, and \<open>None\<close> a panic.
\<close>

section \<open>Configuration\<close>

text \<open>
  A nil function or keystore is \<open>None\<close>; \<open>gen\<close> is what the survey's target function keeps between calls. A
  \<open>float64\<close> is a rational number.
\<close>

record ('k, 'm, 'g) publish_config =
  ubc_logger :: bool
  ubc_tracer :: bool
  ubc_meter :: bool
  ubc_queue_capacity :: int
  ubc_verify_response :: "('m option \<Rightarrow> 'm option \<Rightarrow> go_error option) option"
  ubc_optimistic_individual_certainty :: rat
  ubc_optimistic_set_strictness :: rat
  ubc_keystore :: "(string \<Rightarrow> 'k list) option"
  ubc_record_source :: "('k \<Rightarrow> 'm) option"
  ubc_region_replication :: int
  ubc_region_max_in_flight :: int
  ubc_enable_survey :: bool
  ubc_survey_target_fn :: "'g option"
  ubc_survey_interval :: duration
  ubc_survey_region_timeout :: duration
  ubc_survey_request_concurrency :: int
  ubc_survey_request_timeout :: duration
  ubc_survey_walk_in_bound :: int
  ubc_survey_initial_prefix_len :: int
  ubc_survey_min_population :: int
  ubc_survey_max_population :: int

definition publish_config_validate :: "('k, 'm, 'g) publish_config \<Rightarrow> go_error option" where
  "publish_config_validate cfg = first_error ''PublishConfig''
     ([(\<not> ubc_logger cfg, ''logger must not be nil''),
       (\<not> ubc_tracer cfg, ''tracer must not be nil''),
       (\<not> ubc_meter cfg, ''meter must not be nil''),
       (ubc_queue_capacity cfg < 1, ''queue capacity must be greater than zero'')] @
      (if ubc_keystore cfg \<noteq> None \<and> ubc_record_source cfg \<noteq> None
       then [(ubc_region_replication cfg < 1, ''region replication must be greater than zero''),
             (ubc_region_max_in_flight cfg < 1, ''region max in flight must be greater than zero'')]
       else []) @
      (if ubc_enable_survey cfg
       then [(ubc_survey_target_fn cfg = None,
              ''survey target function must not be nil when survey is enabled''),
             (ubc_survey_interval cfg < 1, ''survey interval must be greater than zero''),
             (ubc_survey_region_timeout cfg < 1, ''survey region timeout must be greater than zero''),
             (ubc_survey_request_concurrency cfg < 1, ''survey request concurrency must be greater than zero''),
             (ubc_survey_request_timeout cfg < 1, ''survey request timeout must be greater than zero''),
             (ubc_survey_walk_in_bound cfg < 1, ''survey walk-in bound must be greater than zero'')]
       else []))"

definition default_publish_config :: "(rat \<Rightarrow> rat) \<Rightarrow> ('k, 'm, 'g) publish_config" where
  "default_publish_config rnd =
     \<lparr>ubc_logger = True, ubc_tracer = True, ubc_meter = True, ubc_queue_capacity = 1024,
      ubc_verify_response = None, ubc_optimistic_individual_certainty = rnd (9 / 10),
      ubc_optimistic_set_strictness = rnd (1 / 10), ubc_keystore = None, ubc_record_source = None,
      ubc_region_replication = 0, ubc_region_max_in_flight = 16, ubc_enable_survey = False,
      ubc_survey_target_fn = None, ubc_survey_interval = 22 * hour, ubc_survey_region_timeout = 5 * minute,
      ubc_survey_request_concurrency = 3, ubc_survey_request_timeout = minute, ubc_survey_walk_in_bound = 20,
      ubc_survey_initial_prefix_len = 0, ubc_survey_min_population = 10, ubc_survey_max_population = 40\<rparr>"

section \<open>The behaviour\<close>

record ('k, 'n, 'm, 'p, 's) publish_behaviour =
    "(('k, 'n, 'm) behaviour_event, ('n, 'm) query_progressed, 'n publish_finished) notifying" +
  ub_pool :: 'p
  ub_survey :: "'s option"
  ub_verify_response :: "'m option \<Rightarrow> 'm option \<Rightarrow> go_error option"
  ub_keystore :: "(string \<Rightarrow> 'k list) option"
  ub_record_source :: "('k \<Rightarrow> 'm) option"
  ub_region_replication :: int
  ub_region_max_in_flight :: int
  ub_regions :: "(activity_id \<times> ('k, 'n) region_publish) list"
  ub_children :: "(activity_id \<times> activity_id) list"
  ub_survey_due :: time

record ('k, 'n, 'm, 'p, 's) publish_machines =
  um_kad :: "('k, 'n) kad_ops"
  um_sort :: "('n \<Rightarrow> 'n \<Rightarrow> int) \<Rightarrow> 'n list \<Rightarrow> 'n list"
  um_pool :: "time \<Rightarrow> ('k, 'n, 'm) pub_pool_event \<Rightarrow> 'p \<Rightarrow> (('k, 'n, 'm) pub_pool_state \<times> 'p) option"
  um_survey :: "time \<Rightarrow> 'n survey_event \<Rightarrow> 's \<Rightarrow> (('k, 'n) survey_state \<times> 's) option"

text \<open>
  \<open>NewPublishBehaviour\<close>: the pool is given, and a survey with a table of its own is made when it is enabled.
  The instruments of the meter are not modelled.
\<close>

definition survey_config_of :: "('k, 'm, 'g) publish_config \<Rightarrow> survey_config" where
  "survey_config_of cfg = default_survey_config
     \<lparr>svc_tracer := ubc_tracer cfg, svc_meter := ubc_meter cfg, svc_interval := ubc_survey_interval cfg,
      svc_region_timeout := ubc_survey_region_timeout cfg,
      svc_request_concurrency := ubc_survey_request_concurrency cfg,
      svc_request_timeout := ubc_survey_request_timeout cfg, svc_walk_in_bound := ubc_survey_walk_in_bound cfg\<rparr>"

definition new_publish_survey ::
  "('k, 'n) kad_ops \<Rightarrow> 'n \<Rightarrow> 'rt \<Rightarrow> ('k, 'm, 'g) publish_config \<Rightarrow>
     ('k, 'n, 'tr, 'rt, 'g) survey_machine option go_result" where
  "new_publish_survey kd self rt cfg =
     (if \<not> ubc_enable_survey cfg then Inr None
      else case new_table kd (Some (default_prefix_config
             \<lparr>fc_initial_prefix_len := ubc_survey_initial_prefix_len cfg,
              fc_min_population := ubc_survey_min_population cfg,
              fc_max_population := ubc_survey_max_population cfg\<rparr>)) of
        Inl e \<Rightarrow> Inl (WrappedError ''survey table: '' e)
      | Inr table \<Rightarrow>
          (case new_survey self rt (Some table) (ubc_survey_target_fn cfg) (Some (survey_config_of cfg)) of
             Inl e \<Rightarrow> Inl (WrappedError ''survey: '' e)
           | Inr s \<Rightarrow> Inr (Some s)))"

definition new_publish_behaviour ::
  "('k, 'n) kad_ops \<Rightarrow> (rat \<Rightarrow> rat) \<Rightarrow> nat \<Rightarrow> (('n, 'm) query_progressed, 'n publish_finished) monitor list \<Rightarrow> 'p \<Rightarrow> 'n \<Rightarrow> 'rt \<Rightarrow>
     ('k, 'm, 'g) publish_config option \<Rightarrow>
     ('k, 'n, 'm, 'p, ('k, 'n, 'tr, 'rt, 'g) survey_machine) publish_behaviour go_result" where
  "new_publish_behaviour kd rnd a ms pool self rt cfg_opt =
     (case (case cfg_opt of None \<Rightarrow> None | Some cfg \<Rightarrow> publish_config_validate cfg) of
        Some e \<Rightarrow> Inl e
      | None \<Rightarrow>
          (let cfg = (case cfg_opt of None \<Rightarrow> default_publish_config rnd | Some cfg \<Rightarrow> cfg)
           in case new_publish_survey kd self rt cfg of
                Inl e \<Rightarrow> Inl e
              | Inr survey \<Rightarrow>
                  (let b = notifying.extend
                         (behaviour.extend (new_behaviour a (ubc_queue_capacity cfg)) (notifying.fields [] ms zero_time))
                         (publish_behaviour.fields pool survey
                             (case ubc_verify_response cfg of None \<Rightarrow> (\<lambda>req resp. None) | Some f \<Rightarrow> f)
                             (ubc_keystore cfg) (ubc_record_source cfg) (ubc_region_replication cfg)
                             (ubc_region_max_in_flight cfg) [] [] zero_time)
                   in Inr (if survey \<noteq> None then signal_ready b else b))))"

section \<open>Receiving events\<close>

fun publish_monitor :: "('k, 'n, 'm) behaviour_event \<Rightarrow> (activity_id \<times> nat option) option" where
  "publish_monitor (EventStartFollowUpPublish i target msg seed monitor) = Some (i, monitor)"
| "publish_monitor (EventStartStaticPublish i target msg nodes monitor) = Some (i, monitor)"
| "publish_monitor (EventStartOptimisticPublish i target msg seed network_size monitor) = Some (i, monitor)"
| "publish_monitor _ = None"

definition publish_notify ::
  "('k, 'n, 'm) behaviour_event \<Rightarrow> ('k, 'n, 'm, 'p, 's) publish_behaviour \<Rightarrow>
     ('k, 'n, 'm, 'p, 's) publish_behaviour option" where
  "publish_notify ev b =
     (case notify_inbound ev b of
        (True, b') \<Rightarrow> Some b'
      | (False, b') \<Rightarrow>
          (case publish_monitor ev of
             None \<Rightarrow> Some b'
           | Some (i, monitor) \<Rightarrow>
               report_dropped monitor
                 \<lparr>pf_activity = i, pf_contacted = [], pf_errors = [], pf_query_stats = zero_query_stats,
                  pf_err = Some ErrEventDropped\<rparr> b'))"

section \<open>Advancing the pool and the regions\<close>

text \<open>
  \<open>advancePool\<close> and \<open>advanceRegion\<close> call each other: a region that has a key to publish starts it in the pool,
  and a publish that ends frees the slot of its region. A region that is told of an end starts nothing, so the
  recursion ends. \<open>None\<close> for the pool event is a nil event, which the pool panics on.
\<close>

lemma region_starts_on_poll:
  "(StateRegionStartKey child k nodes, rp') = region_advance kd srt re rp \<Longrightarrow> re = EventRegionPoll"
  by (cases re) (auto simp: Let_def region_next_def split: if_splits)

function (sequential) publish_advance_pool ::
  "('k, 'n, 'm, 'p, 's) publish_machines \<Rightarrow> time \<Rightarrow> ('k, 'n, 'm) pub_pool_event option \<Rightarrow>
     ('k, 'n, 'm, 'p, 's) publish_behaviour \<Rightarrow>
     (('k, 'n, 'm) behaviour_event option \<times> ('k, 'n, 'm, 'p, 's) publish_behaviour) option" and
  publish_advance_region ::
  "('k, 'n, 'm, 'p, 's) publish_machines \<Rightarrow> time \<Rightarrow> activity_id \<Rightarrow> region_event \<Rightarrow>
     ('k, 'n, 'm, 'p, 's) publish_behaviour \<Rightarrow>
     (('k, 'n, 'm) behaviour_event option \<times> ('k, 'n, 'm, 'p, 's) publish_behaviour) option" where
  "publish_advance_pool mc now None b0 = None"
| "publish_advance_pool mc now (Some ev) b0 =
     (case um_pool mc now ev (ub_pool b0) of
        None \<Rightarrow> None
      | Some (st, pool) \<Rightarrow>
          (let b = b0\<lparr>bh_poll_again := False, ub_pool := pool\<rparr>
           in case st of
                PoolIdle \<Rightarrow> Some (None, b\<lparr>nb_next_due := zero_time\<rparr>)
              | PoolWaiting due \<Rightarrow> Some (None, b\<lparr>nb_next_due := due\<rparr>)
              | PoolFindCloser i target n \<Rightarrow> Some (Some (EventOutboundGetCloserNodes i n target (Some (bh_ref b))), b)
              | PoolStoreRecord i n msg \<Rightarrow> Some (Some (EventOutboundSendMessage i n (Some msg) (Some (bh_ref b))), b)
              | PoolPublishFinished i contacted errs stats \<Rightarrow>
                  (let b1 = b\<lparr>bh_poll_again := True\<rparr>
                   in case map_of (ub_children b1) i of
                        Some region \<Rightarrow>
                          map_option (\<lambda>(out, b2). (None, b2))
                            (publish_advance_region mc now region (EventRegionKeyDone i)
                              (b1\<lparr>ub_children := AList.delete i (ub_children b1)\<rparr>))
                      | None \<Rightarrow>
                          map_option (Pair None)
                            (notify_end i \<lparr>pf_activity = i, pf_contacted = contacted, pf_errors = errs,
                               pf_query_stats = stats, pf_err = None\<rparr> b1))))"
| "publish_advance_region mc now region re b =
     (case map_of (ub_regions b) region of
        None \<Rightarrow> Some (None, b)
      | Some rp \<Rightarrow>
          (case region_advance (um_kad mc) (um_sort mc) re rp of
             (st, rp') \<Rightarrow>
               (let b1 = b\<lparr>ub_regions := AList.update region rp' (ub_regions b)\<rparr>
                in case st of
                     StateRegionStartKey child k nodes \<Rightarrow>
                       (case ub_record_source b1 of
                          None \<Rightarrow> None
                        | Some source \<Rightarrow>
                            publish_advance_pool mc now (Some (PoolStartStatic child k (source k) nodes))
                              (b1\<lparr>ub_children := AList.update child region (ub_children b1)\<rparr>))
                   | StateRegionFinished \<Rightarrow> Some (None, b1\<lparr>ub_regions := AList.delete region (ub_regions b1)\<rparr>)
                   | StateRegionWaiting due \<Rightarrow> Some (None, b1))))"
  by pat_completeness auto
termination
  by (relation "measure (case_sum (\<lambda>(mc, now, ev, b). 1) (\<lambda>(mc, now, region, re, b). if re = EventRegionPoll then 2 else 0))")
    (auto dest: region_starts_on_poll)

text \<open>\<open>advanceRegions\<close>; a region that is deleted before the loop gets to it is not visited.\<close>

fun publish_advance_regions ::
  "('k, 'n, 'm, 'p, 's) publish_machines \<Rightarrow> time \<Rightarrow> activity_id list \<Rightarrow> ('k, 'n, 'm, 'p, 's) publish_behaviour \<Rightarrow>
     (('k, 'n, 'm) behaviour_event option \<times> ('k, 'n, 'm, 'p, 's) publish_behaviour) option" where
  "publish_advance_regions mc now [] b = Some (None, b)"
| "publish_advance_regions mc now (region # regions) b =
     (case publish_advance_region mc now region EventRegionPoll b of
        None \<Rightarrow> None
      | Some (Some ev, b') \<Rightarrow> Some (Some ev, b')
      | Some (None, b') \<Rightarrow> publish_advance_regions mc now regions b')"

section \<open>Advancing the survey\<close>

definition region_activity :: "string \<Rightarrow> activity_id" where
  "region_activity region = ''region-'' @ region"

definition start_region_publish ::
  "string \<Rightarrow> 'n list \<Rightarrow> ('k, 'n, 'm, 'p, 's) publish_behaviour \<Rightarrow> ('k, 'n, 'm, 'p, 's) publish_behaviour" where
  "start_region_publish region nodes b =
     (case (ub_keystore b, ub_record_source b) of
        (Some keys_under, Some source) \<Rightarrow>
          (let keys = keys_under region
           in if length nodes = 0 \<or> length keys = 0 then b
              else case new_region_publish (region_activity region) keys nodes
                  (Some (default_region_publish_config\<lparr>rpc_replication := ub_region_replication b,
                     rpc_max_in_flight := ub_region_max_in_flight b\<rparr>)) of
                Inl e \<Rightarrow> b
              | Inr rp \<Rightarrow> b\<lparr>ub_regions := AList.update (region_activity region) rp (ub_regions b)\<rparr>)
      | _ \<Rightarrow> b)"

fun publish_survey_state ::
  "('k, 'n) survey_state \<Rightarrow> ('k, 'n, 'm, 'p, 's) publish_behaviour \<Rightarrow>
     ('k, 'n, 'm) behaviour_event option \<times> ('k, 'n, 'm, 'p, 's) publish_behaviour" where
  "publish_survey_state (StateSurveyFindCloser i target n stats) b =
     (Some (EventOutboundGetCloserNodes SurveyActivityID n target (Some (bh_ref b))), b)"
| "publish_survey_state (StateSurveyWaiting due stats) b = (None, b\<lparr>ub_survey_due := due\<rparr>)"
| "publish_survey_state (StateSurveyFinished region nodes stats) b =
     (None, start_region_publish region nodes (b\<lparr>ub_survey_due := zero_time, bh_poll_again := True\<rparr>))"
| "publish_survey_state (StateSurveyTimeout region stats) b = (None, b\<lparr>bh_poll_again := True\<rparr>)"
| "publish_survey_state (StateSurveyFailure region err) b = (None, b\<lparr>bh_poll_again := True\<rparr>)"
| "publish_survey_state (StateSurveyIdle due) b = (None, b\<lparr>ub_survey_due := due\<rparr>)"

definition publish_advance_survey ::
  "('k, 'n, 'm, 'p, 's) publish_machines \<Rightarrow> time \<Rightarrow> 'n survey_event \<Rightarrow> ('k, 'n, 'm, 'p, 's) publish_behaviour \<Rightarrow>
     (('k, 'n, 'm) behaviour_event option \<times> ('k, 'n, 'm, 'p, 's) publish_behaviour) option" where
  "publish_advance_survey mc now ev b =
     (case ub_survey b of
        None \<Rightarrow> Some (None, b)
      | Some s \<Rightarrow> map_option (\<lambda>(st, s'). publish_survey_state st (b\<lparr>ub_survey := Some s'\<rparr>)) (um_survey mc now ev s))"

section \<open>Performing\<close>

text \<open>
  The \<open>switch\<close> of \<open>performNextInbound\<close>: what is advanced with what. An event that no case handles leaves the
  command for the pool nil.
\<close>

datatype ('k, 'n, 'm) inbound_command =
    ToSurvey "'n survey_event"
  | ToPool "('k, 'n, 'm) pub_pool_event option"

fun publish_command ::
  "('k, 'n, 'm) behaviour_event \<Rightarrow> ('k, 'n, 'm, 'p, 's) publish_behaviour \<Rightarrow>
     (('k, 'n, 'm) inbound_command \<times> ('k, 'n, 'm, 'p, 's) publish_behaviour) option" where
  "publish_command (EventStartFollowUpPublish i target msg seed monitor) b =
     Some (ToPool (Some (PoolStartFollowUp i target msg seed)), add_notifier i monitor b)"
| "publish_command (EventStartStaticPublish i target msg nodes monitor) b =
     Some (ToPool (Some (PoolStartStatic i target msg nodes)), add_notifier i monitor b)"
| "publish_command (EventStartOptimisticPublish i target msg seed network_size monitor) b =
     Some (ToPool (Some (PoolStartOptimistic i target msg seed network_size)), add_notifier i monitor b)"
| "publish_command (EventGetCloserNodesSuccess i n target closer) b =
     (if i = SurveyActivityID then Some (ToSurvey (EventSurveyFindCloserResponse n closer), b)
      else map_option (Pair (ToPool (Some (PoolGetCloserNodesSuccess i n target closer))))
             (notify_progress i \<lparr>qe_activity = i, qe_node = n, qe_response = None, qe_stats = zero_query_stats\<rparr>
               (queue_outbound (map EventAddNode closer) b)))"
| "publish_command (EventGetCloserNodesFailure i n target err) b =
     (if i = SurveyActivityID then Some (ToSurvey (EventSurveyFindCloserFailure n err), b)
      else Some (ToPool (Some (PoolGetCloserNodesFailure i n target err)),
             queue_outbound [EventNotifyNonConnectivity n] b))"
| "publish_command (EventSendMessageSuccess i req n resp closer) b =
     map_option
       (Pair (ToPool (Some
         (case ub_verify_response b req resp of
            Some err \<Rightarrow> PoolStoreRecordFailure i n req err
          | None \<Rightarrow> PoolStoreRecordSuccess i n req resp))))
       (notify_progress i \<lparr>qe_activity = i, qe_node = n, qe_response = resp, qe_stats = zero_query_stats\<rparr>
         (queue_outbound (map EventAddNode closer) b))"
| "publish_command (EventSendMessageFailure i req n err) b =
     Some (ToPool (Some (PoolStoreRecordFailure i n req err)), queue_outbound [EventNotifyNonConnectivity n] b)"
| "publish_command (EventStopQuery i) b = Some (ToPool (Some (PoolStopPublish i)), b)"
| "publish_command _ b = Some (ToPool None, b)"

definition publish_perform_inbound ::
  "('k, 'n, 'm, 'p, 's) publish_machines \<Rightarrow> time \<Rightarrow> ('k, 'n, 'm, 'p, 's) publish_behaviour \<Rightarrow>
     (('k, 'n, 'm) behaviour_event option \<times> ('k, 'n, 'm, 'p, 's) publish_behaviour) option" where
  "publish_perform_inbound mc now b0 =
     (case next_pending_inbound b0 of
        (None, b) \<Rightarrow> Some (None, b)
      | (Some ev, b) \<Rightarrow>
          (case publish_command ev b of
             None \<Rightarrow> None
           | Some (ToSurvey sev, b') \<Rightarrow> publish_advance_survey mc now sev b'
           | Some (ToPool cmd, b') \<Rightarrow> publish_advance_pool mc now cmd b'))"

text \<open>
  \<open>Perform\<close> without the deferred call of \<open>updateReadyStatus\<close>: a sequence of steps that ends with the first
  that hands out an event.
\<close>

definition or_else ::
  "('e option \<times> 'b) option \<Rightarrow> ('b \<Rightarrow> ('e option \<times> 'b) option) \<Rightarrow> ('e option \<times> 'b) option" where
  "or_else r f =
     (case r of
        None \<Rightarrow> None
      | Some (Some ev, b) \<Rightarrow> Some (Some ev, b)
      | Some (None, b) \<Rightarrow> f b)"

definition publish_perform_work ::
  "('k, 'n, 'm, 'p, 's) publish_machines \<Rightarrow> (activity_id list \<Rightarrow> activity_id list) \<Rightarrow> (nat \<Rightarrow> time) \<Rightarrow>
     ('k, 'n, 'm, 'p, 's) publish_behaviour \<Rightarrow>
     (('k, 'n, 'm) behaviour_event option \<times> ('k, 'n, 'm, 'p, 's) publish_behaviour) option" where
  "publish_perform_work mc ord ts b0 =
     (case drain_notifiers (ord (map fst (nb_notifiers b0))) b0 of
        None \<Rightarrow> None
      | Some b1 \<Rightarrow>
          or_else (Some (next_pending_outbound b1)) (\<lambda>b2.
          or_else (publish_perform_inbound mc (ts 0) b2) (\<lambda>b3.
          or_else (publish_advance_regions mc (ts 1) (ord (map fst (ub_regions b3))) b3) (\<lambda>b4.
          or_else (publish_advance_survey mc (ts 2) EventSurveyPoll b4) (\<lambda>b5.
          or_else (publish_advance_pool mc (ts 3) (Some PoolPoll) b5) (\<lambda>b6.
          Some (next_pending_outbound b6)))))))"

definition publish_perform ::
  "('k, 'n, 'm, 'p, 's) publish_machines \<Rightarrow> (activity_id list \<Rightarrow> activity_id list) \<Rightarrow> (nat \<Rightarrow> time) \<Rightarrow>
     ('k, 'n, 'm, 'p, 's) publish_behaviour \<Rightarrow>
     (('k, 'n, 'm) behaviour_event option \<times> ('k, 'n, 'm, 'p, 's) publish_behaviour) option" where
  "publish_perform mc ord ts b =
     map_option (\<lambda>(out, b').
         (out, update_ready_status (ts 4) (out \<noteq> None) (earlier (nb_next_due b') (ub_survey_due b')) b'))
       (publish_perform_work mc ord ts b)"

end
