(* ===== verification/PublishBehaviourTheorems.thy ===== *)
theory PublishBehaviourTheorems
  imports PublishBehaviour QueryBehaviourTheorems RegionPublishTheorems
begin

text \<open>
  The publish behaviour holds a slot of a region only for a publish whose end will free it. It keeps to the
  contract of performing, and yet it can go to sleep with work to do: when a poll of the survey ends a survey, the
  poll of the pool that follows forgets that the survey is to be polled again.
\<close>

section \<open>The ids of the publishes of a region\<close>

lemma digit_char_not_dash: "d < 10 \<Longrightarrow> digit_char d \<noteq> CHR ''-''"
proof
  assume "d < 10" "digit_char d = CHR ''-''"
  moreover from \<open>d < 10\<close> have "(of_char (digit_char d) :: nat) = 48 + d" by (rule of_digit_char)
  ultimately show False by simp
qed

lemma decimal_no_dash: "CHR ''-'' \<notin> set (decimal n)"
proof (induction n rule: less_induct)
  case (less n)
  then show ?case
    using digit_char_not_dash [of n] digit_char_not_dash [of "n mod 10"]
    by (subst decimal.simps) auto
qed

lemma child_id_inj: "child_id r i = child_id r' j \<longleftrightarrow> r = r' \<and> i = j"
proof
  have split: "rev (takeWhile (\<lambda>c. c \<noteq> CHR ''-'') (rev (child_id r i))) = decimal i"
    "child_id r i = r @ CHR ''-'' # decimal i" for r i
  proof -
    have "takeWhile (\<lambda>c. c \<noteq> CHR ''-'') (rev (decimal i) @ CHR ''-'' # rev r) = rev (decimal i)"
      using decimal_no_dash [of i] by (subst takeWhile_append2) auto
    then show "rev (takeWhile (\<lambda>c. c \<noteq> CHR ''-'') (rev (child_id r i))) = decimal i"
      by (simp add: child_id_def)
  qed (simp add: child_id_def)
  assume eq: "child_id r i = child_id r' j"
  with split(1) have "decimal i = decimal j" by metis
  then have "i = j" by (simp add: decimal_inject)
  with eq split(2) show "r = r' \<and> i = j" by simp
qed simp

section \<open>Every slot belongs to a publish that frees it\<close>

text \<open>
  Each region stands under its own id, and each publish it has in flight is recorded as its child.
\<close>

definition slots_recorded ::
  "(activity_id \<times> ('k, 'n) region_publish) list \<Rightarrow> (activity_id \<times> activity_id) list \<Rightarrow> bool" where
  "slots_recorded regions children \<longleftrightarrow>
     (\<forall>r rp. map_of regions r = Some rp \<longrightarrow> rp_id rp = r \<and>
        (\<forall>c \<in> fst ` set (rp_in_flight rp). map_of children c = Some r \<and> (\<exists>i. c = child_id r i)))"

definition regions_ok :: "('k, 'n, 'm, 'p, 's) publish_behaviour \<Rightarrow> bool" where
  "regions_ok b \<longleftrightarrow> slots_recorded (ub_regions b) (ub_children b)"

lemma slots_recorded_starts:
  assumes "slots_recorded regions children" "map_of regions r = Some rp"
    "region_advance kd srt EventRegionPoll rp = (StateRegionStartKey c k nodes, rp')"
  shows "slots_recorded (AList.update r rp' regions) (AList.update c r children)"
proof -
  from assms(3) have c: "c = child_id (rp_id rp) (rp_cursor rp)"
    "rp_in_flight rp' = AList.update c (rp_cursor rp) (rp_in_flight rp)" "rp_id rp' = rp_id rp"
    by (auto simp: Let_def region_next_def split: if_splits)
  from assms(1,2) have id: "rp_id rp = r" by (simp add: slots_recorded_def)
  show ?thesis
    unfolding slots_recorded_def
  proof (intro allI impI conjI ballI)
    fix r' rp1 assume r': "map_of (AList.update r rp' regions) r' = Some rp1"
    then show "rp_id rp1 = r'"
      using assms(1) c(3) id by (auto simp: update_conv slots_recorded_def split: if_splits)
    fix d assume d: "d \<in> fst ` set (rp_in_flight rp1)"
    have "d = c \<and> r' = r \<or> d \<noteq> c \<and> map_of children d = Some r' \<and> (\<exists>i. d = child_id r' i)"
    proof (cases "r' = r")
      case True
      with r' have "rp1 = rp'" by (simp add: update_conv)
      with d c(2) have "d = c \<or> d \<in> fst ` set (rp_in_flight rp)" by (auto simp: dom_update)
      with True assms(1,2) show ?thesis by (auto simp: slots_recorded_def)
    next
      case False
      with r' d assms(1) have "map_of children d = Some r' \<and> (\<exists>i. d = child_id r' i)"
        by (auto simp: update_conv slots_recorded_def)
      with False c(1) id show ?thesis by (auto simp: child_id_inj)
    qed
    then show "map_of (AList.update c r children) d = Some r'" "\<exists>i. d = child_id r' i"
      using c(1) id by (auto simp: update_conv)
  qed
qed

lemma fst_set_delete: "fst ` set (AList.delete k al) = fst ` set al - {k}"
  by (metis AList.delete_keys list.set_map set_removeAll)

lemma slots_recorded_done:
  assumes "slots_recorded regions children" "map_of regions r = Some rp" "map_of children c = Some r"
  shows "slots_recorded (AList.update r (rp\<lparr>rp_in_flight := AList.delete c (rp_in_flight rp)\<rparr>) regions)
    (AList.delete c children)"
  unfolding slots_recorded_def
proof (intro allI impI conjI ballI)
  fix r' rp1 assume r': "map_of (AList.update r (rp\<lparr>rp_in_flight := AList.delete c (rp_in_flight rp)\<rparr>) regions) r' = Some rp1"
  then show "rp_id rp1 = r'" using assms(1,2) by (auto simp: update_conv slots_recorded_def split: if_splits)
  fix d assume d: "d \<in> fst ` set (rp_in_flight rp1)"
  have "map_of children d = Some r' \<and> (\<exists>i. d = child_id r' i) \<and> (r' = r \<longrightarrow> d \<noteq> c)"
  proof (cases "r' = r")
    case True
    then have "d \<in> fst ` set (AList.delete c (rp_in_flight rp))" using r' d by (auto simp: update_conv)
    then have "d \<in> fst ` set (rp_in_flight rp)" "d \<noteq> c"
      unfolding fst_set_delete by blast+
    with True assms(1,2) show ?thesis by (auto simp: slots_recorded_def)
  next
    case False
    with r' d assms(1) show ?thesis by (auto simp: update_conv slots_recorded_def)
  qed
  then show "map_of (AList.delete c children) d = Some r'" "\<exists>i. d = child_id r' i"
    using assms(3) by (auto simp: delete_conv)
qed

lemma slots_recorded_lost_region:
  "slots_recorded regions children \<Longrightarrow> map_of children c = Some r \<Longrightarrow> map_of regions r = None \<Longrightarrow>
     slots_recorded regions (AList.delete c children)"
  unfolding slots_recorded_def delete_conv' fun_upd_def
proof (intro allI impI conjI ballI)
  fix r' rp c'
  assume ok: "\<forall>r rp. map_of regions r = Some rp \<longrightarrow> rp_id rp = r \<and>
      (\<forall>c \<in> fst ` set (rp_in_flight rp). map_of children c = Some r \<and> (\<exists>i. c = child_id r i))"
    and c: "map_of children c = Some r" "map_of regions r = None"
    and r': "map_of regions r' = Some rp"
  from ok r' show "rp_id rp = r'" by blast
  assume "c' \<in> fst ` set (rp_in_flight rp)"
  with ok r' have c': "map_of children c' = Some r'" "\<exists>i. c' = child_id r' i" by blast+
  with c r' show "(if c' = c then None else map_of children c') = Some r'" by auto
  from c'(2) show "\<exists>i. c' = child_id r' i" .
qed

lemma slots_recorded_delete: "slots_recorded regions children \<Longrightarrow> slots_recorded (AList.delete r regions) children"
  by (auto simp: slots_recorded_def delete_conv split: if_splits)

lemma slots_recorded_update_same:
  "slots_recorded regions children \<Longrightarrow> map_of regions r = Some rp \<Longrightarrow> slots_recorded (AList.update r rp regions) children"
  by (auto simp: slots_recorded_def update_conv split: if_splits)

lemma slots_recorded_fresh:
  "slots_recorded regions children \<Longrightarrow> rp_id rp = r \<Longrightarrow> rp_in_flight rp = [] \<Longrightarrow>
     slots_recorded (AList.update r rp regions) children"
  by (auto simp: slots_recorded_def update_conv split: if_splits)

lemma region_polled:
  assumes "region_advance kd srt EventRegionPoll rp = (st, rp')" "\<forall>c k ns. st \<noteq> StateRegionStartKey c k ns"
  shows "rp' = rp"
  using assms by (auto simp: Let_def split: if_splits)

declare publish_advance_pool.simps [simp del] publish_advance_region.simps [simp del]

text \<open>What the operations on notifiers leave alone.\<close>

lemma publish_more:
  fixes b b' :: "('k, 'n, 'm, 'p, 's) publish_behaviour"
  assumes "notifying.more b' = notifying.more b"
  shows "ub_regions b' = ub_regions b" "ub_children b' = ub_children b" "ub_pool b' = ub_pool b"
    "ub_survey b' = ub_survey b" "ub_survey_due b' = ub_survey_due b" "ub_keystore b' = ub_keystore b"
    "ub_record_source b' = ub_record_source b"
  using assms by (cases b; cases b'; simp)+

lemma publish_advance_ok:
  "\<forall>out b'. publish_advance_pool mc now ev b = Some (out, b') \<longrightarrow> regions_ok b \<longrightarrow>
     regions_ok b' \<and> bh_inbound b' = bh_inbound b \<and> ub_survey b' = ub_survey b"
  "\<forall>out b'. publish_advance_region mc now region re b = Some (out, b') \<longrightarrow>
     (case re of EventRegionPoll \<Rightarrow> regions_ok b
      | EventRegionKeyDone c \<Rightarrow> \<exists>children. slots_recorded (ub_regions b) children \<and> map_of children c = Some region \<and>
          ub_children b = AList.delete c children) \<longrightarrow>
     regions_ok b' \<and> bh_inbound b' = bh_inbound b \<and> ub_survey b' = ub_survey b"
proof (induction mc now ev b and mc now region re b rule: publish_advance_pool_publish_advance_region.induct)
  case (1 mc now b0)
  then show ?case by (simp add: publish_advance_pool.simps)
next
  case (2 mc now ev b0)
  show ?case
  proof (intro allI impI)
    fix out b' assume adv: "publish_advance_pool mc now (Some ev) b0 = Some (out, b')" and ok: "regions_ok b0"
    note adv = adv [unfolded publish_advance_pool.simps]
    from adv obtain st pool where st: "um_pool mc now ev (ub_pool b0) = Some (st, pool)"
      by (auto split: option.splits)
    let ?b = "b0\<lparr>bh_poll_again := False, ub_pool := pool\<rparr>"
    show "regions_ok b' \<and> bh_inbound b' = bh_inbound b0 \<and> ub_survey b' = ub_survey b0"
    proof (cases "\<exists>i contacted errs stats. st = PoolPublishFinished i contacted errs stats")
      case False
      with adv st ok show ?thesis by (cases st) (auto simp: regions_ok_def Let_def)
    next
      case True
      then obtain i contacted errs stats where fin: "st = PoolPublishFinished i contacted errs stats" by blast
      let ?b1 = "?b\<lparr>bh_poll_again := True\<rparr>"
      show ?thesis
      proof (cases "map_of (ub_children ?b1) i")
        case None
        with adv st fin obtain ev' where "notify_end i ev' ?b1 = Some b'" by (auto simp: Let_def)
        from notify_end_keeps [OF this] publish_more [of b' ?b1] ok show ?thesis by (simp add: regions_ok_def)
      next
        case (Some region)
        let ?b2 = "?b1\<lparr>ub_children := AList.delete i (ub_children ?b1)\<rparr>"
        from adv st fin Some obtain out2 where rec: "publish_advance_region mc now region (EventRegionKeyDone i) ?b2 = Some (out2, b')"
          by (auto simp: Let_def)
        have "\<exists>children. slots_recorded (ub_regions ?b2) children \<and> map_of children i = Some region \<and>
            ub_children ?b2 = AList.delete i children"
          using ok Some by (auto simp: regions_ok_def)
        with "2.IH" [OF st refl refl fin refl Some] rec show ?thesis by simp
      qed
    qed
  qed
next
  case (3 mc now region re b)
  show ?case
  proof (intro allI impI)
    fix out b' assume adv: "publish_advance_region mc now region re b = Some (out, b')"
      and ok: "case re of EventRegionPoll \<Rightarrow> regions_ok b
        | EventRegionKeyDone c \<Rightarrow> \<exists>children. slots_recorded (ub_regions b) children \<and> map_of children c = Some region \<and>
            ub_children b = AList.delete c children"
    note adv = adv [unfolded publish_advance_region.simps]
    show "regions_ok b' \<and> bh_inbound b' = bh_inbound b \<and> ub_survey b' = ub_survey b"
    proof (cases "map_of (ub_regions b) region")
      case None
      with adv ok show ?thesis by (cases re) (auto simp: regions_ok_def slots_recorded_lost_region)
    next
      case (Some rp)
      obtain st rp' where st: "region_advance (um_kad mc) (um_sort mc) re rp = (st, rp')" by fastforce
      let ?b1 = "b\<lparr>ub_regions := AList.update region rp' (ub_regions b)\<rparr>"
      show ?thesis
      proof (cases "\<exists>child k nodes. st = StateRegionStartKey child k nodes")
        case True
        then obtain child k nodes where start: "st = StateRegionStartKey child k nodes" by blast
        with st region_starts_on_poll have poll: "re = EventRegionPoll" by metis
        from adv Some st start obtain source where source: "ub_record_source ?b1 = Some source"
          and rec: "publish_advance_pool mc now (Some (PoolStartStatic child k (source k) nodes))
            (?b1\<lparr>ub_children := AList.update child region (ub_children ?b1)\<rparr>) = Some (out, b')"
          by (auto simp: Let_def split: option.splits)
        have "regions_ok (?b1\<lparr>ub_children := AList.update child region (ub_children ?b1)\<rparr>)"
          using slots_recorded_starts [OF _ Some st [unfolded poll start]] ok poll by (simp add: regions_ok_def)
        with "3.IH" [OF Some st [symmetric] refl start source] rec show ?thesis by simp
      next
        case False
        have ok1: "regions_ok ?b1"
        proof (cases re)
          case EventRegionPoll
          with st False region_polled [of "um_kad mc" "um_sort mc" rp st rp'] ok Some show ?thesis
            by (auto simp: regions_ok_def intro: slots_recorded_update_same)
        next
          case (EventRegionKeyDone c)
          with st ok Some slots_recorded_done show ?thesis by (fastforce simp: regions_ok_def Let_def)
        qed
        with adv Some st False show ?thesis
          by (cases st) (auto simp: Let_def regions_ok_def slots_recorded_delete)
      qed
    qed
  qed
qed

lemma notify_end_fields: "notify_end i ev b = Some b' \<Longrightarrow> bh_inbound b' = bh_inbound b \<and> notifying.more b' = notifying.more b"
  by (simp add: notify_end_keeps)

lemma publish_advance_keeps:
  "\<forall>out b'. publish_advance_pool mc now ev b = Some (out, b') \<longrightarrow>
     bh_inbound b' = bh_inbound b \<and> ub_survey b' = ub_survey b"
  "\<forall>out b'. publish_advance_region mc now region re b = Some (out, b') \<longrightarrow>
     bh_inbound b' = bh_inbound b \<and> ub_survey b' = ub_survey b"
proof (induction mc now ev b and mc now region re b rule: publish_advance_pool_publish_advance_region.induct)
  case (1 mc now b0)
  then show ?case by (simp add: publish_advance_pool.simps)
next
  case (2 mc now ev b0)
  show ?case
  proof (intro allI impI)
    fix out b' assume "publish_advance_pool mc now (Some ev) b0 = Some (out, b')"
    note adv = this [unfolded publish_advance_pool.simps]
    then obtain st pool where st: "um_pool mc now ev (ub_pool b0) = Some (st, pool)" by (auto split: option.splits)
    show "bh_inbound b' = bh_inbound b0 \<and> ub_survey b' = ub_survey b0"
    proof (cases st)
      case (PoolPublishFinished i contacted errs stats)
      show ?thesis
      proof (cases "map_of (ub_children b0) i")
        case None
        with adv st PoolPublishFinished obtain ev' b1 where "notify_end i ev' b1 = Some b'"
          "bh_inbound b1 = bh_inbound b0" "ub_survey b1 = ub_survey b0" by (force simp: Let_def)
        with notify_end_keeps [OF this(1)] publish_more [of b' b1] show ?thesis by simp
      next
        case (Some region)
        with adv st PoolPublishFinished "2.IH" [OF st refl refl PoolPublishFinished refl] show ?thesis
          by (auto simp: Let_def)
      qed
    qed (use adv st in \<open>auto simp: Let_def\<close>)
  qed
next
  case (3 mc now region re b)
  show ?case
  proof (intro allI impI)
    fix out b' assume "publish_advance_region mc now region re b = Some (out, b')"
    note adv = this [unfolded publish_advance_region.simps]
    show "bh_inbound b' = bh_inbound b \<and> ub_survey b' = ub_survey b"
    proof (cases "map_of (ub_regions b) region")
      case None
      with adv show ?thesis by simp
    next
      case (Some rp)
      obtain st rp' where st: "region_advance (um_kad mc) (um_sort mc) re rp = (st, rp')" by fastforce
      show ?thesis
      proof (cases st)
        case (StateRegionStartKey child k nodes)
        with adv Some st "3.IH" [OF Some st [symmetric] refl StateRegionStartKey] show ?thesis
          by (auto simp: Let_def split: option.splits)
      qed (use adv Some st in \<open>auto simp: Let_def\<close>)
    qed
  qed
qed

section \<open>Performing\<close>

text \<open>A survey that finishes replaces the publish of its region with a fresh one.\<close>

lemma new_region_publish_fresh:
  "new_region_publish r keys nodes cfg = Inr rp \<Longrightarrow> rp_id rp = r \<and> rp_in_flight rp = []"
  by (auto simp: new_region_publish_def Let_def split: option.splits)

lemma start_region_publish_ok:
  "regions_ok b \<Longrightarrow> regions_ok (start_region_publish region nodes b)"
  "bh_inbound (start_region_publish region nodes b) = bh_inbound b"
  by (auto simp: start_region_publish_def regions_ok_def Let_def new_region_publish_fresh
      intro!: slots_recorded_fresh split: option.splits sum.splits)

lemma publish_advance_survey_ok:
  assumes "publish_advance_survey mc now ev b = Some (out, b')"
  shows "regions_ok b \<Longrightarrow> regions_ok b'" "bh_inbound b' = bh_inbound b"
proof -
  have "(regions_ok b \<longrightarrow> regions_ok b') \<and> bh_inbound b' = bh_inbound b"
  proof (cases "ub_survey b")
    case None
    with assms show ?thesis by (simp add: publish_advance_survey_def)
  next
    case (Some s)
    with assms obtain st s' where "publish_survey_state st (b\<lparr>ub_survey := Some s'\<rparr>) = (out, b')"
      by (auto simp: publish_advance_survey_def)
    then show ?thesis
      by (cases st) (auto simp: regions_ok_def start_region_publish_ok
          intro: start_region_publish_ok(1) [unfolded regions_ok_def])
  qed
  then show "regions_ok b \<Longrightarrow> regions_ok b'" "bh_inbound b' = bh_inbound b" by blast+
qed

lemma publish_advance_regions_ok:
  assumes "publish_advance_regions mc now regions b = Some (out, b')"
  shows "(regions_ok b \<longrightarrow> regions_ok b') \<and> bh_inbound b' = bh_inbound b"
  using assms
proof (induction regions arbitrary: b)
  case (Cons region regions)
  then obtain out1 b1 where b1: "publish_advance_region mc now region EventRegionPoll b = Some (out1, b1)"
    by (auto split: option.splits)
  with publish_advance_ok(2) [of mc now region EventRegionPoll b]
    publish_advance_keeps(2) [of mc now region EventRegionPoll b]
  have "(regions_ok b \<longrightarrow> regions_ok b1) \<and> bh_inbound b1 = bh_inbound b" by auto
  with Cons b1 show ?case by (cases out1) auto
qed simp

lemma publish_command_ok:
  fixes b :: "('k, 'n, 'm, 'p, 's) publish_behaviour"
  assumes "publish_command ev b = Some (cmd, b')"
  shows "(regions_ok b \<longrightarrow> regions_ok b') \<and> bh_inbound b' = bh_inbound b"
proof -
  have more: "ub_regions b1 = ub_regions b \<and> ub_children b1 = ub_children b \<and> bh_inbound b1 = bh_inbound b"
    if "b1 = b \<or> (\<exists>i m. b1 = add_notifier i m b) \<or> (\<exists>evs. b1 = queue_outbound evs b) \<or>
      (\<exists>i pe evs. notify_progress i pe (queue_outbound evs b) = Some b1)" for b1
    using that
    by (auto simp: behaviour_simps publish_more [OF add_notifier_simps(5)] queue_outbound_def
        notify_progress_keeps publish_more [OF notify_progress_keeps(5)])
  have "b' = b \<or> (\<exists>i m. b' = add_notifier i m b) \<or> (\<exists>evs. b' = queue_outbound evs b) \<or>
      (\<exists>i pe evs. notify_progress i pe (queue_outbound evs b) = Some b')"
    using assms by (cases ev) (auto split: if_splits)
  from more [OF this] show ?thesis by (simp add: regions_ok_def)
qed

lemma publish_fields_cong:
  "regions_ok b \<Longrightarrow> ub_regions b' = ub_regions b \<Longrightarrow> ub_children b' = ub_children b \<Longrightarrow> regions_ok b'"
  by (simp add: regions_ok_def)

text \<open>What each step of a \<open>Perform\<close> keeps.\<close>

definition step_keeps ::
  "('k, 'n, 'm, 'p, 's) publish_behaviour \<Rightarrow> ('k, 'n, 'm, 'p, 's) publish_behaviour \<Rightarrow> bool" where
  "step_keeps b b' \<longleftrightarrow> (regions_ok b \<longrightarrow> regions_ok b') \<and> (inbound_ok (bh_inbound b) \<longrightarrow> inbound_ok (bh_inbound b'))"

lemma step_keeps_refl [simp]: "step_keeps b b"
  by (simp add: step_keeps_def)

lemma step_keeps_trans: "step_keeps b b1 \<Longrightarrow> step_keeps b1 b2 \<Longrightarrow> step_keeps b b2"
  by (simp add: step_keeps_def)

lemma publish_perform_inbound_keeps:
  assumes "publish_perform_inbound mc now b = Some (out, b')"
  shows "step_keeps b b'"
proof -
  obtain ce b1 where b1: "next_pending_inbound b = (ce, b1)" by fastforce
  have 1: "step_keeps b b1"
    using next_pending_inbound_ok [of b] b1
    by (auto simp: step_keeps_def regions_ok_def next_pending_inbound_def split: prod.splits)
  show ?thesis
  proof (cases ce)
    case None
    with assms b1 1 show ?thesis by (simp add: publish_perform_inbound_def)
  next
    case (Some ev)
    with assms b1 obtain cmd b2 where b2: "publish_command ev b1 = Some (cmd, b2)"
      by (auto simp: publish_perform_inbound_def split: option.splits)
    have 2: "step_keeps b1 b2" using publish_command_ok [OF b2] by (simp add: step_keeps_def)
    have "step_keeps b2 b'"
    proof (cases cmd)
      case (ToSurvey sev)
      with assms b1 Some b2 have "publish_advance_survey mc now sev b2 = Some (out, b')"
        by (simp add: publish_perform_inbound_def)
      from publish_advance_survey_ok [OF this] show ?thesis by (simp add: step_keeps_def)
    next
      case (ToPool pev)
      with assms b1 Some b2 have "publish_advance_pool mc now pev b2 = Some (out, b')"
        by (simp add: publish_perform_inbound_def)
      with publish_advance_ok(1) [of mc now pev b2] publish_advance_keeps(1) [of mc now pev b2] show ?thesis
        by (simp add: step_keeps_def)
    qed
    with 1 2 show ?thesis by (blast intro: step_keeps_trans)
  qed
qed

lemma or_else_keeps:
  assumes "or_else r f = Some (out, b')" "\<And>o1 b1. r = Some (o1, b1) \<Longrightarrow> step_keeps b b1"
    "\<And>b1. r = Some (None, b1) \<Longrightarrow> f b1 = Some (out, b') \<Longrightarrow> step_keeps b1 b'"
  shows "step_keeps b b'"
proof -
  from assms(1) obtain o1 b1 where r: "r = Some (o1, b1)" by (auto simp: or_else_def split: option.splits)
  show ?thesis
  proof (cases o1)
    case None
    with assms(1) r assms(3) [of b1] assms(2) [of o1 b1] show ?thesis
      by (auto simp: or_else_def intro: step_keeps_trans)
  next
    case (Some ev)
    with assms(1) r assms(2) [of o1 b1] show ?thesis by (simp add: or_else_def)
  qed
qed

lemma next_pending_outbound_step: "Some (next_pending_outbound b) = Some (out, b') \<Longrightarrow> step_keeps b b'"
  by (auto simp: step_keeps_def regions_ok_def next_pending_outbound_def split: list.splits)

lemma publish_advance_steps:
  "publish_advance_pool mc now (Some pev) b = Some (out, b') \<Longrightarrow> step_keeps b b'"
  "publish_advance_regions mc now regions b = Some (out, b') \<Longrightarrow> step_keeps b b'"
  "publish_advance_survey mc now sev b = Some (out, b') \<Longrightarrow> step_keeps b b'"
  using publish_advance_ok(1) [of mc now "Some pev" b] publish_advance_keeps(1) [of mc now "Some pev" b]
    publish_advance_regions_ok [of mc now regions b out b'] publish_advance_survey_ok [of mc now sev b out b']
  by (simp_all add: step_keeps_def)

lemma publish_perform_work_keeps:
  assumes "publish_perform_work mc ord ts b = Some (out, b')"
  shows "step_keeps b b'"
proof -
  from assms obtain b1 where b1: "drain_notifiers (ord (map fst (nb_notifiers b))) b = Some b1"
    by (auto simp: publish_perform_work_def split: option.splits)
  from drain_notifiers_keeps [OF b1] have "bh_inbound b1 = bh_inbound b" "notifying.more b1 = notifying.more b" by simp_all
  with publish_more [of b1 b] have drained: "step_keeps b b1" by (simp add: step_keeps_def regions_ok_def)
  from assms b1 have work: "or_else (Some (next_pending_outbound b1)) (\<lambda>b2.
      or_else (publish_perform_inbound mc (ts 0) b2) (\<lambda>b3.
      or_else (publish_advance_regions mc (ts 1) (ord (map fst (ub_regions b3))) b3) (\<lambda>b4.
      or_else (publish_advance_survey mc (ts 2) EventSurveyPoll b4) (\<lambda>b5.
      or_else (publish_advance_pool mc (ts 3) (Some PoolPoll) b5) (\<lambda>b6.
      Some (next_pending_outbound b6)))))) = Some (out, b')"
    by (simp add: publish_perform_work_def)
  have "step_keeps b1 b'"
    by (rule or_else_keeps [OF work], erule next_pending_outbound_step, erule or_else_keeps,
        erule publish_perform_inbound_keeps, erule or_else_keeps, erule publish_advance_steps(2),
        erule or_else_keeps, erule publish_advance_steps(3), erule or_else_keeps, erule publish_advance_steps(1),
        erule next_pending_outbound_step)
  with drained show ?thesis by (rule step_keeps_trans)
qed

section \<open>The contract with the event loop\<close>

type_synonym ('k, 'n, 'm, 'p, 's) publish_call =
  "('k, 'n, 'm, 'p, 's) publish_machines \<times> (activity_id list \<Rightarrow> activity_id list) \<times> (nat \<Rightarrow> time)"

fun publish_performs ::
  "('k, 'n, 'm, 'p, 's) publish_call \<Rightarrow> ('k, 'n, 'm, 'p, 's) publish_behaviour \<Rightarrow>
     (('k, 'n, 'm) behaviour_event option \<times> ('k, 'n, 'm, 'p, 's) publish_behaviour) option" where
  "publish_performs (mc, ord, ts) b = publish_perform mc ord ts b"

lemma publish_performE:
  assumes "publish_perform mc ord ts b = Some (out, b')"
  obtains b1 where "publish_perform_work mc ord ts b = Some (out, b1)"
    "b' = update_ready_status (ts 4) (out \<noteq> None) (earlier (nb_next_due b1) (ub_survey_due b1)) b1"
  using assms by (auto simp: publish_perform_def)

lemma update_ready_status_publish [simp]:
  fixes b :: "('k, 'n, 'm, 'p, 's) publish_behaviour"
  shows "ub_survey_due (update_ready_status now p d b) = ub_survey_due b"
    "ub_regions (update_ready_status now p d b) = ub_regions b"
    "ub_children (update_ready_status now p d b) = ub_children b"
  by (simp_all add: update_ready_status_def signal_ready_def arm_timer_def)

interpretation publish_loop: performing publish_performs behaviour.truncate
  "\<lambda>b. earlier (nb_next_due b) (ub_survey_due b)" "\<lambda>(mc, ord, ts). ts 4"
proof (unfold_locales, goal_cases)
  case (1 c s out s')
  obtain mc ord ts where c: "c = (mc, ord, ts)" by (metis surj_pair)
  with 1 have "publish_perform mc ord ts s = Some (out, s')" by simp
  then show ?case using c by (elim publish_performE) (auto simp: truncate_update_ready_status)
next
  case (2 c s out s')
  obtain mc ord ts where c: "c = (mc, ord, ts)" by (metis surj_pair)
  with 2 have "publish_perform mc ord ts s = Some (out, s')" by simp
  then obtain b1 where "publish_perform_work mc ord ts s = Some (out, b1)"
    "s' = update_ready_status (ts 4) (out \<noteq> None) (earlier (nb_next_due b1) (ub_survey_due b1)) b1"
    by (rule publish_performE)
  with publish_perform_work_keeps [of mc ord ts s out b1] 2(2) show ?case
    by (simp add: step_keeps_def update_ready_status_simps)
qed

section \<open>The life of a behaviour\<close>

text \<open>
  What can happen to the behaviour: it is created, notified and performed; the event loop takes its signal and
  its timer fires; its callers receive from their monitors, and the key store is another one.
\<close>

type_synonym ('k, 'n, 'm, 'p, 'tr, 'rt, 'g) surveyed =
  "('k, 'n, 'm, 'p, ('k, 'n, 'tr, 'rt, 'g) survey_machine) publish_behaviour"

inductive publish_behaviour_reached ::
  "('k, 'n, 'm, 'p, ('k, 'n, 'tr, 'rt, 'g) survey_machine) publish_machines \<Rightarrow>
     ('k, 'n, 'm, 'p, 'tr, 'rt, 'g) surveyed \<Rightarrow> bool"
  for mc :: "('k, 'n, 'm, 'p, ('k, 'n, 'tr, 'rt, 'g) survey_machine) publish_machines" where
  created: "new_publish_behaviour (um_kad mc) rnd a ms pool self rt cfg = Inr b \<Longrightarrow> publish_behaviour_reached mc b"
| notified: "publish_behaviour_reached mc b \<Longrightarrow> publish_notify ev b = Some b' \<Longrightarrow> publish_behaviour_reached mc b'"
| performed: "publish_behaviour_reached mc b \<Longrightarrow> publish_perform mc ord ts b = Some (out, b') \<Longrightarrow>
    publish_behaviour_reached mc b'"
| taken: "publish_behaviour_reached mc b \<Longrightarrow> publish_behaviour_reached mc (take_ready b)"
| fired: "publish_behaviour_reached mc b \<Longrightarrow> publish_behaviour_reached mc (timer_fires now b)"
| received: "publish_behaviour_reached mc b \<Longrightarrow> publish_behaviour_reached mc (b\<lparr>nb_monitors := ms\<rparr>)"
| stored: "publish_behaviour_reached mc b \<Longrightarrow> publish_behaviour_reached mc (b\<lparr>ub_keystore := ks\<rparr>)"

lemma publish_notify_keeps:
  assumes "publish_notify ev b = Some b'"
  shows "step_keeps b b'"
proof -
  obtain q b1 where b1: "notify_inbound ev b = (q, b1)" by fastforce
  from notify_inbound_ok [of b ev] b1 have 1: "step_keeps b b1"
    by (auto simp: step_keeps_def regions_ok_def notify_inbound_def signal_ready_def split: prod.splits bool.splits)
  show ?thesis
  proof (cases "b' = b1")
    case False
    with assms b1 obtain i m ev' where dropped: "report_dropped m ev' b1 = Some b'"
      by (auto simp: publish_notify_def split: bool.splits option.splits)
    from report_dropped_keeps [OF dropped] publish_more [of b' b1] have "step_keeps b1 b'"
      by (simp add: step_keeps_def regions_ok_def)
    with 1 show ?thesis by (rule step_keeps_trans)
  qed (use 1 in simp)
qed

lemma publish_behaviour_reached_ok:
  "publish_behaviour_reached mc b \<Longrightarrow> regions_ok b \<and> inbound_ok (bh_inbound b)"
proof (induction rule: publish_behaviour_reached.induct)
  case (created rnd a ms pool self rt cfg b)
  then show ?case
    by (auto simp: new_publish_behaviour_def Let_def new_behaviour_def behaviour.defs notifying.defs signal_ready_def
        publish_behaviour.defs regions_ok_def slots_recorded_def split: option.splits sum.splits if_splits)
next
  case (notified b ev b')
  then show ?case using publish_notify_keeps [of ev b b'] by (simp add: step_keeps_def)
next
  case (performed b ord ts out b')
  then obtain b1 where "publish_perform_work mc ord ts b = Some (out, b1)"
    "b' = update_ready_status (ts 4) (out \<noteq> None) (earlier (nb_next_due b1) (ub_survey_due b1)) b1"
    by (auto elim: publish_performE)
  with publish_perform_work_keeps [of mc ord ts b out b1] performed(3) show ?case
    by (simp add: step_keeps_def regions_ok_def update_ready_status_simps)
qed (auto simp: regions_ok_def take_ready_def timer_fires_def signal_ready_def split: option.splits)

text \<open>
  C37: invariant. Whatever happens to the publish behaviour, a region publish stands under its own id, and every
  slot it holds belongs to a publish that the behaviour knows as a child of that region. So when the pool
  reports that publish ended, the slot is given back: no region holds it any more, and the behaviour is to
  poll again.
\<close>

theorem publish_slots_freed:
  assumes "publish_behaviour_reached mc b" "um_pool mc now ev (ub_pool b) = Some (PoolPublishFinished c contacted errs stats, pool)"
    "publish_advance_pool mc now (Some ev) b = Some (out, b')"
  shows "(\<forall>r rp d. map_of (ub_regions b) r = Some rp \<longrightarrow> d \<in> fst ` set (rp_in_flight rp) \<longrightarrow>
      rp_id rp = r \<and> map_of (ub_children b) d = Some r) \<and>
    (\<forall>r rp. map_of (ub_regions b') r = Some rp \<longrightarrow> c \<notin> fst ` set (rp_in_flight rp)) \<and>
    out = None \<and> bh_poll_again b'"
proof -
  from publish_behaviour_reached_ok [OF assms(1)] have ok: "regions_ok b" by simp
  have ended: "map_of (ub_children b') c = None \<and> out = None \<and> bh_poll_again b'"
  proof (cases "map_of (ub_children b) c")
    case None
    with assms(2,3) obtain ev' b1 where "notify_end c ev' b1 = Some b'" "bh_poll_again b1" "out = None"
      "ub_children b1 = ub_children b" by (force simp: publish_advance_pool.simps Let_def)
    with notify_end_keeps [OF this(1)] publish_more [of b' b1] None show ?thesis by simp
  next
    case (Some region)
    let ?b2 = "b\<lparr>ub_pool := pool, bh_poll_again := True, ub_children := AList.delete c (ub_children b)\<rparr>"
    from assms(2,3) Some obtain o1 where adv: "publish_advance_region mc now region (EventRegionKeyDone c) ?b2 = Some (o1, b')"
      and out: "out = None" by (auto simp: publish_advance_pool.simps Let_def)
    then show ?thesis
      by (auto simp: publish_advance_region.simps Let_def region_next_def delete_conv split: option.splits if_splits)
  qed
  from publish_advance_ok(1) [of mc now "Some ev" b] assms(3) ok have "regions_ok b'" by simp
  with ok ended show ?thesis by (fastforce simp: regions_ok_def slots_recorded_def)
qed

text \<open>
  C38: safety, of a defect. When a poll of the survey ends a survey, the behaviour marks itself as to be polled
  again and begins to publish the region, whose first key the next \<open>Perform\<close> would start. But the poll of the
  pool that follows in the same \<open>Perform\<close> clears the mark: with nothing else to do, the behaviour has neither
  signalled nor armed its timer, and the keys of the region wait for an event that has nothing to do with them.
\<close>

theorem publish_survey_end_is_lost:
  assumes "nb_notifiers b = []" "bh_pending_outbound b = []" "bh_inbound b = new_inbound_queue capacity" "ub_regions b = []"
    "ub_survey b = Some s" "um_survey mc (ts 2) EventSurveyPoll s = Some (StateSurveyFinished region nodes stats, s')"
    "um_pool mc (ts 3) PoolPoll (ub_pool b) = Some (PoolIdle, pool)"
    "ub_keystore b = Some keys_under" "keys_under region \<noteq> []" "ub_record_source b = Some source" "nodes \<noteq> []"
    "1 \<le> ub_region_replication b" "1 \<le> ub_region_max_in_flight b" "range_order ord"
  shows "\<exists>b' rp. publish_perform mc ord ts (take_ready b) = Some (None, b') \<and>
    \<not> bh_ready b' \<and> bh_timer b' = None \<and> \<not> bh_poll_again b' \<and>
    map_of (ub_regions b') (region_activity region) = Some rp \<and>
    rp_keys rp = keys_under region \<and> rp_cursor rp = 0 \<and> fst (region_advance kd srt EventRegionPoll rp) =
      StateRegionStartKey (child_id (region_activity region) 0) (hd (keys_under region))
        (region_closest kd srt nodes (hd (keys_under region)) (ub_region_replication b))"
proof -
  have ord: "ord [] = []" using range_order_set [OF assms(14), of "[]"] by simp
  let ?rp = "\<lparr>rp_id = region_activity region, rp_keys = keys_under region, rp_nodes = nodes,
    rp_r = ub_region_replication b, rp_max_in_flight = ub_region_max_in_flight b, rp_cursor = 0, rp_in_flight = []\<rparr>"
  have rp: "new_region_publish (region_activity region) (keys_under region) nodes
      (Some (default_region_publish_config\<lparr>rpc_replication := ub_region_replication b,
         rpc_max_in_flight := ub_region_max_in_flight b\<rparr>)) = Inr ?rp"
    using assms(12,13) by (simp add: new_region_publish_def region_publish_config_validate_def default_region_publish_config_def)
  have work: "publish_perform_work mc ord ts (take_ready b) = Some (None, (take_ready b)\<lparr>ub_survey := Some s',
      ub_survey_due := zero_time, ub_regions := [(region_activity region, ?rp)], bh_poll_again := False,
      ub_pool := pool, nb_next_due := zero_time\<rparr>)"
    using assms(1-11) rp
    by (simp add: publish_perform_work_def ord or_else_def next_pending_outbound_def publish_perform_inbound_def
        next_pending_inbound_def inbound_dequeue_def new_inbound_queue_def publish_advance_survey_def
        start_region_publish_def publish_advance_pool.simps take_ready_def)
  show ?thesis
    using work assms(2,3,9,13)
    by (simp add: publish_perform_def update_ready_status_def inbound_empty_def new_inbound_queue_def take_ready_def
        arm_timer_def timer_instant_def earlier_def is_zero_def zero_time_def hd_conv_nth Let_def)
qed

end
