(* ===== verification/PublishBehaviourWitnesses.thy ===== *)
theory PublishBehaviourWitnesses
  imports PublishBehaviourTheorems SurveyWitnesses PublishPoolWitnesses
begin

text \<open>
  The publish behaviour on the tiny network, with one key to provide and a survey of its own: the survey asks
  one node, which names another, which does not answer in time.
\<close>

type_synonym tiny_publish_behaviour =
  "(tiny_key, tiny_node, tiny_message, tiny_publish_pool, tiny_survey) publish_behaviour"

definition tiny_publish_machines ::
  "(tiny_key, tiny_node, tiny_message, tiny_publish_pool, tiny_survey) publish_machines" where
  "tiny_publish_machines = \<lparr>um_kad = tiny_kad, um_sort = insertion_sort, um_pool = tiny_publish_pool_advance,
     um_survey = tiny_survey_advance\<rparr>"

definition tiny_publish_config :: "(tiny_key, tiny_message, unit) publish_config" where
  "tiny_publish_config = (default_publish_config id)
     \<lparr>ubc_keystore := Some (\<lambda>region. [1]), ubc_record_source := Some (\<lambda>k. tiny_provide), ubc_region_replication := 1,
      ubc_enable_survey := True, ubc_survey_target_fn := Some (), ubc_survey_interval := 100,
      ubc_survey_region_timeout := 50, ubc_survey_request_concurrency := 1, ubc_survey_request_timeout := 10,
      ubc_survey_walk_in_bound := 3\<rparr>"

definition tiny_publish_behaviour :: tiny_publish_behaviour where
  "tiny_publish_behaviour = projr (new_publish_behaviour tiny_kad id 2 [] tiny_publish_pool (new_node 0)
     (tiny_table\<lparr>lt_nodes := [new_node 4]\<rparr>) (Some tiny_publish_config))"

abbreviation tiny_publish_perform ::
  "time \<Rightarrow> tiny_publish_behaviour \<Rightarrow>
     ((tiny_key, tiny_node, tiny_message) behaviour_event option \<times> tiny_publish_behaviour) option" where
  "tiny_publish_perform now \<equiv> publish_perform tiny_publish_machines (\<lambda>is. is) (\<lambda>i. now)"

definition tiny_response :: "(tiny_key, tiny_node, tiny_message) behaviour_event" where
  "tiny_response = EventGetCloserNodesSuccess ''survey'' (new_node 4) 0 [new_node 5]"

text \<open>The reply of the first node, the questions to both, and what the poll then finds.\<close>

definition tiny_asked_second :: "tiny_publish_behaviour option" where
  "tiny_asked_second =
     (case tiny_publish_perform 5 tiny_publish_behaviour of
        None \<Rightarrow> None
      | Some (out, b) \<Rightarrow>
          (case publish_notify tiny_response b of
             None \<Rightarrow> None
           | Some b' \<Rightarrow> map_option snd (tiny_publish_perform 7 b')))"

definition tiny_survey_polled :: "tiny_publish_behaviour \<Rightarrow> (tiny_key, tiny_node) survey_state option" where
  "tiny_survey_polled b =
     (case ub_survey b of
        None \<Rightarrow> None
      | Some s \<Rightarrow> map_option fst (um_survey tiny_publish_machines 20 EventSurveyPoll s))"

lemma tiny_asked_second:
  "map_option (\<lambda>b. ((nb_notifiers b, bh_pending_outbound b, bh_inbound b), (ub_regions b, ub_survey b \<noteq> None),
       tiny_survey_polled b, map_option fst (um_pool tiny_publish_machines 20 PoolPoll (ub_pool b)),
       (map_option (\<lambda>f. f []) (ub_keystore b), ub_record_source b \<noteq> None),
       ub_region_replication b, ub_region_max_in_flight b)) tiny_asked_second =
   Some (([], [], \<lparr>iq_events = [], iq_capacity = 1024, iq_depth = 0\<rparr>), ([], True),
     Some (StateSurveyFinished [] [new_node 4]
       \<lparr>qs_start = 5, qs_end = 20, qs_requests = 2, qs_success = 1, qs_failure = 1\<rparr>),
     Some PoolIdle, (Some [1], True), 1, 16)"
  by code_simp

theorem publish_survey_end_is_lost_witness:
  "\<exists>b b'. tiny_asked_second = Some b \<and> tiny_publish_perform 20 (take_ready b) = Some (None, b') \<and>
     \<not> bh_ready b' \<and> bh_timer b' = None \<and> map_option rp_keys (map_of (ub_regions b') ''region-'') = Some [1]"
proof -
  from tiny_asked_second obtain b s keys_under source s' stats pool where b: "tiny_asked_second = Some b" "nb_notifiers b = []"
    "bh_pending_outbound b = []" "bh_inbound b = new_inbound_queue 1024" "ub_regions b = []" "ub_survey b = Some s"
    "um_survey tiny_publish_machines 20 EventSurveyPoll s = Some (StateSurveyFinished [] [new_node 4] stats, s')"
    "um_pool tiny_publish_machines 20 PoolPoll (ub_pool b) = Some (PoolIdle, pool)"
    "ub_keystore b = Some keys_under" "keys_under [] = [1]" "ub_record_source b = Some source"
    "ub_region_replication b = 1" "ub_region_max_in_flight b = 16"
    by (auto simp: tiny_survey_polled_def new_inbound_queue_def split: option.splits)
  from publish_survey_end_is_lost [OF b(2-9) _ b(11), where ord = "\<lambda>is. is"] b(10,12,13) b(1)
  show ?thesis by (fastforce simp: region_activity_def)
qed


text \<open>
  The publish of a region, with a survey that reports at once that it found the first node: the \<open>Perform\<close> that
  ends the survey, the next one, and the reply to the record that it sends.
\<close>

definition tiny_quick_machines ::
  "(tiny_key, tiny_node, tiny_message, tiny_publish_pool, tiny_survey) publish_machines" where
  "tiny_quick_machines = tiny_publish_machines
     \<lparr>um_survey := \<lambda>now ev s. Some (StateSurveyFinished [] [new_node 4] zero_query_stats, s)\<rparr>"

abbreviation tiny_quick_perform ::
  "time \<Rightarrow> tiny_publish_behaviour \<Rightarrow>
     ((tiny_key, tiny_node, tiny_message) behaviour_event option \<times> tiny_publish_behaviour) option" where
  "tiny_quick_perform now \<equiv> publish_perform tiny_quick_machines (\<lambda>is. is) (\<lambda>i. now)"

definition tiny_region_sending ::
  "((tiny_key, tiny_node, tiny_message) behaviour_event option \<times> tiny_publish_behaviour) option" where
  "tiny_region_sending =
     (case tiny_quick_perform 20 tiny_publish_behaviour of
        None \<Rightarrow> None
      | Some (out, b) \<Rightarrow> tiny_quick_perform 21 b)"

abbreviation tiny_region_stored :: "(tiny_key, tiny_node, tiny_message) pub_pool_event" where
  "tiny_region_stored \<equiv> PoolStoreRecordSuccess ''region--0'' (new_node 4) (Some tiny_provide) None"

lemma tiny_region_story:
  "map_option (\<lambda>(out, b). (out, ub_children b, map (\<lambda>(r, rp). (r, rp_in_flight rp)) (ub_regions b),
       map_option fst (um_pool tiny_quick_machines 22 tiny_region_stored (ub_pool b)),
       publish_advance_pool tiny_quick_machines 22 (Some tiny_region_stored) b \<noteq> None))
     tiny_region_sending =
   Some (Some (EventOutboundSendMessage ''region--0'' (new_node 4) (Some tiny_provide) (Some 2)),
     [(''region--0'', ''region-'')], [(''region-'', [(''region--0'', 0)])],
     Some (PoolPublishFinished ''region--0'' [new_node 4] [] zero_query_stats), True)"
  by code_simp

lemma tiny_publish_created: "publish_behaviour_reached tiny_quick_machines tiny_publish_behaviour"
proof (rule publish_behaviour_reached.created)
  show "new_publish_behaviour (um_kad tiny_quick_machines) id 2 [] tiny_publish_pool (new_node 0)
     (tiny_table\<lparr>lt_nodes := [new_node 4]\<rparr>) (Some tiny_publish_config) = Inr tiny_publish_behaviour"
    by (simp add: tiny_publish_behaviour_def tiny_quick_machines_def tiny_publish_machines_def new_publish_behaviour_def
        tiny_publish_config_def default_publish_config_def publish_config_validate_def new_publish_survey_def new_table_def
        default_prefix_config_def prefix_config_validate_def new_survey_def survey_config_of_def survey_config_validate_def
        Let_def)
qed

theorem publish_slots_freed_witness:
  "\<exists>b b'. map fst (ub_regions b) = [''region-''] \<and> map_of (ub_children b) ''region--0'' = Some ''region-'' \<and>
     publish_advance_pool tiny_quick_machines 22 (Some tiny_region_stored) b = Some (None, b') \<and>
     (\<forall>r rp. map_of (ub_regions b') r = Some rp \<longrightarrow> ''region--0'' \<notin> fst ` set (rp_in_flight rp))"
proof -
  from tiny_region_story obtain b1 b out0 out pool out' b' where b:
    "tiny_quick_perform 20 tiny_publish_behaviour = Some (out0, b1)" "tiny_quick_perform 21 b1 = Some (out, b)"
    "map (\<lambda>(r, rp). (r, rp_in_flight rp)) (ub_regions b) = [(''region-'', [(''region--0'', 0)])]"
    "ub_children b = [(''region--0'', ''region-'')]"
    "um_pool tiny_quick_machines 22 tiny_region_stored (ub_pool b) =
       Some (PoolPublishFinished ''region--0'' [new_node 4] [] zero_query_stats, pool)"
    "publish_advance_pool tiny_quick_machines 22 (Some tiny_region_stored) b = Some (out', b')"
    by (auto simp: tiny_region_sending_def split: option.splits)
  have reached: "publish_behaviour_reached tiny_quick_machines b"
    using publish_behaviour_reached.performed [OF publish_behaviour_reached.performed [OF tiny_publish_created b(1)] b(2)] .
  from publish_slots_freed [OF reached b(5,6)] b(3,4,6) show ?thesis by (intro exI [of _ b] exI [of _ b']) auto
qed

end
