(* ===== verification/RoutingBehaviour.thy ===== *)
theory RoutingBehaviour
  imports Behaviour Include Probe Bootstrap Explore NetSize
begin

text \<open>
  \<open>routing.go\<close>: the behaviour that keeps the routing table, by running the bootstrap, include, probe and
  explore machines. It holds them through the interface \<open>StateMachine\<close>: their \<open>Advance\<close> methods are fields of
  the environment. The machines share the routing table, so they act on one state, \<open>rb_children\<close>;
  \<open>routing_machines_of\<close> gives the operations of the machines of this development on the four machines and
  the table. \<open>ts i\<close> is the \<open>i\<close>-th instant an operation reads from the clock, and \<open>None\<close> a panic.
\<close>

definition IncludeActivityID :: activity_id where
  "IncludeActivityID = ''include''"

section \<open>Configuration\<close>

text \<open>
  A \<open>float64\<close> is a rational number, and the constant 0.05 is rounded by \<open>rnd\<close>. \<open>gen\<close> is what the function
  that mints node ids keeps between calls, \<open>None\<close> when it is nil.
\<close>

record ('n, 'g) routing_config =
  rbc_logger :: bool
  rbc_tracer :: bool
  rbc_meter :: bool
  rbc_network_size :: "estimator option"
  rbc_queue_capacity :: int
  rbc_bootstrap_timeout :: duration
  rbc_bootstrap_request_concurrency :: int
  rbc_bootstrap_request_timeout :: duration
  rbc_bootstrap_peers :: "'n list"
  rbc_bootstrap_minimum_population :: int
  rbc_bootstrap_retry_interval :: duration
  rbc_connectivity_check_timeout :: duration
  rbc_probe_request_concurrency :: int
  rbc_probe_check_interval :: duration
  rbc_include_queue_capacity :: int
  rbc_include_request_concurrency :: int
  rbc_enable_explore :: bool
  rbc_explore_cpl_fn :: "'g option"
  rbc_explore_timeout :: duration
  rbc_explore_request_concurrency :: int
  rbc_explore_request_timeout :: duration
  rbc_explore_maximum_cpl :: int
  rbc_explore_interval :: duration
  rbc_explore_interval_multiplier :: rat
  rbc_explore_interval_jitter :: rat

definition routing_config_validate :: "(rat \<Rightarrow> rat) \<Rightarrow> ('n, 'g) routing_config \<Rightarrow> go_error option" where
  "routing_config_validate rnd cfg = first_error ''RoutingConfig''
     ([(\<not> rbc_logger cfg, ''logger must not be nil''),
       (\<not> rbc_tracer cfg, ''tracer must not be nil''),
       (\<not> rbc_meter cfg, ''meter must not be nil''),
       (rbc_queue_capacity cfg < 1, ''queue capacity must be greater than zero''),
       (rbc_bootstrap_timeout cfg < 1, ''bootstrap timeout must be greater than zero''),
       (rbc_bootstrap_request_concurrency cfg < 1, ''bootstrap request concurrency must be greater than zero''),
       (rbc_bootstrap_request_timeout cfg < 1, ''bootstrap request timeout must be greater than zero''),
       (rbc_bootstrap_minimum_population cfg < 0, ''bootstrap minimum population must not be negative''),
       (rbc_bootstrap_minimum_population cfg > 0 \<and> rbc_bootstrap_retry_interval cfg < 1,
        ''bootstrap retry interval must be greater than zero''),
       (rbc_connectivity_check_timeout cfg < 1, ''connectivity check timeout must be greater than zero''),
       (rbc_probe_request_concurrency cfg < 1, ''probe request concurrency must be greater than zero''),
       (rbc_probe_check_interval cfg < 1, ''probe check interval must be greater than zero''),
       (rbc_include_queue_capacity cfg < 1, ''include queue capacity must be greater than zero''),
       (rbc_include_request_concurrency cfg < 1, ''include request concurrency must be greater than zero'')] @
      (if rbc_enable_explore cfg
       then [(rbc_explore_cpl_fn cfg = None, ''explore cpl function must not be nil when explore is enabled''),
             (rbc_explore_timeout cfg < 1, ''explore timeout must be greater than zero''),
             (rbc_explore_request_concurrency cfg < 1, ''explore request concurrency must be greater than zero''),
             (rbc_explore_request_timeout cfg < 1, ''explore request timeout must be greater than zero''),
             (rbc_explore_maximum_cpl cfg < 1, ''explore maximum cpl must be greater than zero''),
             (rbc_explore_maximum_cpl cfg > 15, ''explore maximum cpl must be 15 or less''),
             (rbc_explore_interval cfg < 1, ''explore interval must be greater than zero''),
             (rbc_explore_interval_multiplier cfg < 1, ''explore interval multiplier must be one or greater''),
             (rbc_explore_interval_jitter cfg < 0, ''explore interval jitter must be greater than 0''),
             (rbc_explore_interval_jitter cfg > rnd (5 / 100), ''explore interval jitter must be 0.05 or less'')]
       else []))"

definition default_routing_config :: "('n, 'g) routing_config" where
  "default_routing_config =
     \<lparr>rbc_logger = True, rbc_tracer = True, rbc_meter = True, rbc_network_size = None, rbc_queue_capacity = 1024,
      rbc_bootstrap_timeout = 5 * minute, rbc_bootstrap_request_concurrency = 3,
      rbc_bootstrap_request_timeout = minute, rbc_bootstrap_peers = [], rbc_bootstrap_minimum_population = 10,
      rbc_bootstrap_retry_interval = minute, rbc_connectivity_check_timeout = minute,
      rbc_probe_request_concurrency = 3, rbc_probe_check_interval = 6 * hour, rbc_include_queue_capacity = 128,
      rbc_include_request_concurrency = 3, rbc_enable_explore = False, rbc_explore_cpl_fn = None,
      rbc_explore_timeout = 5 * minute, rbc_explore_request_concurrency = 3,
      rbc_explore_request_timeout = minute, rbc_explore_maximum_cpl = 14, rbc_explore_interval = 10 * minute,
      rbc_explore_interval_multiplier = 1, rbc_explore_interval_jitter = 0\<rparr>"

section \<open>The machines\<close>

record ('k, 'n, 's) routing_machines =
  rm_kad :: "('k, 'n) kad_ops"
  rm_sort :: "('n \<Rightarrow> 'n \<Rightarrow> int) \<Rightarrow> 'n list \<Rightarrow> 'n list"
  rm_bootstrap :: "time \<Rightarrow> 'n bootstrap_event \<Rightarrow> 's \<Rightarrow> (('k, 'n) bootstrap_state \<times> 's) option"
  rm_include :: "time \<Rightarrow> 'n include_event \<Rightarrow> 's \<Rightarrow> ('n include_state \<times> 's) option"
  rm_probe :: "time \<Rightarrow> 'n probe_event \<Rightarrow> 's \<Rightarrow> ('n probe_state \<times> 's) option"
  rm_explore :: "(time \<Rightarrow> 'n explore_event \<Rightarrow> 's \<Rightarrow> (('k, 'n) explore_state \<times> 's) option) option"

text \<open>The four machines and the table they share, which each is handed for the step it takes.\<close>

record ('k, 'n, 'tr, 'rt, 'sc, 'g) routing_children =
  rc_rt :: 'rt
  rc_bootstrap :: "('k, 'n, 'tr, 'rt) bootstrap_machine"
  rc_include :: "('n, 'rt) include_machine"
  rc_probe :: "('n, 'rt) probe_machine"
  rc_explore :: "('k, 'n, 'tr, 'rt, 'sc, 'g) explore_machine option"

definition explore_child ::
  "('k, 'n) kad_ops \<Rightarrow> ('k, 'n, 'rt) rt_ops \<Rightarrow> ('k, 'n node_status, 'tr) trie_ops \<Rightarrow> ('k, 'n, 'g) cpl_fn \<Rightarrow>
     'sc schedule_ops \<Rightarrow> time \<Rightarrow> 'n explore_event \<Rightarrow> ('k, 'n, 'tr, 'rt, 'sc, 'g) routing_children \<Rightarrow>
     (('k, 'n) explore_state \<times> ('k, 'n, 'tr, 'rt, 'sc, 'g) routing_children) option" where
  "explore_child kd rt T cpl_fn sched now ev c =
     (case rc_explore c of
        None \<Rightarrow> None
      | Some m \<Rightarrow> map_option (\<lambda>(st, m'). (st, c\<lparr>rc_explore := Some m', rc_rt := ex_rt m'\<rparr>))
          (explore_advance kd rt T cpl_fn sched now ev (m\<lparr>ex_rt := rc_rt c\<rparr>)))"

definition routing_machines_of ::
  "('k, 'n) kad_ops \<Rightarrow> (('n \<Rightarrow> 'n \<Rightarrow> int) \<Rightarrow> 'n list \<Rightarrow> 'n list) \<Rightarrow> ('k, 'n, 'rt) rt_ops \<Rightarrow>
     ('k, 'n node_status, 'tr) trie_ops \<Rightarrow> ('k, 'n, 'g) cpl_fn \<Rightarrow> 'sc schedule_ops \<Rightarrow> bool \<Rightarrow>
     ('k, 'n, ('k, 'n, 'tr, 'rt, 'sc, 'g) routing_children) routing_machines" where
  "routing_machines_of kd srt rt T cpl_fn sched explores =
     \<lparr>rm_kad = kd, rm_sort = srt,
      rm_bootstrap = (\<lambda>now ev c. map_option (\<lambda>(st, m). (st, c\<lparr>rc_bootstrap := m, rc_rt := bs_rt m\<rparr>))
        (bootstrap_advance kd rt T now ev ((rc_bootstrap c)\<lparr>bs_rt := rc_rt c\<rparr>))),
      rm_include = (\<lambda>now ev c. case include_advance kd rt now ev ((rc_include c)\<lparr>in_rt := rc_rt c\<rparr>) of
        (st, m) \<Rightarrow> Some (st, c\<lparr>rc_include := m, rc_rt := in_rt m\<rparr>)),
      rm_probe = (\<lambda>now ev c. case probe_advance kd rt now ev ((rc_probe c)\<lparr>pb_rt := rc_rt c\<rparr>) of
        (st, m) \<Rightarrow> Some (st, c\<lparr>rc_probe := m, rc_rt := pb_rt m\<rparr>)),
      rm_explore = (if explores then Some (explore_child kd rt T cpl_fn sched) else None)\<rparr>"

section \<open>The behaviour\<close>

record ('k, 'n, 'm, 's) routing_behaviour = "('k, 'n, 'm) behaviour_event behaviour" +
  rb_self :: 'n
  rb_children :: 's
  rb_network_size :: "estimator option"
  rb_bootstrap_due :: time
  rb_include_due :: time
  rb_probe_due :: time
  rb_explore_due :: time

text \<open>
  \<open>ComposeRoutingBehaviour\<close> and \<open>NewRoutingBehaviour\<close>: \<open>a\<close> is the address of the new behaviour, \<open>now\<close> the
  instant the explore schedule starts at and \<open>samples\<close> its random numbers. The instruments of the meter are
  not modelled.
\<close>

definition compose_routing_behaviour ::
  "(rat \<Rightarrow> rat) \<Rightarrow> nat \<Rightarrow> 'n \<Rightarrow> 's \<Rightarrow> ('n, 'g) routing_config option \<Rightarrow> ('k, 'n, 'm, 's) routing_behaviour go_result" where
  "compose_routing_behaviour rnd a self children cfg_opt =
     (case (case cfg_opt of None \<Rightarrow> None | Some cfg \<Rightarrow> routing_config_validate rnd cfg) of
        Some e \<Rightarrow> Inl e
      | None \<Rightarrow>
          (let cfg = (case cfg_opt of None \<Rightarrow> default_routing_config | Some cfg \<Rightarrow> cfg)
           in Inr (signal_ready (behaviour.extend (new_behaviour a (rbc_queue_capacity cfg))
                (routing_behaviour.fields self children (rbc_network_size cfg)
                  zero_time zero_time zero_time zero_time)))))"

definition bootstrap_config_of :: "('n, 'g) routing_config \<Rightarrow> bootstrap_config" where
  "bootstrap_config_of cfg = default_bootstrap_config
     \<lparr>bc_tracer := rbc_tracer cfg, bc_meter := rbc_meter cfg, bc_timeout := rbc_bootstrap_timeout cfg,
      bc_request_concurrency := rbc_bootstrap_request_concurrency cfg,
      bc_request_timeout := rbc_bootstrap_request_timeout cfg,
      bc_minimum_population := rbc_bootstrap_minimum_population cfg,
      bc_retry_interval := rbc_bootstrap_retry_interval cfg\<rparr>"

definition include_config_of :: "('n, 'g) routing_config \<Rightarrow> include_config" where
  "include_config_of cfg = default_include_config
     \<lparr>inc_tracer := rbc_tracer cfg, inc_meter := rbc_meter cfg, inc_timeout := rbc_connectivity_check_timeout cfg,
      inc_queue_capacity := rbc_include_queue_capacity cfg, inc_concurrency := rbc_include_request_concurrency cfg\<rparr>"

definition probe_config_of :: "('n, 'g) routing_config \<Rightarrow> probe_config" where
  "probe_config_of cfg = default_probe_config
     \<lparr>pb_tracer := rbc_tracer cfg, pb_meter := rbc_meter cfg, pb_timeout := rbc_connectivity_check_timeout cfg,
      pb_concurrency := rbc_probe_request_concurrency cfg, pb_check_interval := rbc_probe_check_interval cfg\<rparr>"

definition explore_config_of :: "('n, 'g) routing_config \<Rightarrow> explore_config" where
  "explore_config_of cfg = default_explore_config
     \<lparr>xc_tracer := rbc_tracer cfg, xc_meter := rbc_meter cfg, xc_timeout := rbc_explore_timeout cfg,
      xc_request_concurrency := rbc_explore_request_concurrency cfg,
      xc_request_timeout := rbc_explore_request_timeout cfg\<rparr>"

text \<open>The explore machine is made only when it is enabled; validation has made sure of its function.\<close>

definition new_explore_child ::
  "(rat \<Rightarrow> rat) \<Rightarrow> (nat \<Rightarrow> rat) \<Rightarrow> time \<Rightarrow> 'n \<Rightarrow> 'rt \<Rightarrow> ('n, 'g) routing_config \<Rightarrow>
     ('k, 'n, 'tr, 'rt, dynamic_schedule, 'g) explore_machine option go_result" where
  "new_explore_child rnd samples now self rt cfg =
     (case rbc_explore_cpl_fn cfg of
        Some gen \<Rightarrow>
          (if \<not> rbc_enable_explore cfg then Inr None
           else case new_dynamic_schedule rnd (rbc_explore_maximum_cpl cfg) now (rbc_explore_interval cfg)
                  (rbc_explore_interval_multiplier cfg) (rbc_explore_interval_jitter cfg) samples of
             Inl e \<Rightarrow> Inl (WrappedError ''explore schedule: '' e)
           | Inr schedule \<Rightarrow>
               (case new_explore self rt gen schedule (Some (explore_config_of cfg)) of
                  Inl e \<Rightarrow> Inl (WrappedError ''explore: '' e)
                | Inr m \<Rightarrow> Inr (Some m)))
      | None \<Rightarrow> Inr None)"

definition new_routing_behaviour ::
  "(rat \<Rightarrow> rat) \<Rightarrow> (nat \<Rightarrow> rat) \<Rightarrow> time \<Rightarrow> nat \<Rightarrow> 'n \<Rightarrow> 'rt \<Rightarrow> ('n, 'g) routing_config option \<Rightarrow>
     ('k, 'n, 'm, ('k, 'n, 'tr, 'rt, dynamic_schedule, 'g) routing_children) routing_behaviour go_result" where
  "new_routing_behaviour rnd samples now a self rt cfg_opt =
     (case (case cfg_opt of None \<Rightarrow> None | Some cfg \<Rightarrow> routing_config_validate rnd cfg) of
        Some e \<Rightarrow> Inl e
      | None \<Rightarrow>
          (let cfg = (case cfg_opt of None \<Rightarrow> default_routing_config | Some cfg \<Rightarrow> cfg)
           in case new_bootstrap self rt (rbc_bootstrap_peers cfg) (Some (bootstrap_config_of cfg)) of
                Inl e \<Rightarrow> Inl (WrappedError ''bootstrap: '' e)
              | Inr bootstrap \<Rightarrow>
                  (case new_include rt (Some (include_config_of cfg)) of
                     Inl e \<Rightarrow> Inl (WrappedError ''include: '' e)
                   | Inr incl \<Rightarrow>
                       (case new_probe rt (Some (probe_config_of cfg)) of
                          Inl e \<Rightarrow> Inl (WrappedError ''probe: '' e)
                        | Inr probe \<Rightarrow>
                            (case new_explore_child rnd samples now self rt cfg of
                               Inl e \<Rightarrow> Inl e
                             | Inr explore \<Rightarrow>
                                 compose_routing_behaviour rnd a self
                                   \<lparr>rc_rt = rt, rc_bootstrap = bootstrap, rc_include = incl, rc_probe = probe,
                                    rc_explore = explore\<rparr> (Some cfg))))))"

section \<open>Advancing the machines\<close>

text \<open>\<open>Notify\<close>: an event that is dropped is not reported to anybody.\<close>

definition routing_notify ::
  "('k, 'n, 'm) behaviour_event \<Rightarrow> ('k, 'n, 'm, 's) routing_behaviour \<Rightarrow> ('k, 'n, 'm, 's) routing_behaviour" where
  "routing_notify ev b = snd (notify_inbound ev b)"

definition routing_track ::
  "('k, 'n, 's) routing_machines \<Rightarrow> time \<Rightarrow> 'k \<Rightarrow> 'n list \<Rightarrow> ('k, 'n, 'm, 's) routing_behaviour \<Rightarrow>
     ('k, 'n, 'm, 's) routing_behaviour" where
  "routing_track mc now target closest b =
     (case rb_network_size b of
        None \<Rightarrow> b
      | Some e \<Rightarrow>
          (if 0 < length closest
           then b\<lparr>rb_network_size := Some (snd (track (rm_kad mc) (rm_sort mc) now target closest e))\<rparr>
           else b))"

fun routing_bootstrap_state ::
  "('k, 'n, 's) routing_machines \<Rightarrow> time \<Rightarrow> ('k, 'n) bootstrap_state \<Rightarrow> ('k, 'n, 'm, 's) routing_behaviour \<Rightarrow>
     ('k, 'n, 'm) behaviour_event option \<times> ('k, 'n, 'm, 's) routing_behaviour" where
  "routing_bootstrap_state mc now (StateBootstrapFindCloser i target n stats) b =
     (Some (EventOutboundGetCloserNodes BootstrapActivityID n target (Some (bh_ref b))), b)"
| "routing_bootstrap_state mc now (StateBootstrapWaiting due stats) b = (None, b\<lparr>rb_bootstrap_due := due\<rparr>)"
| "routing_bootstrap_state mc now (StateBootstrapFinished stats target closest) b =
     (Some (EventBootstrapFinished stats None), (routing_track mc now target closest b)\<lparr>rb_bootstrap_due := zero_time\<rparr>)"
| "routing_bootstrap_state mc now (StateBootstrapTimeout stats) b =
     (Some (EventBootstrapFinished stats (Some ErrQueryTimeout)), b\<lparr>rb_bootstrap_due := zero_time\<rparr>)"
| "routing_bootstrap_state mc now (StateBootstrapIdle due) b = (None, b\<lparr>rb_bootstrap_due := due\<rparr>)"

fun routing_include_state ::
  "('k, 'n, 's) routing_machines \<Rightarrow> 'n include_state \<Rightarrow> ('k, 'n, 'm, 's) routing_behaviour \<Rightarrow>
     ('k, 'n, 'm) behaviour_event option \<times> ('k, 'n, 'm, 's) routing_behaviour" where
  "routing_include_state mc (StateIncludeConnectivityCheck n) b =
     (Some (EventOutboundGetCloserNodes IncludeActivityID n (node_key (rm_kad mc) n) (Some (bh_ref b))), b)"
| "routing_include_state mc (StateIncludeRoutingUpdated n) b =
     (Some (EventRoutingUpdated n), routing_notify (EventRoutingUpdated n) b)"
| "routing_include_state mc (StateIncludeWaitingAtCapacity due) b = (None, b\<lparr>rb_include_due := due\<rparr>)"
| "routing_include_state mc (StateIncludeWaitingWithCapacity due) b = (None, b\<lparr>rb_include_due := due\<rparr>)"
| "routing_include_state mc (StateIncludeWaitingFull due) b = (None, b\<lparr>rb_include_due := due\<rparr>)"
| "routing_include_state mc StateIncludeIdle b = (None, b\<lparr>rb_include_due := zero_time\<rparr>)"

fun routing_probe_state ::
  "('k, 'n, 's) routing_machines \<Rightarrow> 'n probe_state \<Rightarrow> ('k, 'n, 'm, 's) routing_behaviour \<Rightarrow>
     ('k, 'n, 'm) behaviour_event option \<times> ('k, 'n, 'm, 's) routing_behaviour" where
  "routing_probe_state mc (StateProbeConnectivityCheck n) b =
     (Some (EventOutboundGetCloserNodes ProbeActivityID n (node_key (rm_kad mc) n) (Some (bh_ref b))), b)"
| "routing_probe_state mc (StateProbeNodeFailure n) b =
     (None, routing_notify (EventAddNode n) (queue_outbound [EventRoutingRemoved n] b))"
| "routing_probe_state mc (StateProbeWaitingAtCapacity due) b = (None, b\<lparr>rb_probe_due := due\<rparr>)"
| "routing_probe_state mc (StateProbeWaitingWithCapacity due) b = (None, b\<lparr>rb_probe_due := due\<rparr>)"
| "routing_probe_state mc (StateProbeIdle due) b = (None, b\<lparr>rb_probe_due := due\<rparr>)"

fun routing_explore_state ::
  "('k, 'n, 's) routing_machines \<Rightarrow> time \<Rightarrow> ('k, 'n) explore_state \<Rightarrow> ('k, 'n, 'm, 's) routing_behaviour \<Rightarrow>
     ('k, 'n, 'm) behaviour_event option \<times> ('k, 'n, 'm, 's) routing_behaviour" where
  "routing_explore_state mc now (StateExploreFindCloser cpl i target n stats) b =
     (Some (EventOutboundGetCloserNodes ExploreActivityID n target (Some (bh_ref b))), b)"
| "routing_explore_state mc now (StateExploreWaiting due cpl stats) b = (None, b\<lparr>rb_explore_due := due\<rparr>)"
| "routing_explore_state mc now (StateExploreQueryFinished cpl stats target closest) b =
     (None, (routing_track mc now target closest b)\<lparr>bh_poll_again := True\<rparr>)"
| "routing_explore_state mc now (StateExploreQueryTimeout cpl stats) b = (None, b\<lparr>bh_poll_again := True\<rparr>)"
| "routing_explore_state mc now (StateExploreFailure cpl err) b = (None, b\<lparr>bh_poll_again := True\<rparr>)"
| "routing_explore_state mc now (StateExploreIdle due) b = (None, b\<lparr>rb_explore_due := due\<rparr>)"

definition routing_advance_bootstrap ::
  "('k, 'n, 's) routing_machines \<Rightarrow> time \<Rightarrow> 'n bootstrap_event \<Rightarrow> ('k, 'n, 'm, 's) routing_behaviour \<Rightarrow>
     (('k, 'n, 'm) behaviour_event option \<times> ('k, 'n, 'm, 's) routing_behaviour) option" where
  "routing_advance_bootstrap mc now ev b =
     map_option (\<lambda>(st, c). routing_bootstrap_state mc now st (b\<lparr>rb_children := c\<rparr>))
       (rm_bootstrap mc now ev (rb_children b))"

definition routing_advance_include ::
  "('k, 'n, 's) routing_machines \<Rightarrow> time \<Rightarrow> 'n include_event \<Rightarrow> ('k, 'n, 'm, 's) routing_behaviour \<Rightarrow>
     (('k, 'n, 'm) behaviour_event option \<times> ('k, 'n, 'm, 's) routing_behaviour) option" where
  "routing_advance_include mc now ev b =
     map_option (\<lambda>(st, c). routing_include_state mc st (b\<lparr>rb_children := c\<rparr>)) (rm_include mc now ev (rb_children b))"

definition routing_advance_probe ::
  "('k, 'n, 's) routing_machines \<Rightarrow> time \<Rightarrow> 'n probe_event \<Rightarrow> ('k, 'n, 'm, 's) routing_behaviour \<Rightarrow>
     (('k, 'n, 'm) behaviour_event option \<times> ('k, 'n, 'm, 's) routing_behaviour) option" where
  "routing_advance_probe mc now ev b =
     map_option (\<lambda>(st, c). routing_probe_state mc st (b\<lparr>rb_children := c\<rparr>)) (rm_probe mc now ev (rb_children b))"

definition routing_advance_explore ::
  "('k, 'n, 's) routing_machines \<Rightarrow> time \<Rightarrow> 'n explore_event \<Rightarrow> ('k, 'n, 'm, 's) routing_behaviour \<Rightarrow>
     (('k, 'n, 'm) behaviour_event option \<times> ('k, 'n, 'm, 's) routing_behaviour) option" where
  "routing_advance_explore mc now ev b =
     (case rm_explore mc of
        None \<Rightarrow> Some (None, b)
      | Some explore \<Rightarrow>
          map_option (\<lambda>(st, c). routing_explore_state mc now st (b\<lparr>rb_children := c\<rparr>))
            (explore now ev (rb_children b)))"

text \<open>\<open>pollChildren\<close>: an event that a machine leads to is queued.\<close>

definition queue_result ::
  "(('k, 'n, 'm) behaviour_event option \<times> ('k, 'n, 'm, 's) routing_behaviour) option \<Rightarrow>
     ('k, 'n, 'm, 's) routing_behaviour option" where
  "queue_result r =
     (case r of
        None \<Rightarrow> None
      | Some (None, b) \<Rightarrow> Some b
      | Some (Some ev, b) \<Rightarrow> Some (queue_outbound [ev] b))"

definition poll_children ::
  "('k, 'n, 's) routing_machines \<Rightarrow> time \<Rightarrow> ('k, 'n, 'm, 's) routing_behaviour \<Rightarrow>
     ('k, 'n, 'm, 's) routing_behaviour option" where
  "poll_children mc now b =
     Option.bind (queue_result (routing_advance_bootstrap mc now EventBootstrapPoll (b\<lparr>bh_poll_again := False\<rparr>))) (\<lambda>b1.
     Option.bind (queue_result (routing_advance_include mc now EventIncludePoll b1)) (\<lambda>b2.
     Option.bind (queue_result (routing_advance_probe mc now EventProbePoll b2)) (\<lambda>b3.
     queue_result (routing_advance_explore mc now EventExplorePoll b3))))"

section \<open>Performing\<close>

text \<open>
  The replies to \<open>GetCloserNodes\<close> requests: each activity has its machine. A node passes a connectivity check
  when it knows other nodes. An activity of no machine panics.
\<close>

definition no_closer_nodes :: go_error where
  "no_closer_nodes = ErrorText ''response did not include any closer nodes''"

definition routing_reply ::
  "('k, 'n, 's) routing_machines \<Rightarrow> time \<Rightarrow> activity_id \<Rightarrow> 'n \<Rightarrow> 'n list \<Rightarrow> ('k, 'n, 'm, 's) routing_behaviour \<Rightarrow>
     (('k, 'n, 'm) behaviour_event option \<times> ('k, 'n, 'm, 's) routing_behaviour) option" where
  "routing_reply mc now i n closer b =
     (if i = BootstrapActivityID
      then routing_advance_bootstrap mc now (EventBootstrapFindCloserResponse n closer)
             (queue_outbound (map EventAddNode closer) b)
      else if i = IncludeActivityID
      then routing_advance_include mc now
             (if 0 < length closer then EventIncludeConnectivityCheckSuccess n
              else EventIncludeConnectivityCheckFailure n no_closer_nodes) b
      else if i = ProbeActivityID
      then routing_advance_probe mc now
             (if 0 < length closer then EventProbeConnectivityCheckSuccess n
              else EventProbeConnectivityCheckFailure n no_closer_nodes) b
      else if i = ExploreActivityID
      then routing_advance_explore mc now (EventExploreFindCloserResponse n closer)
             (queue_outbound (map EventAddNode closer) b)
      else None)"

definition routing_no_reply ::
  "('k, 'n, 's) routing_machines \<Rightarrow> time \<Rightarrow> activity_id \<Rightarrow> 'n \<Rightarrow> go_error \<Rightarrow> ('k, 'n, 'm, 's) routing_behaviour \<Rightarrow>
     (('k, 'n, 'm) behaviour_event option \<times> ('k, 'n, 'm, 's) routing_behaviour) option" where
  "routing_no_reply mc now i n err b =
     (if i = BootstrapActivityID
      then routing_advance_bootstrap mc now (EventBootstrapFindCloserFailure n err) b
      else if i = IncludeActivityID
      then routing_advance_include mc now
             (if errors_is err ErrRequestDropped then EventIncludeConnectivityCheckDropped n
              else EventIncludeConnectivityCheckFailure n err) b
      else if i = ProbeActivityID
      then routing_advance_probe mc now
             (if errors_is err ErrRequestDropped then EventProbeConnectivityCheckDropped n
              else EventProbeConnectivityCheckFailure n err) b
      else if i = ExploreActivityID
      then routing_advance_explore mc now (EventExploreFindCloserFailure n err) b
      else None)"

definition same_node :: "('k, 'n) kad_ops \<Rightarrow> 'n \<Rightarrow> 'n \<Rightarrow> bool" where
  "same_node kd n n' \<longleftrightarrow> node_str kd n = node_str kd n'"

fun routing_event ::
  "('k, 'n, 's) routing_machines \<Rightarrow> (nat \<Rightarrow> time) \<Rightarrow> ('k, 'n, 'm) behaviour_event \<Rightarrow>
     ('k, 'n, 'm, 's) routing_behaviour \<Rightarrow>
     (('k, 'n, 'm) behaviour_event option \<times> ('k, 'n, 'm, 's) routing_behaviour) option" where
  "routing_event mc ts (EventStartBootstrap seeds) b =
     routing_advance_bootstrap mc (ts 0) (EventBootstrapStart seeds) b"
| "routing_event mc ts (EventAddNode n) b =
     (if same_node (rm_kad mc) (rb_self b) n then Some (None, b)
      else routing_advance_include mc (ts 0) (EventIncludeAddCandidate n) b)"
| "routing_event mc ts (EventRoutingUpdated n) b = routing_advance_probe mc (ts 0) (EventProbeAdd n) b"
| "routing_event mc ts (EventGetCloserNodesSuccess i n target closer) b = routing_reply mc (ts 0) i n closer b"
| "routing_event mc ts (EventGetCloserNodesFailure i n target err) b = routing_no_reply mc (ts 0) i n err b"
| "routing_event mc ts (EventNotifyConnectivity n) b =
     (if same_node (rm_kad mc) (rb_self b) n then Some (None, b)
      else Option.bind (queue_result (routing_advance_include mc (ts 0) (EventIncludeAddCandidate n) b))
             (routing_advance_probe mc (ts 0) (EventProbeNotifyConnectivity n)))"
| "routing_event mc ts (EventNotifyNonConnectivity n) b = routing_advance_probe mc (ts 0) (EventProbeRemove n) b"
| "routing_event mc ts EventRoutingPoll b = map_option (Pair None) (poll_children mc (ts 1) b)"
| "routing_event mc ts _ b = None"

definition routing_perform_inbound ::
  "('k, 'n, 's) routing_machines \<Rightarrow> (nat \<Rightarrow> time) \<Rightarrow> ('k, 'n, 'm, 's) routing_behaviour \<Rightarrow>
     (('k, 'n, 'm) behaviour_event option \<times> ('k, 'n, 'm, 's) routing_behaviour) option" where
  "routing_perform_inbound mc ts b0 =
     (case next_pending_inbound b0 of
        (None, b) \<Rightarrow> Some (None, b)
      | (Some ev, b) \<Rightarrow> routing_event mc ts ev b)"

definition routing_next_due :: "('k, 'n, 'm, 's) routing_behaviour \<Rightarrow> time" where
  "routing_next_due b =
     (let due = earlier (rb_bootstrap_due b) (rb_include_due b);
          due = earlier due (rb_probe_due b)
      in earlier due (rb_explore_due b))"

text \<open>\<open>Perform\<close> without the deferred call of \<open>updateReadyStatus\<close>.\<close>

definition routing_perform_work ::
  "('k, 'n, 's) routing_machines \<Rightarrow> (nat \<Rightarrow> time) \<Rightarrow> ('k, 'n, 'm, 's) routing_behaviour \<Rightarrow>
     (('k, 'n, 'm) behaviour_event option \<times> ('k, 'n, 'm, 's) routing_behaviour) option" where
  "routing_perform_work mc ts b0 =
     (case next_pending_outbound b0 of
        (Some ev, b1) \<Rightarrow> Some (Some ev, b1)
      | (None, b1) \<Rightarrow>
          (case routing_perform_inbound mc ts b1 of
             None \<Rightarrow> None
           | Some (Some ev, b2) \<Rightarrow> Some (Some ev, b2)
           | Some (None, b2) \<Rightarrow> map_option next_pending_outbound (poll_children mc (ts 2) b2)))"

definition routing_perform ::
  "('k, 'n, 's) routing_machines \<Rightarrow> (nat \<Rightarrow> time) \<Rightarrow> ('k, 'n, 'm, 's) routing_behaviour \<Rightarrow>
     (('k, 'n, 'm) behaviour_event option \<times> ('k, 'n, 'm, 's) routing_behaviour) option" where
  "routing_perform mc ts b =
     map_option (\<lambda>(out, b'). (out, update_ready_status (ts 3) (out \<noteq> None) (routing_next_due b') b'))
       (routing_perform_work mc ts b)"

end
