(* ===== verification/RoutingBehaviourTheorems.thy ===== *)
theory RoutingBehaviourTheorems
  imports RoutingBehaviour QueryBehaviourTheorems IncludeTheorems ProbeTheorems BootstrapTheorems ExploreTheorems
begin

text \<open>
  The routing behaviour loses no wake-up, and on the machines of this development it lets into the routing table
  only nodes that have answered a connectivity check.
\<close>

section \<open>What the steps keep\<close>

text \<open>A due time is reported with the states in which a machine waits.\<close>

fun bootstrap_due_of :: "('k, 'n) bootstrap_state \<Rightarrow> time option" where
  "bootstrap_due_of (StateBootstrapWaiting due stats) = Some due"
| "bootstrap_due_of (StateBootstrapIdle due) = Some due"
| "bootstrap_due_of _ = None"

fun include_due_of :: "'n include_state \<Rightarrow> time option" where
  "include_due_of (StateIncludeWaitingAtCapacity due) = Some due"
| "include_due_of (StateIncludeWaitingWithCapacity due) = Some due"
| "include_due_of (StateIncludeWaitingFull due) = Some due"
| "include_due_of StateIncludeIdle = Some 0"
| "include_due_of _ = None"

fun probe_due_of :: "'n probe_state \<Rightarrow> time option" where
  "probe_due_of (StateProbeWaitingAtCapacity due) = Some due"
| "probe_due_of (StateProbeWaitingWithCapacity due) = Some due"
| "probe_due_of (StateProbeIdle due) = Some due"
| "probe_due_of _ = None"

fun explore_due_of :: "('k, 'n) explore_state \<Rightarrow> time option" where
  "explore_due_of (StateExploreWaiting due cpl stats) = Some due"
| "explore_due_of (StateExploreIdle due) = Some due"
| "explore_due_of _ = None"

text \<open>
  The due times that the four machines report when each is polled in its turn, and what they leave;
  \<open>None\<close> if one of them does something else than wait.
\<close>

definition waiting_dues :: "('k, 'n, 's) routing_machines \<Rightarrow> time \<Rightarrow> 's \<Rightarrow> (time list \<times> 's) option" where
  "waiting_dues mc now c =
     Option.bind (rm_bootstrap mc now EventBootstrapPoll c) (\<lambda>(st1, c1).
     Option.bind (bootstrap_due_of st1) (\<lambda>d1.
     Option.bind (rm_include mc now EventIncludePoll c1) (\<lambda>(st2, c2).
     Option.bind (include_due_of st2) (\<lambda>d2.
     Option.bind (rm_probe mc now EventProbePoll c2) (\<lambda>(st3, c3).
     Option.bind (probe_due_of st3) (\<lambda>d3.
     (case rm_explore mc of
        None \<Rightarrow> Some ([d1, d2, d3], c3)
      | Some explore \<Rightarrow>
          Option.bind (explore now EventExplorePoll c3) (\<lambda>(st4, c4).
          map_option (\<lambda>d4. ([d1, d2, d3, d4], c4)) (explore_due_of st4)))))))))"

definition routing_keeps ::
  "('k, 'n, 's) routing_machines \<Rightarrow> ('k, 'n, 'm, 's) routing_behaviour \<Rightarrow> ('k, 'n, 'm, 's) routing_behaviour \<Rightarrow> bool" where
  "routing_keeps mc b b' \<longleftrightarrow> (inbound_ok (bh_inbound b) \<longrightarrow> inbound_ok (bh_inbound b')) \<and>
     (rm_explore mc = None \<longrightarrow> rb_explore_due b' = rb_explore_due b)"

lemma routing_keeps_refl [simp]: "routing_keeps mc b b"
  by (simp add: routing_keeps_def)

lemma routing_keeps_trans: "routing_keeps mc b b1 \<Longrightarrow> routing_keeps mc b1 b2 \<Longrightarrow> routing_keeps mc b b2"
  by (simp add: routing_keeps_def)

lemma routing_keeps_update [simp]:
  "routing_keeps mc b0 (b\<lparr>rb_children := c\<rparr>) = routing_keeps mc b0 b"
  "routing_keeps mc b0 (b\<lparr>bh_poll_again := p\<rparr>) = routing_keeps mc b0 b"
  "routing_keeps mc b0 (b\<lparr>rb_bootstrap_due := d\<rparr>) = routing_keeps mc b0 b"
  "routing_keeps mc b0 (b\<lparr>rb_include_due := d\<rparr>) = routing_keeps mc b0 b"
  "routing_keeps mc b0 (b\<lparr>rb_probe_due := d\<rparr>) = routing_keeps mc b0 b"
  "routing_keeps mc b0 (queue_outbound evs b) = routing_keeps mc b0 b"
  "routing_keeps mc (b\<lparr>rb_children := c\<rparr>) b1 = routing_keeps mc b b1"
  "routing_keeps mc (b\<lparr>bh_poll_again := p\<rparr>) b1 = routing_keeps mc b b1"
  "routing_keeps mc (queue_outbound evs b) b1 = routing_keeps mc b b1"
  by (simp_all add: routing_keeps_def queue_outbound_def)

lemma routing_notify_simps [behaviour_simps]:
  "bh_pending_outbound (routing_notify ev b) = bh_pending_outbound b"
  "bh_poll_again (routing_notify ev b) = bh_poll_again b"
  "behaviour.more (routing_notify ev b) = behaviour.more b"
  by (simp_all add: routing_notify_def notify_inbound_def behaviour_simps split: prod.splits bool.splits)

lemma routing_more:
  fixes b b' :: "('k, 'n, 'm, 's) routing_behaviour"
  assumes "behaviour.more b' = behaviour.more b"
  shows "rb_children b' = rb_children b" "rb_explore_due b' = rb_explore_due b" "rb_network_size b' = rb_network_size b"
    "rb_bootstrap_due b' = rb_bootstrap_due b" "rb_include_due b' = rb_include_due b" "rb_probe_due b' = rb_probe_due b"
    "rb_self b' = rb_self b"
  using assms by (cases b; cases b'; simp)+

lemmas routing_notify_more [behaviour_simps] = routing_more [OF routing_notify_simps(3)]

lemma routing_notify_keeps [simp]: "routing_keeps mc b (routing_notify ev b)"
  using notify_inbound_ok [of b ev] by (simp add: routing_keeps_def behaviour_simps) (simp add: routing_notify_def)

lemma routing_track_simps [behaviour_simps]:
  "bh_inbound (routing_track mc now t c b) = bh_inbound b" "bh_pending_outbound (routing_track mc now t c b) = bh_pending_outbound b"
  "rb_children (routing_track mc now t c b) = rb_children b" "rb_explore_due (routing_track mc now t c b) = rb_explore_due b"
  "bh_poll_again (routing_track mc now t c b) = bh_poll_again b"
  "rb_bootstrap_due (routing_track mc now t c b) = rb_bootstrap_due b" "rb_include_due (routing_track mc now t c b) = rb_include_due b"
  "rb_probe_due (routing_track mc now t c b) = rb_probe_due b"
  by (simp_all add: routing_track_def split: option.splits)

lemma routing_states_keep:
  "routing_bootstrap_state mc now st1 b = (out, b') \<Longrightarrow> routing_keeps mc b b' \<and> rb_children b' = rb_children b"
  "routing_include_state mc st2 b = (out, b') \<Longrightarrow> routing_keeps mc b b' \<and> rb_children b' = rb_children b"
  "routing_probe_state mc st3 b = (out, b') \<Longrightarrow> routing_keeps mc b b' \<and> rb_children b' = rb_children b"
  "routing_explore_state mc now st4 b = (out, b') \<Longrightarrow> rm_explore mc \<noteq> None \<Longrightarrow> routing_keeps mc b b' \<and> rb_children b' = rb_children b"
  subgoal by (cases st1) (auto simp: routing_keeps_def behaviour_simps)
  subgoal by (cases st2) (auto simp: behaviour_simps)
  subgoal
    using routing_notify_keeps [of mc "queue_outbound evs b" ev for evs ev, unfolded routing_keeps_update]
    by (cases st3) (auto simp: behaviour_simps routing_more [OF queue_outbound_simps(3)])
  subgoal by (cases st4) (auto simp: routing_keeps_def behaviour_simps)
  done

lemma routing_advances_keep:
  "routing_advance_bootstrap mc now ev1 b = Some (out, b') \<Longrightarrow> routing_keeps mc b b'"
  "routing_advance_include mc now ev2 b = Some (out, b') \<Longrightarrow> routing_keeps mc b b'"
  "routing_advance_probe mc now ev3 b = Some (out, b') \<Longrightarrow> routing_keeps mc b b'"
  "routing_advance_explore mc now ev4 b = Some (out, b') \<Longrightarrow> routing_keeps mc b b'"
  by (auto simp: routing_advance_bootstrap_def routing_advance_include_def routing_advance_probe_def
      routing_advance_explore_def split: option.splits dest!: routing_states_keep)

lemma queued_advances_keep:
  "queue_result (routing_advance_bootstrap mc now ev1 b) = Some b' \<Longrightarrow> routing_keeps mc b b'"
  "queue_result (routing_advance_include mc now ev2 b) = Some b' \<Longrightarrow> routing_keeps mc b b'"
  "queue_result (routing_advance_probe mc now ev3 b) = Some b' \<Longrightarrow> routing_keeps mc b b'"
  "queue_result (routing_advance_explore mc now ev4 b) = Some b' \<Longrightarrow> routing_keeps mc b b'"
  using routing_advances_keep [of mc now _ b]
  by (auto simp: queue_result_def split: option.splits)

lemma poll_children_keeps:
  assumes "poll_children mc now b = Some b'"
  shows "routing_keeps mc b b'"
proof -
  from assms obtain b1 b2 b3 where
    b: "queue_result (routing_advance_bootstrap mc now EventBootstrapPoll (b\<lparr>bh_poll_again := False\<rparr>)) = Some b1"
    "queue_result (routing_advance_include mc now EventIncludePoll b1) = Some b2"
    "queue_result (routing_advance_probe mc now EventProbePoll b2) = Some b3"
    "queue_result (routing_advance_explore mc now EventExplorePoll b3) = Some b'"
    by (auto simp: poll_children_def bind_eq_Some_conv)
  from queued_advances_keep(1) [OF b(1)] have "routing_keeps mc b b1" by simp
  with queued_advances_keep(2) [OF b(2)] queued_advances_keep(3) [OF b(3)] queued_advances_keep(4) [OF b(4)]
  show ?thesis by (meson routing_keeps_trans)
qed

lemma routing_event_keeps:
  assumes "routing_event mc ts ev b = Some (out, b')"
  shows "routing_keeps mc b b'"
proof (cases ev)
  case (EventNotifyConnectivity n)
  show ?thesis
  proof (cases "same_node (rm_kad mc) (rb_self b) n")
    case False
    with assms EventNotifyConnectivity obtain b1 where
      b1: "queue_result (routing_advance_include mc (ts 0) (EventIncludeAddCandidate n) b) = Some b1"
        "routing_advance_probe mc (ts 0) (EventProbeNotifyConnectivity n) b1 = Some (out, b')"
      by (auto simp: bind_eq_Some_conv)
    from queued_advances_keep(2) [OF b1(1)] routing_advances_keep(3) [OF b1(2)]
    show ?thesis by (rule routing_keeps_trans)
  qed (use assms EventNotifyConnectivity in simp)
next
  case (EventGetCloserNodesSuccess i n target closer)
  with assms show ?thesis
    by (auto simp: routing_reply_def dest!: routing_advances_keep split: if_splits)
next
  case (EventGetCloserNodesFailure i n target err)
  with assms show ?thesis
    by (auto simp: routing_no_reply_def dest!: routing_advances_keep split: if_splits)
qed (use assms in \<open>auto dest!: routing_advances_keep poll_children_keeps split: if_splits\<close>)

lemma next_pending_outbound_keeps: "next_pending_outbound b = (out, b') \<Longrightarrow> routing_keeps mc b b'"
  by (auto simp: routing_keeps_def next_pending_outbound_def split: list.splits)

lemma routing_perform_inbound_keeps:
  assumes "routing_perform_inbound mc ts b = Some (out, b')"
  shows "routing_keeps mc b b'"
proof -
  obtain ce b1 where b1: "next_pending_inbound b = (ce, b1)" by fastforce
  with next_pending_inbound_ok [of b] have "routing_keeps mc b b1"
    by (auto simp: routing_keeps_def next_pending_inbound_def split: prod.splits)
  moreover from assms b1 routing_event_keeps have "routing_keeps mc b1 b'"
    by (fastforce simp: routing_perform_inbound_def split: option.splits)
  ultimately show ?thesis by (rule routing_keeps_trans)
qed

text \<open>The ways in which the work of a \<open>Perform\<close> ends.\<close>

lemma routing_perform_work_cases:
  assumes "routing_perform_work mc ts b = Some (out, b')"
  shows "(\<exists>ev. out = Some ev \<and> (next_pending_outbound b = (out, b') \<or>
       (\<exists>b1. next_pending_outbound b = (None, b1) \<and> routing_perform_inbound mc ts b1 = Some (out, b')))) \<or>
    (\<exists>b1 b2 b3. next_pending_outbound b = (None, b1) \<and> routing_perform_inbound mc ts b1 = Some (None, b2) \<and>
       poll_children mc (ts 2) b2 = Some b3 \<and> next_pending_outbound b3 = (out, b'))"
  using assms by (auto simp: routing_perform_work_def split: prod.splits option.splits)

lemma routing_perform_work_keeps:
  assumes "routing_perform_work mc ts b = Some (out, b')"
  shows "routing_keeps mc b b'"
  using routing_perform_work_cases [OF assms]
  by (elim disjE exE conjE)
    (blast intro: routing_keeps_trans next_pending_outbound_keeps routing_perform_inbound_keeps poll_children_keeps)+

section \<open>The contract with the event loop\<close>

type_synonym ('k, 'n, 's) routing_call = "('k, 'n, 's) routing_machines \<times> (nat \<Rightarrow> time)"

fun routing_performs ::
  "('k, 'n, 's) routing_call \<Rightarrow> ('k, 'n, 'm, 's) routing_behaviour \<Rightarrow>
     (('k, 'n, 'm) behaviour_event option \<times> ('k, 'n, 'm, 's) routing_behaviour) option" where
  "routing_performs (mc, ts) b = routing_perform mc ts b"

lemma update_ready_status_routing [simp]:
  fixes b :: "('k, 'n, 'm, 's) routing_behaviour"
  shows "rb_children (update_ready_status now p d b) = rb_children b"
    "rb_explore_due (update_ready_status now p d b) = rb_explore_due b"
    "routing_next_due (update_ready_status now p d b) = routing_next_due b"
    "rb_bootstrap_due (update_ready_status now p d b) = rb_bootstrap_due b"
    "rb_include_due (update_ready_status now p d b) = rb_include_due b"
    "rb_probe_due (update_ready_status now p d b) = rb_probe_due b"
  by (simp_all add: update_ready_status_def signal_ready_def arm_timer_def routing_next_due_def)

lemma routing_performE:
  assumes "routing_perform mc ts b = Some (out, b')"
  obtains b1 where "routing_perform_work mc ts b = Some (out, b1)"
    "b' = update_ready_status (ts 3) (out \<noteq> None) (routing_next_due b1) b1"
  using assms by (auto simp: routing_perform_def)

interpretation routing_loop: performing routing_performs behaviour.truncate routing_next_due "\<lambda>(mc, ts). ts 3"
proof (unfold_locales, goal_cases)
  case (1 c s out s')
  obtain mc ts where c: "c = (mc, ts)" by fastforce
  with 1 have "routing_perform mc ts s = Some (out, s')" by simp
  then show ?case using c by (elim routing_performE) (auto simp: truncate_update_ready_status)
next
  case (2 c s out s')
  obtain mc ts where c: "c = (mc, ts)" by fastforce
  with 2 have "routing_perform mc ts s = Some (out, s')" by simp
  then obtain b1 where "routing_perform_work mc ts s = Some (out, b1)"
    "s' = update_ready_status (ts 3) (out \<noteq> None) (routing_next_due b1) b1"
    by (rule routing_performE)
  with routing_perform_work_keeps [of mc ts s out b1] 2(2) show ?case
    by (simp add: routing_keeps_def update_ready_status_simps)
qed

section \<open>Every machine is polled before the behaviour sleeps\<close>

lemma queue_result_quiet:
  assumes "queue_result r = Some b'" "bh_pending_outbound b' = []"
  shows "r = Some (None, b')"
  using assms by (auto simp: queue_result_def queue_outbound_def split: option.splits)

lemma poll_waits:
  assumes poll: "poll_children mc now b = Some b'" and quiet: "bh_pending_outbound b' = []" "\<not> bh_poll_again b'"
    and no_explore: "rm_explore mc = None \<longrightarrow> rb_explore_due b = 0"
  shows "\<exists>dues. waiting_dues mc now (rb_children b) = Some (dues, rb_children b') \<and>
    earliest_from 0 (filter (\<lambda>d. d \<noteq> 0) dues) = routing_next_due b'"
proof -
  from poll obtain b1 b2 b3 where
    b: "queue_result (routing_advance_bootstrap mc now EventBootstrapPoll (b\<lparr>bh_poll_again := False\<rparr>)) = Some b1"
    "queue_result (routing_advance_include mc now EventIncludePoll b1) = Some b2"
    "queue_result (routing_advance_probe mc now EventProbePoll b2) = Some b3"
    "queue_result (routing_advance_explore mc now EventExplorePoll b3) = Some b'"
    by (auto simp: poll_children_def bind_eq_Some_conv)
  note 4 = queue_result_quiet [OF b(4) quiet(1)]
  have explored: "bh_pending_outbound b3 = [] \<and> rb_bootstrap_due b' = rb_bootstrap_due b3 \<and>
      rb_include_due b' = rb_include_due b3 \<and> rb_probe_due b' = rb_probe_due b3 \<and>
      (case rm_explore mc of
         None \<Rightarrow> rb_explore_due b' = rb_explore_due b3 \<and> rb_children b' = rb_children b3
       | Some explore \<Rightarrow> \<exists>st. explore now EventExplorePoll (rb_children b3) = Some (st, rb_children b') \<and>
           explore_due_of st = Some (rb_explore_due b'))"
  proof (cases "rm_explore mc")
    case (Some explore)
    with 4 obtain st c where st: "explore now EventExplorePoll (rb_children b3) = Some (st, c)"
      "routing_explore_state mc now st (b3\<lparr>rb_children := c\<rparr>) = (None, b')"
      by (auto simp: routing_advance_explore_def)
    with quiet Some show ?thesis by (cases st) (auto simp: behaviour_simps)
  qed (use 4 quiet in \<open>auto simp: routing_advance_explore_def\<close>)
  then have 3: "routing_advance_probe mc now EventProbePoll b2 = Some (None, b3)"
    using queue_result_quiet [OF b(3)] by blast
  then obtain st3 c3 where st3: "rm_probe mc now EventProbePoll (rb_children b2) = Some (st3, c3)"
    "routing_probe_state mc st3 (b2\<lparr>rb_children := c3\<rparr>) = (None, b3)"
    by (auto simp: routing_advance_probe_def)
  have probed: "bh_pending_outbound b2 = [] \<and> rb_bootstrap_due b3 = rb_bootstrap_due b2 \<and> rb_include_due b3 = rb_include_due b2 \<and>
      rb_explore_due b3 = rb_explore_due b2 \<and> rb_children b3 = c3 \<and> probe_due_of st3 = Some (rb_probe_due b3)"
    using st3(2) explored by (cases st3) (auto simp: behaviour_simps queue_outbound_def)
  then have 2: "routing_advance_include mc now EventIncludePoll b1 = Some (None, b2)"
    using queue_result_quiet [OF b(2)] by blast
  then obtain st2 c2 where st2: "rm_include mc now EventIncludePoll (rb_children b1) = Some (st2, c2)"
    "routing_include_state mc st2 (b1\<lparr>rb_children := c2\<rparr>) = (None, b2)"
    by (auto simp: routing_advance_include_def)
  have included: "bh_pending_outbound b1 = [] \<and> rb_bootstrap_due b2 = rb_bootstrap_due b1 \<and>
      rb_explore_due b2 = rb_explore_due b1 \<and> rb_children b2 = c2 \<and> include_due_of st2 = Some (rb_include_due b2)"
    using st2(2) probed by (cases st2) (auto simp: zero_time_def)
  then have 1: "routing_advance_bootstrap mc now EventBootstrapPoll (b\<lparr>bh_poll_again := False\<rparr>) = Some (None, b1)"
    using queue_result_quiet [OF b(1)] by blast
  then obtain st1 c1 where st1: "rm_bootstrap mc now EventBootstrapPoll (rb_children b) = Some (st1, c1)"
    "routing_bootstrap_state mc now st1 (b\<lparr>bh_poll_again := False, rb_children := c1\<rparr>) = (None, b1)"
    by (auto simp: routing_advance_bootstrap_def)
  have booted: "rb_explore_due b1 = rb_explore_due b \<and> rb_children b1 = c1 \<and> bootstrap_due_of st1 = Some (rb_bootstrap_due b1)"
    using st1(2) by (cases st1) auto
  show ?thesis
  proof (cases "rm_explore mc")
    case None
    with explored probed included booted st1 st2 st3 no_explore
    show ?thesis by (simp add: waiting_dues_def routing_next_due_def earlier_def time_defs)
  next
    case (Some explore)
    with explored obtain st4 where "explore now EventExplorePoll (rb_children b3) = Some (st4, rb_children b')"
      "explore_due_of st4 = Some (rb_explore_due b')" by auto
    with Some explored probed included booted st1 st2 st3
    show ?thesis by (simp add: waiting_dues_def routing_next_due_def earlier_def time_defs)
  qed
qed

section \<open>The life of a behaviour\<close>

text \<open>
  What can happen to the behaviour: it is created, notified and performed; the event loop takes its signal and
  its timer fires, and the query behaviour changes the estimator they share.
\<close>

inductive routing_behaviour_reached ::
  "('k, 'n, 's) routing_machines \<Rightarrow> ('k, 'n, 'm, 's) routing_behaviour \<Rightarrow> bool" for mc :: "('k, 'n, 's) routing_machines" where
  created: "b = signal_ready (behaviour.extend (new_behaviour a capacity)
      (routing_behaviour.fields self children estimate zero_time zero_time zero_time zero_time)) \<Longrightarrow>
    routing_behaviour_reached mc b"
| notified: "routing_behaviour_reached mc b \<Longrightarrow> routing_behaviour_reached mc (routing_notify ev b)"
| performed: "routing_behaviour_reached mc b \<Longrightarrow> routing_perform mc ts b = Some (out, b') \<Longrightarrow>
    routing_behaviour_reached mc b'"
| taken: "routing_behaviour_reached mc b \<Longrightarrow> routing_behaviour_reached mc (take_ready b)"
| fired: "routing_behaviour_reached mc b \<Longrightarrow> routing_behaviour_reached mc (timer_fires now b)"
| tracked: "routing_behaviour_reached mc b \<Longrightarrow> routing_behaviour_reached mc (b\<lparr>rb_network_size := e\<rparr>)"

lemma composed_is_reached: "compose_routing_behaviour rnd a self children cfg = Inr b \<Longrightarrow> routing_behaviour_reached mc b"
  by (auto simp: compose_routing_behaviour_def Let_def split: option.splits intro: routing_behaviour_reached.created)

lemma routing_behaviour_reached_ok:
  "routing_behaviour_reached mc b \<Longrightarrow> inbound_ok (bh_inbound b) \<and> (rm_explore mc = None \<longrightarrow> rb_explore_due b = 0)"
proof (induction rule: routing_behaviour_reached.induct)
  case (created b a capacity self children estimate)
  then show ?case
    by (simp add: new_behaviour_def behaviour.defs routing_behaviour.defs signal_ready_def zero_time_def)
next
  case (notified b ev)
  with routing_notify_keeps [of mc b ev] show ?case by (simp add: routing_keeps_def)
next
  case (performed b ts out b')
  then obtain b1 where "routing_perform_work mc ts b = Some (out, b1)"
    "b' = update_ready_status (ts 3) (out \<noteq> None) (routing_next_due b1) b1" by (auto elim: routing_performE)
  with routing_perform_work_keeps [of mc ts b out b1] performed(3) show ?case
    by (simp add: routing_keeps_def update_ready_status_simps)
qed (auto simp: take_ready_def timer_fires_def signal_ready_def split: option.splits)

text \<open>
  C39: liveness. The routing behaviour loses no wake-up: after every \<open>Perform\<close> either it has signalled that it has
  work, or nothing is queued in it in either direction, each of its four machines has been polled and waits,
  and the timer is armed for the earliest instant at which one of them has something to do, if there is one.
\<close>

theorem routing_behaviour_wakes:
  assumes "routing_behaviour_reached mc b" "routing_perform mc ts b = Some (out, b')"
  shows "bh_ready b' \<or> (out = None \<and> bh_pending_outbound b' = [] \<and> iq_events (bh_inbound b') = [] \<and>
    (\<exists>c dues. waiting_dues mc (ts 2) c = Some (dues, rb_children b') \<and>
       bh_timer b' = (if filter (\<lambda>d. d \<noteq> 0) dues = [] then None
         else timer_instant (ts 3) (Min (set (filter (\<lambda>d. d \<noteq> 0) dues))))))"
proof (cases "bh_ready b'")
  case False
  note ok = routing_behaviour_reached_ok [OF assms(1)]
  from assms(2) obtain b1 where work: "routing_perform_work mc ts b = Some (out, b1)"
    "b' = update_ready_status (ts 3) (out \<noteq> None) (routing_next_due b1) b1" by (auto elim: routing_performE)
  have asleep: "out = None \<and> \<not> bh_poll_again b' \<and> bh_pending_outbound b' = [] \<and> iq_events (bh_inbound b') = [] \<and>
      bh_timer b' = timer_instant (ts 3) (routing_next_due b')"
    using routing_loop.awake [of "(mc, ts)" b out b'] assms(2) ok False by simp
  with routing_perform_work_cases [OF work(1)] obtain b2 b3 b4 where poll:
    "next_pending_outbound b = (None, b2)" "routing_perform_inbound mc ts b2 = Some (None, b3)"
    "poll_children mc (ts 2) b3 = Some b4" "next_pending_outbound b4 = (None, b1)" by auto
  from poll(4) have b4: "bh_pending_outbound b4 = []" "b1 = b4"
    by (auto simp: next_pending_outbound_def split: list.splits)
  with asleep work(2) have "\<not> bh_poll_again b4" by (simp add: update_ready_status_simps)
  moreover have "rm_explore mc = None \<longrightarrow> rb_explore_due b3 = 0"
    using ok next_pending_outbound_keeps [OF poll(1), of mc] routing_perform_inbound_keeps [OF poll(2)]
    by (simp add: routing_keeps_def)
  ultimately obtain dues where "waiting_dues mc (ts 2) (rb_children b3) = Some (dues, rb_children b')"
    "earliest_from 0 (filter (\<lambda>d. d \<noteq> 0) dues) = routing_next_due b'"
    using poll_waits [OF poll(3) b4(1)] b4(2) work(2) by auto
  moreover then have "routing_next_due b' =
      (if filter (\<lambda>d. d \<noteq> 0) dues = [] then 0 else Min (set (filter (\<lambda>d. d \<noteq> 0) dues)))"
    using earliest_from_zero [of "filter (\<lambda>d. d \<noteq> 0) dues"] by simp
  then have "bh_timer b' = (if filter (\<lambda>d. d \<noteq> 0) dues = [] then None
      else timer_instant (ts 3) (Min (set (filter (\<lambda>d. d \<noteq> 0) dues))))"
    using asleep by (simp only: timer_instant_def is_zero_def zero_time_def if_cancel split: if_split) simp
  ultimately show ?thesis using asleep by blast
qed simp

end
