(* ===== verification/RoutingComposition.thy ===== *)
theory RoutingComposition
  imports RoutingBehaviourTheorems
begin

text \<open>
  The routing behaviour on the machines of this development, which share one routing table: what a
  \<open>Perform\<close> can do to the table.
\<close>

section \<open>What the machines do to the table\<close>

lemma bootstrap_query_rt: "bootstrap_advance_query kd T now qev q b = Some (st, b') \<Longrightarrow> bs_rt b' = bs_rt b"
  by (auto simp: bootstrap_advance_query_def bootstrap_waiting_def Let_def
      split: prod.splits query_state.splits if_splits)

lemma bootstrap_start_rt: "bootstrap_start_query kd T now seeds trigger b = Some (st, b') \<Longrightarrow> bs_rt b' = bs_rt b"
  by (auto simp: bootstrap_start_query_def Let_def dest: bootstrap_query_rt split: sum.splits)

lemma bootstrap_poll_rt: "bootstrap_poll kd rt T now b = Some (st, b') \<Longrightarrow> bs_rt b' = bs_rt b"
  by (auto simp: bootstrap_poll_def Let_def dest: bootstrap_query_rt bootstrap_start_rt split: option.splits if_splits)

lemma bootstrap_advance_rt:
  "bootstrap_advance kd rt T now ev b = Some (st, b') \<Longrightarrow> bs_rt b' = bs_rt b"
  by (cases ev) (auto simp: bootstrap_advance_def dest: bootstrap_query_rt bootstrap_start_rt bootstrap_poll_rt
      split: option.splits)

lemma explore_query_rt: "explore_advance_query kd T now qev q e = Some (st, e') \<Longrightarrow> ex_rt e' = ex_rt e"
  by (auto simp: explore_advance_query_def explore_waiting_def clear_query_def Let_def
      split: prod.splits query_state.splits if_splits)

lemma explore_start_rt: "explore_start kd rt T cpl_fn now cpl e = Some (st, e') \<Longrightarrow> ex_rt e' = ex_rt e"
  by (auto simp: explore_start_def Let_def dest: explore_query_rt split: prod.splits sum.splits)

lemma explore_poll_rt: "explore_poll kd rt T cpl_fn sched now e = Some (st, e') \<Longrightarrow> ex_rt e' = ex_rt e"
  by (auto simp: explore_poll_def Let_def dest: explore_query_rt explore_start_rt
      split: option.splits prod.splits if_splits)

lemma explore_advance_rt:
  "explore_advance kd rt T cpl_fn sched now ev e = Some (st, e') \<Longrightarrow> ex_rt e' = ex_rt e"
  by (cases ev) (auto simp: explore_advance_def dest: explore_query_rt explore_poll_rt split: option.splits)

text \<open>
  A step of the four machines and their table: the table stays well formed, what is found in it afterwards
  was found before, but for the keys \<open>ks\<close>.
\<close>

definition table_step ::
  "('k, 'n, 'rt) rt_ops \<Rightarrow> ('rt \<Rightarrow> bool) \<Rightarrow> 'k set \<Rightarrow> ('k, 'n, 'tr, 'rt, 'sc, 'g) routing_children \<Rightarrow>
     ('k, 'n, 'tr, 'rt, 'sc, 'g) routing_children \<Rightarrow> bool" where
  "table_step rt table_ok ks c c' \<longleftrightarrow> (table_ok (rc_rt c) \<longrightarrow> table_ok (rc_rt c') \<and>
     (\<forall>k n. rt_get_node rt (rc_rt c') k = Some n \<longrightarrow> rt_get_node rt (rc_rt c) k = Some n \<or> k \<in> ks))"

lemma table_step_refl [simp]: "table_step rt table_ok ks c c"
  by (simp add: table_step_def)

lemma table_step_trans:
  "table_step rt table_ok ks c c1 \<Longrightarrow> table_step rt table_ok {} c1 c2 \<Longrightarrow> table_step rt table_ok ks c c2"
  "table_step rt table_ok {} c c1 \<Longrightarrow> table_step rt table_ok ks c1 c2 \<Longrightarrow> table_step rt table_ok ks c c2"
  unfolding table_step_def by blast+

lemma table_step_same: "rc_rt c' = rc_rt c \<Longrightarrow> table_step rt table_ok ks c c'"
  by (simp add: table_step_def)

text \<open>The keys that an event of the include machine can put into the table.\<close>

definition admitted :: "('k, 'n) kad_ops \<Rightarrow> 'n include_event \<Rightarrow> ('n, 'rt) include_machine \<Rightarrow> 'k set" where
  "admitted kd ev inc =
     (case ev of
        EventIncludeConnectivityCheckSuccess n \<Rightarrow>
          (if map_of (in_checks inc) (key_hex kd (node_key kd n)) = None then {} else {node_key kd n})
      | _ \<Rightarrow> {})"

lemma include_advance_table:
  assumes "routing_table kd rt table_ok" "include_advance kd rt now ev inc = (st, inc')" "table_ok (in_rt inc)"
  shows "table_ok (in_rt inc') \<and> (\<forall>k n. rt_get_node rt (in_rt inc') k = Some n \<longrightarrow>
    rt_get_node rt (in_rt inc) k = Some n \<or> k \<in> admitted kd ev inc)"
proof (cases "in_rt inc' = in_rt inc")
  case False
  have "\<exists>n. ev = EventIncludeConnectivityCheckSuccess n \<and> map_of (in_checks inc) (key_hex kd (node_key kd n)) \<noteq> None \<and>
      in_rt inc' = snd (rt_add_node rt n (in_rt inc))"
  proof (cases "\<exists>n. ev = EventIncludeConnectivityCheckSuccess n")
    case True
    then obtain n where n: "ev = EventIncludeConnectivityCheckSuccess n" by blast
    with assms(2) False show ?thesis
      by (cases "map_of (in_checks inc) (key_hex kd (node_key kd n))")
        (auto simp: include_advance_eq case_prod_beta Let_def prod_eq_iff split: if_splits)
  next
    case other: False
    then have "in_rt (snd (handle_include_event kd rt ev inc)) = in_rt inc" by (cases ev) auto
    with assms(2) have "in_rt inc' = in_rt inc"
      by (auto simp: include_advance_eq case_prod_beta prod_eq_iff split: option.splits)
    with False show ?thesis by simp
  qed
  then obtain n where n: "ev = EventIncludeConnectivityCheckSuccess n"
    "map_of (in_checks inc) (key_hex kd (node_key kd n)) \<noteq> None" "in_rt inc' = snd (rt_add_node rt n (in_rt inc))"
    by blast
  with routing_table.add_ok [OF assms(1,3)] routing_table.add_get_other [OF assms(1,3)] show ?thesis
    by (auto simp: admitted_def)
qed (use assms(3) in simp)

lemma probe_advance_table:
  assumes "routing_table kd rt table_ok" "probe_advance kd rt now ev p = (st, p')" "table_ok (pb_rt p)"
  shows "table_ok (pb_rt p') \<and>
    (\<forall>k n. rt_get_node rt (pb_rt p') k = Some n \<longrightarrow> rt_get_node rt (pb_rt p) k = Some n)"
  using probe_advance_rt [of kd rt now ev p] assms(2) routing_table.remove_ok [OF assms(1,3)]
    routing_table.remove_get [OF assms(1,3)] assms(3)
  by (auto split: if_splits)

section \<open>What the behaviour does to the table\<close>

text \<open>The keys that an event for the behaviour can put into the table.\<close>

fun event_admits ::
  "('k, 'n) kad_ops \<Rightarrow> ('k, 'n, 'm) behaviour_event \<Rightarrow> ('k, 'n, 'tr, 'rt, 'sc, 'g) routing_children \<Rightarrow> 'k set" where
  "event_admits kd (EventGetCloserNodesSuccess i n target closer) c =
     (if i = IncludeActivityID \<and> closer \<noteq> [] then admitted kd (EventIncludeConnectivityCheckSuccess n) (rc_include c)
      else {})"
| "event_admits kd _ c = {}"

lemma admitted_empty [simp]:
  "admitted kd EventIncludePoll inc = {}" "admitted kd (EventIncludeAddCandidate n) inc = {}"
  "admitted kd (EventIncludeConnectivityCheckFailure n err) inc = {}"
  "admitted kd (EventIncludeConnectivityCheckDropped n) inc = {}"
  by (simp_all add: admitted_def)

lemma machines_kad [simp]: "rm_kad (routing_machines_of kd srt rt T cpl_fn sched enabled) = kd"
  by (simp add: routing_machines_of_def)

lemma machine_table_steps:
  assumes "routing_table kd rt table_ok" and mc: "mc = routing_machines_of kd srt rt T cpl_fn sched enabled"
  shows "rm_bootstrap mc now ev1 c = Some (st1, c') \<Longrightarrow> table_step rt table_ok {} c c'"
    "rm_include mc now ev2 c = Some (st2, c') \<Longrightarrow> table_step rt table_ok (admitted kd ev2 (rc_include c)) c c'"
    "rm_probe mc now ev3 c = Some (st3, c') \<Longrightarrow> table_step rt table_ok {} c c'"
    "rm_explore mc = Some explore \<Longrightarrow> explore now ev4 c = Some (st4, c') \<Longrightarrow> table_step rt table_ok {} c c'"
proof -
  show "table_step rt table_ok {} c c'" if "rm_bootstrap mc now ev1 c = Some (st1, c')"
    using that unfolding mc by (intro table_step_same) (auto simp: routing_machines_of_def dest: bootstrap_advance_rt)
  show "table_step rt table_ok {} c c'" if "rm_explore mc = Some explore" "explore now ev4 c = Some (st4, c')"
    using that unfolding mc
    by (intro table_step_same)
      (auto simp: routing_machines_of_def explore_child_def dest!: explore_advance_rt split: if_splits option.splits)
  show "table_step rt table_ok (admitted kd ev2 (rc_include c)) c c'" if "rm_include mc now ev2 c = Some (st2, c')"
  proof -
    from that obtain m where m: "include_advance kd rt now ev2 ((rc_include c)\<lparr>in_rt := rc_rt c\<rparr>) = (st2, m)"
      "rc_rt c' = in_rt m" unfolding mc by (auto simp: routing_machines_of_def split: prod.splits)
    have "admitted kd ev2 ((rc_include c)\<lparr>in_rt := rc_rt c\<rparr>) = admitted kd ev2 (rc_include c)"
      by (simp add: admitted_def split: include_event.split)
    with include_advance_table [OF assms(1) m(1)] m(2) show ?thesis by (simp add: table_step_def)
  qed
  show "table_step rt table_ok {} c c'" if "rm_probe mc now ev3 c = Some (st3, c')"
  proof -
    from that obtain m where m: "probe_advance kd rt now ev3 ((rc_probe c)\<lparr>pb_rt := rc_rt c\<rparr>) = (st3, m)"
      "rc_rt c' = pb_rt m" unfolding mc by (auto simp: routing_machines_of_def split: prod.splits)
    with probe_advance_table [OF assms(1) m(1)] show ?thesis by (simp add: table_step_def)
  qed
qed

lemma advance_table_steps:
  assumes "routing_table kd rt table_ok" "mc = routing_machines_of kd srt rt T cpl_fn sched enabled"
  shows "routing_advance_bootstrap mc now ev1 b = Some (out, b') \<Longrightarrow>
      table_step rt table_ok {} (rb_children b) (rb_children b')"
    "routing_advance_include mc now ev2 b = Some (out, b') \<Longrightarrow>
      table_step rt table_ok (admitted kd ev2 (rc_include (rb_children b))) (rb_children b) (rb_children b')"
    "routing_advance_probe mc now ev3 b = Some (out, b') \<Longrightarrow>
      table_step rt table_ok {} (rb_children b) (rb_children b')"
    "routing_advance_explore mc now ev4 b = Some (out, b') \<Longrightarrow>
      table_step rt table_ok {} (rb_children b) (rb_children b')"
  using machine_table_steps(1) [OF assms, of now ev1 "rb_children b"] machine_table_steps(2) [OF assms, of now ev2 "rb_children b"]
    machine_table_steps(3) [OF assms, of now ev3 "rb_children b"] machine_table_steps(4) [OF assms, of _ now ev4 "rb_children b"]
  by (auto simp: routing_advance_bootstrap_def routing_advance_include_def routing_advance_probe_def
      routing_advance_explore_def split: option.splits dest!: routing_states_keep)

lemma queued_table_step:
  assumes "queue_result r = Some b'" "\<And>out b1. r = Some (out, b1) \<Longrightarrow> table_step rt table_ok ks c (rb_children b1)"
  shows "table_step rt table_ok ks c (rb_children b')"
  using assms by (auto simp: queue_result_def queue_outbound_def split: option.splits)

lemma poll_children_table:
  assumes "routing_table kd rt table_ok" "mc = routing_machines_of kd srt rt T cpl_fn sched enabled"
    "poll_children mc now b = Some b'"
  shows "table_step rt table_ok {} (rb_children b) (rb_children b')"
proof -
  from assms(3) obtain b1 b2 b3 where
    b: "queue_result (routing_advance_bootstrap mc now EventBootstrapPoll (b\<lparr>bh_poll_again := False\<rparr>)) = Some b1"
    "queue_result (routing_advance_include mc now EventIncludePoll b1) = Some b2"
    "queue_result (routing_advance_probe mc now EventProbePoll b2) = Some b3"
    "queue_result (routing_advance_explore mc now EventExplorePoll b3) = Some b'"
    by (auto simp: poll_children_def bind_eq_Some_conv)
  note steps = advance_table_steps [OF assms(1,2)]
  have "table_step rt table_ok {} (rb_children b) (rb_children b1)"
    using queued_table_step [OF b(1), of rt table_ok "{}" "rb_children b"]
      steps(1) [of now EventBootstrapPoll "b\<lparr>bh_poll_again := False\<rparr>"] by simp
  moreover have "table_step rt table_ok {} (rb_children b1) (rb_children b2)"
    using queued_table_step [OF b(2), of rt table_ok "{}" "rb_children b1"] steps(2) [of now EventIncludePoll b1] by simp
  moreover have "table_step rt table_ok {} (rb_children b2) (rb_children b3)"
    using queued_table_step [OF b(3), of rt table_ok "{}" "rb_children b2"] steps(3) [of now EventProbePoll b2] by simp
  moreover have "table_step rt table_ok {} (rb_children b3) (rb_children b')"
    using queued_table_step [OF b(4), of rt table_ok "{}" "rb_children b3"] steps(4) [of now EventExplorePoll b3] by simp
  ultimately show ?thesis by (meson table_step_trans(1))
qed

lemma routing_event_table:
  assumes "routing_table kd rt table_ok" "mc = routing_machines_of kd srt rt T cpl_fn sched enabled"
    "routing_event mc ts ev b = Some (out, b')"
  shows "table_step rt table_ok (event_admits kd ev (rb_children b)) (rb_children b) (rb_children b')"
proof -
  note steps = advance_table_steps [OF assms(1,2)]
  have queued: "rb_children (queue_outbound evs b) = rb_children b" for evs by (simp add: queue_outbound_def)
  show ?thesis
  proof (cases ev)
    case (EventNotifyConnectivity n)
    show ?thesis
    proof (cases "same_node (rm_kad mc) (rb_self b) n")
      case False
      with assms(3) EventNotifyConnectivity obtain b1 where
        b1: "queue_result (routing_advance_include mc (ts 0) (EventIncludeAddCandidate n) b) = Some b1"
          "routing_advance_probe mc (ts 0) (EventProbeNotifyConnectivity n) b1 = Some (out, b')"
        by (auto simp: bind_eq_Some_conv)
      have "table_step rt table_ok {} (rb_children b) (rb_children b1)"
        using queued_table_step [OF b1(1), of rt table_ok "{}" "rb_children b"]
          steps(2) [of "ts 0" "EventIncludeAddCandidate n" b] by simp
      from table_step_trans(1) [OF this steps(3) [OF b1(2)]] EventNotifyConnectivity show ?thesis by simp
    qed (use assms(3) EventNotifyConnectivity in simp)
  next
    case (EventGetCloserNodesSuccess i n target closer)
    with assms(3) show ?thesis
      by (auto simp: routing_reply_def queued BootstrapActivityID_def IncludeActivityID_def dest!: steps split: if_splits)
  next
    case (EventGetCloserNodesFailure i n target err)
    with assms(3) show ?thesis
      by (auto simp: routing_no_reply_def dest!: steps split: if_splits)
  qed (use assms(3) in \<open>auto dest!: steps poll_children_table [OF assms(1,2)] split: if_splits\<close>)
qed

text \<open>The keys that the oldest event in the queue can put into the table, and performing it.\<close>

definition inbound_admits ::
  "('k, 'n) kad_ops \<Rightarrow> ('k, 'n, 'm, ('k, 'n, 'tr, 'rt, 'sc, 'g) routing_children) routing_behaviour \<Rightarrow> 'k set" where
  "inbound_admits kd b =
     (case iq_events (bh_inbound b) of [] \<Rightarrow> {} | ev # evs \<Rightarrow> event_admits kd ev (rb_children b))"

lemma next_pending_children: "next_pending_outbound b = (e, b') \<Longrightarrow> rb_children b' = rb_children b"
  by (auto simp: next_pending_outbound_def split: list.splits)

lemma routing_inbound_table:
  assumes "routing_table kd rt table_ok" and mc: "mc = routing_machines_of kd srt rt T cpl_fn sched enabled"
    and "next_pending_outbound b = (e, b2)" "routing_perform_inbound mc ts b2 = Some (e', b3)"
  shows "table_step rt table_ok (inbound_admits kd b) (rb_children b) (rb_children b3)"
proof -
  from assms(3) have b2: "bh_inbound b2 = bh_inbound b" "rb_children b2 = rb_children b"
    by (auto simp: next_pending_outbound_def split: list.splits)
  show ?thesis
  proof (cases "iq_events (bh_inbound b)")
    case Nil
    with assms(4) b2 show ?thesis
      by (auto simp: routing_perform_inbound_def next_pending_inbound_def inbound_dequeue_def intro: table_step_same)
  next
    case (Cons ev evs)
    let ?b = "b2\<lparr>bh_inbound := (bh_inbound b)\<lparr>iq_events := evs, iq_depth := int (length evs)\<rparr>\<rparr>"
    from assms(4) Cons b2 have "routing_event mc ts ev ?b = Some (e', b3)"
      by (simp add: routing_perform_inbound_def next_pending_inbound_def inbound_dequeue_def)
    from routing_event_table [OF assms(1) mc this] Cons b2 show ?thesis by (simp add: inbound_admits_def)
  qed
qed

lemma inbound_admits_iff:
  "k \<in> inbound_admits kd b \<longleftrightarrow>
     (\<exists>m target closer evs. iq_events (bh_inbound b) = EventGetCloserNodesSuccess IncludeActivityID m target closer # evs \<and>
        closer \<noteq> [] \<and> k = node_key kd m \<and> map_of (in_checks (rc_include (rb_children b))) (key_hex kd k) \<noteq> None)"
proof (cases "iq_events (bh_inbound b)")
  case (Cons ev evs)
  then show ?thesis by (cases ev) (auto simp: inbound_admits_def admitted_def)
qed (simp add: inbound_admits_def)

text \<open>
  C40: safety. On the machines of this development, a \<open>Perform\<close> of the routing behaviour puts a node into the
  routing table in one way only: the oldest event the behaviour was notified of is the answer of that node to a
  connectivity check that the include machine has in progress, and the answer names at least one other node.
  Every other node in the table afterwards was there before, and the table stays well formed.
\<close>

theorem routing_table_admits_checked:
  assumes "routing_table kd rt table_ok" "table_ok (rc_rt (rb_children b))"
    "routing_perform (routing_machines_of kd srt rt T cpl_fn sched enabled) ts b = Some (out, b')"
  shows "table_ok (rc_rt (rb_children b')) \<and>
    (\<forall>k n. rt_get_node rt (rc_rt (rb_children b')) k = Some n \<longrightarrow> rt_get_node rt (rc_rt (rb_children b)) k = Some n \<or>
      (\<exists>m target closer evs. iq_events (bh_inbound b) = EventGetCloserNodesSuccess IncludeActivityID m target closer # evs \<and>
         closer \<noteq> [] \<and> k = node_key kd m \<and>
         map_of (in_checks (rc_include (rb_children b))) (key_hex kd k) \<noteq> None))"
proof -
  define mc where mc: "mc = routing_machines_of kd srt rt T cpl_fn sched enabled"
  from assms(3) mc obtain b1 where work: "routing_perform_work mc ts b = Some (out, b1)"
    "rb_children b' = rb_children b1" by (auto elim: routing_performE)
  note inbound = routing_inbound_table [OF assms(1) mc]
  from routing_perform_work_cases [OF work(1)]
  have "table_step rt table_ok (inbound_admits kd b) (rb_children b) (rb_children b1)"
    (is "?step b1")
  proof (elim disjE exE conjE)
    assume "next_pending_outbound b = (out, b1)"
    from next_pending_children [OF this] show "?step b1" by simp
  next
    fix b2 assume first: "next_pending_outbound b = (None, b2)" "routing_perform_inbound mc ts b2 = Some (out, b1)"
    show "?step b1" by (rule inbound [OF first])
  next
    fix b2 b3 b4 assume first: "next_pending_outbound b = (None, b2)" "routing_perform_inbound mc ts b2 = Some (None, b3)"
      and polled: "poll_children mc (ts 2) b3 = Some b4" and last: "next_pending_outbound b4 = (out, b1)"
    from table_step_trans(1) [OF inbound [OF first] poll_children_table [OF assms(1) mc polled]] next_pending_children [OF last]
    show "?step b1" by simp
  qed
  then show ?thesis using assms(2) unfolding table_step_def inbound_admits_iff work(2) by blast
qed

end
