(* ===== verification/RoutingWitnesses.thy ===== *)
theory RoutingWitnesses
  imports RoutingComposition BootstrapWitnesses ProbeWitnesses ExploreWitnesses
begin

text \<open>
  The routing behaviour on the tiny network: a node answers the connectivity check that is in progress, enters
  the empty table and is then watched by the probe machine.
\<close>

type_synonym tiny_routing_children = "(tiny_key, tiny_node, (tiny_key \<times> tiny_node node_status) list,
  (tiny_key, tiny_node) list_table, dynamic_schedule, unit) routing_children"

type_synonym tiny_routing = "(tiny_key, tiny_node, tiny_message, tiny_routing_children) routing_behaviour"

definition tiny_routing_machines :: "(tiny_key, tiny_node, tiny_routing_children) routing_machines" where
  "tiny_routing_machines =
     routing_machines_of tiny_kad (\<lambda>cmp ns. ns) tiny_rt tiny_trie tiny_cpl_fn (dynamic_ops id) False"

definition tiny_children :: tiny_routing_children where
  "tiny_children = \<lparr>rc_rt = tiny_table, rc_bootstrap = tiny_bootstrap_new,
     rc_include = tiny_include_with [] (tiny_check 4), rc_probe = tiny_probe_new, rc_explore = None\<rparr>"

definition tiny_routing_behaviour :: tiny_routing where
  "tiny_routing_behaviour = signal_ready (behaviour.extend (new_behaviour 1 4)
      (routing_behaviour.fields (new_node 0) tiny_children None zero_time zero_time zero_time zero_time))"

definition tiny_routing_answered :: tiny_routing where
  "tiny_routing_answered =
     routing_notify (EventGetCloserNodesSuccess ''include'' (new_node 4) 4 [new_node 5]) tiny_routing_behaviour"

abbreviation tiny_routing_perform ::
  "time \<Rightarrow> tiny_routing \<Rightarrow> ((tiny_key, tiny_node, tiny_message) behaviour_event option \<times> tiny_routing) option" where
  "tiny_routing_perform now \<equiv> routing_perform tiny_routing_machines (\<lambda>i. now)"

definition tiny_routing_added :: tiny_routing where
  "tiny_routing_added = snd (the (tiny_routing_perform 2 tiny_routing_answered))"

definition tiny_routing_asleep :: tiny_routing where
  "tiny_routing_asleep = snd (the (tiny_routing_perform 3 (take_ready tiny_routing_added)))"

lemma tiny_routing_adds:
  "map_option (\<lambda>(out, b). (out, rt_get_node tiny_rt (rc_rt (rb_children b)) 4)) (tiny_routing_perform 2 tiny_routing_answered) =
     Some (Some (EventRoutingUpdated (new_node 4)), Some (new_node 4))"
  by code_simp

lemma tiny_routing_sleeps:
  "map_option (\<lambda>(out, b). (out, bh_ready b, bh_timer b)) (tiny_routing_perform 3 (take_ready tiny_routing_added)) =
     Some (None, False, Some 13)"
  by code_simp

lemma tiny_routing_steps:
  "tiny_routing_perform 2 tiny_routing_answered = Some (Some (EventRoutingUpdated (new_node 4)), tiny_routing_added)"
  "rt_get_node tiny_rt (rc_rt (rb_children tiny_routing_added)) 4 = Some (new_node 4)"
  "tiny_routing_perform 3 (take_ready tiny_routing_added) = Some (None, tiny_routing_asleep)"
  "\<not> bh_ready tiny_routing_asleep" "bh_timer tiny_routing_asleep = Some 13"
  using tiny_routing_adds tiny_routing_sleeps by (auto simp: tiny_routing_added_def tiny_routing_asleep_def)

lemma tiny_routing_reached:
  "routing_behaviour_reached tiny_routing_machines tiny_routing_answered"
  "routing_behaviour_reached tiny_routing_machines (take_ready tiny_routing_added)"
proof -
  show answered: "routing_behaviour_reached tiny_routing_machines tiny_routing_answered"
    unfolding tiny_routing_answered_def
    by (intro routing_behaviour_reached.notified routing_behaviour_reached.created [OF tiny_routing_behaviour_def])
  show "routing_behaviour_reached tiny_routing_machines (take_ready tiny_routing_added)"
    using routing_behaviour_reached.taken [OF routing_behaviour_reached.performed [OF answered tiny_routing_steps(1)]] .
qed

theorem routing_behaviour_wakes_witness:
  "\<exists>c dues. waiting_dues tiny_routing_machines 3 c = Some (dues, rb_children tiny_routing_asleep) \<and>
     timer_instant 3 (Min (set (filter (\<lambda>d. d \<noteq> 0) dues))) = Some 13"
proof -
  obtain c dues where "waiting_dues tiny_routing_machines 3 c = Some (dues, rb_children tiny_routing_asleep)"
    "bh_timer tiny_routing_asleep = (if filter (\<lambda>d. d \<noteq> 0) dues = [] then None
       else timer_instant 3 (Min (set (filter (\<lambda>d. d \<noteq> 0) dues))))"
    using routing_behaviour_wakes [OF tiny_routing_reached(2) tiny_routing_steps(3)] tiny_routing_steps(4) by blast
  then show ?thesis using tiny_routing_steps(5) by (intro exI [of _ c] exI [of _ dues]) (simp split: if_splits)
qed

theorem routing_table_admits_checked_witness:
  "map_of (in_checks (rc_include tiny_children)) (tiny_hex 4) \<noteq> None \<and>
   list_table_ok tiny_kad (rc_rt (rb_children tiny_routing_added))"
proof -
  have children: "rb_children tiny_routing_answered = tiny_children"
    by (simp add: tiny_routing_answered_def tiny_routing_behaviour_def behaviour_simps new_behaviour_def behaviour.defs
        routing_behaviour.defs signal_ready_def)
  have "rt_get_node tiny_rt (rc_rt tiny_children) 4 = None" "list_table_ok tiny_kad (rc_rt tiny_children)"
    by (simp_all add: tiny_children_def tiny_table_def list_table_ops_def list_table_ok_def)
  with routing_table_admits_checked [OF list_table.routing_table_axioms _ tiny_routing_steps(1) [unfolded tiny_routing_machines_def]]
    tiny_routing_steps(2) show ?thesis
    unfolding children by (force simp: tiny_kad_def)
qed

end
