(* ===== verification/Spec2Isabelle.thy ===== *)
theory Spec2Isabelle
  imports QueryWitnesses QueryPoolTheorems IncludeTheorems ProbeWitnesses BootstrapWitnesses ExploreWitnesses PrefixTableWitnesses KeystoreTheorems StaticPublishTheorems FollowUpWitnesses RegionPublishTheorems SurveyWitnesses NetSizeTheorems PublishPoolWitnesses QueryBehaviourWitnesses NetworkTheorems PublishBehaviourWitnesses RoutingWitnesses
begin

text \<open>
  A verification development of the Kademlia library under \<open>src/\<close>.
\<close>

end
